(* ===== verification/Prelude.thy ===== *)
theory Prelude
  imports Main
begin

text \<open>
  Shared vocabulary of the development: the exceptions the modelled Python code raises, the
  result type that carries them, sequencing of fallible calls, and generic lemmas on lists.

  A Python call that can raise is a function into \<open>'a result\<close>: \<open>Inl e\<close> is the exception,
  \<open>Inr v\<close> the returned value. \<open>rbind\<close> is "run the call, then go on unless it raised", and
  \<open>rfold\<close> is a \<open>for\<close> loop whose body may raise.
\<close>

section \<open>Collections of rewrite rules\<close>

named_theorems dict_simps \<open>lookup and key-set rules of the insertion-ordered dictionary\<close>
named_theorems result_simps \<open>inversion rules for fallible calls that returned a value\<close>

section \<open>Exceptions and results\<close>

datatype py_exn =
    ValueError string
  | KeyError string
  | IndexError string
  | LookupError string
  | AttributeError string
  | TypeError string
  | RuntimeError string
  | NotImplementedError string
  | OtherError string

type_synonym 'a result = "py_exn + 'a"

text \<open>What an HTTP endpoint answers: a value, an \<open>HTTPException\<close>, or an exception it does not catch.\<close>

datatype http_error = HttpError nat string | Uncaught py_exn

type_synonym 'a http = "http_error + 'a"

definition uncaught :: "'a result \<Rightarrow> 'a http" where
  "uncaught r = (case r of Inl x \<Rightarrow> Inl (Uncaught x) | Inr v \<Rightarrow> Inr v)"

definition rbind :: "'a result \<Rightarrow> ('a \<Rightarrow> 'b result) \<Rightarrow> 'b result" where
  "rbind r f = (case r of Inl e \<Rightarrow> Inl e | Inr x \<Rightarrow> f x)"

definition rmap :: "('a \<Rightarrow> 'b) \<Rightarrow> 'a result \<Rightarrow> 'b result" where
  "rmap f r = (case r of Inl e \<Rightarrow> Inl e | Inr x \<Rightarrow> Inr (f x))"

fun rfold :: "('a \<Rightarrow> 's \<Rightarrow> 's result) \<Rightarrow> 'a list \<Rightarrow> 's \<Rightarrow> 's result" where
  "rfold f [] s = Inr s"
| "rfold f (x # xs) s = (case f x s of Inl e \<Rightarrow> Inl e | Inr s' \<Rightarrow> rfold f xs s')"

lemma rbind_simps [simp]:
  "rbind (Inl e) f = Inl e"
  "rbind (Inr x) f = f x"
  by (simp_all add: rbind_def)

lemma rmap_simps [simp]:
  "rmap f (Inl e) = Inl e"
  "rmap f (Inr x) = Inr (f x)"
  by (simp_all add: rmap_def)

lemma uncaught_simps [simp]:
  "uncaught (Inl e) = Inl (Uncaught e)"
  "uncaught (Inr x) = Inr x"
  by (simp_all add: uncaught_def)

lemma rbind_Inr [result_simps]: "rbind r f = Inr y \<longleftrightarrow> (\<exists>x. r = Inr x \<and> f x = Inr y)"
  by (cases r) auto

lemma rbind_Inl [result_simps]:
  "rbind r f = Inl e \<longleftrightarrow> r = Inl e \<or> (\<exists>x. r = Inr x \<and> f x = Inl e)"
  by (cases r) auto

lemma rmap_Inr [result_simps]: "rmap f r = Inr y \<longleftrightarrow> (\<exists>x. r = Inr x \<and> f x = y)"
  by (cases r) auto

text \<open>A fallible call on each element in order.\<close>

definition rmap_list :: "('a \<Rightarrow> 'b result) \<Rightarrow> 'a list \<Rightarrow> 'b list result" where
  "rmap_list f xs = foldr (\<lambda>x r. rbind (f x) (\<lambda>y. rmap ((#) y) r)) xs (Inr [])"

lemma rmap_list_map: "(\<And>x. x \<in> set xs \<Longrightarrow> f (g x) = Inr (h x)) \<Longrightarrow> rmap_list f (map g xs) = Inr (map h xs)"
  by (induction xs) (simp_all add: rmap_list_def)

lemma rmap_list_Inr_set: "rmap_list f xs = Inr ys \<Longrightarrow> y \<in> set ys \<Longrightarrow> \<exists>x\<in>set xs. f x = Inr y"
  by (induction xs arbitrary: ys) (auto simp: rmap_list_def result_simps)

lemma rmap_list_length: "rmap_list f xs = Inr ys \<Longrightarrow> length ys = length xs"
  by (induction xs arbitrary: ys) (auto simp: rmap_list_def result_simps)

lemma rmap_list_total: "(\<And>x. x \<in> set xs \<Longrightarrow> \<exists>y. f x = Inr y) \<Longrightarrow> \<exists>ys. rmap_list f xs = Inr ys"
proof (induction xs)
  case (Cons x xs)
  obtain y where "f x = Inr y" using Cons.prems by auto
  moreover obtain ys where "rmap_list f xs = Inr ys" using Cons.IH Cons.prems by auto
  ultimately show ?case by (simp add: rmap_list_def)
qed (simp add: rmap_list_def)

lemma rfold_append:
  "rfold f (xs @ ys) s = rbind (rfold f xs s) (rfold f ys)"
  by (induction xs arbitrary: s) (auto split: sum.splits)

text \<open>A property that every step of a loop keeps holds after the loop.\<close>

lemma rfold_invariant:
  assumes "\<And>x s s'. x \<in> set xs \<Longrightarrow> P s \<Longrightarrow> f x s = Inr s' \<Longrightarrow> P s'"
    and "rfold f xs s = Inr t" and "P s"
  shows "P t"
  using assms
proof (induction xs arbitrary: s)
  case Nil
  then show ?case by simp
next
  case (Cons x xs)
  from Cons.prems(2) obtain s' where s': "f x s = Inr s'" and rest: "rfold f xs s' = Inr t"
    by (auto split: sum.splits)
  have "P s'" using Cons.prems(1) [OF _ Cons.prems(3) s'] by simp
  show ?case by (rule Cons.IH [OF _ rest \<open>P s'\<close>]) (use Cons.prems(1) in auto)
qed

lemma fold_invariant_list:
  assumes "\<And>x s. x \<in> set xs \<Longrightarrow> P s \<Longrightarrow> P (f x s)" and "P s"
  shows "P (fold f xs s)"
  using assms by (induction xs arbitrary: s) auto

section \<open>Lists\<close>

lemma filter_split_first:
  assumes "x \<in> set xs"
  obtains ys zs where "xs = ys @ x # zs" and "x \<notin> set ys"
  using assms split_list_first by metis

lemma map_fst_filter_distinct:
  "distinct (map fst xs) \<Longrightarrow> distinct (map fst (filter P xs))"
  by (induction xs) (auto)

lemma butlast_snoc_last: "xs \<noteq> [] \<Longrightarrow> xs = butlast xs @ [last xs]"
  by simp

text \<open>Python's \<open>xs[i]\<close>: a negative index counts from the end, anything else raises.\<close>

definition py_index :: "'a list \<Rightarrow> int \<Rightarrow> 'a result" where
  "py_index xs i =
     (if 0 \<le> i \<and> nat i < length xs then Inr (xs ! nat i)
      else if i < 0 \<and> nat (- i) \<le> length xs then Inr (xs ! (length xs - nat (- i)))
      else Inl (IndexError ''list index out of range''))"

lemma py_index_in_set: "py_index xs i = Inr x \<Longrightarrow> x \<in> set xs"
  by (auto simp: py_index_def split: if_splits intro!: nth_mem)

end
