(* ===== verification/PyDict.thy ===== *)
theory PyDict
  imports Prelude
begin

text \<open>
  Python dictionaries. A \<open>dict\<close> (and \<open>OrderedDict\<close>) keeps its insertion order, which the
  modelled code observes (registry listings, LRU eviction, the order of a breadth-first queue),
  so a dictionary is the association list of its items in order. \<open>dset\<close> overwrites in place and
  appends a new key, \<open>dpop\<close> removes, \<open>dmove_end\<close> and \<open>dpop_first\<close> are \<open>move_to_end\<close> and
  \<open>popitem(last=False)\<close>. \<open>dwf\<close> (no key twice) holds of every dictionary the operations build.

  The locale \<open>mapping\<close> states what a client may rely on, without the representation; it is
  interpreted on these operations (prefix \<open>pd\<close>).
\<close>

type_synonym ('k, 'v) pydict = "('k \<times> 'v) list"

definition dget :: "('k, 'v) pydict \<Rightarrow> 'k \<Rightarrow> 'v option" where
  "dget d k = map_of d k"

fun dset :: "('k, 'v) pydict \<Rightarrow> 'k \<Rightarrow> 'v \<Rightarrow> ('k, 'v) pydict" where
  "dset [] k v = [(k, v)]"
| "dset ((k', v') # d) k v = (if k' = k then (k, v) # d else (k', v') # dset d k v)"

definition dpop :: "('k, 'v) pydict \<Rightarrow> 'k \<Rightarrow> ('k, 'v) pydict" where
  "dpop d k = filter (\<lambda>(k', _). k' \<noteq> k) d"

definition dkeys :: "('k, 'v) pydict \<Rightarrow> 'k list" where
  "dkeys d = map fst d"

definition dvals :: "('k, 'v) pydict \<Rightarrow> 'v list" where
  "dvals d = map snd d"

definition dhas :: "('k, 'v) pydict \<Rightarrow> 'k \<Rightarrow> bool" where
  "dhas d k \<longleftrightarrow> k \<in> set (dkeys d)"

definition dget_or :: "('k, 'v) pydict \<Rightarrow> 'k \<Rightarrow> 'v \<Rightarrow> 'v" where
  "dget_or d k v = (case dget d k of None \<Rightarrow> v | Some x \<Rightarrow> x)"

definition dmove_end :: "('k, 'v) pydict \<Rightarrow> 'k \<Rightarrow> ('k, 'v) pydict" where
  "dmove_end d k = (case dget d k of None \<Rightarrow> d | Some v \<Rightarrow> dpop d k @ [(k, v)])"

definition dpop_first :: "('k, 'v) pydict \<Rightarrow> (('k \<times> 'v) \<times> ('k, 'v) pydict) option" where
  "dpop_first d = (case d of [] \<Rightarrow> None | kv # d' \<Rightarrow> Some (kv, d'))"

definition dwf :: "('k, 'v) pydict \<Rightarrow> bool" where
  "dwf d \<longleftrightarrow> distinct (dkeys d)"

section \<open>Lookup laws\<close>

lemma dget_Nil [simp, dict_simps]: "dget [] k = None"
  by (simp add: dget_def)

lemma dget_Cons [simp, dict_simps]:
  "dget ((k', v) # d) k = (if k' = k then Some v else dget d k)"
  by (simp add: dget_def)

lemma dget_dset [simp, dict_simps]:
  "dget (dset d k v) k' = (if k = k' then Some v else dget d k')"
  by (induction d k v rule: dset.induct) auto

lemma dget_append [dict_simps]:
  "dget (d @ e) k = (case dget d k of None \<Rightarrow> dget e k | Some v \<Rightarrow> Some v)"
  by (induction d) auto

lemma dget_None_iff [dict_simps]: "dget d k = None \<longleftrightarrow> k \<notin> set (dkeys d)"
  by (simp add: dget_def dkeys_def map_of_eq_None_iff)

lemma dget_SomeD: "dget d k = Some v \<Longrightarrow> (k, v) \<in> set d"
  by (simp add: dget_def map_of_SomeD)

lemma dget_Some_key: "dget d k = Some v \<Longrightarrow> k \<in> set (dkeys d)"
  by (force simp: dkeys_def dest: dget_SomeD)

lemma dget_key_Some: "k \<in> set (dkeys d) \<Longrightarrow> \<exists>v. dget d k = Some v"
  using dget_None_iff [of d k] by fastforce

lemma dget_Some_val: "dget d k = Some v \<Longrightarrow> v \<in> set (dvals d)"
  by (force simp: dvals_def dest: dget_SomeD)

lemma dwf_dget_iff: "dwf d \<Longrightarrow> dget d k = Some v \<longleftrightarrow> (k, v) \<in> set d"
  by (simp add: dwf_def dkeys_def dget_def)

lemma dhas_iff: "dhas d k \<longleftrightarrow> dget d k \<noteq> None"
  by (simp add: dhas_def dget_None_iff)

lemma dget_dpop [simp, dict_simps]: "dget (dpop d k) k' = (if k = k' then None else dget d k')"
  by (induction d) (auto simp: dpop_def)

lemma dget_const [simp]: "dget (map (\<lambda>k. (k, c)) ks) k = (if k \<in> set ks then Some c else None)"
  by (induction ks) auto

section \<open>Keys and well-formedness\<close>

lemma dkeys_dset: "dkeys (dset d k v) = (if k \<in> set (dkeys d) then dkeys d else dkeys d @ [k])"
  by (induction d k v rule: dset.induct) (auto simp: dkeys_def)

lemma set_dkeys_dset [simp, dict_simps]: "set (dkeys (dset d k v)) = insert k (set (dkeys d))"
  by (auto simp: dkeys_dset)

lemma dkeys_dpop: "dkeys (dpop d k) = filter (\<lambda>k'. k' \<noteq> k) (dkeys d)"
  by (induction d) (auto simp: dpop_def dkeys_def)

lemma set_dkeys_dpop [simp, dict_simps]: "set (dkeys (dpop d k)) = set (dkeys d) - {k}"
  by (auto simp: dkeys_dpop)

lemma length_dkeys [simp]: "length (dkeys d) = length d"
  by (simp add: dkeys_def)

lemma dkeys_Nil [simp]: "dkeys [] = []"
  by (simp add: dkeys_def)

lemma dkeys_Cons [simp]: "dkeys (kv # d) = fst kv # dkeys d"
  by (simp add: dkeys_def)

lemma dkeys_append [simp]: "dkeys (d @ e) = dkeys d @ dkeys e"
  by (simp add: dkeys_def)

lemma dwf_Nil [simp, intro]: "dwf []"
  by (simp add: dwf_def)

lemma dwf_dset [intro]: "dwf d \<Longrightarrow> dwf (dset d k v)"
  by (auto simp: dwf_def dkeys_dset)

lemma dwf_dpop [intro]: "dwf d \<Longrightarrow> dwf (dpop d k)"
  by (simp add: dwf_def dkeys_dpop)

lemma dwf_Cons: "dwf (kv # d) \<longleftrightarrow> fst kv \<notin> set (dkeys d) \<and> dwf d"
  by (simp add: dwf_def)

lemma length_dset:
  "length (dset d k v) = (if k \<in> set (dkeys d) then length d else Suc (length d))"
  by (metis dkeys_dset length_append_singleton length_dkeys)

lemma dset_new: "k \<notin> set (dkeys d) \<Longrightarrow> dset d k v = d @ [(k, v)]"
  by (induction d k v rule: dset.induct) auto

lemma dpop_absent: "k \<notin> set (dkeys d) \<Longrightarrow> dpop d k = d"
  by (induction d) (auto simp: dpop_def)

lemma length_dpop:
  "dwf d \<Longrightarrow> k \<in> set (dkeys d) \<Longrightarrow> Suc (length (dpop d k)) = length d"
proof (induction d)
  case Nil
  then show ?case by simp
next
  case (Cons kv d)
  show ?case
  proof (cases "fst kv = k")
    case True
    with Cons.prems have "k \<notin> set (dkeys d)" by (auto simp: dwf_Cons)
    then have "dpop d k = d" by (rule dpop_absent)
    with True show ?thesis by (auto simp: dpop_def split: prod.splits)
  next
    case False
    with Cons show ?thesis by (auto simp: dpop_def dwf_Cons split: prod.splits)
  qed
qed

lemma dkeys_dmove_end:
  "k \<in> set (dkeys d) \<Longrightarrow> dkeys (dmove_end d k) = filter (\<lambda>k'. k' \<noteq> k) (dkeys d) @ [k]"
  by (auto simp: dmove_end_def dkeys_dpop dest: dget_key_Some split: option.splits)

lemma dwf_dmove_end [intro]: "dwf d \<Longrightarrow> dwf (dmove_end d k)"
  by (auto simp: dmove_end_def dwf_def dkeys_dpop split: option.splits)

lemma dget_dmove_end [simp, dict_simps]: "dget (dmove_end d k) k' = dget d k'"
  by (auto simp: dmove_end_def dget_append split: option.splits)

lemma set_dkeys_dmove_end [simp]: "set (dkeys (dmove_end d k)) = set (dkeys d)"
  by (cases "k \<in> set (dkeys d)")
     (auto simp: dkeys_dmove_end, auto simp: dmove_end_def split: option.splits dest: dget_Some_key)

lemma length_dmove_end: "dwf d \<Longrightarrow> length (dmove_end d k) = length d"
  using dwf_dmove_end [of d k] set_dkeys_dmove_end [of d k]
  by (metis distinct_card dwf_def length_dkeys)

section \<open>The interface a client relies on\<close>

locale mapping =
  fixes get :: "'m \<Rightarrow> 'k \<Rightarrow> 'v option"
    and put :: "'m \<Rightarrow> 'k \<Rightarrow> 'v \<Rightarrow> 'm"
    and del :: "'m \<Rightarrow> 'k \<Rightarrow> 'm"
    and inv :: "'m \<Rightarrow> bool"
  assumes get_put: "get (put m k v) k' = (if k = k' then Some v else get m k')"
    and get_del: "get (del m k) k' = (if k = k' then None else get m k')"
    and inv_put: "inv m \<Longrightarrow> inv (put m k v)"
    and inv_del: "inv m \<Longrightarrow> inv (del m k)"
begin

text \<open>Storing a list of items one after another: the last binding of a key wins.\<close>

definition put_all :: "('k \<times> 'v) list \<Rightarrow> 'm \<Rightarrow> 'm" where
  "put_all kvs m = fold (\<lambda>(k, v) m. put m k v) kvs m"

lemma get_put_all:
  "get (put_all kvs m) k = (case map_of (rev kvs) k of None \<Rightarrow> get m k | Some v \<Rightarrow> Some v)"
proof (induction kvs arbitrary: m)
  case Nil
  then show ?case by (simp add: put_all_def)
next
  case (Cons kv kvs)
  obtain k' v' where kv: "kv = (k', v')" by (cases kv)
  have "put_all (kv # kvs) m = put_all kvs (put m k' v')"
    by (simp add: put_all_def kv)
  then show ?case
    using Cons.IH [of "put m k' v'"]
    by (auto simp: kv get_put map_add_def split: option.splits)
qed

lemma inv_put_all: "inv m \<Longrightarrow> inv (put_all kvs m)"
  unfolding put_all_def
  by (rule fold_invariant_list [where P = inv]) (auto intro: inv_put)

lemma get_del_all:
  "get (fold (\<lambda>k m. del m k) ks m) k = (if k \<in> set ks then None else get m k)"
  by (induction ks arbitrary: m) (auto simp: get_del)

lemma inv_del_all: "inv m \<Longrightarrow> inv (fold (\<lambda>k m. del m k) ks m)"
  by (rule fold_invariant_list [where P = inv]) (auto intro: inv_del)

end

interpretation pd: mapping dget dset dpop dwf
  by unfold_locales auto

end
