(* ===== verification/PyValue.thy ===== *)
theory PyValue
  imports PyDict
begin

text \<open>
  The dynamically typed values the modelled code passes around (\<open>Any\<close>: node inputs, JSON
  messages, tool arguments). A float is carried by its \<open>repr\<close>, because the modelled code never
  computes with one; a \<open>dict\<close> has string keys, as every JSON object has.

  The operations are the ones the code applies to such values: truth value, \<open>type(v).__name__\<close>,
  \<open>isinstance\<close>, \<open>str(v)\<close> for the types that occur in messages, and \<open>str.upper\<close>/\<open>lower\<close>/\<open>strip\<close>
  on ASCII text.
\<close>

datatype pyval =
    PNone
  | PBool bool
  | PInt int
  | PFloat string
  | PStr string
  | PList "pyval list"
  | PDict "(string \<times> pyval) list"

type_synonym pdict = "(string, pyval) pydict"

fun truthy :: "pyval \<Rightarrow> bool" where
  "truthy PNone = False"
| "truthy (PBool b) = b"
| "truthy (PInt i) = (i \<noteq> 0)"
| "truthy (PFloat s) = (s \<noteq> ''0.0'' \<and> s \<noteq> ''-0.0'')"
| "truthy (PStr s) = (s \<noteq> [])"
| "truthy (PList vs) = (vs \<noteq> [])"
| "truthy (PDict d) = (d \<noteq> [])"

fun type_name :: "pyval \<Rightarrow> string" where
  "type_name PNone = ''NoneType''"
| "type_name (PBool b) = ''bool''"
| "type_name (PInt i) = ''int''"
| "type_name (PFloat s) = ''float''"
| "type_name (PStr s) = ''str''"
| "type_name (PList vs) = ''list''"
| "type_name (PDict d) = ''dict''"

text \<open>\<open>isinstance(v, T)\<close> for the classes the code tests; \<open>bool\<close> is a subclass of \<open>int\<close>.\<close>

datatype pyclass = ClsStr | ClsInt | ClsFloat | ClsBool | ClsList | ClsDict | ClsNone

fun is_instance :: "pyval \<Rightarrow> pyclass \<Rightarrow> bool" where
  "is_instance (PStr _) ClsStr = True"
| "is_instance (PInt _) ClsInt = True"
| "is_instance (PBool _) ClsInt = True"
| "is_instance (PBool _) ClsBool = True"
| "is_instance (PFloat _) ClsFloat = True"
| "is_instance (PList _) ClsList = True"
| "is_instance (PDict _) ClsDict = True"
| "is_instance PNone ClsNone = True"
| "is_instance _ _ = False"

text \<open>What may be a dictionary key.\<close>

fun hashable :: "pyval \<Rightarrow> bool" where
  "hashable (PList _) = False"
| "hashable (PDict _) = False"
| "hashable _ = True"

lemma is_instance_ClsStr: "is_instance v ClsStr \<longleftrightarrow> (\<exists>s. v = PStr s)"
  by (cases v) auto

lemma is_instance_ClsInt: "is_instance v ClsInt \<longleftrightarrow> (\<exists>i. v = PInt i) \<or> (\<exists>b. v = PBool b)"
  by (cases v) auto

section \<open>Decimal numerals and joins\<close>

text \<open>A dash of the messages, in UTF-8.\<close>

definition em_dash :: string where
  "em_dash = [CHR 0xE2, CHR 0x80, CHR 0x94]"

definition digit_char :: "nat \<Rightarrow> char" where
  "digit_char n = char_of (48 + n mod 10)"

fun nat_str :: "nat \<Rightarrow> string" where
  "nat_str n = (if n < 10 then [digit_char n] else nat_str (n div 10) @ [digit_char n])"

declare nat_str.simps [simp del]

definition int_str :: "int \<Rightarrow> string" where
  "int_str i = (if i < 0 then CHR ''-'' # nat_str (nat (- i)) else nat_str (nat i))"

text \<open>\<open>sep.join(xs)\<close>.\<close>

fun str_join :: "string \<Rightarrow> string list \<Rightarrow> string" where
  "str_join sep [] = []"
| "str_join sep [x] = x"
| "str_join sep (x # xs) = x @ sep @ str_join sep xs"

text \<open>\<open>str(v)\<close> inside a list or dict is \<open>repr\<close>, which puts a string in single quotes; strings that
  need escapes are outside this model's ASCII text.\<close>

fun py_repr :: "pyval \<Rightarrow> string" where
  "py_repr PNone = ''None''"
| "py_repr (PBool b) = (if b then ''True'' else ''False'')"
| "py_repr (PInt i) = int_str i"
| "py_repr (PFloat s) = s"
| "py_repr (PStr s) = [CHR 0x27] @ s @ [CHR 0x27]"
| "py_repr (PList vs) = ''['' @ str_join '', '' (map py_repr vs) @ '']''"
| "py_repr (PDict d) =
     ''{'' @ str_join '', '' (map (\<lambda>(k, v). [CHR 0x27] @ k @ [CHR 0x27] @ '': '' @ py_repr v) d) @ ''}''"

definition py_str :: "pyval \<Rightarrow> string" where
  "py_str v = (case v of PStr s \<Rightarrow> s | _ \<Rightarrow> py_repr v)"

section \<open>ASCII string methods\<close>

definition is_space :: "char \<Rightarrow> bool" where
  "is_space c \<longleftrightarrow> of_char c \<in> {9 :: nat, 10, 11, 12, 13, 28, 29, 30, 31, 32}"

definition lower_char :: "char \<Rightarrow> char" where
  "lower_char c = (let n = of_char c :: nat in if 65 \<le> n \<and> n \<le> 90 then char_of (n + 32) else c)"

definition upper_char :: "char \<Rightarrow> char" where
  "upper_char c = (let n = of_char c :: nat in if 97 \<le> n \<and> n \<le> 122 then char_of (n - 32) else c)"

definition str_lower :: "string \<Rightarrow> string" where
  "str_lower s = map lower_char s"

definition str_upper :: "string \<Rightarrow> string" where
  "str_upper s = map upper_char s"

definition str_lstrip :: "string \<Rightarrow> string" where
  "str_lstrip s = dropWhile is_space s"

definition str_rstrip :: "string \<Rightarrow> string" where
  "str_rstrip s = rev (dropWhile is_space (rev s))"

definition str_strip :: "string \<Rightarrow> string" where
  "str_strip s = str_rstrip (str_lstrip s)"

text \<open>\<open>sub in s\<close>.\<close>

fun is_prefix_of :: "'a list \<Rightarrow> 'a list \<Rightarrow> bool" where
  "is_prefix_of [] ys = True"
| "is_prefix_of (x # xs) [] = False"
| "is_prefix_of (x # xs) (y # ys) = (x = y \<and> is_prefix_of xs ys)"

fun is_substring :: "'a list \<Rightarrow> 'a list \<Rightarrow> bool" where
  "is_substring sub [] = (sub = [])"
| "is_substring sub (c # s) = (is_prefix_of sub (c # s) \<or> is_substring sub s)"

lemma is_prefix_of_iff: "is_prefix_of xs ys \<longleftrightarrow> (\<exists>zs. ys = xs @ zs)"
  by (induction xs ys rule: is_prefix_of.induct) auto

lemma is_substring_iff: "is_substring sub s \<longleftrightarrow> (\<exists>us vs. s = us @ sub @ vs)"
proof (induction s)
  case Nil
  then show ?case by auto
next
  case (Cons c s)
  show ?case
  proof
    assume "is_substring sub (c # s)"
    then consider zs where "c # s = [] @ sub @ zs" | us vs where "s = us @ sub @ vs"
      using Cons.IH by (auto simp: is_prefix_of_iff)
    then show "\<exists>us vs. c # s = us @ sub @ vs"
      by cases (blast, metis append_Cons)
  next
    assume "\<exists>us vs. c # s = us @ sub @ vs"
    then obtain us vs where "c # s = us @ sub @ vs" by blast
    then have "is_prefix_of sub (c # s) \<or> (\<exists>us' vs. s = us' @ sub @ vs)"
      by (cases us) (auto simp: is_prefix_of_iff)
    then show "is_substring sub (c # s)"
      using Cons.IH by simp
  qed
qed

lemma str_lower_length [simp]: "length (str_lower s) = length s"
  by (simp add: str_lower_def)

lemma lower_char_idem: "lower_char (lower_char c) = lower_char c"
  by (auto simp: lower_char_def Let_def)

lemma str_lower_idem: "str_lower (str_lower s) = str_lower s"
  by (simp add: str_lower_def lower_char_idem)

end
