(* ===== verification/Dag.thy ===== *)
theory Dag
  imports PyValue
begin

text \<open>
  The workflow graph of \<open>labs/comfyui-executor/src/v0_dag.py\<close>: nodes, edges, graph building and
  Kahn's topological sort.

  A node object is its id, type name, parameters and the \<open>execute\<close> method of its class
  (\<open>n_exec\<close>), fixed when \<open>add_node\<close> instantiates the class found in the registry. Raised
  exceptions are \<open>Inl\<close>. The sort keeps the code's two dictionaries (\<open>in_degree\<close>, \<open>adj\<close>) and its
  queue; the loop terminates because an iteration removes one queue entry and adds one only for
  each in-degree that drops from one to zero.
\<close>

section \<open>Nodes, edges, graph\<close>

type_synonym outputs = "(string, pyval) pydict"
type_synonym results = "(string, outputs) pydict"
type_synonym exec_fn = "pdict \<Rightarrow> pdict \<Rightarrow> outputs result"

record node =
  node_id :: string
  node_type :: string
  n_params :: pdict
  n_exec :: exec_fn

record edge =
  src_id :: string
  src_key :: string
  dst_id :: string
  dst_key :: string

record graph =
  g_nodes :: "(string, node) pydict"
  g_edges :: "edge list"
  g_results :: results

type_synonym registry = "(string, exec_fn) pydict"

definition empty_graph :: graph where
  "empty_graph = \<lparr>g_nodes = [], g_edges = [], g_results = []\<rparr>"

definition register_node :: "registry \<Rightarrow> string \<Rightarrow> exec_fn \<Rightarrow> registry" where
  "register_node reg nt c = dset reg nt c"

definition add_node :: "registry \<Rightarrow> graph \<Rightarrow> string \<Rightarrow> string \<Rightarrow> pdict \<Rightarrow> graph result" where
  "add_node reg g nid nt params =
     (if dhas (g_nodes g) nid then Inl (ValueError ''Duplicate node id'')
      else case dget reg nt of
             None \<Rightarrow> Inl (ValueError ''Unknown node_type'')
           | Some c \<Rightarrow>
               Inr (g\<lparr>g_nodes := dset (g_nodes g) nid
                  \<lparr>node_id = nid, node_type = nt, n_params = params, n_exec = c\<rparr>\<rparr>))"

definition add_edge :: "graph \<Rightarrow> string \<Rightarrow> string \<Rightarrow> string \<Rightarrow> string \<Rightarrow> graph result" where
  "add_edge g s sk d dk =
     (if \<not> dhas (g_nodes g) s then Inl (ValueError ''Source node not found'')
      else if \<not> dhas (g_nodes g) d then Inl (ValueError ''Destination node not found'')
      else Inr (g\<lparr>g_edges := g_edges g @
             [\<lparr>src_id = s, src_key = sk, dst_id = d, dst_key = dk\<rparr>]\<rparr>))"

definition successors :: "graph \<Rightarrow> string \<Rightarrow> string list" where
  "successors g nid = map dst_id (filter (\<lambda>e. src_id e = nid) (g_edges g))"

definition get_node :: "graph \<Rightarrow> string \<Rightarrow> node result" where
  "get_node g nid = (case dget (g_nodes g) nid of None \<Rightarrow> Inl (KeyError nid) | Some n \<Rightarrow> Inr n)"

definition all_node_ids :: "graph \<Rightarrow> string list" where
  "all_node_ids g = dkeys (g_nodes g)"

section \<open>Kahn's algorithm\<close>

type_synonym degrees = "(string, int) pydict"
type_synonym adjacency = "(string, string list) pydict"

fun build_degrees :: "edge list \<Rightarrow> degrees \<Rightarrow> adjacency \<Rightarrow> (degrees \<times> adjacency) result" where
  "build_degrees [] d adj = Inr (d, adj)"
| "build_degrees (e # es) d adj =
     (let adj' = dset adj (src_id e) (dget_or adj (src_id e) [] @ [dst_id e])
      in case dget d (dst_id e) of
           None \<Rightarrow> Inl (KeyError (dst_id e))
         | Some n \<Rightarrow> build_degrees es (dset d (dst_id e) (n + 1)) adj')"

text \<open>The inner loop over the successors of the node just taken from the queue.\<close>

fun relax :: "string list \<Rightarrow> degrees \<Rightarrow> string list \<Rightarrow> (degrees \<times> string list) result" where
  "relax [] d q = Inr (d, q)"
| "relax (s # ss) d q =
     (case dget d s of
        None \<Rightarrow> Inl (KeyError s)
      | Some n \<Rightarrow>
          let d' = dset d s (n - 1)
          in if n - 1 = 0 then relax ss d' (q @ [s]) else relax ss d' q)"

definition positive_degrees :: "degrees \<Rightarrow> nat" where
  "positive_degrees d = length (filter (\<lambda>(_, n). 0 < n) d)"

lemma positive_degrees_dset:
  "dget d s = Some n \<Longrightarrow>
     positive_degrees (dset d s (n - 1)) + (if n = 1 then 1 else 0) = positive_degrees d"
  by (induction d s "n - 1" rule: dset.induct) (auto simp: positive_degrees_def split: if_splits)

lemma relax_measure:
  "relax ss d q = Inr (d', q') \<Longrightarrow>
     length q' + positive_degrees d' = length q + positive_degrees d"
proof (induction ss d q rule: relax.induct)
  case (1 d q)
  then show ?case by simp
next
  case (2 s ss d q)
  from "2.prems" obtain n where n: "dget d s = Some n" by (auto split: option.splits)
  show ?case
  proof (cases "n - 1 = 0")
    case True
    with "2.prems" n have "relax ss (dset d s (n - 1)) (q @ [s]) = Inr (d', q')" by simp
    from "2.IH"(1) [OF n refl True this] True positive_degrees_dset [OF n] show ?thesis by simp
  next
    case False
    with "2.prems" n have "relax ss (dset d s (n - 1)) q = Inr (d', q')" by simp
    from "2.IH"(2) [OF n refl False this] False positive_degrees_dset [OF n] show ?thesis by simp
  qed
qed

function kahn :: "adjacency \<Rightarrow> degrees \<Rightarrow> string list \<Rightarrow> string list \<Rightarrow> string list result" where
  "kahn adj d [] order = Inr order"
| "kahn adj d (nid # q) order =
     (case relax (dget_or adj nid []) d q of
        Inl e \<Rightarrow> Inl e
      | Inr (d', q') \<Rightarrow> kahn adj d' q' (order @ [nid]))"
  by pat_completeness auto
termination
  by (relation "measure (\<lambda>(adj, d, q, order). length q + positive_degrees d)")
     (auto dest: relax_measure [OF sym] relax_measure)

definition topological_order :: "graph \<Rightarrow> string list result" where
  "topological_order g =
     (case build_degrees (g_edges g) (map (\<lambda>nid. (nid, 0)) (dkeys (g_nodes g))) [] of
        Inl e \<Rightarrow> Inl e
      | Inr (d, adj) \<Rightarrow>
          let queue = map fst (filter (\<lambda>(_, deg). deg = 0) d)
          in case kahn adj d queue [] of
               Inl e \<Rightarrow> Inl e
             | Inr order \<Rightarrow>
                 if length order \<noteq> length (g_nodes g)
                 then Inl (ValueError ''WorkflowGraph contains a cycle'')
                 else Inr order)"

section \<open>Well-formed graphs\<close>

text \<open>Every graph built with \<open>add_node\<close> and \<open>add_edge\<close> has edges between its own nodes only.\<close>

definition wf_graph :: "graph \<Rightarrow> bool" where
  "wf_graph g \<longleftrightarrow> dwf (g_nodes g) \<and>
     (\<forall>e \<in> set (g_edges g). src_id e \<in> set (dkeys (g_nodes g)) \<and> dst_id e \<in> set (dkeys (g_nodes g)))
     \<and> (\<forall>(k, n) \<in> set (g_nodes g). node_id n = k)"

definition edge_rel :: "graph \<Rightarrow> (string \<times> string) set" where
  "edge_rel g = (\<lambda>e. (src_id e, dst_id e)) ` set (g_edges g)"

lemma wf_empty_graph: "wf_graph empty_graph"
  by (simp add: wf_graph_def empty_graph_def)

lemma set_dset_new: "k \<notin> set (dkeys d) \<Longrightarrow> set (dset d k v) = insert (k, v) (set d)"
  by (simp add: dset_new)

lemma add_node_wf: "wf_graph g \<Longrightarrow> add_node reg g nid nt ps = Inr g' \<Longrightarrow> wf_graph g'"
  by (auto simp: add_node_def wf_graph_def dhas_def set_dset_new split: if_splits option.splits)

lemma add_edge_wf: "wf_graph g \<Longrightarrow> add_edge g s sk d dk = Inr g' \<Longrightarrow> wf_graph g'"
  by (auto simp: add_edge_def wf_graph_def dhas_def split: if_splits)

end
