(* ===== verification/DagTopo.thy ===== *)
theory DagTopo
  imports Dag
begin

text \<open>
  Correctness of \<open>WorkflowGraph.topological_order\<close>: what it returns is a permutation of the nodes
  in which every edge points forward, and it raises exactly when the edges have a cycle.

  The loop invariant \<open>kahn_inv\<close> says that the in-degree dictionary counts the edges from nodes
  not yet ordered, and that the nodes ordered or queued are exactly those with count zero.
\<close>

section \<open>Open in-degrees\<close>

definition open_in :: "edge list \<Rightarrow> string set \<Rightarrow> string \<Rightarrow> nat" where
  "open_in E S v = length (filter (\<lambda>e. dst_id e = v \<and> src_id e \<notin> S) E)"

definition targets :: "edge list \<Rightarrow> string \<Rightarrow> string list" where
  "targets E u = map dst_id (filter (\<lambda>e. src_id e = u) E)"

lemma targets_successors: "targets (g_edges g) u = successors g u"
  by (simp add: targets_def successors_def)

lemma open_in_zero_iff:
  "open_in E S v = 0 \<longleftrightarrow> (\<forall>e \<in> set E. dst_id e = v \<longrightarrow> src_id e \<in> S)"
  by (auto simp: open_in_def filter_empty_conv)

text \<open>Ordering one more node \<open>u\<close> closes exactly the edges that leave \<open>u\<close>.\<close>

lemma open_in_insert:
  "u \<notin> S \<Longrightarrow> open_in E (insert u S) v + count_list (targets E u) v = open_in E S v"
  by (induction E) (auto simp: open_in_def targets_def)

lemma build_degrees_ok:
  assumes "\<forall>e \<in> set es. dst_id e \<in> set (dkeys d)"
  shows "\<exists>d' adj'. build_degrees es d adj = Inr (d', adj') \<and> dkeys d' = dkeys d
      \<and> (\<forall>v n. dget d v = Some n \<longrightarrow> dget d' v = Some (n + int (open_in es {} v)))
      \<and> (\<forall>u. dget_or adj' u [] = dget_or adj u [] @ targets es u)"
  using assms
proof (induction es arbitrary: d adj)
  case Nil
  then show ?case by (simp add: open_in_def targets_def)
next
  case (Cons e es)
  from Cons.prems obtain n where n: "dget d (dst_id e) = Some n"
    using dget_key_Some by fastforce
  let ?d = "dset d (dst_id e) (n + 1)"
  let ?adj = "dset adj (src_id e) (dget_or adj (src_id e) [] @ [dst_id e])"
  have keys: "dkeys ?d = dkeys d" using n by (simp add: dkeys_dset dget_Some_key)
  with Cons.prems have "\<forall>e \<in> set es. dst_id e \<in> set (dkeys ?d)" by simp
  from Cons.IH [OF this, of ?adj] obtain d' adj' where
    b: "build_degrees es ?d ?adj = Inr (d', adj')" "dkeys d' = dkeys ?d"
    and deg: "\<And>v n. dget ?d v = Some n \<Longrightarrow> dget d' v = Some (n + int (open_in es {} v))"
    and ad: "\<And>u. dget_or adj' u [] = dget_or ?adj u [] @ targets es u"
    by blast
  have "dget d' v = Some (m + int (open_in (e # es) {} v))" if "dget d v = Some m" for v m
  proof (cases "v = dst_id e")
    case True
    with that n have "m = n" by simp
    moreover have "dget d' v = Some (n + 1 + int (open_in es {} v))"
      by (rule deg) (simp add: True)
    ultimately show ?thesis by (simp add: open_in_def True)
  next
    case False
    then have "dget d' v = Some (m + int (open_in es {} v))"
      by (intro deg) (use that in auto)
    with False show ?thesis by (simp add: open_in_def)
  qed
  moreover have "dget_or adj' u [] = dget_or adj u [] @ targets (e # es) u" for u
    using ad [of u] by (auto simp: targets_def dget_or_def)
  ultimately show ?case using b keys n by (simp add: Let_def)
qed

lemma relax_ok:
  assumes "\<forall>s \<in> set ss. \<exists>n. dget d s = Some n \<and> int (count_list ss s) \<le> n"
  shows "\<exists>d' ws. relax ss d q = Inr (d', q @ ws) \<and> dkeys d' = dkeys d \<and> distinct ws
      \<and> set ws = {s \<in> set ss. dget d s = Some (int (count_list ss s))}
      \<and> (\<forall>v n. dget d v = Some n \<longrightarrow> dget d' v = Some (n - int (count_list ss v)))"
  using assms
proof (induction ss arbitrary: d q)
  case Nil
  then show ?case by simp
next
  case (Cons s ss)
  from Cons.prems obtain n where n: "dget d s = Some n" and le: "1 + int (count_list ss s) \<le> n"
    by auto
  let ?d = "dset d s (n - 1)"
  have keys: "dkeys ?d = dkeys d" using n by (simp add: dkeys_dset dget_Some_key)
  have "\<forall>t \<in> set ss. \<exists>m. dget ?d t = Some m \<and> int (count_list ss t) \<le> m"
  proof
    fix t assume "t \<in> set ss"
    with Cons.prems le n show "\<exists>m. dget ?d t = Some m \<and> int (count_list ss t) \<le> m"
      by (cases "t = s") (auto split: if_splits)
  qed
  note IH = Cons.IH [OF this]
  let ?q = "if n - 1 = 0 then q @ [s] else q"
  from IH [of ?q] obtain d' ws where
    r: "relax ss ?d ?q = Inr (d', ?q @ ws)" and k: "dkeys d' = dkeys ?d"
    and dw: "distinct ws" and sw: "set ws = {t \<in> set ss. dget ?d t = Some (int (count_list ss t))}"
    and dg: "\<And>v m. dget ?d v = Some m \<Longrightarrow> dget d' v = Some (m - int (count_list ss v))"
    by blast
  let ?ws = "(if n - 1 = 0 then [s] else []) @ ws"
  have zero: "s \<notin> set ss" if "n - 1 = 0" using le that by (auto simp: count_list_0_iff)
  have "relax (s # ss) d q = Inr (d', q @ ?ws)"
    using r n by (auto simp: Let_def split: if_splits)
  moreover have "distinct ?ws" using dw sw zero by auto
  moreover have "set ?ws = {t \<in> set (s # ss). dget d t = Some (int (count_list (s # ss) t))}"
  proof (cases "n - 1 = 0")
    case True
    with zero have "s \<notin> set ss" by blast
    moreover from this have "count_list ss s = 0" by (simp add: count_list_0_iff)
    ultimately show ?thesis using sw n True by auto
  next
    case False
    have "t \<in> set ws \<longleftrightarrow> t \<in> set (s # ss) \<and> dget d t = Some (int (count_list (s # ss) t))" for t
    proof (cases "t = s")
      case True
      have "s \<in> set ss" if "n = 1 + int (count_list ss s)"
      proof (rule ccontr)
        assume "s \<notin> set ss"
        then have "count_list ss s = 0" by (simp add: count_list_0_iff)
        with that False show False by simp
      qed
      moreover have "s \<in> set ws \<longleftrightarrow> s \<in> set ss \<and> n - 1 = int (count_list ss s)"
        unfolding sw by simp
      moreover have "dget d s = Some (int (count_list (s # ss) s)) \<longleftrightarrow> n - 1 = int (count_list ss s)"
        unfolding n by auto
      ultimately show ?thesis unfolding True by auto
    next
      case False
      then show ?thesis unfolding sw by simp
    qed
    then have "set ws = {t \<in> set (s # ss). dget d t = Some (int (count_list (s # ss) t))}"
      by blast
    moreover have "?ws = ws" using False by simp
    ultimately show ?thesis by simp
  qed
  moreover have "dget d' v = Some (m - int (count_list (s # ss) v))" if "dget d v = Some m" for v m
  proof (cases "v = s")
    case True
    with that n have "m = n" by simp
    with True dg [of s "n - 1"] show ?thesis by simp
  next
    case False
    with that dg [of v m] show ?thesis by simp
  qed
  ultimately show ?case using k keys by auto
qed

section \<open>The loop invariant\<close>

text \<open>\<open>forward E order\<close>: every edge into an element of the list starts strictly before it.\<close>

definition forward :: "edge list \<Rightarrow> string list \<Rightarrow> bool" where
  "forward E order \<longleftrightarrow>
     (\<forall>i < length order. \<forall>e \<in> set E. dst_id e = order ! i \<longrightarrow> src_id e \<in> set (take i order))"

lemma forward_Nil: "forward E []"
  by (simp add: forward_def)

lemma forward_snoc:
  assumes "forward E order" and "\<forall>e \<in> set E. dst_id e = v \<longrightarrow> src_id e \<in> set order"
  shows "forward E (order @ [v])"
  using assms by (auto simp: forward_def nth_append less_Suc_eq)

definition kahn_inv ::
  "edge list \<Rightarrow> string list \<Rightarrow> adjacency \<Rightarrow> degrees \<Rightarrow> string list \<Rightarrow> string list \<Rightarrow> bool" where
  "kahn_inv E N adj d q order \<longleftrightarrow>
     dkeys d = N
     \<and> (\<forall>u. dget_or adj u [] = targets E u)
     \<and> (\<forall>v \<in> set N. dget d v = Some (int (open_in E (set order) v)))
     \<and> distinct (order @ q) \<and> set (order @ q) \<subseteq> set N
     \<and> (\<forall>v \<in> set N. v \<in> set (order @ q) \<longleftrightarrow> open_in E (set order) v = 0)
     \<and> forward E order"

lemma kahn_inv_step:
  assumes inv: "kahn_inv E N adj d (nid # q) order"
    and E: "\<forall>e \<in> set E. dst_id e \<in> set N"
  shows "\<exists>d' q'. relax (dget_or adj nid []) d q = Inr (d', q')
           \<and> kahn_inv E N adj d' q' (order @ [nid])"
proof -
  let ?ss = "targets E nid" and ?S = "set order"
  from inv have adj: "\<And>u. dget_or adj u [] = targets E u"
    and keys: "dkeys d = N"
    and deg: "\<And>v. v \<in> set N \<Longrightarrow> dget d v = Some (int (open_in E ?S v))"
    and dist: "distinct (order @ nid # q)" and sub: "set (order @ nid # q) \<subseteq> set N"
    and zero: "\<And>v. v \<in> set N \<Longrightarrow> v \<in> set (order @ nid # q) \<longleftrightarrow> open_in E ?S v = 0"
    and fwd: "forward E order"
    by (auto simp: kahn_inv_def)
  have ssN: "set ?ss \<subseteq> set N" using E by (auto simp: targets_def)
  have new: "nid \<notin> ?S" using dist by auto
  note ins = open_in_insert [OF new, of E]
  have "\<forall>s \<in> set ?ss. \<exists>n. dget d s = Some n \<and> int (count_list ?ss s) \<le> n"
    using ssN deg ins by (metis le_add2 of_nat_le_iff subsetD)
  from relax_ok [OF this, of q] obtain d' ws where
    r: "relax ?ss d q = Inr (d', q @ ws)" and k: "dkeys d' = N" and dw: "distinct ws"
    and sw: "set ws = {s \<in> set ?ss. dget d s = Some (int (count_list ?ss s))}"
    and dg: "\<And>v n. dget d v = Some n \<Longrightarrow> dget d' v = Some (n - int (count_list ?ss v))"
    using keys by auto
  have S': "set (order @ [nid]) = insert nid ?S" by auto
  have deg': "dget d' v = Some (int (open_in E (insert nid ?S) v))" if "v \<in> set N" for v
    using dg [OF deg [OF that]] ins [of v] by simp
  have ws: "set ws = {v \<in> set N. open_in E ?S v \<noteq> 0 \<and> open_in E (insert nid ?S) v = 0}"
  proof (rule set_eqI)
    fix v
    have sws: "v \<in> set ws \<longleftrightarrow> v \<in> set ?ss \<and> dget d v = Some (int (count_list ?ss v))"
      unfolding sw by simp
    show "v \<in> set ws \<longleftrightarrow> v \<in> {v \<in> set N. open_in E ?S v \<noteq> 0 \<and> open_in E (insert nid ?S) v = 0}"
    proof (cases "v \<in> set N")
      case True
      have "count_list ?ss v \<noteq> 0 \<longleftrightarrow> v \<in> set ?ss" by (simp add: count_list_0_iff)
      moreover have "v \<in> set ws \<longleftrightarrow> v \<in> set ?ss \<and> open_in E ?S v = count_list ?ss v"
        unfolding sws deg [OF True] by simp
      moreover have "open_in E (insert nid ?S) v + count_list ?ss v = open_in E ?S v" by (rule ins)
      ultimately have "v \<in> set ws \<longleftrightarrow> open_in E ?S v \<noteq> 0 \<and> open_in E (insert nid ?S) v = 0"
        by linarith
      with True show ?thesis by simp
    next
      case False
      with ssN have "v \<notin> set ?ss" by blast
      with False show ?thesis unfolding sws by simp
    qed
  qed
  have zero': "v \<in> set ((order @ [nid]) @ q @ ws) \<longleftrightarrow> open_in E (insert nid ?S) v = 0"
    if "v \<in> set N" for v
  proof -
    have "v \<in> set ws \<longleftrightarrow> open_in E ?S v \<noteq> 0 \<and> open_in E (insert nid ?S) v = 0"
      using that unfolding ws by simp
    moreover have "open_in E (insert nid ?S) v \<le> open_in E ?S v"
      unfolding ins [of v, symmetric] by simp
    moreover have "v \<in> set ((order @ [nid]) @ q @ ws)
        \<longleftrightarrow> v \<in> set (order @ nid # q) \<or> v \<in> set ws" by auto
    ultimately show ?thesis unfolding zero [OF that] by linarith
  qed
  have "set ws \<inter> set (order @ nid # q) = {}"
  proof (rule equals0I)
    fix v assume "v \<in> set ws \<inter> set (order @ nid # q)"
    then have "v \<in> set N" "open_in E ?S v \<noteq> 0" "v \<in> set (order @ nid # q)"
      unfolding ws by simp_all
    with zero show False by metis
  qed
  then have "distinct ((order @ [nid]) @ q @ ws)"
    using dist dw by auto
  moreover have "set ((order @ [nid]) @ q @ ws) \<subseteq> set N" using sub ws by auto
  moreover have "forward E (order @ [nid])"
    using fwd sub zero [of nid] by (intro forward_snoc) (auto simp: open_in_zero_iff)
  ultimately have "kahn_inv E N adj d' (q @ ws) (order @ [nid])"
    unfolding kahn_inv_def S' using k adj deg' zero' by blast
  with r adj show ?thesis by auto
qed

lemma kahn_final:
  assumes "kahn_inv E N adj d q order" and "\<forall>e \<in> set E. dst_id e \<in> set N"
  shows "\<exists>order' d'. kahn adj d q order = Inr order' \<and> kahn_inv E N adj d' [] order'"
  using assms
proof (induction adj d q order rule: kahn.induct)
  case (1 adj d order)
  then show ?case by auto
next
  case (2 adj d nid q order)
  from kahn_inv_step [OF "2.prems"] obtain d' q' where
    r: "relax (dget_or adj nid []) d q = Inr (d', q')"
    and inv: "kahn_inv E N adj d' q' (order @ [nid])" by blast
  from "2.IH" [OF r refl inv "2.prems"(2)] r show ?case by simp
qed

section \<open>The whole call\<close>

lemma topological_order_char:
  assumes wf: "wf_graph g"
  shows "\<exists>order adj d. kahn_inv (g_edges g) (dkeys (g_nodes g)) adj d [] order
     \<and> topological_order g =
        (if length order \<noteq> length (g_nodes g)
         then Inl (ValueError ''WorkflowGraph contains a cycle'') else Inr order)"
proof -
  let ?E = "g_edges g" and ?N = "dkeys (g_nodes g)"
  let ?d0 = "map (\<lambda>nid. (nid, 0 :: int)) ?N"
  have k0: "dkeys ?d0 = ?N" by (simp add: dkeys_def comp_def)
  from wf have EN: "\<forall>e \<in> set ?E. dst_id e \<in> set ?N" and dN: "distinct ?N"
    by (auto simp: wf_graph_def dwf_def)
  have "\<forall>e \<in> set ?E. dst_id e \<in> set (dkeys ?d0)" using EN k0 by simp
  from build_degrees_ok [OF this, of "[]"] obtain d adj where
    b: "build_degrees ?E ?d0 [] = Inr (d, adj)" and k: "dkeys d = ?N"
    and dg: "\<And>v n. dget ?d0 v = Some n \<Longrightarrow> dget d v = Some (n + int (open_in ?E {} v))"
    and ad: "\<And>u. dget_or adj u [] = targets ?E u"
    using k0 by (auto simp: dget_or_def)
  have "dget ?d0 v = Some 0" if "v \<in> set ?N" for v
    using that by simp
  with dg have deg: "\<forall>v \<in> set ?N. dget d v = Some (int (open_in ?E {} v))" by fastforce
  let ?q = "map fst (filter (\<lambda>(_, n). n = 0) d)"
  have "distinct ?q" using dN k by (simp add: dkeys_def map_fst_filter_distinct)
  moreover have qset: "v \<in> set ?q \<longleftrightarrow> dget d v = Some 0" for v
    using dN k by (auto simp: dwf_dget_iff dwf_def image_iff)
  moreover have "set ?q \<subseteq> set ?N"
    using qset k dget_Some_key by (metis subsetI)
  ultimately have "kahn_inv ?E ?N adj d ?q []"
    using k ad deg by (auto simp: kahn_inv_def forward_Nil)
  from kahn_final [OF this EN] obtain order d' where
    o: "kahn adj d ?q [] = Inr order" "kahn_inv ?E ?N adj d' [] order" by blast
  have "topological_order g =
        (if length order \<noteq> length (g_nodes g)
         then Inl (ValueError ''WorkflowGraph contains a cycle'') else Inr order)"
    unfolding topological_order_def b by (simp add: o(1) Let_def)
  with o(2) show ?thesis by blast
qed

lemma forward_acyclic:
  assumes "forward (g_edges g) order" and "set order = set (dkeys (g_nodes g))"
    and "distinct order" and "wf_graph g"
  shows "acyclic (edge_rel g)"
proof -
  define pos where "pos v = (LEAST i. i < length order \<and> order ! i = v)" for v
  have pos: "pos v < length order \<and> order ! pos v = v" if "v \<in> set order" for v
    unfolding pos_def by (rule LeastI_ex) (use that in \<open>auto simp: in_set_conv_nth\<close>)
  have "pos u < pos v" if "(u, v) \<in> edge_rel g" for u v
  proof -
    from that obtain e where e: "e \<in> set (g_edges g)" "src_id e = u" "dst_id e = v"
      by (auto simp: edge_rel_def)
    with assms(2,4) have v: "v \<in> set order" and u: "u \<in> set order" by (auto simp: wf_graph_def)
    from assms(1) pos [OF v] e have "u \<in> set (take (pos v) order)" by (auto simp: forward_def)
    then obtain i where i: "i < pos v" "order ! i = u" "i < length order"
      by (auto simp: in_set_conv_nth)
    with pos [OF u] assms(3) have "pos u = i" by (metis nth_eq_iff_index_eq)
    with i show ?thesis by simp
  qed
  then have "edge_rel g \<subseteq> measure pos" by auto
  then show ?thesis by (meson wf_acyclic wf_measure wf_subset)
qed

lemma stuck_cyclic:
  assumes inv: "kahn_inv (g_edges g) (dkeys (g_nodes g)) adj d [] order"
    and ne: "set order \<noteq> set (dkeys (g_nodes g))" and wf: "wf_graph g"
  shows "\<not> acyclic (edge_rel g)"
proof
  let ?R = "set (dkeys (g_nodes g)) - set order"
  assume "acyclic (edge_rel g)"
  moreover have "finite (edge_rel g)" by (simp add: edge_rel_def)
  ultimately have "wf (edge_rel g)" by (rule finite_acyclic_wf [rotated])
  moreover have "?R \<noteq> {}" using inv ne by (auto simp: kahn_inv_def)
  ultimately obtain v where v: "v \<in> ?R" and min: "\<And>u. (u, v) \<in> edge_rel g \<Longrightarrow> u \<notin> ?R"
    by (metis ex_in_conv wfE_min)
  from v inv have "open_in (g_edges g) (set order) v \<noteq> 0" by (auto simp: kahn_inv_def)
  then obtain e where "e \<in> set (g_edges g)" "dst_id e = v" "src_id e \<notin> set order"
    by (auto simp: open_in_zero_iff)
  with wf have "(src_id e, v) \<in> edge_rel g" "src_id e \<in> ?R"
    by (auto simp: edge_rel_def wf_graph_def)
  with min show False by blast
qed

lemma order_complete_iff:
  assumes "kahn_inv (g_edges g) (dkeys (g_nodes g)) adj d [] order" and "wf_graph g"
  shows "length order = length (g_nodes g) \<longleftrightarrow> set order = set (dkeys (g_nodes g))"
proof -
  let ?N = "dkeys (g_nodes g)"
  have "card (set ?N) = length (g_nodes g)" "card (set order) = length order"
    using assms by (auto simp: kahn_inv_def wf_graph_def dwf_def distinct_card)
  moreover have "set order \<subseteq> set ?N" using assms by (simp add: kahn_inv_def)
  ultimately show ?thesis by (metis List.finite_set card_subset_eq)
qed

text \<open>
  What the executors use: a returned order lists each node once and every edge points forward.
\<close>

lemma topological_order_Inr:
  assumes "wf_graph g" and "topological_order g = Inr order"
  shows "distinct order \<and> set order = set (dkeys (g_nodes g)) \<and> forward (g_edges g) order"
proof -
  from topological_order_char [OF assms(1)] assms(2) obtain adj d where
    inv: "kahn_inv (g_edges g) (dkeys (g_nodes g)) adj d [] order"
    and len: "length order = length (g_nodes g)"
    by (auto split: if_splits)
  with order_complete_iff [OF inv assms(1)] show ?thesis by (auto simp: kahn_inv_def)
qed

lemma topological_order_cases:
  assumes "wf_graph g"
  shows "(\<exists>order. topological_order g = Inr order) \<longleftrightarrow> acyclic (edge_rel g)"
proof -
  from topological_order_char [OF assms] obtain order adj d where
    inv: "kahn_inv (g_edges g) (dkeys (g_nodes g)) adj d [] order"
    and t: "topological_order g = (if length order \<noteq> length (g_nodes g)
         then Inl (ValueError ''WorkflowGraph contains a cycle'') else Inr order)" by blast
  show ?thesis
  proof (cases "length order = length (g_nodes g)")
    case True
    then have "set order = set (dkeys (g_nodes g))"
      using order_complete_iff [OF inv assms] by simp
    moreover have "forward (g_edges g) order" "distinct order"
      using inv by (auto simp: kahn_inv_def)
    ultimately have "acyclic (edge_rel g)" using assms by (intro forward_acyclic)
    with True t show ?thesis by simp
  next
    case False
    with stuck_cyclic [OF inv _ assms] order_complete_iff [OF inv assms] t show ?thesis by simp
  qed
qed

lemma topological_order_error:
  "wf_graph g \<Longrightarrow> topological_order g = Inl e \<Longrightarrow>
     e = ValueError ''WorkflowGraph contains a cycle''"
  using topological_order_char [of g] by (auto split: if_splits)

end
