(* ===== verification/DagExec.thy ===== *)
theory DagExec
  imports DagTopo
begin

text \<open>
  The executor of \<open>labs/comfyui-executor/src/v0_dag.py\<close>: the four built-in node classes, input
  collection and \<open>execute_workflow\<close>.

  \<open>graph.results\<close> is state, so the executor returns the updated graph next to its result; when a
  node raises, the results of the nodes before it stay behind, as in the code.

  The specification is \<open>dataflow\<close>: every node's output is its \<open>execute\<close> applied to the outputs of
  its predecessors. A successful run computes it, and on an acyclic graph it has one solution, so
  the order chosen by the scheduler does not show in the results.
\<close>

section \<open>Built-in node classes\<close>

definition load_text_execute :: exec_fn where
  "load_text_execute params inputs = Inr [(''text'', dget_or params ''text'' (PStr []))]"

definition to_upper_execute :: exec_fn where
  "to_upper_execute params inputs =
     (case dget_or inputs ''text'' (PStr []) of
        PStr s \<Rightarrow> Inr [(''text'', PStr (str_upper s))]
      | v \<Rightarrow> Inl (AttributeError (type_name v @ '' object has no attribute upper'')))"

definition concat_text_execute :: exec_fn where
  "concat_text_execute params inputs =
     (let a = dget_or inputs ''text_a'' (PStr []);
          b = dget_or inputs ''text_b'' (PStr []);
          separator = dget_or params ''separator'' (PStr '' '')
      in Inr [(''text'', PStr (py_str a @ py_str separator @ py_str b))])"

definition save_result_execute :: exec_fn where
  "save_result_execute params inputs = Inr inputs"

definition node_registry_v0 :: registry where
  "node_registry_v0 =
     [(''LoadText'', load_text_execute), (''ToUpperCase'', to_upper_execute),
      (''ConcatText'', concat_text_execute), (''SaveResult'', save_result_execute)]"

section \<open>Execution\<close>

definition gather_inputs :: "edge list \<Rightarrow> results \<Rightarrow> string \<Rightarrow> pdict" where
  "gather_inputs E res nid =
     fold (\<lambda>e ins. if dst_id e = nid
             then dset ins (dst_key e) (dget_or (dget_or res (src_id e) []) (src_key e) PNone)
             else ins) E []"

fun exec_nodes :: "graph \<Rightarrow> string list \<Rightarrow> graph \<times> unit result" where
  "exec_nodes g [] = (g, Inr ())"
| "exec_nodes g (nid # nids) =
     (case get_node g nid of
        Inl e \<Rightarrow> (g, Inl e)
      | Inr n \<Rightarrow>
          (case n_exec n (n_params n) (gather_inputs (g_edges g) (g_results g) nid) of
             Inl e \<Rightarrow> (g, Inl e)
           | Inr out \<Rightarrow> exec_nodes (g\<lparr>g_results := dset (g_results g) nid out\<rparr>) nids))"

definition execute_workflow :: "graph \<Rightarrow> graph \<times> results result" where
  "execute_workflow g =
     (case topological_order g of
        Inl e \<Rightarrow> (g, Inl e)
      | Inr order \<Rightarrow>
          (case exec_nodes (g\<lparr>g_results := []\<rparr>) order of
             (g', Inl e) \<Rightarrow> (g', Inl e)
           | (g', Inr _) \<Rightarrow> (g', Inr (g_results g'))))"

section \<open>The dataflow specification\<close>

definition node_output :: "graph \<Rightarrow> results \<Rightarrow> string \<Rightarrow> outputs result" where
  "node_output g res nid =
     (case dget (g_nodes g) nid of
        None \<Rightarrow> Inl (KeyError nid)
      | Some n \<Rightarrow> n_exec n (n_params n) (gather_inputs (g_edges g) res nid))"

definition dataflow :: "graph \<Rightarrow> results \<Rightarrow> bool" where
  "dataflow g res \<longleftrightarrow> set (dkeys res) = set (dkeys (g_nodes g)) \<and>
     (\<forall>nid \<in> set (dkeys (g_nodes g)). \<forall>out. dget res nid = Some out \<longrightarrow> node_output g res nid = Inr out)"

lemma gather_inputs_cong:
  assumes "\<And>e. e \<in> set E \<Longrightarrow> dst_id e = nid \<Longrightarrow> dget r (src_id e) = dget r' (src_id e)"
  shows "gather_inputs E r nid = gather_inputs E r' nid"
  unfolding gather_inputs_def
  by (rule fold_cong) (auto simp: dget_or_def assms)

lemma node_output_cong:
  assumes "\<And>e. e \<in> set (g_edges g) \<Longrightarrow> dst_id e = nid \<Longrightarrow> dget r (src_id e) = dget r' (src_id e)"
  shows "node_output g r nid = node_output g r' nid"
  unfolding node_output_def by (simp add: gather_inputs_cong [OF assms] split: option.splits)

text \<open>A prefix of the order that has been executed: its outputs satisfy the dataflow equations.\<close>

definition executed :: "graph \<Rightarrow> string list \<Rightarrow> results \<Rightarrow> bool" where
  "executed g ids res \<longleftrightarrow> dkeys res = ids \<and>
     (\<forall>nid out. dget res nid = Some out \<longrightarrow> node_output g res nid = Inr out)"

definition sources_before :: "graph \<Rightarrow> string list \<Rightarrow> bool" where
  "sources_before g ids \<longleftrightarrow> (\<forall>e \<in> set (g_edges g). dst_id e \<in> set ids \<longrightarrow> src_id e \<in> set ids)"

lemma forward_sources_before:
  assumes "forward (g_edges g) (xs @ ys)"
  shows "sources_before g xs"
  unfolding sources_before_def
proof (intro ballI impI)
  fix e assume e: "e \<in> set (g_edges g)" and "dst_id e \<in> set xs"
  then obtain i where i: "i < length xs" "xs ! i = dst_id e" by (auto simp: in_set_conv_nth)
  then have "i < length (xs @ ys)" "(xs @ ys) ! i = dst_id e" by (simp_all add: nth_append)
  with assms e have "src_id e \<in> set (take i (xs @ ys))" unfolding forward_def by metis
  with i show "src_id e \<in> set xs" by (auto dest: in_set_takeD)
qed

lemma forward_sources_of_next:
  assumes "forward (g_edges g) (xs @ nid # ys)" and "e \<in> set (g_edges g)" and "dst_id e = nid"
  shows "src_id e \<in> set xs"
proof -
  have "length xs < length (xs @ nid # ys)" "(xs @ nid # ys) ! length xs = nid" by simp_all
  with assms have "src_id e \<in> set (take (length xs) (xs @ nid # ys))"
    unfolding forward_def by metis
  then show ?thesis by simp
qed

text \<open>Storing one more output does not disturb the equations of the nodes before it.\<close>

lemma executed_dset:
  assumes "executed g xs res" and "sources_before g xs"
    and "nid \<notin> set xs" and "\<And>e. e \<in> set (g_edges g) \<Longrightarrow> dst_id e = nid \<Longrightarrow> src_id e \<in> set xs"
    and "node_output g res nid = Inr out"
  shows "executed g (xs @ [nid]) (dset res nid out)"
proof -
  have "node_output g (dset res nid out) v = node_output g res v" if "v \<in> set (xs @ [nid])" for v
    by (rule node_output_cong) (use assms(2-4) that in \<open>auto simp: sources_before_def\<close>)
  moreover have "v \<in> set (xs @ [nid])" if "dget (dset res nid out) v = Some w" for v w
    using that assms(1) by (auto simp: executed_def dest: dget_Some_key split: if_splits)
  ultimately show ?thesis
    using assms(1,3,5) by (auto simp: executed_def dkeys_dset)
qed

lemma node_output_results_update [simp]:
  "node_output (g\<lparr>g_results := r\<rparr>) res nid = node_output g res nid"
  by (simp add: node_output_def split: option.split)

lemma exec_nodes_cons_Inr:
  "exec_nodes g (nid # nids) = (g', Inr ()) \<longleftrightarrow>
     (\<exists>out. node_output g (g_results g) nid = Inr out
        \<and> exec_nodes (g\<lparr>g_results := dset (g_results g) nid out\<rparr>) nids = (g', Inr ()))"
  by (auto simp: node_output_def get_node_def split: option.splits sum.splits)

lemma exec_nodes_frame:
  "exec_nodes g nids = (g', r) \<Longrightarrow> g_nodes g' = g_nodes g \<and> g_edges g' = g_edges g"
  by (induction nids arbitrary: g) (auto split: sum.splits)

lemma exec_nodes_executed:
  assumes "exec_nodes g ys = (g', Inr ())" and "executed g xs (g_results g)"
    and "forward (g_edges g) (xs @ ys)" and "distinct (xs @ ys)"
  shows "executed g (xs @ ys) (g_results g')"
  using assms
proof (induction ys arbitrary: g xs)
  case Nil
  then show ?case by simp
next
  case (Cons nid ys)
  from Cons.prems(1) obtain out where
    out: "node_output g (g_results g) nid = Inr out"
    and rest: "exec_nodes (g\<lparr>g_results := dset (g_results g) nid out\<rparr>) ys = (g', Inr ())"
    unfolding exec_nodes_cons_Inr by blast
  let ?g = "g\<lparr>g_results := dset (g_results g) nid out\<rparr>"
  have "executed g (xs @ [nid]) (dset (g_results g) nid out)"
    using Cons.prems(2-4) out forward_sources_before [of g xs "nid # ys"]
      forward_sources_of_next [of g xs nid ys]
    by (intro executed_dset) auto
  then have "executed ?g (xs @ [nid]) (g_results ?g)"
    by (simp add: executed_def)
  from Cons.IH [OF rest this] Cons.prems(3,4) have "executed ?g ((xs @ [nid]) @ ys) (g_results g')"
    by simp
  then show ?case by (simp add: executed_def)
qed

lemma execute_workflow_Inr:
  assumes "execute_workflow g = (g', Inr res)"
  obtains order where "topological_order g = Inr order"
    and "exec_nodes (g\<lparr>g_results := []\<rparr>) order = (g', Inr ())" and "res = g_results g'"
  using assms by (auto simp: execute_workflow_def split: sum.splits prod.splits)

lemma execute_workflow_dataflow:
  assumes "wf_graph g" and "execute_workflow g = (g', Inr res)"
  shows "dataflow g res \<and> dwf res \<and> topological_order g = Inr (dkeys res)"
proof -
  from assms(2) obtain order where order: "topological_order g = Inr order"
    and run: "exec_nodes (g\<lparr>g_results := []\<rparr>) order = (g', Inr ())" and res: "res = g_results g'"
    by (rule execute_workflow_Inr)
  from topological_order_Inr [OF assms(1) order] have
    d: "distinct order" "set order = set (dkeys (g_nodes g))" "forward (g_edges g) order" by auto
  have "executed (g\<lparr>g_results := []\<rparr>) ([] @ order) (g_results g')"
    by (rule exec_nodes_executed [OF run]) (use d in \<open>auto simp: executed_def\<close>)
  with d order res show ?thesis by (auto simp: executed_def dataflow_def dwf_def)
qed

text \<open>On an acyclic graph the dataflow equations have at most one solution.\<close>

lemma dataflow_unique:
  assumes "wf_graph g" and "acyclic (edge_rel g)" and "dataflow g r" and "dataflow g r'"
    and "nid \<in> set (dkeys (g_nodes g))"
  shows "dget r nid = dget r' nid"
proof -
  have "wf (edge_rel g)"
    by (rule finite_acyclic_wf) (simp_all add: edge_rel_def assms(2) [unfolded edge_rel_def])
  then show ?thesis using assms(5)
  proof (induction nid rule: wf_induct_rule)
    case (less nid)
    have "node_output g r nid = node_output g r' nid"
    proof (rule node_output_cong)
      fix e assume "e \<in> set (g_edges g)" "dst_id e = nid"
      then show "dget r (src_id e) = dget r' (src_id e)"
        using assms(1) by (intro less.IH) (auto simp: edge_rel_def wf_graph_def)
    qed
    with assms(3,4) less.prems show ?case
      unfolding dataflow_def by (metis dget_key_Some sum.inject(2))
  qed
qed

text \<open>When a node raises, the executor reports that exception and keeps the earlier results.\<close>

lemma exec_nodes_Inl:
  "exec_nodes g nids = (g', Inl e) \<Longrightarrow>
     \<exists>nid \<in> set nids. node_output g (g_results g') nid = Inl e"
proof (induction nids arbitrary: g)
  case Nil
  then show ?case by simp
next
  case (Cons nid nids)
  show ?case
  proof (cases "node_output g (g_results g) nid")
    case (Inl e')
    with Cons.prems show ?thesis
      by (auto simp: node_output_def get_node_def split: option.splits sum.splits)
  next
    case (Inr out)
    with Cons.prems have
      "exec_nodes (g\<lparr>g_results := dset (g_results g) nid out\<rparr>) nids = (g', Inl e)"
      by (auto simp: node_output_def get_node_def split: option.splits sum.splits)
    from Cons.IH [OF this] show ?thesis by auto
  qed
qed

end
