(* ===== verification/CacheExec.thy ===== *)
theory CacheExec
  imports DagExec
begin

text \<open>
  Content-addressed caching, \<open>labs/comfyui-executor/src/v1_cached.py\<close>: cache keys, the cache
  store, downstream invalidation and \<open>CachingExecutor\<close>.

  \<open>hashlib.sha256(..).hexdigest()\<close> and \<open>json.dumps(.., sort_keys=True, default=str)\<close> are the two
  fields of a \<open>hasher\<close>; how the code combines them into keys is modelled. What the cache needs of
  them is \<open>collision_free\<close> on the finite set of calls of the runs considered.
\<close>

section \<open>Keys\<close>

record hasher =
  sha256_hex :: "string \<Rightarrow> string"
  dumps_sorted :: "pyval \<Rightarrow> string"

definition content_hash :: "hasher \<Rightarrow> pyval \<Rightarrow> string" where
  "content_hash h v = take 16 (sha256_hex h (dumps_sorted h v))"

definition node_cache_key :: "hasher \<Rightarrow> string \<Rightarrow> pdict \<Rightarrow> (string, string) pydict \<Rightarrow> string" where
  "node_cache_key h nt params input_hashes =
     sha256_hex h (dumps_sorted h (PDict
       [(''node_type'', PStr nt), (''params'', PDict params),
        (''input_hashes'', PDict (map (\<lambda>(k, x). (k, PStr x)) input_hashes))]))"

definition hash_inputs :: "hasher \<Rightarrow> pdict \<Rightarrow> (string, string) pydict" where
  "hash_inputs h inputs = map (\<lambda>(k, v). (k, content_hash h v)) inputs"

section \<open>Cache store\<close>

type_synonym cache_store = "(string, outputs) pydict"

definition cache_get :: "cache_store \<Rightarrow> string \<Rightarrow> outputs option" where
  "cache_get c k = dget c k"

definition cache_put :: "cache_store \<Rightarrow> string \<Rightarrow> outputs \<Rightarrow> cache_store" where
  "cache_put c k r = dset c k r"

definition invalidate_key :: "cache_store \<Rightarrow> string \<Rightarrow> cache_store" where
  "invalidate_key c k = dpop c k"

definition cache_size :: "cache_store \<Rightarrow> nat" where
  "cache_size c = length c"

interpretation cs: mapping cache_get cache_put invalidate_key dwf
  by unfold_locales (auto simp: cache_get_def cache_put_def invalidate_key_def)

section \<open>Downstream invalidation\<close>

lemma bfs_decreases:
  assumes "nid \<notin> v"
  shows "card ((dst_id ` set (g_edges g) \<union> set (q @ filter P (successors g nid))) - insert nid v)
       < card ((dst_id ` set (g_edges g) \<union> set (nid # q)) - v)"
  by (rule psubset_card_mono) (use assms in \<open>auto simp: successors_def\<close>)

function bfs :: "graph \<Rightarrow> string set \<Rightarrow> string list \<Rightarrow> string list \<Rightarrow> string list" where
  "bfs g visited [] affected = affected"
| "bfs g visited (nid # q) affected =
     (if nid \<in> visited then bfs g visited q affected
      else bfs g (insert nid visited)
             (q @ filter (\<lambda>s. s \<notin> insert nid visited) (successors g nid)) (affected @ [nid]))"
  by pat_completeness auto

termination
proof (relation "measures [\<lambda>(g, v, q, a). card ((dst_id ` set (g_edges g) \<union> set q) - v),
                           \<lambda>(g, v, q, a). length q]", goal_cases)
  case 1
  show ?case by simp
next
  case (2 g v nid q a)
  then have "dst_id ` set (g_edges g) \<union> set (nid # q) - v = dst_id ` set (g_edges g) \<union> set q - v"
    by auto
  then show ?case by simp
next
  case (3 g v nid q a)
  from bfs_decreases [OF 3] show ?case by simp
qed

definition invalidate_downstream :: "graph \<Rightarrow> string \<Rightarrow> string list" where
  "invalidate_downstream g nid = bfs g {} [nid] []"

lemma successors_edge: "s \<in> set (successors g u) \<longleftrightarrow> (u, s) \<in> edge_rel g"
  by (auto simp: successors_def edge_rel_def)

lemma bfs_reachable:
  assumes "set a = v" and "distinct a" and "\<forall>u \<in> v. \<forall>s. (u, s) \<in> edge_rel g \<longrightarrow> s \<in> v \<union> set q"
  shows "distinct (bfs g v q a) \<and> set (bfs g v q a) = (edge_rel g)\<^sup>* `` (v \<union> set q)"
  using assms
proof (induction g v q a rule: bfs.induct)
  case (1 g v a)
  have "w \<in> v" if "(u, w) \<in> (edge_rel g)\<^sup>*" "u \<in> v" for u w
    using that by (induction rule: rtrancl_induct) (use "1.prems"(3) in auto)
  then have "(edge_rel g)\<^sup>* `` v = v" by auto
  with 1 show ?case by simp
next
  case (2 g v nid q a)
  show ?case
  proof (cases "nid \<in> v")
    case True
    then have eq: "v \<union> set (nid # q) = v \<union> set q" by auto
    have "\<forall>u \<in> v. \<forall>s. (u, s) \<in> edge_rel g \<longrightarrow> s \<in> v \<union> set q"
      using "2.prems"(3) unfolding eq .
    from "2.IH"(1) [OF True "2.prems"(1,2) this] True show ?thesis
      unfolding eq by simp
  next
    case False
    let ?q = "q @ filter (\<lambda>s. s \<notin> insert nid v) (successors g nid)"
    have "\<forall>u \<in> insert nid v. \<forall>s. (u, s) \<in> edge_rel g \<longrightarrow> s \<in> insert nid v \<union> set ?q"
      using "2.prems"(3) by (auto simp: successors_edge)
    with "2.IH"(2) [OF False] "2.prems" False have
      "distinct (bfs g v (nid # q) a)
        \<and> set (bfs g v (nid # q) a) = (edge_rel g)\<^sup>* `` (insert nid v \<union> set ?q)"
      by auto
    moreover have "(edge_rel g)\<^sup>* `` (insert nid v \<union> set ?q) = (edge_rel g)\<^sup>* `` (v \<union> set (nid # q))"
    proof -
      let ?S = "set (filter (\<lambda>s. s \<notin> insert nid v) (successors g nid))"
      have "(edge_rel g)\<^sup>* `` ?S \<subseteq> (edge_rel g)\<^sup>* `` {nid}"
      proof
        fix w assume "w \<in> (edge_rel g)\<^sup>* `` ?S"
        then obtain s where "(nid, s) \<in> edge_rel g" "(s, w) \<in> (edge_rel g)\<^sup>*"
          by (auto simp: successors_edge)
        then show "w \<in> (edge_rel g)\<^sup>* `` {nid}"
          by (simp add: converse_rtrancl_into_rtrancl)
      qed
      moreover have "insert nid v \<union> set ?q = v \<union> set (nid # q) \<union> ?S" by auto
      moreover have "(edge_rel g)\<^sup>* `` {nid} \<subseteq> (edge_rel g)\<^sup>* `` (v \<union> set (nid # q))" by auto
      ultimately show ?thesis by (simp only: Image_Un) blast
    qed
    ultimately show ?thesis by simp
  qed
qed

lemma invalidate_downstream_reachable:
  "distinct (invalidate_downstream g nid)
     \<and> set (invalidate_downstream g nid) = {m. (nid, m) \<in> (edge_rel g)\<^sup>*}"
  unfolding invalidate_downstream_def using bfs_reachable [of "[]" "{}" g "[nid]"] by auto

section \<open>The caching executor\<close>

record cexec =
  cx_cache :: cache_store
  cx_node_keys :: "(string, string) pydict"
  cache_hits :: nat
  cache_misses :: nat
  nodes_executed :: nat

definition new_cexec :: "cache_store option \<Rightarrow> cexec" where
  "new_cexec cache =
     \<lparr>cx_cache = (case cache of None \<Rightarrow> [] | Some c \<Rightarrow> c), cx_node_keys = [],
      cache_hits = 0, cache_misses = 0, nodes_executed = 0\<rparr>"

fun run_cached_nodes ::
  "hasher \<Rightarrow> cexec \<Rightarrow> graph \<Rightarrow> string list \<Rightarrow> (cexec \<times> graph) \<times> unit result" where
  "run_cached_nodes h x g [] = ((x, g), Inr ())"
| "run_cached_nodes h x g (nid # nids) =
     (case get_node g nid of
        Inl e \<Rightarrow> ((x, g), Inl e)
      | Inr n \<Rightarrow>
          (let inputs = gather_inputs (g_edges g) (g_results g) nid;
               key = node_cache_key h (node_type n) (n_params n) (hash_inputs h inputs);
               x1 = x\<lparr>cx_node_keys := dset (cx_node_keys x) nid key\<rparr>
           in case cache_get (cx_cache x1) key of
                Some cached \<Rightarrow>
                  run_cached_nodes h (x1\<lparr>cache_hits := Suc (cache_hits x1)\<rparr>)
                    (g\<lparr>g_results := dset (g_results g) nid cached\<rparr>) nids
              | None \<Rightarrow>
                  (let x2 = x1\<lparr>cache_misses := Suc (cache_misses x1),
                               nodes_executed := Suc (nodes_executed x1)\<rparr>
                   in case n_exec n (n_params n) inputs of
                        Inl e \<Rightarrow> ((x2, g), Inl e)
                      | Inr out \<Rightarrow>
                          run_cached_nodes h (x2\<lparr>cx_cache := cache_put (cx_cache x2) key out\<rparr>)
                            (g\<lparr>g_results := dset (g_results g) nid out\<rparr>) nids)))"

definition run_cached :: "hasher \<Rightarrow> cexec \<Rightarrow> graph \<Rightarrow> (cexec \<times> graph) \<times> results result" where
  "run_cached h x g =
     (case topological_order g of
        Inl e \<Rightarrow> ((x, g), Inl e)
      | Inr order \<Rightarrow>
          (case run_cached_nodes h x (g\<lparr>g_results := []\<rparr>) order of
             ((x', g'), Inl e) \<Rightarrow> ((x', g'), Inl e)
           | ((x', g'), Inr _) \<Rightarrow> ((x', g'), Inr (g_results g'))))"

text \<open>The guard \<open>if key:\<close> skips a node without a recorded key, and an empty key.\<close>

definition invalidate_node :: "cexec \<Rightarrow> graph \<Rightarrow> string \<Rightarrow> cexec" where
  "invalidate_node x g start =
     x\<lparr>cx_cache := fold (\<lambda>nid c. case dget (cx_node_keys x) nid of
            None \<Rightarrow> c
          | Some key \<Rightarrow> if key \<noteq> [] then invalidate_key c key else c)
        (invalidate_downstream g start) (cx_cache x)\<rparr>"

definition reset_stats :: "cexec \<Rightarrow> cexec" where
  "reset_stats x = x\<lparr>cache_hits := 0, cache_misses := 0, nodes_executed := 0\<rparr>"

section \<open>Agreement with the plain executor\<close>

text \<open>
  A call is a node class with its parameters and inputs. \<open>store_ok\<close> says that every stored output
  is what some call of the set with that key returns.
\<close>

type_synonym call = "string \<times> pdict \<times> pdict"

definition call_key :: "hasher \<Rightarrow> call \<Rightarrow> string" where
  "call_key h = (\<lambda>(nt, ps, ins). node_cache_key h nt ps (hash_inputs h ins))"

text \<open>
  What the cache needs of the hash, on the calls at hand: it does not collide on their payloads (class,
  parameters and digests of the inputs), nor does its 16-character prefix on their input values.
\<close>

definition call_payload :: "hasher \<Rightarrow> call \<Rightarrow> pyval" where
  "call_payload h = (\<lambda>(nt, ps, ins).
     PDict [(''node_type'', PStr nt), (''params'', PDict ps),
            (''input_hashes'', PDict (map (\<lambda>(k, v). (k, PStr (take 16 (sha256_hex h (dumps_sorted h v))))) ins))])"

definition input_values :: "call set \<Rightarrow> pyval set" where
  "input_values K = (\<Union>(nt, ps, ins)\<in>K. snd ` set ins)"

definition collision_free :: "hasher \<Rightarrow> call set \<Rightarrow> bool" where
  "collision_free h K \<longleftrightarrow>
     inj_on (\<lambda>p. sha256_hex h (dumps_sorted h p)) (call_payload h ` K) \<and>
     inj_on (\<lambda>v. take 16 (sha256_hex h (dumps_sorted h v))) (input_values K)"

lemma map_snd_inj:
  assumes "map (\<lambda>(k, v). (k, PStr (f v))) xs = map (\<lambda>(k, v). (k, PStr (f v))) ys"
    and "inj_on f (snd ` (set xs \<union> set ys))"
  shows "xs = ys"
proof (rule map_inj_on [OF assms(1)])
  show "inj_on (\<lambda>(k, v). (k, PStr (f v))) (set xs \<union> set ys)"
  proof (rule inj_onI)
    fix p q assume p: "p \<in> set xs \<union> set ys" "q \<in> set xs \<union> set ys"
      and eq: "(\<lambda>(k, v). (k, PStr (f v))) p = (\<lambda>(k, v). (k, PStr (f v))) q"
    from p have "snd p \<in> snd ` (set xs \<union> set ys)" "snd q \<in> snd ` (set xs \<union> set ys)" by simp_all
    with eq inj_onD [OF assms(2)] show "p = q" by (cases p; cases q) simp
  qed
qed

lemma call_key_payload: "call_key h a = sha256_hex h (dumps_sorted h (call_payload h a))"
proof -
  obtain nt ps ins where a: "a = (nt, ps, ins)" by (cases a)
  have "map (\<lambda>(k, x). (k, PStr x)) (hash_inputs h ins)
      = map (\<lambda>(k, v). (k, PStr (take 16 (sha256_hex h (dumps_sorted h v))))) ins"
    by (induction ins) (auto simp: hash_inputs_def content_hash_def)
  then show ?thesis unfolding a call_key_def call_payload_def by (simp add: node_cache_key_def)
qed

lemma collision_free_keys:
  assumes K: "collision_free h K" and a: "a \<in> K" "b \<in> K" and eq: "call_key h a = call_key h b"
  shows "a = b"
proof -
  obtain nt ps ins where pa: "a = (nt, ps, ins)" by (cases a)
  obtain nt' ps' ins' where pb: "b = (nt', ps', ins')" by (cases b)
  have "inj_on (\<lambda>p. sha256_hex h (dumps_sorted h p)) (call_payload h ` K)"
    using K by (simp add: collision_free_def)
  from inj_onD [OF this eq [unfolded call_key_payload]] a have "call_payload h a = call_payload h b" by simp
  then have c: "nt = nt'" "ps = ps'"
    and m: "map (\<lambda>(k, v). (k, PStr (take 16 (sha256_hex h (dumps_sorted h v))))) ins
      = map (\<lambda>(k, v). (k, PStr (take 16 (sha256_hex h (dumps_sorted h v))))) ins'"
    by (simp_all add: call_payload_def pa pb)
  have "snd ` (set ins \<union> set ins') \<subseteq> input_values K"
    using a unfolding pa pb input_values_def by force
  then have "inj_on (\<lambda>v. take 16 (sha256_hex h (dumps_sorted h v))) (snd ` (set ins \<union> set ins'))"
    using K inj_on_subset unfolding collision_free_def by blast
  from map_snd_inj [OF m this] c show ?thesis by (simp add: pa pb)
qed

definition call_result :: "registry \<Rightarrow> call \<Rightarrow> outputs result" where
  "call_result reg = (\<lambda>(nt, ps, ins).
     case dget reg nt of None \<Rightarrow> Inl (KeyError nt) | Some f \<Rightarrow> f ps ins)"

definition store_ok :: "hasher \<Rightarrow> registry \<Rightarrow> call set \<Rightarrow> cache_store \<Rightarrow> bool" where
  "store_ok h reg K c \<longleftrightarrow>
     (\<forall>k out. cache_get c k = Some out \<longrightarrow> (\<exists>a \<in> K. call_key h a = k \<and> call_result reg a = Inr out))"

text \<open>Every node was instantiated from the registry, as \<open>add_node\<close> does.\<close>

definition from_registry :: "registry \<Rightarrow> graph \<Rightarrow> bool" where
  "from_registry reg g \<longleftrightarrow> (\<forall>(_, n) \<in> set (g_nodes g). dget reg (node_type n) = Some (n_exec n))"

definition node_call :: "graph \<Rightarrow> results \<Rightarrow> string \<Rightarrow> call option" where
  "node_call g res nid =
     map_option (\<lambda>n. (node_type n, n_params n, gather_inputs (g_edges g) res nid)) (dget (g_nodes g) nid)"

definition calls_of :: "graph \<Rightarrow> results \<Rightarrow> call set" where
  "calls_of g res = {c. \<exists>nid. node_call g res nid = Some c}"

lemma from_registry_empty: "from_registry reg empty_graph"
  by (simp add: from_registry_def empty_graph_def)

lemma add_node_from_registry:
  "from_registry reg g \<Longrightarrow> add_node reg g nid nt ps = Inr g' \<Longrightarrow> from_registry reg g'"
  by (auto simp: from_registry_def add_node_def dhas_def set_dset_new split: if_splits option.splits)

lemma add_edge_from_registry:
  "from_registry reg g \<Longrightarrow> add_edge g s sk d dk = Inr g' \<Longrightarrow> from_registry reg g'"
  by (auto simp: from_registry_def add_edge_def split: if_splits)

lemma node_call_result:
  assumes "from_registry reg g" and "node_call g res nid = Some c"
  shows "call_result reg c = node_output g res nid"
proof -
  from assms(2) obtain n where n: "dget (g_nodes g) nid = Some n"
    and c: "c = (node_type n, n_params n, gather_inputs (g_edges g) res nid)"
    by (auto simp: node_call_def)
  from assms(1) dget_SomeD [OF n] have "dget reg (node_type n) = Some (n_exec n)"
    by (auto simp: from_registry_def)
  with n c show ?thesis by (simp add: call_result_def node_output_def)
qed

lemma store_ok_hit:
  assumes "store_ok h reg K c" and "collision_free h K" and "a \<in> K"
    and "cache_get c (call_key h a) = Some out"
  shows "call_result reg a = Inr out"
  using assms collision_free_keys unfolding store_ok_def by blast

lemma store_ok_put:
  assumes "store_ok h reg K c" and "a \<in> K" and "call_result reg a = Inr out"
  shows "store_ok h reg K (cache_put c (call_key h a) out)"
  using assms by (auto simp: store_ok_def cs.get_put split: if_splits)

lemma store_ok_empty: "store_ok h reg K []"
  by (simp add: store_ok_def cache_get_def)

lemma store_ok_mono: "store_ok h reg K c \<Longrightarrow> K \<subseteq> K' \<Longrightarrow> store_ok h reg K' c"
  unfolding store_ok_def by blast

text \<open>One unfolding of the loop, in terms of the node's call and its output.\<close>

lemma run_cached_nodes_step:
  assumes "node_call g (g_results g) nid = Some c" and "from_registry reg g"
  shows "run_cached_nodes h x g (nid # nids) =
     (let x1 = x\<lparr>cx_node_keys := dset (cx_node_keys x) nid (call_key h c)\<rparr>
      in case cache_get (cx_cache x) (call_key h c) of
           Some out \<Rightarrow> run_cached_nodes h (x1\<lparr>cache_hits := Suc (cache_hits x)\<rparr>)
                         (g\<lparr>g_results := dset (g_results g) nid out\<rparr>) nids
         | None \<Rightarrow>
             (let x2 = x1\<lparr>cache_misses := Suc (cache_misses x), nodes_executed := Suc (nodes_executed x)\<rparr>
              in case node_output g (g_results g) nid of
                   Inl e \<Rightarrow> ((x2, g), Inl e)
                 | Inr out \<Rightarrow> run_cached_nodes h (x2\<lparr>cx_cache := cache_put (cx_cache x) (call_key h c) out\<rparr>)
                                (g\<lparr>g_results := dset (g_results g) nid out\<rparr>) nids))"
proof -
  from assms(1) obtain n where n: "dget (g_nodes g) nid = Some n"
    and c: "c = (node_type n, n_params n, gather_inputs (g_edges g) (g_results g) nid)"
    by (auto simp: node_call_def)
  show ?thesis
    by (simp add: n c get_node_def node_output_def call_key_def Let_def split: option.split sum.split)
qed

section \<open>Whole runs\<close>

text \<open>The calls a plain run makes, the failing one included.\<close>

fun encountered :: "graph \<Rightarrow> string list \<Rightarrow> call set" where
  "encountered g [] = {}"
| "encountered g (nid # nids) =
     (case node_call g (g_results g) nid of
        None \<Rightarrow> {}
      | Some c \<Rightarrow>
          insert c (case node_output g (g_results g) nid of
             Inl _ \<Rightarrow> {}
           | Inr out \<Rightarrow> encountered (g\<lparr>g_results := dset (g_results g) nid out\<rparr>) nids))"

definition workflow_calls :: "graph \<Rightarrow> call set" where
  "workflow_calls g =
     (case topological_order g of
        Inl _ \<Rightarrow> {} | Inr order \<Rightarrow> encountered (g\<lparr>g_results := []\<rparr>) order)"

lemma exec_nodes_step:
  assumes "node_call g (g_results g) nid = Some c"
  shows "exec_nodes g (nid # nids) =
     (case node_output g (g_results g) nid of
        Inl e \<Rightarrow> (g, Inl e)
      | Inr out \<Rightarrow> exec_nodes (g\<lparr>g_results := dset (g_results g) nid out\<rparr>) nids)"
  using assms by (auto simp: node_call_def get_node_def node_output_def)

lemma node_call_None:
  assumes "node_call g (g_results g) nid = None"
  shows "exec_nodes g (nid # nids) = (g, Inl (KeyError nid))"
    and "run_cached_nodes h x g (nid # nids) = ((x, g), Inl (KeyError nid))"
  using assms by (auto simp: node_call_def get_node_def)

lemma from_registry_results [simp]:
  "from_registry reg (g\<lparr>g_results := r\<rparr>) = from_registry reg g"
  by (simp add: from_registry_def)

lemma run_cached_nodes_agrees:
  assumes "from_registry reg g" and "collision_free h K" and "encountered g nids \<subseteq> K"
    and "store_ok h reg K (cx_cache x)"
  shows "snd (fst (run_cached_nodes h x g nids)) = fst (exec_nodes g nids)
       \<and> snd (run_cached_nodes h x g nids) = snd (exec_nodes g nids)
       \<and> store_ok h reg K (cx_cache (fst (fst (run_cached_nodes h x g nids))))"
  using assms
proof (induction nids arbitrary: x g)
  case Nil
  then show ?case by simp
next
  case (Cons nid nids)
  show ?case
  proof (cases "node_call g (g_results g) nid")
    case None
    with Cons.prems show ?thesis by (simp only: node_call_None) simp
  next
    case (Some c)
    note step = run_cached_nodes_step [OF Some Cons.prems(1)] exec_nodes_step [OF Some]
    from Cons.prems(3) Some have cK: "c \<in> K" by simp
    have cr: "call_result reg c = node_output g (g_results g) nid"
      by (rule node_call_result [OF Cons.prems(1) Some])
    show ?thesis
    proof (cases "node_output g (g_results g) nid")
      case (Inl e)
      have "cache_get (cx_cache x) (call_key h c) = None"
        using store_ok_hit [OF Cons.prems(4,2) cK] cr Inl by (metis not_Some_eq sum.distinct(1))
      with Inl Cons.prems(4) show ?thesis unfolding step by (simp add: Let_def)
    next
      case (Inr out)
      let ?g = "g\<lparr>g_results := dset (g_results g) nid out\<rparr>"
      have enc: "encountered ?g nids \<subseteq> K" using Cons.prems(3) Some Inr by simp
      note IH = Cons.IH [OF _ Cons.prems(2) enc]
      show ?thesis
      proof (cases "cache_get (cx_cache x) (call_key h c)")
        case None
        have "store_ok h reg K (cache_put (cx_cache x) (call_key h c) out)"
          by (rule store_ok_put [OF Cons.prems(4) cK]) (simp add: cr Inr)
        with None Inr Cons.prems(1) IH show ?thesis unfolding step by (simp add: Let_def)
      next
        case (Some out')
        with store_ok_hit [OF Cons.prems(4,2) cK] cr Inr have "out' = out" by auto
        with Some Inr Cons.prems(1,4) IH show ?thesis unfolding step by (simp add: Let_def)
      qed
    qed
  qed
qed

lemma run_cached_agrees:
  assumes "from_registry reg g" and "collision_free h K" and "workflow_calls g \<subseteq> K"
    and "store_ok h reg K (cx_cache x)"
  shows "snd (run_cached h x g) = snd (execute_workflow g)
       \<and> snd (fst (run_cached h x g)) = fst (execute_workflow g)
       \<and> store_ok h reg K (cx_cache (fst (fst (run_cached h x g))))"
proof (cases "topological_order g")
  case (Inl e)
  with assms show ?thesis by (simp add: run_cached_def execute_workflow_def)
next
  case (Inr order)
  with assms(3) have "encountered (g\<lparr>g_results := []\<rparr>) order \<subseteq> K"
    by (simp add: workflow_calls_def)
  from run_cached_nodes_agrees [OF _ assms(2) this assms(4)] assms(1) Inr show ?thesis
    by (auto simp: run_cached_def execute_workflow_def split: prod.splits sum.splits)
qed

section \<open>Hit and miss accounting\<close>

lemma run_cached_nodes_counts:
  "run_cached_nodes h x g nids = ((x', g'), Inr ()) \<Longrightarrow>
     cache_hits x' + cache_misses x' = cache_hits x + cache_misses x + length nids
     \<and> nodes_executed x' + cache_misses x = nodes_executed x + cache_misses x'"
  by (induction h x g nids rule: run_cached_nodes.induct)
     (auto simp: Let_def split: sum.splits option.splits)

text \<open>When every key is already stored, a run is hits only and executes no node.\<close>

lemma run_cached_nodes_all_hits:
  assumes "from_registry reg g" and "collision_free h K" and "encountered g nids \<subseteq> K"
    and "store_ok h reg K (cx_cache x)"
    and "\<forall>c \<in> encountered g nids. cache_get (cx_cache x) (call_key h c) \<noteq> None"
    and "run_cached_nodes h x g nids = ((x', g'), r)"
  shows "nodes_executed x' = nodes_executed x \<and> cache_misses x' = cache_misses x
       \<and> cx_cache x' = cx_cache x"
  using assms
proof (induction nids arbitrary: x g)
  case Nil
  then show ?case by simp
next
  case (Cons nid nids)
  show ?case
  proof (cases "node_call g (g_results g) nid")
    case None
    with Cons.prems(6) show ?thesis by (simp only: node_call_None) simp
  next
    case (Some c)
    with Cons.prems(3,5) obtain out where cK: "c \<in> K"
      and hit: "cache_get (cx_cache x) (call_key h c) = Some out" by auto
    have "node_output g (g_results g) nid = Inr out"
      using store_ok_hit [OF Cons.prems(4,2) cK hit] node_call_result [OF Cons.prems(1) Some] by simp
    then have enc: "encountered g (nid # nids) =
        insert c (encountered (g\<lparr>g_results := dset (g_results g) nid out\<rparr>) nids)"
      using Some by simp
    let ?x = "x\<lparr>cx_node_keys := dset (cx_node_keys x) nid (call_key h c), cache_hits := Suc (cache_hits x)\<rparr>"
    have run: "run_cached_nodes h ?x (g\<lparr>g_results := dset (g_results g) nid out\<rparr>) nids = ((x', g'), r)"
      using Cons.prems(6) hit unfolding run_cached_nodes_step [OF Some Cons.prems(1)]
      by (simp add: Let_def)
    have "nodes_executed x' = nodes_executed ?x \<and> cache_misses x' = cache_misses ?x
        \<and> cx_cache x' = cx_cache ?x"
      by (rule Cons.IH [OF _ Cons.prems(2) _ _ _ run]) (use Cons.prems enc in auto)
    then show ?thesis by simp
  qed
qed

lemma run_cached_nodes_stores:
  assumes "from_registry reg g" and "collision_free h K" and "encountered g nids \<subseteq> K"
    and "store_ok h reg K (cx_cache x)"
    and "run_cached_nodes h x g nids = ((x', g'), Inr ())"
  shows "(\<forall>k. cache_get (cx_cache x) k \<noteq> None \<longrightarrow> cache_get (cx_cache x') k \<noteq> None)
       \<and> (\<forall>c \<in> encountered g nids. cache_get (cx_cache x') (call_key h c) \<noteq> None)"
  using assms
proof (induction nids arbitrary: x g)
  case Nil
  then show ?case by simp
next
  case (Cons nid nids)
  from Cons.prems(5) obtain c where c: "node_call g (g_results g) nid = Some c"
    by (cases "node_call g (g_results g) nid") (auto simp: node_call_None(2) simp del: run_cached_nodes.simps)
  with Cons.prems(3) have cK: "c \<in> K" by simp
  note cr = node_call_result [OF Cons.prems(1) c]
  note step = run_cached_nodes_step [OF c Cons.prems(1), of h x nids, unfolded Let_def]
  note run = Cons.prems(5) [unfolded step]
  obtain out where out: "node_output g (g_results g) nid = Inr out"
  proof (cases "cache_get (cx_cache x) (call_key h c)")
    case None
    show ?thesis
    proof (cases "node_output g (g_results g) nid")
      case (Inl e)
      with None Cons.prems(5) show ?thesis unfolding step by simp
    qed (rule that)
  next
    case (Some out)
    from store_ok_hit [OF Cons.prems(4,2) cK this] cr show ?thesis by (intro that) simp
  qed
  let ?g = "g\<lparr>g_results := dset (g_results g) nid out\<rparr>"
  have enc: "encountered g (nid # nids) = insert c (encountered ?g nids)" using c out by simp
  obtain y where y: "run_cached_nodes h y ?g nids = ((x', g'), Inr ())"
    and yk: "\<forall>k. cache_get (cx_cache x) k \<noteq> None \<longrightarrow> cache_get (cx_cache y) k \<noteq> None"
    and yc: "cache_get (cx_cache y) (call_key h c) \<noteq> None"
    and yok: "store_ok h reg K (cx_cache y)"
  proof (cases "cache_get (cx_cache x) (call_key h c)")
    case None
    let ?y = "x\<lparr>cx_node_keys := dset (cx_node_keys x) nid (call_key h c),
      cache_misses := Suc (cache_misses x), nodes_executed := Suc (nodes_executed x),
      cx_cache := cache_put (cx_cache x) (call_key h c) out\<rparr>"
    show ?thesis
    proof (rule that [of ?y])
      show "run_cached_nodes h ?y ?g nids = ((x', g'), Inr ())"
        using run None out by simp
      show "store_ok h reg K (cx_cache ?y)"
        using store_ok_put [OF Cons.prems(4) cK, of out] cr out by simp
    qed (auto simp: cs.get_put)
  next
    case (Some out')
    have "out' = out" using store_ok_hit [OF Cons.prems(4,2) cK Some] cr out by simp
    let ?y = "x\<lparr>cx_node_keys := dset (cx_node_keys x) nid (call_key h c), cache_hits := Suc (cache_hits x)\<rparr>"
    show ?thesis
      by (rule that [of ?y])
         (use Cons.prems(4) run Some \<open>out' = out\<close> in auto)
  qed
  have "(\<forall>k. cache_get (cx_cache y) k \<noteq> None \<longrightarrow> cache_get (cx_cache x') k \<noteq> None)
       \<and> (\<forall>c \<in> encountered ?g nids. cache_get (cx_cache x') (call_key h c) \<noteq> None)"
    by (rule Cons.IH [OF _ Cons.prems(2) _ yok y]) (use Cons.prems(1,3) enc in auto)
  with yk yc enc show ?case by auto
qed

section \<open>Invalidation\<close>

lemma invalidate_node_get:
  "cache_get (cx_cache (invalidate_node x g start)) k =
     (if k \<noteq> [] \<and> (\<exists>nid. (start, nid) \<in> (edge_rel g)\<^sup>* \<and> dget (cx_node_keys x) nid = Some k)
      then None else cache_get (cx_cache x) k)"
proof -
  have "cache_get (fold (\<lambda>nid c. case dget (cx_node_keys x) nid of None \<Rightarrow> c
          | Some key \<Rightarrow> if key \<noteq> [] then invalidate_key c key else c) ids c) k =
     (if k \<noteq> [] \<and> (\<exists>nid \<in> set ids. dget (cx_node_keys x) nid = Some k) then None else cache_get c k)"
    for ids c
    by (induction ids arbitrary: c) (auto simp: cs.get_del split: option.splits)
  then show ?thesis
    using invalidate_downstream_reachable [of g start] by (auto simp: invalidate_node_def)
qed

end
