(* ===== verification/Lru.thy ===== *)
theory Lru
  imports PyDict
begin

text \<open>
  The contract of a least-recently-used pool. Two components of the repository keep one in an
  \<open>OrderedDict\<close> (most recent key last): the GPU model slots of
  \<open>labs/comfyui-executor/src/v2_offload.py\<close> and the embedding cache of
  \<open>labs/embedding-pipeline/src/v1_batched.py\<close>. The locale \<open>lru_pool\<close> states one use of a key on
  the key list, and proves once what a client cares about: after any sequence of uses the pool
  holds exactly the last \<open>cap\<close> distinct keys used, in order of last use.
\<close>

definition lru_touch :: "nat \<Rightarrow> 'k list \<Rightarrow> 'k \<Rightarrow> 'k list" where
  "lru_touch cap ks k =
     (if k \<in> set ks then filter (\<lambda>x. x \<noteq> k) ks @ [k]
      else (if cap \<le> length ks then tl ks else ks) @ [k])"

definition last_n :: "nat \<Rightarrow> 'a list \<Rightarrow> 'a list" where
  "last_n n xs = drop (length xs - n) xs"

text \<open>\<open>remdups\<close> keeps the last occurrence of each element, so this is the last-use order.\<close>

definition recent_keys :: "nat \<Rightarrow> 'k list \<Rightarrow> 'k list" where
  "recent_keys cap uses = last_n cap (remdups uses)"

lemma remdups_snoc: "remdups (xs @ [k]) = filter (\<lambda>x. x \<noteq> k) (remdups xs) @ [k]"
  by (induction xs) auto

lemma filter_neq_notin: "k \<notin> set xs \<Longrightarrow> filter (\<lambda>x. x \<noteq> k) xs = xs"
  by (induction xs) auto

lemma length_filter_neq: "distinct xs \<Longrightarrow> k \<in> set xs \<Longrightarrow> Suc (length (filter (\<lambda>x. x \<noteq> k) xs)) = length xs"
  by (induction xs) (auto simp: filter_neq_notin)

lemma last_n_append: "length C = n \<Longrightarrow> last_n n (A @ C) = C"
  by (simp add: last_n_def)

lemma last_n_short: "length C \<le> n \<Longrightarrow> last_n n C = C"
  by (simp add: last_n_def)

text \<open>Using a key commutes with keeping the last \<open>n\<close> keys; the list is split as \<open>A @ B\<close>, \<open>B\<close> kept.\<close>

lemma last_n_snoc_split:
  assumes d: "distinct (A @ B)" and n: "0 < n"
    and B: "length B = n \<or> (length B < n \<and> A = [])"
  shows "lru_touch n B k = last_n n (filter (\<lambda>x. x \<noteq> k) (A @ B) @ [k])"
proof (cases "k \<in> set B")
  case True
  with d have "filter (\<lambda>x. x \<noteq> k) A = A" by (intro filter_neq_notin) auto
  moreover have "length (filter (\<lambda>x. x \<noteq> k) B @ [k]) = length B"
    using d True length_filter_neq [of B k] by simp
  ultimately have "last_n n (filter (\<lambda>x. x \<noteq> k) (A @ B) @ [k]) = filter (\<lambda>x. x \<noteq> k) B @ [k]"
    using B last_n_append [of "filter (\<lambda>x. x \<noteq> k) B @ [k]" n A]
      last_n_short [of "filter (\<lambda>x. x \<noteq> k) B @ [k]" n] by auto
  with True show ?thesis by (simp add: lru_touch_def)
next
  case False
  then have fB: "filter (\<lambda>x. x \<noteq> k) B = B" by (rule filter_neq_notin)
  show ?thesis
  proof (cases "length B = n")
    case True
    with n obtain b B' where b: "B = b # B'" by (cases B) auto
    let ?fA = "filter (\<lambda>x. x \<noteq> k) A"
    have "last_n n ((?fA @ [b]) @ (B' @ [k])) = B' @ [k]"
      by (rule last_n_append) (use True b in simp)
    with False True fB b show ?thesis by (simp add: lru_touch_def)
  next
    case False': False
    with B have "length B < n" "A = []" by auto
    with False fB last_n_short [of "B @ [k]" n] show ?thesis by (simp add: lru_touch_def)
  qed
qed

lemma last_n_snoc:
  assumes "distinct R" and "0 < n"
  shows "lru_touch n (last_n n R) k = last_n n (filter (\<lambda>x. x \<noteq> k) R @ [k])"
proof -
  have R: "take (length R - n) R @ last_n n R = R" by (simp add: last_n_def)
  have "length (last_n n R) = n \<or> (length (last_n n R) < n \<and> take (length R - n) R = [])"
    by (auto simp: last_n_def)
  from last_n_snoc_split [OF _ assms(2) this, of k, unfolded R] assms(1) show ?thesis by simp
qed

lemma recent_keys_snoc: "0 < cap \<Longrightarrow> recent_keys cap (uses @ [k]) = lru_touch cap (recent_keys cap uses) k"
  by (simp add: recent_keys_def remdups_snoc last_n_snoc)

lemma length_last_n: "length (last_n n xs) \<le> n"
  by (simp add: last_n_def)

locale lru_pool =
  fixes cap :: "'s \<Rightarrow> nat"
    and keys :: "'s \<Rightarrow> 'k list"
    and key_of :: "'o \<Rightarrow> 'k"
    and use :: "'o \<Rightarrow> 's \<Rightarrow> 's"
    and inv :: "'s \<Rightarrow> bool"
  assumes keys_use: "inv s \<Longrightarrow> keys (use x s) = lru_touch (cap s) (keys s) (key_of x)"
    and cap_use: "inv s \<Longrightarrow> cap (use x s) = cap s"
    and inv_use: "inv s \<Longrightarrow> inv (use x s)"
    and cap_pos: "inv s \<Longrightarrow> 0 < cap s"
begin

lemma uses_inv: "inv s \<Longrightarrow> inv (fold use xs s) \<and> cap (fold use xs s) = cap s"
  by (induction xs arbitrary: s) (auto simp: inv_use cap_use)

lemma uses_recent:
  assumes "inv s" and "keys s = []"
  shows "keys (fold use xs s) = recent_keys (cap s) (map key_of xs)"
proof (induction xs rule: rev_induct)
  case Nil
  with assms show ?case by (simp add: recent_keys_def last_n_def)
next
  case (snoc x xs)
  with assms uses_inv [OF assms(1), of xs] show ?case
    by (simp add: keys_use recent_keys_snoc cap_pos)
qed

lemma uses_bounded: "inv s \<Longrightarrow> keys s = [] \<Longrightarrow> length (keys (fold use xs s)) \<le> cap s"
  by (simp add: uses_recent recent_keys_def length_last_n)

lemma used_last_resident:
  assumes "inv s" and "keys s = []"
  shows "last (keys (fold use (xs @ [x]) s)) = key_of x"
proof -
  have "keys (fold use (xs @ [x]) s) = lru_touch (cap s) (recent_keys (cap s) (map key_of xs)) (key_of x)"
    using uses_recent [OF assms, of "xs @ [x]"] by (simp add: recent_keys_snoc cap_pos assms(1))
  then show ?thesis by (simp add: lru_touch_def)
qed

end

end
