(* ===== verification/Offload.thy ===== *)
theory Offload
  imports CacheExec Lru
begin

text \<open>
  GPU model slots with LRU eviction and the offloading executor,
  \<open>labs/comfyui-executor/src/v2_offload.py\<close>.

  A slot records which device its model is on (\<open>time.sleep\<close>, the simulated transfer time, is not
  modelled). \<open>ensure_loaded\<close> raises only when the pool has no slot at all: \<open>popitem\<close> on the empty
  \<open>OrderedDict\<close> is a \<open>KeyError\<close>. A model id is used as a dictionary key, so a list or dict there
  is a \<open>TypeError\<close>.
\<close>

section \<open>Model slots\<close>

record slot =
  slot_model_id :: pyval
  slot_data :: pyval
  device :: string

definition slot_load :: "slot \<Rightarrow> slot" where
  "slot_load s = s\<lparr>device := ''cuda''\<rparr>"

definition offload_to_cpu :: "slot \<Rightarrow> slot" where
  "offload_to_cpu s = s\<lparr>device := ''cpu''\<rparr>"

record mregistry =
  max_gpu_slots :: int
  gpu_slots :: "(pyval, slot) pydict"
  cpu_slots :: "(pyval, slot) pydict"
  load_count :: nat
  offload_count :: nat

definition new_mregistry :: "int \<Rightarrow> mregistry" where
  "new_mregistry n =
     \<lparr>max_gpu_slots = n, gpu_slots = [], cpu_slots = [], load_count = 0, offload_count = 0\<rparr>"

definition evict_lru :: "mregistry \<Rightarrow> mregistry result" where
  "evict_lru r =
     (case dpop_first (gpu_slots r) of
        None \<Rightarrow> Inl (KeyError ''dictionary is empty'')
      | Some ((mid, s), rest) \<Rightarrow>
          Inr (r\<lparr>gpu_slots := rest, cpu_slots := dset (cpu_slots r) mid (offload_to_cpu s),
                 offload_count := Suc (offload_count r)\<rparr>))"

definition ensure_loaded :: "mregistry \<Rightarrow> pyval \<Rightarrow> pyval \<Rightarrow> (mregistry \<times> slot) result" where
  "ensure_loaded r mid data =
     (case dget (gpu_slots r) mid of
        Some s \<Rightarrow> Inr (r\<lparr>gpu_slots := dmove_end (gpu_slots r) mid\<rparr>, s)
      | None \<Rightarrow>
          rbind (if max_gpu_slots r \<le> int (length (gpu_slots r)) then evict_lru r else Inr r)
            (\<lambda>r1. let (s, cpu) = (case dget (cpu_slots r1) mid of
                         Some s \<Rightarrow> (s, dpop (cpu_slots r1) mid)
                       | None \<Rightarrow> (\<lparr>slot_model_id = mid, slot_data = data, device = ''cpu''\<rparr>, cpu_slots r1));
                       s' = slot_load s
                   in Inr (r1\<lparr>cpu_slots := cpu, load_count := Suc (load_count r1),
                              gpu_slots := dmove_end (dset (gpu_slots r1) mid s') mid\<rparr>, s')))"

definition gpu_resident :: "mregistry \<Rightarrow> pyval list" where
  "gpu_resident r = dkeys (gpu_slots r)"

text \<open>What holds of a pool with at least one slot: see \<open>ensure_loaded_ok\<close>.\<close>

definition pool_ok :: "mregistry \<Rightarrow> bool" where
  "pool_ok r \<longleftrightarrow> 1 \<le> max_gpu_slots r
     \<and> dwf (gpu_slots r) \<and> dwf (cpu_slots r)
     \<and> set (dkeys (gpu_slots r)) \<inter> set (dkeys (cpu_slots r)) = {}
     \<and> int (length (gpu_slots r)) \<le> max_gpu_slots r
     \<and> (\<forall>mid s. dget (gpu_slots r) mid = Some s \<longrightarrow> slot_model_id s = mid \<and> device s = ''cuda'')
     \<and> (\<forall>mid s. dget (cpu_slots r) mid = Some s \<longrightarrow> slot_model_id s = mid \<and> device s = ''cpu'')
     \<and> load_count r = offload_count r + length (gpu_slots r)"

lemma pool_ok_new: "1 \<le> n \<Longrightarrow> pool_ok (new_mregistry n)"
  by (simp add: pool_ok_def new_mregistry_def)

lemma pool_ok_numbers:
  assumes "pool_ok r"
  shows "1 \<le> max_gpu_slots r" "int (length (gpu_slots r)) \<le> max_gpu_slots r"
    "load_count r = offload_count r + length (gpu_slots r)"
  using assms unfolding pool_ok_def by blast+

lemma dmove_end_dset_new:
  assumes "mid \<notin> set (dkeys d)"
  shows "dmove_end (dset d mid s) mid = d @ [(mid, s)]"
proof -
  have "dpop (d @ [(mid, s)]) mid = d"
    using dpop_absent [OF assms] by (simp add: dpop_def)
  then show ?thesis
    using dget_dset [of d mid s mid] by (simp add: dmove_end_def dset_new [OF assms])
qed

lemma evict_lru_ok:
  assumes ok: "pool_ok r" and full: "max_gpu_slots r \<le> int (length (gpu_slots r))"
    and out: "mid \<notin> set (dkeys (gpu_slots r))"
  shows "\<exists>r1. evict_lru r = Inr r1 \<and> pool_ok r1 \<and> max_gpu_slots r1 = max_gpu_slots r
      \<and> int (length (gpu_slots r1)) < max_gpu_slots r1
      \<and> gpu_resident r1 = tl (gpu_resident r) \<and> mid \<notin> set (dkeys (gpu_slots r1))"
proof -
  from ok full have "gpu_slots r \<noteq> []" by (auto simp: pool_ok_def)
  then obtain k s rest where g: "gpu_slots r = (k, s) # rest" by (cases "gpu_slots r") auto
  let ?r1 = "r\<lparr>gpu_slots := rest, cpu_slots := dset (cpu_slots r) k (offload_to_cpu s),
                 offload_count := Suc (offload_count r)\<rparr>"
  have e: "evict_lru r = Inr ?r1" by (simp add: evict_lru_def dpop_first_def g)
  have k: "k \<notin> set (dkeys rest)" using ok by (simp add: pool_ok_def g dwf_Cons)
  have gm: "slot_model_id t = m" if "dget (gpu_slots r) m = Some t" for m t
    using ok that by (simp add: pool_ok_def)
  have cm: "slot_model_id t = m \<and> device t = ''cpu''" if "dget (cpu_slots r) m = Some t" for m t
    using ok that by (simp add: pool_ok_def)
  have rest: "dget (gpu_slots r) k' = Some s'" if "dget rest k' = Some s'" for k' s'
    using that k dget_Some_key [OF that] by (auto simp: g)
  have "pool_ok ?r1"
    unfolding pool_ok_def
  proof (intro conjI allI impI)
    show "set (dkeys (gpu_slots ?r1)) \<inter> set (dkeys (cpu_slots ?r1)) = {}"
      using ok k by (auto simp: pool_ok_def g)
    show "dwf (gpu_slots ?r1)" "dwf (cpu_slots ?r1)"
      using ok by (auto simp: pool_ok_def g dwf_Cons)
    show "slot_model_id t = m" "device t = ''cuda''" if "dget (gpu_slots ?r1) m = Some t" for m t
      using ok rest [of m t] that by (auto simp: pool_ok_def)
    show "slot_model_id t = m" "device t = ''cpu''" if "dget (cpu_slots ?r1) m = Some t" for m t
      using cm [of m t] gm [of k s] that by (auto simp: g offload_to_cpu_def split: if_splits)
    show "1 \<le> max_gpu_slots ?r1" "int (length (gpu_slots ?r1)) \<le> max_gpu_slots ?r1"
      "load_count ?r1 = offload_count ?r1 + length (gpu_slots ?r1)"
      using pool_ok_numbers [OF ok] g by auto
  qed
  moreover have "int (length (gpu_slots ?r1)) < max_gpu_slots ?r1"
    "gpu_resident ?r1 = tl (gpu_resident r)" "mid \<notin> set (dkeys (gpu_slots ?r1))"
    using pool_ok_numbers [OF ok] out by (auto simp: g gpu_resident_def)
  ultimately show ?thesis using e by simp
qed

text \<open>Loading always succeeds in a pool with a slot; the pool stays well-formed and is used LRU.\<close>

lemma ensure_loaded_ok:
  assumes ok: "pool_ok r"
  shows "\<exists>r' s. ensure_loaded r mid data = Inr (r', s) \<and> pool_ok r'
      \<and> max_gpu_slots r' = max_gpu_slots r
      \<and> dget (gpu_slots r') mid = Some s \<and> slot_model_id s = mid \<and> device s = ''cuda''
      \<and> gpu_resident r' = lru_touch (nat (max_gpu_slots r)) (gpu_resident r) mid"
proof (cases "dget (gpu_slots r) mid")
  case (Some s)
  let ?r' = "r\<lparr>gpu_slots := dmove_end (gpu_slots r) mid\<rparr>"
  have "pool_ok ?r'" using ok by (auto simp: pool_ok_def length_dmove_end)
  moreover have "gpu_resident ?r' = lru_touch (nat (max_gpu_slots r)) (gpu_resident r) mid"
    using Some by (simp add: gpu_resident_def lru_touch_def dkeys_dmove_end dget_Some_key)
  ultimately show ?thesis using Some ok by (auto simp: ensure_loaded_def pool_ok_def)
next
  case None
  then have out: "mid \<notin> set (dkeys (gpu_slots r))" by (simp add: dget_None_iff)
  let ?full = "max_gpu_slots r \<le> int (length (gpu_slots r))"
  obtain r1 where r1: "(if ?full then evict_lru r else Inr r) = Inr r1" and ok1: "pool_ok r1"
    and m1: "max_gpu_slots r1 = max_gpu_slots r" and len1: "int (length (gpu_slots r1)) < max_gpu_slots r1"
    and res1: "gpu_resident r1 = (if ?full then tl (gpu_resident r) else gpu_resident r)"
    and out1: "mid \<notin> set (dkeys (gpu_slots r1))"
    using evict_lru_ok [OF ok _ out] ok out by (cases ?full) auto
  define sc where "sc = (case dget (cpu_slots r1) mid of
       Some s \<Rightarrow> (s, dpop (cpu_slots r1) mid)
     | None \<Rightarrow> (\<lparr>slot_model_id = mid, slot_data = data, device = ''cpu''\<rparr>, cpu_slots r1))"
  let ?s = "slot_load (fst sc)"
  let ?r' = "r1\<lparr>cpu_slots := snd sc, load_count := Suc (load_count r1),
       gpu_slots := gpu_slots r1 @ [(mid, ?s)]\<rparr>"
  have e: "ensure_loaded r mid data = Inr (?r', ?s)"
    unfolding ensure_loaded_def None option.case r1 rbind_simps sc_def [symmetric]
    using out1 by (simp add: Let_def dmove_end_dset_new split: prod.split)
  have sid: "slot_model_id (fst sc) = mid"
    using ok1 by (auto simp: sc_def pool_ok_def split: option.split)
  have cpu: "dwf (snd sc)" "mid \<notin> set (dkeys (snd sc))"
    "set (dkeys (snd sc)) \<subseteq> set (dkeys (cpu_slots r1))"
    "\<And>k s. dget (snd sc) k = Some s \<Longrightarrow> dget (cpu_slots r1) k = Some s"
    using ok1 by (auto simp: sc_def pool_ok_def dget_None_iff split: option.splits if_splits)
  have "pool_ok ?r'"
    unfolding pool_ok_def
  proof (intro conjI allI impI)
    show "dwf (gpu_slots ?r')" "dwf (cpu_slots ?r')"
      using ok1 out1 cpu(1) by (auto simp: pool_ok_def dwf_def)
    show "set (dkeys (gpu_slots ?r')) \<inter> set (dkeys (cpu_slots ?r')) = {}"
      using ok1 cpu(2,3) by (auto simp: pool_ok_def)
    show "slot_model_id t = m" "device t = ''cuda''" if "dget (gpu_slots ?r') m = Some t" for m t
      using ok1 sid that by (auto simp: pool_ok_def dget_append slot_load_def split: option.splits if_splits)
    show "slot_model_id t = m" "device t = ''cpu''" if "dget (cpu_slots ?r') m = Some t" for m t
      using ok1 cpu(4) [of m t] that by (auto simp: pool_ok_def)
  qed (use ok1 len1 in \<open>auto simp: pool_ok_def\<close>)
  moreover have "gpu_resident ?r' = lru_touch (nat (max_gpu_slots r)) (gpu_resident r) mid"
    using res1 out ok by (auto simp: gpu_resident_def lru_touch_def pool_ok_def)
  moreover have "dget (gpu_slots ?r') mid = Some ?s"
    using out1 by (simp add: dget_append dget_None_iff [symmetric])
  ultimately show ?thesis
    using e m1 sid by (auto simp: slot_load_def)
qed

text \<open>One request as a total step on the pool, for sequences of requests.\<close>

definition request_model :: "pyval \<times> pyval \<Rightarrow> mregistry \<Rightarrow> mregistry" where
  "request_model = (\<lambda>(mid, data) r. case ensure_loaded r mid data of Inl _ \<Rightarrow> r | Inr (r', _) \<Rightarrow> r')"

interpretation gpu: lru_pool "\<lambda>r. nat (max_gpu_slots r)" gpu_resident fst request_model pool_ok
proof unfold_locales
  fix r and x :: "pyval \<times> pyval" assume ok: "pool_ok r"
  obtain mid data where x: "x = (mid, data)" by (cases x)
  from ensure_loaded_ok [OF ok, of mid data] obtain r' s where
    e: "ensure_loaded r mid data = Inr (r', s)" "pool_ok r'" "max_gpu_slots r' = max_gpu_slots r"
       "gpu_resident r' = lru_touch (nat (max_gpu_slots r)) (gpu_resident r) mid" by blast
  then show "gpu_resident (request_model x r) = lru_touch (nat (max_gpu_slots r)) (gpu_resident r) (fst x)"
    and "nat (max_gpu_slots (request_model x r)) = nat (max_gpu_slots r)"
    and "pool_ok (request_model x r)"
    by (simp_all add: request_model_def x)
  show "0 < nat (max_gpu_slots r)" using ok by (simp add: pool_ok_def)
qed

section \<open>The offloading executor\<close>

definition model_consuming_nodes :: "string list" where
  "model_consuming_nodes = [''KSampler'', ''VAEDecode'']"

record oexec =
  ox_registry :: mregistry
  ox_cache :: cache_store
  cache_hit_count :: nat
  cache_miss_count :: nat
  model_load_count :: nat
  model_offload_count :: nat

definition new_oexec :: "mregistry option \<Rightarrow> cache_store option \<Rightarrow> oexec" where
  "new_oexec reg cache =
     \<lparr>ox_registry = (case reg of None \<Rightarrow> new_mregistry 2 | Some r \<Rightarrow> r),
      ox_cache = (case cache of None \<Rightarrow> [] | Some c \<Rightarrow> c),
      cache_hit_count = 0, cache_miss_count = 0, model_load_count = 0, model_offload_count = 0\<rparr>"

text \<open>The first part of the loop body: a model-consuming node gets its model a GPU slot.\<close>

definition prepare_model :: "mregistry \<Rightarrow> node \<Rightarrow> mregistry result" where
  "prepare_model r n =
     (if node_type n \<in> set model_consuming_nodes then
        (let model_id = dget_or (n_params n) ''model_name'' (PStr ''default_model'');
             model_data = dget_or (n_params n) ''model_data'' (PDict [])
         in if \<not> hashable model_id then Inl (TypeError ''unhashable type'')
            else rmap fst (ensure_loaded r model_id model_data))
      else Inr r)"

fun run_offload_nodes ::
  "hasher \<Rightarrow> oexec \<Rightarrow> graph \<Rightarrow> string list \<Rightarrow> (oexec \<times> graph) \<times> unit result" where
  "run_offload_nodes h x g [] = ((x, g), Inr ())"
| "run_offload_nodes h x g (nid # nids) =
     (case get_node g nid of
        Inl e \<Rightarrow> ((x, g), Inl e)
      | Inr n \<Rightarrow>
     (case prepare_model (ox_registry x) n of
        Inl e \<Rightarrow> ((x, g), Inl e)
      | Inr r' \<Rightarrow>
          (let x1 = x\<lparr>ox_registry := r'\<rparr>;
               inputs = gather_inputs (g_edges g) (g_results g) nid;
               key = node_cache_key h (node_type n) (n_params n) (hash_inputs h inputs)
           in case cache_get (ox_cache x1) key of
                Some cached \<Rightarrow>
                  run_offload_nodes h (x1\<lparr>cache_hit_count := Suc (cache_hit_count x1)\<rparr>)
                    (g\<lparr>g_results := dset (g_results g) nid cached\<rparr>) nids
              | None \<Rightarrow>
                  (let x2 = x1\<lparr>cache_miss_count := Suc (cache_miss_count x1)\<rparr>
                   in case n_exec n (n_params n) inputs of
                        Inl e \<Rightarrow> ((x2, g), Inl e)
                      | Inr out \<Rightarrow>
                          run_offload_nodes h (x2\<lparr>ox_cache := cache_put (ox_cache x2) key out\<rparr>)
                            (g\<lparr>g_results := dset (g_results g) nid out\<rparr>) nids))))"

definition run_offload :: "hasher \<Rightarrow> oexec \<Rightarrow> graph \<Rightarrow> (oexec \<times> graph) \<times> results result" where
  "run_offload h x g =
     (case topological_order g of
        Inl e \<Rightarrow> ((x, g), Inl e)
      | Inr order \<Rightarrow>
          (case run_offload_nodes h x (g\<lparr>g_results := []\<rparr>) order of
             ((x', g'), Inl e) \<Rightarrow> ((x', g'), Inl e)
           | ((x', g'), Inr _) \<Rightarrow>
               ((x'\<lparr>model_load_count := load_count (ox_registry x'),
                    model_offload_count := offload_count (ox_registry x')\<rparr>, g'),
                Inr (g_results g'))))"

text \<open>Every model id named by a model-consuming node can be a dictionary key.\<close>

definition models_hashable :: "graph \<Rightarrow> bool" where
  "models_hashable g \<longleftrightarrow>
     (\<forall>(_, n) \<in> set (g_nodes g). node_type n \<in> set model_consuming_nodes \<longrightarrow>
        hashable (dget_or (n_params n) ''model_name'' (PStr ''default_model'')))"

lemma prepare_model_ok:
  assumes "pool_ok r" and "models_hashable g" and "get_node g nid = Inr n"
  shows "\<exists>r'. prepare_model r n = Inr r' \<and> pool_ok r' \<and> max_gpu_slots r' = max_gpu_slots r"
proof -
  from assms(3) have "(nid, n) \<in> set (g_nodes g)"
    by (auto simp: get_node_def dest: dget_SomeD split: option.splits)
  with assms(2) have "node_type n \<in> set model_consuming_nodes \<Longrightarrow>
      hashable (dget_or (n_params n) ''model_name'' (PStr ''default_model''))"
    by (auto simp: models_hashable_def)
  moreover obtain r' s where "ensure_loaded r (dget_or (n_params n) ''model_name'' (PStr ''default_model''))
      (dget_or (n_params n) ''model_data'' (PDict [])) = Inr (r', s)"
    "pool_ok r'" "max_gpu_slots r' = max_gpu_slots r"
    using ensure_loaded_ok [OF assms(1)] by blast
  ultimately show ?thesis using assms(1) by (auto simp: prepare_model_def Let_def)
qed

text \<open>Slot management does not show in the results: the run agrees with the caching executor's.\<close>

lemma run_offload_nodes_agrees:
  assumes "pool_ok (ox_registry x)" and "models_hashable g" and "ox_cache x = cx_cache y"
  shows "snd (fst (run_offload_nodes h x g nids)) = snd (fst (run_cached_nodes h y g nids))
       \<and> snd (run_offload_nodes h x g nids) = snd (run_cached_nodes h y g nids)
       \<and> ox_cache (fst (fst (run_offload_nodes h x g nids))) = cx_cache (fst (fst (run_cached_nodes h y g nids)))
       \<and> pool_ok (ox_registry (fst (fst (run_offload_nodes h x g nids))))"
  using assms
proof (induction nids arbitrary: x y g)
  case Nil
  then show ?case by simp
next
  case (Cons nid nids)
  show ?case
  proof (cases "get_node g nid")
    case (Inl e)
    with Cons.prems show ?thesis by simp
  next
    case (Inr n)
    from prepare_model_ok [OF Cons.prems(1,2) Inr] obtain r' where
      r': "prepare_model (ox_registry x) n = Inr r'" "pool_ok r'" by blast
    have mh: "models_hashable (g\<lparr>g_results := q\<rparr>)" for q
      using Cons.prems(2) by (simp add: models_hashable_def)
    let ?ins = "gather_inputs (g_edges g) (g_results g) nid"
    let ?key = "node_cache_key h (node_type n) (n_params n) (hash_inputs h ?ins)"
    show ?thesis
    proof (cases "cache_get (ox_cache x) ?key")
      case (Some out)
      with Inr r' Cons.prems(3) mh show ?thesis
        by (simp only: run_offload_nodes.simps run_cached_nodes.simps Inr sum.case r'(1) Let_def)
           (simp, intro Cons.IH, simp_all)
    next
      case None
      show ?thesis
      proof (cases "n_exec n (n_params n) ?ins")
        case (Inl e)
        with Inr r' None Cons.prems(3) show ?thesis by (simp add: Let_def)
      next
        case exec: (Inr out)
        with Inr r' None Cons.prems(3) mh show ?thesis
          by (simp only: run_offload_nodes.simps run_cached_nodes.simps Inr sum.case r'(1) Let_def)
             (simp, intro Cons.IH, simp_all)
      qed
    qed
  qed
qed

lemma run_offload_agrees:
  assumes "pool_ok (ox_registry x)" and "models_hashable g" and "ox_cache x = cx_cache y"
  shows "snd (run_offload h x g) = snd (run_cached h y g)
       \<and> snd (fst (run_offload h x g)) = snd (fst (run_cached h y g))
       \<and> ox_cache (fst (fst (run_offload h x g))) = cx_cache (fst (fst (run_cached h y g)))
       \<and> pool_ok (ox_registry (fst (fst (run_offload h x g))))"
proof -
  have "models_hashable (g\<lparr>g_results := []\<rparr>)"
    using assms(2) by (simp add: models_hashable_def)
  note agree = run_offload_nodes_agrees [OF assms(1) this assms(3), of h]
  show ?thesis
  proof (cases "topological_order g")
    case (Inl e)
    with assms show ?thesis by (simp add: run_offload_def run_cached_def)
  next
    case (Inr order)
    obtain x' g' r where o: "run_offload_nodes h x (g\<lparr>g_results := []\<rparr>) order = ((x', g'), r)"
      by (metis surj_pair)
    obtain y' g2 r2 where c: "run_cached_nodes h y (g\<lparr>g_results := []\<rparr>) order = ((y', g2), r2)"
      by (metis surj_pair)
    from agree [of order] o c have "g' = g2" "r = r2" "ox_cache x' = cx_cache y'" "pool_ok (ox_registry x')"
      by simp_all
    with Inr o c show ?thesis by (cases r2) (simp_all add: run_offload_def run_cached_def)
  qed
qed

end
