(* ===== verification/ComfyWorkflow.thy ===== *)
theory ComfyWorkflow
  imports Offload
begin

text \<open>
  Parsing a ComfyUI API document into a graph, \<open>labs/comfyui-executor/src/workflow.py\<close>, and what the
  parsed graph says: its nodes (\<open>node_shows\<close>) and its edges (\<open>edge_shows\<close>) are those of the document, in order.

  The document is a JSON object (\<open>pyval\<close>); a missing \<open>class_type\<close> or an unknown source node is the
  \<open>KeyError\<close> Python raises, and a value of the wrong shape the \<open>TypeError\<close> or \<open>AttributeError\<close>.
  \<open>output_index\<close> is compared with \<open><\<close> only, so a negative index is a Python index from the end.
\<close>

section \<open>Tables\<close>

definition class_type_map :: "(string, string) pydict" where
  "class_type_map =
     [(''CheckpointLoaderSimple'', ''CheckpointLoader''), (''CLIPTextEncode'', ''CLIPTextEncode''),
      (''EmptyLatentImage'', ''EmptyLatentImage''), (''KSampler'', ''KSampler''),
      (''VAEDecode'', ''VAEDecode''), (''SaveImage'', ''SaveImage''), (''LoadText'', ''LoadText''),
      (''ToUpperCase'', ''ToUpperCase''), (''ConcatText'', ''ConcatText''),
      (''SaveResult'', ''SaveResult'')]"

definition output_slot_names :: "(string, string list) pydict" where
  "output_slot_names =
     [(''CheckpointLoaderSimple'', [''model'', ''clip'', ''vae'']),
      (''CheckpointLoader'', [''model'', ''clip'', ''vae'']),
      (''CLIPTextEncode'', [''conditioning'']), (''EmptyLatentImage'', [''latent'']),
      (''KSampler'', [''latent'']), (''VAEDecode'', [''image'']), (''SaveImage'', [''result'']),
      (''LoadText'', [''text'']), (''ToUpperCase'', [''text'']), (''ConcatText'', [''text'']),
      (''SaveResult'', [''result''])]"

section \<open>Parsing\<close>

definition is_connection :: "pyval \<Rightarrow> bool" where
  "is_connection v =
     (case v of PList [a, b] \<Rightarrow> is_instance a ClsStr \<and> is_instance b ClsInt | _ \<Rightarrow> False)"

text \<open>\<open>node_def["class_type"]\<close> and \<open>node_def.get("inputs", {})\<close>.\<close>

definition node_class_type :: "pyval \<Rightarrow> string result" where
  "node_class_type nd =
     (case nd of
        PDict d \<Rightarrow> (case dget d ''class_type'' of
            None \<Rightarrow> Inl (KeyError ''class_type'')
          | Some (PStr s) \<Rightarrow> Inr s
          | Some _ \<Rightarrow> Inl (ValueError ''Unknown node_type''))
      | _ \<Rightarrow> Inl (TypeError ''node definition is not a mapping''))"

definition node_raw_inputs :: "pyval \<Rightarrow> pdict result" where
  "node_raw_inputs nd =
     (case nd of
        PDict d \<Rightarrow> (case dget d ''inputs'' of
            None \<Rightarrow> Inr []
          | Some (PDict ins) \<Rightarrow> Inr ins
          | Some _ \<Rightarrow> Inl (AttributeError ''items''))
      | _ \<Rightarrow> Inl (AttributeError ''get''))"

definition parse_node :: "registry \<Rightarrow> string \<times> pyval \<Rightarrow> graph \<Rightarrow> graph result" where
  "parse_node reg = (\<lambda>(nid, node_def) g.
     rbind (node_class_type node_def) (\<lambda>class_type.
     rbind (node_raw_inputs node_def) (\<lambda>raw_inputs.
       let nt = dget_or class_type_map class_type class_type;
           params = fold (\<lambda>(k, v) ps. if is_connection v then ps else dset ps k v) raw_inputs []
       in add_node reg g nid nt params)))"

definition slot_names_of :: "string \<Rightarrow> string list" where
  "slot_names_of src_class =
     dget_or output_slot_names src_class
       (dget_or output_slot_names (dget_or class_type_map src_class []) [])"

text \<open>The value of \<open>output_index\<close>; \<open>True\<close> and \<open>False\<close> are the integers 1 and 0.\<close>

fun index_value :: "pyval \<Rightarrow> int" where
  "index_value (PInt i) = i"
| "index_value (PBool b) = (if b then 1 else 0)"
| "index_value _ = 0"

definition source_key :: "string \<Rightarrow> pyval \<Rightarrow> string result" where
  "source_key src_class output_index =
     (let slots = slot_names_of src_class
      in if index_value output_index < int (length slots)
         then py_index slots (index_value output_index)
         else Inr (''output_'' @ py_str output_index))"

text \<open>\<open>value[0], value[1]\<close> of a connection, \<open>None\<close> for every other value.\<close>

fun connection_of :: "pyval \<Rightarrow> (string \<times> pyval) option" where
  "connection_of (PList [PStr s, i]) = (if is_connection (PList [PStr s, i]) then Some (s, i) else None)"
| "connection_of _ = None"

definition parse_edge :: "pdict \<Rightarrow> string \<Rightarrow> string \<times> pyval \<Rightarrow> graph \<Rightarrow> graph result" where
  "parse_edge data dst = (\<lambda>(dkey, v) g.
     (case connection_of v of
        None \<Rightarrow> Inr g
      | Some (src, output_index) \<Rightarrow>
          (case dget data src of
             None \<Rightarrow> Inl (KeyError src)
           | Some src_def \<Rightarrow>
               rbind (node_class_type src_def) (\<lambda>src_class.
               rbind (source_key src_class output_index) (\<lambda>skey.
                 add_edge g src skey dst dkey)))))"

lemma connection_of_Some_iff: "(connection_of v \<noteq> None) = is_connection v"
  by (induction v rule: connection_of.induct)
     (auto simp: is_connection_def is_instance_ClsStr split: list.splits)

definition parse_node_edges :: "pdict \<Rightarrow> string \<times> pyval \<Rightarrow> graph \<Rightarrow> graph result" where
  "parse_node_edges data = (\<lambda>(dst, node_def) g.
     rbind (node_class_type node_def) (\<lambda>_.
     rbind (node_raw_inputs node_def) (\<lambda>raw_inputs.
       rfold (parse_edge data dst) raw_inputs g)))"

definition parse_comfyui_json :: "registry \<Rightarrow> pdict \<Rightarrow> graph result" where
  "parse_comfyui_json reg data =
     rbind (rfold (parse_node reg) data empty_graph) (rfold (parse_node_edges data) data)"

section \<open>What parsing establishes\<close>

lemma parse_node_cases:
  "parse_node reg nd g = Inr g' \<Longrightarrow> \<exists>nt ps. add_node reg g (fst nd) nt ps = Inr g'"
  by (auto simp: parse_node_def result_simps Let_def split: prod.splits)

lemma parse_edge_cases:
  "parse_edge data dst kv g = Inr g' \<Longrightarrow> g' = g \<or> (\<exists>s sk dk. add_edge g s sk dst dk = Inr g')"
  by (auto simp: parse_edge_def result_simps split: prod.splits option.splits)

lemma parse_node_keeps:
  "wf_graph g \<and> from_registry reg g \<Longrightarrow> parse_node reg nd g = Inr g' \<Longrightarrow>
     wf_graph g' \<and> from_registry reg g'"
  by (drule parse_node_cases) (blast intro: add_node_wf add_node_from_registry)

lemma parse_edge_keeps:
  "wf_graph g \<and> from_registry reg g \<Longrightarrow> parse_edge data dst kv g = Inr g' \<Longrightarrow>
     wf_graph g' \<and> from_registry reg g'"
  by (drule parse_edge_cases) (blast intro: add_edge_wf add_edge_from_registry)

lemma parse_node_edges_keeps:
  assumes "wf_graph g \<and> from_registry reg g" and "parse_node_edges data nd g = Inr g'"
  shows "wf_graph g' \<and> from_registry reg g'"
proof -
  from assms(2) obtain dst raw where "rfold (parse_edge data dst) raw g = Inr g'"
    by (auto simp: parse_node_edges_def result_simps split: prod.splits)
  from rfold_invariant [where P = "\<lambda>g. wf_graph g \<and> from_registry reg g", OF _ this assms(1)]
  show ?thesis using parse_edge_keeps by blast
qed

lemma parse_comfyui_json_wf:
  assumes "parse_comfyui_json reg data = Inr g"
  shows "wf_graph g \<and> from_registry reg g"
proof -
  let ?P = "\<lambda>g. wf_graph g \<and> from_registry reg g"
  from assms obtain g0 where g0: "rfold (parse_node reg) data empty_graph = Inr g0"
    and g: "rfold (parse_node_edges data) data g0 = Inr g"
    by (auto simp: parse_comfyui_json_def result_simps)
  have "?P empty_graph" by (simp add: wf_empty_graph from_registry_empty)
  from rfold_invariant [where P = ?P, OF _ g0 this] have "?P g0"
    using parse_node_keeps by blast
  from rfold_invariant [where P = ?P, OF _ g this] show ?thesis
    using parse_node_edges_keeps by blast
qed

text \<open>The nodes of the graph are the keys of the document, in order.\<close>

lemma add_node_keys:
  "add_node reg g nid nt ps = Inr g' \<Longrightarrow>
     dkeys (g_nodes g') = dkeys (g_nodes g) @ [nid] \<and> g_edges g' = g_edges g"
  by (auto simp: add_node_def dhas_def dkeys_dset split: if_splits option.splits)

lemma parse_nodes_keys:
  "rfold (parse_node reg) ds g = Inr g' \<Longrightarrow> dkeys (g_nodes g') = dkeys (g_nodes g) @ dkeys ds"
proof (induction ds arbitrary: g)
  case Nil
  then show ?case by simp
next
  case (Cons d ds)
  obtain nid nd where d: "d = (nid, nd)" by (cases d)
  from Cons.prems obtain g1 where g1: "parse_node reg (nid, nd) g = Inr g1"
    and rest: "rfold (parse_node reg) ds g1 = Inr g'"
    unfolding d by (auto split: sum.splits)
  from parse_node_cases [OF g1] have "dkeys (g_nodes g1) = dkeys (g_nodes g) @ [nid]"
    by (auto dest: add_node_keys)
  with Cons.IH [OF rest] show ?case by (simp add: d)
qed

lemma add_edge_nodes: "add_edge g s sk d dk = Inr g' \<Longrightarrow> g_nodes g' = g_nodes g"
  by (auto simp: add_edge_def split: if_splits)

lemma parse_edge_nodes: "parse_edge data dst kv g = Inr g' \<Longrightarrow> g_nodes g' = g_nodes g"
  by (drule parse_edge_cases) (auto dest: add_edge_nodes)

lemma parse_node_edges_nodes:
  assumes "parse_node_edges data nd g = Inr g'"
  shows "g_nodes g' = g_nodes g"
proof -
  from assms obtain dst raw where "rfold (parse_edge data dst) raw g = Inr g'"
    by (auto simp: parse_node_edges_def result_simps split: prod.splits)
  from rfold_invariant [where P = "\<lambda>g'. g_nodes g' = g_nodes g", OF _ this] show ?thesis
    using parse_edge_nodes by metis
qed

lemma parse_comfyui_json_keys:
  assumes "parse_comfyui_json reg data = Inr g"
  shows "dkeys (g_nodes g) = dkeys data"
proof -
  from assms obtain g0 where g0: "rfold (parse_node reg) data empty_graph = Inr g0"
    and g: "rfold (parse_node_edges data) data g0 = Inr g"
    by (auto simp: parse_comfyui_json_def result_simps)
  from rfold_invariant [where P = "\<lambda>g'. g_nodes g' = g_nodes g0", OF _ g]
  have "g_nodes g = g_nodes g0" using parse_node_edges_nodes by metis
  with parse_nodes_keys [OF g0] show ?thesis by (simp add: empty_graph_def)
qed

section \<open>What the parsed graph says\<close>

text \<open>The specification reads the document: class and inputs of a node, and its connections in order.\<close>

definition class_of :: "pyval \<Rightarrow> string" where
  "class_of nd = (case node_class_type nd of Inl _ \<Rightarrow> [] | Inr c \<Rightarrow> c)"

definition inputs_of :: "pyval \<Rightarrow> pdict" where
  "inputs_of nd = (case node_raw_inputs nd of Inl _ \<Rightarrow> [] | Inr ins \<Rightarrow> ins)"

fun connection :: "pyval \<Rightarrow> (string \<times> int) option" where
  "connection (PList [PStr src, PInt i]) = Some (src, i)"
| "connection (PList [PStr src, PBool b]) = Some (src, if b then 1 else 0)"
| "connection _ = None"

definition connections_into :: "string \<times> pyval \<Rightarrow> (string \<times> string \<times> pyval) list" where
  "connections_into = (\<lambda>(nid, nd).
     map (\<lambda>(k, v). (nid, k, v)) (filter (\<lambda>(_, v). connection v \<noteq> None) (inputs_of nd)))"

definition connections :: "pdict \<Rightarrow> (string \<times> string \<times> pyval) list" where
  "connections data = concat (map connections_into data)"

text \<open>The node of an entry: its id, its class renamed, the inputs that are no connection as parameters.\<close>

definition node_shows :: "registry \<Rightarrow> string \<times> node \<Rightarrow> string \<times> pyval \<Rightarrow> bool" where
  "node_shows reg = (\<lambda>(k, n) (nid, nd). k = nid \<and> node_id n = nid
     \<and> node_type n = dget_or class_type_map (class_of nd) (class_of nd)
     \<and> dget reg (node_type n) = Some (n_exec n)
     \<and> n_params n = filter (\<lambda>(_, v). connection v = None) (inputs_of nd))"

text \<open>
  The edge of a connection: from the node it names, at the output slot with the index (counted from the
  end when it is negative, \<open>output_i\<close> beyond the slots of the source's class), into the input.
\<close>

definition slot_shows :: "string list \<Rightarrow> int \<Rightarrow> string \<Rightarrow> bool" where
  "slot_shows slots i k \<longleftrightarrow>
     (0 \<le> i \<and> i < int (length slots) \<longrightarrow> k = slots ! nat i)
     \<and> (i < 0 \<longrightarrow> - i \<le> int (length slots) \<and> k = slots ! nat (int (length slots) + i))"

definition edge_shows :: "pdict \<Rightarrow> edge \<Rightarrow> string \<times> string \<times> pyval \<Rightarrow> bool" where
  "edge_shows data e = (\<lambda>(dst, k, v). dst_id e = dst \<and> dst_key e = k
     \<and> (\<exists>src i src_def. connection v = Some (src, i) \<and> src_id e = src \<and> dget data src = Some src_def
          \<and> slot_shows (slot_names_of (class_of src_def)) i (src_key e)
          \<and> (int (length (slot_names_of (class_of src_def))) \<le> i \<longrightarrow>
               (\<exists>x. v = PList [PStr src, x] \<and> src_key e = ''output_'' @ py_str x))))"

lemma connection_iff: "connection v = None \<longleftrightarrow> \<not> is_connection v"
  by (induction v rule: connection.induct)
     (auto simp: is_connection_def is_instance_ClsStr split: list.splits)

lemma connection_of_shows:
  "connection_of v = Some (src, x) \<longleftrightarrow> v = PList [PStr src, x] \<and> connection v = Some (src, index_value x)"
  by (induction v rule: connection_of.induct) (auto simp: is_connection_def elim: is_instance.elims)

lemma connection_of_None: "connection_of v = None \<longleftrightarrow> connection v = None"
  using connection_of_Some_iff [of v] connection_iff [of v] by blast

lemma fold_dset_filter:
  assumes "dwf ps" and "set (dkeys ps) \<inter> set (dkeys xs) = {}" and "dwf xs"
  shows "fold (\<lambda>(k, v) ps. if P v then ps else dset ps k v) xs ps = ps @ filter (\<lambda>(_, v). \<not> P v) xs"
  using assms
proof (induction xs arbitrary: ps)
  case (Cons x xs)
  obtain k v where x: "x = (k, v)" by (cases x)
  from Cons.prems x have k: "k \<notin> set (dkeys ps)" "k \<notin> set (dkeys xs)" "dwf xs"
    by (auto simp: dwf_Cons)
  show ?case
  proof (cases "P v")
    case True
    with Cons.prems k show ?thesis unfolding x by (simp add: Cons.IH)
  next
    case False
    have "fold (\<lambda>(k, v) ps. if P v then ps else dset ps k v) xs (ps @ [(k, v)])
        = (ps @ [(k, v)]) @ filter (\<lambda>(_, v). \<not> P v) xs"
      by (rule Cons.IH) (use Cons.prems k x in \<open>auto simp: dwf_def\<close>)
    with False k show ?thesis unfolding x by (simp add: dset_new)
  qed
qed simp

lemma parse_node_shows:
  assumes "parse_node reg nd g = Inr g'" and "dwf (inputs_of (snd nd))"
  shows "\<exists>kn. g_nodes g' = g_nodes g @ [kn] \<and> node_shows reg kn nd \<and> g_edges g' = g_edges g"
proof -
  obtain nid d where nd: "nd = (nid, d)" by (cases nd)
  from assms(1) obtain c raw where c: "node_class_type d = Inr c" and raw: "node_raw_inputs d = Inr raw"
    and add: "add_node reg g nid (dget_or class_type_map c c)
      (fold (\<lambda>(k, v) ps. if is_connection v then ps else dset ps k v) raw []) = Inr g'"
    by (auto simp: parse_node_def nd result_simps Let_def)
  have par: "fold (\<lambda>(k, v) ps. if is_connection v then ps else dset ps k v) raw []
      = filter (\<lambda>(_, v). connection v = None) raw"
    using assms(2) fold_dset_filter [of "[]" raw is_connection]
    by (simp add: nd inputs_of_def raw connection_iff)
  from add show ?thesis
    unfolding par
    by (auto simp: add_node_def node_shows_def nd class_of_def inputs_of_def c raw dhas_def dset_new
        split: if_splits option.splits)
qed

lemma parse_nodes_show:
  assumes "rfold (parse_node reg) ds g = Inr g'" and "\<forall>nd \<in> set ds. dwf (inputs_of (snd nd))"
  shows "\<exists>ns. g_nodes g' = g_nodes g @ ns \<and> list_all2 (node_shows reg) ns ds \<and> g_edges g' = g_edges g"
  using assms
proof (induction ds arbitrary: g)
  case (Cons d ds)
  from Cons.prems(1) obtain g1 where g1: "parse_node reg d g = Inr g1" and rest: "rfold (parse_node reg) ds g1 = Inr g'"
    by (auto split: sum.splits)
  from parse_node_shows [OF g1] Cons.prems(2) obtain kn where
    kn: "g_nodes g1 = g_nodes g @ [kn]" "node_shows reg kn d" "g_edges g1 = g_edges g" by auto
  from Cons.IH [OF rest] Cons.prems(2) obtain ns where
    "g_nodes g' = g_nodes g1 @ ns" "list_all2 (node_shows reg) ns ds" "g_edges g' = g_edges g1" by auto
  with kn show ?case by (intro exI [of _ "kn # ns"]) simp
qed simp

lemma source_key_shows:
  assumes "source_key c x = Inr k"
  shows "slot_shows (slot_names_of c) (index_value x) k"
    and "int (length (slot_names_of c)) \<le> index_value x \<Longrightarrow> k = ''output_'' @ py_str x"
  using assms
  by (auto simp: source_key_def slot_shows_def py_index_def Let_def nat_less_iff nat_le_iff
      nat_add_distrib nat_diff_distrib of_nat_diff split: if_splits intro!: arg_cong [where f = "nth _"])

lemma parse_edge_shows:
  assumes "parse_edge data dst kv g = Inr g'"
  shows "\<exists>es. g_edges g' = g_edges g @ es
     \<and> list_all2 (edge_shows data) es (map (\<lambda>(k, v). (dst, k, v)) (filter (\<lambda>(_, v). connection v \<noteq> None) [kv]))"
proof -
  obtain k v where kv: "kv = (k, v)" by (cases kv)
  show ?thesis
  proof (cases "connection_of v")
    case None
    with assms show ?thesis by (auto simp: parse_edge_def kv connection_of_None [symmetric])
  next
    case (Some sx)
    obtain src x where sx: "sx = (src, x)" by (cases sx)
    from assms Some sx obtain sd c sk where sd: "dget data src = Some sd" and c: "node_class_type sd = Inr c"
      and sk: "source_key c x = Inr sk" and add: "add_edge g src sk dst k = Inr g'"
      by (auto simp: parse_edge_def kv result_simps split: option.splits)
    have v: "v = PList [PStr src, x]" "connection v = Some (src, index_value x)"
      using Some sx connection_of_shows by auto
    from add have "g_edges g' = g_edges g @ [\<lparr>src_id = src, src_key = sk, dst_id = dst, dst_key = k\<rparr>]"
      by (auto simp: add_edge_def split: if_splits)
    moreover have "edge_shows data \<lparr>src_id = src, src_key = sk, dst_id = dst, dst_key = k\<rparr> (dst, k, v)"
      using v sd source_key_shows [OF sk] c by (auto simp: edge_shows_def class_of_def)
    ultimately show ?thesis using v by (intro exI [of _ "[\<lparr>src_id = src, src_key = sk, dst_id = dst, dst_key = k\<rparr>]"]) (simp add: kv)
  qed
qed

text \<open>Edges added one list after the other, in a loop.\<close>

lemma rfold_edges:
  assumes "\<And>x g g'. x \<in> set xs \<Longrightarrow> f x g = Inr g' \<Longrightarrow> \<exists>es. g_edges g' = g_edges g @ es \<and> list_all2 R es (c x)"
    and "rfold f xs g = Inr g'"
  shows "\<exists>es. g_edges g' = g_edges g @ es \<and> list_all2 R es (concat (map c xs))"
  using assms
proof (induction xs arbitrary: g)
  case (Cons x xs)
  from Cons.prems(2) obtain g1 where g1: "f x g = Inr g1" and rest: "rfold f xs g1 = Inr g'"
    by (auto split: sum.splits)
  from Cons.prems(1) [OF _ g1] obtain es where es: "g_edges g1 = g_edges g @ es" "list_all2 R es (c x)" by auto
  from Cons.IH [OF _ rest] Cons.prems(1) obtain fs where
    "g_edges g' = g_edges g1 @ fs" "list_all2 R fs (concat (map c xs))" by (metis list.set_intros(2))
  with es show ?case by (intro exI [of _ "es @ fs"]) (simp add: list_all2_appendI)
qed simp

lemma parse_node_edges_show:
  assumes "parse_node_edges data nd g = Inr g'"
  shows "\<exists>es. g_edges g' = g_edges g @ es \<and> list_all2 (edge_shows data) es (connections_into nd)"
proof -
  obtain dst d where nd: "nd = (dst, d)" by (cases nd)
  from assms obtain raw where raw: "node_raw_inputs d = Inr raw" and f: "rfold (parse_edge data dst) raw g = Inr g'"
    by (auto simp: parse_node_edges_def result_simps nd)
  have "connections_into nd =
      concat (map (\<lambda>kv. map (\<lambda>(k, v). (dst, k, v)) (filter (\<lambda>(_, v). connection v \<noteq> None) [kv])) raw)"
    by (simp add: connections_into_def nd inputs_of_def raw) (induction raw, auto)
  with rfold_edges [OF parse_edge_shows f, of data] show ?thesis by simp
qed

lemma parse_comfyui_json_shows:
  assumes "parse_comfyui_json reg data = Inr g" and "\<forall>nd \<in> set data. dwf (inputs_of (snd nd))"
  shows "list_all2 (node_shows reg) (g_nodes g) data \<and> list_all2 (edge_shows data) (g_edges g) (connections data)"
proof -
  from assms obtain g0 where g0: "rfold (parse_node reg) data empty_graph = Inr g0"
    and g: "rfold (parse_node_edges data) data g0 = Inr g"
    by (auto simp: parse_comfyui_json_def result_simps)
  from rfold_invariant [where P = "\<lambda>g'. g_nodes g' = g_nodes g0", OF _ g]
  have "g_nodes g = g_nodes g0" using parse_node_edges_nodes by metis
  with parse_nodes_show [OF g0 assms(2)] rfold_edges [OF parse_node_edges_show g] show ?thesis
    by (auto simp: empty_graph_def connections_def)
qed

end
