(* ===== verification/ComfyServer.thy ===== *)
theory ComfyServer
  imports ComfyWorkflow
begin

text \<open>
  The prompt server, \<open>labs/comfyui-executor/src/server.py\<close>: the prompt store, the queue and one thread per
  prompt over one shared, unlocked model registry and one shared, unlocked cache.

  A thread is a program counter (\<open>thread_pc\<close>) with its local data; one step makes at most one access to
  the shared state (the prompt store, the queue under its lock, one dictionary operation or one read or
  write of a counter of the registry, one \<open>get\<close> or \<open>put\<close> of the cache), and \<open>server_step\<close> lets any thread take
  the next step. The counter starts inside the request handler, between the write of the store and the
  append to the queue. \<open>ensure_loaded\<close> is cut into the steps of \<open>load_step\<close>, which run to what \<open>ensure_loaded\<close>
  of \<open>Offload\<close> returns when no other thread steps between (\<open>load_alone\<close>). Its slots are handed over from
  dictionary to dictionary and never shared, so slot values stand for slot objects.

  A node's \<open>execute\<close> is a function of its parameters and inputs (\<open>exec_fn\<close>), computed in one step: the
  class \<open>KSampler\<close>, which draws from the process-wide generator, is such a function only while no other
  thread draws. The statistics an executor copies at the end of a run are not shown by the server and left out.
\<close>

section \<open>State\<close>

record prompt_state =
  status :: string
  p_outputs :: "results option"
  p_error :: "py_exn option"

text \<open>Where a thread stands in \<open>ensure_loaded\<close> and \<open>_evict_lru\<close>.\<close>

datatype load_pc =
    LTest | LMove | LRead | LFull | LPop | LKeep pyval slot | LOffCount | LOffSet nat
  | LCpu | LTake | LLoad slot | LCount slot nat | LPut slot | LLast slot

text \<open>Where a prompt stands, from the request handler to the end of its thread.\<close>

datatype thread_pc =
    TAppend | TLeave | TRunning | TParse
  | TNode graph "string list"
  | TLoad load_pc graph string node "string list"
  | TLookup graph string node "string list"
  | TPut string outputs graph string "string list"
  | TComplete results | TOutputs results | TError py_exn | TErrorText py_exn | TDone

record server =
  sv_store :: "(string, prompt_state) pydict"
  sv_queue :: "string list"
  sv_threads :: "(string, pdict \<times> thread_pc) pydict"
  sv_registry :: mregistry
  sv_cache :: cache_store

definition init_server :: "int \<Rightarrow> server" where
  "init_server slots =
     \<lparr>sv_store = [], sv_queue = [], sv_threads = [], sv_registry = new_mregistry slots, sv_cache = []\<rparr>"

section \<open>Loading a model, step by step\<close>

text \<open>One step: the registry and the next step, \<open>None\<close> when \<open>ensure_loaded\<close> returns.\<close>

fun load_step :: "pyval \<Rightarrow> pyval \<Rightarrow> mregistry \<Rightarrow> load_pc \<Rightarrow> mregistry \<times> load_pc option result" where
  "load_step mid data r LTest = (r, Inr (Some (if dhas (gpu_slots r) mid then LMove else LFull)))"
| "load_step mid data r LMove =
     (if dhas (gpu_slots r) mid
      then (r\<lparr>gpu_slots := dmove_end (gpu_slots r) mid\<rparr>, Inr (Some LRead))
      else (r, Inl (KeyError (py_str mid))))"
| "load_step mid data r LRead =
     (if dhas (gpu_slots r) mid then (r, Inr None) else (r, Inl (KeyError (py_str mid))))"
| "load_step mid data r LFull =
     (r, Inr (Some (if max_gpu_slots r \<le> int (length (gpu_slots r)) then LPop else LCpu)))"
| "load_step mid data r LPop =
     (case dpop_first (gpu_slots r) of
        None \<Rightarrow> (r, Inl (KeyError ''dictionary is empty''))
      | Some ((m, s), rest) \<Rightarrow> (r\<lparr>gpu_slots := rest\<rparr>, Inr (Some (LKeep m s))))"
| "load_step mid data r (LKeep m s) =
     (r\<lparr>cpu_slots := dset (cpu_slots r) m (offload_to_cpu s)\<rparr>, Inr (Some LOffCount))"
| "load_step mid data r LOffCount = (r, Inr (Some (LOffSet (offload_count r))))"
| "load_step mid data r (LOffSet n) = (r\<lparr>offload_count := Suc n\<rparr>, Inr (Some LCpu))"
| "load_step mid data r LCpu =
     (r, Inr (Some (if dhas (cpu_slots r) mid then LTake
                    else LLoad \<lparr>slot_model_id = mid, slot_data = data, device = ''cpu''\<rparr>)))"
| "load_step mid data r LTake =
     (case dget (cpu_slots r) mid of
        None \<Rightarrow> (r, Inl (KeyError (py_str mid)))
      | Some s \<Rightarrow> (r\<lparr>cpu_slots := dpop (cpu_slots r) mid\<rparr>, Inr (Some (LLoad s))))"
| "load_step mid data r (LLoad s) = (r, Inr (Some (LCount (slot_load s) (load_count r))))"
| "load_step mid data r (LCount s n) = (r\<lparr>load_count := Suc n\<rparr>, Inr (Some (LPut s)))"
| "load_step mid data r (LPut s) =
     (r\<lparr>gpu_slots := dset (gpu_slots r) mid s\<rparr>, Inr (Some (LLast s)))"
| "load_step mid data r (LLast s) =
     (if dhas (gpu_slots r) mid
      then (r\<lparr>gpu_slots := dmove_end (gpu_slots r) mid\<rparr>, Inr None)
      else (r, Inl (KeyError (py_str mid))))"

text \<open>The steps of one thread with no other thread between them.\<close>

fun load_run :: "nat \<Rightarrow> pyval \<Rightarrow> pyval \<Rightarrow> mregistry \<Rightarrow> load_pc \<Rightarrow> (mregistry \<times> unit result) option" where
  "load_run 0 mid data r pc = None"
| "load_run (Suc n) mid data r pc =
     (case load_step mid data r pc of
        (r', Inl e) \<Rightarrow> Some (r', Inl e)
      | (r', Inr None) \<Rightarrow> Some (r', Inr ())
      | (r', Inr (Some pc')) \<Rightarrow> load_run n mid data r' pc')"

lemma dhas_dset: "dhas (dset d k v) k"
  by (simp add: dhas_def dkeys_dset)

lemma dhas_dget: "dhas d k = (dget d k \<noteq> None)"
  by (simp add: dhas_def dget_None_iff)

text \<open>Alone, the steps do what \<open>ensure_loaded\<close> does in one.\<close>

lemma load_alone:
  "case ensure_loaded r mid data of
     Inr (r', s) \<Rightarrow> load_run 12 mid data r LTest = Some (r', Inr ())
   | Inl e \<Rightarrow> load_run 12 mid data r LTest = Some (r, Inl e)"
proof (cases "dget (gpu_slots r) mid")
  case (Some s)
  then have "dhas (gpu_slots r) mid" "dhas (dmove_end (gpu_slots r) mid) mid"
    by (auto simp: dhas_def dkeys_dmove_end dest: dget_Some_key)
  with Some show ?thesis by (simp add: ensure_loaded_def eval_nat_numeral)
next
  case None
  then have out: "\<not> dhas (gpu_slots r) mid" by (simp add: dhas_def dget_None_iff)
  show ?thesis
  proof (cases "max_gpu_slots r \<le> int (length (gpu_slots r))")
    case False
    with None out show ?thesis
      by (cases "dget (cpu_slots r) mid")
         (auto simp: ensure_loaded_def eval_nat_numeral Let_def dhas_dset dhas_dget)
  next
    case True
    with None out show ?thesis
      by (cases "dpop_first (gpu_slots r)")
         (auto simp: ensure_loaded_def evict_lru_def eval_nat_numeral Let_def dhas_dset dhas_dget split: option.split)
  qed
qed

section \<open>Operations\<close>

text \<open>The handler of \<open>POST /prompt\<close> up to the write of the store; the thread starts from \<open>TLeave\<close>.\<close>

definition submit_prompt :: "server \<Rightarrow> string \<Rightarrow> pdict \<Rightarrow> server" where
  "submit_prompt s prompt_id data =
     s\<lparr>sv_store := dset (sv_store s) prompt_id
          \<lparr>status = ''pending'', p_outputs = None, p_error = None\<rparr>,
        sv_threads := dset (sv_threads s) prompt_id (data, TAppend)\<rparr>"

definition append_queue :: "server \<Rightarrow> string \<Rightarrow> server" where
  "append_queue s prompt_id = s\<lparr>sv_queue := sv_queue s @ [prompt_id]\<rparr>"

definition leave_queue :: "server \<Rightarrow> string \<Rightarrow> server" where
  "leave_queue s prompt_id =
     (if prompt_id \<in> set (sv_queue s) then s\<lparr>sv_queue := remove1 prompt_id (sv_queue s)\<rparr> else s)"

text \<open>\<open>_prompt_store[prompt_id][..] = ..\<close>, with the next step when the prompt is stored and when it is not.\<close>

definition update_prompt ::
  "server \<Rightarrow> string \<Rightarrow> (prompt_state \<Rightarrow> prompt_state) \<Rightarrow> thread_pc \<Rightarrow> thread_pc \<Rightarrow> server \<times> thread_pc" where
  "update_prompt s prompt_id f next_pc missing =
     (case dget (sv_store s) prompt_id of
        None \<Rightarrow> (s, missing)
      | Some p \<Rightarrow> (s\<lparr>sv_store := dset (sv_store s) prompt_id (f p)\<rparr>, next_pc))"

text \<open>The top of the loop of \<open>OffloadingExecutor.run\<close>: which node, and whether it needs a model.\<close>

definition model_id_of :: "node \<Rightarrow> pyval" where
  "model_id_of n = dget_or (n_params n) ''model_name'' (PStr ''default_model'')"

definition model_data_of :: "node \<Rightarrow> pyval" where
  "model_data_of n = dget_or (n_params n) ''model_data'' (PDict [])"

definition next_node :: "graph \<Rightarrow> string list \<Rightarrow> thread_pc" where
  "next_node g nids =
     (case nids of
        [] \<Rightarrow> TComplete (g_results g)
      | nid # rest \<Rightarrow>
          (case get_node g nid of
             Inl e \<Rightarrow> TError e
           | Inr n \<Rightarrow>
               if node_type n \<in> set model_consuming_nodes then
                 (if hashable (model_id_of n) then TLoad LTest g nid n rest
                  else TError (TypeError ''unhashable type''))
               else TLookup g nid n rest))"

text \<open>Parsing the document and ordering the graph, which touch nothing shared.\<close>

definition parse_prompt :: "registry \<Rightarrow> pdict \<Rightarrow> thread_pc" where
  "parse_prompt reg data =
     (case rbind (parse_comfyui_json reg data) (\<lambda>g. rmap (\<lambda>order. (g, order)) (topological_order g)) of
        Inl e \<Rightarrow> TError e
      | Inr (g, order) \<Rightarrow> TNode (g\<lparr>g_results := []\<rparr>) order)"

definition node_key :: "hasher \<Rightarrow> graph \<Rightarrow> string \<Rightarrow> node \<Rightarrow> string" where
  "node_key h g nid n =
     node_cache_key h (node_type n) (n_params n) (hash_inputs h (gather_inputs (g_edges g) (g_results g) nid))"

text \<open>The cache lookup of one node and, on a miss, its \<open>execute\<close>.\<close>

definition lookup_node :: "hasher \<Rightarrow> cache_store \<Rightarrow> graph \<Rightarrow> string \<Rightarrow> node \<Rightarrow> string list \<Rightarrow> thread_pc" where
  "lookup_node h c g nid n rest =
     (case cache_get c (node_key h g nid n) of
        Some cached \<Rightarrow> TNode (g\<lparr>g_results := dset (g_results g) nid cached\<rparr>) rest
      | None \<Rightarrow>
          (case n_exec n (n_params n) (gather_inputs (g_edges g) (g_results g) nid) of
             Inl e \<Rightarrow> TError e
           | Inr out \<Rightarrow> TPut (node_key h g nid n) out g nid rest))"

fun thread_step ::
  "hasher \<Rightarrow> registry \<Rightarrow> server \<Rightarrow> string \<Rightarrow> pdict \<Rightarrow> thread_pc \<Rightarrow> server \<times> thread_pc" where
  "thread_step h reg s pid data TAppend = (append_queue s pid, TLeave)"
| "thread_step h reg s pid data TLeave = (leave_queue s pid, TRunning)"
| "thread_step h reg s pid data TRunning =
     update_prompt s pid (status_update (\<lambda>_. ''running'')) TParse TDone"
| "thread_step h reg s pid data TParse = (s, parse_prompt reg data)"
| "thread_step h reg s pid data (TNode g nids) = (s, next_node g nids)"
| "thread_step h reg s pid data (TLoad lp g nid n rest) =
     (case load_step (model_id_of n) (model_data_of n) (sv_registry s) lp of
        (r, next) \<Rightarrow>
          (s\<lparr>sv_registry := r\<rparr>,
           (case next of
              Inl e \<Rightarrow> TError e
            | Inr None \<Rightarrow> TLookup g nid n rest
            | Inr (Some lp') \<Rightarrow> TLoad lp' g nid n rest)))"
| "thread_step h reg s pid data (TLookup g nid n rest) = (s, lookup_node h (sv_cache s) g nid n rest)"
| "thread_step h reg s pid data (TPut key out g nid rest) =
     (s\<lparr>sv_cache := cache_put (sv_cache s) key out\<rparr>, TNode (g\<lparr>g_results := dset (g_results g) nid out\<rparr>) rest)"
| "thread_step h reg s pid data (TComplete res) =
     update_prompt s pid (status_update (\<lambda>_. ''complete'')) (TOutputs res) (TError (KeyError pid))"
| "thread_step h reg s pid data (TOutputs res) =
     update_prompt s pid (p_outputs_update (\<lambda>_. Some res)) TDone (TError (KeyError pid))"
| "thread_step h reg s pid data (TError e) =
     update_prompt s pid (status_update (\<lambda>_. ''error'')) (TErrorText e) TDone"
| "thread_step h reg s pid data (TErrorText e) =
     update_prompt s pid (p_error_update (\<lambda>_. Some e)) TDone TDone"
| "thread_step h reg s pid data TDone = (s, TDone)"

definition run_thread :: "hasher \<Rightarrow> registry \<Rightarrow> string \<Rightarrow> server \<Rightarrow> server" where
  "run_thread h reg pid s =
     (case dget (sv_threads s) pid of
        None \<Rightarrow> s
      | Some (data, pc) \<Rightarrow>
          (case thread_step h reg s pid data pc of
             (s', pc') \<Rightarrow> s'\<lparr>sv_threads := dset (sv_threads s') pid (data, pc')\<rparr>))"

text \<open>
  \<open>GET /history\<close> reads the three fields of the prompt's dictionary one after the other while the threads
  go on: \<open>s1\<close>, \<open>s2\<close> and \<open>s3\<close> are the states at the three reads.
\<close>

definition get_history :: "server \<Rightarrow> server \<Rightarrow> server \<Rightarrow> string \<Rightarrow> prompt_state result" where
  "get_history s1 s2 s3 prompt_id =
     (case (dget (sv_store s1) prompt_id, dget (sv_store s2) prompt_id, dget (sv_store s3) prompt_id) of
        (Some p1, Some p2, Some p3) \<Rightarrow>
          Inr \<lparr>status = status p1, p_outputs = p_outputs p2, p_error = p_error p3\<rparr>
      | _ \<Rightarrow> Inl (OtherError (''404: Unknown prompt_id: '' @ prompt_id)))"

definition get_queue :: "server \<Rightarrow> nat" where
  "get_queue s = length (sv_queue s)"

section \<open>Interleaved steps\<close>

definition has_status :: "server \<Rightarrow> string \<Rightarrow> string \<Rightarrow> bool" where
  "has_status s pid st \<longleftrightarrow> (\<exists>p. dget (sv_store s) pid = Some p \<and> status p = st)"

inductive server_step :: "hasher \<Rightarrow> registry \<Rightarrow> pdict set \<Rightarrow> server \<Rightarrow> server \<Rightarrow> bool" for h reg D where
  submit: "pid \<notin> set (dkeys (sv_store s)) \<Longrightarrow> data \<in> D \<Longrightarrow> server_step h reg D s (submit_prompt s pid data)"
| thread: "dhas (sv_threads s) pid \<Longrightarrow> server_step h reg D s (run_thread h reg pid s)"

inductive server_steps :: "hasher \<Rightarrow> registry \<Rightarrow> pdict set \<Rightarrow> server \<Rightarrow> server \<Rightarrow> bool" for h reg D where
  stay: "server_steps h reg D s s"
| step: "server_steps h reg D s s' \<Longrightarrow> server_step h reg D s' s'' \<Longrightarrow> server_steps h reg D s s''"

section \<open>What is expected of a prompt\<close>

text \<open>What the documents accepted must satisfy: keys do not collide and model ids are hashable.\<close>

definition document_calls :: "registry \<Rightarrow> pdict \<Rightarrow> call set" where
  "document_calls reg data =
     (case parse_comfyui_json reg data of Inl _ \<Rightarrow> {} | Inr g \<Rightarrow> workflow_calls g)"

definition documents_ok :: "hasher \<Rightarrow> registry \<Rightarrow> pdict set \<Rightarrow> bool" where
  "documents_ok h reg D \<longleftrightarrow> collision_free h (\<Union>data \<in> D. document_calls reg data)
     \<and> (\<forall>data \<in> D. \<forall>g. parse_comfyui_json reg data = Inr g \<longrightarrow> models_hashable g)"

definition expected :: "registry \<Rightarrow> pdict \<Rightarrow> results result" where
  "expected reg data = rbind (parse_comfyui_json reg data) (\<lambda>g. snd (execute_workflow g))"

definition uses_models :: "registry \<Rightarrow> pdict \<Rightarrow> bool" where
  "uses_models reg data \<longleftrightarrow>
     (\<exists>g nid n. parse_comfyui_json reg data = Inr g \<and> dget (g_nodes g) nid = Some n
        \<and> node_type n \<in> set model_consuming_nodes)"

text \<open>
  The errors a prompt may end with: the one its document gives, or a \<open>KeyError\<close> of the unlocked model
  registry, which only a document with a model-consuming node can meet.
\<close>

definition error_ok :: "registry \<Rightarrow> pdict \<Rightarrow> py_exn \<Rightarrow> bool" where
  "error_ok reg data e \<longleftrightarrow> expected reg data = Inl e \<or> (\<exists>k. e = KeyError k) \<and> uses_models reg data"

section \<open>Invariant\<close>

text \<open>A run in the middle: finishing it alone gives the expected outcome.\<close>

definition outcome :: "graph \<Rightarrow> string list \<Rightarrow> results result" where
  "outcome g nids = (case exec_nodes g nids of (_, Inl e) \<Rightarrow> Inl e | (g', Inr _) \<Rightarrow> Inr (g_results g'))"

definition run_ok :: "registry \<Rightarrow> call set \<Rightarrow> pdict \<Rightarrow> graph \<Rightarrow> string list \<Rightarrow> bool" where
  "run_ok reg K data g nids \<longleftrightarrow> expected reg data = outcome g nids \<and> from_registry reg g
     \<and> encountered g nids \<subseteq> K \<and> models_hashable g
     \<and> (\<exists>g0. parse_comfyui_json reg data = Inr g0 \<and> g_nodes g = g_nodes g0)"

fun pc_ok :: "hasher \<Rightarrow> registry \<Rightarrow> call set \<Rightarrow> pdict \<Rightarrow> thread_pc \<Rightarrow> bool" where
  "pc_ok h reg K data (TNode g nids) \<longleftrightarrow> run_ok reg K data g nids"
| "pc_ok h reg K data (TLoad lp g nid n rest) \<longleftrightarrow>
     run_ok reg K data g (nid # rest) \<and> dget (g_nodes g) nid = Some n \<and> node_type n \<in> set model_consuming_nodes"
| "pc_ok h reg K data (TLookup g nid n rest) \<longleftrightarrow>
     run_ok reg K data g (nid # rest) \<and> dget (g_nodes g) nid = Some n"
| "pc_ok h reg K data (TPut key out g nid rest) \<longleftrightarrow>
     run_ok reg K data (g\<lparr>g_results := dset (g_results g) nid out\<rparr>) rest
     \<and> (\<exists>c \<in> K. key = call_key h c \<and> call_result reg c = Inr out)"
| "pc_ok h reg K data (TComplete res) \<longleftrightarrow> expected reg data = Inr res"
| "pc_ok h reg K data (TOutputs res) \<longleftrightarrow> expected reg data = Inr res"
| "pc_ok h reg K data (TError e) \<longleftrightarrow> error_ok reg data e"
| "pc_ok h reg K data (TErrorText e) \<longleftrightarrow> error_ok reg data e"
| "pc_ok h reg K data pc \<longleftrightarrow> True"

text \<open>What the store shows of a prompt whose thread stands at \<open>pc\<close>.\<close>

fun shown :: "registry \<Rightarrow> pdict \<Rightarrow> thread_pc \<Rightarrow> prompt_state \<Rightarrow> bool" where
  "shown reg data TAppend p \<longleftrightarrow> p = \<lparr>status = ''pending'', p_outputs = None, p_error = None\<rparr>"
| "shown reg data TLeave p \<longleftrightarrow> p = \<lparr>status = ''pending'', p_outputs = None, p_error = None\<rparr>"
| "shown reg data TRunning p \<longleftrightarrow> p = \<lparr>status = ''pending'', p_outputs = None, p_error = None\<rparr>"
| "shown reg data (TOutputs res) p \<longleftrightarrow> p = \<lparr>status = ''complete'', p_outputs = None, p_error = None\<rparr>"
| "shown reg data (TErrorText e) p \<longleftrightarrow> p = \<lparr>status = ''error'', p_outputs = None, p_error = None\<rparr>"
| "shown reg data TDone p \<longleftrightarrow>
     (\<exists>res. p = \<lparr>status = ''complete'', p_outputs = Some res, p_error = None\<rparr> \<and> expected reg data = Inr res)
     \<or> (\<exists>e. p = \<lparr>status = ''error'', p_outputs = None, p_error = Some e\<rparr> \<and> error_ok reg data e)"
| "shown reg data pc p \<longleftrightarrow> p = \<lparr>status = ''running'', p_outputs = None, p_error = None\<rparr>"

definition server_ok :: "hasher \<Rightarrow> registry \<Rightarrow> pdict set \<Rightarrow> server \<Rightarrow> bool" where
  "server_ok h reg D s \<longleftrightarrow>
     set (dkeys (sv_store s)) = set (dkeys (sv_threads s))
     \<and> (\<forall>pid data pc. dget (sv_threads s) pid = Some (data, pc) \<longrightarrow> data \<in> D
          \<and> pc_ok h reg (\<Union>data \<in> D. document_calls reg data) data pc
          \<and> (\<exists>p. dget (sv_store s) pid = Some p \<and> shown reg data pc p))
     \<and> distinct (sv_queue s)
     \<and> (\<forall>pid. pid \<in> set (sv_queue s) \<longleftrightarrow> (\<exists>data. dget (sv_threads s) pid = Some (data, TLeave)))
     \<and> store_ok h reg (\<Union>data \<in> D. document_calls reg data) (sv_cache s)"

lemma server_ok_init: "server_ok h reg D (init_server slots)"
  by (simp add: server_ok_def init_server_def store_ok_empty)

lemma submit_ok:
  assumes ok: "server_ok h reg D s" and new: "pid \<notin> set (dkeys (sv_store s))" and data: "data \<in> D"
  shows "server_ok h reg D (submit_prompt s pid data)"
proof -
  have th: "dget (sv_threads s) pid = None" using ok new by (simp add: server_ok_def dget_None_iff)
  show ?thesis
    using ok data th by (auto simp: server_ok_def submit_prompt_def dkeys_dset)
qed

text \<open>The loop: one node finished leaves a run in the middle again.\<close>

lemma outcome_step:
  assumes "node_call g (g_results g) nid = Some c"
  shows "outcome g (nid # rest) =
     (case node_output g (g_results g) nid of
        Inl e \<Rightarrow> Inl e
      | Inr out \<Rightarrow> outcome (g\<lparr>g_results := dset (g_results g) nid out\<rparr>) rest)"
  by (simp add: outcome_def exec_nodes_step [OF assms] del: exec_nodes.simps split: sum.split)

lemma run_ok_next:
  assumes run: "run_ok reg K data g (nid # rest)" and c: "node_call g (g_results g) nid = Some c"
    and out: "node_output g (g_results g) nid = Inr out"
  shows "run_ok reg K data (g\<lparr>g_results := dset (g_results g) nid out\<rparr>) rest"
  using run outcome_step [OF c, of rest] out c by (simp add: run_ok_def models_hashable_def)

lemma node_call_at:
  assumes "dget (g_nodes g) nid = Some n"
  shows "node_call g (g_results g) nid = Some (node_type n, n_params n, gather_inputs (g_edges g) (g_results g) nid)"
    and "node_output g (g_results g) nid = n_exec n (n_params n) (gather_inputs (g_edges g) (g_results g) nid)"
    and "node_key h g nid n = call_key h (node_type n, n_params n, gather_inputs (g_edges g) (g_results g) nid)"
  using assms by (simp_all add: node_call_def node_output_def node_key_def call_key_def)

lemma lookup_node_ok:
  assumes run: "run_ok reg K data g (nid # rest)" and n: "dget (g_nodes g) nid = Some n"
    and K: "collision_free h K" and sto: "store_ok h reg K c"
  shows "pc_ok h reg K data (lookup_node h c g nid n rest)"
proof -
  let ?c = "(node_type n, n_params n, gather_inputs (g_edges g) (g_results g) nid)"
  note at = node_call_at [OF n]
  have reg: "from_registry reg g" and cK: "?c \<in> K" and ex: "expected reg data = outcome g (nid # rest)"
    using run at(1) by (auto simp: run_ok_def)
  have cr: "call_result reg ?c = node_output g (g_results g) nid" by (rule node_call_result [OF reg at(1)])
  show ?thesis
  proof (cases "cache_get c (call_key h ?c)")
    case (Some out)
    have "node_output g (g_results g) nid = Inr out" using store_ok_hit [OF sto K cK Some] cr by simp
    from run_ok_next [OF run at(1) this] show ?thesis by (simp add: lookup_node_def at(3) Some)
  next
    case None
    show ?thesis
    proof (cases "node_output g (g_results g) nid")
      case (Inl e)
      with ex outcome_step [OF at(1), of rest] have "expected reg data = Inl e" by simp
      with Inl None show ?thesis by (simp add: lookup_node_def at error_ok_def)
    next
      case (Inr out)
      with run_ok_next [OF run at(1) Inr] None cK cr show ?thesis
        by (auto simp: lookup_node_def at)
    qed
  qed
qed

lemma next_node_ok:
  assumes run: "run_ok reg K data g nids"
  shows "pc_ok h reg K data (next_node g nids)"
proof (cases nids)
  case Nil
  with run show ?thesis by (simp add: next_node_def run_ok_def outcome_def)
next
  case (Cons nid rest)
  show ?thesis
  proof (cases "dget (g_nodes g) nid")
    case None
    with run Cons have "expected reg data = Inl (KeyError nid)"
      by (simp add: run_ok_def outcome_def get_node_def)
    with None Cons show ?thesis by (simp add: next_node_def get_node_def error_ok_def)
  next
    case (Some n)
    with run have "node_type n \<in> set model_consuming_nodes \<Longrightarrow> hashable (model_id_of n)"
      by (auto simp: run_ok_def models_hashable_def model_id_of_def dest: dget_SomeD)
    with Some Cons run show ?thesis by (simp add: next_node_def get_node_def)
  qed
qed

lemma parse_prompt_ok:
  assumes D: "documents_ok h reg D" and data: "data \<in> D"
  shows "pc_ok h reg (\<Union>data \<in> D. document_calls reg data) data (parse_prompt reg data)"
proof (cases "parse_comfyui_json reg data")
  case (Inl e)
  then show ?thesis by (simp add: parse_prompt_def error_ok_def expected_def)
next
  case g: (Inr g)
  show ?thesis
  proof (cases "topological_order g")
    case (Inl e)
    with g show ?thesis by (simp add: parse_prompt_def error_ok_def expected_def execute_workflow_def)
  next
    case (Inr order)
    let ?g = "g\<lparr>g_results := []\<rparr>"
    have "expected reg data = outcome ?g order"
      using g Inr by (simp add: expected_def execute_workflow_def outcome_def split: prod.split sum.split)
    moreover have "encountered ?g order \<subseteq> (\<Union>data \<in> D. document_calls reg data)"
      using data g Inr by (auto simp: document_calls_def workflow_calls_def)
    moreover have "models_hashable ?g" using D data g by (simp add: documents_ok_def models_hashable_def)
    ultimately show ?thesis
      using g Inr parse_comfyui_json_wf [OF g] by (simp add: parse_prompt_def run_ok_def)
  qed
qed

text \<open>The registry in whatever state: a step of \<open>ensure_loaded\<close> goes on, returns or raises a \<open>KeyError\<close>.\<close>

lemma load_step_error: "snd (load_step mid data r lp) = Inl e \<Longrightarrow> \<exists>k. e = KeyError k"
  by (cases lp) (auto split: if_splits option.splits)

lemma run_ok_uses_models:
  assumes "run_ok reg K data g nids" and "dget (g_nodes g) nid = Some n"
    and "node_type n \<in> set model_consuming_nodes"
  shows "uses_models reg data"
  using assms unfolding run_ok_def uses_models_def by metis

section \<open>One step of one thread\<close>

lemma thread_step_pc_ok:
  assumes D: "documents_ok h reg D" and data: "data \<in> D" and K: "K = (\<Union>data \<in> D. document_calls reg data)"
    and pc: "pc_ok h reg K data pc" and sto: "store_ok h reg K (sv_cache s)"
    and p: "dget (sv_store s) pid = Some p"
  shows "pc_ok h reg K data (snd (thread_step h reg s pid data pc))
     \<and> store_ok h reg K (sv_cache (fst (thread_step h reg s pid data pc)))"
proof (cases pc)
  case TParse
  with parse_prompt_ok [OF D data] sto K show ?thesis by simp
next
  case (TNode g nids)
  with pc sto next_node_ok [of reg K data g nids] show ?thesis by simp
next
  case (TLookup g nid n rest)
  have "collision_free h K" using D K by (simp add: documents_ok_def)
  with TLookup pc sto lookup_node_ok [of reg K data g nid rest n] show ?thesis by simp
next
  case (TPut key out g nid rest)
  with pc sto show ?thesis by (auto intro: store_ok_put)
next
  case (TLoad lp g nid n rest)
  obtain r x where st: "load_step (model_id_of n) (model_data_of n) (sv_registry s) lp = (r, x)"
    by (metis surj_pair)
  have "\<exists>k. e = KeyError k" if "x = Inl e" for e
    using load_step_error [of "model_id_of n" "model_data_of n" "sv_registry s" lp e] st that by simp
  moreover have "uses_models reg data" using TLoad pc run_ok_uses_models by auto
  ultimately show ?thesis
    using TLoad pc sto by (auto simp: st error_ok_def split: sum.split option.split)
qed (use pc sto p in \<open>auto simp: append_queue_def leave_queue_def update_prompt_def\<close>)

lemma shown_busy:
  "shown reg data (parse_prompt reg data') p = (p = \<lparr>status = ''running'', p_outputs = None, p_error = None\<rparr>)"
  "shown reg data (next_node g nids) p = (p = \<lparr>status = ''running'', p_outputs = None, p_error = None\<rparr>)"
  "shown reg data (lookup_node h c g nid n rest) p = (p = \<lparr>status = ''running'', p_outputs = None, p_error = None\<rparr>)"
  by (auto simp: parse_prompt_def next_node_def lookup_node_def split: sum.split list.split option.split prod.split)

lemma thread_step_shown:
  assumes "pc_ok h reg K data pc" and "dget (sv_store s) pid = Some p" and "shown reg data pc p"
  shows "\<exists>p'. shown reg data (snd (thread_step h reg s pid data pc)) p'
     \<and> (\<forall>q. dget (sv_store (fst (thread_step h reg s pid data pc))) q = (if q = pid then Some p' else dget (sv_store s) q))"
proof (cases pc)
  case (TLoad lp g nid n rest)
  with assms show ?thesis by (auto intro!: exI [of _ p] split: prod.split sum.split option.split)
qed (use assms in \<open>auto intro!: exI [of _ p] simp: shown_busy append_queue_def leave_queue_def update_prompt_def\<close>)

lemma not_leaving:
  "parse_prompt reg data \<noteq> TLeave" "next_node g nids \<noteq> TLeave" "lookup_node h c g nid n rest \<noteq> TLeave"
  by (auto simp: parse_prompt_def next_node_def lookup_node_def split: sum.split list.split option.split prod.split)

lemma thread_step_frame:
  assumes "thread_step h reg s pid data pc = (s', pc')"
  shows "sv_threads s' = sv_threads s
     \<and> sv_queue s' = (if pc = TAppend then sv_queue s @ [pid]
         else if pc = TLeave then remove1 pid (sv_queue s) else sv_queue s)
     \<and> (pc' = TLeave \<longleftrightarrow> pc = TAppend)"
  using assms
  by (cases pc)
     (auto simp: not_leaving append_queue_def leave_queue_def update_prompt_def remove1_idem
        split: prod.splits sum.splits option.splits if_splits)

lemma dkey_iff: "k \<in> set (dkeys d) \<longleftrightarrow> (\<exists>v. dget d k = Some v)"
  using dget_None_iff [of d k] by auto

lemma server_okD:
  assumes "server_ok h reg D s" and "dget (sv_threads s) pid = Some (data, pc)"
  shows "data \<in> D" and "pc_ok h reg (\<Union>data \<in> D. document_calls reg data) data pc"
    and "\<exists>p. dget (sv_store s) pid = Some p \<and> shown reg data pc p"
  using assms unfolding server_ok_def by blast+

lemma run_thread_ok:
  assumes D: "documents_ok h reg D" and ok: "server_ok h reg D s"
  shows "server_ok h reg D (run_thread h reg pid s)"
proof (cases "dget (sv_threads s) pid")
  case None
  with ok show ?thesis by (simp add: run_thread_def)
next
  case (Some t)
  obtain data pc where t: "t = (data, pc)" by (cases t)
  let ?K = "\<Union>data \<in> D. document_calls reg data"
  obtain s' pc' where st: "thread_step h reg s pid data pc = (s', pc')" by (metis surj_pair)
  note okt = server_okD [OF ok Some [unfolded t]]
  note data = okt(1) and pc = okt(2)
  from okt(3) obtain p where p: "dget (sv_store s) pid = Some p" "shown reg data pc p" by blast
  have sto: "store_ok h reg ?K (sv_cache s)" using ok by (simp add: server_ok_def)
  have pc': "pc_ok h reg ?K data pc'" "store_ok h reg ?K (sv_cache s')"
    using thread_step_pc_ok [OF D data refl pc sto p(1)] st by simp_all
  obtain p' where p': "shown reg data pc' p'"
    and store: "\<And>q. dget (sv_store s') q = (if q = pid then Some p' else dget (sv_store s) q)"
    using thread_step_shown [OF pc p] st by auto
  note fr = thread_step_frame [OF st]
  have run: "run_thread h reg pid s = s'\<lparr>sv_threads := dset (sv_threads s) pid (data, pc')\<rparr>"
    using Some t st fr by (simp add: run_thread_def)
  have keys: "set (dkeys (sv_store s')) = set (dkeys (sv_threads s))"
  proof -
    have "q \<in> set (dkeys (sv_store s')) \<longleftrightarrow> q \<in> set (dkeys (sv_store s))" for q
      using store [of q] p(1) unfolding dkey_iff by auto
    with ok show ?thesis by (auto simp: server_ok_def)
  qed
  have pk: "pid \<in> set (dkeys (sv_threads s))" using dget_Some_key [OF Some] .
  have q: "distinct (sv_queue s)" "pid \<in> set (sv_queue s) \<longleftrightarrow> pc = TLeave"
    using ok Some t by (auto simp: server_ok_def)
  show ?thesis
    unfolding server_ok_def
  proof (intro conjI allI impI)
    show "set (dkeys (sv_store (run_thread h reg pid s))) = set (dkeys (sv_threads (run_thread h reg pid s)))"
      using keys pk by (auto simp: run dkeys_dset)
    show "distinct (sv_queue (run_thread h reg pid s))"
      using fr q by (auto simp: run)
    show "store_ok h reg ?K (sv_cache (run_thread h reg pid s))"
      using pc' by (simp add: run)
    fix x
    show "x \<in> set (sv_queue (run_thread h reg pid s)) \<longleftrightarrow>
        (\<exists>data. dget (sv_threads (run_thread h reg pid s)) x = Some (data, TLeave))"
      using ok q fr Some t by (cases "x = pid") (auto simp: run server_ok_def)
    fix d c assume x: "dget (sv_threads (run_thread h reg pid s)) x = Some (d, c)"
    show "d \<in> D" "pc_ok h reg ?K d c" "\<exists>p. dget (sv_store (run_thread h reg pid s)) x = Some p \<and> shown reg d c p"
      using x ok data pc' p' store by (auto simp: run server_ok_def split: if_splits)
  qed
qed

lemma server_step_ok:
  "server_step h reg D s s' \<Longrightarrow> documents_ok h reg D \<Longrightarrow> server_ok h reg D s \<Longrightarrow> server_ok h reg D s'"
  by (induction rule: server_step.induct) (auto intro: submit_ok run_thread_ok)

lemma server_steps_ok:
  "server_steps h reg D s s' \<Longrightarrow> documents_ok h reg D \<Longrightarrow> server_ok h reg D s \<Longrightarrow> server_ok h reg D s'"
  by (induction rule: server_steps.induct) (auto intro: server_step_ok)

section \<open>What stays\<close>

text \<open>A prompt keeps its document, and a final status is final.\<close>

lemma thread_step_final:
  assumes "dget (sv_store s) pid = Some p" and "shown reg data pc p" and "status p \<in> {''complete'', ''error''}"
  shows "\<exists>p'. dget (sv_store (fst (thread_step h reg s pid data pc))) pid = Some p' \<and> status p' = status p"
  using assms by (cases pc) (auto simp: update_prompt_def)

lemma run_thread_final:
  assumes ok: "server_ok h reg D s" and t: "dget (sv_threads s) pid = Some (data, pc)"
    and st: "st \<in> {''complete'', ''error''}" "has_status s pid st"
  shows "has_status (run_thread h reg x s) pid st"
proof (cases "dget (sv_threads s) x")
  case None
  with st show ?thesis by (simp add: run_thread_def)
next
  case (Some y)
  obtain d c where y: "y = (d, c)" by (cases y)
  note okx = server_okD [OF ok Some [unfolded y]]
  from okx(3) obtain p where p: "dget (sv_store s) x = Some p" "shown reg d c p" by blast
  have run: "sv_store (run_thread h reg x s) = sv_store (fst (thread_step h reg s x d c))"
    using Some y by (simp add: run_thread_def split: prod.split)
  show ?thesis
  proof (cases "x = pid")
    case True
    with st p have eq: "status p = st" by (simp add: has_status_def)
    with st(1) have "status p \<in> {''complete'', ''error''}" by simp
    from thread_step_final [OF p this, of h] eq True show ?thesis unfolding has_status_def run by auto
  next
    case False
    from thread_step_shown [OF okx(2) p] False st(2) show ?thesis
      by (auto simp: has_status_def run)
  qed
qed

lemma run_thread_document:
  assumes "dget (sv_threads s) pid = Some (data, pc)"
  shows "\<exists>pc'. dget (sv_threads (run_thread h reg x s)) pid = Some (data, pc') \<and> (pc = TDone \<longrightarrow> pc' = TDone)"
proof (cases "dget (sv_threads s) x")
  case (Some y)
  obtain d c where y: "y = (d, c)" by (cases y)
  obtain s' c' where st: "thread_step h reg s x d c = (s', c')" by (metis surj_pair)
  have "x = pid \<Longrightarrow> d = data \<and> c = pc" using Some assms y by simp
  with thread_step_frame [OF st] Some assms y st show ?thesis by (auto simp: run_thread_def)
qed (use assms in \<open>simp add: run_thread_def\<close>)

lemma settled_steps:
  assumes "server_steps h reg D s s'" and "documents_ok h reg D" and "server_ok h reg D s"
    and "dget (sv_threads s) pid = Some (data, pc)"
  shows "(\<exists>pc'. dget (sv_threads s') pid = Some (data, pc') \<and> (pc = TDone \<longrightarrow> pc' = TDone))
     \<and> (st \<in> {''complete'', ''error''} \<longrightarrow> has_status s pid st \<longrightarrow> has_status s' pid st)"
  using assms
proof (induction rule: server_steps.induct)
  case (stay s)
  then show ?case by simp
next
  case (step s s' s'')
  from step.IH [OF step.prems] obtain pc' where t: "dget (sv_threads s') pid = Some (data, pc')"
    and dn: "pc = TDone \<longrightarrow> pc' = TDone" and st: "st \<in> {''complete'', ''error''} \<longrightarrow> has_status s pid st \<longrightarrow> has_status s' pid st" by blast
  have ok: "server_ok h reg D s'" by (rule server_steps_ok [OF step.hyps(1) step.prems(1,2)])
  from step.hyps(2) show ?case
  proof cases
    case (submit x d)
    have "x \<noteq> pid" using server_okD(3) [OF ok t] submit(2) by (auto dest: dget_Some_key)
    with t st dn submit(1) show ?thesis by (auto simp: submit_prompt_def has_status_def)
  next
    case (thread x)
    with run_thread_document [OF t, of h reg x] run_thread_final [OF ok t] st dn show ?thesis by blast
  qed
qed

text \<open>A schedule: the threads that take the next steps.\<close>

lemma server_steps_schedule: "server_steps h reg D s s' \<Longrightarrow> server_steps h reg D s (fold (run_thread h reg) pids s')"
proof (induction pids arbitrary: s')
  case (Cons x pids)
  have "server_steps h reg D s (run_thread h reg x s')"
  proof (cases "dhas (sv_threads s') x")
    case True
    then show ?thesis by (rule server_steps.step [OF Cons.prems server_step.thread])
  next
    case False
    then have "dget (sv_threads s') x = None" unfolding dhas_dget by blast
    then have "run_thread h reg x s' = s'" by (simp add: run_thread_def)
    with Cons.prems show ?thesis by simp
  qed
  from Cons.IH [OF this] show ?case by simp
qed simp

text \<open>What the store may show of a prompt, by its status.\<close>

lemma shown_view:
  assumes "shown reg data pc p" and "pc_ok h reg K data pc"
  shows "status p \<in> {''pending'', ''running'', ''complete'', ''error''}"
    and "status p = ''pending'' \<longleftrightarrow> pc \<in> {TAppend, TLeave, TRunning}"
    and "status p = ''complete'' \<Longrightarrow> p_error p = None \<and> (\<exists>res. expected reg data = Inr res)"
    and "status p = ''error'' \<Longrightarrow> p_outputs p = None \<and> (\<exists>e. error_ok reg data e)"
    and "p_outputs p = Some res \<Longrightarrow> expected reg data = Inr res \<and> status p = ''complete''"
    and "p_error p = Some e \<Longrightarrow> error_ok reg data e \<and> status p = ''error''"
    and "pc = TDone \<Longrightarrow> (\<exists>res. status p = ''complete'' \<and> p_outputs p = Some res)
      \<or> (\<exists>e. status p = ''error'' \<and> p_error p = Some e)"
  using assms by (cases pc; auto)+

section \<open>Every thread ends\<close>

text \<open>The steps a thread still has to take, at most: 15 for every node, 9 around them.\<close>

fun load_left :: "load_pc \<Rightarrow> nat" where
  "load_left LTest = 12" | "load_left LMove = 2" | "load_left LRead = 1" | "load_left LFull = 11"
| "load_left LPop = 10" | "load_left (LKeep m s) = 9" | "load_left LOffCount = 8" | "load_left (LOffSet n) = 7"
| "load_left LCpu = 6" | "load_left LTake = 5" | "load_left (LLoad s) = 4" | "load_left (LCount s n) = 3"
| "load_left (LPut s) = 2" | "load_left (LLast s) = 1"

fun steps_left :: "pdict \<Rightarrow> thread_pc \<Rightarrow> nat" where
  "steps_left data TAppend = 15 * length data + 9"
| "steps_left data TLeave = 15 * length data + 8"
| "steps_left data TRunning = 15 * length data + 7"
| "steps_left data TParse = 15 * length data + 6"
| "steps_left data (TNode g nids) = 15 * length nids + 5"
| "steps_left data (TLoad lp g nid n rest) = load_left lp + 15 * length rest + 7"
| "steps_left data (TLookup g nid n rest) = 15 * length rest + 7"
| "steps_left data (TPut key out g nid rest) = 15 * length rest + 6"
| "steps_left data (TComplete res) = 4"
| "steps_left data (TOutputs res) = 3"
| "steps_left data (TError e) = 2"
| "steps_left data (TErrorText e) = 1"
| "steps_left data TDone = 0"

lemma load_left_step: "snd (load_step mid data r lp) = Inr (Some lp') \<Longrightarrow> load_left lp' < load_left lp"
  by (cases lp) (auto split: if_splits option.splits)

lemma topological_order_length:
  "topological_order g = Inr order \<Longrightarrow> length order = length (dkeys (g_nodes g))"
  by (auto simp: topological_order_def Let_def split: sum.splits if_splits)

lemma parse_prompt_left: "steps_left data (parse_prompt reg data) < steps_left data TParse"
proof (cases "parse_comfyui_json reg data")
  case (Inl e)
  then show ?thesis by (simp add: parse_prompt_def)
next
  case (Inr g)
  from parse_comfyui_json_keys [OF Inr] have "length (dkeys (g_nodes g)) = length data"
    by (simp add: dkeys_def)
  with Inr topological_order_length [of g] show ?thesis
    by (cases "topological_order g") (auto simp: parse_prompt_def)
qed

lemma thread_step_left:
  assumes "pc \<noteq> TDone"
  shows "steps_left data (snd (thread_step h reg s pid data pc)) < steps_left data pc"
proof (cases pc)
  case (TNode g nids)
  then show ?thesis by (cases nids) (auto simp: next_node_def split: sum.split)
next
  case (TLookup g nid n rest)
  then show ?thesis by (auto simp: lookup_node_def split: sum.split option.split)
next
  case (TLoad lp g nid n rest)
  obtain r x where st: "load_step (model_id_of n) (model_data_of n) (sv_registry s) lp = (r, x)"
    by (metis surj_pair)
  have "load_left lp' < load_left lp" if "x = Inr (Some lp')" for lp'
    using load_left_step [of "model_id_of n" "model_data_of n" "sv_registry s" lp lp'] st that by simp
  moreover have "0 < load_left lp" by (cases lp) auto
  ultimately show ?thesis by (auto simp: TLoad st split: sum.split option.split)
next
  case TParse
  with parse_prompt_left [of data reg] show ?thesis by simp
qed (use assms in \<open>auto simp: update_prompt_def split: option.split\<close>)

lemma run_thread_left:
  assumes "dget (sv_threads s) pid = Some (data, pc)" and "pc \<noteq> TDone"
  shows "\<exists>pc'. dget (sv_threads (run_thread h reg pid s)) pid = Some (data, pc') \<and> steps_left data pc' < steps_left data pc"
  using assms thread_step_left [OF assms(2), of data h reg s pid]
  by (auto simp: run_thread_def split: prod.split)

end
