(* ===== verification/ComfyProperties.thy ===== *)
theory ComfyProperties
  imports ComfyServer
begin

text \<open>
  The properties of the workflow engine (\<open>labs/comfyui-executor\<close>), each with a witness on a small
  workflow: \<open>demo_graph\<close> loads a text and converts it to upper case, \<open>loop_graph\<close> has a cycle.
\<close>

definition demo_graph :: graph where
  "demo_graph = \<lparr>g_nodes =
       [(''a'', \<lparr>node_id = ''a'', node_type = ''LoadText'', n_params = [(''text'', PStr ''hi'')],
                n_exec = load_text_execute\<rparr>),
        (''b'', \<lparr>node_id = ''b'', node_type = ''ToUpperCase'', n_params = [], n_exec = to_upper_execute\<rparr>)],
     g_edges = [\<lparr>src_id = ''a'', src_key = ''text'', dst_id = ''b'', dst_key = ''text''\<rparr>], g_results = []\<rparr>"

definition loop_graph :: graph where
  "loop_graph = demo_graph\<lparr>g_edges := g_edges demo_graph @
     [\<lparr>src_id = ''b'', src_key = ''text'', dst_id = ''a'', dst_key = ''text''\<rparr>]\<rparr>"

definition demo_hasher :: hasher where
  "demo_hasher = \<lparr>sha256_hex = id, dumps_sorted = py_repr\<rparr>"

definition demo_document :: pdict where
  "demo_document =
     [(''1'', PDict [(''class_type'', PStr ''LoadText''), (''inputs'', PDict [(''text'', PStr ''hi'')])]),
      (''2'', PDict [(''class_type'', PStr ''ToUpperCase''),
                     (''inputs'', PDict [(''text'', PList [PStr ''1'', PInt 0])])])]"

lemma demo_wf: "wf_graph demo_graph" "wf_graph loop_graph"
  by (simp_all add: wf_graph_def demo_graph_def loop_graph_def dwf_def dkeys_def)

lemma demo_order: "topological_order demo_graph = Inr [''a'', ''b'']"
  by code_simp

lemma demo_registry: "from_registry node_registry_v0 demo_graph"
  by (simp add: from_registry_def demo_graph_def node_registry_v0_def)

lemma demo_calls:
  "workflow_calls demo_graph = {(''LoadText'', [(''text'', PStr ''hi'')], []), (''ToUpperCase'', [], [(''text'', PStr ''hi'')])}"
  unfolding workflow_calls_def demo_order
  by (simp add: demo_graph_def node_call_def gather_inputs_def node_output_def load_text_execute_def
      dget_or_def to_upper_execute_def)

lemma demo_collision_free: "collision_free demo_hasher (workflow_calls demo_graph)"
  unfolding demo_calls by (simp add: collision_free_def call_payload_def input_values_def demo_hasher_def)

section \<open>Scheduling and execution\<close>

text \<open>C1: The order \<open>topological_order\<close> returns lists every node once, and the source of every edge
  into a node stands before it.\<close>

theorem topological_order_schedule:
  assumes "wf_graph g" and "topological_order g = Inr order"
  shows "distinct order \<and> set order = set (all_node_ids g) \<and>
     (\<forall>e \<in> set (g_edges g). \<exists>xs ys. order = xs @ dst_id e # ys \<and> src_id e \<in> set xs)"
proof -
  note t = topological_order_Inr [OF assms]
  have "\<exists>xs ys. order = xs @ dst_id e # ys \<and> src_id e \<in> set xs" if e: "e \<in> set (g_edges g)" for e
  proof -
    have "dst_id e \<in> set order" using t e assms(1) by (auto simp: wf_graph_def)
    then obtain i where i: "i < length order" "order ! i = dst_id e" by (auto simp: in_set_conv_nth)
    then have "src_id e \<in> set (take i order)" using t e by (auto simp: forward_def)
    with i id_take_nth_drop [OF i(1)] show ?thesis by metis
  qed
  with t show ?thesis by (simp add: all_node_ids_def)
qed

theorem topological_order_schedule_witness:
  "distinct [''a'', ''b''] \<and> set [''a'', ''b''] = set (all_node_ids demo_graph)"
  using topological_order_schedule [OF demo_wf(1) demo_order] by blast

text \<open>C2: \<open>topological_order\<close> succeeds exactly on acyclic graphs; on any other graph it raises the
  cycle error and nothing else.\<close>

theorem topological_order_total:
  assumes "wf_graph g"
  shows "(if acyclic (edge_rel g) then \<exists>order. topological_order g = Inr order
          else topological_order g = Inl (ValueError ''WorkflowGraph contains a cycle''))"
  using topological_order_cases [OF assms] topological_order_error [OF assms]
  by (metis obj_sumE)

theorem topological_order_total_witness:
  "topological_order loop_graph = Inl (ValueError ''WorkflowGraph contains a cycle'')"
proof -
  have "topological_order loop_graph \<noteq> Inr order" for order by code_simp
  with topological_order_total [OF demo_wf(2)] show ?thesis by (auto split: if_splits)
qed

text \<open>C3: A successful \<open>execute_workflow\<close> returns the unique solution of the workflow's dataflow
  equations: each node's output is its \<open>execute\<close> on the outputs of the nodes that feed it.\<close>

theorem execute_workflow_correct:
  assumes "wf_graph g" and "execute_workflow g = (g', Inr res)"
  shows "dataflow g res \<and>
     (\<forall>r. dataflow g r \<longrightarrow> (\<forall>nid \<in> set (all_node_ids g). dget r nid = dget res nid))"
proof -
  have d: "dataflow g res" using execute_workflow_dataflow [OF assms] by blast
  have "acyclic (edge_rel g)"
    using execute_workflow_dataflow [OF assms] topological_order_cases [OF assms(1)] by blast
  then have "dget r nid = dget res nid" if "dataflow g r" "nid \<in> set (dkeys (g_nodes g))" for r nid
    by (rule dataflow_unique [OF assms(1) _ that(1) d that(2)])
  with d show ?thesis unfolding all_node_ids_def by blast
qed

theorem execute_workflow_correct_witness:
  "dataflow demo_graph [(''a'', [(''text'', PStr ''hi'')]), (''b'', [(''text'', PStr ''HI'')])]"
proof -
  have "snd (execute_workflow demo_graph)
      = Inr [(''a'', [(''text'', PStr ''hi'')]), (''b'', [(''text'', PStr ''HI'')])]" by code_simp
  then show ?thesis using execute_workflow_correct [OF demo_wf(1)] by (metis prod.collapse)
qed

section \<open>Caching\<close>

text \<open>C4: The caching executor returns what the plain executor returns (results or exception) and
  leaves the same graph, from any store whose entries are right, when keys do not collide.\<close>

theorem run_cached_equals_plain:
  assumes "from_registry reg g" and "collision_free h K" and "workflow_calls g \<subseteq> K"
    and "store_ok h reg K (cx_cache x)"
  shows "snd (run_cached h x g) = snd (execute_workflow g)
       \<and> snd (fst (run_cached h x g)) = fst (execute_workflow g)"
  using run_cached_agrees [OF assms] by blast

theorem run_cached_equals_plain_witness:
  "snd (run_cached demo_hasher (new_cexec None) demo_graph) = snd (execute_workflow demo_graph)"
  using run_cached_equals_plain [OF demo_registry demo_collision_free order_refl, of "new_cexec None"]
  by (simp add: new_cexec_def store_ok_empty)

text \<open>Running the same workflow again executes no node: every node is a cache hit and the result
  is the same.\<close>

theorem rerun_executes_nothing:
  assumes "from_registry reg g" and "collision_free h K" and "workflow_calls g \<subseteq> K"
    and "store_ok h reg K (cx_cache x)" and run: "run_cached h x g = ((x1, g1), Inr res)"
  shows "\<exists>x2. run_cached h x1 g = ((x2, g1), Inr res) \<and> nodes_executed x2 = nodes_executed x1 \<and>
     cache_misses x2 = cache_misses x1 \<and> cache_hits x2 = cache_hits x1 + length (dkeys (g_nodes g))"
proof -
  let ?g = "g\<lparr>g_results := []\<rparr>"
  obtain order where o: "topological_order g = Inr order"
    and n: "run_cached_nodes h x ?g order = ((x1, g1), Inr ())" and res: "res = g_results g1"
    using run by (auto simp: run_cached_def split: sum.splits prod.splits)
  have enc: "encountered ?g order \<subseteq> K" using assms(3) o by (simp add: workflow_calls_def)
  have reg: "from_registry reg ?g" using assms(1) by simp
  have st: "store_ok h reg K (cx_cache x1)" using run_cached_agrees [OF assms(1-4)] run by simp
  have all: "\<forall>c \<in> encountered ?g order. cache_get (cx_cache x1) (call_key h c) \<noteq> None"
    using run_cached_nodes_stores [OF reg assms(2) enc assms(4) n] by blast
  obtain x2 g2 r2 where r2: "run_cached h x1 g = ((x2, g2), r2)" by (metis surj_pair)
  have "r2 = Inr res" "g2 = g1"
    using run_cached_agrees [OF assms(1-4)] run_cached_agrees [OF assms(1-3) st] run r2 by simp_all
  with r2 o obtain n2: "run_cached_nodes h x1 ?g order = ((x2, g1), Inr ())"
    by (auto simp: run_cached_def split: sum.splits prod.splits)
  have len: "length order = length (dkeys (g_nodes g))"
    using o by (auto simp: topological_order_def Let_def split: sum.splits if_splits)
  show ?thesis
    using run_cached_nodes_all_hits [OF reg assms(2) enc st all n2] run_cached_nodes_counts [OF n2]
      r2 \<open>r2 = Inr res\<close> \<open>g2 = g1\<close> len by auto
qed

theorem rerun_executes_nothing_witness:
  "\<exists>x1 g1 x2 res. run_cached demo_hasher (new_cexec None) demo_graph = ((x1, g1), Inr res) \<and>
     run_cached demo_hasher x1 demo_graph = ((x2, g1), Inr res) \<and> nodes_executed x2 = nodes_executed x1"
proof -
  have "snd (execute_workflow demo_graph)
      = Inr [(''a'', [(''text'', PStr ''hi'')]), (''b'', [(''text'', PStr ''HI'')])]" by code_simp
  then have "snd (run_cached demo_hasher (new_cexec None) demo_graph)
      = Inr [(''a'', [(''text'', PStr ''hi'')]), (''b'', [(''text'', PStr ''HI'')])]"
    using run_cached_agrees [OF demo_registry demo_collision_free order_refl, of "new_cexec None"]
    by (simp add: new_cexec_def store_ok_empty)
  then obtain x1 g1 res where r: "run_cached demo_hasher (new_cexec None) demo_graph = ((x1, g1), Inr res)"
    by (metis prod.collapse)
  have "store_ok demo_hasher node_registry_v0 (workflow_calls demo_graph) (cx_cache (new_cexec None))"
    by (simp add: new_cexec_def store_ok_empty)
  from rerun_executes_nothing [OF demo_registry demo_collision_free order_refl this r] r show ?thesis by blast
qed

text \<open>\<open>invalidate_node\<close> removes exactly the cache entries recorded for the node and for every node
  downstream of it (an empty key is skipped by the guard), and no other entry.\<close>

theorem invalidate_node_exact:
  "cache_get (cx_cache (invalidate_node x g start)) k =
     (if k \<noteq> [] \<and> (\<exists>nid. (start, nid) \<in> (edge_rel g)\<^sup>* \<and> dget (cx_node_keys x) nid = Some k)
      then None else cache_get (cx_cache x) k)
   \<and> distinct (invalidate_downstream g start)
   \<and> set (invalidate_downstream g start) = {nid. (start, nid) \<in> (edge_rel g)\<^sup>*}"
  using invalidate_node_get [of x g start k] invalidate_downstream_reachable [of g start] by blast

section \<open>Model offloading\<close>

text \<open>\<open>ensure_loaded\<close> on a pool with a slot succeeds, puts the model on the GPU, keeps the pool
  invariant (at most \<open>max_gpu_slots\<close> residents, devices right, no model in both pools), and evicts the
  least recently used model when the pool is full.\<close>

theorem ensure_loaded_lru:
  assumes "pool_ok r"
  shows "\<exists>r' s. ensure_loaded r mid data = Inr (r', s) \<and> pool_ok r'
      \<and> dget (gpu_slots r') mid = Some s \<and> device s = ''cuda''
      \<and> gpu_resident r' = lru_touch (nat (max_gpu_slots r)) (gpu_resident r) mid"
  using ensure_loaded_ok [OF assms, of mid data] by blast

theorem ensure_loaded_lru_witness:
  "\<exists>r' s. ensure_loaded (new_mregistry 2) (PStr ''m'') PNone = Inr (r', s) \<and> pool_ok r'
      \<and> gpu_resident r' = lru_touch 2 [] (PStr ''m'')"
  using ensure_loaded_lru [OF pool_ok_new [of 2], of "PStr ''m''" PNone]
  by (auto simp: new_mregistry_def gpu_resident_def)

text \<open>C5: After any sequence of model requests the GPU holds exactly the last \<open>max_gpu_slots\<close> distinct
  models, the most recent one last.\<close>

theorem gpu_holds_recent_models:
  assumes "1 \<le> slots"
  shows "gpu_resident (fold request_model uses (new_mregistry slots)) = recent_keys (nat slots) (map fst uses)"
  using gpu.uses_recent [OF pool_ok_new [OF assms], of uses]
  by (simp add: gpu_resident_def new_mregistry_def)

theorem gpu_holds_recent_models_witness:
  "gpu_resident (fold request_model [(PInt 1, PNone), (PInt 2, PNone), (PInt 1, PNone), (PInt 3, PNone)] (new_mregistry 2))
     = [PInt 1, PInt 3]"
  using gpu_holds_recent_models [of 2 "[(PInt 1, PNone), (PInt 2, PNone), (PInt 1, PNone), (PInt 3, PNone)]"]
  by (simp add: recent_keys_def last_n_def)

text \<open>C6: The offloading executor returns what the plain executor returns, whatever models are loaded.\<close>

theorem run_offload_equals_plain:
  assumes "pool_ok (ox_registry x)" and "models_hashable g"
    and "from_registry reg g" and "collision_free h K" and "workflow_calls g \<subseteq> K" and "store_ok h reg K (ox_cache x)"
  shows "snd (run_offload h x g) = snd (execute_workflow g)
       \<and> snd (fst (run_offload h x g)) = fst (execute_workflow g)
       \<and> pool_ok (ox_registry (fst (fst (run_offload h x g))))"
proof -
  define y where "y = new_cexec (Some (ox_cache x))"
  have y: "ox_cache x = cx_cache y" by (simp add: y_def new_cexec_def)
  have "store_ok h reg K (cx_cache y)" using assms(6) y by simp
  from run_offload_agrees [OF assms(1,2) y, of h] run_cached_agrees [OF assms(3-5) this]
  show ?thesis by simp
qed

theorem run_offload_equals_plain_witness:
  "snd (run_offload demo_hasher (new_oexec None None) demo_graph) = snd (execute_workflow demo_graph)"
proof -
  have "pool_ok (ox_registry (new_oexec None None))" by (simp add: new_oexec_def pool_ok_new)
  moreover have "models_hashable demo_graph"
    by (simp add: models_hashable_def demo_graph_def model_consuming_nodes_def)
  moreover have "store_ok demo_hasher node_registry_v0 (workflow_calls demo_graph) (ox_cache (new_oexec None None))"
    by (simp add: new_oexec_def store_ok_empty)
  ultimately show ?thesis
    using run_offload_equals_plain [OF _ _ demo_registry demo_collision_free order_refl] by blast
qed

section \<open>Documents and the prompt server\<close>

text \<open>C7: A parsed ComfyUI document (its mappings without repeated keys, as Python's are) is the workflow the
  document describes. The graph is well-formed, its nodes are the entries of the document in order, each an
  instance of the registered class the entry names, with the inputs that are no connection as its
  parameters; its edges are the connections of the document in order, each from the output slot of the node
  it names, by the slot names of that node's class, into the input it fills.\<close>

theorem parse_comfyui_json_correct:
  assumes "parse_comfyui_json reg data = Inr g" and "\<forall>nd \<in> set data. dwf (inputs_of (snd nd))"
  shows "wf_graph g \<and> all_node_ids g = dkeys data
     \<and> list_all2 (node_shows reg) (g_nodes g) data
     \<and> list_all2 (edge_shows data) (g_edges g) (connections data)"
  using parse_comfyui_json_wf [OF assms(1)] parse_comfyui_json_keys [OF assms(1)]
    parse_comfyui_json_shows [OF assms] by (simp add: all_node_ids_def)

theorem parse_comfyui_json_correct_witness:
  "\<exists>g e. parse_comfyui_json node_registry_v0 demo_document = Inr g \<and> g_edges g = [e] \<and>
     src_id e = ''1'' \<and> src_key e = ''text'' \<and> dst_id e = ''2'' \<and> dst_key e = ''text'' \<and>
     map (n_params \<circ> snd) (g_nodes g) = [[(''text'', PStr ''hi'')], []]"
proof -
  have "\<not> isl (parse_comfyui_json node_registry_v0 demo_document)" by code_simp
  then obtain g where g: "parse_comfyui_json node_registry_v0 demo_document = Inr g"
    by (cases "parse_comfyui_json node_registry_v0 demo_document") auto
  have wf: "\<forall>nd \<in> set demo_document. dwf (inputs_of (snd nd))" by code_simp
  have con: "connections demo_document = [(''2'', ''text'', PList [PStr ''1'', PInt 0])]" by code_simp
  have "slot_names_of (class_of (PDict [(''class_type'', PStr ''LoadText''), (''inputs'', PDict [(''text'', PStr ''hi'')])]))
      = [''text'']" by code_simp
  moreover have "dget demo_document ''1''
      = Some (PDict [(''class_type'', PStr ''LoadText''), (''inputs'', PDict [(''text'', PStr ''hi'')])])" by code_simp
  moreover from parse_comfyui_json_correct [OF g wf, unfolded con] obtain e where
    "g_edges g = [e]" "edge_shows demo_document e (''2'', ''text'', PList [PStr ''1'', PInt 0])"
    by (auto simp: list_all2_Cons2)
  moreover have "map (n_params \<circ> snd) (g_nodes g) = [[(''text'', PStr ''hi'')], []]"
    using parse_comfyui_json_correct [OF g wf]
    by (auto simp: list_all2_Cons2 demo_document_def node_shows_def inputs_of_def node_raw_inputs_def)
  ultimately show ?thesis using g by (auto simp: edge_shows_def slot_shows_def)
qed

text \<open>C8: \<open>GET /history\<close> of a submitted prompt, its three reads at any three moments of any interleaving of
  submissions and worker threads. Status \<open>complete\<close> is shown only when parsing and running the prompt's own
  document succeeds; the outputs are then that result or, the worker storing them after the status, not yet
  there. Status \<open>error\<close> is shown only with the exception of the document or, for a document with a
  model-consuming node, a \<open>KeyError\<close> of the unlocked model registry, again after the status. Once the thread
  is done the answer is complete, and until then every step of its own brings the thread nearer to its
  end. The queue holds the prompts whose append is done and whose removal is not; a prompt is pending from
  its submission until its thread, out of the queue, has set \<open>running\<close>.\<close>

theorem server_outcomes_right:
  assumes "server_steps h reg D (init_server slots) s1" and "server_steps h reg D s1 s2" and "server_steps h reg D s2 s3"
    and "documents_ok h reg D" and "dget (sv_threads s1) pid = Some (data, pc)"
  shows "(\<exists>p. get_history s1 s2 s3 pid = Inr p
     \<and> (status p = ''complete'' \<longrightarrow> p_error p = None \<and> (\<exists>res. expected reg data = Inr res \<and> p_outputs p \<in> {None, Some res}))
     \<and> (status p = ''error'' \<longrightarrow> p_outputs p = None \<and> (\<exists>e. error_ok reg data e \<and> p_error p \<in> {None, Some e}))
     \<and> (\<forall>res. p_outputs p = Some res \<longrightarrow> expected reg data = Inr res)
     \<and> (\<forall>e. p_error p = Some e \<longrightarrow> error_ok reg data e)
     \<and> (pc = TDone \<longrightarrow> status p = ''complete'' \<and> p_outputs p \<noteq> None \<or> status p = ''error'' \<and> p_error p \<noteq> None))
   \<and> (pc \<noteq> TDone \<longrightarrow> (\<exists>pc'. dget (sv_threads (run_thread h reg pid s1)) pid = Some (data, pc')
        \<and> steps_left data pc' < steps_left data pc))
   \<and> distinct (sv_queue s1) \<and> (pid \<in> set (sv_queue s1) \<longleftrightarrow> pc = TLeave)
   \<and> (has_status s1 pid ''pending'' \<longleftrightarrow> pc \<in> {TAppend, TLeave, TRunning})"
proof -
  let ?K = "\<Union>data \<in> D. document_calls reg data"
  note D = assms(4) and t1 = assms(5)
  have ok1: "server_ok h reg D s1" by (rule server_steps_ok [OF assms(1) D server_ok_init])
  have ok2: "server_ok h reg D s2" by (rule server_steps_ok [OF assms(2) D ok1])
  have ok3: "server_ok h reg D s3" by (rule server_steps_ok [OF assms(3) D ok2])
  note to2 = settled_steps [OF assms(2) D ok1 t1]
  from to2 obtain pc2 where t2: "dget (sv_threads s2) pid = Some (data, pc2)" and dn2: "pc = TDone \<longrightarrow> pc2 = TDone"
    by blast
  note to3 = settled_steps [OF assms(3) D ok2 t2]
  from to3 obtain pc3 where t3: "dget (sv_threads s3) pid = Some (data, pc3)" and dn3: "pc2 = TDone \<longrightarrow> pc3 = TDone"
    by blast
  obtain p1 p2 p3 where p: "dget (sv_store s1) pid = Some p1" "dget (sv_store s2) pid = Some p2" "dget (sv_store s3) pid = Some p3"
    and sh: "shown reg data pc p1" "shown reg data pc2 p2" "shown reg data pc3 p3"
    using server_okD(3) [OF ok1 t1] server_okD(3) [OF ok2 t2] server_okD(3) [OF ok3 t3] by blast
  note v1 = shown_view [OF sh(1) server_okD(2) [OF ok1 t1]]
    and v2 = shown_view [OF sh(2) server_okD(2) [OF ok2 t2]]
    and v3 = shown_view [OF sh(3) server_okD(2) [OF ok3 t3]]
  have keep: "status p2 = st" "status p3 = st" if "status p1 = st" "st \<in> {''complete'', ''error''}" for st
  proof -
    have "has_status s1 pid st" using p that by (simp add: has_status_def)
    with to2 that have 2: "has_status s2 pid st" by blast
    with p show "status p2 = st" by (simp add: has_status_def)
    from 2 to3 that have "has_status s3 pid st" by blast
    with p show "status p3 = st" by (simp add: has_status_def)
  qed
  let ?p = "\<lparr>status = status p1, p_outputs = p_outputs p2, p_error = p_error p3\<rparr>"
  have hist: "get_history s1 s2 s3 pid = Inr ?p" by (simp add: get_history_def p)
  have com: "p_error p3 = None \<and> (\<exists>res. expected reg data = Inr res \<and> p_outputs p2 \<in> {None, Some res})"
    if c: "status p1 = ''complete''"
  proof -
    from v1(3) [OF c] obtain res where res: "expected reg data = Inr res" by blast
    have "p_outputs p2 \<in> {None, Some res}" using v2(5) res by (cases "p_outputs p2") auto
    with res v3(3) keep(2) [OF c] show ?thesis by auto
  qed
  have err: "p_outputs p2 = None \<and> (\<exists>e. error_ok reg data e \<and> p_error p3 \<in> {None, Some e})"
    if c: "status p1 = ''error''"
  proof -
    from v1(4) [OF c] obtain e where e: "error_ok reg data e" by blast
    have "\<exists>e. error_ok reg data e \<and> p_error p3 \<in> {None, Some e}"
      using v3(6) e by (cases "p_error p3") auto
    with v2(4) keep(1) [OF c] show ?thesis by auto
  qed
  have fin: "status p1 = ''complete'' \<and> p_outputs p2 \<noteq> None \<or> status p1 = ''error'' \<and> p_error p3 \<noteq> None"
    if "pc = TDone"
    using v1(7) v2(7) v3(7) that dn2 dn3 keep by fastforce
  have q: "distinct (sv_queue s1)" "pid \<in> set (sv_queue s1) \<longleftrightarrow> pc = TLeave"
    using ok1 t1 by (auto simp: server_ok_def)
  have pend: "has_status s1 pid ''pending'' \<longleftrightarrow> pc \<in> {TAppend, TLeave, TRunning}"
    using v1(2) p by (simp add: has_status_def)
  show ?thesis
    by (intro conjI exI [of _ ?p] hist)
       (use com err fin v2(5) v3(6) q pend run_thread_left [OF t1] in simp_all)
qed

lemma empty_document: "documents_ok demo_hasher node_registry_v0 {[]}"
  by (simp add: parse_comfyui_json_def documents_ok_def document_calls_def collision_free_def input_values_def
      workflow_calls_def empty_graph_def topological_order_def models_hashable_def)

lemma thread_done:
  assumes "map_option (\<lambda>(d, pc). (d, case pc of TDone \<Rightarrow> True | _ \<Rightarrow> False)) t = Some (data, True)"
  shows "t = Some (data, TDone)"
proof -
  from assms obtain pc where t: "t = Some (data, pc)" and "case pc of TDone \<Rightarrow> True | _ \<Rightarrow> False"
    by (cases t) auto
  then show ?thesis by (cases pc) simp_all
qed

theorem server_outcomes_right_witness:
  "\<exists>s p. server_steps demo_hasher node_registry_v0 {[]} (init_server 2) s \<and> get_history s s s ''p'' = Inr p
     \<and> status p = ''complete'' \<and> p_outputs p \<noteq> None"
proof -
  let ?s = "fold (run_thread demo_hasher node_registry_v0) (replicate 7 ''p'') (submit_prompt (init_server 2) ''p'' [])"
  have "server_steps demo_hasher node_registry_v0 {[]} (init_server 2) (submit_prompt (init_server 2) ''p'' [])"
    by (rule server_steps.step [OF server_steps.stay], rule server_step.submit) (simp_all add: init_server_def)
  then have r: "server_steps demo_hasher node_registry_v0 {[]} (init_server 2) ?s" by (rule server_steps_schedule)
  have "map_option (\<lambda>(d, pc). (d, case pc of TDone \<Rightarrow> True | _ \<Rightarrow> False)) (dget (sv_threads ?s) ''p'') = Some ([], True)"
    by code_simp
  then have t: "dget (sv_threads ?s) ''p'' = Some ([], TDone)" by (rule thread_done)
  have "expected node_registry_v0 [] = Inr []" by code_simp
  with server_outcomes_right [OF r server_steps.stay server_steps.stay empty_document t] r
  show ?thesis by (fastforce simp: error_ok_def uses_models_def parse_comfyui_json_def empty_graph_def)
qed

text \<open>The race in the model registry is real: \<open>p2\<close> finds its model on the GPU, \<open>p3\<close> evicts it to load another, and
  \<open>move_to_end\<close> raises, so a prompt whose document runs without error alone ends with a \<open>KeyError\<close>.\<close>

definition decode_document :: "string list \<Rightarrow> pdict" where
  "decode_document models =
     map (\<lambda>m. (m, PDict [(''class_type'', PStr ''VAEDecode''), (''inputs'', PDict [(''model_name'', PStr m)])])) models"

definition race_registry :: registry where
  "race_registry = [(''VAEDecode'', save_result_execute)]"

definition race_state :: server where
  "race_state =
     (let run = \<lambda>n pid. fold (run_thread demo_hasher race_registry) (replicate n pid);
          s1 = run 45 ''p1'' (submit_prompt (init_server 2) ''p1'' (decode_document [''a'', ''b'']));
          s2 = run 6 ''p2'' (submit_prompt s1 ''p2'' (decode_document [''a'']));
          s3 = run 30 ''p3'' (submit_prompt s2 ''p3'' (decode_document [''c'']))
      in run 3 ''p2'' s3)"

theorem registry_race:
  "server_steps demo_hasher race_registry UNIV (init_server 2) race_state
   \<and> get_history race_state race_state race_state ''p2''
       = Inr \<lparr>status = ''error'', p_outputs = None, p_error = Some (KeyError ''a'')\<rparr>
   \<and> expected race_registry (decode_document [''a'']) = Inr [(''a'', [])]"
proof (intro conjI)
  have sub: "server_steps demo_hasher race_registry UNIV (init_server 2) (submit_prompt s pid d)"
    if "server_steps demo_hasher race_registry UNIV (init_server 2) s" "pid \<notin> set (dkeys (sv_store s))" for s pid d
    by (rule server_steps.step [OF that(1)], rule server_step.submit) (simp_all add: that)
  show "server_steps demo_hasher race_registry UNIV (init_server 2) race_state"
    unfolding race_state_def Let_def
    by (intro server_steps_schedule sub server_steps.stay; code_simp)
qed code_simp+

end
