(* ===== verification/Utf8.thy ===== *)
theory Utf8
  imports PyDict
begin

text \<open>
  Text and bytes. A Python string is the list of its code points, a \<open>bytes\<close> value the list of its
  bytes. \<open>utf8_encode\<close> is \<open>str.encode("utf-8")\<close>, which raises on a surrogate; \<open>utf8_decode\<close> is
  \<open>bytes.decode("utf-8", errors="replace")\<close>: an ill-formed sequence gives one U+FFFD for its longest
  prefix that starts a well-formed sequence (at least one byte). \<open>b64_encode\<close>/\<open>b64_decode\<close> are the
  two functions of \<open>base64\<close>.
\<close>

type_synonym utext = "nat list"
type_synonym bytes = "nat list"

section \<open>Little-endian integers\<close>

fun le_bytes :: "nat \<Rightarrow> nat \<Rightarrow> bytes" where
  "le_bytes 0 x = []"
| "le_bytes (Suc n) x = x mod 256 # le_bytes n (x div 256)"

fun le_value :: "bytes \<Rightarrow> nat" where
  "le_value [] = 0"
| "le_value (b # bs) = b + 256 * le_value bs"

lemma length_le_bytes [simp]: "length (le_bytes n x) = n"
  by (induction n arbitrary: x) simp_all

lemma le_value_le_bytes: "x < 256 ^ n \<Longrightarrow> le_value (le_bytes n x) = x"
proof (induction n arbitrary: x)
  case (Suc n)
  then have "x div 256 < 256 ^ n" by (simp add: less_mult_imp_div_less mult.commute)
  with Suc.IH show ?case by simp
qed simp

section \<open>UTF-8\<close>

definition scalar :: "nat \<Rightarrow> bool" where
  "scalar c \<longleftrightarrow> c < 0x110000 \<and> \<not> (0xD800 \<le> c \<and> c \<le> 0xDFFF)"

definition utf8_encode_cp :: "nat \<Rightarrow> bytes" where
  "utf8_encode_cp c =
     (if c < 0x80 then [c]
      else if c < 0x800 then [0xC0 + c div 64, 0x80 + c mod 64]
      else if c < 0x10000 then [0xE0 + c div 4096, 0x80 + (c div 64) mod 64, 0x80 + c mod 64]
      else [0xF0 + c div 262144, 0x80 + (c div 4096) mod 64, 0x80 + (c div 64) mod 64, 0x80 + c mod 64])"

definition utf8_encode :: "utext \<Rightarrow> bytes result" where
  "utf8_encode t =
     (if list_all scalar t then Inr (concat (map utf8_encode_cp t))
      else Inl (ValueError ''UnicodeEncodeError''))"

definition cont_byte :: "nat \<Rightarrow> bool" where
  "cont_byte b \<longleftrightarrow> 0x80 \<le> b \<and> b \<le> 0xBF"

text \<open>The range of the second byte depends on the first (no overlong forms, no surrogates).\<close>

definition second_ok :: "nat \<Rightarrow> nat \<Rightarrow> bool" where
  "second_ok b0 b1 \<longleftrightarrow>
     (if b0 = 0xE0 then 0xA0 \<le> b1 \<and> b1 \<le> 0xBF
      else if b0 = 0xED then 0x80 \<le> b1 \<and> b1 \<le> 0x9F
      else if b0 = 0xF0 then 0x90 \<le> b1 \<and> b1 \<le> 0xBF
      else if b0 = 0xF4 then 0x80 \<le> b1 \<and> b1 \<le> 0x8F
      else cont_byte b1)"

definition replacement :: nat where
  "replacement = 0xFFFD"

text \<open>One step: the code point read and the number of bytes used after the first.\<close>

definition utf8_step :: "nat \<Rightarrow> bytes \<Rightarrow> nat \<times> nat" where
  "utf8_step b0 bs =
     (if b0 < 0x80 then (b0, 0)
      else if 0xC2 \<le> b0 \<and> b0 \<le> 0xDF then
        (case bs of
           b1 # _ \<Rightarrow> if cont_byte b1 then ((b0 - 0xC0) * 64 + (b1 - 0x80), 1) else (replacement, 0)
         | [] \<Rightarrow> (replacement, 0))
      else if 0xE0 \<le> b0 \<and> b0 \<le> 0xEF then
        (case bs of
           b1 # bs1 \<Rightarrow>
             if \<not> second_ok b0 b1 then (replacement, 0)
             else (case bs1 of
                     b2 # _ \<Rightarrow>
                       if cont_byte b2
                       then ((b0 - 0xE0) * 4096 + (b1 - 0x80) * 64 + (b2 - 0x80), 2)
                       else (replacement, 1)
                   | [] \<Rightarrow> (replacement, 1))
         | [] \<Rightarrow> (replacement, 0))
      else if 0xF0 \<le> b0 \<and> b0 \<le> 0xF4 then
        (case bs of
           b1 # bs1 \<Rightarrow>
             if \<not> second_ok b0 b1 then (replacement, 0)
             else (case bs1 of
                     b2 # bs2 \<Rightarrow>
                       if \<not> cont_byte b2 then (replacement, 1)
                       else (case bs2 of
                               b3 # _ \<Rightarrow>
                                 if cont_byte b3
                                 then ((b0 - 0xF0) * 262144 + (b1 - 0x80) * 4096
                                         + (b2 - 0x80) * 64 + (b3 - 0x80), 3)
                                 else (replacement, 2)
                             | [] \<Rightarrow> (replacement, 2))
                   | [] \<Rightarrow> (replacement, 1))
         | [] \<Rightarrow> (replacement, 0))
      else (replacement, 0))"

fun utf8_decode :: "bytes \<Rightarrow> utext" where
  "utf8_decode [] = []"
| "utf8_decode (b # bs) =
     fst (utf8_step b bs) # utf8_decode (drop (snd (utf8_step b bs)) bs)"

lemma utf8_encode_cp_bytes: "c < 0x110000 \<Longrightarrow> b \<in> set (utf8_encode_cp c) \<Longrightarrow> b < 256"
  by (auto simp: utf8_encode_cp_def split: if_splits)

lemma utf8_encode_bytes: "utf8_encode t = Inr bs \<Longrightarrow> b \<in> set bs \<Longrightarrow> b < 256"
  by (auto simp: utf8_encode_def list_all_iff scalar_def split: if_splits
      dest!: utf8_encode_cp_bytes [rotated])

lemma utf8_encode_cp_nonempty: "utf8_encode_cp c \<noteq> []"
  by (simp add: utf8_encode_cp_def)

lemma utf8_step2:
  assumes "2 \<le> x" "x < 32" "z < 64"
  shows "utf8_step (0xC0 + x) ((0x80 + z) # bs) = (x * 64 + z, 1)"
  using assms by (simp add: utf8_step_def cont_byte_def)

lemma utf8_step3:
  assumes "x < 16" "y < 64" "z < 64" "x = 0 \<Longrightarrow> 32 \<le> y" "x = 13 \<Longrightarrow> y < 32"
  shows "utf8_step (0xE0 + x) ((0x80 + y) # (0x80 + z) # bs) = (x * 4096 + y * 64 + z, 2)"
proof -
  consider "x = 0" | "x = 13" | "x \<noteq> 0" "x \<noteq> 13" by blast
  then have "second_ok (0xE0 + x) (0x80 + y)"
    by cases (use assms in \<open>simp_all add: second_ok_def cont_byte_def\<close>)
  with assms(1-3) show ?thesis by (simp add: utf8_step_def cont_byte_def)
qed

lemma utf8_step4:
  assumes "w < 5" "x < 64" "y < 64" "z < 64" "w = 0 \<Longrightarrow> 16 \<le> x" "w = 4 \<Longrightarrow> x < 16"
  shows "utf8_step (0xF0 + w) ((0x80 + x) # (0x80 + y) # (0x80 + z) # bs)
       = (w * 262144 + x * 4096 + y * 64 + z, 3)"
proof -
  consider "w = 0" | "w = 4" | "w \<noteq> 0" "w \<noteq> 4" by blast
  then have "second_ok (0xF0 + w) (0x80 + x)"
    by cases (use assms in \<open>simp_all add: second_ok_def cont_byte_def\<close>)
  with assms(1-4) show ?thesis by (simp add: utf8_step_def cont_byte_def)
qed

text \<open>The digits of a code point in base 64.\<close>

lemma split2: "(c :: nat) = c div 64 * 64 + c mod 64"
  by simp

lemma split3: "(c :: nat) = c div 4096 * 4096 + c div 64 mod 64 * 64 + c mod 64"
proof -
  have "c div 64 = c div 4096 * 64 + c div 64 mod 64"
    using split2 [of "c div 64"] div_mult2_eq [of c 64 64] by simp
  with split2 [of c] show ?thesis by linarith
qed

lemma split4:
  "(c :: nat) = c div 262144 * 262144 + c div 4096 mod 64 * 4096 + c div 64 mod 64 * 64 + c mod 64"
proof -
  have "c div 4096 = c div 262144 * 64 + c div 4096 mod 64"
    using split2 [of "c div 4096"] div_mult2_eq [of c 4096 64] by simp
  with split3 [of c] show ?thesis by linarith
qed

lemma mod_64_less: "(c :: nat) mod 64 < 64"
  by simp

lemma decode_two:
  assumes "0x80 \<le> c" "c < 0x800"
  shows "utf8_step (0xC0 + c div 64) ((0x80 + c mod 64) # bs) = (c, 1)"
proof -
  have "2 \<le> c div 64" "c div 64 < 32"
    using assms split2 [of c] mod_64_less [of c] by linarith+
  from utf8_step2 [OF this mod_64_less] show ?thesis using split2 [of c] by metis
qed

lemma decode_three:
  assumes "0x800 \<le> c" "c < 0x10000" "scalar c"
  shows "utf8_step (0xE0 + c div 4096) ((0x80 + c div 64 mod 64) # (0x80 + c mod 64) # bs) = (c, 2)"
proof -
  note digits = split3 [of c] mod_64_less [of c] mod_64_less [of "c div 64"]
  have 1: "c div 4096 < 16" using assms(2) digits by linarith
  have 2: "32 \<le> c div 64 mod 64" if "c div 4096 = 0" using assms(1) that digits by linarith
  have 3: "c div 64 mod 64 < 32" if "c div 4096 = 13"
  proof (rule ccontr)
    assume "\<not> c div 64 mod 64 < 32"
    with that digits have "0xD800 \<le> c" "c \<le> 0xDFFF" by linarith+
    with assms(3) show False by (simp add: scalar_def)
  qed
  from utf8_step3 [OF 1 mod_64_less mod_64_less 2 3] show ?thesis using split3 [of c] by metis
qed

lemma decode_four:
  assumes "0x10000 \<le> c" "c < 0x110000"
  shows "utf8_step (0xF0 + c div 262144)
     ((0x80 + c div 4096 mod 64) # (0x80 + c div 64 mod 64) # (0x80 + c mod 64) # bs) = (c, 3)"
proof -
  note digits = split4 [of c] mod_64_less [of c] mod_64_less [of "c div 64"] mod_64_less [of "c div 4096"]
  have 1: "c div 262144 < 5" using assms(2) digits by linarith
  have 2: "16 \<le> c div 4096 mod 64" if "c div 262144 = 0" using assms(1) that digits by linarith
  have 3: "c div 4096 mod 64 < 16" if "c div 262144 = 4" using assms(2) that digits by linarith
  from utf8_step4 [OF 1 mod_64_less mod_64_less mod_64_less 2 3] show ?thesis
    using split4 [of c] by metis
qed

lemma utf8_decode_cp:
  assumes "scalar c"
  shows "utf8_decode (utf8_encode_cp c @ bs) = c # utf8_decode bs"
proof -
  consider "c < 0x80" | "0x80 \<le> c" "c < 0x800" | "0x800 \<le> c" "c < 0x10000"
    | "0x10000 \<le> c" "c < 0x110000"
    using assms by (fastforce simp: scalar_def)
  then show ?thesis
  proof cases
    case 1
    then show ?thesis by (simp add: utf8_encode_cp_def utf8_step_def)
  next
    case 2
    then show ?thesis by (simp add: utf8_encode_cp_def decode_two)
  next
    case 3
    then show ?thesis by (simp add: utf8_encode_cp_def decode_three assms)
  next
    case 4
    then show ?thesis by (simp add: utf8_encode_cp_def decode_four)
  qed
qed

lemma utf8_round_trip: "utf8_encode t = Inr bs \<Longrightarrow> utf8_decode bs = t"
proof (induction t arbitrary: bs)
  case Nil
  then show ?case by (simp add: utf8_encode_def)
next
  case (Cons c t)
  from Cons.prems have c: "scalar c" and bs: "bs = utf8_encode_cp c @ concat (map utf8_encode_cp t)"
    and t: "utf8_encode t = Inr (concat (map utf8_encode_cp t))"
    by (auto simp: utf8_encode_def split: if_splits)
  show ?case unfolding bs by (simp add: utf8_decode_cp c Cons.IH [OF t])
qed

lemma utf8_encode_append:
  "utf8_encode (s @ t) = Inr bs \<longleftrightarrow>
     (\<exists>b1 b2. utf8_encode s = Inr b1 \<and> utf8_encode t = Inr b2 \<and> bs = b1 @ b2)"
  by (auto simp: utf8_encode_def)

section \<open>Base64\<close>

definition b64_char :: "nat \<Rightarrow> char" where
  "b64_char n =
     (if n < 26 then char_of (65 + n) else if n < 52 then char_of (71 + n)
      else if n < 62 then char_of (n - 4) else if n = 62 then CHR ''+'' else CHR ''/'')"

definition b64_val :: "char \<Rightarrow> nat" where
  "b64_val ch = (let n = of_char ch in
     if 65 \<le> n \<and> n \<le> 90 then n - 65 else if 97 \<le> n \<and> n \<le> 122 then n - 71
     else if 48 \<le> n \<and> n \<le> 57 then n + 4 else if n = 43 then 62 else 63)"

fun b64_encode :: "bytes \<Rightarrow> string" where
  "b64_encode [] = []"
| "b64_encode [a] = [b64_char (a div 4), b64_char ((a mod 4) * 16), CHR ''='', CHR ''='']"
| "b64_encode [a, b] =
     [b64_char (a div 4), b64_char ((a mod 4) * 16 + b div 16), b64_char ((b mod 16) * 4), CHR ''='']"
| "b64_encode (a # b # c # bs) =
     b64_char (a div 4) # b64_char ((a mod 4) * 16 + b div 16)
       # b64_char ((b mod 16) * 4 + c div 64) # b64_char (c mod 64) # b64_encode bs"

fun b64_decode :: "string \<Rightarrow> bytes result" where
  "b64_decode [] = Inr []"
| "b64_decode (p # q # r # s # rest) =
     (let v = b64_val p * 4 + b64_val q div 16; w = (b64_val q mod 16) * 16 + b64_val r div 4;
          x = (b64_val r mod 4) * 64 + b64_val s
      in if r = CHR ''='' then Inr [v]
         else if s = CHR ''='' then Inr [v, w]
         else rmap (\<lambda>bs. v # w # x # bs) (b64_decode rest))"
| "b64_decode _ = Inl (ValueError ''Incorrect padding'')"

lemma b64_val_char:
  assumes "n < 64"
  shows "b64_val (b64_char n) = n" and "b64_char n \<noteq> CHR ''=''"
proof -
  have of_char_eq: "of_char (char_of m :: char) = m" if "m < 256" for m :: nat
    using that by (simp add: of_char_of)
  have not_eq: "(char_of m :: char) \<noteq> CHR ''=''" if "m < 256" "m \<noteq> 61" for m :: nat
  proof
    assume "(char_of m :: char) = CHR ''=''"
    then have "of_char (char_of m :: char) = (of_char (CHR ''='') :: nat)" by simp
    with that of_char_eq show False by simp
  qed
  consider "n < 26" | "26 \<le> n" "n < 52" | "52 \<le> n" "n < 62" | "n = 62" | "n = 63"
    using assms by linarith
  then have "b64_val (b64_char n) = n \<and> b64_char n \<noteq> CHR ''=''"
    by cases (auto simp: b64_val_def b64_char_def of_char_eq not_eq Let_def)
  then show "b64_val (b64_char n) = n" "b64_char n \<noteq> CHR ''=''" by simp_all
qed

lemma sextets:
  fixes a b c :: nat
  assumes "a < 256" "b < 256" "c < 256"
  shows "a div 4 < 64" "a mod 4 * 16 < 64" "a mod 4 * 16 + b div 16 < 64" "b mod 16 * 4 < 64"
    "b mod 16 * 4 + c div 64 < 64" "c mod 64 < 64"
proof -
  have "a div 4 < 64" "b div 16 < 16" "c div 64 < 4" "a mod 4 < 4" "b mod 16 < 16" "c mod 64 < 64"
    using assms by (simp_all add: less_mult_imp_div_less)
  then show "a div 4 < 64" "a mod 4 * 16 < 64" "a mod 4 * 16 + b div 16 < 64" "b mod 16 * 4 < 64"
    "b mod 16 * 4 + c div 64 < 64" "c mod 64 < 64"
    by linarith+
qed

lemma joined_sextets:
  fixes a b c :: nat
  assumes "b < 256" "c < 256"
  shows "a div 4 * 4 + (a mod 4 * 16) div 16 = a"
    "a div 4 * 4 + (a mod 4 * 16 + b div 16) div 16 = a"
    "(a mod 4 * 16 + b div 16) mod 16 * 16 + (b mod 16 * 4) div 4 = b"
    "(a mod 4 * 16 + b div 16) mod 16 * 16 + (b mod 16 * 4 + c div 64) div 4 = b"
    "(b mod 16 * 4 + c div 64) mod 4 * 64 + c mod 64 = c"
proof -
  have "b div 16 < 16" "c div 64 < 4"
    using assms by (simp_all add: less_mult_imp_div_less)
  then show "a div 4 * 4 + (a mod 4 * 16) div 16 = a"
    "a div 4 * 4 + (a mod 4 * 16 + b div 16) div 16 = a"
    "(a mod 4 * 16 + b div 16) mod 16 * 16 + (b mod 16 * 4) div 4 = b"
    "(a mod 4 * 16 + b div 16) mod 16 * 16 + (b mod 16 * 4 + c div 64) div 4 = b"
    "(b mod 16 * 4 + c div 64) mod 4 * 64 + c mod 64 = c"
    by simp_all
qed

lemma b64_round_trip: "\<forall>b \<in> set bs. b < 256 \<Longrightarrow> b64_decode (b64_encode bs) = Inr bs"
proof (induction bs rule: b64_encode.induct)
  case 1
  then show ?case by simp
next
  case (2 a)
  then have "a < 256" by simp
  then show ?case
    using sextets [where a = a and b = 0 and c = 0] joined_sextets(1-4) [of 0 0 a] joined_sextets(5) [of 0 0] by (simp add: b64_val_char Let_def)
next
  case (3 a b)
  then have "a < 256" "b < 256" by simp_all
  then show ?case
    using sextets [where a = a and b = b and c = 0] joined_sextets(1-4) [of b 0 a] joined_sextets(5) [of b 0] by (simp add: b64_val_char Let_def)
next
  case (4 a b c bs)
  then have abc: "a < 256" "b < 256" "c < 256" and "b64_decode (b64_encode bs) = Inr bs" by simp_all
  then show ?case
    using sextets [OF abc] joined_sextets(1-4) [of b c a] joined_sextets(5) [of b c] by (simp add: b64_val_char Let_def)
qed

end
