(* ===== verification/CharTokenizer.thy ===== *)
theory CharTokenizer
  imports Utf8
begin

text \<open>
  \<open>v0_char.py\<close>: one token per character. The two dictionaries of a \<open>CharTokenizer\<close> are \<open>char_tok\<close>;
  id 0 is reserved for the unknown token, the corpus characters get \<open>1, 2, ...\<close> in code-point order.
\<close>

record char_tok =
  char_to_id :: "(utext, int) pydict"
  id_to_char :: "(int, utext) pydict"
  char_trained :: bool

definition unk_token :: utext where
  "unk_token = [60, 85, 78, 75, 62]"

definition unk_id :: int where
  "unk_id = 0"

definition new_char_tok :: char_tok where
  "new_char_tok = \<lparr>char_to_id = [], id_to_char = [], char_trained = False\<rparr>"

definition assign_ids :: "nat \<Rightarrow> utext \<Rightarrow> char_tok \<Rightarrow> char_tok" where
  "assign_ids start chars t =
     fold (\<lambda>(idx, ch) t. t\<lparr>char_to_id := dset (char_to_id t) [ch] (int idx),
                              id_to_char := dset (id_to_char t) (int idx) [ch]\<rparr>)
       (enumerate start chars) t"

definition char_train :: "utext \<Rightarrow> char_tok \<Rightarrow> char_tok" where
  "char_train txt t =
     (let unique_chars = sort (remdups txt);
          t1 = t\<lparr>char_to_id := [(unk_token, unk_id)], id_to_char := [(unk_id, unk_token)]\<rparr>;
          t2 = assign_ids 1 unique_chars t1
      in t2\<lparr>char_trained := True\<rparr>)"

definition char_encode :: "char_tok \<Rightarrow> utext \<Rightarrow> int list result" where
  "char_encode t txt =
     (if \<not> char_trained t then Inl (RuntimeError ''Call train() before encode()'')
      else Inr (map (\<lambda>ch. dget_or (char_to_id t) [ch] unk_id) txt))"

definition char_decode :: "char_tok \<Rightarrow> int list \<Rightarrow> utext result" where
  "char_decode t tokens =
     (if \<not> char_trained t then Inl (RuntimeError ''Call train() before decode()'')
      else Inr (concat (fold (\<lambda>i parts.
                  case dget (id_to_char t) i of
                    None \<Rightarrow> parts
                  | Some ch \<Rightarrow> if ch \<noteq> unk_token then parts @ [ch] else parts) tokens [])))"

definition char_vocab_size :: "char_tok \<Rightarrow> nat" where
  "char_vocab_size t = length (char_to_id t)"

section \<open>The two dictionaries after training\<close>

lemma char_train_fold:
  assumes "distinct cs" and "0 < n"
  shows "dget (char_to_id (assign_ids n cs t)) [ch] =
      (if ch \<in> set cs then map_of (zip cs (map int [n..<n + length cs])) ch else dget (char_to_id t) [ch])"
    and "dget (id_to_char (assign_ids n cs t)) i =
      (if int n \<le> i \<and> i < int n + int (length cs) then Some [cs ! (nat i - n)] else dget (id_to_char t) i)"
  using assms
proof (induction cs arbitrary: n t)
  case Nil
  { case 1 show ?case by (simp add: assign_ids_def) }
  { case 2 show ?case by (auto simp: assign_ids_def) }
next
  case (Cons c cs)
  have step: "assign_ids n (c # cs) t = assign_ids (Suc n) cs
      (t\<lparr>char_to_id := dset (char_to_id t) [c] (int n), id_to_char := dset (id_to_char t) (int n) [c]\<rparr>)"
    for n t by (simp add: assign_ids_def)
  { case (1 n t)
    then have "distinct cs" "0 < Suc n" "c \<notin> set cs" by simp_all
    moreover have "[n..<n + length (c # cs)] = n # [Suc n..<Suc n + length cs]"
      by (simp add: upt_rec del: upt_Suc)
    ultimately show ?case
      unfolding step using Cons.IH(1) [of "Suc n"] by (auto simp del: upt_Suc) }
  { case (2 n t)
    then have d: "distinct cs" "0 < Suc n" by simp_all
    have "nat i - n = Suc (nat i - Suc n)" if "int (Suc n) \<le> i" using that by linarith
    then show ?case unfolding step using Cons.IH(2) [OF d] by auto }
qed

lemma map_of_zip_nth:
  assumes "distinct cs" "i < length cs" "length ys = length cs"
  shows "map_of (zip cs ys) (cs ! i) = Some (ys ! i)"
  using assms by (simp add: map_of_zip_nth)

lemma char_train_lookup:
  assumes "cs = sort (remdups txt)"
  shows "i < length cs \<Longrightarrow> dget (char_to_id (char_train txt t)) [cs ! i] = Some (int i + 1)"
    and "ch \<notin> set txt \<Longrightarrow> dget (char_to_id (char_train txt t)) [ch] = None"
    and "dget (id_to_char (char_train txt t)) k =
      (if k = 0 then Some unk_token
       else if 1 \<le> k \<and> k < 1 + int (length cs) then Some [cs ! (nat k - 1)] else None)"
    and "char_trained (char_train txt t)"
proof -
  have d: "distinct cs" by (simp add: assms)
  note f = char_train_fold [OF d zero_less_one, of "t\<lparr>char_to_id := [(unk_token, unk_id)], id_to_char := [(unk_id, unk_token)]\<rparr>"]
  show "dget (char_to_id (char_train txt t)) [cs ! i] = Some (int i + 1)" if i: "i < length cs"
  proof -
    have "map_of (zip cs (map int [1..<1 + length cs])) (cs ! i) = Some (int i + 1)"
      using map_of_zip_nth [OF d i, of "map int [1..<1 + length cs]"] i by (simp del: upt_Suc)
    moreover have "cs ! i \<in> set cs" using i by simp
    ultimately show ?thesis using f(1) by (simp add: char_train_def Let_def flip: assms)
  qed
  show "dget (char_to_id (char_train txt t)) [ch] = None" if "ch \<notin> set txt"
  proof -
    have "ch \<notin> set cs" using that by (simp add: assms)
    then show ?thesis using f(1) by (simp add: char_train_def Let_def unk_token_def flip: assms)
  qed
  show "dget (id_to_char (char_train txt t)) k =
      (if k = 0 then Some unk_token
       else if 1 \<le> k \<and> k < 1 + int (length cs) then Some [cs ! (nat k - 1)] else None)"
    using f(2) by (auto simp: char_train_def Let_def unk_id_def simp flip: assms)
  show "char_trained (char_train txt t)" by (simp add: char_train_def Let_def)
qed

lemma char_decode_fold:
  "fold (\<lambda>i parts. case g i of None \<Rightarrow> parts | Some ch \<Rightarrow> if ch \<noteq> u then parts @ [ch] else parts) is parts
   = parts @ concat (map (\<lambda>i. case g i of None \<Rightarrow> [] | Some ch \<Rightarrow> if ch \<noteq> u then [ch] else []) is)"
  by (induction "is" arbitrary: parts) (auto split: option.splits)

text \<open>Decoding gives back the text without the characters the corpus lacks.\<close>

lemma char_round_trip:
  shows "char_encode (char_train txt t) s = Inr ids \<Longrightarrow>
     length ids = length s \<and> char_decode (char_train txt t) ids = Inr (filter (\<lambda>c. c \<in> set txt) s)"
proof -
  define cs where "cs = sort (remdups txt)"
  note look = char_train_lookup [OF cs_def, where t = t]
  have set_cs: "set cs = set txt" by (simp add: cs_def)
  let ?t = "char_train txt t"
  let ?e = "\<lambda>ch. dget_or (char_to_id ?t) [ch] unk_id"
  let ?d = "\<lambda>i. case dget (id_to_char ?t) i of None \<Rightarrow> [] | Some ch \<Rightarrow> if ch \<noteq> unk_token then [ch] else []"
  have one: "?d (?e ch) = (if ch \<in> set txt then [[ch]] else [])" for ch
  proof (cases "ch \<in> set txt")
    case True
    then have "ch \<in> set cs" using set_cs by simp
    then obtain i where i: "i < length cs" "cs ! i = ch" by (auto simp: in_set_conv_nth)
    then have "?e ch = int i + 1" using look(1) [of i] by (simp add: dget_or_def)
    moreover have "nat (int i + 1) - 1 = i" by simp
    ultimately show ?thesis using True i by (simp add: look(3) unk_token_def)
  next
    case False
    then have "?e ch = 0" using look(2) by (simp add: dget_or_def unk_id_def)
    then show ?thesis using False by (simp add: look(3))
  qed
  have "concat (concat (map (\<lambda>ch. ?d (?e ch)) s)) = filter (\<lambda>c. c \<in> set txt) s"
    unfolding one by (induction s) auto
  then show "char_encode ?t s = Inr ids \<Longrightarrow>
     length ids = length s \<and> char_decode ?t ids = Inr (filter (\<lambda>c. c \<in> set txt) s)"
    by (auto simp: char_encode_def char_decode_def look(4) char_decode_fold comp_def)
qed

end
