(* ===== verification/Bpe.thy ===== *)
theory Bpe
  imports Utf8 PyValue
begin

text \<open>
  \<open>v1_bpe.py\<close>: byte-pair encoding. \<open>bpe\<close> is the state of a \<open>BPETokenizer\<close>; \<open>bpe_train\<close>,
  \<open>bpe_encode\<close>, \<open>bpe_decode\<close> are its methods, \<open>count_pairs\<close> and \<open>apply_merge\<close> the two module
  functions (the latter with the source's index loop). Token ids are Python integers.

  \<open>merges_ok\<close> is the invariant training keeps: ids \<open>0..255\<close> stand for their byte and the \<open>k\<close>-th
  merge introduces the id \<open>256 + k\<close> for the concatenation of two earlier tokens. The locale
  \<open>byte_tokenizer\<close> states what a client of a byte-level tokenizer relies on; it is interpreted on
  this tokenizer here and on the GPT-2 one in \<open>Gpt2Bpe\<close>.
\<close>

type_synonym token_pair = "int \<times> int"
type_synonym merge_rule = "token_pair \<times> int"

record bpe =
  merges :: "merge_rule list"
  vocab :: "(int, bytes) pydict"
  merge_index :: "(token_pair, int) pydict"
  trained :: bool

definition new_bpe :: bpe where
  "new_bpe = \<lparr>merges = [], vocab = [], merge_index = [], trained = False\<rparr>"

section \<open>Counting and merging pairs\<close>

definition count_pairs :: "int list \<Rightarrow> (token_pair, nat) pydict \<Rightarrow> (token_pair, nat) pydict" where
  "count_pairs ids counts =
     fold (\<lambda>i counts. let p = (ids ! i, ids ! (i + 1)) in dset counts p (dget_or counts p 0 + 1))
       [0..<length ids - 1] counts"

text \<open>Python's order on \<open>(count, (a, b))\<close> tuples.\<close>

definition key_less :: "nat \<times> token_pair \<Rightarrow> nat \<times> token_pair \<Rightarrow> bool" where
  "key_less x y \<longleftrightarrow>
     fst x < fst y \<or> fst x = fst y \<and>
       (fst (snd x) < fst (snd y) \<or> fst (snd x) = fst (snd y) \<and> snd (snd x) < snd (snd y))"

text \<open>\<open>max(pair_counts, key=...)\<close>: the first maximal element in the dictionary's order.\<close>

fun max_pair :: "(token_pair, nat) pydict \<Rightarrow> token_pair \<times> nat \<Rightarrow> token_pair \<times> nat" where
  "max_pair [] best = best"
| "max_pair ((p, c) # rest) best =
     max_pair rest (if key_less (snd best, fst best) (c, p) then (p, c) else best)"

definition best_pair :: "(token_pair, nat) pydict \<Rightarrow> (token_pair \<times> nat) option" where
  "best_pair counts = (case counts of [] \<Rightarrow> None | pc # rest \<Rightarrow> Some (max_pair rest pc))"

function apply_merge_loop :: "int list \<Rightarrow> token_pair \<Rightarrow> int \<Rightarrow> nat \<Rightarrow> int list \<Rightarrow> int list" where
  "apply_merge_loop ids pr new_id i out =
     (if i < length ids
      then (if i < length ids - 1 \<and> ids ! i = fst pr \<and> ids ! (i + 1) = snd pr
            then apply_merge_loop ids pr new_id (i + 2) (out @ [new_id])
            else apply_merge_loop ids pr new_id (i + 1) (out @ [ids ! i]))
      else out)"
  by pat_completeness auto
termination by (relation "measure (\<lambda>(ids, pr, n, i, out). length ids - i)") auto

declare apply_merge_loop.simps [simp del]

definition apply_merge :: "int list \<Rightarrow> token_pair \<Rightarrow> int \<Rightarrow> int list" where
  "apply_merge ids pr new_id = apply_merge_loop ids pr new_id 0 []"

section \<open>Training, encoding, decoding\<close>

definition byte_vocab :: "(int, bytes) pydict" where
  "byte_vocab = map (\<lambda>i. (int i, [i])) [0..<256]"

definition add_merge :: "token_pair \<Rightarrow> int \<Rightarrow> bpe \<Rightarrow> bpe result" where
  "add_merge pr new_id t =
     (case dget (vocab t) (fst pr) of
        None \<Rightarrow> Inl (KeyError ''vocab'')
      | Some va \<Rightarrow>
          (case dget (vocab t) (snd pr) of
             None \<Rightarrow> Inl (KeyError ''vocab'')
           | Some vb \<Rightarrow>
               Inr (t\<lparr>merges := merges t @ [(pr, new_id)],
                      merge_index := dset (merge_index t) pr new_id,
                      vocab := dset (vocab t) new_id (va @ vb)\<rparr>)))"

fun bpe_train_loop :: "nat \<Rightarrow> nat \<Rightarrow> bpe \<Rightarrow> int list \<Rightarrow> bpe result" where
  "bpe_train_loop 0 merge_step t ids = Inr t"
| "bpe_train_loop (Suc n) merge_step t ids =
     (case best_pair (count_pairs ids []) of
        None \<Rightarrow> Inr t
      | Some (pr, best_count) \<Rightarrow>
          if best_count < 2 then Inr t
          else rbind (add_merge pr (256 + int merge_step) t) (\<lambda>t'.
                 bpe_train_loop n (merge_step + 1) t'
                   (apply_merge ids pr (256 + int merge_step))))"

definition bpe_train :: "utext \<Rightarrow> int \<Rightarrow> bpe \<Rightarrow> bpe result" where
  "bpe_train txt vocab_size t =
     (if vocab_size \<le> 256
      then Inl (ValueError (''vocab_size must be > 256, got '' @ int_str vocab_size))
      else rbind (utf8_encode txt) (\<lambda>bs.
             rmap (\<lambda>t'. t'\<lparr>trained := True\<rparr>)
               (bpe_train_loop (nat (vocab_size - 256)) 0
                  (t\<lparr>vocab := byte_vocab, merges := [], merge_index := []\<rparr>) (map int bs))))"

definition apply_merges :: "merge_rule list \<Rightarrow> int list \<Rightarrow> int list" where
  "apply_merges ms ids = fold (\<lambda>(pr, new_id) ids. apply_merge ids pr new_id) ms ids"

definition bpe_encode :: "bpe \<Rightarrow> utext \<Rightarrow> int list result" where
  "bpe_encode t txt =
     (if \<not> trained t then Inl (RuntimeError ''Call train() before encode()'')
      else rmap (\<lambda>bs. apply_merges (merges t) (map int bs)) (utf8_encode txt))"

definition token_to_bytes :: "bpe \<Rightarrow> int \<Rightarrow> bytes" where
  "token_to_bytes t token_id = dget_or (vocab t) token_id []"

definition bpe_decode :: "bpe \<Rightarrow> int list \<Rightarrow> utext result" where
  "bpe_decode t tokens =
     (if \<not> trained t then Inl (RuntimeError ''Call train() before decode()'')
      else Inr (utf8_decode (concat (map (token_to_bytes t) tokens))))"

definition token_to_str :: "bpe \<Rightarrow> int \<Rightarrow> utext" where
  "token_to_str t token_id = utf8_decode (token_to_bytes t token_id)"

definition bpe_vocab_size :: "bpe \<Rightarrow> nat" where
  "bpe_vocab_size t = length (vocab t)"

section \<open>Merging one pair\<close>

text \<open>The index loop computes the structural recursion on the list.\<close>

fun merge_pairs :: "token_pair \<Rightarrow> int \<Rightarrow> int list \<Rightarrow> int list" where
  "merge_pairs pr n (x # y # zs) =
     (if x = fst pr \<and> y = snd pr then n # merge_pairs pr n zs else x # merge_pairs pr n (y # zs))"
| "merge_pairs pr n zs = zs"

lemma apply_merge_loop_eq: "apply_merge_loop ids pr n i out = out @ merge_pairs pr n (drop i ids)"
proof (induction ids pr n i out rule: apply_merge_loop.induct)
  case (1 ids pr n i out)
  consider "length ids \<le> i" | "i + 1 = length ids" | "i + 1 < length ids" by linarith
  then show ?case
  proof cases
    case a: 1
    then show ?thesis by (simp add: apply_merge_loop.simps)
  next
    case 2
    then have "drop i ids = [ids ! i]"
      by (metis Cons_nth_drop_Suc Suc_eq_plus1 drop_all lessI order_refl)
    moreover have "i < length ids" "\<not> i < length ids - 1" "drop (i + 1) ids = []" using 2 by simp_all
    ultimately show ?thesis using "1.IH"(2) by (subst apply_merge_loop.simps) simp
  next
    case 3
    then have "drop i ids = ids ! i # ids ! (i + 1) # drop (i + 2) ids"
      and "drop (i + 1) ids = ids ! (i + 1) # drop (i + 2) ids"
      by (simp_all add: Cons_nth_drop_Suc)
    moreover have "i < length ids" "i < length ids - 1" using 3 by simp_all
    ultimately show ?thesis using "1.IH" by (subst apply_merge_loop.simps) simp
  qed
qed

lemma apply_merge_eq: "apply_merge ids pr n = merge_pairs pr n ids"
  by (simp add: apply_merge_def apply_merge_loop_eq)

text \<open>What a token list stands for, given the bytes of each token.\<close>

definition expand :: "(int \<Rightarrow> 'b list) \<Rightarrow> int list \<Rightarrow> 'b list" where
  "expand v ids = concat (map v ids)"

lemma expand_simps [simp]:
  "expand v [] = []" "expand v (x # xs) = v x @ expand v xs" "expand v (xs @ ys) = expand v xs @ expand v ys"
  by (simp_all add: expand_def)

lemma expand_merge_pairs:
  "v n = v (fst pr) @ v (snd pr) \<Longrightarrow> expand v (merge_pairs pr n ids) = expand v ids"
  by (induction pr n ids rule: merge_pairs.induct) auto

lemma set_merge_pairs: "set (merge_pairs pr n ids) \<subseteq> insert n (set ids)"
  by (induction pr n ids rule: merge_pairs.induct) auto

lemma length_merge_pairs: "length (merge_pairs pr n ids) \<le> length ids"
  by (induction pr n ids rule: merge_pairs.induct) auto

fun adjacent :: "token_pair \<Rightarrow> int list \<Rightarrow> bool" where
  "adjacent pr (x # y # zs) \<longleftrightarrow> (x = fst pr \<and> y = snd pr) \<or> adjacent pr (y # zs)"
| "adjacent pr zs \<longleftrightarrow> False"

lemma length_merge_pairs_less:
  "adjacent pr ids \<Longrightarrow> length (merge_pairs pr n ids) < length ids"
proof (induction pr n ids rule: merge_pairs.induct)
  case (1 pr n x y zs)
  show ?case
  proof (cases "x = fst pr \<and> y = snd pr")
    case True
    then show ?thesis using length_merge_pairs [of pr n zs] by simp
  next
    case False
    then have "adjacent pr (y # zs)" using "1.prems" by auto
    from "1.IH"(2) [OF False this] show ?thesis using False by auto
  qed
qed simp_all

lemma adjacent_Cons: "adjacent pr (x # ys) \<longleftrightarrow> (ys \<noteq> [] \<and> x = fst pr \<and> hd ys = snd pr) \<or> adjacent pr ys"
  by (cases ys) auto

lemma adjacent_nth: "adjacent pr ids \<longleftrightarrow> (\<exists>i. i + 1 < length ids \<and> (ids ! i, ids ! (i + 1)) = pr)"
proof (induction ids)
  case Nil
  then show ?case by simp
next
  case (Cons x ys)
  show ?case (is "_ \<longleftrightarrow> ?R")
  proof
    assume "adjacent pr (x # ys)"
    then consider "ys \<noteq> []" "x = fst pr" "hd ys = snd pr" | "adjacent pr ys"
      by (auto simp: adjacent_Cons)
    then show ?R
    proof cases
      case 1
      then show ?thesis by (intro exI [of _ 0]) (auto simp: hd_conv_nth)
    next
      case 2
      then obtain i where "i + 1 < length ys" "(ys ! i, ys ! (i + 1)) = pr" using Cons.IH by blast
      then show ?thesis by (intro exI [of _ "Suc i"]) auto
    qed
  next
    assume ?R
    then obtain i where i: "i + 1 < length (x # ys)" "((x # ys) ! i, (x # ys) ! (i + 1)) = pr" by blast
    show "adjacent pr (x # ys)"
    proof (cases i)
      case 0
      with i show ?thesis by (auto simp: adjacent_Cons hd_conv_nth)
    next
      case (Suc j)
      with i have "adjacent pr ys" using Cons.IH by auto
      then show ?thesis by (simp add: adjacent_Cons)
    qed
  qed
qed

lemma hd_merge_pairs: "ids \<noteq> [] \<Longrightarrow> hd (merge_pairs pr n ids) \<in> {n, hd ids} \<and> merge_pairs pr n ids \<noteq> []"
  by (induction pr n ids rule: merge_pairs.induct) auto

text \<open>One pass leaves no occurrence of the pair, unless the new id is part of it.\<close>

lemma merge_pairs_complete:
  "n \<noteq> fst pr \<Longrightarrow> n \<noteq> snd pr \<Longrightarrow> \<not> adjacent pr (merge_pairs pr n ids)"
proof (induction pr n ids rule: merge_pairs.induct)
  case (1 pr n x y zs)
  show ?case
  proof (cases "x = fst pr \<and> y = snd pr")
    case True
    with 1 show ?thesis by (auto simp: adjacent_Cons)
  next
    case False
    with 1 have "\<not> adjacent pr (merge_pairs pr n (y # zs))" by blast
    with False 1 show ?thesis
      using hd_merge_pairs [of "y # zs" pr n] by (auto simp: adjacent_Cons)
  qed
qed simp_all

section \<open>Counting pairs\<close>

definition pair_count :: "int list \<Rightarrow> token_pair \<Rightarrow> nat" where
  "pair_count ids p = length (filter (\<lambda>i. (ids ! i, ids ! (i + 1)) = p) [0..<length ids - 1])"

lemma count_fold:
  "dget_or (fold (\<lambda>i c. dset c (f i) (dget_or c (f i) 0 + 1)) is c) p 0
   = dget_or c p 0 + length (filter (\<lambda>i. f i = p) is)"
  by (induction "is" arbitrary: c) (auto simp: dget_or_def)

lemma count_pairs_count: "dget_or (count_pairs ids c) p 0 = dget_or c p 0 + pair_count ids p"
  unfolding count_pairs_def pair_count_def Let_def by (rule count_fold)

lemma count_fold_wf: "dwf c \<Longrightarrow> dwf (fold (\<lambda>i c. dset c (f i) (g c i)) is c)"
  by (induction "is" arbitrary: c) (auto intro: dwf_dset)

lemma count_pairs_wf: "dwf c \<Longrightarrow> dwf (count_pairs ids c)"
  unfolding count_pairs_def Let_def by (rule count_fold_wf)

lemma count_fold_pos:
  "(\<forall>q. dget c q \<noteq> Some 0) \<Longrightarrow>
   dget (fold (\<lambda>i c. dset c (f i) (dget_or c (f i) 0 + 1)) is c) p \<noteq> Some (0::nat)"
  by (induction "is" arbitrary: c) auto

lemma count_pairs_pos: "(\<forall>q. dget c q \<noteq> Some 0) \<Longrightarrow> dget (count_pairs ids c) p \<noteq> Some 0"
  unfolding count_pairs_def Let_def by (rule count_fold_pos)

lemma dget_count_pairs: "dget (count_pairs ids []) p = Some c \<Longrightarrow> c = pair_count ids p \<and> 0 < c"
  using count_pairs_count [of ids "[]" p] count_pairs_pos [of "[]" ids p] by (auto simp: dget_or_def)

lemma pair_count_adjacent: "0 < pair_count ids p \<Longrightarrow> adjacent p ids"
proof -
  assume "0 < pair_count ids p"
  then have "filter (\<lambda>i. (ids ! i, ids ! (i + 1)) = p) [0..<length ids - 1] \<noteq> []"
    by (simp add: pair_count_def)
  then obtain i where "i < length ids - 1" "(ids ! i, ids ! (i + 1)) = p"
    by (auto simp: filter_empty_conv)
  then show ?thesis unfolding adjacent_nth by (intro exI [of _ i]) simp
qed

section \<open>The pair training picks\<close>

lemma key_less_trans: "key_less x y \<Longrightarrow> key_less y z \<Longrightarrow> key_less x z"
  by (auto simp: key_less_def)

lemma key_less_total: "\<not> key_less x y \<Longrightarrow> y = x \<or> key_less y x"
  by (cases x; cases y) (auto simp: key_less_def prod_eq_iff)

lemma key_less_irrefl [simp]: "\<not> key_less x x"
  by (simp add: key_less_def)

lemma max_pair_mem: "max_pair d b = b \<or> max_pair d b \<in> set d"
  by (induction d b rule: max_pair.induct) (auto split: if_splits)

lemma max_pair_ge: "max_pair d b = b \<or> key_less (snd b, fst b) (snd (max_pair d b), fst (max_pair d b))"
proof (induction d b rule: max_pair.induct)
  case (2 p c rest b)
  then show ?case by (auto split: if_splits dest: key_less_trans)
qed simp

lemma max_pair_max:
  assumes "(p, c) \<in> set d"
  shows "\<not> key_less (snd (max_pair d b), fst (max_pair d b)) (c, p)"
  using assms
proof (induction d b rule: max_pair.induct)
  case (2 p' c' rest b)
  let ?b = "if key_less (snd b, fst b) (c', p') then (p', c') else b"
  let ?m = "max_pair rest ?b"
  show ?case
  proof (cases "(p, c) \<in> set rest")
    case True
    with 2 show ?thesis by simp
  next
    case False
    with 2 have pc: "p' = p" "c' = c" by auto
    have up: "?m = ?b \<or> key_less (snd ?b, fst ?b) (snd ?m, fst ?m)" by (rule max_pair_ge)
    have "\<not> key_less (snd ?m, fst ?m) (c, p)"
    proof
      assume low: "key_less (snd ?m, fst ?m) (c, p)"
      have "key_less (snd ?b, fst ?b) (c, p)"
        using up
      proof
        assume "?m = ?b"
        with low show ?thesis by (simp only:)
      next
        assume "key_less (snd ?b, fst ?b) (snd ?m, fst ?m)"
        then show ?thesis by (rule key_less_trans [OF _ low])
      qed
      then show False using pc by (auto split: if_splits)
    qed
    then show ?thesis by simp
  qed
qed simp

lemma best_pair_Some:
  assumes "best_pair d = Some (p, c)"
  shows "(p, c) \<in> set d" and "\<And>p' c'. (p', c') \<in> set d \<Longrightarrow> \<not> key_less (c, p) (c', p')"
proof -
  from assms obtain pc rest where d: "d = pc # rest" and m: "max_pair rest pc = (p, c)"
    by (auto simp: best_pair_def split: list.splits)
  show "(p, c) \<in> set d" using max_pair_mem [of rest pc] d m by auto
  have "max_pair d pc = (p, c)" using m d by (cases pc) auto
  then show "\<not> key_less (c, p) (c', p')" if "(p', c') \<in> set d" for p' c'
    using max_pair_max [OF that, of pc] by simp
qed

text \<open>The pair chosen occurs, and no pair is more frequent; ties go to the largest pair.\<close>

lemma best_pair_counts:
  assumes "best_pair (count_pairs ids []) = Some (p, c)"
  shows "c = pair_count ids p" and "adjacent p ids" and "pair_count ids q \<le> c"
    and "pair_count ids q = c \<Longrightarrow> q \<noteq> p \<Longrightarrow> fst q < fst p \<or> fst q = fst p \<and> snd q < snd p"
proof -
  let ?d = "count_pairs ids []"
  have wf: "dwf ?d" by (rule count_pairs_wf) simp
  note b = best_pair_Some [OF assms]
  have "dget ?d p = Some c" using b(1) by (simp add: dwf_dget_iff [OF wf])
  from dget_count_pairs [OF this] show c: "c = pair_count ids p" and "adjacent p ids"
    by (auto intro: pair_count_adjacent)
  have pos: "0 < c" using dget_count_pairs [OF \<open>dget ?d p = Some c\<close>] by simp
  have q: "\<not> key_less (c, p) (pair_count ids q, q)" if "0 < pair_count ids q"
  proof -
    have "dget_or ?d q 0 = pair_count ids q"
      using count_pairs_count [of ids "[]" q] by (simp add: dget_or_def [of "[]"])
    with that have "dget_or ?d q 0 \<noteq> 0" by simp
    then obtain c' where c': "dget ?d q = Some c'" by (auto simp: dget_or_def split: option.splits)
    then have "c' = pair_count ids q" using dget_count_pairs by blast
    with c' b(2) show ?thesis by (simp add: dwf_dget_iff [OF wf])
  qed
  show "pair_count ids q \<le> c" using q by (cases "pair_count ids q = 0") (auto simp: key_less_def)
  show "fst q < fst p \<or> fst q = fst p \<and> snd q < snd p" if "pair_count ids q = c" "q \<noteq> p"
  proof -
    from that pos q have "\<not> key_less (c, p) (c, q)" by simp
    with that(2) show ?thesis by (cases p; cases q) (auto simp: key_less_def)
  qed
qed

section \<open>What training keeps\<close>

text \<open>Rule \<open>k\<close> of the merge list introduces the id \<open>256 + k\<close> for two older tokens.\<close>

definition rule_ok :: "(int, bytes) pydict \<Rightarrow> nat \<Rightarrow> merge_rule \<Rightarrow> bool" where
  "rule_ok v k r \<longleftrightarrow>
     snd r = 256 + int k \<and> fst (fst r) < 256 + int k \<and> snd (fst r) < 256 + int k \<and>
     (\<exists>va vb. dget v (fst (fst r)) = Some va \<and> dget v (snd (fst r)) = Some vb \<and>
              dget v (256 + int k) = Some (va @ vb))"

definition merges_ok :: "merge_rule list \<Rightarrow> (int, bytes) pydict \<Rightarrow> bool" where
  "merges_ok ms v \<longleftrightarrow>
     dkeys v = map int [0..<256 + length ms] \<and>
     (\<forall>i < 256. dget v (int i) = Some [i]) \<and>
     (\<forall>k bs. dget v k = Some bs \<longrightarrow> bs \<noteq> [] \<and> (\<forall>b \<in> set bs. b < 256)) \<and>
     (\<forall>k < length ms. rule_ok v k (ms ! k))"

definition index_of_merges :: "merge_rule list \<Rightarrow> (token_pair, int) pydict" where
  "index_of_merges ms = fold (\<lambda>(p, n) d. dset d p n) ms []"

definition bpe_ok :: "bpe \<Rightarrow> bool" where
  "bpe_ok t \<longleftrightarrow> merges_ok (merges t) (vocab t) \<and> merge_index t = index_of_merges (merges t)"

lemma dget_byte_vocab: "dget byte_vocab k = (if 0 \<le> k \<and> k < 256 then Some [nat k] else None)"
proof -
  have "dget (map (\<lambda>i. (int i, [i])) ns) k = (if 0 \<le> k \<and> nat k \<in> set ns then Some [nat k] else None)"
    for ns by (induction ns) auto
  from this [of "[0..<256]"] show ?thesis by (auto simp: byte_vocab_def)
qed

lemma dkeys_byte_vocab: "dkeys byte_vocab = map int [0..<256]"
  by (simp add: byte_vocab_def dkeys_def)

lemma merges_ok_byte_vocab: "merges_ok [] byte_vocab"
  unfolding merges_ok_def by (auto simp: dget_byte_vocab dkeys_byte_vocab)

lemma merges_ok_keys: "merges_ok ms v \<Longrightarrow> k \<in> set (dkeys v) \<longleftrightarrow> 0 \<le> k \<and> k < 256 + int (length ms)"
  by (auto simp: merges_ok_def image_iff intro!: bexI [of _ "nat k"])

lemma merges_ok_snoc:
  assumes ok: "merges_ok ms v" and a: "dget v a = Some va" and b: "dget v b = Some vb"
    and n: "n = 256 + int (length ms)"
  shows "merges_ok (ms @ [((a, b), n)]) (dset v n (va @ vb))"
proof -
  note key = merges_ok_keys [OF ok]
  have new: "n \<notin> set (dkeys v)" by (simp add: key n)
  have lt: "a < n" "b < n"
    using dget_Some_key [OF a] dget_Some_key [OF b] by (simp_all add: key n)
  have vals: "va \<noteq> []" "\<forall>x \<in> set va. x < 256" "\<forall>x \<in> set vb. x < 256"
    using ok a b unfolding merges_ok_def by blast+
  have keys: "dkeys (dset v n (va @ vb)) = map int [0..<256 + length (ms @ [((a, b), n)])]"
  proof -
    have "[0..<256 + length (ms @ [((a, b), n)])] = [0..<256 + length ms] @ [256 + length ms]"
      using upt_Suc_append [of 0 "256 + length ms"] by simp
    then show ?thesis using ok new n by (simp only: dkeys_dset merges_ok_def) simp
  qed
  have bytes: "dget (dset v n (va @ vb)) (int i) = Some [i]" if "i < 256" for i
    using ok that by (auto simp: merges_ok_def n)
  have vals': "bs \<noteq> [] \<and> (\<forall>x \<in> set bs. x < 256)" if "dget (dset v n (va @ vb)) k = Some bs" for k bs
  proof (cases "k = n")
    case True
    then show ?thesis using that vals by auto
  next
    case False
    then have "dget v k = Some bs" using that by simp
    then show ?thesis using ok unfolding merges_ok_def by blast
  qed
  have rules: "rule_ok (dset v n (va @ vb)) k ((ms @ [((a, b), n)]) ! k)"
    if "k < length (ms @ [((a, b), n)])" for k
  proof (cases "k < length ms")
    case True
    then have "rule_ok v k (ms ! k)" using ok unfolding merges_ok_def by blast
    then show ?thesis using True by (auto simp: rule_ok_def nth_append n)
  next
    case False
    then have "k = length ms" using that by simp
    then show ?thesis using a b lt by (simp add: rule_ok_def n)
  qed
  show ?thesis unfolding merges_ok_def using keys bytes vals' rules by blast
qed

lemma add_merge_ok:
  assumes ok: "bpe_ok t" and p: "fst p \<in> set (dkeys (vocab t))" "snd p \<in> set (dkeys (vocab t))"
  obtains t' where "add_merge p (256 + int (length (merges t))) t = Inr t'" and "bpe_ok t'"
    and "merges t' = merges t @ [(p, 256 + int (length (merges t)))]" and "trained t' = trained t"
    and "set (dkeys (vocab t')) = insert (256 + int (length (merges t))) (set (dkeys (vocab t)))"
proof -
  from p obtain va vb where v: "dget (vocab t) (fst p) = Some va" "dget (vocab t) (snd p) = Some vb"
    using dget_key_Some by metis
  let ?n = "256 + int (length (merges t))"
  let ?t = "t\<lparr>merges := merges t @ [(p, ?n)], merge_index := dset (merge_index t) p ?n,
     vocab := dset (vocab t) ?n (va @ vb)\<rparr>"
  have 1: "add_merge p ?n t = Inr ?t" using v by (simp add: add_merge_def)
  have 2: "bpe_ok ?t"
    using ok v merges_ok_snoc [of "merges t" "vocab t" "fst p" va "snd p" vb ?n]
    by (simp add: bpe_ok_def index_of_merges_def)
  show thesis by (rule that [OF 1 2]) simp_all
qed

lemma adjacent_set: "adjacent p ids \<Longrightarrow> fst p \<in> set ids \<and> snd p \<in> set ids"
  by (induction p ids rule: adjacent.induct) auto

lemma apply_merges_simps [simp]:
  "apply_merges [] ids = ids"
  "apply_merges ((p, n) # ms) ids = apply_merges ms (apply_merge ids p n)"
  by (simp_all add: apply_merges_def)

lemma bpe_train_loop_ok:
  assumes "bpe_ok t" and "m = length (merges t)" and "set ids \<subseteq> set (dkeys (vocab t))"
  obtains t' ms where "bpe_train_loop n m t ids = Inr t'" and "bpe_ok t'" and "merges t' = merges t @ ms"
    and "length ms \<le> n" and "length (apply_merges ms ids) + length ms \<le> length ids"
proof -
  have "\<exists>t' ms. bpe_train_loop n m t ids = Inr t' \<and> bpe_ok t' \<and> merges t' = merges t @ ms
    \<and> length ms \<le> n \<and> length (apply_merges ms ids) + length ms \<le> length ids"
    using assms
  proof (induction n m t ids rule: bpe_train_loop.induct)
    case (1 m t ids)
    then show ?case by simp
  next
    case (2 n m t ids)
    show ?case
    proof (cases "\<exists>p c. best_pair (count_pairs ids []) = Some (p, c) \<and> \<not> c < 2")
      case False
      then have "bpe_train_loop (Suc n) m t ids = Inr t"
        by (auto split: option.splits)
      then show ?thesis using 2 by simp
    next
      case True
      then obtain p c where best: "best_pair (count_pairs ids []) = Some (p, c)" and c: "\<not> c < 2" by blast
      have adj: "adjacent p ids" by (rule best_pair_counts(2) [OF best])
      then have p: "fst p \<in> set (dkeys (vocab t))" "snd p \<in> set (dkeys (vocab t))"
        using "2.prems"(3) adjacent_set by blast+
      let ?id = "256 + int m"
      obtain t1 where t1: "add_merge p ?id t = Inr t1" "bpe_ok t1" "merges t1 = merges t @ [(p, ?id)]"
        "set (dkeys (vocab t1)) = insert ?id (set (dkeys (vocab t)))"
        using add_merge_ok [OF "2.prems"(1) p] unfolding "2.prems"(2) by blast
      let ?ids = "apply_merge ids p ?id"
      have sub: "set ?ids \<subseteq> set (dkeys (vocab t1))"
        using set_merge_pairs [of p ?id ids] "2.prems"(3) t1(4) unfolding apply_merge_eq by blast
      have shorter: "length ?ids < length ids"
        using length_merge_pairs_less [OF adj] by (simp add: apply_merge_eq)
      have "\<exists>t' ms. bpe_train_loop n (m + 1) t1 ?ids = Inr t' \<and> bpe_ok t' \<and> merges t' = merges t1 @ ms
        \<and> length ms \<le> n \<and> length (apply_merges ms ?ids) + length ms \<le> length ?ids"
        by (rule "2.IH" [OF best refl c t1(2) _ sub]) (simp add: t1(3) "2.prems"(2))
      then obtain t' ms where IH: "bpe_train_loop n (m + 1) t1 ?ids = Inr t'" "bpe_ok t'"
        "merges t' = merges t1 @ ms" "length ms \<le> n" "length (apply_merges ms ?ids) + length ms \<le> length ?ids"
        by blast
      have "bpe_train_loop (Suc n) m t ids = Inr t'"
        using best c t1(1) IH(1) by simp
      then show ?thesis
        using IH shorter t1(3) by (intro exI [of _ t'] exI [of _ "(p, ?id) # ms"]) simp
    qed
  qed
  then show thesis using that by blast
qed

section \<open>Encoding and decoding\<close>

lemma expand_apply_merges:
  assumes "\<And>p n. (p, n) \<in> set ms \<Longrightarrow> v n = v (fst p) @ v (snd p)"
  shows "expand v (apply_merges ms ids) = expand v ids"
  using assms
proof (induction ms arbitrary: ids)
  case (Cons r ms)
  obtain p n where r: "r = (p, n)" by (cases r)
  have "expand v (apply_merges (r # ms) ids) = expand v (apply_merge ids p n)"
    using Cons by (simp add: r)
  also have "\<dots> = expand v ids"
    unfolding apply_merge_eq by (rule expand_merge_pairs) (use Cons.prems [of p n] in \<open>simp add: r\<close>)
  finally show ?case .
qed simp

lemma token_to_bytes_merge:
  assumes "merges_ok (merges t) (vocab t)" and "(p, n) \<in> set (merges t)"
  shows "token_to_bytes t n = token_to_bytes t (fst p) @ token_to_bytes t (snd p)"
proof -
  from assms(2) obtain k where k: "k < length (merges t)" "merges t ! k = (p, n)"
    by (auto simp: in_set_conv_nth)
  then have "rule_ok (vocab t) k (p, n)" using assms(1) unfolding merges_ok_def by force
  then show ?thesis by (auto simp: rule_ok_def token_to_bytes_def dget_or_def)
qed

lemma expand_byte_ids:
  assumes "merges_ok ms (vocab t)" and "\<forall>b \<in> set bs. b < 256"
  shows "expand (token_to_bytes t) (map int bs) = bs"
  using assms(2) by (induction bs) (use assms(1) in \<open>auto simp: merges_ok_def token_to_bytes_def dget_or_def\<close>)

lemma expand_merged:
  assumes "merges_ok (merges t) (vocab t)" and "\<forall>b \<in> set bs. b < 256"
  shows "expand (token_to_bytes t) (apply_merges (merges t) (map int bs)) = bs"
  using expand_apply_merges [OF token_to_bytes_merge [OF assms(1)]] expand_byte_ids [OF assms] by simp

lemma set_apply_merges: "set (apply_merges ms ids) \<subseteq> set ids \<union> snd ` set ms"
proof (induction ms arbitrary: ids)
  case (Cons r ms)
  obtain p n where r: "r = (p, n)" by (cases r)
  show ?case
    using Cons [of "apply_merge ids p n"] set_merge_pairs [of p n ids] by (auto simp: r apply_merge_eq)
qed simp

lemma merged_ids_known:
  assumes ok: "merges_ok (merges t) (vocab t)" and bs: "\<forall>b \<in> set bs. b < 256"
    and x: "x \<in> set (apply_merges (merges t) (map int bs))"
  shows "token_to_bytes t x \<noteq> []" and "x \<in> set (dkeys (vocab t))"
proof -
  have "x \<in> set (map int bs) \<or> x \<in> snd ` set (merges t)" using set_apply_merges x by blast
  then show known: "x \<in> set (dkeys (vocab t))"
  proof
    assume "x \<in> set (map int bs)"
    then show ?thesis using bs by (auto simp: merges_ok_keys [OF ok])
  next
    assume "x \<in> snd ` set (merges t)"
    then obtain k where "k < length (merges t)" "x = snd (merges t ! k)" by (force simp: in_set_conv_nth)
    then have "x = 256 + int k" using ok unfolding merges_ok_def rule_ok_def by metis
    with \<open>k < length (merges t)\<close> show ?thesis by (simp add: merges_ok_keys [OF ok])
  qed
  then obtain b where "dget (vocab t) x = Some b" using dget_key_Some by metis
  then show "token_to_bytes t x \<noteq> []"
    using ok unfolding merges_ok_def token_to_bytes_def dget_or_def by (metis option.simps(5))
qed

section \<open>The interface of a byte-level tokenizer\<close>

locale byte_tokenizer =
  fixes ready :: "'t \<Rightarrow> bool"
    and enc :: "'t \<Rightarrow> utext \<Rightarrow> int list result"
    and dec :: "'t \<Rightarrow> int list \<Rightarrow> utext result"
    and bytes_of :: "'t \<Rightarrow> int \<Rightarrow> bytes"
  assumes enc_bytes: "ready t \<Longrightarrow> utf8_encode s = Inr bs \<Longrightarrow>
      \<exists>ids. enc t s = Inr ids \<and> concat (map (bytes_of t) ids) = bs"
    and enc_error: "ready t \<Longrightarrow> utf8_encode s = Inl e \<Longrightarrow> enc t s = Inl e"
    and dec_bytes: "ready t \<Longrightarrow> dec t ids = Inr (utf8_decode (concat (map (bytes_of t) ids)))"
    and enc_nonempty: "ready t \<Longrightarrow> enc t s = Inr ids \<Longrightarrow> x \<in> set ids \<Longrightarrow> bytes_of t x \<noteq> []"
begin

lemma enc_total: "ready t \<Longrightarrow> list_all scalar s \<Longrightarrow> \<exists>ids. enc t s = Inr ids"
  using enc_bytes [of t s] by (auto simp: utf8_encode_def)

lemma enc_Inr_bytes:
  assumes "ready t" and "enc t s = Inr ids"
  shows "utf8_encode s = Inr (concat (map (bytes_of t) ids))"
proof (cases "utf8_encode s")
  case (Inl e)
  with enc_error [OF assms(1) Inl] assms(2) show ?thesis by simp
next
  case (Inr bs)
  with enc_bytes [OF assms(1) Inr] assms(2) show ?thesis by auto
qed

lemma round_trip:
  assumes "ready t" and "enc t s = Inr ids"
  shows "dec t ids = Inr s"
  using enc_Inr_bytes [OF assms] dec_bytes [OF assms(1)] utf8_round_trip by simp

lemma enc_inj:
  assumes "ready t" and "enc t s = Inr ids" and "enc t s' = Inr ids"
  shows "s = s'"
  using round_trip [OF assms(1,2)] round_trip [OF assms(1,3)] by simp

text \<open>Streams of tokens may be joined.\<close>

lemma join:
  assumes "ready t" and "enc t s = Inr ids" and "enc t s' = Inr ids'"
  shows "dec t (ids @ ids') = Inr (s @ s')"
proof -
  have "utf8_encode (s @ s') = Inr (concat (map (bytes_of t) (ids @ ids')))"
    using enc_Inr_bytes [OF assms(1,2)] enc_Inr_bytes [OF assms(1,3)]
    by (simp add: utf8_encode_append)
  then show ?thesis using dec_bytes [OF assms(1)] utf8_round_trip by simp
qed

lemma length_concat_nonempty: "(\<forall>x \<in> set xs. f x \<noteq> []) \<Longrightarrow> length xs \<le> length (concat (map f xs))"
proof (induction xs)
  case (Cons x xs)
  then have "1 \<le> length (f x)" by (cases "f x") auto
  with Cons show ?case by simp
qed simp

lemma no_longer_than_bytes:
  assumes "ready t" and "enc t s = Inr ids" and "utf8_encode s = Inr bs"
  shows "length ids \<le> length bs"
  using length_concat_nonempty [of ids "bytes_of t"] enc_nonempty [OF assms(1,2)]
    enc_Inr_bytes [OF assms(1,2)] assms(3) by simp

end

definition bpe_ready :: "bpe \<Rightarrow> bool" where
  "bpe_ready t \<longleftrightarrow> bpe_ok t \<and> trained t"

interpretation bp: byte_tokenizer bpe_ready bpe_encode bpe_decode token_to_bytes
proof unfold_locales
  fix t s bs assume t: "bpe_ready t" and s: "utf8_encode s = Inr bs"
  have "\<forall>b \<in> set bs. b < 256" using utf8_encode_bytes [OF s] by blast
  then show "\<exists>ids. bpe_encode t s = Inr ids \<and> concat (map (token_to_bytes t) ids) = bs"
    using t s expand_merged [of t bs] by (simp add: bpe_ready_def bpe_ok_def bpe_encode_def expand_def)
next
  fix t s ids x assume t: "bpe_ready t" and s: "bpe_encode t s = Inr ids" and x: "x \<in> set ids"
  then obtain bs where bs: "utf8_encode s = Inr bs" "ids = apply_merges (merges t) (map int bs)"
    by (auto simp: bpe_encode_def bpe_ready_def rmap_Inr)
  have "\<forall>b \<in> set bs. b < 256" using utf8_encode_bytes [OF bs(1)] by blast
  then show "token_to_bytes t x \<noteq> []"
    using merged_ids_known(1) [of t bs x] t x bs(2) by (simp add: bpe_ready_def bpe_ok_def)
qed (simp_all add: bpe_ready_def bpe_encode_def bpe_decode_def)

lemma bpe_train_ready:
  assumes "bpe_train txt n t = Inr t'"
  shows "bpe_ready t'" and "256 + int (length (merges t')) \<le> n" and "bpe_vocab_size t' = 256 + length (merges t')"
    and "bpe_encode t' txt = Inr ids \<Longrightarrow> utf8_encode txt = Inr bs \<Longrightarrow> length ids + length (merges t') \<le> length bs"
proof -
  let ?t0 = "t\<lparr>vocab := byte_vocab, merges := [], merge_index := []\<rparr>"
  from assms obtain bs0 t1 where n: "256 < n" and bs0: "utf8_encode txt = Inr bs0"
    and t1: "bpe_train_loop (nat (n - 256)) 0 ?t0 (map int bs0) = Inr t1" and t': "t' = t1\<lparr>trained := True\<rparr>"
    by (auto simp: bpe_train_def rbind_Inr rmap_Inr split: if_splits)
  have "bpe_ok ?t0" by (simp add: bpe_ok_def merges_ok_byte_vocab index_of_merges_def)
  moreover have "set (map int bs0) \<subseteq> set (dkeys (vocab ?t0))"
    using utf8_encode_bytes [OF bs0] by (auto simp: dkeys_byte_vocab)
  ultimately obtain ms where ok: "bpe_ok t1" and ms: "merges t1 = ms" "length ms \<le> nat (n - 256)"
    "length (apply_merges ms (map int bs0)) + length ms \<le> length bs0"
    using bpe_train_loop_ok [of ?t0 0 "map int bs0" "nat (n - 256)"] t1 by auto
  show "bpe_ready t'" using ok t' by (simp add: bpe_ready_def bpe_ok_def)
  show "256 + int (length (merges t')) \<le> n" using ms(1,2) n t' by simp
  have "dkeys (vocab t1) = map int [0..<256 + length ms]"
    using ok ms(1) unfolding bpe_ok_def merges_ok_def by blast
  then have "length (dkeys (vocab t1)) = 256 + length ms" by simp
  then show "bpe_vocab_size t' = 256 + length (merges t')"
    using ms(1) t' by (simp add: bpe_vocab_size_def)
  show "length ids + length (merges t') \<le> length bs"
    if "bpe_encode t' txt = Inr ids" "utf8_encode txt = Inr bs"
    using that ms bs0 t' by (simp add: bpe_encode_def)
qed

lemma bpe_train_total:
  assumes "256 < n" and "list_all scalar txt"
  obtains t' where "bpe_train txt n t = Inr t'"
proof -
  let ?t0 = "t\<lparr>vocab := byte_vocab, merges := [], merge_index := []\<rparr>"
  obtain bs where bs: "utf8_encode txt = Inr bs" using assms(2) by (simp add: utf8_encode_def)
  have ok: "bpe_ok ?t0" by (simp add: bpe_ok_def merges_ok_byte_vocab index_of_merges_def)
  have sub: "set (map int bs) \<subseteq> set (dkeys (vocab ?t0))"
    using utf8_encode_bytes [OF bs] by (auto simp: dkeys_byte_vocab)
  obtain t1 where "bpe_train_loop (nat (n - 256)) 0 ?t0 (map int bs) = Inr t1"
    by (rule bpe_train_loop_ok [OF ok _ sub, of 0 "nat (n - 256)"]) simp_all
  then show thesis using that [of "t1\<lparr>trained := True\<rparr>"] bs assms(1) by (simp add: bpe_train_def)
qed

end
