(* ===== verification/Gpt2Bpe.thy ===== *)
theory Gpt2Bpe
  imports Bpe
begin

text \<open>
  \<open>v2_gpt2bpe.py\<close> and the service of \<open>server.py\<close>. The tokenizer has the fields of \<open>bpe\<close>; the compiled
  pattern is \<open>next_match\<close>, which follows the alternatives of \<open>GPT2_SPLIT_PATTERN\<close> in order with the
  engine's backtracking, over the three Unicode classes \<open>\p{L}\<close>, \<open>\p{N}\<close> and \<open>\s\<close>. Which code points
  those classes hold is data of the \<open>regex\<close> package: they are the parameter \<open>charclass\<close>, and every
  result holds for any of them.
\<close>

section \<open>The pre-tokenization pattern\<close>

record charclass =
  is_letter :: "nat \<Rightarrow> bool"
  is_number :: "nat \<Rightarrow> bool"
  is_white :: "nat \<Rightarrow> bool"

text \<open>The seven contractions, in the order of the pattern.\<close>

definition contractions :: "utext list" where
  "contractions = [[39, 115], [39, 116], [39, 114, 101], [39, 118, 101], [39, 109], [39, 108, 108], [39, 100]]"

text \<open>\<open>C+\<close>: the length of the greedy run, if it is not empty.\<close>

definition run_of :: "(nat \<Rightarrow> bool) \<Rightarrow> utext \<Rightarrow> nat option" where
  "run_of C s = (let n = length (takeWhile C s) in if n = 0 then None else Some n)"

text \<open>\<open> ?C+\<close>: with the optional space first, then without it.\<close>

definition spaced_run :: "(nat \<Rightarrow> bool) \<Rightarrow> utext \<Rightarrow> nat option" where
  "spaced_run C s =
     (case s of
        [] \<Rightarrow> None
      | c # s' \<Rightarrow>
          if c = 32
          then (case run_of C s' of Some n \<Rightarrow> Some (n + 1) | None \<Rightarrow> run_of C s)
          else run_of C s)"

text \<open>\<open>\s+(?!\S)\<close>: the longest run of white space that no other character follows.\<close>

definition trailing_white :: "(nat \<Rightarrow> bool) \<Rightarrow> utext \<Rightarrow> nat option" where
  "trailing_white W s =
     (let n = length (takeWhile W s)
      in if n = 0 then None else if n = length s then Some n else if n = 1 then None else Some (n - 1))"

definition next_match :: "charclass \<Rightarrow> utext \<Rightarrow> nat option" where
  "next_match cc s =
     (case find (\<lambda>p. take (length p) s = p) contractions of
        Some p \<Rightarrow> Some (length p)
      | None \<Rightarrow>
     (case spaced_run (is_letter cc) s of
        Some n \<Rightarrow> Some n
      | None \<Rightarrow>
     (case spaced_run (is_number cc) s of
        Some n \<Rightarrow> Some n
      | None \<Rightarrow>
     (case spaced_run (\<lambda>c. \<not> is_white cc c \<and> \<not> is_letter cc c \<and> \<not> is_number cc c) s of
        Some n \<Rightarrow> Some n
      | None \<Rightarrow>
     (case trailing_white (is_white cc) s of
        Some n \<Rightarrow> Some n
      | None \<Rightarrow> run_of (is_white cc) s)))))"

text \<open>\<open>findall\<close>: collect the matches from left to right, skipping a character none starts at.\<close>

function findall :: "charclass \<Rightarrow> utext \<Rightarrow> utext list" where
  "findall cc [] = []"
| "findall cc (c # s) =
     (case next_match cc (c # s) of
        None \<Rightarrow> findall cc s
      | Some n \<Rightarrow> take (max n 1) (c # s) # findall cc (drop (max n 1) (c # s)))"
  by pat_completeness auto
termination by (relation "measure (\<lambda>(cc, s). length s)") auto

section \<open>Training, encoding, decoding\<close>

fun gpt2_train_loop :: "nat \<Rightarrow> nat \<Rightarrow> bpe \<Rightarrow> int list list \<Rightarrow> bpe result" where
  "gpt2_train_loop 0 merge_step t chunks = Inr t"
| "gpt2_train_loop (Suc n) merge_step t chunks =
     (case best_pair (fold count_pairs chunks []) of
        None \<Rightarrow> Inr t
      | Some (pr, best_count) \<Rightarrow>
          if best_count < 2 then Inr t
          else rbind (add_merge pr (256 + int merge_step) t) (\<lambda>t'.
                 gpt2_train_loop n (merge_step + 1) t'
                   (map (\<lambda>chunk. apply_merge chunk pr (256 + int merge_step)) chunks)))"

fun encode_chunks :: "utext list \<Rightarrow> bytes list result" where
  "encode_chunks [] = Inr []"
| "encode_chunks (p # ps) = rbind (utf8_encode p) (\<lambda>bs. rmap (\<lambda>bss. bs # bss) (encode_chunks ps))"

definition gpt2_train :: "charclass \<Rightarrow> utext \<Rightarrow> int \<Rightarrow> bpe \<Rightarrow> bpe result" where
  "gpt2_train cc txt vocab_size t =
     (if vocab_size \<le> 256
      then Inl (ValueError (''vocab_size must be > 256, got '' @ int_str vocab_size))
      else rbind (encode_chunks (findall cc txt)) (\<lambda>bss.
             rmap (\<lambda>t'. t'\<lparr>trained := True\<rparr>)
               (gpt2_train_loop (nat (vocab_size - 256)) 0
                  (t\<lparr>vocab := byte_vocab, merges := [], merge_index := []\<rparr>) (map (map int) bss))))"

definition gpt2_encode :: "charclass \<Rightarrow> bpe \<Rightarrow> utext \<Rightarrow> int list result" where
  "gpt2_encode cc t txt =
     (if \<not> trained t then Inl (RuntimeError ''Call train() before encode()'')
      else rfold (\<lambda>pt all_ids. rmap (\<lambda>bs. all_ids @ apply_merges (merges t) (map int bs)) (utf8_encode pt))
             (findall cc txt) [])"

definition gpt2_decode :: "bpe \<Rightarrow> int list \<Rightarrow> utext result" where
  "gpt2_decode t tokens =
     (if \<not> trained t then Inl (RuntimeError ''Call train() before decode()'')
      else Inr (utf8_decode (concat (map (\<lambda>k. dget_or (vocab t) k []) tokens))))"

section \<open>Saving and loading\<close>

text \<open>The JSON document \<open>save\<close> writes; its numbers and strings come back from \<open>json.load\<close> as they were.\<close>

record saved_tokenizer =
  saved_version :: string
  saved_vocab_size :: nat
  saved_vocab :: "(int \<times> string) list"
  saved_merges :: "(int \<times> int \<times> int) list"

definition gpt2_save :: "bpe \<Rightarrow> saved_tokenizer" where
  "gpt2_save t = \<lparr>saved_version = ''gpt2bpe-v2'', saved_vocab_size = length (vocab t),
     saved_vocab = map (\<lambda>(i, bs). (i, b64_encode bs)) (sort_key fst (vocab t)),
     saved_merges = map (\<lambda>(p, n). (fst p, snd p, n)) (merges t)\<rparr>"

definition load_vocab :: "(int \<times> string) list \<Rightarrow> (int, bytes) pydict result" where
  "load_vocab kvs = rfold (\<lambda>(i, b64) v. rmap (\<lambda>bs. dset v i bs) (b64_decode b64)) kvs []"

definition gpt2_load :: "saved_tokenizer \<Rightarrow> bpe \<Rightarrow> bpe result" where
  "gpt2_load d t =
     rmap (\<lambda>v. let ms = map (\<lambda>(a, b, n). ((a, b), n)) (saved_merges d)
               in t\<lparr>vocab := v, merges := ms,
                    merge_index := fold (\<lambda>(p, n) idx. dset idx p n) ms [], trained := True\<rparr>)
       (load_vocab (saved_vocab d))"

section \<open>The HTTP service\<close>

definition fallback_corpus :: utext where
  "fallback_corpus =
     concat (replicate 50 (map of_char ''hello world this is a test tokenizer service running''))"

definition load_tokenizer :: "charclass \<Rightarrow> saved_tokenizer option \<Rightarrow> bpe result" where
  "load_tokenizer cc file =
     (case file of
        Some d \<Rightarrow> gpt2_load d new_bpe
      | None \<Rightarrow> gpt2_train cc fallback_corpus 512 new_bpe)"

definition get_tokenizer :: "bpe option \<Rightarrow> bpe result" where
  "get_tokenizer tk =
     (case tk of None \<Rightarrow> Inl (OtherError ''HTTPException 503: Tokenizer not yet initialised'') | Some t \<Rightarrow> Inr t)"

definition serve_encode :: "charclass \<Rightarrow> bpe option \<Rightarrow> utext \<Rightarrow> (int list \<times> utext list) result" where
  "serve_encode cc tk txt =
     rbind (get_tokenizer tk) (\<lambda>t. rmap (\<lambda>ids. (ids, map (token_to_str t) ids)) (gpt2_encode cc t txt))"

definition serve_decode :: "bpe option \<Rightarrow> int list \<Rightarrow> utext result" where
  "serve_decode tk ids = rbind (get_tokenizer tk) (\<lambda>t. gpt2_decode t ids)"

definition serve_health :: "bpe option \<Rightarrow> (string \<times> nat) result" where
  "serve_health tk = rmap (\<lambda>t. (''ok'', bpe_vocab_size t)) (get_tokenizer tk)"

definition serve_vocab_size :: "bpe option \<Rightarrow> nat result" where
  "serve_vocab_size tk = rmap bpe_vocab_size (get_tokenizer tk)"

section \<open>The pattern covers the text\<close>

lemma run_of_pos: "C c \<Longrightarrow> \<exists>n. run_of C (c # s) = Some n"
  by (simp add: run_of_def Let_def)

lemma spaced_run_pos: "C c \<Longrightarrow> \<exists>n. spaced_run C (c # s) = Some n"
  using run_of_pos [of C c s] by (auto simp: spaced_run_def split: option.split)

lemma next_match_total: "next_match cc (c # s) \<noteq> None"
proof -
  let ?P = "\<lambda>c. \<not> is_white cc c \<and> \<not> is_letter cc c \<and> \<not> is_number cc c"
  consider "is_letter cc c" | "is_number cc c" | "?P c" | "is_white cc c" by blast
  then show ?thesis
  proof cases
    case 1
    then show ?thesis using spaced_run_pos [of "is_letter cc" c s]
      by (auto simp: next_match_def split: option.split)
  next
    case 2
    then show ?thesis using spaced_run_pos [of "is_number cc" c s]
      by (auto simp: next_match_def split: option.split)
  next
    case 3
    then show ?thesis using spaced_run_pos [of ?P c s]
      by (auto simp: next_match_def split: option.split)
  next
    case 4
    then show ?thesis using run_of_pos [of "is_white cc" c s]
      by (auto simp: next_match_def split: option.split)
  qed
qed

lemma concat_findall: "concat (findall cc s) = s"
proof (induction cc s rule: findall.induct)
  case (2 cc c s)
  obtain n where n: "next_match cc (c # s) = Some n" using next_match_total by blast
  have "concat (findall cc (drop (max n 1) (c # s))) = drop (max n 1) (c # s)"
    by (rule "2.IH"(2) [OF n])
  with n show ?case by (simp del: take_Suc_Cons drop_Suc_Cons add: append_take_drop_id)
qed simp

lemma findall_nonempty: "[] \<notin> set (findall cc s)"
  by (induction cc s rule: findall.induct) (auto split: option.split)

section \<open>What training keeps\<close>

lemma count_chunks:
  "dget_or (fold count_pairs chunks c) p 0 = dget_or c p 0 + (\<Sum>ids\<leftarrow>chunks. pair_count ids p)"
  by (induction chunks arbitrary: c) (simp_all add: count_pairs_count)

lemma count_chunks_wf: "dwf c \<Longrightarrow> dwf (fold count_pairs chunks c)"
  by (rule fold_invariant_list [where P = dwf]) (auto intro: count_pairs_wf)

lemma count_chunks_pos: "\<forall>q. dget c q \<noteq> Some 0 \<Longrightarrow> \<forall>q. dget (fold count_pairs chunks c) q \<noteq> Some 0"
proof (induction chunks arbitrary: c)
  case (Cons ids chunks)
  have "\<forall>q. dget (count_pairs ids c) q \<noteq> Some 0" using count_pairs_pos [OF Cons.prems] by blast
  from Cons.IH [OF this] show ?case by (simp del: split_paired_All)
qed (simp del: split_paired_All)

lemma best_chunk_pair:
  assumes "best_pair (fold count_pairs chunks []) = Some (p, c)"
  obtains ids where "ids \<in> set chunks" and "adjacent p ids"
proof -
  let ?d = "fold count_pairs chunks []"
  have wf: "dwf ?d" by (rule count_chunks_wf) simp
  have "dget ?d p = Some c" using best_pair_Some(1) [OF assms] by (simp add: dwf_dget_iff [OF wf])
  moreover have pos: "\<forall>q. dget ?d q \<noteq> Some 0" by (rule count_chunks_pos) simp
  ultimately have "c \<noteq> 0" by (metis (full_types))
  with \<open>dget ?d p = Some c\<close> have "dget_or ?d p 0 \<noteq> 0" by (simp add: dget_or_def)
  then have "(\<Sum>ids\<leftarrow>chunks. pair_count ids p) \<noteq> 0"
    using count_chunks [of chunks "[]" p] by (simp add: dget_or_def [of "[]"])
  then obtain ids where "ids \<in> set chunks" "0 < pair_count ids p" by (auto simp: sum_list_eq_0_iff)
  then show thesis using that pair_count_adjacent by blast
qed

lemma gpt2_train_loop_ok:
  assumes "bpe_ok t" and "m = length (merges t)" and "\<forall>ids \<in> set chunks. set ids \<subseteq> set (dkeys (vocab t))"
  shows "\<exists>t' ms. gpt2_train_loop n m t chunks = Inr t' \<and> bpe_ok t' \<and> merges t' = merges t @ ms \<and> length ms \<le> n"
  using assms
proof (induction n m t chunks rule: gpt2_train_loop.induct)
  case (1 m t chunks)
  then show ?case by simp
next
  case (2 n m t chunks)
  show ?case
  proof (cases "\<exists>p c. best_pair (fold count_pairs chunks []) = Some (p, c) \<and> \<not> c < 2")
    case False
    then have "gpt2_train_loop (Suc n) m t chunks = Inr t" by (auto split: option.splits)
    then show ?thesis using 2 by simp
  next
    case True
    then obtain p c where best: "best_pair (fold count_pairs chunks []) = Some (p, c)" and c: "\<not> c < 2" by blast
    obtain ids where "ids \<in> set chunks" "adjacent p ids" by (rule best_chunk_pair [OF best])
    then have p: "fst p \<in> set (dkeys (vocab t))" "snd p \<in> set (dkeys (vocab t))"
      using "2.prems"(3) adjacent_set by blast+
    let ?id = "256 + int m"
    let ?chunks = "map (\<lambda>chunk. apply_merge chunk p ?id) chunks"
    obtain t1 where t1: "add_merge p ?id t = Inr t1" "bpe_ok t1" "merges t1 = merges t @ [(p, ?id)]"
      "set (dkeys (vocab t1)) = insert ?id (set (dkeys (vocab t)))"
      using add_merge_ok [OF "2.prems"(1) p] unfolding "2.prems"(2) by blast
    have sub: "\<forall>ids \<in> set ?chunks. set ids \<subseteq> set (dkeys (vocab t1))"
    proof
      fix ids' assume "ids' \<in> set ?chunks"
      then obtain ids where "ids \<in> set chunks" "ids' = merge_pairs p ?id ids" by (auto simp: apply_merge_eq)
      then show "set ids' \<subseteq> set (dkeys (vocab t1))"
        using set_merge_pairs [of p ?id ids] "2.prems"(3) t1(4) by blast
    qed
    obtain t' ms where IH: "gpt2_train_loop n (m + 1) t1 ?chunks = Inr t'" "bpe_ok t'"
      "merges t' = merges t1 @ ms" "length ms \<le> n"
      using "2.IH" [OF best refl c t1(2) _ sub] t1(3) "2.prems"(2) by auto
    have "gpt2_train_loop (Suc n) m t chunks = Inr t'" using best c t1(1) IH(1) by simp
    then show ?thesis
      using IH t1(3) by (intro exI [of _ t'] exI [of _ "(p, ?id) # ms"]) simp
  qed
qed

lemma encode_chunks_Inr:
  "encode_chunks ps = Inr bss \<Longrightarrow>
   list_all scalar (concat ps) \<and> bss = map (\<lambda>p. concat (map utf8_encode_cp p)) ps"
  by (induction ps arbitrary: bss) (auto simp: rbind_Inr rmap_Inr utf8_encode_def split: if_splits)

lemma encode_chunks_total:
  "list_all scalar (concat ps) \<Longrightarrow> encode_chunks ps = Inr (map (\<lambda>p. concat (map utf8_encode_cp p)) ps)"
  by (induction ps) (simp_all add: utf8_encode_def)

lemma byte_chunks_known:
  "encode_chunks ps = Inr bss \<Longrightarrow> \<forall>ids \<in> set (map (map int) bss). set ids \<subseteq> set (dkeys byte_vocab)"
proof
  fix ids assume e: "encode_chunks ps = Inr bss" and "ids \<in> set (map (map int) bss)"
  then obtain p where p: "p \<in> set ps" "ids = map int (concat (map utf8_encode_cp p))"
    using encode_chunks_Inr by force
  then have "utf8_encode p = Inr (concat (map utf8_encode_cp p))"
    using encode_chunks_Inr [OF e] by (auto simp: utf8_encode_def list_all_iff)
  from utf8_encode_bytes [OF this] show "set ids \<subseteq> set (dkeys byte_vocab)"
    by (force simp: p(2) dkeys_byte_vocab)
qed

lemma gpt2_train_ready:
  assumes "gpt2_train cc txt n t = Inr t'"
  shows "bpe_ready t'" and "256 + int (length (merges t')) \<le> n"
proof -
  let ?t0 = "t\<lparr>vocab := byte_vocab, merges := [], merge_index := []\<rparr>"
  from assms obtain bss t1 where n: "256 < n" and bss: "encode_chunks (findall cc txt) = Inr bss"
    and t1: "gpt2_train_loop (nat (n - 256)) 0 ?t0 (map (map int) bss) = Inr t1" and t': "t' = t1\<lparr>trained := True\<rparr>"
    by (auto simp: gpt2_train_def rbind_Inr rmap_Inr split: if_splits)
  have "bpe_ok ?t0" by (simp add: bpe_ok_def merges_ok_byte_vocab index_of_merges_def)
  from gpt2_train_loop_ok [OF this, of 0 "map (map int) bss" "nat (n - 256)"] t1 byte_chunks_known [OF bss]
  obtain ms where ok: "bpe_ok t1" and ms: "merges t1 = ms" "length ms \<le> nat (n - 256)" by auto
  show "bpe_ready t'" using ok t' by (simp add: bpe_ready_def bpe_ok_def)
  show "256 + int (length (merges t')) \<le> n" using ms n t' by simp
qed

lemma gpt2_train_total:
  assumes "256 < n" and "list_all scalar txt"
  obtains t' where "gpt2_train cc txt n t = Inr t'"
proof -
  let ?t0 = "t\<lparr>vocab := byte_vocab, merges := [], merge_index := []\<rparr>"
  have "list_all scalar (concat (findall cc txt))" using assms(2) by (simp add: concat_findall)
  then obtain bss where bss: "encode_chunks (findall cc txt) = Inr bss" using encode_chunks_total by blast
  have "bpe_ok ?t0" by (simp add: bpe_ok_def merges_ok_byte_vocab index_of_merges_def)
  from gpt2_train_loop_ok [OF this, of 0 "map (map int) bss" "nat (n - 256)"] byte_chunks_known [OF bss]
  obtain t1 where "gpt2_train_loop (nat (n - 256)) 0 ?t0 (map (map int) bss) = Inr t1" by auto
  then show thesis using that bss assms(1) by (simp add: gpt2_train_def)
qed

text \<open>On one chunk the two training loops agree: v1 is v2 without pre-tokenization.\<close>

lemma gpt2_train_loop_single: "gpt2_train_loop n m t [ids] = bpe_train_loop n m t ids"
proof (induction n m t ids rule: bpe_train_loop.induct)
  case (2 n m t ids)
  then show ?case by (auto simp: rbind_def split: option.split sum.split)
qed simp

section \<open>The interface\<close>

lemma gpt2_fold_ok:
  assumes "merges_ok (merges t) (vocab t)"
  shows "rfold (\<lambda>pt all_ids. rmap (\<lambda>bs. all_ids @ apply_merges (merges t) (map int bs)) (utf8_encode pt)) ps acc
     = (if list_all scalar (concat ps)
        then Inr (acc @ concat (map (\<lambda>p. apply_merges (merges t) (map int (concat (map utf8_encode_cp p)))) ps))
        else Inl (ValueError ''UnicodeEncodeError''))"
  by (induction ps arbitrary: acc) (auto simp: utf8_encode_def)

lemma gpt2_encode_eq:
  assumes "bpe_ready t"
  shows "gpt2_encode cc t s =
    (if list_all scalar s
     then Inr (concat (map (\<lambda>p. apply_merges (merges t) (map int (concat (map utf8_encode_cp p)))) (findall cc s)))
     else Inl (ValueError ''UnicodeEncodeError''))"
  using assms gpt2_fold_ok [of t "findall cc s" "[]"]
  by (simp add: gpt2_encode_def bpe_ready_def bpe_ok_def concat_findall)

lemma scalar_bytes: "list_all scalar p \<Longrightarrow> \<forall>b \<in> set (concat (map utf8_encode_cp p)). b < 256"
  using utf8_encode_bytes [of p] by (simp add: utf8_encode_def)

lemma scalar_pieces: "list_all scalar s \<Longrightarrow> p \<in> set (findall cc s) \<Longrightarrow> list_all scalar p"
  using concat_findall [of cc s] by (metis (no_types, lifting) UN_I list_all_iff set_concat)

lemma gpt2_bytes:
  assumes t: "bpe_ready t" and s: "list_all scalar s"
  shows "concat (map (token_to_bytes t)
      (concat (map (\<lambda>p. apply_merges (merges t) (map int (concat (map utf8_encode_cp p)))) (findall cc s))))
    = concat (map utf8_encode_cp s)"
proof -
  have ok: "merges_ok (merges t) (vocab t)" using t by (simp add: bpe_ready_def bpe_ok_def)
  have "concat (map (token_to_bytes t)
      (concat (map (\<lambda>p. apply_merges (merges t) (map int (concat (map utf8_encode_cp p)))) ps)))
    = concat (map utf8_encode_cp (concat ps))" if "\<forall>p \<in> set ps. list_all scalar p" for ps
    using that
  proof (induction ps)
    case (Cons p ps)
    have "concat (map (token_to_bytes t) (apply_merges (merges t) (map int (concat (map utf8_encode_cp p)))))
        = concat (map utf8_encode_cp p)"
      using expand_merged [OF ok scalar_bytes] Cons.prems unfolding expand_def by simp
    with Cons show ?case by simp
  qed simp
  from this [of "findall cc s"] show ?thesis using scalar_pieces [OF s] by (simp add: concat_findall)
qed

interpretation gp: byte_tokenizer bpe_ready "gpt2_encode cc" gpt2_decode token_to_bytes
  for cc
proof unfold_locales
  fix t s bs assume t: "bpe_ready t" and s: "utf8_encode s = Inr bs"
  then have "list_all scalar s" "bs = concat (map utf8_encode_cp s)"
    by (auto simp: utf8_encode_def split: if_splits)
  then show "\<exists>ids. gpt2_encode cc t s = Inr ids \<and> concat (map (token_to_bytes t) ids) = bs"
    using gpt2_encode_eq [OF t] gpt2_bytes [OF t] by simp
next
  fix t s e assume t: "bpe_ready t" and s: "utf8_encode s = Inl e"
  then show "gpt2_encode cc t s = Inl e"
    using gpt2_encode_eq [OF t] by (auto simp: utf8_encode_def split: if_splits)
next
  fix t ids assume "bpe_ready t"
  then show "gpt2_decode t ids = Inr (utf8_decode (concat (map (token_to_bytes t) ids)))"
    by (simp add: gpt2_decode_def bpe_ready_def token_to_bytes_def [abs_def])
next
  fix t s ids x assume t: "bpe_ready t" and ids: "gpt2_encode cc t s = Inr ids" and x: "x \<in> set ids"
  then obtain p where p: "p \<in> set (findall cc s)"
      "x \<in> set (apply_merges (merges t) (map int (concat (map utf8_encode_cp p))))" and s: "list_all scalar s"
    using gpt2_encode_eq [OF t] by (auto split: if_splits)
  show "token_to_bytes t x \<noteq> []"
    using merged_ids_known(1) [OF _ scalar_bytes p(2)] scalar_pieces [OF s p(1)] t
    by (simp add: bpe_ready_def bpe_ok_def)
qed

section \<open>Save and load\<close>

lemma load_vocab_eq:
  assumes "\<forall>(i, bs) \<in> set kvs. \<forall>b \<in> set bs. b < 256"
  shows "rfold (\<lambda>(i, b64) v. rmap (\<lambda>bs. dset v i bs) (b64_decode b64)) (map (\<lambda>(i, bs). (i, b64_encode bs)) kvs) v
    = Inr (fold (\<lambda>(i, bs) v. dset v i bs) kvs v)"
  using assms by (induction kvs arbitrary: v) (auto simp: b64_round_trip)

lemma fold_dset_distinct:
  "distinct (dkeys v @ dkeys kvs) \<Longrightarrow> fold (\<lambda>(i, bs) v. dset v i bs) kvs v = v @ kvs"
proof (induction kvs arbitrary: v)
  case (Cons kv kvs)
  obtain i bs where kv: "kv = (i, bs)" by (cases kv)
  with Cons.prems have "dset v i bs = v @ [(i, bs)]" by (intro dset_new) auto
  with Cons kv show ?case by simp
qed simp

text \<open>Loading what was saved gives back the trained tokenizer, whatever the object held before.\<close>

lemma gpt2_load_save:
  assumes "bpe_ready t"
  shows "gpt2_load (gpt2_save t) t0 = Inr t"
proof -
  from assms have ok: "merges_ok (merges t) (vocab t)" and idx: "merge_index t = index_of_merges (merges t)"
    and tr: "trained t" by (simp_all add: bpe_ready_def bpe_ok_def)
  from ok have keys: "dkeys (vocab t) = map int [0..<256 + length (merges t)]" unfolding merges_ok_def by blast
  then have srt: "sort_key fst (vocab t) = vocab t"
    by (intro sort_key_id_if_sorted) (simp add: dkeys_def sorted_map)
  have dist: "distinct (dkeys (vocab t))" using keys by (simp add: distinct_map)
  have "\<forall>(i, bs) \<in> set (vocab t). \<forall>b \<in> set bs. b < 256"
  proof (clarify)
    fix i bs b assume "(i, bs) \<in> set (vocab t)" "b \<in> set bs"
    moreover have "dwf (vocab t)" using dist by (simp add: dwf_def)
    ultimately show "b < 256" using ok dwf_dget_iff unfolding merges_ok_def by metis
  qed
  then have "load_vocab (saved_vocab (gpt2_save t)) = Inr (vocab t)"
    using load_vocab_eq [of "vocab t" "[]"] fold_dset_distinct [of "[]" "vocab t"] dist
    by (simp add: load_vocab_def gpt2_save_def srt)
  moreover have "map (\<lambda>(a, b, n). ((a, b), n)) (saved_merges (gpt2_save t)) = merges t"
    by (simp add: gpt2_save_def comp_def case_prod_unfold)
  ultimately show ?thesis
    using idx tr by (cases t; cases t0) (simp add: gpt2_load_def index_of_merges_def Let_def)
qed

end
