(* ===== verification/TokenizerProperties.thy ===== *)
theory TokenizerProperties
  imports CharTokenizer Gpt2Bpe
begin

text \<open>
  The properties of the three tokenizers (\<open>labs/tokenizer\<close>): what encoding and decoding promise to a
  client, for every corpus and every text, and what one merge and one choice of a pair do.
\<close>

section \<open>Characters\<close>

text \<open>The character tokenizer maps every character to one id, and decoding gives back exactly the
  characters of the text that the training corpus contains.\<close>

theorem char_tokenizer_round_trip:
  assumes "char_encode (char_train corpus t) s = Inr ids"
  shows "length ids = length s
       \<and> char_decode (char_train corpus t) ids = Inr (filter (\<lambda>c. c \<in> set corpus) s)"
  using char_round_trip [OF assms] .

theorem char_tokenizer_round_trip_witness:
  "\<exists>ids. char_encode (char_train [97, 98] new_char_tok) [98, 120, 97] = Inr ids
     \<and> char_decode (char_train [97, 98] new_char_tok) ids = Inr [98, 97]"
proof -
  have "\<not> isl (char_encode (char_train [97, 98] new_char_tok) [98, 120, 97])" by code_simp
  then obtain ids where "char_encode (char_train [97, 98] new_char_tok) [98, 120, 97] = Inr ids"
    by (cases "char_encode (char_train [97, 98] new_char_tok) [98, 120, 97]") auto
  with char_tokenizer_round_trip [OF this] show ?thesis by simp
qed

section \<open>Byte pairs\<close>

text \<open>\<open>_apply_merge\<close> with a fresh id replaces every occurrence of the pair it meets from the left:
  the pair is gone, the list expands to the same bytes, and it is shorter when the pair occurred.\<close>

theorem apply_merge_correct:
  assumes "new_id \<noteq> fst pr" and "new_id \<noteq> snd pr" and "v new_id = v (fst pr) @ v (snd pr)"
  shows "\<not> adjacent pr (apply_merge ids pr new_id)
       \<and> concat (map v (apply_merge ids pr new_id)) = concat (map v ids)
       \<and> (if adjacent pr ids then length (apply_merge ids pr new_id) < length ids
          else apply_merge ids pr new_id = ids)"
proof -
  have "merge_pairs pr new_id ids = ids" if "\<not> adjacent pr ids"
    using that by (induction pr new_id ids rule: merge_pairs.induct) auto
  then show ?thesis
    using merge_pairs_complete [OF assms(1,2), of ids] expand_merge_pairs [of v new_id pr ids] assms(3)
      length_merge_pairs_less [of pr ids new_id]
    unfolding apply_merge_eq expand_def by simp
qed

theorem apply_merge_correct_witness:
  "\<not> adjacent (1, 1) (apply_merge [1, 1, 1, 1, 1] (1, 1) 256)
   \<and> length (apply_merge [1, 1, 1, 1, 1] (1, 1) 256) < 5"
  using apply_merge_correct [of 256 "(1, 1)" "\<lambda>i. if i = 256 then [0, 0] else [0 :: nat]" "[1, 1, 1, 1, 1]"]
  by simp

text \<open>The pair chosen in a training step is the most frequent adjacent pair; ties go to the
  greatest pair of ids.\<close>

theorem best_pair_most_frequent:
  assumes "best_pair (count_pairs ids []) = Some (p, c)"
  shows "c = pair_count ids p \<and> adjacent p ids
       \<and> (\<forall>q. pair_count ids q < c \<or> pair_count ids q = c \<and>
              (q = p \<or> fst q < fst p \<or> fst q = fst p \<and> snd q < snd p))"
proof -
  have "pair_count ids q < c \<or> pair_count ids q = c \<and>
      (q = p \<or> fst q < fst p \<or> fst q = fst p \<and> snd q < snd p)" for q
    using best_pair_counts(3,4) [OF assms, of q] by linarith
  then show ?thesis using best_pair_counts(1,2) [OF assms] by blast
qed

theorem best_pair_most_frequent_witness:
  "best_pair (count_pairs [1, 2, 1, 2, 3] []) = Some ((1, 2), 2) \<and> pair_count [1, 2, 1, 2, 3] (2, 1) \<le> 2"
proof -
  have b: "best_pair (count_pairs [1, 2, 1, 2, 3] []) = Some ((1, 2), 2)" by code_simp
  with best_pair_most_frequent [OF b] show ?thesis by (metis nat_less_le order_refl)
qed

text \<open>C9: Training on any text of Unicode scalar values succeeds within the requested vocabulary, and
  the trained tokenizer encodes every such text, decodes it back to the same text and never produces
  more tokens than the text has bytes.\<close>

theorem bpe_round_trip:
  assumes "256 < n" and "list_all scalar corpus" and "list_all scalar s"
  shows "\<exists>t' ids bs. bpe_train corpus n t = Inr t' \<and> int (bpe_vocab_size t') \<le> n
     \<and> utf8_encode s = Inr bs \<and> bpe_encode t' s = Inr ids \<and> bpe_decode t' ids = Inr s \<and> length ids \<le> length bs"
proof -
  obtain t' where t': "bpe_train corpus n t = Inr t'" using bpe_train_total [OF assms(1,2)] by blast
  note r = bpe_train_ready(1-3) [OF t']
  obtain bs where bs: "utf8_encode s = Inr bs" using assms(3) by (simp add: utf8_encode_def)
  obtain ids where ids: "bpe_encode t' s = Inr ids" using bp.enc_total [OF r(1) assms(3)] by blast
  show ?thesis
    using t' r bs ids bp.round_trip [OF r(1) ids] bp.no_longer_than_bytes [OF r(1) ids bs] by auto
qed

theorem bpe_round_trip_witness:
  "\<exists>t' ids. bpe_train [97, 98, 97, 98] 257 new_bpe = Inr t' \<and> bpe_encode t' [8364] = Inr ids
      \<and> bpe_decode t' ids = Inr [8364]"
  using bpe_round_trip [of 257 "[97, 98, 97, 98]" "[8364]" new_bpe] by (auto simp: scalar_def)

text \<open>Every merge learned shortens the encoding of the training corpus by at least one token.\<close>

theorem bpe_compresses_corpus:
  assumes "bpe_train corpus n t = Inr t'" and "bpe_encode t' corpus = Inr ids" and "utf8_encode corpus = Inr bs"
  shows "length ids + length (merges t') \<le> length bs"
  using bpe_train_ready(4) [OF assms] .

theorem bpe_compresses_corpus_witness:
  "\<exists>t' ids. bpe_train [97, 98, 97, 98] 300 new_bpe = Inr t' \<and> bpe_encode t' [97, 98, 97, 98] = Inr ids
      \<and> length ids + length (merges t') \<le> 4"
proof -
  have s: "list_all scalar [97, 98, 97, 98]" by (simp add: scalar_def)
  obtain t' where t: "bpe_train [97, 98, 97, 98] 300 new_bpe = Inr t'"
    using bpe_train_total [of 300 "[97, 98, 97, 98]" new_bpe] s by auto
  obtain ids where i: "bpe_encode t' [97, 98, 97, 98] = Inr ids"
    using bp.enc_total [OF bpe_train_ready(1) [OF t] s] by blast
  have b: "utf8_encode [97, 98, 97, 98] = Inr [97, 98, 97, 98]"
    by (simp add: utf8_encode_def utf8_encode_cp_def scalar_def)
  have "length ids + length (merges t') \<le> 4" using bpe_compresses_corpus [OF t i b] by simp
  with t i show ?thesis by blast
qed

text \<open>The pre-tokenization pattern of the GPT-2 tokenizer cuts a text into non-empty pieces whose
  concatenation is the text, whatever the Unicode classes are, so no character is lost.\<close>

theorem findall_partitions:
  "concat (findall cc s) = s \<and> [] \<notin> set (findall cc s)"
  by (simp add: concat_findall findall_nonempty)

text \<open>C10: The GPT-2 tokenizer trains on any text, its saved file loads back to the same tokenizer
  whatever the loading object held, and the loaded tokenizer round-trips every text.\<close>

theorem gpt2_save_load_round_trip:
  assumes "256 < n" and "list_all scalar corpus" and "list_all scalar s"
  shows "\<exists>t' ids. gpt2_train cc corpus n t = Inr t' \<and> gpt2_load (gpt2_save t') t0 = Inr t'
     \<and> 256 + int (length (merges t')) \<le> n
     \<and> gpt2_encode cc t' s = Inr ids \<and> gpt2_decode t' ids = Inr s"
proof -
  obtain t' where t': "gpt2_train cc corpus n t = Inr t'" using gpt2_train_total [OF assms(1,2)] by blast
  note r = gpt2_train_ready [OF t']
  obtain ids where ids: "gpt2_encode cc t' s = Inr ids" using gp.enc_total [OF r(1) assms(3)] by blast
  show ?thesis using t' r ids gp.round_trip [OF r(1) ids] gpt2_load_save [OF r(1)] by blast
qed

theorem gpt2_save_load_round_trip_witness:
  "\<exists>t'. gpt2_train \<lparr>is_letter = (\<lambda>c. 97 \<le> c), is_number = (\<lambda>c. False), is_white = (\<lambda>c. c = 32)\<rparr>
         [97, 98, 32, 97] 300 new_bpe = Inr t' \<and> gpt2_load (gpt2_save t') new_bpe = Inr t'"
  using gpt2_save_load_round_trip [of 300 "[97, 98, 32, 97]" "[97]"
      "\<lparr>is_letter = (\<lambda>c. 97 \<le> c), is_number = (\<lambda>c. False), is_white = (\<lambda>c. c = 32)\<rparr>" new_bpe new_bpe]
  by (auto simp: scalar_def)

end
