(* ===== verification/KvCache.thy ===== *)
theory KvCache
  imports PyDict
begin

text \<open>
  The \<open>KVCache\<close> of \<open>v1_kv_cache.py\<close> and the size formulas of \<open>v0_naive.py\<close> and \<open>v1_kv_cache.py\<close>.
  A key or value tensor of shape \<open>(1, n_heads, seq_len, d_head)\<close> is its element size, its head size
  and, per head, its rows; \<open>torch.cat(dim=2)\<close> (\<open>tensor_cat\<close>) appends rows head by head and raises
  when the other dimensions differ. Entries are of any type: the cache never looks at them.
\<close>

record 'a tensor =
  elem_size :: nat
  head_dim :: nat
  rows :: "'a list list list"

type_synonym 'a layer_kv = "'a tensor \<times> 'a tensor"

record 'a kvcache =
  cache :: "(int, 'a layer_kv) pydict"

definition new_kvcache :: "'a kvcache" where
  "new_kvcache = \<lparr>cache = []\<rparr>"

definition n_heads :: "'a tensor \<Rightarrow> nat" where
  "n_heads x = length (rows x)"

text \<open>\<open>shape[2]\<close>, the same for every head of a tensor.\<close>

definition shape2 :: "'a tensor \<Rightarrow> nat" where
  "shape2 x = (case rows x of [] \<Rightarrow> 0 | h # _ \<Rightarrow> length h)"

definition nelement :: "'a tensor \<Rightarrow> nat" where
  "nelement x = n_heads x * shape2 x * head_dim x"

definition tensor_cat :: "'a tensor \<Rightarrow> 'a tensor \<Rightarrow> 'a tensor result" where
  "tensor_cat x y =
     (if n_heads x = n_heads y \<and> head_dim x = head_dim y
      then Inr (x\<lparr>rows := map2 (@) (rows x) (rows y)\<rparr>)
      else Inl (RuntimeError ''Sizes of tensors must match except in dimension 2''))"

definition kv_update :: "int \<Rightarrow> 'a tensor \<Rightarrow> 'a tensor \<Rightarrow> 'a kvcache \<Rightarrow> ('a layer_kv \<times> 'a kvcache) result" where
  "kv_update layer new_k new_v c =
     (case dget (cache c) layer of
        None \<Rightarrow> Inr ((new_k, new_v), c\<lparr>cache := dset (cache c) layer (new_k, new_v)\<rparr>)
      | Some (prev_k, prev_v) \<Rightarrow>
          rbind (tensor_cat prev_k new_k) (\<lambda>full_k. rbind (tensor_cat prev_v new_v) (\<lambda>full_v.
            Inr ((full_k, full_v), c\<lparr>cache := dset (cache c) layer (full_k, full_v)\<rparr>))))"

definition kv_get :: "int \<Rightarrow> 'a kvcache \<Rightarrow> 'a layer_kv option" where
  "kv_get layer c = dget (cache c) layer"

definition kv_set :: "int \<Rightarrow> 'a layer_kv \<Rightarrow> 'a kvcache \<Rightarrow> 'a kvcache" where
  "kv_set layer kv c = c\<lparr>cache := dset (cache c) layer kv\<rparr>"

definition seq_len :: "'a kvcache \<Rightarrow> nat" where
  "seq_len c = (case cache c of [] \<Rightarrow> 0 | (_, (k, _)) # _ \<Rightarrow> shape2 k)"

definition layer_bytes :: "'a layer_kv \<Rightarrow> nat" where
  "layer_bytes kv = elem_size (fst kv) * nelement (fst kv) + elem_size (snd kv) * nelement (snd kv)"

definition memory_bytes :: "'a kvcache \<Rightarrow> nat" where
  "memory_bytes c = fold (\<lambda>kv total. total + layer_bytes kv) (dvals (cache c)) 0"

definition expected_memory_bytes :: "int \<Rightarrow> int \<Rightarrow> int \<Rightarrow> int \<Rightarrow> int" where
  "expected_memory_bytes layers heads d_head slen = 2 * layers * heads * d_head * slen * 4"

definition kv_clear :: "'a kvcache \<Rightarrow> 'a kvcache" where
  "kv_clear c = c\<lparr>cache := []\<rparr>"

definition kv_cache_size_formula :: "int \<Rightarrow> int \<Rightarrow> int \<Rightarrow> int \<Rightarrow> int \<Rightarrow> int option \<Rightarrow> int" where
  "kv_cache_size_formula layers heads d_head slen bytes_per_element n_kv_heads =
     (let kv_heads = (case n_kv_heads of None \<Rightarrow> heads | Some h \<Rightarrow> h)
      in 2 * layers * kv_heads * d_head * slen * bytes_per_element)"

definition estimate_activation_memory_bytes :: "int \<Rightarrow> int \<Rightarrow> int \<Rightarrow> int" where
  "estimate_activation_memory_bytes slen layers d_model = layers * 12 * slen * slen * 4"

section \<open>Appending along the sequence\<close>

text \<open>A tensor with \<open>h\<close> heads of \<open>n\<close> rows of \<open>d\<close> elements of \<open>e\<close> bytes.\<close>

definition has_shape :: "nat \<Rightarrow> nat \<Rightarrow> nat \<Rightarrow> nat \<Rightarrow> 'a tensor \<Rightarrow> bool" where
  "has_shape h n d e x \<longleftrightarrow> length (rows x) = h \<and> head_dim x = d \<and> elem_size x = e \<and>
     (\<forall>r \<in> set (rows x). length r = n \<and> (\<forall>v \<in> set r. length v = d))"

lemma has_shape_sizes:
  "has_shape h n d e x \<Longrightarrow> 0 < h \<Longrightarrow> shape2 x = n"
  "has_shape h n d e x \<Longrightarrow> nelement x = h * n * d"
proof -
  show "has_shape h n d e x \<Longrightarrow> 0 < h \<Longrightarrow> shape2 x = n" for h
    by (cases "rows x") (auto simp: has_shape_def shape2_def)
  then show "has_shape h n d e x \<Longrightarrow> nelement x = h * n * d"
    by (cases h) (auto simp: has_shape_def nelement_def n_heads_def)
qed

lemma tensor_cat_shape:
  assumes "has_shape h n d e x" and "has_shape h m d e y"
  obtains z where "tensor_cat x y = Inr z" and "has_shape h (n + m) d e z" and "rows z = map2 (@) (rows x) (rows y)"
proof -
  let ?z = "x\<lparr>rows := map2 (@) (rows x) (rows y)\<rparr>"
  have 1: "tensor_cat x y = Inr ?z" using assms by (simp add: tensor_cat_def n_heads_def has_shape_def)
  have 2: "has_shape h (n + m) d e ?z"
  proof -
    have "length r = n + m \<and> (\<forall>v \<in> set r. length v = d)" if "r \<in> set (map2 (@) (rows x) (rows y))" for r
    proof -
      from that obtain a b where "(a, b) \<in> set (zip (rows x) (rows y))" and r: "r = a @ b" by auto
      then have "a \<in> set (rows x)" "b \<in> set (rows y)" by (auto dest: set_zip_leftD set_zip_rightD)
      then show ?thesis using assms r unfolding has_shape_def by fastforce
    qed
    then show ?thesis using assms by (simp add: has_shape_def)
  qed
  show thesis by (rule that [OF 1 2]) simp
qed

text \<open>The cache of one step: every layer holds \<open>n\<close> positions.\<close>

definition cache_shape :: "nat \<Rightarrow> nat \<Rightarrow> nat \<Rightarrow> nat \<Rightarrow> nat \<Rightarrow> 'a kvcache \<Rightarrow> bool" where
  "cache_shape layers h n d e c \<longleftrightarrow> dkeys (cache c) = map int [0..<layers] \<and>
     (\<forall>kv \<in> set (dvals (cache c)). has_shape h n d e (fst kv) \<and> has_shape h n d e (snd kv))"

lemma memory_bytes_sum: "memory_bytes c = (\<Sum>kv\<leftarrow>dvals (cache c). layer_bytes kv)"
proof -
  have "fold (\<lambda>kv total. total + layer_bytes kv) kvs t = t + (\<Sum>kv\<leftarrow>kvs. layer_bytes kv)"
    for kvs :: "'a layer_kv list" and t
    by (induction kvs arbitrary: t) simp_all
  from this [of _ 0] show ?thesis by (simp add: memory_bytes_def)
qed

lemma cache_shape_bytes:
  assumes "cache_shape layers h n d e c"
  shows "memory_bytes c = 2 * layers * h * d * n * e"
proof -
  have bytes: "layer_bytes kv = 2 * (e * (h * n * d))" if "kv \<in> set (dvals (cache c))" for kv
  proof -
    have shp: "has_shape h n d e (fst kv)" "has_shape h n d e (snd kv)"
      using assms that by (auto simp: cache_shape_def)
    then have "elem_size (fst kv) = e" "elem_size (snd kv) = e" by (simp_all add: has_shape_def)
    then show ?thesis using has_shape_sizes(2) [OF shp(1)] has_shape_sizes(2) [OF shp(2)]
      by (simp add: layer_bytes_def)
  qed
  have "memory_bytes c = length (dvals (cache c)) * (2 * (e * (h * n * d)))"
  proof -
    have "map layer_bytes (dvals (cache c)) = map (\<lambda>_. 2 * (e * (h * n * d))) (dvals (cache c))"
      using bytes by simp
    then show ?thesis unfolding memory_bytes_sum by (simp only: map_replicate_const sum_list_replicate) simp
  qed
  moreover have "length (dvals (cache c)) = layers"
  proof -
    have "length (dkeys (cache c)) = layers" using assms by (simp add: cache_shape_def)
    then show ?thesis by (simp add: dvals_def)
  qed
  ultimately show ?thesis by (simp add: ac_simps)
qed

text \<open>Feeding a layer piece by piece.\<close>

definition kv_updates :: "int \<Rightarrow> 'a layer_kv list \<Rightarrow> 'a kvcache \<Rightarrow> 'a kvcache result" where
  "kv_updates layer kvs c = rfold (\<lambda>(k, v) c. rmap snd (kv_update layer k v c)) kvs c"

lemma kv_updates_from:
  assumes "dget (cache c) layer = Some (k0, v0)" and "has_shape h n d e k0" and "has_shape h n d e v0"
    and "\<forall>(k, v) \<in> set kvs. has_shape h (shape2 k) d e k \<and> has_shape h (shape2 k) d e v"
  shows "\<exists>c' k1 v1. kv_updates layer kvs c = Inr c' \<and> dget (cache c') layer = Some (k1, v1) \<and>
     has_shape h (n + (\<Sum>kv\<leftarrow>kvs. shape2 (fst kv))) d e k1 \<and> has_shape h (n + (\<Sum>kv\<leftarrow>kvs. shape2 (fst kv))) d e v1 \<and>
     (\<forall>i < h. rows k1 ! i = rows k0 ! i @ concat (map (\<lambda>kv. rows (fst kv) ! i) kvs) \<and>
              rows v1 ! i = rows v0 ! i @ concat (map (\<lambda>kv. rows (snd kv) ! i) kvs)) \<and>
     (\<forall>l. l \<noteq> layer \<longrightarrow> dget (cache c') l = dget (cache c) l)"
  using assms
proof (induction kvs arbitrary: c k0 v0 n)
  case Nil
  then show ?case by (simp add: kv_updates_def)
next
  case (Cons kv kvs)
  obtain k v where kv: "kv = (k, v)" by (cases kv)
  with Cons.prems(4) have kvs: "has_shape h (shape2 k) d e k" "has_shape h (shape2 k) d e v" by simp_all
  obtain zk where zk: "tensor_cat k0 k = Inr zk" "has_shape h (n + shape2 k) d e zk" "rows zk = map2 (@) (rows k0) (rows k)"
    by (rule tensor_cat_shape [OF Cons.prems(2) kvs(1)])
  obtain zv where zv: "tensor_cat v0 v = Inr zv" "has_shape h (n + shape2 k) d e zv" "rows zv = map2 (@) (rows v0) (rows v)"
    by (rule tensor_cat_shape [OF Cons.prems(3) kvs(2)])
  let ?c = "c\<lparr>cache := dset (cache c) layer (zk, zv)\<rparr>"
  have step: "kv_updates layer (kv # kvs) c = kv_updates layer kvs ?c"
    by (simp add: kv_updates_def kv kv_update_def Cons.prems(1) zk(1) zv(1))
  have len: "length (rows k0) = h" "length (rows k) = h" "length (rows v0) = h" "length (rows v) = h"
    using Cons.prems(2,3) kvs by (simp_all add: has_shape_def)
  have "dget (cache ?c) layer = Some (zk, zv)" by simp
  from Cons.IH [OF this zk(2) zv(2)] Cons.prems(4) obtain c' k1 v1 where IH:
    "kv_updates layer kvs ?c = Inr c'" "dget (cache c') layer = Some (k1, v1)"
    "has_shape h (n + shape2 k + (\<Sum>kv\<leftarrow>kvs. shape2 (fst kv))) d e k1"
    "has_shape h (n + shape2 k + (\<Sum>kv\<leftarrow>kvs. shape2 (fst kv))) d e v1"
    "\<forall>i < h. rows k1 ! i = rows zk ! i @ concat (map (\<lambda>kv. rows (fst kv) ! i) kvs) \<and>
             rows v1 ! i = rows zv ! i @ concat (map (\<lambda>kv. rows (snd kv) ! i) kvs)"
    "\<forall>l. l \<noteq> layer \<longrightarrow> dget (cache c') l = dget (cache ?c) l"
    by auto
  show ?case
    unfolding step using IH zk(3) zv(3) len
    by (intro exI [of _ c'] exI [of _ k1] exI [of _ v1]) (simp add: kv add.assoc)
qed

text \<open>A fresh layer ends up with the rows of all pieces, in order; other layers are untouched.\<close>

lemma kv_updates_fresh:
  assumes "dget (cache c) layer = None" and "kvs \<noteq> []"
    and "\<forall>(k, v) \<in> set kvs. has_shape h (shape2 k) d e k \<and> has_shape h (shape2 k) d e v"
  shows "\<exists>c' k1 v1. kv_updates layer kvs c = Inr c' \<and> kv_get layer c' = Some (k1, v1) \<and>
     has_shape h (\<Sum>kv\<leftarrow>kvs. shape2 (fst kv)) d e k1 \<and> has_shape h (\<Sum>kv\<leftarrow>kvs. shape2 (fst kv)) d e v1 \<and>
     (\<forall>i < h. rows k1 ! i = concat (map (\<lambda>kv. rows (fst kv) ! i) kvs) \<and>
              rows v1 ! i = concat (map (\<lambda>kv. rows (snd kv) ! i) kvs)) \<and>
     (\<forall>l. l \<noteq> layer \<longrightarrow> kv_get l c' = kv_get l c)"
proof -
  from assms(2) obtain k v rest where kvs: "kvs = (k, v) # rest" by (metis list.exhaust surj_pair)
  let ?c = "c\<lparr>cache := dset (cache c) layer (k, v)\<rparr>"
  have shp: "has_shape h (shape2 k) d e k" "has_shape h (shape2 k) d e v"
    and rest: "\<forall>(k, v) \<in> set rest. has_shape h (shape2 k) d e k \<and> has_shape h (shape2 k) d e v"
    using assms(3) by (simp_all add: kvs)
  have step: "kv_updates layer kvs c = kv_updates layer rest ?c"
    by (simp add: kv_updates_def kvs kv_update_def assms(1))
  have "dget (cache ?c) layer = Some (k, v)" by simp
  from kv_updates_from [OF this shp rest] show ?thesis
    unfolding step kv_get_def by (auto simp: kvs)
qed

end
