(* ===== verification/Generation.thy ===== *)
theory Generation
  imports KvCache Complex_Main
begin

text \<open>
  The generation loops of \<open>v0_naive.py\<close> and \<open>v1_kv_cache.py\<close>. The transformer, its sampler and its
  tokenizer come from \<open>torch\<close> and \<open>transformers\<close>; they are the fields of \<open>lm\<close>: \<open>fwd ids past\<close> is a
  forward pass (logits of the last position and the new \<open>past_key_values\<close>), \<open>argmax_of\<close> and
  \<open>multinomial\<close> the two ways to pick a token (the second threads the generator's state),
  \<open>kv_layers\<close> the tensors of a \<open>past_key_values\<close>. Wall-clock fields of the results are left out.

  \<open>kv_consistent\<close> is what \<open>transformers\<close> documents of \<open>past_key_values\<close>: a pass over the new tokens
  with the cache of the old ones gives what a pass over all of them gives.
\<close>

record ('l, 'k, 's, 'a) lm =
  fwd :: "int list \<Rightarrow> 'k option \<Rightarrow> 'l \<times> 'k"
  argmax_of :: "'l \<Rightarrow> int"
  multinomial :: "rat \<Rightarrow> 'l \<Rightarrow> 's \<Rightarrow> int \<times> 's"
  tok_encode :: "string \<Rightarrow> int list"
  tok_decode :: "int list \<Rightarrow> string"
  eos_token :: "int option"
  kv_layers :: "'k \<Rightarrow> 'a layer_kv list"

record gen_result =
  gen_text :: string
  prompt_tokens :: nat
  generated_tokens :: nat

definition is_eos :: "('l, 'k, 's, 'a) lm \<Rightarrow> int \<Rightarrow> bool" where
  "is_eos m tok \<longleftrightarrow> eos_token m = Some tok"

definition sample :: "('l, 'k, 's, 'a) lm \<Rightarrow> rat \<Rightarrow> 'l \<Rightarrow> 's \<Rightarrow> int \<times> 's" where
  "sample m temp logits s = (if temp \<le> 0 then (argmax_of m logits, s) else multinomial m temp logits s)"

text \<open>The result built from the final ids of the sequence.\<close>

definition result_of :: "('l, 'k, 's, 'a) lm \<Rightarrow> nat \<Rightarrow> int list \<Rightarrow> gen_result" where
  "result_of m prompt_len ids =
     \<lparr>gen_text = tok_decode m ids, prompt_tokens = prompt_len,
      generated_tokens = length (drop prompt_len ids)\<rparr>"

section \<open>Without a cache\<close>

fun naive_loop :: "('l, 'k, 's, 'a) lm \<Rightarrow> rat \<Rightarrow> nat \<Rightarrow> int list \<Rightarrow> 's \<Rightarrow> int list \<times> 's" where
  "naive_loop m temp 0 ids s = (ids, s)"
| "naive_loop m temp (Suc n) ids s =
     (let (tok, s') = sample m temp (fst (fwd m ids None)) s; ids' = ids @ [tok]
      in if is_eos m tok then (ids', s') else naive_loop m temp n ids' s')"

definition generate_naive :: "('l, 'k, 's, 'a) lm \<Rightarrow> string \<Rightarrow> int \<Rightarrow> rat \<Rightarrow> 's \<Rightarrow> gen_result \<times> 's" where
  "generate_naive m prompt max_tokens temp s =
     (let ids0 = tok_encode m prompt; (ids, s') = naive_loop m temp (nat max_tokens) ids0 s
      in (result_of m (length ids0) ids, s'))"

text \<open>\<open>PerTokenTiming\<close> without its time: the index of a token and the length of its context.\<close>

fun timing_loop ::
  "('l, 'k, 's, 'a) lm \<Rightarrow> rat \<Rightarrow> nat \<Rightarrow> nat \<Rightarrow> int list \<Rightarrow> 's \<Rightarrow> (nat \<times> nat) list \<Rightarrow> int list \<times> 's \<times> (nat \<times> nat) list"
where
  "timing_loop m temp step 0 ids s ts = (ids, s, ts)"
| "timing_loop m temp step (Suc n) ids s ts =
     (let (tok, s') = sample m temp (fst (fwd m ids None)) s; ids' = ids @ [tok]; ts' = ts @ [(step, length ids)]
      in if is_eos m tok then (ids', s', ts') else timing_loop m temp (step + 1) n ids' s' ts')"

definition generate_naive_with_timing ::
  "('l, 'k, 's, 'a) lm \<Rightarrow> string \<Rightarrow> int \<Rightarrow> rat \<Rightarrow> 's \<Rightarrow> gen_result \<times> (nat \<times> nat) list \<times> 's" where
  "generate_naive_with_timing m prompt max_tokens temp s =
     (let ids0 = tok_encode m prompt; (ids, s', ts) = timing_loop m temp 0 (nat max_tokens) ids0 s []
      in (result_of m (length ids0) ids, ts, s'))"

section \<open>With the cache\<close>

fun kv_loop ::
  "('l, 'k, 's, 'a) lm \<Rightarrow> rat \<Rightarrow> nat \<Rightarrow> int \<Rightarrow> 'k \<Rightarrow> int list \<Rightarrow> 's \<Rightarrow> int list \<times> 'k \<times> 's" where
  "kv_loop m temp 0 tok past ids s = (ids, past, s)"
| "kv_loop m temp (Suc n) tok past ids s =
     (let (logits, past') = fwd m [tok] (Some past); (tok', s') = sample m temp logits s; ids' = ids @ [tok']
      in if is_eos m tok' then (ids', past', s') else kv_loop m temp n tok' past' ids' s')"

definition past_bytes :: "('l, 'k, 's, 'a) lm \<Rightarrow> 'k \<Rightarrow> nat" where
  "past_bytes m past = fold (\<lambda>kv n. n + layer_bytes kv) (kv_layers m past) 0"

definition generate_with_kv_cache ::
  "('l, 'k, 's, 'a) lm \<Rightarrow> string \<Rightarrow> int \<Rightarrow> rat \<Rightarrow> 's \<Rightarrow> gen_result \<times> nat \<times> 's" where
  "generate_with_kv_cache m prompt max_tokens temp s =
     (let ids0 = tok_encode m prompt; (logits, past) = fwd m ids0 None;
          (tok, s1) = sample m temp logits s; ids1 = ids0 @ [tok];
          (ids, past', s') =
            (if is_eos m tok then (ids1, past, s1) else kv_loop m temp (nat (max_tokens - 1)) tok past ids1 s1)
      in (result_of m (length ids0) ids, past_bytes m past', s'))"

text \<open>The manual version, whose \<open>KVCache\<close> only does the accounting.\<close>

definition fill_cache :: "'a layer_kv list \<Rightarrow> 'a kvcache \<Rightarrow> 'a kvcache result" where
  "fill_cache kvs c = rfold (\<lambda>(i, (k, v)) c. rmap (\<lambda>(_, c). kv_set (int i) (k, v) c) (kv_update (int i) k v c))
     (enumerate 0 kvs) c"

definition reset_cache :: "'a layer_kv list \<Rightarrow> 'a kvcache \<Rightarrow> 'a kvcache" where
  "reset_cache kvs c = fold (\<lambda>(i, kv) c. kv_set (int i) kv c) (enumerate 0 kvs) c"

fun manual_loop ::
  "('l, 'k, 's, 'a) lm \<Rightarrow> rat \<Rightarrow> nat \<Rightarrow> int \<Rightarrow> 'k \<Rightarrow> 'a kvcache \<Rightarrow> int list \<Rightarrow> 's \<Rightarrow> int list \<times> 'a kvcache \<times> 's" where
  "manual_loop m temp 0 tok past c ids s = (ids, c, s)"
| "manual_loop m temp (Suc n) tok past c ids s =
     (let (logits, past') = fwd m [tok] (Some past); c' = reset_cache (kv_layers m past') c;
          (tok', s') = sample m temp logits s; ids' = ids @ [tok']
      in if is_eos m tok' then (ids', c', s') else manual_loop m temp n tok' past' c' ids' s')"

definition generate_with_manual_kv_cache ::
  "('l, 'k, 's, 'a) lm \<Rightarrow> string \<Rightarrow> int \<Rightarrow> rat \<Rightarrow> 's \<Rightarrow> (gen_result \<times> nat \<times> 'a kvcache \<times> 's) result" where
  "generate_with_manual_kv_cache m prompt max_tokens temp s =
     (let ids0 = tok_encode m prompt; (logits, past) = fwd m ids0 None
      in rmap (\<lambda>c.
           let (tok, s1) = sample m temp logits s;
               (ids, c', s') = manual_loop m temp (nat (max_tokens - 1)) tok past c (ids0 @ [tok]) s1
           in (result_of m (length ids0) ids, memory_bytes c', c', s'))
         (fill_cache (kv_layers m past) new_kvcache))"

section \<open>The cached loop generates the same tokens\<close>

definition kv_consistent :: "('l, 'k, 's, 'a) lm \<Rightarrow> bool" where
  "kv_consistent m \<longleftrightarrow>
     (\<forall>old new. old \<noteq> [] \<longrightarrow> new \<noteq> [] \<longrightarrow> fwd m new (Some (snd (fwd m old None))) = fwd m (old @ new) None)"

lemma kv_loop_naive:
  assumes "kv_consistent m" and "old \<noteq> []"
  shows "kv_loop m temp n tok (snd (fwd m old None)) (old @ [tok]) s =
     (let (ids, s') = naive_loop m temp n (old @ [tok]) s in (ids, snd (fwd m (butlast ids) None), s'))"
  using assms(2)
proof (induction n arbitrary: tok old s)
  case (Suc n)
  have eq: "fwd m [tok] (Some (snd (fwd m old None))) = fwd m (old @ [tok]) None"
    using assms(1) Suc.prems by (simp add: kv_consistent_def)
  obtain l past where fw: "fwd m (old @ [tok]) None = (l, past)" by (cases "fwd m (old @ [tok]) None")
  obtain tok' s1 where smp: "sample m temp l s = (tok', s1)" by (cases "sample m temp l s")
  show ?case
    using Suc.IH [of "old @ [tok]" tok' s1] by (simp add: eq fw smp Let_def butlast_append)
qed (simp add: butlast_append)

lemma generate_kv_naive:
  assumes "kv_consistent m" and "tok_encode m prompt \<noteq> []" and "1 \<le> max_tokens"
  shows "(case generate_with_kv_cache m prompt max_tokens temp s of (r, b, s') \<Rightarrow> (r, s'))
       = generate_naive m prompt max_tokens temp s"
proof -
  let ?ids = "tok_encode m prompt"
  obtain l past where fw: "fwd m ?ids None = (l, past)" by (cases "fwd m ?ids None")
  obtain tok s1 where smp: "sample m temp l s = (tok, s1)" by (cases "sample m temp l s")
  have n: "nat max_tokens = Suc (nat (max_tokens - 1))" using assms(3) by simp
  show ?thesis
    using kv_loop_naive [OF assms(1,2), of temp "nat (max_tokens - 1)" tok s1]
    by (auto simp: generate_with_kv_cache_def generate_naive_def n fw smp Let_def split: prod.split)
qed

lemma naive_loop_length:
  "length ids \<le> length (fst (naive_loop m temp n ids s)) \<and>
   length (fst (naive_loop m temp n ids s)) \<le> length ids + n"
proof (induction n arbitrary: ids s)
  case (Suc n)
  obtain tok s1 where smp: "sample m temp (fst (fwd m ids None)) s = (tok, s1)"
    by (cases "sample m temp (fst (fwd m ids None)) s")
  show ?case using Suc.IH [of "ids @ [tok]" s1] by (simp add: smp Let_def)
qed simp

lemma timing_loop_naive:
  "timing_loop m temp step n ids s ts =
     (case naive_loop m temp n ids s of (ids', s') \<Rightarrow>
        (ids', s', ts @ map (\<lambda>i. (step + i, length ids + i)) [0..<length ids' - length ids]))"
proof (induction n arbitrary: step ids s ts)
  case (Suc n)
  obtain tok s1 where smp: "sample m temp (fst (fwd m ids None)) s = (tok, s1)"
    by (cases "sample m temp (fst (fwd m ids None)) s")
  obtain ids2 s2 where rest: "naive_loop m temp n (ids @ [tok]) s1 = (ids2, s2)"
    by (cases "naive_loop m temp n (ids @ [tok]) s1")
  have "length ids < length ids2" using naive_loop_length [of "ids @ [tok]" m temp n s1] rest by simp
  then have "length ids2 - length ids = Suc (length ids2 - Suc (length ids))" by simp
  then have ixs: "map (\<lambda>i. (step + i, length ids + i)) [0..<length ids2 - length ids]
      = (step, length ids) # map (\<lambda>i. (step + 1 + i, length (ids @ [tok]) + i)) [0..<length ids2 - length (ids @ [tok])]"
    by (simp only: upt_conv_Cons zero_less_Suc flip: map_Suc_upt) (simp add: comp_def)
  have rec: "timing_loop m temp (step + 1) n (ids @ [tok]) s1 ts'
      = (ids2, s2, ts' @ map (\<lambda>i. (step + 1 + i, length (ids @ [tok]) + i)) [0..<length ids2 - length (ids @ [tok])])" for ts'
    unfolding Suc.IH rest by (simp only: prod.case)
  show ?case
  proof (cases "is_eos m tok")
    case True
    then show ?thesis by (simp add: smp Let_def)
  next
    case False
    then show ?thesis using rec [of "ts @ [(step, length ids)]"]
      by (simp add: smp rest ixs Let_def del: upt_Suc)
  qed
qed simp

section \<open>The accounting of the manual version\<close>

definition cache_of :: "'a layer_kv list \<Rightarrow> 'a kvcache" where
  "cache_of kvs = \<lparr>cache = map (\<lambda>(i, kv). (int i, kv)) (enumerate 0 kvs)\<rparr>"

definition fixed_layers :: "('l, 'k, 's, 'a) lm \<Rightarrow> nat \<Rightarrow> bool" where
  "fixed_layers m n \<longleftrightarrow> (\<forall>past. length (kv_layers m past) = n)"

lemma dset_append: "k \<notin> set (dkeys pre) \<Longrightarrow> dset (pre @ d) k v = pre @ dset d k v"
  by (induction pre) auto

lemma reset_cache_from:
  assumes "dkeys old = map int [n..<n + length kvs]" and "\<forall>k \<in> set (dkeys pre). k < int n"
  shows "fold (\<lambda>(i, kv) c. kv_set (int i) kv c) (enumerate n kvs) \<lparr>cache = pre @ old\<rparr>
       = \<lparr>cache = pre @ map (\<lambda>(i, kv). (int i, kv)) (enumerate n kvs)\<rparr>"
  using assms
proof (induction kvs arbitrary: n pre old)
  case (Cons kv kvs)
  have "[n..<n + length (kv # kvs)] = n # [Suc n..<Suc n + length kvs]" by (simp add: upt_rec del: upt_Suc)
  with Cons.prems(1) obtain x old' where old: "old = (int n, x) # old'" "dkeys old' = map int [Suc n..<Suc n + length kvs]"
    by (cases old) (auto simp del: upt_Suc)
  have "int n \<notin> set (dkeys pre)" using Cons.prems(2) by auto
  then have "kv_set (int n) kv \<lparr>cache = pre @ old\<rparr> = \<lparr>cache = (pre @ [(int n, kv)]) @ old'\<rparr>"
    by (simp add: kv_set_def old(1) dset_append)
  moreover have "\<forall>k \<in> set (dkeys (pre @ [(int n, kv)])). k < int (Suc n)" using Cons.prems(2) by auto
  ultimately show ?case
    using Cons.IH [OF old(2), of "pre @ [(int n, kv)]"] by (simp only: enumerate_simps fold_Cons comp_apply prod.case) simp
qed (simp add: dkeys_def)

lemma fill_cache_from:
  assumes "\<forall>k \<in> set (dkeys pre). k < int n"
  shows "rfold (\<lambda>(i, (k, v)) c. rmap (\<lambda>(_, c). kv_set (int i) (k, v) c) (kv_update (int i) k v c))
       (enumerate n kvs) \<lparr>cache = pre\<rparr>
     = Inr \<lparr>cache = pre @ map (\<lambda>(i, kv). (int i, kv)) (enumerate n kvs)\<rparr>"
  using assms
proof (induction kvs arbitrary: n pre)
  case (Cons kv kvs)
  obtain k v where kv: "kv = (k, v)" by (cases kv)
  have new: "int n \<notin> set (dkeys pre)" using Cons.prems by auto
  then have "dget pre (int n) = None" by (simp add: dget_None_iff)
  then have "rmap (\<lambda>(_, c). kv_set (int n) (k, v) c) (kv_update (int n) k v \<lparr>cache = pre\<rparr>)
      = Inr \<lparr>cache = pre @ [(int n, (k, v))]\<rparr>"
    using new by (simp add: kv_update_def kv_set_def dset_new dset_append)
  moreover have "\<forall>k \<in> set (dkeys (pre @ [(int n, (k, v))])). k < int (Suc n)" using Cons.prems by auto
  ultimately show ?case using Cons.IH by (simp add: kv)
qed simp

lemma dkeys_cache_of: "dkeys (cache (cache_of kvs)) = map int [0..<length kvs]"
proof -
  have "map fst (map (\<lambda>(i, kv). (int i, kv)) (enumerate n kvs)) = map int [n..<n + length kvs]" for n
    by (induction kvs arbitrary: n) (simp_all add: upt_rec del: upt_Suc)
  from this [of 0] show ?thesis by (simp add: cache_of_def dkeys_def)
qed

lemma fill_cache_new: "fill_cache kvs new_kvcache = Inr (cache_of kvs)"
  using fill_cache_from [of "[]" 0 kvs] by (simp add: fill_cache_def new_kvcache_def cache_of_def)

lemma reset_cache_of: "length old = length kvs \<Longrightarrow> reset_cache kvs (cache_of old) = cache_of kvs"
  using reset_cache_from [of "cache (cache_of old)" 0 kvs "[]"] dkeys_cache_of [of old]
  by (simp add: reset_cache_def cache_of_def)

lemma memory_bytes_cache_of: "memory_bytes (cache_of kvs) = fold (\<lambda>kv n. n + layer_bytes kv) kvs 0"
proof -
  have "map snd (map (\<lambda>(i, kv). (int i, kv)) (enumerate n kvs)) = kvs" for n
    by (induction kvs arbitrary: n) simp_all
  from this [of 0] show ?thesis by (simp add: memory_bytes_def cache_of_def dvals_def)
qed

lemma manual_loop_eq:
  assumes "fixed_layers m n"
  shows "manual_loop m temp k tok past (cache_of (kv_layers m past)) ids s =
     (case kv_loop m temp k tok past ids s of (ids', past', s') \<Rightarrow> (ids', cache_of (kv_layers m past'), s'))"
proof (induction k arbitrary: tok past ids s)
  case (Suc k)
  have "reset_cache (kv_layers m past') (cache_of (kv_layers m past)) = cache_of (kv_layers m past')" for past'
    using assms by (intro reset_cache_of) (simp add: fixed_layers_def)
  then show ?case using Suc.IH by (simp add: Let_def split: prod.split)
qed simp

lemma manual_eq_kv:
  assumes "fixed_layers m n"
    and go: "\<not> is_eos m (fst (sample m temp (fst (fwd m (tok_encode m prompt) None)) s)) \<or> max_tokens \<le> 1"
  shows "\<exists>c. generate_with_manual_kv_cache m prompt max_tokens temp s =
     Inr (case generate_with_kv_cache m prompt max_tokens temp s of (r, b, s') \<Rightarrow> (r, b, c, s'))"
proof -
  obtain l past where fw: "fwd m (tok_encode m prompt) None = (l, past)"
    by (cases "fwd m (tok_encode m prompt) None")
  obtain tok s1 where smp: "sample m temp l s = (tok, s1)" by (cases "sample m temp l s")
  show ?thesis
  proof (cases "is_eos m tok")
    case True
    with go fw smp have "nat (max_tokens - 1) = 0" by simp
    with True fw smp show ?thesis
      by (simp add: generate_with_manual_kv_cache_def generate_with_kv_cache_def fill_cache_new Let_def
          memory_bytes_cache_of past_bytes_def)
  next
    case False
    with fw smp show ?thesis
      by (auto simp: generate_with_manual_kv_cache_def generate_with_kv_cache_def fill_cache_new Let_def
          manual_loop_eq [OF assms(1)] memory_bytes_cache_of past_bytes_def split: prod.split)
  qed
qed

text \<open>Where the first token ends the text the manual version goes on.\<close>

lemma kv_loop_length: "kv_loop m temp n tok past ids s = (ids', past', s') \<Longrightarrow> length ids + (if n = 0 then 0 else 1) \<le> length ids'"
proof (induction n arbitrary: tok past ids s)
  case (Suc n)
  then show ?case by (fastforce simp: Let_def split: prod.splits if_splits)
qed simp

lemma manual_after_eos:
  assumes "fixed_layers m n" and "1 < max_tokens"
    and "is_eos m (fst (sample m temp (fst (fwd m (tok_encode m prompt) None)) s))"
  shows "\<exists>r b c s' r' b' s''. generate_with_kv_cache m prompt max_tokens temp s = (r, b, s') \<and>
     generate_with_manual_kv_cache m prompt max_tokens temp s = Inr (r', b', c, s'') \<and>
     generated_tokens r = 1 \<and> 2 \<le> generated_tokens r'"
proof -
  obtain l past where fw: "fwd m (tok_encode m prompt) None = (l, past)"
    by (cases "fwd m (tok_encode m prompt) None")
  obtain tok s1 where smp: "sample m temp l s = (tok, s1)" by (cases "sample m temp l s")
  obtain ids' past' s2 where loop: "kv_loop m temp (nat (max_tokens - 1)) tok past (tok_encode m prompt @ [tok]) s1
      = (ids', past', s2)" by (metis prod_cases3)
  have "nat (max_tokens - 1) \<noteq> 0" using assms(2) by simp
  with kv_loop_length [OF loop] have "length (tok_encode m prompt) + 2 \<le> length ids'" by simp
  with assms(3) fw smp loop show ?thesis
    by (simp add: generate_with_manual_kv_cache_def generate_with_kv_cache_def fill_cache_new Let_def
        manual_loop_eq [OF assms(1)] result_of_def)
qed

end
