(* ===== verification/PagedCache.thy ===== *)
theory PagedCache
  imports PyDict
begin

text \<open>
  \<open>PagedKVCache\<close> of \<open>v2_batched.py\<close>: cache memory in pages of 16 token slots. The pages are the
  dictionary \<open>all_pages\<close>, the free list is a set, every request has the list of its pages.
  \<open>next(iter(free_page_ids))\<close> takes a member of the set that Python does not specify: it is the
  parameter \<open>pick\<close>, of which \<open>chooser_ok\<close> says that it returns a member. \<open>page\<close> objects are
  shared by reference; an operation that returns one returns its id here and the callers write
  through \<open>all_pages\<close>. \<open>fragmentation_slots\<close> is the numerator and denominator of
  \<open>fragmentation_rate\<close>, whose floating-point quotient is not modelled.
\<close>

definition page_size :: nat where
  "page_size = 16"

record page =
  page_id :: nat
  owner :: "string option"
  tokens_used :: nat

definition is_full :: "page \<Rightarrow> bool" where
  "is_full p \<longleftrightarrow> page_size \<le> tokens_used p"

definition free_slots :: "page \<Rightarrow> int" where
  "free_slots p = int page_size - int (tokens_used p)"

record paged =
  total_pages :: nat
  all_pages :: "(nat, page) pydict"
  free_page_ids :: "nat set"
  request_pages :: "(string, nat list) pydict"

definition new_paged :: "nat \<Rightarrow> paged" where
  "new_paged n = \<lparr>total_pages = n,
     all_pages = map (\<lambda>i. (i, \<lparr>page_id = i, owner = None, tokens_used = 0\<rparr>)) [0..<n],
     free_page_ids = set [0..<n], request_pages = []\<rparr>"

definition update_page :: "nat \<Rightarrow> (page \<Rightarrow> page) \<Rightarrow> paged \<Rightarrow> paged result" where
  "update_page pid f c =
     (case dget (all_pages c) pid of
        None \<Rightarrow> Inl (KeyError ''all_pages'')
      | Some p \<Rightarrow> Inr (c\<lparr>all_pages := dset (all_pages c) pid (f p)\<rparr>))"

definition held :: "paged \<Rightarrow> string \<Rightarrow> nat list" where
  "held c r = dget_or (request_pages c) r []"

definition allocate_page :: "(nat set \<Rightarrow> nat) \<Rightarrow> string \<Rightarrow> paged \<Rightarrow> (nat option \<times> paged) result" where
  "allocate_page pick r c =
     (if free_page_ids c = {} then Inr (None, c)
      else let pid = pick (free_page_ids c); c1 = c\<lparr>free_page_ids := free_page_ids c - {pid}\<rparr>
           in rmap (\<lambda>c2. (Some pid, c2\<lparr>request_pages := dset (request_pages c2) r (held c2 r @ [pid])\<rparr>))
                (update_page pid (\<lambda>p. p\<lparr>owner := Some r, tokens_used := 0\<rparr>) c1))"

definition record_token :: "(nat set \<Rightarrow> nat) \<Rightarrow> string \<Rightarrow> paged \<Rightarrow> (bool \<times> paged) result" where
  "record_token pick r c =
     (if held c r = []
      then rmap (\<lambda>(pg, c'). (pg \<noteq> None, c')) (allocate_page pick r c)
      else let last_id = last (held c r)
           in (case dget (all_pages c) last_id of
                 None \<Rightarrow> Inl (KeyError ''all_pages'')
               | Some last_page \<Rightarrow>
                   if is_full last_page
                   then rbind (allocate_page pick r c) (\<lambda>(pg, c').
                          case pg of
                            None \<Rightarrow> Inr (False, c')
                          | Some pid \<Rightarrow> rmap (Pair True) (update_page pid (\<lambda>p. p\<lparr>tokens_used := 1\<rparr>) c'))
                   else rmap (Pair True)
                          (update_page last_id (\<lambda>p. p\<lparr>tokens_used := tokens_used p + 1\<rparr>) c)))"

definition free_page :: "nat \<Rightarrow> paged \<Rightarrow> paged result" where
  "free_page pid c =
     rmap (\<lambda>c'. c'\<lparr>free_page_ids := insert pid (free_page_ids c')\<rparr>)
       (update_page pid (\<lambda>p. p\<lparr>owner := None, tokens_used := 0\<rparr>) c)"

definition free_request :: "string \<Rightarrow> paged \<Rightarrow> (nat \<times> paged) result" where
  "free_request r c =
     (case dget (request_pages c) r of
        None \<Rightarrow> Inr (0, c)
      | Some page_ids \<Rightarrow>
          rmap (Pair (length page_ids))
            (rfold free_page page_ids (c\<lparr>request_pages := dpop (request_pages c) r\<rparr>)))"

definition pages_for_request :: "string \<Rightarrow> paged \<Rightarrow> nat" where
  "pages_for_request r c = length (dget_or (request_pages c) r [])"

definition fragmentation_slots :: "paged \<Rightarrow> (int \<times> nat) result" where
  "fragmentation_slots c =
     rfold (\<lambda>(r, page_ids) (wasted, total).
         if page_ids = [] then Inr (wasted, total)
         else case dget (all_pages c) (last page_ids) of
                None \<Rightarrow> Inl (KeyError ''all_pages'')
              | Some last_page \<Rightarrow>
                  Inr (wasted + free_slots last_page,
                       total + (length page_ids - 1) * page_size + page_size))
       (request_pages c) (0, 0)"

record paged_stats =
  st_total_pages :: nat
  st_free_pages :: nat
  st_used_pages :: int
  st_active_requests :: nat

definition paged_stats_of :: "paged \<Rightarrow> paged_stats" where
  "paged_stats_of c =
     \<lparr>st_total_pages = total_pages c, st_free_pages = card (free_page_ids c),
      st_used_pages = int (total_pages c) - int (card (free_page_ids c)),
      st_active_requests = length (request_pages c)\<rparr>"

section \<open>The invariant of the allocator\<close>

definition chooser_ok :: "(nat set \<Rightarrow> nat) \<Rightarrow> bool" where
  "chooser_ok pick \<longleftrightarrow> (\<forall>S. finite S \<longrightarrow> S \<noteq> {} \<longrightarrow> pick S \<in> S)"

definition page_ok :: "paged \<Rightarrow> nat \<Rightarrow> page \<Rightarrow> bool" where
  "page_ok c pid p \<longleftrightarrow>
     page_id p = pid \<and> tokens_used p \<le> page_size \<and>
     (\<forall>r. owner p = Some r \<longleftrightarrow> pid \<in> set (held c r)) \<and>
     (owner p = None \<longleftrightarrow> pid \<in> free_page_ids c) \<and> (owner p = None \<longrightarrow> tokens_used p = 0)"

definition paged_ok :: "paged \<Rightarrow> bool" where
  "paged_ok c \<longleftrightarrow>
     dkeys (all_pages c) = [0..<total_pages c] \<and> dwf (request_pages c) \<and>
     free_page_ids c \<subseteq> {..<total_pages c} \<and>
     (\<forall>r. distinct (held c r) \<and> set (held c r) \<subseteq> {..<total_pages c}) \<and>
     (\<forall>pid p. dget (all_pages c) pid = Some p \<longrightarrow> page_ok c pid p)"

lemma paged_okD:
  assumes "paged_ok c"
  shows "dkeys (all_pages c) = [0..<total_pages c]" and "dwf (request_pages c)"
    and "free_page_ids c \<subseteq> {..<total_pages c}" and "finite (free_page_ids c)"
    and "distinct (held c r)" and "set (held c r) \<subseteq> {..<total_pages c}"
    and "dget (all_pages c) pid = Some p \<Longrightarrow> page_ok c pid p"
    and "pid < total_pages c \<Longrightarrow> \<exists>p. dget (all_pages c) pid = Some p"
proof -
  show "free_page_ids c \<subseteq> {..<total_pages c}" using assms by (simp add: paged_ok_def)
  then show "finite (free_page_ids c)" by (rule finite_subset) simp
  show keys: "dkeys (all_pages c) = [0..<total_pages c]" using assms by (simp add: paged_ok_def)
  then show "pid < total_pages c \<Longrightarrow> \<exists>p. dget (all_pages c) pid = Some p"
    by (intro dget_key_Some) simp
qed (use assms in \<open>simp_all add: paged_ok_def\<close>)

lemma dget_new_pages:
  "dget (map (\<lambda>i. (i, f i)) is) k = (if k \<in> set is then Some (f k) else None)"
  by (induction "is") auto

lemma new_paged_ok: "paged_ok (new_paged n)"
  by (auto simp: paged_ok_def new_paged_def page_ok_def held_def dget_or_def dget_new_pages dkeys_def comp_def
      split: if_splits)

lemma held_disjoint:
  assumes "paged_ok c" and "r \<noteq> r'"
  shows "set (held c r) \<inter> set (held c r') = {}"
proof -
  have False if pid: "pid \<in> set (held c r)" "pid \<in> set (held c r')" for pid
  proof -
    from pid(1) paged_okD(6) [OF assms(1)] have "pid < total_pages c" by blast
    then obtain p where "dget (all_pages c) pid = Some p" using paged_okD(8) [OF assms(1)] by blast
    then have "page_ok c pid p" by (rule paged_okD(7) [OF assms(1)])
    with pid assms(2) show False unfolding page_ok_def by (metis option.inject)
  qed
  then show ?thesis by blast
qed

lemma held_not_free:
  assumes "paged_ok c"
  shows "set (held c r) \<inter> free_page_ids c = {}"
proof -
  have False if pid: "pid \<in> set (held c r)" "pid \<in> free_page_ids c" for pid
  proof -
    from pid(1) paged_okD(6) [OF assms(1)] have "pid < total_pages c" by blast
    then obtain p where "dget (all_pages c) pid = Some p" using paged_okD(8) [OF assms(1)] by blast
    then have "page_ok c pid p" by (rule paged_okD(7) [OF assms(1)])
    with pid show False unfolding page_ok_def by (metis option.distinct(1))
  qed
  then show ?thesis by blast
qed

section \<open>The operations keep it\<close>

lemma update_page_Some:
  "dget (all_pages c) pid = Some p \<Longrightarrow>
   update_page pid f c = Inr (c\<lparr>all_pages := dset (all_pages c) pid (f p)\<rparr>)"
  by (simp add: update_page_def)

lemma allocate_page_ok:
  assumes ok: "paged_ok c" and pick: "chooser_ok pick" and avail: "free_page_ids c \<noteq> {}"
  obtains pid c' where "allocate_page pick r c = Inr (Some pid, c')" and "paged_ok c'"
    and "pid \<in> free_page_ids c" and "free_page_ids c' = free_page_ids c - {pid}"
    and "held c' r = held c r @ [pid]" and "\<And>r'. r' \<noteq> r \<Longrightarrow> held c' r' = held c r'"
    and "dget (all_pages c') pid = Some \<lparr>page_id = pid, owner = Some r, tokens_used = 0\<rparr>"
    and "\<And>k. k \<noteq> pid \<Longrightarrow> dget (all_pages c') k = dget (all_pages c) k"
    and "total_pages c' = total_pages c" and "dkeys (request_pages c') = dkeys (dset (request_pages c) r [])"
proof -
  let ?pid = "pick (free_page_ids c)"
  have pid: "?pid \<in> free_page_ids c"
    using pick avail paged_okD(4) [OF ok] by (simp add: chooser_ok_def)
  then have lt: "?pid < total_pages c" using paged_okD(3) [OF ok] by blast
  then obtain p where p: "dget (all_pages c) ?pid = Some p" using paged_okD(8) [OF ok] by blast
  have pok: "page_ok c ?pid p" by (rule paged_okD(7) [OF ok p])
  let ?p = "\<lparr>page_id = ?pid, owner = Some r, tokens_used = 0\<rparr>"
  let ?c = "c\<lparr>free_page_ids := free_page_ids c - {?pid}, all_pages := dset (all_pages c) ?pid ?p,
     request_pages := dset (request_pages c) r (held c r @ [?pid])\<rparr>"
  have pp: "p\<lparr>owner := Some r, tokens_used := 0\<rparr> = ?p" using pok by (simp add: page_ok_def)
  have 1: "allocate_page pick r c = Inr (Some ?pid, ?c)"
    using avail by (simp add: allocate_page_def Let_def update_page_def p pp held_def)
  have h: "held ?c r' = (if r' = r then held c r @ [?pid] else held c r')" for r'
    by (simp add: held_def dget_or_def)
  have unheld: "?pid \<notin> set (held c r')" for r' using held_not_free [OF ok] pid by blast
  have pages: "page_ok ?c k q" if "dget (all_pages ?c) k = Some q" for k q
  proof (cases "k = ?pid")
    case True
    with that have "q = ?p" by simp
    then show ?thesis using True unheld by (auto simp: page_ok_def h)
  next
    case False
    with that have "page_ok c k q" using paged_okD(7) [OF ok] by simp
    then show ?thesis using False by (auto simp: page_ok_def h)
  qed
  have "distinct (held ?c r') \<and> set (held ?c r') \<subseteq> {..<total_pages ?c}" for r'
    using paged_okD(5,6) [OF ok] unheld lt by (auto simp: h)
  moreover have "dkeys (all_pages ?c) = [0..<total_pages ?c]"
    using lt by (simp add: dkeys_dset paged_okD(1) [OF ok])
  ultimately have 2: "paged_ok ?c"
    unfolding paged_ok_def using pages paged_okD(2,3) [OF ok] by (auto intro: dwf_dset)
  show thesis
    by (rule that [OF 1 2 pid]) (simp_all add: h, simp add: dkeys_dset)
qed

lemma set_tokens_ok:
  assumes ok: "paged_ok c" and pid: "dget (all_pages c) pid = Some p" "owner p \<noteq> None" and n: "n \<le> page_size"
  defines "c' \<equiv> c\<lparr>all_pages := dset (all_pages c) pid (p\<lparr>tokens_used := n\<rparr>)\<rparr>"
  shows "paged_ok c'" and "held c' r = held c r"
proof -
  show h: "held c' r = held c r" for r by (simp add: c'_def held_def)
  have "page_ok c' k q" if "dget (all_pages c') k = Some q" for k q
  proof (cases "k = pid")
    case True
    then have q: "q = p\<lparr>tokens_used := n\<rparr>" using that by (simp add: c'_def)
    have "page_ok c pid p" by (rule paged_okD(7) [OF ok pid(1)])
    moreover have "free_page_ids c' = free_page_ids c" by (simp add: c'_def)
    moreover obtain r0 where "owner p = Some r0" using pid(2) by auto
    ultimately show ?thesis using True q n h by (simp add: page_ok_def)
  next
    case False
    with that have "page_ok c k q" using paged_okD(7) [OF ok] by (simp add: c'_def)
    then show ?thesis using h by (simp add: page_ok_def) (simp add: c'_def)
  qed
  moreover have "dkeys (all_pages c') = [0..<total_pages c']"
    using dget_Some_key [OF pid(1)] by (simp add: c'_def dkeys_dset paged_okD(1) [OF ok])
  ultimately show "paged_ok c'"
    using paged_okD(2,3,5,6) [OF ok] unfolding paged_ok_def by (simp add: h) (simp add: c'_def)
qed

lemma free_pages_loop:
  assumes "set pids \<subseteq> set (dkeys (all_pages c))"
  shows "\<exists>A. rfold free_page pids c = Inr (c\<lparr>all_pages := A, free_page_ids := free_page_ids c \<union> set pids\<rparr>) \<and>
     dkeys A = dkeys (all_pages c) \<and>
     (\<forall>k. dget A k = (if k \<in> set pids then map_option (\<lambda>p. p\<lparr>owner := None, tokens_used := 0\<rparr>) (dget (all_pages c) k)
                      else dget (all_pages c) k))"
  using assms
proof (induction pids arbitrary: c)
  case Nil
  then show ?case by (intro exI [of _ "all_pages c"]) simp
next
  case (Cons pid pids)
  then obtain p where p: "dget (all_pages c) pid = Some p" using dget_key_Some by fastforce
  let ?c = "c\<lparr>all_pages := dset (all_pages c) pid (p\<lparr>owner := None, tokens_used := 0\<rparr>),
     free_page_ids := insert pid (free_page_ids c)\<rparr>"
  have step: "free_page pid c = Inr ?c" by (simp add: free_page_def update_page_def p)
  have keys: "dkeys (all_pages ?c) = dkeys (all_pages c)"
    using dget_Some_key [OF p] by (simp add: dkeys_dset)
  with Cons.prems have "set pids \<subseteq> set (dkeys (all_pages ?c))" by simp
  from Cons.IH [OF this] obtain A where
    "rfold free_page pids ?c = Inr (?c\<lparr>all_pages := A, free_page_ids := free_page_ids ?c \<union> set pids\<rparr>)"
    "dkeys A = dkeys (all_pages ?c)"
    "\<forall>k. dget A k = (if k \<in> set pids then map_option (\<lambda>p. p\<lparr>owner := None, tokens_used := 0\<rparr>) (dget (all_pages ?c) k)
                      else dget (all_pages ?c) k)" by blast
  then show ?case using step keys p by (intro exI [of _ A]) auto
qed

lemma free_request_ok:
  assumes ok: "paged_ok c"
  obtains c' where "free_request r c = Inr (length (held c r), c')" and "paged_ok c'"
    and "free_page_ids c' = free_page_ids c \<union> set (held c r)" and "held c' r = []"
    and "\<And>r'. r' \<noteq> r \<Longrightarrow> held c' r' = held c r'"
    and "\<And>k. k \<notin> set (held c r) \<Longrightarrow> dget (all_pages c') k = dget (all_pages c) k"
    and "total_pages c' = total_pages c" and "dkeys (request_pages c') = filter (\<lambda>k. k \<noteq> r) (dkeys (request_pages c))"
proof (cases "dget (request_pages c) r")
  case None
  then have "r \<notin> set (dkeys (request_pages c))" by (simp add: dget_None_iff)
  then have "filter (\<lambda>k. k \<noteq> r) (dkeys (request_pages c)) = dkeys (request_pages c)"
    by (metis (mono_tags, lifting) filter_True)
  with None ok show thesis by (intro that [of c]) (simp_all add: free_request_def held_def dget_or_def)
next
  case (Some pids)
  then have pids: "held c r = pids" by (simp add: held_def dget_or_def)
  let ?c0 = "c\<lparr>request_pages := dpop (request_pages c) r\<rparr>"
  have "set pids \<subseteq> set (dkeys (all_pages ?c0))"
    using paged_okD(1,6) [OF ok] pids by (auto simp: subset_iff)
  from free_pages_loop [OF this] obtain A where
    loop: "rfold free_page pids ?c0 = Inr (?c0\<lparr>all_pages := A, free_page_ids := free_page_ids c \<union> set pids\<rparr>)"
    and keys: "dkeys A = dkeys (all_pages c)"
    and A: "\<And>k. dget A k = (if k \<in> set pids then map_option (\<lambda>p. p\<lparr>owner := None, tokens_used := 0\<rparr>) (dget (all_pages c) k)
                      else dget (all_pages c) k)" by auto
  let ?c = "?c0\<lparr>all_pages := A, free_page_ids := free_page_ids c \<union> set pids\<rparr>"
  have h: "held ?c r' = (if r' = r then [] else held c r')" for r' by (simp add: held_def dget_or_def)
  have other: "set (held c r') \<inter> set pids = {}" if "r' \<noteq> r" for r'
    using held_disjoint [OF ok that] pids by simp
  have "page_ok ?c k q" if kq: "dget (all_pages ?c) k = Some q" for k q
  proof (cases "k \<in> set pids")
    case True
    with kq obtain p where p: "dget (all_pages c) k = Some p" "q = p\<lparr>owner := None, tokens_used := 0\<rparr>"
      by (auto simp: A)
    then show ?thesis using paged_okD(7) [OF ok p(1)] True other h by (fastforce simp: page_ok_def)
  next
    case False
    with kq have "page_ok c k q" using paged_okD(7) [OF ok] by (simp add: A)
    then show ?thesis using False pids h unfolding page_ok_def by auto
  qed
  moreover have "distinct (held ?c r') \<and> set (held ?c r') \<subseteq> {..<total_pages ?c}" for r'
    using paged_okD(5,6) [OF ok] by (simp add: h)
  ultimately have 2: "paged_ok ?c"
    unfolding paged_ok_def using paged_okD(1,2,3) [OF ok] paged_okD(6) [OF ok, of r] keys pids by auto
  have 1: "free_request r c = Inr (length (held c r), ?c)" using loop Some pids by (simp add: free_request_def)
  show thesis by (rule that [OF 1 2]) (simp_all add: h pids A dkeys_dpop)
qed

section \<open>Counting tokens\<close>

definition tokens_of :: "paged \<Rightarrow> nat \<Rightarrow> nat" where
  "tokens_of c pid = (case dget (all_pages c) pid of None \<Rightarrow> 0 | Some p \<Rightarrow> tokens_used p)"

definition request_tokens :: "paged \<Rightarrow> string \<Rightarrow> nat" where
  "request_tokens c r = (\<Sum>pid\<leftarrow>held c r. tokens_of c pid)"

text \<open>All pages of a request but the last are full, and a last page that follows others is not empty.\<close>

definition packed :: "paged \<Rightarrow> string \<Rightarrow> bool" where
  "packed c r \<longleftrightarrow>
     (\<forall>pids pid. held c r = pids @ [pid] \<longrightarrow>
        (\<forall>k \<in> set pids. tokens_of c k = page_size) \<and> (pids \<noteq> [] \<longrightarrow> 1 \<le> tokens_of c pid))"

lemma tokens_of_bound: "paged_ok c \<Longrightarrow> tokens_of c pid \<le> page_size"
  using paged_okD(7) [of c pid] by (auto simp: tokens_of_def page_ok_def split: option.split)

lemma request_tokens_cong:
  "held c' r = held c r \<Longrightarrow> \<forall>k \<in> set (held c r). dget (all_pages c') k = dget (all_pages c) k \<Longrightarrow>
   request_tokens c' r = request_tokens c r"
  by (simp add: request_tokens_def tokens_of_def cong: map_cong)

lemma packed_cong:
  "held c' r = held c r \<Longrightarrow> \<forall>k \<in> set (held c r). dget (all_pages c') k = dget (all_pages c) k \<Longrightarrow>
   packed c' r = packed c r"
  by (auto simp: packed_def tokens_of_def)

lemma packed_empty: "held c r = [] \<Longrightarrow> packed c r"
  by (simp add: packed_def)

lemma packed_pages:
  assumes ok: "paged_ok c" and "packed c r" and "held c r \<noteq> []"
  shows "pages_for_request r c = max 1 ((request_tokens c r + (page_size - 1)) div page_size)"
proof -
  obtain pids pid where h: "held c r = pids @ [pid]" using assms(3) by (metis append_butlast_last_id)
  have full: "\<forall>k \<in> set pids. tokens_of c k = page_size" and ne: "pids \<noteq> [] \<Longrightarrow> 1 \<le> tokens_of c pid"
    using assms(2) h by (auto simp: packed_def)
  have "(\<Sum>k\<leftarrow>pids. tokens_of c k) = length pids * page_size"
    using full by (induction pids) auto
  then have tot: "request_tokens c r = length pids * page_size + tokens_of c pid"
    by (simp add: request_tokens_def h)
  have le: "tokens_of c pid \<le> page_size" by (rule tokens_of_bound [OF ok])
  have len: "pages_for_request r c = length pids + 1" using h by (simp add: pages_for_request_def held_def)
  show ?thesis
  proof (cases "tokens_of c pid = 0")
    case True
    with ne have "pids = []" by auto
    then show ?thesis using True len tot by (simp add: page_size_def)
  next
    case False
    then have "(request_tokens c r + (page_size - 1)) div page_size = length pids + 1"
      using le tot by (simp add: page_size_def)
    then show ?thesis using len by simp
  qed
qed

lemma allocate_page_other:
  assumes ok: "paged_ok c" and pick: "chooser_ok pick" and a: "allocate_page pick r c = Inr (Some pid, c')"
  shows "paged_ok c'" and "held c' r = held c r @ [pid]" and "tokens_of c' pid = 0"
    and "\<And>r'. r' \<noteq> r \<Longrightarrow> held c' r' = held c r' \<and> (\<forall>k \<in> set (held c r'). dget (all_pages c') k = dget (all_pages c) k)"
    and "\<And>k. k \<in> set (held c r) \<Longrightarrow> dget (all_pages c') k = dget (all_pages c) k"
    and "dget (all_pages c') pid = Some \<lparr>page_id = pid, owner = Some r, tokens_used = 0\<rparr>"
    and "total_pages c' = total_pages c" and "set (dkeys (request_pages c')) = insert r (set (dkeys (request_pages c)))"
    and "pid \<notin> set (held c r')"
proof -
  have avail: "free_page_ids c \<noteq> {}" using a by (auto simp: allocate_page_def)
  obtain pid0 c0 where e: "allocate_page pick r c = Inr (Some pid0, c0)" "paged_ok c0" "pid0 \<in> free_page_ids c"
    "free_page_ids c0 = free_page_ids c - {pid0}" "held c0 r = held c r @ [pid0]" "\<And>r'. r' \<noteq> r \<Longrightarrow> held c0 r' = held c r'"
    "dget (all_pages c0) pid0 = Some \<lparr>page_id = pid0, owner = Some r, tokens_used = 0\<rparr>"
    "\<And>k. k \<noteq> pid0 \<Longrightarrow> dget (all_pages c0) k = dget (all_pages c) k"
    "total_pages c0 = total_pages c" "dkeys (request_pages c0) = dkeys (dset (request_pages c) r [])"
    using allocate_page_ok [OF ok pick avail, of r] by (metis (no_types, lifting))
  have [simp]: "pid0 = pid" "c0 = c'" using e(1) a by simp_all
  have un: "pid \<notin> set (held c r')" for r' using held_not_free [OF ok, of r'] e(3) by auto
  show "paged_ok c'" "held c' r = held c r @ [pid]" using e by simp_all
  show "dget (all_pages c') pid = Some \<lparr>page_id = pid, owner = Some r, tokens_used = 0\<rparr>" using e by simp
  then show "tokens_of c' pid = 0" by (simp add: tokens_of_def)
  show "held c' r' = held c r' \<and> (\<forall>k \<in> set (held c r'). dget (all_pages c') k = dget (all_pages c) k)"
    if "r' \<noteq> r" for r' using e(6) [OF that] e(8) un [of r'] by (metis \<open>c0 = c'\<close> \<open>pid0 = pid\<close>)
  show "dget (all_pages c') k = dget (all_pages c) k" if "k \<in> set (held c r)" for k
    using e(8) that un [of r] by (metis \<open>c0 = c'\<close> \<open>pid0 = pid\<close>)
  show "total_pages c' = total_pages c" "set (dkeys (request_pages c')) = insert r (set (dkeys (request_pages c)))"
    using e(9,10) by simp_all
  show "pid \<notin> set (held c r')" by (rule un)
qed

lemma allocate_page_oom: "free_page_ids c = {} \<Longrightarrow> allocate_page pick r c = Inr (None, c)"
  by (simp add: allocate_page_def)

text \<open>What \<open>record_token\<close> does, case by case.\<close>

lemma record_token_first:
  assumes ok: "paged_ok c" and pick: "chooser_ok pick" and "held c r = []"
  shows "free_page_ids c = {} \<Longrightarrow> record_token pick r c = Inr (False, c)"
    and "free_page_ids c \<noteq> {} \<Longrightarrow> \<exists>pid c'. record_token pick r c = Inr (True, c') \<and>
           allocate_page pick r c = Inr (Some pid, c') \<and> pages_for_request r c' = 1 \<and> request_tokens c' r = 0 \<and> packed c' r"
proof -
  show "free_page_ids c = {} \<Longrightarrow> record_token pick r c = Inr (False, c)"
    using assms(3) by (simp add: record_token_def allocate_page_oom)
  assume "free_page_ids c \<noteq> {}"
  then obtain pid c' where a: "allocate_page pick r c = Inr (Some pid, c')"
    by (rule allocate_page_ok [OF ok pick, where r = r])
  note o = allocate_page_other [OF ok pick a]
  have "held c' r = [pid]" using o(2) assms(3) by simp
  then have "pages_for_request r c' = 1 \<and> request_tokens c' r = 0 \<and> packed c' r"
    using o(3) by (simp add: pages_for_request_def held_def request_tokens_def packed_def)
  then show "\<exists>pid c'. record_token pick r c = Inr (True, c') \<and> allocate_page pick r c = Inr (Some pid, c') \<and>
      pages_for_request r c' = 1 \<and> request_tokens c' r = 0 \<and> packed c' r"
    using a assms(3) by (intro exI [of _ pid] exI [of _ c']) (simp add: record_token_def)
qed

lemma record_token_next:
  assumes ok: "paged_ok c" and pick: "chooser_ok pick" and h: "held c r = pids @ [pid]"
  shows "tokens_of c pid = page_size \<Longrightarrow> free_page_ids c = {} \<Longrightarrow> record_token pick r c = Inr (False, c)"
    and "\<not> (tokens_of c pid = page_size \<and> free_page_ids c = {}) \<Longrightarrow>
      \<exists>c'. record_token pick r c = Inr (True, c') \<and> paged_ok c' \<and>
        request_tokens c' r = Suc (request_tokens c r) \<and> (packed c r \<longrightarrow> packed c' r) \<and>
        set (held c r) \<subseteq> set (held c' r) \<and> total_pages c' = total_pages c \<and>
        set (dkeys (request_pages c')) = insert r (set (dkeys (request_pages c))) \<and>
        (\<forall>r'. r' \<noteq> r \<longrightarrow> held c' r' = held c r' \<and>
              (\<forall>k \<in> set (held c r'). dget (all_pages c') k = dget (all_pages c) k))"
proof -
  have "pid < total_pages c" using paged_okD(6) [OF ok, of r] h by auto
  then obtain p where p: "dget (all_pages c) pid = Some p" using paged_okD(8) [OF ok] by blast
  have pok: "page_ok c pid p" by (rule paged_okD(7) [OF ok p])
  have tp: "tokens_of c pid = tokens_used p" by (simp add: tokens_of_def p)
  have full: "is_full p \<longleftrightarrow> tokens_of c pid = page_size" using pok tp by (auto simp: is_full_def page_ok_def)
  have "pid \<in> set (held c r)" using h by simp
  then have own: "owner p = Some r" using pok by (simp add: page_ok_def)
  have key: "r \<in> set (dkeys (request_pages c))"
    using h by (auto simp: held_def dget_or_def dest: dget_Some_key split: option.splits)
  show "tokens_of c pid = page_size \<Longrightarrow> free_page_ids c = {} \<Longrightarrow> record_token pick r c = Inr (False, c)"
    using h p full by (simp add: record_token_def allocate_page_oom)
  assume go: "\<not> (tokens_of c pid = page_size \<and> free_page_ids c = {})"
  show "\<exists>c'. record_token pick r c = Inr (True, c') \<and> paged_ok c' \<and>
        request_tokens c' r = Suc (request_tokens c r) \<and> (packed c r \<longrightarrow> packed c' r) \<and>
        set (held c r) \<subseteq> set (held c' r) \<and> total_pages c' = total_pages c \<and>
        set (dkeys (request_pages c')) = insert r (set (dkeys (request_pages c))) \<and>
        (\<forall>r'. r' \<noteq> r \<longrightarrow> held c' r' = held c r' \<and>
              (\<forall>k \<in> set (held c r'). dget (all_pages c') k = dget (all_pages c) k))"
  proof (cases "is_full p")
    case False
    let ?c = "c\<lparr>all_pages := dset (all_pages c) pid (p\<lparr>tokens_used := Suc (tokens_used p)\<rparr>)\<rparr>"
    have rec: "record_token pick r c = Inr (True, ?c)"
      using h p False by (simp add: record_token_def update_page_def)
    have n: "Suc (tokens_used p) \<le> page_size" using False by (simp add: is_full_def)
    have ok': "paged_ok ?c" using set_tokens_ok(1) [OF ok p _ n] own by simp
    have h': "held ?c r' = held c r'" for r' by (simp add: held_def)
    have tk: "tokens_of ?c k = (if k = pid then Suc (tokens_of c pid) else tokens_of c k)" for k
      by (simp add: tokens_of_def p)
    have nin: "pid \<notin> set pids" using paged_okD(5) [OF ok, of r] h by simp
    then have "map (tokens_of ?c) pids = map (tokens_of c) pids" using tk by auto
    then have "map (tokens_of ?c) pids = map (tokens_of c) pids" using tk by auto
    then have "request_tokens ?c r = Suc (request_tokens c r)"
      unfolding request_tokens_def h' h by (simp only: map_append sum_list_append) (simp add: tk)
    moreover have "packed c r \<longrightarrow> packed ?c r" using nin h by (auto simp: packed_def h' tk)
    moreover have "\<forall>k \<in> set (held c r'). dget (all_pages ?c) k = dget (all_pages c) k" if "r' \<noteq> r" for r'
      using held_disjoint [OF ok that] h by auto
    ultimately show ?thesis using rec ok' h' key
      by (intro exI [of _ ?c]) (simp add: insert_absorb)
  next
    case True
    then have "free_page_ids c \<noteq> {}" using go full by simp
    then obtain new c1 where a: "allocate_page pick r c = Inr (Some new, c1)"
      by (rule allocate_page_ok [OF ok pick, where r = r])
    note o = allocate_page_other [OF ok pick a]
    let ?p = "\<lparr>page_id = new, owner = Some r, tokens_used = 0\<rparr>"
    define c2 where "c2 = c1\<lparr>all_pages := dset (all_pages c1) new (?p\<lparr>tokens_used := 1\<rparr>)\<rparr>"
    have rec: "record_token pick r c = Inr (True, c2)"
      using h p True a o(6) by (simp add: record_token_def update_page_def c2_def)
    have ok': "paged_ok c2" using set_tokens_ok(1) [OF o(1) o(6), of 1] by (simp add: page_size_def c2_def)
    have h': "held c2 r' = held c1 r'" for r' by (simp add: held_def c2_def)
    have hr: "held c2 r = pids @ [pid, new]" using h' o(2) h by simp
    have tk: "tokens_of c2 new = 1" by (simp add: tokens_of_def c2_def)
    have old: "tokens_of c2 k = tokens_of c k" if "k \<in> set (held c r')" for k r'
      
    proof -
      have "k \<noteq> new" using that o(9) [of r'] by auto
      moreover have "dget (all_pages c1) k = dget (all_pages c) k"
        using o(4) [of r'] o(5) [of k] that by (cases "r' = r") auto
      ultimately show ?thesis by (simp add: tokens_of_def c2_def)
    qed
    have "request_tokens c2 r = Suc (request_tokens c r)"
    proof -
      have m: "map (tokens_of c2) (pids @ [pid]) = map (tokens_of c) (pids @ [pid])"
        using old [of _ r] h by simp
      have "request_tokens c2 r = sum_list (map (tokens_of c2) (pids @ [pid])) + tokens_of c2 new"
        by (simp add: request_tokens_def hr)
      also have "\<dots> = request_tokens c r + 1" unfolding m tk request_tokens_def h by (rule refl)
      finally show ?thesis by simp
    qed
    moreover have "packed c r \<longrightarrow> packed c2 r"
    proof
      assume "packed c r"
      then have "\<forall>k \<in> set pids. tokens_of c k = page_size" using h by (auto simp: packed_def)
      then have "\<forall>k \<in> set (pids @ [pid]). tokens_of c2 k = page_size"
        using old [of _ r] h full True by auto
      then show "packed c2 r" using tk unfolding packed_def hr
        by (metis append.assoc append_Cons append_Nil butlast_snoc last_snoc order_refl)
    qed
    moreover have "held c2 r' = held c r' \<and> (\<forall>k \<in> set (held c r'). dget (all_pages c2) k = dget (all_pages c) k)"
      if "r' \<noteq> r" for r' using o(4) [OF that] o(9) [of r'] h' by (auto simp: c2_def)
    moreover have "total_pages c2 = total_pages c1" "request_pages c2 = request_pages c1" by (simp_all add: c2_def)
    ultimately show ?thesis using rec ok' hr h o(7,8) key
      by (intro exI [of _ c2]) auto
  qed
qed

section \<open>Fragmentation\<close>

lemma packed_request_slots:
  assumes ok: "paged_ok c" and "packed c r" and "held c r = pids @ [pid]"
    and "dget (all_pages c) pid = Some p"
  shows "int ((length (held c r) - 1) * page_size + page_size) = free_slots p + int (request_tokens c r)"
    and "0 \<le> free_slots p"
proof -
  have full: "\<forall>k \<in> set pids. tokens_of c k = page_size" using assms(2,3) by (auto simp: packed_def)
  have "(\<Sum>k\<leftarrow>pids. tokens_of c k) = length pids * page_size" using full by (induction pids) auto
  then have "request_tokens c r = length pids * page_size + tokens_used p"
    using assms(3,4) by (simp add: request_tokens_def tokens_of_def)
  then show "int ((length (held c r) - 1) * page_size + page_size) = free_slots p + int (request_tokens c r)"
    using assms(3) by (simp add: free_slots_def)
  show "0 \<le> free_slots p"
    using paged_okD(7) [OF ok assms(4)] by (simp add: page_ok_def free_slots_def)
qed

lemma fragmentation_slots_eq:
  assumes ok: "paged_ok c" and pk: "\<forall>r. packed c r"
  shows "\<exists>w t. fragmentation_slots c = Inr (w, t) \<and>
     int t = w + int (\<Sum>r\<leftarrow>dkeys (request_pages c). request_tokens c r) \<and> 0 \<le> w"
proof -
  let ?f = "\<lambda>(r, page_ids) (wasted, total).
         if page_ids = [] then Inr (wasted, total)
         else case dget (all_pages c) (last page_ids) of
                None \<Rightarrow> Inl (KeyError ''all_pages'')
              | Some last_page \<Rightarrow>
                  Inr (wasted + free_slots last_page, total + (length page_ids - 1) * page_size + page_size)"
  have "\<exists>w t. rfold ?f rps (w0, t0) = Inr (w, t) \<and>
     int t = int t0 - w0 + w + int (\<Sum>r\<leftarrow>dkeys rps. request_tokens c r) \<and> w0 \<le> w"
    if "set rps \<subseteq> set (request_pages c)" for rps w0 t0
    using that
  proof (induction rps arbitrary: w0 t0)
    case (Cons rp rps)
    obtain r ids where rp: "rp = (r, ids)" by (cases rp)
    with Cons.prems have "dget (request_pages c) r = Some ids"
      by (simp add: dwf_dget_iff [OF paged_okD(2) [OF ok]])
    then have h: "held c r = ids" by (simp add: held_def dget_or_def)
    show ?case
    proof (cases "ids = []")
      case True
      then have "request_tokens c r = 0" using h by (simp add: request_tokens_def)
      then show ?thesis using True rp Cons.IH [of w0 t0] Cons.prems by simp
    next
      case False
      then obtain pids pid where ids: "ids = pids @ [pid]" by (metis append_butlast_last_id)
      then have "pid < total_pages c" using paged_okD(6) [OF ok, of r] h by auto
      then obtain p where p: "dget (all_pages c) pid = Some p" using paged_okD(8) [OF ok] by blast
      let ?t = "t0 + (length ids - 1) * page_size + page_size"
      have "held c r = pids @ [pid]" using h ids by simp
      note slots = packed_request_slots [OF ok spec [OF pk] this p]
      have step: "rfold ?f (rp # rps) (w0, t0) = rfold ?f rps (w0 + free_slots p, ?t)"
        using False rp p ids by simp
      from Cons.IH [of "w0 + free_slots p" ?t] Cons.prems obtain w t where
        "rfold ?f rps (w0 + free_slots p, ?t) = Inr (w, t)"
        "int t = int ?t - (w0 + free_slots p) + w + int (\<Sum>r\<leftarrow>dkeys rps. request_tokens c r)"
        "w0 + free_slots p \<le> w" by auto
      then show ?thesis unfolding step using slots h rp by (intro exI [of _ w] exI [of _ t]) simp
    qed
  qed simp
  from this [of "request_pages c" 0 0] show ?thesis by (simp add: fragmentation_slots_def)
qed

section \<open>The interface of a page allocator\<close>

locale page_allocator =
  fixes alloc :: "'r \<Rightarrow> 'c \<Rightarrow> ('p option \<times> 'c) result"
    and release :: "'r \<Rightarrow> 'c \<Rightarrow> (nat \<times> 'c) result"
    and owned :: "'c \<Rightarrow> 'r \<Rightarrow> 'p set"
    and avail :: "'c \<Rightarrow> 'p set"
    and inv :: "'c \<Rightarrow> bool"
  assumes finite_avail: "inv c \<Longrightarrow> finite (avail c)"
    and finite_owned: "inv c \<Longrightarrow> finite (owned c r)"
    and owned_disjoint: "inv c \<Longrightarrow> r \<noteq> r' \<Longrightarrow> owned c r \<inter> owned c r' = {}"
    and owned_not_avail: "inv c \<Longrightarrow> owned c r \<inter> avail c = {}"
    and alloc_none: "avail c = {} \<Longrightarrow> alloc r c = Inr (None, c)"
    and alloc_some: "inv c \<Longrightarrow> avail c \<noteq> {} \<Longrightarrow>
      \<exists>p c'. alloc r c = Inr (Some p, c') \<and> inv c' \<and> p \<in> avail c \<and> avail c' = avail c - {p} \<and>
             owned c' r = insert p (owned c r) \<and> (\<forall>r'. r' \<noteq> r \<longrightarrow> owned c' r' = owned c r')"
    and release_all: "inv c \<Longrightarrow>
      \<exists>c'. release r c = Inr (card (owned c r), c') \<and> inv c' \<and> avail c' = avail c \<union> owned c r \<and>
           owned c' r = {} \<and> (\<forall>r'. r' \<noteq> r \<longrightarrow> owned c' r' = owned c r')"
begin

fun alloc_many :: "nat \<Rightarrow> 'r \<Rightarrow> 'c \<Rightarrow> 'c result" where
  "alloc_many 0 r c = Inr c"
| "alloc_many (Suc n) r c = rbind (alloc r c) (\<lambda>(_, c'). alloc_many n r c')"

text \<open>A request gets as many pages as there are, never one of another request.\<close>

lemma alloc_many_ok:
  assumes "inv c"
  shows "\<exists>c'. alloc_many n r c = Inr c' \<and> inv c' \<and>
     card (owned c' r) = card (owned c r) + min n (card (avail c)) \<and>
     avail c' \<union> owned c' r = avail c \<union> owned c r \<and> (\<forall>r'. r' \<noteq> r \<longrightarrow> owned c' r' = owned c r')"
  using assms
proof (induction n arbitrary: c)
  case (Suc n)
  show ?case
  proof (cases "avail c = {}")
    case True
    then have "alloc_many (Suc n) r c = alloc_many n r c" by (simp add: alloc_none)
    then show ?thesis using Suc.IH [OF Suc.prems] True by auto
  next
    case False
    then obtain p c1 where a: "alloc r c = Inr (Some p, c1)" "inv c1" "p \<in> avail c" "avail c1 = avail c - {p}"
      "owned c1 r = insert p (owned c r)" "\<forall>r'. r' \<noteq> r \<longrightarrow> owned c1 r' = owned c r'"
      using alloc_some [OF Suc.prems] by blast
    have "p \<notin> owned c r" using owned_not_avail [OF Suc.prems] a(3) by blast
    then have card1: "card (owned c1 r) = Suc (card (owned c r))"
      using a(5) finite_owned [OF Suc.prems] by simp
    have card2: "Suc (card (avail c1)) = card (avail c)"
      using a(3,4) finite_avail [OF Suc.prems] by (metis card_Suc_Diff1)
    have un: "avail c1 \<union> owned c1 r = avail c \<union> owned c r"
      unfolding a(4,5) using a(3) by blast
    obtain c2 where c2: "alloc_many n r c1 = Inr c2" "inv c2"
      "card (owned c2 r) = card (owned c1 r) + min n (card (avail c1))"
      "avail c2 \<union> owned c2 r = avail c1 \<union> owned c1 r" "\<forall>r'. r' \<noteq> r \<longrightarrow> owned c2 r' = owned c1 r'"
      using Suc.IH [OF a(2)] by blast
    have "alloc_many (Suc n) r c = Inr c2" using a(1) c2(1) by simp
    moreover have "card (owned c2 r) = card (owned c r) + min (Suc n) (card (avail c))"
    proof -
      have "min (Suc n) (card (avail c)) = Suc (min n (card (avail c1)))" unfolding card2 [symmetric] by simp
      with c2(3) card1 show ?thesis by linarith
    qed
    ultimately show ?thesis using c2(2,4,5) a(6) un by (intro exI [of _ c2]) simp
  qed
qed auto

text \<open>Releasing gives every page back: nothing leaks.\<close>

lemma alloc_release:
  assumes "inv c" and "owned c r = {}"
  shows "\<exists>c1 c2. alloc_many n r c = Inr c1 \<and> release r c1 = Inr (min n (card (avail c)), c2) \<and>
     inv c2 \<and> avail c2 = avail c \<and> (\<forall>r'. owned c2 r' = owned c r')"
proof -
  obtain c1 where c1: "alloc_many n r c = Inr c1" "inv c1" "card (owned c1 r) = min n (card (avail c))"
    "avail c1 \<union> owned c1 r = avail c" "\<forall>r'. r' \<noteq> r \<longrightarrow> owned c1 r' = owned c r'"
    using alloc_many_ok [OF assms(1), of n r] assms(2) by auto
  obtain c2 where c2: "release r c1 = Inr (card (owned c1 r), c2)" "inv c2"
    "avail c2 = avail c1 \<union> owned c1 r" "owned c2 r = {}" "\<forall>r'. r' \<noteq> r \<longrightarrow> owned c2 r' = owned c1 r'"
    using release_all [OF c1(2), of r] by blast
  have "owned c2 r' = owned c r'" for r'
    using c1(5) c2(4,5) assms(2) by (cases "r' = r") simp_all
  then show ?thesis using c1(1,3,4) c2(1,2,3) by (intro exI [of _ c1] exI [of _ c2]) simp
qed

end

interpretation pa: page_allocator "allocate_page pick" free_request "\<lambda>c r. set (held c r)" free_page_ids
    "\<lambda>c. paged_ok c \<and> chooser_ok pick"
  for pick
proof unfold_locales
  fix c r assume inv: "paged_ok c \<and> chooser_ok pick" and "free_page_ids c \<noteq> {}"
  then obtain pid c' where a: "allocate_page pick r c = Inr (Some pid, c')" "paged_ok c'" "pid \<in> free_page_ids c"
    "free_page_ids c' = free_page_ids c - {pid}" "held c' r = held c r @ [pid]"
    "\<And>r'. r' \<noteq> r \<Longrightarrow> held c' r' = held c r'"
    using allocate_page_ok [of c pick r] by (metis (no_types, lifting))
  then show "\<exists>p c'. allocate_page pick r c = Inr (Some p, c') \<and> (paged_ok c' \<and> chooser_ok pick) \<and>
      p \<in> free_page_ids c \<and> free_page_ids c' = free_page_ids c - {p} \<and>
      set (held c' r) = insert p (set (held c r)) \<and> (\<forall>r'. r' \<noteq> r \<longrightarrow> set (held c' r') = set (held c r'))"
    using inv by (intro exI [of _ pid] exI [of _ c']) simp
next
  fix c r assume inv: "paged_ok c \<and> chooser_ok pick"
  then obtain c' where f: "free_request r c = Inr (length (held c r), c')" "paged_ok c'"
    "free_page_ids c' = free_page_ids c \<union> set (held c r)" "held c' r = []"
    "\<And>r'. r' \<noteq> r \<Longrightarrow> held c' r' = held c r'"
    using free_request_ok [of c r] by (metis (no_types, lifting))
  have "card (set (held c r)) = length (held c r)" using inv paged_okD(5) distinct_card by blast
  then show "\<exists>c'. free_request r c = Inr (card (set (held c r)), c') \<and> (paged_ok c' \<and> chooser_ok pick) \<and>
      free_page_ids c' = free_page_ids c \<union> set (held c r) \<and> set (held c' r) = {} \<and>
      (\<forall>r'. r' \<noteq> r \<longrightarrow> set (held c' r') = set (held c r'))"
    using inv f by (intro exI [of _ c']) simp
qed (auto simp: allocate_page_oom paged_okD(4) dest: held_disjoint held_not_free)

end
