(* ===== verification/BatchedEngine.thy ===== *)
theory BatchedEngine
  imports Generation PagedCache "HOL-Library.Multiset" "HOL-Library.Product_Lexorder"
begin

text \<open>
  Continuous batching, \<open>v2_batched.py\<close>: \<open>InferenceRequest\<close> (\<open>request\<close>), \<open>RequestQueue\<close> (\<open>rqueue\<close>)
  and \<open>BatchedEngine\<close> (\<open>engine\<close>). The heap of the queue is represented by its entries in key order:
  \<open>heappush\<close> inserts, \<open>heappop\<close> takes the first, and nothing but the least entry and the size is ever
  observed; the keys \<open>(priority, counter)\<close> are distinct, so the requests are never compared. A
  request object is in one place at a time, the queue or the active list, and is kept there by
  value. Callbacks append to the log \<open>callbacks\<close>; the clock readings are left out.
\<close>

section \<open>Requests and their queue\<close>

record 'k request =
  request_id :: string
  req_prompt :: string
  max_toks :: int
  req_temp :: rat
  req_priority :: int
  has_callback :: bool
  prompt_ids :: "int list"
  generated :: "int list"
  past_kv :: "'k option"
  is_complete :: bool

definition new_request :: "string \<Rightarrow> string \<Rightarrow> int \<Rightarrow> rat \<Rightarrow> int \<Rightarrow> bool \<Rightarrow> 'k request" where
  "new_request rid prompt mt temp prio cb =
     \<lparr>request_id = rid, req_prompt = prompt, max_toks = mt, req_temp = temp, req_priority = prio,
      has_callback = cb, prompt_ids = [], generated = [], past_kv = None, is_complete = False\<rparr>"

record 'k rqueue =
  heap :: "(int \<times> nat \<times> 'k request) list"
  counter :: nat

definition new_rqueue :: "'k rqueue" where
  "new_rqueue = \<lparr>heap = [], counter = 0\<rparr>"

definition entry_key :: "int \<times> nat \<times> 'k request \<Rightarrow> int \<times> nat" where
  "entry_key e = (fst e, fst (snd e))"

definition queue_push :: "'k request \<Rightarrow> 'k rqueue \<Rightarrow> 'k rqueue" where
  "queue_push r q =
     \<lparr>heap = insort_key entry_key (req_priority r, counter q, r) (heap q), counter = counter q + 1\<rparr>"

definition queue_pop :: "'k rqueue \<Rightarrow> 'k request option \<times> 'k rqueue" where
  "queue_pop q = (case heap q of [] \<Rightarrow> (None, q) | (_, _, r) # h \<Rightarrow> (Some r, q\<lparr>heap := h\<rparr>))"

definition peek_priority :: "'k rqueue \<Rightarrow> int option" where
  "peek_priority q = (case heap q of [] \<Rightarrow> None | e # _ \<Rightarrow> Some (fst e))"

definition queue_len :: "'k rqueue \<Rightarrow> nat" where
  "queue_len q = length (heap q)"

section \<open>The engine\<close>

record ('k, 's) engine =
  max_batch_size :: int
  req_queue :: "'k rqueue"
  active :: "'k request list"
  paged_cache :: paged
  total_tokens :: nat
  total_steps :: nat
  batch_sizes :: "nat list"
  rng :: 's
  callbacks :: "(string \<times> string) list"

definition new_engine :: "int \<Rightarrow> nat \<Rightarrow> 's \<Rightarrow> ('k, 's) engine" where
  "new_engine mb total_cache_pages s =
     \<lparr>max_batch_size = mb, req_queue = new_rqueue, active = [], paged_cache = new_paged total_cache_pages,
      total_tokens = 0, total_steps = 0, batch_sizes = [], rng = s, callbacks = []\<rparr>"

definition submit :: "('l, 'k, 's, 'a) lm \<Rightarrow> 'k request \<Rightarrow> ('k, 's) engine \<Rightarrow> ('k, 's) engine" where
  "submit m r e =
     e\<lparr>req_queue := queue_push (r\<lparr>prompt_ids := tok_encode m (req_prompt r)\<rparr>) (req_queue e)\<rparr>"

text \<open>\<open>deque(maxlen=100).append\<close>.\<close>

definition push_bounded :: "nat \<Rightarrow> 'a \<Rightarrow> 'a list \<Rightarrow> 'a list" where
  "push_bounded n x xs = (let ys = xs @ [x] in drop (length ys - n) ys)"

definition admit_one :: "(nat set \<Rightarrow> nat) \<Rightarrow> ('k, 's) engine \<Rightarrow> ('k, 's) engine result" where
  "admit_one pick e =
     (case queue_pop (req_queue e) of
        (None, q) \<Rightarrow> Inr (e\<lparr>req_queue := q\<rparr>)
      | (Some r, q) \<Rightarrow>
          rmap (\<lambda>(_, pc). e\<lparr>req_queue := q, active := active e @ [r], paged_cache := pc\<rparr>)
            (allocate_page pick (request_id r) (paged_cache e)))"

function admit :: "(nat set \<Rightarrow> nat) \<Rightarrow> ('k, 's) engine \<Rightarrow> ('k, 's) engine result" where
  "admit pick e =
     (if int (length (active e)) < max_batch_size e \<and> 0 < queue_len (req_queue e)
      then (case admit_one pick e of Inl x \<Rightarrow> Inl x | Inr e' \<Rightarrow> admit pick e')
      else Inr e)"
  by pat_completeness auto
termination
  by (relation "measure (\<lambda>(pick, e). queue_len (req_queue e))")
     (auto simp: admit_one_def queue_pop_def queue_len_def rmap_Inr split: list.splits)

declare admit.simps [simp del]

text \<open>One request of the batch: the forward pass, the sampled token, the bookkeeping.\<close>

definition forward_request :: "('l, 'k, 's, 'a) lm \<Rightarrow> 'k request \<Rightarrow> ('l \<times> 'k) result" where
  "forward_request m r =
     (case past_kv r of
        None \<Rightarrow> Inr (fwd m (prompt_ids r) None)
      | Some past \<Rightarrow> rmap (\<lambda>last_token. fwd m [last_token] (Some past)) (py_index (generated r) (- 1)))"

definition step_request ::
  "('l, 'k, 's, 'a) lm \<Rightarrow> (nat set \<Rightarrow> nat) \<Rightarrow> 'k request \<Rightarrow> ('k, 's) engine \<Rightarrow> ('k request \<times> ('k, 's) engine) result" where
  "step_request m pick r e =
     rbind (forward_request m r) (\<lambda>(logits, past').
       let (tok, s') = sample m (req_temp r) logits (rng e);
           r1 = r\<lparr>past_kv := Some past', generated := generated r @ [tok]\<rparr>
       in rbind (record_token pick (request_id r) (paged_cache e)) (\<lambda>(_, pc).
            let e1 = e\<lparr>rng := s', paged_cache := pc, total_tokens := total_tokens e + 1\<rparr>
            in if is_eos m tok \<or> max_toks r \<le> int (length (generated r1))
               then rmap (\<lambda>(_, pc').
                      (r1\<lparr>is_complete := True, past_kv := None\<rparr>,
                       e1\<lparr>paged_cache := pc',
                          callbacks := (if has_callback r
                                        then callbacks e1 @ [(request_id r, tok_decode m (generated r1))]
                                        else callbacks e1)\<rparr>))
                      (free_request (request_id r) pc)
               else Inr (r1, e1)))"

text \<open>The loop over a copy of the active list: the requests that stay, and the completed ones.\<close>

fun step_all ::
  "('l, 'k, 's, 'a) lm \<Rightarrow> (nat set \<Rightarrow> nat) \<Rightarrow> 'k request list \<Rightarrow> ('k, 's) engine \<Rightarrow>
   ('k request list \<times> 'k request list \<times> ('k, 's) engine) result" where
  "step_all m pick [] e = Inr ([], [], e)"
| "step_all m pick (r # rs) e =
     rbind (step_request m pick r e) (\<lambda>(r', e').
       rmap (\<lambda>(kept, completed, e'').
           if is_complete r' then (kept, r' # completed, e'') else (r' # kept, completed, e''))
         (step_all m pick rs e'))"

definition scheduler_step ::
  "('l, 'k, 's, 'a) lm \<Rightarrow> (nat set \<Rightarrow> nat) \<Rightarrow> ('k, 's) engine \<Rightarrow> ('k request list \<times> ('k, 's) engine) result" where
  "scheduler_step m pick e =
     rbind (admit pick e) (\<lambda>e1.
       if active e1 = [] then Inr ([], e1)
       else rmap (\<lambda>(kept, completed, e2). (completed, e2\<lparr>active := kept, total_steps := total_steps e2 + 1\<rparr>))
              (step_all m pick (active e1)
                 (e1\<lparr>batch_sizes := push_bounded 100 (length (active e1)) (batch_sizes e1)\<rparr>)))"

fun run_until_empty ::
  "('l, 'k, 's, 'a) lm \<Rightarrow> (nat set \<Rightarrow> nat) \<Rightarrow> nat \<Rightarrow> ('k, 's) engine \<Rightarrow> ('k, 's) engine result" where
  "run_until_empty m pick 0 e = Inr e"
| "run_until_empty m pick (Suc n) e =
     (if active e \<noteq> [] \<or> 0 < queue_len (req_queue e)
      then rbind (scheduler_step m pick e) (\<lambda>(_, e'). run_until_empty m pick n e')
      else Inr e)"

record engine_stats =
  es_active_requests :: nat
  es_pending_requests :: nat
  es_batch_total :: nat
  es_batch_count :: nat
  es_paged_cache :: paged_stats

text \<open>\<open>avg_batch_size\<close> is the quotient of the two batch fields; the rate over the clock is left out.\<close>

definition engine_stats_of :: "('k, 's) engine \<Rightarrow> engine_stats" where
  "engine_stats_of e =
     \<lparr>es_active_requests = length (active e), es_pending_requests = queue_len (req_queue e),
      es_batch_total = sum_list (batch_sizes e), es_batch_count = length (batch_sizes e),
      es_paged_cache = paged_stats_of (paged_cache e)\<rparr>"

section \<open>The queue serves by priority, then in order of arrival\<close>

fun queue_drain :: "nat \<Rightarrow> 'k rqueue \<Rightarrow> 'k request list" where
  "queue_drain 0 q = []"
| "queue_drain (Suc n) q =
     (case queue_pop q of (None, q') \<Rightarrow> [] | (Some r, q') \<Rightarrow> r # queue_drain n q')"

definition requests_of :: "'k rqueue \<Rightarrow> 'k request list" where
  "requests_of q = map (\<lambda>e. snd (snd e)) (heap q)"

lemma queue_drain_all: "queue_drain (queue_len q) q = requests_of q"
proof -
  have "queue_drain (length h) (q\<lparr>heap := h\<rparr>) = map (\<lambda>e. snd (snd e)) h" for h
    by (induction h) (auto simp: queue_pop_def split: prod.split)
  from this [of "heap q"] show ?thesis by (simp add: queue_len_def requests_of_def)
qed

text \<open>With a counter above all others, a push goes behind every entry of its priority.\<close>

lemma insort_latest:
  assumes "\<forall>e \<in> set h. fst (snd e) < n" and "sorted (map fst h)"
  shows "insort_key entry_key (p, n, r) h =
     takeWhile (\<lambda>e. fst e \<le> p) h @ (p, n, r) # dropWhile (\<lambda>e. fst e \<le> p) h"
  using assms
proof (induction h)
  case (Cons e h)
  obtain p' n' r' where e: "e = (p', n', r')" by (cases e) auto
  have "n' < n" using Cons.prems(1) e by simp
  show ?case
  proof (cases "p' \<le> p")
    case True
    then have "\<not> entry_key (p, n, r) \<le> entry_key e"
      using \<open>n' < n\<close> by (simp add: e entry_key_def less_eq_prod_def)
    then show ?thesis using Cons True by (simp add: e)
  next
    case False
    then have "entry_key (p, n, r) \<le> entry_key e" by (simp add: e entry_key_def less_eq_prod_def)
    then show ?thesis using False by (simp add: e)
  qed
qed simp

lemma sorted_takeWhile_le:
  "sorted (map f h) \<Longrightarrow> \<forall>e \<in> set (dropWhile (\<lambda>e. f e \<le> p) h). p < f e"
proof (induction h)
  case (Cons x h)
  then show ?case by (auto simp: not_le dest: less_le_trans)
qed simp

lemma push_requests:
  assumes "\<forall>e \<in> set (heap q). fst (snd e) < counter q \<and> fst e = req_priority (snd (snd e))"
    and "sorted (map fst (heap q))"
  shows "\<forall>e \<in> set (heap (queue_push r q)). fst (snd e) < counter (queue_push r q) \<and> fst e = req_priority (snd (snd e))"
    and "sorted (map fst (heap (queue_push r q)))"
    and "requests_of (queue_push r q) =
       takeWhile (\<lambda>x. req_priority x \<le> req_priority r) (requests_of q) @
       r # dropWhile (\<lambda>x. req_priority x \<le> req_priority r) (requests_of q)"
proof -
  have lt: "\<forall>e \<in> set (heap q). fst (snd e) < counter q" using assms(1) by blast
  let ?P = "\<lambda>e. fst e \<le> req_priority r"
  have h: "heap (queue_push r q) =
      takeWhile ?P (heap q) @ (req_priority r, counter q, r) # dropWhile ?P (heap q)"
    by (simp add: queue_push_def insort_latest [OF lt assms(2)])
  show "\<forall>e \<in> set (heap (queue_push r q)). fst (snd e) < counter (queue_push r q) \<and> fst e = req_priority (snd (snd e))"
    using assms(1) by (simp add: queue_push_def set_insort_key less_SucI)
  have "sorted (map fst (takeWhile ?P (heap q)) @ map fst (dropWhile ?P (heap q)))"
    using assms(2) by (simp flip: map_append)
  then show "sorted (map fst (heap (queue_push r q)))"
    unfolding h using sorted_takeWhile_le [OF assms(2), of "req_priority r"]
    by (auto simp: sorted_append dest: set_takeWhileD intro: less_imp_le)
  have tw: "takeWhile ?P xs = takeWhile (\<lambda>e. req_priority (snd (snd e)) \<le> req_priority r) xs"
    "dropWhile ?P xs = dropWhile (\<lambda>e. req_priority (snd (snd e)) \<le> req_priority r) xs"
    if "set xs \<subseteq> set (heap q)" for xs
    using that assms(1) by (induction xs) auto
  show "requests_of (queue_push r q) =
       takeWhile (\<lambda>x. req_priority x \<le> req_priority r) (requests_of q) @
       r # dropWhile (\<lambda>x. req_priority x \<le> req_priority r) (requests_of q)"
    unfolding requests_of_def h by (simp add: takeWhile_map dropWhile_map comp_def tw)
qed

text \<open>That is the step of a stable sort.\<close>

lemma sort_key_snoc:
  "sort_key f (xs @ [x]) =
     takeWhile (\<lambda>y. f y \<le> f x) (sort_key f xs) @ x # dropWhile (\<lambda>y. f y \<le> f x) (sort_key f xs)"
proof -
  have "foldr (insort_key f) ys (takeWhile (\<lambda>y. f y \<le> f x) zs @ x # dropWhile (\<lambda>y. f y \<le> f x) zs) =
      takeWhile (\<lambda>y. f y \<le> f x) (foldr (insort_key f) ys zs) @
      x # dropWhile (\<lambda>y. f y \<le> f x) (foldr (insort_key f) ys zs)" if "sorted (map f zs)" for ys zs
  proof (induction ys)
    case (Cons y ys)
    let ?s = "foldr (insort_key f) ys zs"
    have srt: "sorted (map f ?s)" using that by (induction ys) (auto simp: sorted_insort_key)
    have "insort_key f y (takeWhile (\<lambda>y. f y \<le> f x) s @ x # dropWhile (\<lambda>y. f y \<le> f x) s) =
       takeWhile (\<lambda>y. f y \<le> f x) (insort_key f y s) @ x # dropWhile (\<lambda>y. f y \<le> f x) (insort_key f y s)"
      if "sorted (map f s)" for s
      using that by (induction s) auto
    from this [OF srt] Cons show ?case by simp
  qed simp
  from this [of "[]" xs] show ?thesis by (simp add: sort_key_def)
qed

lemma queue_order: "queue_drain (length rs) (fold queue_push rs new_rqueue) = sort_key req_priority rs"
proof -
  let ?q = "\<lambda>rs. fold queue_push rs new_rqueue"
  have "(\<forall>e \<in> set (heap (?q rs)). fst (snd e) < counter (?q rs) \<and> fst e = req_priority (snd (snd e))) \<and>
     sorted (map fst (heap (?q rs))) \<and> requests_of (?q rs) = sort_key req_priority rs"
  proof (induction rs rule: rev_induct)
    case Nil
    then show ?case by (simp add: new_rqueue_def requests_of_def)
  next
    case (snoc r rs)
    then have q: "\<forall>e \<in> set (heap (?q rs)). fst (snd e) < counter (?q rs) \<and> fst e = req_priority (snd (snd e))"
      "sorted (map fst (heap (?q rs)))" by blast+
    have "?q (rs @ [r]) = queue_push r (?q rs)" by simp
    then show ?case using push_requests [OF q, of r] snoc sort_key_snoc [of req_priority rs r] by simp
  qed
  then have "requests_of (?q rs) = sort_key req_priority rs" by blast
  moreover from this have "queue_len (?q rs) = length rs"
    by (metis length_map length_sort queue_len_def requests_of_def)
  ultimately show ?thesis using queue_drain_all [of "?q rs"] by simp
qed

section \<open>One request\<close>

text \<open>The tokens of greedy decoding, and what is left of them while a request runs.\<close>

fun greedy :: "('l, 'k, 's, 'a) lm \<Rightarrow> nat \<Rightarrow> int list \<Rightarrow> int list" where
  "greedy m 0 ids = []"
| "greedy m (Suc n) ids =
     (let tok = argmax_of m (fst (fwd m ids None))
      in tok # (if is_eos m tok then [] else greedy m n (ids @ [tok])))"

lemma naive_loop_greedy: "temp \<le> 0 \<Longrightarrow> naive_loop m temp n ids s = (ids @ greedy m n ids, s)"
  by (induction n arbitrary: ids) (simp_all add: sample_def Let_def)

definition budget :: "'k request \<Rightarrow> nat" where
  "budget r = nat (max 1 (max_toks r))"

definition remaining :: "'k request \<Rightarrow> nat" where
  "remaining r = budget r - length (generated r)"

definition running :: "('l, 'k, 's, 'a) lm \<Rightarrow> 'k request \<Rightarrow> bool" where
  "running m r \<longleftrightarrow> \<not> is_complete r \<and> prompt_ids r \<noteq> [] \<and> length (generated r) < budget r \<and>
     past_kv r = (if generated r = [] then None
                  else Some (snd (fwd m (prompt_ids r @ butlast (generated r)) None)))"

definition on_track :: "('l, 'k, 's, 'a) lm \<Rightarrow> 'k request \<Rightarrow> bool" where
  "on_track m r \<longleftrightarrow> req_temp r \<le> 0 \<and>
     greedy m (budget r) (prompt_ids r) =
       generated r @ greedy m (budget r - length (generated r)) (prompt_ids r @ generated r)"

definition outcome :: "('l, 'k, 's, 'a) lm \<Rightarrow> 'k request \<Rightarrow> string \<times> string" where
  "outcome m r = (request_id r, tok_decode m (greedy m (budget r) (prompt_ids r)))"

definition page_keys :: "('k, 's) engine \<Rightarrow> string set" where
  "page_keys e = set (dkeys (request_pages (paged_cache e)))"

lemma forward_running:
  assumes "kv_consistent m" and "running m r"
  shows "forward_request m r = Inr (fwd m (prompt_ids r @ generated r) None)"
proof (cases "generated r = []")
  case True
  with assms(2) show ?thesis by (simp add: running_def forward_request_def)
next
  case False
  have "py_index (generated r) (- 1) = Inr (last (generated r))"
    using False by (simp add: py_index_def last_conv_nth Suc_le_eq)
  moreover have "fwd m [last (generated r)] (Some (snd (fwd m (prompt_ids r @ butlast (generated r)) None)))
      = fwd m ((prompt_ids r @ butlast (generated r)) @ [last (generated r)]) None"
    using assms unfolding kv_consistent_def running_def by simp
  ultimately show ?thesis using assms(2) False by (simp add: running_def forward_request_def)
qed

lemma record_token_total:
  assumes "paged_ok c" and "chooser_ok pick"
  obtains b c' where "record_token pick r c = Inr (b, c')" and "paged_ok c'" and "total_pages c' = total_pages c"
    and "set (dkeys (request_pages c')) \<subseteq> insert r (set (dkeys (request_pages c)))"
proof (cases "held c r = []")
  case True
  show thesis
  proof (cases "free_page_ids c = {}")
    case oom: True
    show thesis
      by (rule that [OF record_token_first(1) [OF assms True oom] assms(1)]) auto
  next
    case False
    then obtain pid c' where c': "record_token pick r c = Inr (True, c')" and a: "allocate_page pick r c = Inr (Some pid, c')"
      using record_token_first(2) [OF assms True] by blast
    note o = allocate_page_other [OF assms a]
    show thesis by (rule that [OF c' o(1) o(7)]) (simp add: o(8))
  qed
next
  case False
  then obtain pids pid where h: "held c r = pids @ [pid]" by (metis append_butlast_last_id)
  show thesis
  proof (cases "tokens_of c pid = page_size \<and> free_page_ids c = {}")
    case True
    show thesis
      by (rule that [OF record_token_next(1) [OF assms h] assms(1)]) (use True in auto)
  next
    case False
    from record_token_next(2) [OF assms h False] show thesis using that by (metis order_refl)
  qed
qed

text \<open>The callbacks of the requests with an id in a set.\<close>

definition said :: "string set \<Rightarrow> ('k, 's) engine \<Rightarrow> (string \<times> string) multiset" where
  "said Q e = mset (filter (\<lambda>c. fst c \<in> Q) (callbacks e))"

lemma said_UNIV [simp]: "said UNIV e = mset (callbacks e)"
  by (simp add: said_def)

lemma step_request_ok:
  assumes kv: "kv_consistent m" and pick: "chooser_ok pick" and run: "running m r" and ok: "paged_ok (paged_cache e)"
  obtains r' e' where "step_request m pick r e = Inr (r', e')"
    and "is_complete r' \<or> running m r'" and "\<not> is_complete r' \<longrightarrow> remaining r = Suc (remaining r')"
    and "request_id r' = request_id r \<and> has_callback r' = has_callback r"
    and "paged_ok (paged_cache e')" and "total_pages (paged_cache e') = total_pages (paged_cache e)"
    and "page_keys e' \<subseteq> (if is_complete r' then page_keys e - {request_id r} else insert (request_id r) (page_keys e))"
    and "req_queue e' = req_queue e" and "max_batch_size e' = max_batch_size e"
    and "on_track m r \<longrightarrow> \<not> is_complete r' \<longrightarrow> on_track m r' \<and> outcome m r' = outcome m r \<and> callbacks e' = callbacks e"
    and "on_track m r \<longrightarrow> is_complete r' \<longrightarrow>
           callbacks e' = callbacks e @ (if has_callback r then [outcome m r] else [])"
    and "\<forall>Q. request_id r \<notin> Q \<longrightarrow> said Q e' = said Q e"
proof -
  define ids where "ids = prompt_ids r @ generated r"
  obtain l kv' where fw: "fwd m ids None = (l, kv')" by (cases "fwd m ids None")
  obtain tok s' where smp: "sample m (req_temp r) l (rng e) = (tok, s')" by (cases "sample m (req_temp r) l (rng e)")
  obtain b pc where rt: "record_token pick (request_id r) (paged_cache e) = Inr (b, pc)" "paged_ok pc"
    "total_pages pc = total_pages (paged_cache e)"
    "set (dkeys (request_pages pc)) \<subseteq> insert (request_id r) (page_keys e)"
    unfolding page_keys_def by (rule record_token_total [OF ok pick, where r = "request_id r"])
  have fr: "forward_request m r = Inr (l, kv')" using forward_running [OF kv run] fw by (simp add: ids_def)
  let ?gen = "generated r @ [tok]"
  let ?done = "is_eos m tok \<or> max_toks r \<le> int (length ?gen)"
  have len: "length (generated r) < budget r" and pr: "prompt_ids r \<noteq> []" and nc: "\<not> is_complete r"
    using run by (simp_all add: running_def)
  have grd: "greedy m (budget r) (prompt_ids r) =
      ?gen @ (if is_eos m tok then [] else greedy m (budget r - length ?gen) (prompt_ids r @ ?gen))"
    if "on_track m r"
  proof -
    have tok: "tok = argmax_of m (fst (fwd m ids None))"
      using that smp fw by (simp add: on_track_def sample_def)
    have "budget r - length (generated r) = Suc (budget r - length ?gen)" using len by simp
    then show ?thesis using that tok unfolding on_track_def by (simp add: ids_def Let_def)
  qed
  show thesis
  proof (cases ?done)
    case True
    obtain pc' where fq: "free_request (request_id r) pc = Inr (length (held pc (request_id r)), pc')" "paged_ok pc'"
      "total_pages pc' = total_pages pc"
      "dkeys (request_pages pc') = filter (\<lambda>k. k \<noteq> request_id r) (dkeys (request_pages pc))"
      using free_request_ok [OF rt(2), of "request_id r"] by (metis (no_types, lifting))
    let ?r = "r\<lparr>past_kv := None, generated := ?gen, is_complete := True\<rparr>"
    let ?e = "e\<lparr>rng := s', paged_cache := pc', total_tokens := total_tokens e + 1,
       callbacks := (if has_callback r then callbacks e @ [(request_id r, tok_decode m ?gen)] else callbacks e)\<rparr>"
    have st: "step_request m pick r e = Inr (?r, ?e)"
      using True by (simp add: step_request_def fr smp rt(1) fq(1) Let_def)
    have all: "greedy m (budget r) (prompt_ids r) = ?gen" if "on_track m r"
    proof (cases "is_eos m tok")
      case False
      then have "budget r - length ?gen = 0" using True by (simp add: budget_def)
      then show ?thesis using grd [OF that] by simp
    qed (use grd [OF that] in simp)
    show thesis
      by (rule that [OF st]) (use rt(3,4) fq all in \<open>auto simp: page_keys_def outcome_def said_def\<close>)
  next
    case False
    let ?r = "r\<lparr>past_kv := Some kv', generated := ?gen\<rparr>"
    let ?e = "e\<lparr>rng := s', paged_cache := pc, total_tokens := total_tokens e + 1\<rparr>"
    have st: "step_request m pick r e = Inr (?r, ?e)"
      using False by (simp add: step_request_def fr smp rt(1) Let_def)
    have bud: "budget ?r = budget r" by (simp add: budget_def)
    have "int (length ?gen) < max_toks r" using False by simp
    then have "length ?gen < nat (max_toks r)" by linarith
    then have lt: "length ?gen < budget r" by (simp add: budget_def)
    have kv': "kv' = snd (fwd m (prompt_ids ?r @ butlast (generated ?r)) None)"
      using fw by (simp add: ids_def butlast_append)
    have run': "running m ?r" using nc pr lt kv' unfolding running_def bud by simp
    have rem: "remaining r = Suc (remaining ?r)" using lt by (simp add: remaining_def bud)
    have trk: "on_track m ?r" if "on_track m r"
      using grd [OF that] that False unfolding on_track_def bud by simp
    show thesis
      by (rule that [OF st]) (use rt run' rem trk nc in \<open>auto simp: page_keys_def outcome_def bud said_def\<close>)
  qed
qed

section \<open>One step of the scheduler\<close>

definition total_remaining :: "'k request list \<Rightarrow> nat" where
  "total_remaining rs = (\<Sum>r\<leftarrow>rs. remaining r)"

definition outcomes :: "('l, 'k, 's, 'a) lm \<Rightarrow> 'k request list \<Rightarrow> (string \<times> string) multiset" where
  "outcomes m rs = mset (map (outcome m) (filter has_callback rs))"

lemma outcomes_Cons:
  "outcomes m (r # rs) = (if has_callback r then add_mset (outcome m r) (outcomes m rs) else outcomes m rs)"
  by (simp add: outcomes_def)

text \<open>What the requests with an id in a set are still to be told.\<close>

definition due :: "('l, 'k, 's, 'a) lm \<Rightarrow> string set \<Rightarrow> 'k request list \<Rightarrow> (string \<times> string) multiset" where
  "due m Q rs = outcomes m (filter (\<lambda>r. request_id r \<in> Q) rs)"

lemma due_UNIV [simp]: "due m UNIV rs = outcomes m rs"
  by (simp add: due_def)

lemma due_simps [simp]:
  "due m Q [] = {#}"
  "due m Q (r # rs) = (if request_id r \<in> Q \<and> has_callback r then add_mset (outcome m r) (due m Q rs) else due m Q rs)"
  "due m Q (rs @ qs) = due m Q rs + due m Q qs"
  by (simp_all add: due_def outcomes_def filter_filter_mset)

lemma remaining_pos: "running m r \<Longrightarrow> 0 < remaining r"
  by (simp add: running_def remaining_def)

lemma step_all_ok:
  assumes kv: "kv_consistent m" and pick: "chooser_ok pick"
    and run: "\<forall>r \<in> set rs. running m r" and ok: "paged_ok (paged_cache e)"
    and keys: "page_keys e \<subseteq> K \<union> request_id ` set rs"
  shows "\<exists>kept completed e'. step_all m pick rs e = Inr (kept, completed, e') \<and>
     (\<forall>r \<in> set kept. running m r) \<and> paged_ok (paged_cache e') \<and>
     total_pages (paged_cache e') = total_pages (paged_cache e) \<and>
     page_keys e' \<subseteq> K \<union> request_id ` set kept \<and> (\<forall>r \<in> set completed. is_complete r) \<and>
     length kept + length completed = length rs \<and>
     req_queue e' = req_queue e \<and> max_batch_size e' = max_batch_size e \<and>
     total_remaining kept + length rs \<le> total_remaining rs \<and>
     ((\<forall>r \<in> set rs. request_id r \<in> Q \<longrightarrow> on_track m r) \<longrightarrow> (\<forall>r \<in> set kept. request_id r \<in> Q \<longrightarrow> on_track m r) \<and>
        said Q e' + due m Q kept = said Q e + due m Q rs)"
  using run ok keys
proof (induction rs arbitrary: e K)
  case Nil
  then show ?case by (simp add: total_remaining_def)
next
  case (Cons r rs)
  have runr: "running m r" using Cons.prems(1) by simp
  obtain r1 e1 where st: "step_request m pick r e = Inr (r1, e1)"
    and alive: "is_complete r1 \<or> running m r1" and rem: "\<not> is_complete r1 \<longrightarrow> remaining r = Suc (remaining r1)"
    and ids: "request_id r1 = request_id r \<and> has_callback r1 = has_callback r"
    and ok1: "paged_ok (paged_cache e1)" and tp: "total_pages (paged_cache e1) = total_pages (paged_cache e)"
    and pk: "page_keys e1 \<subseteq> (if is_complete r1 then page_keys e - {request_id r} else insert (request_id r) (page_keys e))"
    and fr: "req_queue e1 = req_queue e" "max_batch_size e1 = max_batch_size e"
    and tr1: "on_track m r \<longrightarrow> \<not> is_complete r1 \<longrightarrow> on_track m r1 \<and> outcome m r1 = outcome m r \<and> callbacks e1 = callbacks e"
    and tr2: "on_track m r \<longrightarrow> is_complete r1 \<longrightarrow>
           callbacks e1 = callbacks e @ (if has_callback r then [outcome m r] else [])"
    and quiet: "\<forall>Q. request_id r \<notin> Q \<longrightarrow> said Q e1 = said Q e"
    by (rule step_request_ok [OF kv pick runr Cons.prems(2)])
  let ?K = "if is_complete r1 then K else insert (request_id r) K"
  have keys1: "page_keys e1 \<subseteq> ?K \<union> request_id ` set rs" using pk Cons.prems(3) by (auto split: if_splits)
  have runs: "\<forall>r \<in> set rs. running m r" using Cons.prems(1) by simp
  obtain kept completed e2 where
    IH: "step_all m pick rs e1 = Inr (kept, completed, e2)" "\<forall>r \<in> set kept. running m r" "paged_ok (paged_cache e2)"
      "total_pages (paged_cache e2) = total_pages (paged_cache e1)" "page_keys e2 \<subseteq> ?K \<union> request_id ` set kept"
      "\<forall>r \<in> set completed. is_complete r" "length kept + length completed = length rs"
      "req_queue e2 = req_queue e1" "max_batch_size e2 = max_batch_size e1"
      "total_remaining kept + length rs \<le> total_remaining rs"
    and tr: "(\<forall>r \<in> set rs. request_id r \<in> Q \<longrightarrow> on_track m r) \<longrightarrow> (\<forall>r \<in> set kept. request_id r \<in> Q \<longrightarrow> on_track m r) \<and>
        said Q e2 + due m Q kept = said Q e1 + due m Q rs"
    using Cons.IH [OF runs ok1 keys1] by (elim exE conjE) (rule that; assumption)
  show ?case
  proof (cases "is_complete r1")
    case True
    have res: "step_all m pick (r # rs) e = Inr (kept, r1 # completed, e2)" using st IH(1) True by simp
    have mine: "said Q e1 = said Q e + (if has_callback r then {#outcome m r#} else {#})"
      if "request_id r \<in> Q" "on_track m r"
      using tr2 that True by (auto simp: said_def outcome_def)
    have trk: "(\<forall>r \<in> set (r # rs). request_id r \<in> Q \<longrightarrow> on_track m r) \<longrightarrow> (\<forall>r \<in> set kept. request_id r \<in> Q \<longrightarrow> on_track m r) \<and>
        said Q e2 + due m Q kept = said Q e + due m Q (r # rs)"
      using tr mine quiet by (cases "request_id r \<in> Q") auto
    have a: "total_pages (paged_cache e2) = total_pages (paged_cache e)" using IH(4) tp by simp
    have b: "page_keys e2 \<subseteq> K \<union> request_id ` set kept" using IH(5) True by simp
    have c: "\<forall>r \<in> set (r1 # completed). is_complete r" using IH(6) True by simp
    have d: "length kept + length (r1 # completed) = length (r # rs)" using IH(7) by simp
    have f: "req_queue e2 = req_queue e" "max_batch_size e2 = max_batch_size e" using IH(8,9) fr by simp_all
    have g: "total_remaining kept + length (r # rs) \<le> total_remaining (r # rs)"
      using IH(10) remaining_pos [OF runr] by (simp add: total_remaining_def)
    show ?thesis
      by (rule exI [of _ kept], rule exI [of _ "r1 # completed"], rule exI [of _ e2])
         (intro conjI, fact res, fact IH(2), fact IH(3), fact a, fact b, fact c, fact d, fact f, fact f, fact g, fact trk)
  next
    case False
    have res: "step_all m pick (r # rs) e = Inr (r1 # kept, completed, e2)" using st IH(1) False by simp
    have mine: "on_track m r1 \<and> outcome m r1 = outcome m r \<and> said Q e1 = said Q e"
      if "request_id r \<in> Q" "on_track m r"
      using tr1 that False by (simp add: said_def)
    have trk: "(\<forall>r \<in> set (r # rs). request_id r \<in> Q \<longrightarrow> on_track m r) \<longrightarrow> (\<forall>r \<in> set (r1 # kept). request_id r \<in> Q \<longrightarrow> on_track m r) \<and>
        said Q e2 + due m Q (r1 # kept) = said Q e + due m Q (r # rs)"
      using tr mine quiet ids by (cases "request_id r \<in> Q") auto
    have a: "total_pages (paged_cache e2) = total_pages (paged_cache e)" using IH(4) tp by simp
    have b: "page_keys e2 \<subseteq> K \<union> request_id ` set (r1 # kept)" using IH(5) False ids by auto
    have c: "\<forall>r \<in> set (r1 # kept). running m r" using IH(2) alive False by simp
    have d: "length (r1 # kept) + length completed = length (r # rs)" using IH(7) by simp
    have f: "req_queue e2 = req_queue e" "max_batch_size e2 = max_batch_size e" using IH(8,9) fr by simp_all
    have g: "total_remaining (r1 # kept) + length (r # rs) \<le> total_remaining (r # rs)"
      using IH(10) rem False by (simp add: total_remaining_def)
    show ?thesis
      by (rule exI [of _ "r1 # kept"], rule exI [of _ completed], rule exI [of _ e2])
         (intro conjI, fact res, fact c, fact IH(3), fact a, fact b, fact IH(6), fact d, fact f, fact f, fact g, fact trk)
  qed
qed

definition all_requests :: "('k, 's) engine \<Rightarrow> 'k request list" where
  "all_requests e = active e @ requests_of (req_queue e)"

definition engine_ok :: "('l, 'k, 's, 'a) lm \<Rightarrow> ('k, 's) engine \<Rightarrow> bool" where
  "engine_ok m e \<longleftrightarrow> paged_ok (paged_cache e) \<and> page_keys e \<subseteq> request_id ` set (active e) \<and>
     (\<forall>r \<in> set (all_requests e). running m r)"

lemma admit_one_ok:
  assumes ok: "paged_ok (paged_cache e)" and pick: "chooser_ok pick" and q: "0 < queue_len (req_queue e)"
    and keys: "page_keys e \<subseteq> request_id ` set (active e)"
  obtains e' where "admit_one pick e = Inr e'" and "paged_ok (paged_cache e')"
    and "total_pages (paged_cache e') = total_pages (paged_cache e)"
    and "page_keys e' \<subseteq> request_id ` set (active e')" and "all_requests e' = all_requests e"
    and "active e' \<noteq> []" and "max_batch_size e' = max_batch_size e" and "callbacks e' = callbacks e"
proof -
  from q obtain p n r h where h: "heap (req_queue e) = (p, n, r) # h"
    by (cases "heap (req_queue e)") (auto simp: queue_len_def)
  then have pop: "queue_pop (req_queue e) = (Some r, (req_queue e)\<lparr>heap := h\<rparr>)" by (simp add: queue_pop_def)
  have "\<exists>x c'. allocate_page pick (request_id r) (paged_cache e) = Inr (x, c') \<and> paged_ok c' \<and>
      total_pages c' = total_pages (paged_cache e) \<and>
      set (dkeys (request_pages c')) \<subseteq> insert (request_id r) (page_keys e)"
  proof (cases "free_page_ids (paged_cache e) = {}")
    case True
    then show ?thesis using allocate_page_oom ok by (fastforce simp: page_keys_def)
  next
    case False
    then obtain pid c' where a: "allocate_page pick (request_id r) (paged_cache e) = Inr (Some pid, c')"
      using allocate_page_ok [OF ok pick] by metis
    then show ?thesis using allocate_page_other(1,7,8) [OF ok pick a] by (auto simp: page_keys_def)
  qed
  then obtain x c' where a: "allocate_page pick (request_id r) (paged_cache e) = Inr (x, c')" "paged_ok c'"
      "total_pages c' = total_pages (paged_cache e)"
      "set (dkeys (request_pages c')) \<subseteq> insert (request_id r) (page_keys e)" by blast
  let ?e = "e\<lparr>req_queue := (req_queue e)\<lparr>heap := h\<rparr>, active := active e @ [r], paged_cache := c'\<rparr>"
  have "admit_one pick e = Inr ?e" using pop a(1) by (simp add: admit_one_def)
  then show thesis
    by (rule that) (use a keys h in \<open>auto simp: page_keys_def all_requests_def requests_of_def\<close>)
qed

lemma admit_ok:
  assumes pick: "chooser_ok pick" and "paged_ok (paged_cache e)" and "page_keys e \<subseteq> request_id ` set (active e)"
  shows "\<exists>e'. admit pick e = Inr e' \<and> paged_ok (paged_cache e') \<and>
     total_pages (paged_cache e') = total_pages (paged_cache e) \<and>
     page_keys e' \<subseteq> request_id ` set (active e') \<and> all_requests e' = all_requests e \<and>
     max_batch_size e' = max_batch_size e \<and> callbacks e' = callbacks e \<and>
     (0 < max_batch_size e \<longrightarrow> all_requests e \<noteq> [] \<longrightarrow> active e' \<noteq> [])"
  using assms
proof (induction pick e rule: admit.induct)
  case (1 pick e)
  show ?case
  proof (cases "int (length (active e)) < max_batch_size e \<and> 0 < queue_len (req_queue e)")
    case True
    obtain e1 where e1: "admit_one pick e = Inr e1" "paged_ok (paged_cache e1)"
      "total_pages (paged_cache e1) = total_pages (paged_cache e)"
      "page_keys e1 \<subseteq> request_id ` set (active e1)" "all_requests e1 = all_requests e"
      "active e1 \<noteq> []" "max_batch_size e1 = max_batch_size e" "callbacks e1 = callbacks e"
      using admit_one_ok [OF "1.prems"(2,1) _ "1.prems"(3)] True by metis
    have "admit pick e = admit pick e1" using True e1(1) by (subst admit.simps) simp
    with "1.IH" [OF True e1(1) "1.prems"(1) e1(2,4)] e1(3,5-8) show ?thesis by simp
  next
    case False
    then have "admit pick e = Inr e" by (subst admit.simps) auto
    moreover have "active e \<noteq> []" if "0 < max_batch_size e" "all_requests e \<noteq> []"
      using False that by (auto simp: all_requests_def requests_of_def queue_len_def)
    ultimately show ?thesis using "1.prems" by simp
  qed
qed

lemma scheduler_step_ok:
  assumes kv: "kv_consistent m" and pick: "chooser_ok pick" and ok: "engine_ok m e"
  shows "\<exists>completed e'. scheduler_step m pick e = Inr (completed, e') \<and> engine_ok m e' \<and>
     max_batch_size e' = max_batch_size e \<and> (\<forall>r \<in> set completed. is_complete r) \<and>
     total_pages (paged_cache e') = total_pages (paged_cache e) \<and>
     (0 < max_batch_size e \<longrightarrow> all_requests e \<noteq> [] \<longrightarrow>
        total_remaining (all_requests e') < total_remaining (all_requests e)) \<and>
     ((\<forall>r \<in> set (all_requests e). request_id r \<in> Q \<longrightarrow> on_track m r) \<longrightarrow>
        (\<forall>r \<in> set (all_requests e'). request_id r \<in> Q \<longrightarrow> on_track m r) \<and>
        said Q e' + due m Q (all_requests e') = said Q e + due m Q (all_requests e))"
proof -
  obtain e1 where e1: "admit pick e = Inr e1" "paged_ok (paged_cache e1)"
    "total_pages (paged_cache e1) = total_pages (paged_cache e)"
    "page_keys e1 \<subseteq> request_id ` set (active e1)" "all_requests e1 = all_requests e"
    "max_batch_size e1 = max_batch_size e" "callbacks e1 = callbacks e"
    "0 < max_batch_size e \<longrightarrow> all_requests e \<noteq> [] \<longrightarrow> active e1 \<noteq> []"
    using admit_ok [OF pick, of e] ok unfolding engine_ok_def by blast
  have run: "\<forall>r \<in> set (all_requests e1). running m r" using ok e1(5) by (simp add: engine_ok_def)
  show ?thesis
  proof (cases "active e1 = []")
    case True
    then have "scheduler_step m pick e = Inr ([], e1)" using e1(1) by (simp add: scheduler_step_def)
    then show ?thesis using e1 run True by (simp add: engine_ok_def said_def)
  next
    case False
    let ?e1 = "e1\<lparr>batch_sizes := push_bounded 100 (length (active e1)) (batch_sizes e1)\<rparr>"
    have "\<forall>r \<in> set (active e1). running m r" "paged_ok (paged_cache ?e1)"
      "page_keys ?e1 \<subseteq> {} \<union> request_id ` set (active e1)"
      using run e1(2,4) by (auto simp: all_requests_def page_keys_def)
    from step_all_ok [OF kv pick this, of Q] obtain kept completed e2 where
      st: "step_all m pick (active e1) ?e1 = Inr (kept, completed, e2)" "\<forall>r \<in> set kept. running m r"
        "paged_ok (paged_cache e2)" "total_pages (paged_cache e2) = total_pages (paged_cache e1)"
        "page_keys e2 \<subseteq> request_id ` set kept" "\<forall>r \<in> set completed. is_complete r"
        "req_queue e2 = req_queue e1" "max_batch_size e2 = max_batch_size e1"
        "total_remaining kept + length (active e1) \<le> total_remaining (active e1)"
      and tr: "(\<forall>r \<in> set (active e1). request_id r \<in> Q \<longrightarrow> on_track m r) \<longrightarrow> (\<forall>r \<in> set kept. request_id r \<in> Q \<longrightarrow> on_track m r) \<and>
        said Q e2 + due m Q kept = said Q e1 + due m Q (active e1)"
      by (auto simp: said_def)
    let ?e2 = "e2\<lparr>active := kept, total_steps := total_steps e2 + 1\<rparr>"
    have res: "scheduler_step m pick e = Inr (completed, ?e2)"
      using e1(1) False st(1) by (simp add: scheduler_step_def)
    have all2: "all_requests ?e2 = kept @ requests_of (req_queue e1)" by (simp add: all_requests_def st(7))
    have all1: "all_requests e = active e1 @ requests_of (req_queue e1)" using e1(5) by (simp add: all_requests_def)
    have "engine_ok m ?e2" using st(2,3,5) run all1 e1(5) unfolding engine_ok_def all2
      by (auto simp: page_keys_def)
    moreover have "total_remaining (all_requests ?e2) < total_remaining (all_requests e)"
      using st(9) False unfolding all1 all2 by (simp add: total_remaining_def length_greater_0_conv [symmetric] del: length_greater_0_conv)
    moreover have "(\<forall>r \<in> set (all_requests e). request_id r \<in> Q \<longrightarrow> on_track m r) \<longrightarrow>
        (\<forall>r \<in> set (all_requests ?e2). request_id r \<in> Q \<longrightarrow> on_track m r) \<and>
        said Q ?e2 + due m Q (all_requests ?e2) = said Q e + due m Q (all_requests e)"
      using tr e1(7) unfolding all1 all2 by (auto simp: said_def)
    ultimately show ?thesis
      by (intro exI [of _ completed] exI [of _ ?e2]) (use res st e1 in simp)
  qed
qed

lemma run_until_empty_ok:
  assumes kv: "kv_consistent m" and pick: "chooser_ok pick" and "engine_ok m e" and "0 < max_batch_size e"
    and "total_remaining (all_requests e) \<le> n"
  shows "\<exists>e'. run_until_empty m pick n e = Inr e' \<and> engine_ok m e' \<and> all_requests e' = [] \<and>
     total_pages (paged_cache e') = total_pages (paged_cache e) \<and>
     ((\<forall>r \<in> set (all_requests e). on_track m r) \<longrightarrow>
        mset (callbacks e') = mset (callbacks e) + outcomes m (all_requests e))"
  using assms(3-5)
proof (induction n arbitrary: e)
  case 0
  have "all_requests e = []"
  proof (rule ccontr)
    assume "all_requests e \<noteq> []"
    then obtain r rs where "all_requests e = r # rs" by (cases "all_requests e") auto
    with 0(1,3) remaining_pos show False by (force simp: engine_ok_def total_remaining_def)
  qed
  then show ?case using 0 by (simp add: outcomes_def)
next
  case (Suc n)
  have empty: "all_requests e = [] \<longleftrightarrow> \<not> (active e \<noteq> [] \<or> 0 < queue_len (req_queue e))"
    by (simp add: all_requests_def requests_of_def queue_len_def)
  show ?case
  proof (cases "all_requests e = []")
    case True
    then have "run_until_empty m pick (Suc n) e = Inr e" using empty by simp
    then show ?thesis using Suc.prems True by (simp add: outcomes_def)
  next
    case False
    from scheduler_step_ok [OF kv pick Suc.prems(1), of UNIV] obtain completed e1 where
      st: "scheduler_step m pick e = Inr (completed, e1)" "engine_ok m e1" "max_batch_size e1 = max_batch_size e"
        "total_pages (paged_cache e1) = total_pages (paged_cache e)"
        "total_remaining (all_requests e1) < total_remaining (all_requests e)"
      and tr: "(\<forall>r \<in> set (all_requests e). on_track m r) \<longrightarrow> (\<forall>r \<in> set (all_requests e1). on_track m r) \<and>
        mset (callbacks e1) + outcomes m (all_requests e1) = mset (callbacks e) + outcomes m (all_requests e)"
      using Suc.prems(2) False by auto
    have go: "run_until_empty m pick (Suc n) e = run_until_empty m pick n e1"
      using False empty st(1) by simp
    have "0 < max_batch_size e1" "total_remaining (all_requests e1) \<le> n" using st(3,5) Suc.prems(2,3) by simp_all
    from Suc.IH [OF st(2) this] obtain e' where "run_until_empty m pick n e1 = Inr e'" "engine_ok m e'"
      "all_requests e' = []" "total_pages (paged_cache e') = total_pages (paged_cache e1)"
      "(\<forall>r \<in> set (all_requests e1). on_track m r) \<longrightarrow>
        mset (callbacks e') = mset (callbacks e1) + outcomes m (all_requests e1)" by blast
    then show ?thesis using go st(4) tr by (intro exI [of _ e']) auto
  qed
qed

end
