(* ===== verification/InferenceProperties.thy ===== *)
theory InferenceProperties
  imports BatchedEngine
begin

text \<open>
  The properties of the inference engine (\<open>labs/llm-inference\<close>). The witnesses run on \<open>toy_lm\<close>, a
  model whose forward pass returns its whole context, so that its key/value cache is the context
  itself, and whose most likely token is the sum of the context modulo 7 (token 3 ends a text).
\<close>

definition toy_lm :: "(int list, int list, unit, int) lm" where
  "toy_lm = \<lparr>fwd = (\<lambda>ids past. let ctx = (case past of None \<Rightarrow> ids | Some p \<Rightarrow> p @ ids) in (ctx, ctx)),
     argmax_of = (\<lambda>l. sum_list l mod 7), multinomial = (\<lambda>t l s. (0, s)),
     tok_encode = (\<lambda>p. map (\<lambda>c. of_char c) p), tok_decode = (\<lambda>ids. map (\<lambda>i. char_of (nat i)) ids),
     eos_token = Some 3,
     kv_layers = (\<lambda>past. let x = \<lparr>elem_size = 4, head_dim = 1, rows = [map (\<lambda>i. [i]) past]\<rparr> in [(x, x)])\<rparr>"

lemma toy_kv: "kv_consistent toy_lm" and toy_layers: "fixed_layers toy_lm 1"
  by (simp_all add: kv_consistent_def fixed_layers_def toy_lm_def Let_def)

lemma chooser_Min: "chooser_ok Min"
  by (simp add: chooser_ok_def)

section \<open>Generation\<close>

text \<open>C11: Generation with the key/value cache gives the text, the counts and the generator state of the
  generation that recomputes the whole context for every token.\<close>

theorem kv_cache_generation_equals_naive:
  assumes "kv_consistent m" and "tok_encode m prompt \<noteq> []" and "1 \<le> max_tokens"
  shows "(case generate_with_kv_cache m prompt max_tokens temp s of (r, b, s') \<Rightarrow> (r, s'))
       = generate_naive m prompt max_tokens temp s"
  using generate_kv_naive [OF assms] .

theorem kv_cache_generation_equals_naive_witness:
  "fst (generate_with_kv_cache toy_lm ''ab'' 3 0 ()) = fst (generate_naive toy_lm ''ab'' 3 0 ())"
  using kv_cache_generation_equals_naive [OF toy_kv, of "''ab''" 3 0 "()"]
  by (simp add: toy_lm_def case_prod_unfold prod_eq_iff)

text \<open>The generation with the manual \<open>KVCache\<close> does not stop at an end-of-sequence token that is
  the first one: where the library-cache version returns one token it goes on to a second.\<close>

theorem manual_cache_misses_first_eos:
  assumes "fixed_layers m n" and "1 < max_tokens"
    and "is_eos m (fst (sample m temp (fst (fwd m (tok_encode m prompt) None)) s))"
  shows "\<exists>r b c s' r' b' s''. generate_with_kv_cache m prompt max_tokens temp s = (r, b, s') \<and>
     generate_with_manual_kv_cache m prompt max_tokens temp s = Inr (r', b', c, s'') \<and>
     generated_tokens r = 1 \<and> 2 \<le> generated_tokens r'"
  using manual_after_eos [OF assms] .

theorem manual_cache_misses_first_eos_witness:
  "\<exists>r b c s' r' b' s''. generate_with_kv_cache toy_lm ''B'' 2 0 () = (r, b, s') \<and>
     generate_with_manual_kv_cache toy_lm ''B'' 2 0 () = Inr (r', b', c, s'') \<and>
     generated_tokens r = 1 \<and> 2 \<le> generated_tokens r'"
proof (rule manual_cache_misses_first_eos [OF toy_layers])
  show "is_eos toy_lm (fst (sample toy_lm 0 (fst (fwd toy_lm (tok_encode toy_lm ''B'') None)) ()))"
    by (simp add: is_eos_def sample_def toy_lm_def Let_def)
qed simp

text \<open>On every other prompt (or with at most one token to produce) the manual cache gives what the
  library cache gives, and never raises.\<close>

theorem manual_cache_equals_kv_cache:
  assumes "fixed_layers m n"
    and "\<not> is_eos m (fst (sample m temp (fst (fwd m (tok_encode m prompt) None)) s)) \<or> max_tokens \<le> 1"
  shows "\<exists>c. generate_with_manual_kv_cache m prompt max_tokens temp s =
     Inr (case generate_with_kv_cache m prompt max_tokens temp s of (r, b, s') \<Rightarrow> (r, b, c, s'))"
  using manual_eq_kv [OF assms] .

theorem manual_cache_equals_kv_cache_witness:
  "\<exists>c. generate_with_manual_kv_cache toy_lm ''ab'' 4 0 () =
     Inr (case generate_with_kv_cache toy_lm ''ab'' 4 0 () of (r, b, s') \<Rightarrow> (r, b, c, s'))"
proof (rule manual_cache_equals_kv_cache [OF toy_layers])
  show "\<not> is_eos toy_lm (fst (sample toy_lm 0 (fst (fwd toy_lm (tok_encode toy_lm ''ab'') None)) ())) \<or> (4 :: int) \<le> 1"
    by (simp add: is_eos_def sample_def toy_lm_def Let_def)
qed

section \<open>The key/value cache\<close>

text \<open>Updating one layer of the cache with a sequence of tensors of one shape never fails, stores
  their concatenation along the sequence, head by head, and leaves the other layers alone.\<close>

theorem kv_cache_concatenates:
  assumes "dget (cache c) layer = None" and "kvs \<noteq> []"
    and "\<forall>(k, v) \<in> set kvs. has_shape h (shape2 k) d e k \<and> has_shape h (shape2 k) d e v"
  shows "\<exists>c' k1 v1. kv_updates layer kvs c = Inr c' \<and> kv_get layer c' = Some (k1, v1) \<and>
     has_shape h (\<Sum>kv\<leftarrow>kvs. shape2 (fst kv)) d e k1 \<and> has_shape h (\<Sum>kv\<leftarrow>kvs. shape2 (fst kv)) d e v1 \<and>
     (\<forall>i < h. rows k1 ! i = concat (map (\<lambda>kv. rows (fst kv) ! i) kvs) \<and>
              rows v1 ! i = concat (map (\<lambda>kv. rows (snd kv) ! i) kvs)) \<and>
     (\<forall>l. l \<noteq> layer \<longrightarrow> kv_get l c' = kv_get l c)"
  using kv_updates_fresh [OF assms] .

theorem kv_cache_concatenates_witness:
  "\<exists>c' k1 v1. kv_updates 0 [(\<lparr>elem_size = 4, head_dim = 1, rows = [[[7 :: int]]]\<rparr>, \<lparr>elem_size = 4, head_dim = 1, rows = [[[8]]]\<rparr>),
       (\<lparr>elem_size = 4, head_dim = 1, rows = [[[9]]]\<rparr>, \<lparr>elem_size = 4, head_dim = 1, rows = [[[6]]]\<rparr>)] new_kvcache = Inr c' \<and>
     kv_get 0 c' = Some (k1, v1) \<and> rows k1 ! 0 = [[7], [9]]"
  using kv_cache_concatenates [of new_kvcache 0 "[(\<lparr>elem_size = 4, head_dim = 1, rows = [[[7 :: int]]]\<rparr>, \<lparr>elem_size = 4, head_dim = 1, rows = [[[8]]]\<rparr>),
       (\<lparr>elem_size = 4, head_dim = 1, rows = [[[9]]]\<rparr>, \<lparr>elem_size = 4, head_dim = 1, rows = [[[6]]]\<rparr>)]" 1 1 4]
  by (fastforce simp: new_kvcache_def has_shape_def shape2_def)

section \<open>Requests and pages\<close>

text \<open>The request queue is a stable priority queue: draining it returns the pushed requests in
  order of priority, and those of equal priority in order of arrival.\<close>

theorem request_queue_is_stable_sort:
  "queue_drain (length rs) (fold queue_push rs new_rqueue) = sort_key req_priority rs"
  by (rule queue_order)

text \<open>C12: The page allocator never hands a page to two requests: the pages of a request are disjoint
  from those of any other and from the free ones, and freeing a request that allocated any number
  of pages gives exactly these back.\<close>

theorem pages_never_shared:
  assumes "paged_ok c" and "chooser_ok pick" and "r \<noteq> r'" and "held c r = []"
  shows "set (held c r) \<inter> set (held c r') = {} \<and> set (held c r') \<inter> free_page_ids c = {} \<and>
    (\<exists>c1 c2. pa.alloc_many pick n r c = Inr c1 \<and> paged_ok c1 \<and>
       card (set (held c1 r)) = min n (card (free_page_ids c)) \<and> set (held c1 r) \<inter> set (held c1 r') = {} \<and>
       free_request r c1 = Inr (min n (card (free_page_ids c)), c2) \<and> paged_ok c2 \<and>
       free_page_ids c2 = free_page_ids c \<and> (\<forall>q. set (held c2 q) = set (held c q)))"
proof -
  have inv: "paged_ok c \<and> chooser_ok pick" using assms by simp
  have "set (held c r) = {}" using assms(4) by simp
  from pa.alloc_release [OF inv this, of n] obtain c1 c2 where
    a: "pa.alloc_many pick n r c = Inr c1" and f: "free_request r c1 = Inr (min n (card (free_page_ids c)), c2)"
    and c2: "paged_ok c2" "free_page_ids c2 = free_page_ids c" "\<forall>q. set (held c2 q) = set (held c q)" by blast
  have c1: "paged_ok c1" "card (set (held c1 r)) = min n (card (free_page_ids c))"
    using pa.alloc_many_ok [OF inv, of n r] a assms(4) by auto
  show ?thesis
    using a f c2 c1 held_disjoint [OF assms(1,3)] held_disjoint [OF c1(1) assms(3)] held_not_free [OF assms(1)]
    by blast
qed

theorem pages_never_shared_witness:
  "\<exists>c1. pa.alloc_many Min 5 ''r'' (new_paged 3) = Inr c1 \<and> card (set (held c1 ''r'')) = 3"
proof -
  have "held (new_paged 3) ''r'' = []" by (simp add: new_paged_def held_def dget_or_def)
  from pages_never_shared [OF new_paged_ok chooser_Min, of "''r''" "''q''", OF _ this, of 5]
  obtain c1 where "pa.alloc_many Min 5 ''r'' (new_paged 3) = Inr c1"
    "card (set (held c1 ''r'')) = min 5 (card (free_page_ids (new_paged 3)))" by auto
  moreover have "card (free_page_ids (new_paged 3)) = 3" by (simp add: new_paged_def)
  ultimately show ?thesis by auto
qed

text \<open>Recording a token of a request that already has a page counts it, takes a new page only when
  the last one is full, and keeps the request packed, so that it holds \<open>max 1 (ceil (tokens / 16))\<close> pages
  and wastes less than one page; when no page is left it returns \<open>False\<close> and changes nothing.\<close>

theorem record_token_packs_pages:
  assumes "paged_ok c" and "chooser_ok pick" and "packed c r" and "held c r = pids @ [pid]"
  shows "(if tokens_of c pid = page_size \<and> free_page_ids c = {} then record_token pick r c = Inr (False, c)
     else \<exists>c'. record_token pick r c = Inr (True, c') \<and> paged_ok c' \<and> packed c' r \<and>
       request_tokens c' r = request_tokens c r + 1 \<and>
       pages_for_request r c' = max 1 ((request_tokens c' r + (page_size - 1)) div page_size) \<and>
       (\<forall>r'. r' \<noteq> r \<longrightarrow> held c' r' = held c r'))"
proof (cases "tokens_of c pid = page_size \<and> free_page_ids c = {}")
  case True
  then show ?thesis using record_token_next(1) [OF assms(1,2,4)] by simp
next
  case False
  then obtain c' where c': "record_token pick r c = Inr (True, c')" "paged_ok c'" "packed c' r"
      "request_tokens c' r = Suc (request_tokens c r)" "set (held c r) \<subseteq> set (held c' r)"
      "\<forall>r'. r' \<noteq> r \<longrightarrow> held c' r' = held c r'"
    using record_token_next(2) [OF assms(1,2,4)] assms(3) by blast
  have "held c' r \<noteq> []" using c'(5) assms(4) by auto
  from packed_pages [OF c'(2,3) this] show ?thesis using c' False by auto
qed

theorem record_token_packs_pages_witness:
  "\<exists>c1 pid c'. allocate_page Min ''r'' (new_paged 2) = Inr (Some pid, c1) \<and>
     record_token Min ''r'' c1 = Inr (True, c') \<and> request_tokens c' ''r'' = 1"
proof -
  have h: "held (new_paged 2) ''r'' = []" and f: "free_page_ids (new_paged 2) \<noteq> {}"
    by (simp_all add: new_paged_def held_def dget_or_def)
  obtain pid c1 where a: "allocate_page Min ''r'' (new_paged 2) = Inr (Some pid, c1)"
    using allocate_page_ok [OF new_paged_ok chooser_Min f] by metis
  note o = allocate_page_other [OF new_paged_ok chooser_Min a]
  have h1: "held c1 ''r'' = [] @ [pid]" and t: "request_tokens c1 ''r'' = 0" "tokens_of c1 pid \<noteq> page_size"
    using o(2,3) h by (simp_all add: request_tokens_def page_size_def)
  have "packed c1 ''r''" using h1 by (simp add: packed_def)
  from record_token_packs_pages [OF o(1) chooser_Min this h1] t a show ?thesis by auto
qed

text \<open>The first token recorded for a request without pages gets a page but is not counted.\<close>

theorem first_token_not_counted:
  assumes "paged_ok c" and "chooser_ok pick" and "held c r = []" and "free_page_ids c \<noteq> {}"
  shows "\<exists>c'. record_token pick r c = Inr (True, c') \<and> pages_for_request r c' = 1 \<and> request_tokens c' r = 0"
  using record_token_first(2) [OF assms] by blast

theorem first_token_not_counted_witness:
  "\<exists>c'. record_token Min ''r'' (new_paged 2) = Inr (True, c') \<and> request_tokens c' ''r'' = 0"
proof -
  have "held (new_paged 2) ''r'' = []" and "free_page_ids (new_paged 2) \<noteq> {}"
    by (simp_all add: new_paged_def held_def dget_or_def)
  from first_token_not_counted [OF new_paged_ok chooser_Min this] show ?thesis by blast
qed

section \<open>The scheduler\<close>

type_synonym job = "string \<times> string \<times> int \<times> int \<times> bool"

definition job_request :: "job \<Rightarrow> 'k request" where
  "job_request = (\<lambda>(rid, prompt, mt, prio, cb). new_request rid prompt mt 0 prio cb)"

definition submit_jobs :: "('l, 'k, 's, 'a) lm \<Rightarrow> job list \<Rightarrow> ('k, 's) engine \<Rightarrow> ('k, 's) engine" where
  "submit_jobs m jobs e = fold (submit m) (map job_request jobs) e"

text \<open>What the naive loop generates for a job.\<close>

definition job_answer :: "('l, 'k, 's, 'a) lm \<Rightarrow> 's \<Rightarrow> job \<Rightarrow> string \<times> string" where
  "job_answer m s = (\<lambda>(rid, prompt, mt, prio, cb).
     (rid, tok_decode m (drop (length (tok_encode m prompt))
              (fst (naive_loop m 0 (nat (max 1 mt)) (tok_encode m prompt) s)))))"

definition submitted :: "('l, 'k, 's, 'a) lm \<Rightarrow> job \<Rightarrow> 'k request" where
  "submitted m j = (let r = job_request j in r\<lparr>prompt_ids := tok_encode m (req_prompt r)\<rparr>)"

lemma submit_jobs_eq:
  "submit_jobs m jobs e = e\<lparr>req_queue := fold queue_push (map (submitted m) jobs) (req_queue e)\<rparr>"
  unfolding submit_jobs_def
  by (induction jobs arbitrary: e) (simp_all add: submit_def submitted_def Let_def)

lemma requests_queued: "mset (requests_of (fold queue_push rs new_rqueue)) = mset rs"
proof -
  have "queue_len (fold queue_push rs q) = queue_len q + length rs" for q
    by (induction rs arbitrary: q) (simp_all add: queue_push_def queue_len_def)
  from this [of new_rqueue] have "queue_len (fold queue_push rs new_rqueue) = length rs"
    by (simp add: new_rqueue_def queue_len_def)
  with queue_order [of rs] queue_drain_all [of "fold queue_push rs new_rqueue"]
  have "requests_of (fold queue_push rs new_rqueue) = sort_key req_priority rs" by simp
  then show ?thesis by simp
qed

lemma same_requests_sums:
  assumes "mset rs = mset (map f xs)"
  shows "set rs = f ` set xs" and "total_remaining rs = (\<Sum>x\<leftarrow>xs. remaining (f x))"
    and "outcomes m rs = mset (map (outcome m) (filter has_callback (map f xs)))"
proof -
  show "set rs = f ` set xs" using arg_cong [OF assms, of set_mset] by simp
  have "sum_mset (image_mset remaining (mset rs)) = sum_mset (image_mset remaining (mset (map f xs)))"
    using assms by simp
  then show "total_remaining rs = (\<Sum>x\<leftarrow>xs. remaining (f x))"
    unfolding total_remaining_def mset_map [symmetric] sum_mset_sum_list by (simp add: comp_def)
  show "outcomes m rs = mset (map (outcome m) (filter has_callback (map f xs)))"
    using arg_cong [OF assms, of "\<lambda>M. image_mset (outcome m) (filter_mset has_callback M)"]
    unfolding outcomes_def mset_map mset_filter .
qed

lemma submitted_ready:
  assumes "tok_encode m (fst (snd j)) \<noteq> []"
  shows "running m (submitted m j)" and "on_track m (submitted m j)"
    and "remaining (submitted m j) = nat (max 1 (fst (snd (snd j))))"
    and "has_callback (submitted m j) = snd (snd (snd (snd j)))"
    and "outcome m (submitted m j) = job_answer m s j"
  using assms naive_loop_greedy [of 0 m]
  by (auto simp: running_def on_track_def submitted_def Let_def job_request_def new_request_def budget_def remaining_def
      outcome_def job_answer_def split: prod.splits)

lemma all_pages_free:
  assumes "paged_ok c" and "request_pages c = []"
  shows "free_page_ids c = {..<total_pages c}"
proof (intro equalityI subsetI)
  fix k assume "k \<in> {..<total_pages c}"
  then obtain p where p: "dget (all_pages c) k = Some p" using paged_okD(8) [OF assms(1)] by blast
  have "owner p = None"
    using paged_okD(7) [OF assms(1) p] assms(2) by (cases "owner p") (auto simp: page_ok_def held_def dget_or_def)
  with paged_okD(7) [OF assms(1) p] show "k \<in> free_page_ids c" by (simp add: page_ok_def)
qed (use paged_okD(3) [OF assms(1)] in blast)

text \<open>C13: Submitted greedy requests are all answered, in at most as many scheduler steps as there are
  tokens to generate: every callback gets, exactly once, the text the naive loop generates for its own
  prompt, whatever the batching and the priorities; then nothing is queued or active and every page
  of the cache is free again.\<close>

theorem batched_server_equals_naive:
  assumes "kv_consistent m" and "chooser_ok pick" and "0 < max_batch"
    and prompts: "\<forall>j \<in> set jobs. tok_encode m (fst (snd j)) \<noteq> []"
    and "(\<Sum>j\<leftarrow>jobs. nat (max 1 (fst (snd (snd j))))) \<le> n"
  shows "\<exists>e. run_until_empty m pick n (submit_jobs m jobs (new_engine max_batch pages s)) = Inr e
     \<and> active e = [] \<and> queue_len (req_queue e) = 0 \<and> free_page_ids (paged_cache e) = {..<pages}
     \<and> mset (callbacks e) = mset (map (job_answer m s) (filter (\<lambda>j. snd (snd (snd (snd j)))) jobs))"
proof -
  define e0 where "e0 = submit_jobs m jobs (new_engine max_batch pages s)"
  have "mset (all_requests e0) = mset (map (submitted m) jobs)"
    using requests_queued [of "map (submitted m) jobs"]
    by (simp add: e0_def submit_jobs_eq all_requests_def new_engine_def)
  note same_requests = same_requests_sums [OF this]
  have all: "set (all_requests e0) = submitted m ` set jobs"
    and sums: "total_remaining (all_requests e0) = (\<Sum>j\<leftarrow>jobs. remaining (submitted m j))"
    and outs: "outcomes m (all_requests e0) = mset (map (outcome m) (filter has_callback (map (submitted m) jobs)))"
    by (rule same_requests)+
  note j = submitted_ready [of m]
  have run: "\<forall>r \<in> set (all_requests e0). running m r" and track: "\<forall>r \<in> set (all_requests e0). on_track m r"
    using all j(1,2) prompts by auto
  have e0: "paged_cache e0 = new_paged pages" "callbacks e0 = []" "max_batch_size e0 = max_batch"
    by (simp_all add: e0_def submit_jobs_eq new_engine_def)
  have "engine_ok m e0"
    using run new_paged_ok e0(1) by (simp add: engine_ok_def page_keys_def new_paged_def)
  moreover have "total_remaining (all_requests e0) \<le> n"
  proof -
    have "map (\<lambda>j. remaining (submitted m j)) jobs = map (\<lambda>j. nat (max 1 (fst (snd (snd j))))) jobs"
      using j(3) prompts by (intro map_cong) auto
    with assms(5) have "(\<Sum>j\<leftarrow>jobs. remaining (submitted m j)) \<le> n" by (simp only:)
    then show ?thesis using sums by simp
  qed
  ultimately obtain e where e: "run_until_empty m pick n e0 = Inr e" "engine_ok m e" "all_requests e = []"
      "total_pages (paged_cache e) = total_pages (paged_cache e0)"
      "mset (callbacks e) = mset (callbacks e0) + outcomes m (all_requests e0)"
    using run_until_empty_ok [OF assms(1,2), of e0 n] assms(3) e0(3) track by auto
  have "map (outcome m) (filter has_callback (map (submitted m) jobs))
      = map (job_answer m s) (filter (\<lambda>j. snd (snd (snd (snd j)))) jobs)"
    using prompts by (induction jobs) (auto simp: j(4,5))
  then have "mset (callbacks e) = mset (map (job_answer m s) (filter (\<lambda>j. snd (snd (snd (snd j)))) jobs))"
    using e(5) e0(2) outs by simp
  moreover have "active e = []" "queue_len (req_queue e) = 0"
    using e(3) by (simp_all add: all_requests_def requests_of_def queue_len_def)
  moreover have "free_page_ids (paged_cache e) = {..<pages}"
  proof -
    have "request_pages (paged_cache e) = []"
      using e(2) \<open>active e = []\<close> by (simp add: engine_ok_def page_keys_def dkeys_def)
    then show ?thesis using all_pages_free e(2,4) e0(1) by (simp add: engine_ok_def new_paged_def)
  qed
  ultimately show ?thesis using e(1) unfolding e0_def by blast
qed

theorem batched_server_equals_naive_witness:
  "\<exists>e. run_until_empty toy_lm Min 7
       (submit_jobs toy_lm [(''r1'', ''ab'', 3, 1, True), (''r2'', ''c'', 4, 0, False)] (new_engine 1 2 ())) = Inr e
     \<and> free_page_ids (paged_cache e) = {..<2} \<and> size (mset (callbacks e)) = 1"
proof -
  from batched_server_equals_naive [OF toy_kv chooser_Min, of 1
      "[(''r1'', ''ab'', 3, 1, True), (''r2'', ''c'', 4, 0, False)]" 7 2 "()"]
  obtain e where e: "run_until_empty toy_lm Min 7
       (submit_jobs toy_lm [(''r1'', ''ab'', 3, 1, True), (''r2'', ''c'', 4, 0, False)] (new_engine 1 2 ())) = Inr e"
    "free_page_ids (paged_cache e) = {..<2}"
    "mset (callbacks e) = mset (map (job_answer toy_lm ())
       (filter (\<lambda>j. snd (snd (snd (snd j)))) [(''r1'', ''ab'', 3, 1, True), (''r2'', ''c'', 4, 0, False)]))"
    by (auto simp: toy_lm_def)
  have "size (mset (callbacks e)) = 1" unfolding e(3) by simp
  with e(1,2) show ?thesis by blast
qed

end
