(* ===== verification/PyJson.thy ===== *)
theory PyJson
  imports PyValue
begin

text \<open>
  What the dynamically typed code does to a JSON value without knowing its type: attribute access
  (\<open>v.get\<close>, \<open>v.items\<close>), \<open>in\<close>, iteration, use as a dictionary key; each raises the exception CPython
  raises when the type does not fit. \<open>json_dumps\<close> is \<open>json.dumps\<close>, on one line or with \<open>indent=2\<close>;
  \<open>substitute\<close> is \<open>string.Template.safe_substitute\<close>.
\<close>

definition exn_text :: "py_exn \<Rightarrow> string" where
  "exn_text e =
     (case e of
        ValueError s \<Rightarrow> s | KeyError s \<Rightarrow> [CHR 0x27] @ s @ [CHR 0x27] | IndexError s \<Rightarrow> s
      | LookupError s \<Rightarrow> s | AttributeError s \<Rightarrow> s | TypeError s \<Rightarrow> s | RuntimeError s \<Rightarrow> s
      | NotImplementedError s \<Rightarrow> s | OtherError s \<Rightarrow> s)"

text \<open>\<open>except LookupError\<close> also catches its subclasses \<open>KeyError\<close> and \<open>IndexError\<close>.\<close>

fun is_lookup_error :: "py_exn \<Rightarrow> bool" where
  "is_lookup_error (KeyError _) = True"
| "is_lookup_error (IndexError _) = True"
| "is_lookup_error (LookupError _) = True"
| "is_lookup_error _ = False"

definition quoted :: "string \<Rightarrow> string" where
  "quoted s = [CHR 0x27] @ s @ [CHR 0x27]"

definition no_attribute :: "pyval \<Rightarrow> string \<Rightarrow> py_exn" where
  "no_attribute v a = AttributeError (quoted (type_name v) @ '' object has no attribute '' @ quoted a)"

definition py_get :: "pyval \<Rightarrow> string \<Rightarrow> pyval \<Rightarrow> pyval result" where
  "py_get v k dflt = (case v of PDict d \<Rightarrow> Inr (dget_or d k dflt) | _ \<Rightarrow> Inl (no_attribute v ''get''))"

definition py_items :: "pyval \<Rightarrow> pdict result" where
  "py_items v = (case v of PDict d \<Rightarrow> Inr d | _ \<Rightarrow> Inl (no_attribute v ''items''))"

definition py_iter :: "pyval \<Rightarrow> pyval list result" where
  "py_iter v =
     (case v of
        PList vs \<Rightarrow> Inr vs
      | PStr s \<Rightarrow> Inr (map (\<lambda>c. PStr [c]) s)
      | PDict d \<Rightarrow> Inr (map PStr (dkeys d))
      | _ \<Rightarrow> Inl (TypeError (quoted (type_name v) @ '' object is not iterable'')))"

definition unhashable :: "pyval \<Rightarrow> py_exn" where
  "unhashable v = TypeError (''unhashable type: '' @ quoted (type_name v))"

text \<open>\<open>k in v\<close> and a lookup in a dictionary with string keys.\<close>

definition py_contains :: "pyval \<Rightarrow> pyval \<Rightarrow> bool result" where
  "py_contains k v =
     (case v of
        PDict d \<Rightarrow> (if \<not> hashable k then Inl (unhashable k)
                   else Inr (case k of PStr s \<Rightarrow> dhas d s | _ \<Rightarrow> False))
      | PList vs \<Rightarrow> Inr (k \<in> set vs)
      | PStr s \<Rightarrow>
          (case k of
             PStr t \<Rightarrow> Inr (is_substring t s)
           | _ \<Rightarrow> Inl (TypeError (quoted ''in <string>'' @ '' requires string as left operand, not '' @ type_name k)))
      | _ \<Rightarrow> Inl (TypeError (''argument of type '' @ quoted (type_name v) @ '' is not iterable'')))"

definition key_lookup :: "(string, 'a) pydict \<Rightarrow> pyval \<Rightarrow> 'a option result" where
  "key_lookup d k =
     (if \<not> hashable k then Inl (unhashable k)
      else Inr (case k of PStr s \<Rightarrow> dget d s | _ \<Rightarrow> None))"

definition in_names :: "pyval \<Rightarrow> string list \<Rightarrow> bool result" where
  "in_names k names = rmap (\<lambda>x. x \<noteq> None) (key_lookup (map (\<lambda>n. (n, ())) names) k)"

lemma key_lookup_PStr [simp]: "key_lookup d (PStr s) = Inr (dget d s)"
  by (simp add: key_lookup_def)

lemma py_get_PDict [simp]: "py_get (PDict d) k v = Inr (dget_or d k v)"
  by (simp add: py_get_def)

lemma py_items_PDict [simp]: "py_items (PDict d) = Inr d"
  by (simp add: py_items_def)

section \<open>json.dumps\<close>

definition hex_digit :: "nat \<Rightarrow> char" where
  "hex_digit n = (if n < 10 then char_of (48 + n) else char_of (87 + n))"

definition json_char :: "bool \<Rightarrow> char \<Rightarrow> string" where
  "json_char ensure_ascii c =
     (let n = of_char c :: nat in
      if n = 34 then [CHR 0x5C, CHR 0x22] else if n = 92 then [CHR 0x5C, CHR 0x5C]
      else if n = 10 then [CHR 0x5C, CHR ''n''] else if n = 13 then [CHR 0x5C, CHR ''r'']
      else if n = 9 then [CHR 0x5C, CHR ''t''] else if n = 8 then [CHR 0x5C, CHR ''b'']
      else if n = 12 then [CHR 0x5C, CHR ''f'']
      else if n < 32 \<or> ensure_ascii \<and> 126 < n
      then [CHR 0x5C, CHR ''u'', CHR ''0'', CHR ''0'', hex_digit (n div 16), hex_digit (n mod 16)]
      else [c])"

definition json_string :: "bool \<Rightarrow> string \<Rightarrow> string" where
  "json_string ensure_ascii s = [CHR 0x22] @ concat (map (json_char ensure_ascii) s) @ [CHR 0x22]"

text \<open>The separators: the default ones, \<open>separators=(",", ":")\<close>, or \<open>indent=2\<close> at a nesting level.\<close>

datatype json_layout = Spaced | Tight | Indented nat

fun json_deeper :: "json_layout \<Rightarrow> json_layout" where
  "json_deeper (Indented n) = Indented (Suc n)"
| "json_deeper lv = lv"

definition json_open :: "json_layout \<Rightarrow> string" where
  "json_open lv = (case lv of Indented n \<Rightarrow> CHR 0x0A # replicate (2 * (n + 1)) (CHR '' '') | _ \<Rightarrow> [])"

definition json_close :: "json_layout \<Rightarrow> string" where
  "json_close lv = (case lv of Indented n \<Rightarrow> CHR 0x0A # replicate (2 * n) (CHR '' '') | _ \<Rightarrow> [])"

definition json_sep :: "json_layout \<Rightarrow> string" where
  "json_sep lv = (case lv of Spaced \<Rightarrow> '', '' | Tight \<Rightarrow> '','' | Indented _ \<Rightarrow> '','' @ json_open lv)"

definition json_colon :: "json_layout \<Rightarrow> string" where
  "json_colon lv = (if lv = Tight then '':'' else '': '')"

fun json_dumps_at :: "bool \<Rightarrow> json_layout \<Rightarrow> pyval \<Rightarrow> string" where
  "json_dumps_at a lv PNone = ''null''"
| "json_dumps_at a lv (PBool b) = (if b then ''true'' else ''false'')"
| "json_dumps_at a lv (PInt i) = int_str i"
| "json_dumps_at a lv (PFloat s) = s"
| "json_dumps_at a lv (PStr s) = json_string a s"
| "json_dumps_at a lv (PList vs) =
     (if vs = [] then ''[]''
      else ''['' @ json_open lv @ str_join (json_sep lv) (map (json_dumps_at a (json_deeper lv)) vs)
             @ json_close lv @ '']'')"
| "json_dumps_at a lv (PDict d) =
     (if d = [] then ''{}''
      else ''{'' @ json_open lv
             @ str_join (json_sep lv)
                 (map (\<lambda>(k, v). json_string a k @ json_colon lv @ json_dumps_at a (json_deeper lv) v) d)
             @ json_close lv @ ''}'')"

definition json_dumps :: "bool \<Rightarrow> bool \<Rightarrow> pyval \<Rightarrow> string" where
  "json_dumps ensure_ascii indented v = json_dumps_at ensure_ascii (if indented then Indented 0 else Spaced) v"

definition json_dumps_tight :: "pyval \<Rightarrow> string" where
  "json_dumps_tight v = json_dumps_at True Tight v"

section \<open>string.Template\<close>

definition ident_start :: "char \<Rightarrow> bool" where
  "ident_start c = (let n = of_char c :: nat in n = 95 \<or> 65 \<le> n \<and> n \<le> 90 \<or> 97 \<le> n \<and> n \<le> 122)"

definition ident_char :: "char \<Rightarrow> bool" where
  "ident_char c = (ident_start c \<or> (let n = of_char c :: nat in 48 \<le> n \<and> n \<le> 57))"

text \<open>The identifier at the start of a string and the rest, if one starts there.\<close>

definition read_ident :: "string \<Rightarrow> (string \<times> string) option" where
  "read_ident s =
     (case s of
        [] \<Rightarrow> None
      | c # _ \<Rightarrow> if ident_start c then Some (takeWhile ident_char s, dropWhile ident_char s) else None)"

text \<open>The placeholder after a \<open>$\<close>: its name, its text in the template, the rest.\<close>

definition read_placeholder :: "string \<Rightarrow> (string \<times> string \<times> string) option" where
  "read_placeholder s =
     (case read_ident s of
        Some (name, rest) \<Rightarrow> Some (name, ''$'' @ name, rest)
      | None \<Rightarrow>
          (case s of
             c # s' \<Rightarrow>
               if c = CHR ''{''
               then (case read_ident s' of
                       Some (name, d # rest) \<Rightarrow>
                         if d = CHR ''}'' then Some (name, ''${'' @ name @ ''}'', rest) else None
                     | _ \<Rightarrow> None)
               else None
           | [] \<Rightarrow> None))"

definition subst_value :: "pyval \<Rightarrow> string \<Rightarrow> string option result" where
  "subst_value arguments name =
     (case arguments of
        PDict d \<Rightarrow> Inr (map_option py_str (dget d name))
      | PList _ \<Rightarrow> Inl (TypeError ''list indices must be integers or slices, not str'')
      | PStr _ \<Rightarrow> Inl (TypeError (''string indices must be integers, not '' @ quoted ''str''))
      | _ \<Rightarrow> Inl (TypeError (quoted (type_name arguments) @ '' object is not subscriptable'')))"

lemma length_dropWhile_le: "length (dropWhile P xs) \<le> length xs"
  by (induction xs) auto

lemma read_ident_shorter: "read_ident s = Some (name, rest) \<Longrightarrow> length rest < length s"
proof (cases s)
  case (Cons c s')
  assume "read_ident s = Some (name, rest)"
  with Cons have "rest = dropWhile ident_char s'" "ident_start c"
    by (auto simp: read_ident_def ident_char_def split: if_splits)
  then show ?thesis using Cons length_dropWhile_le [of ident_char s'] by (simp add: le_imp_less_Suc)
qed (simp add: read_ident_def)

lemma read_placeholder_shorter:
  "read_placeholder s = Some (name, t, rest) \<Longrightarrow> length rest < length s"
  by (auto simp: read_placeholder_def split: option.splits list.splits if_splits
      dest!: read_ident_shorter)

function substitute :: "pyval \<Rightarrow> string \<Rightarrow> string result" where
  "substitute arguments [] = Inr []"
| "substitute arguments (c # s) =
     (if c \<noteq> CHR ''$'' then rmap (\<lambda>t. c # t) (substitute arguments s)
      else (case s of
              d # s' \<Rightarrow>
                if d = CHR ''$'' then rmap (\<lambda>t. c # t) (substitute arguments s')
                else (case read_placeholder s of
                        Some (name, shown, rest) \<Rightarrow>
                          rbind (subst_value arguments name) (\<lambda>v.
                            rmap (\<lambda>t. (case v of None \<Rightarrow> shown | Some x \<Rightarrow> x) @ t)
                              (substitute arguments rest))
                      | None \<Rightarrow> rmap (\<lambda>t. c # t) (substitute arguments s))
            | [] \<Rightarrow> Inr [c]))"
  by pat_completeness auto
termination
  by (relation "measure (\<lambda>(a, s). length s)") (auto dest: read_placeholder_shorter)

text \<open>Text without a dollar sign comes back unchanged; a dictionary never makes it fail.\<close>

lemma substitute_plain: "CHR ''$'' \<notin> set s \<Longrightarrow> substitute arguments s = Inr s"
  by (induction s) auto

lemma substitute_total: "\<exists>t. substitute (PDict d) s = Inr t"
proof (induction s rule: length_induct)
  case (1 s)
  then have IH: "\<exists>t. substitute (PDict d) s' = Inr t" if "length s' < length s" for s' using that by blast
  show ?case
  proof (cases s)
    case Nil
    then show ?thesis by simp
  next
    case (Cons c s1)
    from IH [of s1] obtain t1 where t1: "substitute (PDict d) s1 = Inr t1" using Cons by auto
    consider "c \<noteq> CHR ''$''" | "c = CHR ''$''" "s1 = []"
      | e s2 where "c = CHR ''$''" "s1 = e # s2" "e = CHR ''$''"
      | e s2 where "c = CHR ''$''" "s1 = e # s2" "e \<noteq> CHR ''$''" "read_placeholder s1 = None"
      | e s2 name shown rest where "c = CHR ''$''" "s1 = e # s2" "e \<noteq> CHR ''$''"
          "read_placeholder s1 = Some (name, shown, rest)"
      by (cases s1; cases "read_placeholder s1") (auto, metis)
    then show ?thesis
    proof cases
      case (5 e s2 name shown rest)
      from IH [of rest] obtain t where "substitute (PDict d) rest = Inr t"
        using read_placeholder_shorter [OF 5(4)] Cons by auto
      with 5 Cons show ?thesis by (simp add: subst_value_def)
    next
      case (3 e s2)
      from IH [of s2] obtain t where "substitute (PDict d) s2 = Inr t" using Cons 3 by auto
      with 3 Cons show ?thesis by simp
    qed (use Cons t1 in simp_all)
  qed
qed

end
