(* ===== verification/McpProtocol.thy ===== *)
theory McpProtocol
  imports PyJson
begin

text \<open>
  \<open>mcp-server/src/protocol.py\<close>: the JSON-RPC envelopes, the MCP definitions and the minimal JSON
  Schema validation. The fields of a request are whatever JSON the client sent.
\<close>

definition jsonrpc_version :: string where
  "jsonrpc_version = ''2.0''"

definition mcp_protocol_version :: string where
  "mcp_protocol_version = ''2024-11-05''"

section \<open>Envelopes\<close>

record rpc_request =
  rq_method :: pyval
  rq_id :: pyval
  rq_params :: pyval
  rq_jsonrpc :: pyval

definition request_from_dict :: "pyval \<Rightarrow> rpc_request result" where
  "request_from_dict data =
     (case data of
        PDict d \<Rightarrow>
          (case dget d ''method'' of
             None \<Rightarrow> Inl (KeyError ''method'')
           | Some m \<Rightarrow> Inr \<lparr>rq_method = m, rq_id = dget_or d ''id'' PNone,
                          rq_params = dget_or d ''params'' (PDict []),
                          rq_jsonrpc = dget_or d ''jsonrpc'' (PStr jsonrpc_version)\<rparr>)
      | PList _ \<Rightarrow> Inl (TypeError ''list indices must be integers or slices, not str'')
      | PStr _ \<Rightarrow> Inl (TypeError (''string indices must be integers, not '' @ quoted ''str''))
      | _ \<Rightarrow> Inl (TypeError (quoted (type_name data) @ '' object is not subscriptable'')))"

definition request_to_dict :: "rpc_request \<Rightarrow> pyval" where
  "request_to_dict r =
     PDict [(''jsonrpc'', rq_jsonrpc r), (''id'', rq_id r), (''method'', rq_method r), (''params'', rq_params r)]"

record rpc_response =
  rs_id :: pyval
  rs_result :: pyval
  rs_error :: "pyval option"

definition response_to_dict :: "rpc_response \<Rightarrow> pyval" where
  "response_to_dict r =
     PDict ([(''jsonrpc'', PStr jsonrpc_version), (''id'', rs_id r)] @
            (case rs_error r of Some e \<Rightarrow> [(''error'', e)] | None \<Rightarrow> [(''result'', rs_result r)]))"

definition response_to_json :: "rpc_response \<Rightarrow> string" where
  "response_to_json r = json_dumps True False (response_to_dict r)"

definition notification_to_dict :: "string \<Rightarrow> pyval \<Rightarrow> pyval" where
  "notification_to_dict method params =
     PDict [(''jsonrpc'', PStr jsonrpc_version), (''method'', PStr method), (''params'', params)]"

section \<open>Errors\<close>

datatype error_code =
    PARSE_ERROR | INVALID_REQUEST | METHOD_NOT_FOUND | INVALID_PARAMS | INTERNAL_ERROR
  | TOOL_NOT_FOUND | RESOURCE_NOT_FOUND | PROMPT_NOT_FOUND | SCHEMA_VALIDATION_FAILED | UNAUTHORIZED

fun code_value :: "error_code \<Rightarrow> int" where
  "code_value PARSE_ERROR = -32700"
| "code_value INVALID_REQUEST = -32600"
| "code_value METHOD_NOT_FOUND = -32601"
| "code_value INVALID_PARAMS = -32602"
| "code_value INTERNAL_ERROR = -32603"
| "code_value TOOL_NOT_FOUND = -32001"
| "code_value RESOURCE_NOT_FOUND = -32002"
| "code_value PROMPT_NOT_FOUND = -32003"
| "code_value SCHEMA_VALIDATION_FAILED = -32004"
| "code_value UNAUTHORIZED = -32005"

definition make_error :: "error_code \<Rightarrow> string \<Rightarrow> pyval \<Rightarrow> pyval" where
  "make_error code message data =
     PDict ([(''code'', PInt (code_value code)), (''message'', PStr message)] @
            (if data = PNone then [] else [(''data'', data)]))"

definition make_response :: "pyval \<Rightarrow> pyval \<Rightarrow> rpc_response" where
  "make_response req_id res = \<lparr>rs_id = req_id, rs_result = res, rs_error = None\<rparr>"

definition make_error_response :: "pyval \<Rightarrow> error_code \<Rightarrow> string \<Rightarrow> pyval \<Rightarrow> rpc_response" where
  "make_error_response req_id code message data =
     \<lparr>rs_id = req_id, rs_result = PNone, rs_error = Some (make_error code message data)\<rparr>"

definition error_is :: "error_code \<Rightarrow> rpc_response \<Rightarrow> bool" where
  "error_is code r \<longleftrightarrow>
     (case rs_error r of Some (PDict d) \<Rightarrow> dget d ''code'' = Some (PInt (code_value code)) | _ \<Rightarrow> False)"

section \<open>Server descriptions\<close>

record server_info =
  info_name :: string
  info_version :: string

definition server_info_to_dict :: "server_info \<Rightarrow> pyval" where
  "server_info_to_dict i = PDict [(''name'', PStr (info_name i)), (''version'', PStr (info_version i))]"

record capabilities =
  cap_tools :: bool
  cap_resources :: bool
  cap_prompts :: bool
  cap_sampling :: bool
  cap_roots :: bool
  cap_logging :: bool

definition capabilities_to_dict :: "capabilities \<Rightarrow> pyval" where
  "capabilities_to_dict c =
     PDict ((if cap_tools c then [(''tools'', PDict [(''listChanged'', PBool False)])] else []) @
            (if cap_resources c
             then [(''resources'', PDict [(''subscribe'', PBool False), (''listChanged'', PBool False)])] else []) @
            (if cap_prompts c then [(''prompts'', PDict [(''listChanged'', PBool False)])] else []) @
            (if cap_sampling c then [(''sampling'', PDict [])] else []) @
            (if cap_roots c then [(''roots'', PDict [(''listChanged'', PBool False)])] else []) @
            (if cap_logging c then [(''logging'', PDict [])] else []))"

record tool_definition =
  td_name :: string
  td_description :: string
  td_input_schema :: pyval

definition tool_to_dict :: "tool_definition \<Rightarrow> pyval" where
  "tool_to_dict t = PDict [(''name'', PStr (td_name t)), (''description'', PStr (td_description t)),
                           (''inputSchema'', td_input_schema t)]"

record resource_definition =
  rd_uri :: string
  rd_name :: string
  rd_description :: string
  rd_mime_type :: string

definition resource_to_dict :: "resource_definition \<Rightarrow> pyval" where
  "resource_to_dict r = PDict [(''uri'', PStr (rd_uri r)), (''name'', PStr (rd_name r)),
     (''description'', PStr (rd_description r)), (''mimeType'', PStr (rd_mime_type r))]"

record prompt_argument =
  pa_name :: string
  pa_description :: string
  pa_required :: bool

definition prompt_argument_to_dict :: "prompt_argument \<Rightarrow> pyval" where
  "prompt_argument_to_dict a = PDict [(''name'', PStr (pa_name a)),
     (''description'', PStr (pa_description a)), (''required'', PBool (pa_required a))]"

record prompt_definition =
  pd_name :: string
  pd_description :: string
  pd_arguments :: "prompt_argument list"

definition prompt_to_dict :: "prompt_definition \<Rightarrow> pyval" where
  "prompt_to_dict p = PDict [(''name'', PStr (pd_name p)), (''description'', PStr (pd_description p)),
     (''arguments'', PList (map prompt_argument_to_dict (pd_arguments p)))]"

section \<open>Schema validation\<close>

definition type_map :: "(string, pyclass list) pydict" where
  "type_map = [(''string'', [ClsStr]), (''number'', [ClsInt, ClsFloat]), (''integer'', [ClsInt]),
     (''boolean'', [ClsBool]), (''array'', [ClsList]), (''object'', [ClsDict])]"

text \<open>The two loops of \<open>validate_input\<close>, one iteration each.\<close>

definition check_required :: "pyval \<Rightarrow> pyval \<Rightarrow> string list \<Rightarrow> string list result" where
  "check_required data field_name errors =
     rmap (\<lambda>present. if present then errors
            else errors @ [''Missing required field: '' @ quoted (py_str field_name)])
       (py_contains field_name data)"

definition check_type :: "pyval \<Rightarrow> string \<times> pyval \<Rightarrow> string list \<Rightarrow> string list result" where
  "check_type properties fv errors =
     (case fv of (field_name, v) \<Rightarrow>
        rbind (py_contains (PStr field_name) properties) (\<lambda>known.
          if \<not> known then Inr errors
          else case properties of
                 PDict props \<Rightarrow>
                   rbind (py_get (dget_or props field_name PNone) ''type'' PNone) (\<lambda>expected_type.
                     if \<not> truthy expected_type then Inr errors
                     else rmap (\<lambda>classes.
                            case classes of
                              None \<Rightarrow> errors
                            | Some cs \<Rightarrow>
                                if \<exists>c \<in> set cs. is_instance v c then errors
                                else errors @ [''Field '' @ quoted field_name @ '' must be '' @ py_str expected_type
                                               @ '', got '' @ type_name v])
                            (key_lookup type_map expected_type))
               | PList _ \<Rightarrow> Inl (TypeError ''list indices must be integers or slices, not str'')
               | _ \<Rightarrow> Inl (TypeError (''string indices must be integers, not '' @ quoted ''str''))))"

definition validate_input :: "pyval \<Rightarrow> pyval \<Rightarrow> string list result" where
  "validate_input schema data =
     rbind (py_get schema ''properties'' (PDict [])) (\<lambda>properties.
     rbind (py_get schema ''required'' (PList [])) (\<lambda>required.
     rbind (py_iter required) (\<lambda>req_names.
     rbind (rfold (check_required data) req_names []) (\<lambda>errors.
     rbind (py_items data) (\<lambda>items.
       rfold (check_type properties) items errors)))))"

section \<open>What validation means for a well-formed schema\<close>

text \<open>A schema as JSON Schema writes it: every property is an object whose \<open>type\<close> is a string, if any.\<close>

definition schema_ok :: "pdict \<Rightarrow> string list \<Rightarrow> pyval \<Rightarrow> bool" where
  "schema_ok props req schema \<longleftrightarrow>
     (\<exists>d. schema = PDict d \<and> dget_or d ''properties'' (PDict []) = PDict props \<and>
          dget_or d ''required'' (PList []) = PList (map PStr req)) \<and>
     (\<forall>name p. dget props name = Some p \<longrightarrow>
        (\<exists>pd. p = PDict pd \<and> (\<forall>t. dget pd ''type'' = Some t \<longrightarrow> (\<exists>s. t = PStr s))))"

definition declared_type :: "pdict \<Rightarrow> string \<Rightarrow> pyclass list option" where
  "declared_type props name =
     (case dget props name of
        Some (PDict pd) \<Rightarrow> (case dget pd ''type'' of Some (PStr s) \<Rightarrow> dget type_map s | _ \<Rightarrow> None)
      | _ \<Rightarrow> None)"

definition fits :: "pdict \<Rightarrow> string \<Rightarrow> pyval \<Rightarrow> bool" where
  "fits props name v \<longleftrightarrow>
     (case declared_type props name of None \<Rightarrow> True | Some cs \<Rightarrow> \<exists>c \<in> set cs. is_instance v c)"

lemma check_required_loop:
  "rfold (check_required (PDict args)) (map PStr req) errs =
     Inr (errs @ map (\<lambda>f. ''Missing required field: '' @ quoted f) (filter (\<lambda>f. \<not> dhas args f) req))"
  by (induction req arbitrary: errs) (simp_all add: check_required_def py_contains_def py_str_def)

lemma check_type_ok:
  assumes "schema_ok props req schema"
  shows "\<exists>new. check_type (PDict props) (f, v) errs = Inr (errs @ new) \<and> (new = [] \<longleftrightarrow> fits props f v)"
proof (cases "dget props f")
  case None
  then show ?thesis
    by (simp add: check_type_def py_contains_def fits_def declared_type_def dhas_iff)
next
  case (Some p)
  then obtain pd where p: "p = PDict pd" and t: "\<forall>t. dget pd ''type'' = Some t \<longrightarrow> (\<exists>s. t = PStr s)"
    using assms unfolding schema_ok_def by blast
  have known: "py_contains (PStr f) (PDict props) = Inr True"
    using Some by (simp add: py_contains_def dhas_iff)
  show ?thesis
  proof (cases "dget pd ''type''")
    case None
    then show ?thesis using known Some p
      by (simp add: check_type_def fits_def declared_type_def dget_or_def)
  next
    case ty: (Some ty)
    then obtain s where s: "ty = PStr s" using t by blast
    have empty: "dget type_map [] = None" by (simp add: type_map_def)
    show ?thesis
      using known Some p ty s empty
      by (cases "dget type_map s"; cases "s = []")
         (auto simp: check_type_def fits_def declared_type_def dget_or_def)
  qed
qed

lemma check_type_loop:
  assumes "schema_ok props req schema"
  shows "\<exists>new. rfold (check_type (PDict props)) items errs = Inr (errs @ new) \<and>
     (new = [] \<longleftrightarrow> (\<forall>(f, v) \<in> set items. fits props f v))"
proof (induction items arbitrary: errs)
  case Nil
  then show ?case by simp
next
  case (Cons fv items)
  obtain f v where fv: "fv = (f, v)" by (cases fv)
  obtain new1 where 1: "check_type (PDict props) (f, v) errs = Inr (errs @ new1)" "new1 = [] \<longleftrightarrow> fits props f v"
    using check_type_ok [OF assms] by blast
  obtain new2 where 2: "rfold (check_type (PDict props)) items (errs @ new1) = Inr ((errs @ new1) @ new2)"
    "new2 = [] \<longleftrightarrow> (\<forall>(f, v) \<in> set items. fits props f v)"
    using Cons.IH by blast
  show ?case by (rule exI [of _ "new1 @ new2"]) (use 1 2 fv in simp)
qed

lemma validate_input_ok:
  assumes "schema_ok props req schema"
  shows "\<exists>errs. validate_input schema (PDict args) = Inr errs \<and>
     (errs = [] \<longleftrightarrow> (\<forall>f \<in> set req. dhas args f) \<and> (\<forall>(f, v) \<in> set args. fits props f v))"
proof -
  obtain d where d: "schema = PDict d" "dget_or d ''properties'' (PDict []) = PDict props"
    "dget_or d ''required'' (PList []) = PList (map PStr req)"
    using assms by (auto simp: schema_ok_def)
  let ?missing = "map (\<lambda>f. ''Missing required field: '' @ quoted f) (filter (\<lambda>f. \<not> dhas args f) req)"
  obtain new where new: "rfold (check_type (PDict props)) args ?missing = Inr (?missing @ new)"
    "new = [] \<longleftrightarrow> (\<forall>(f, v) \<in> set args. fits props f v)"
    using check_type_loop [OF assms] by blast
  have "validate_input schema (PDict args) = Inr (?missing @ new)"
    using d new(1) by (simp add: validate_input_def py_iter_def check_required_loop)
  moreover have "?missing = [] \<longleftrightarrow> (\<forall>f \<in> set req. dhas args f)" by (simp add: filter_empty_conv)
  ultimately show ?thesis using new(2) by auto
qed

section \<open>The interface of a JSON-RPC server\<close>

text \<open>
  What a transport relies on: a message with an id gets exactly one response, with that id; a
  message without one gets none; a failure to even read the message is an exception.
\<close>

locale rpc_server =
  fixes handle :: "pyval \<Rightarrow> 's \<Rightarrow> (rpc_response option \<times> 's) result"
  assumes notification_silent:
      "request_from_dict msg = Inr r \<Longrightarrow> rq_id r = PNone \<Longrightarrow> \<exists>s'. handle msg s = Inr (None, s')"
    and request_answered:
      "request_from_dict msg = Inr r \<Longrightarrow> rq_id r \<noteq> PNone \<Longrightarrow> handle msg s = Inr (x, s') \<Longrightarrow>
       \<exists>resp. x = Some resp \<and> rs_id resp = rq_id r"
    and unreadable: "request_from_dict msg = Inl e \<Longrightarrow> handle msg s = Inl e"
begin

text \<open>A transport that answers a failed message with a null id and goes on (\<open>run\<close>).\<close>

fun serve :: "pyval list \<Rightarrow> 's \<Rightarrow> rpc_response list" where
  "serve [] s = []"
| "serve (msg # msgs) s =
     (case handle msg s of
        Inl e \<Rightarrow> make_error_response PNone INTERNAL_ERROR (exn_text e) PNone # serve msgs s
      | Inr (None, s') \<Rightarrow> serve msgs s'
      | Inr (Some resp, s') \<Rightarrow> resp # serve msgs s')"

definition expects_reply :: "pyval \<Rightarrow> bool" where
  "expects_reply msg \<longleftrightarrow> (case request_from_dict msg of Inl e \<Rightarrow> True | Inr r \<Rightarrow> rq_id r \<noteq> PNone)"

definition reply_id :: "pyval \<Rightarrow> pyval" where
  "reply_id msg = (case request_from_dict msg of Inl e \<Rightarrow> PNone | Inr r \<Rightarrow> rq_id r)"

text \<open>One response per request, in the order of the requests, each with its id (or null).\<close>

lemma serve_ids:
  "list_all2 (\<lambda>resp msg. rs_id resp = reply_id msg \<or> rs_id resp = PNone)
     (serve msgs s) (filter expects_reply msgs)"
proof (induction msgs arbitrary: s)
  case (Cons msg msgs)
  show ?case
  proof (cases "request_from_dict msg")
    case (Inl e)
    then show ?thesis using Cons unreadable [OF Inl]
      by (simp add: expects_reply_def make_error_response_def)
  next
    case (Inr r)
    show ?thesis
    proof (cases "rq_id r = PNone")
      case True
      then obtain s' where "handle msg s = Inr (None, s')" using notification_silent [OF Inr] by blast
      then show ?thesis using Cons True Inr by (simp add: expects_reply_def)
    next
      case False
      show ?thesis
      proof (cases "handle msg s")
        case (Inl e)
        then show ?thesis using Cons False Inr by (simp add: expects_reply_def make_error_response_def)
      next
        case res: (Inr x)
        obtain resp s' where "x = (Some resp, s')" "rs_id resp = rq_id r"
          using request_answered [OF Inr False] res by (metis surj_pair)
        then show ?thesis using Cons False Inr res by (simp add: expects_reply_def reply_id_def)
      qed
    qed
  qed
qed simp

end

end
