(* ===== verification/McpV0.thy ===== *)
theory McpV0
  imports McpProtocol
begin

text \<open>
  \<open>mcp-server/src/v0_stdio.py\<close>: the tool registry, the dispatcher of the stdio server and its main
  loop. A registered function is a map from its keyword arguments to a result; \<open>traceback\<close> is the
  text \<open>traceback.format_exc()\<close> gives for an exception and \<open>loads\<close> the JSON parser of the loop,
  both parameters.
\<close>

type_synonym tool_fn = "pdict \<Rightarrow> pyval result"
type_synonym tool_registry = "(string, tool_definition \<times> tool_fn) pydict"

definition mcp_tool :: "string \<Rightarrow> string \<Rightarrow> pyval \<Rightarrow> tool_fn \<Rightarrow> tool_registry \<Rightarrow> tool_registry" where
  "mcp_tool name description input_schema fn reg =
     dset reg name (\<lparr>td_name = name, td_description = description, td_input_schema = input_schema\<rparr>, fn)"

record v0_server =
  v0_info :: server_info
  v0_caps :: capabilities
  v0_initialized :: bool
  v0_tools :: tool_registry

definition new_v0_server :: "string \<Rightarrow> string \<Rightarrow> tool_registry \<Rightarrow> v0_server" where
  "new_v0_server name version tools =
     \<lparr>v0_info = \<lparr>info_name = name, info_version = version\<rparr>,
      v0_caps = \<lparr>cap_tools = True, cap_resources = False, cap_prompts = False, cap_sampling = False,
                 cap_roots = False, cap_logging = False\<rparr>,
      v0_initialized = False, v0_tools = tools\<rparr>"

text \<open>\<open>{"content": [{"type": "text", "text": t}], "isError": b}\<close>.\<close>

definition text_content :: "string \<Rightarrow> bool \<Rightarrow> pyval" where
  "text_content t is_error =
     PDict [(''content'', PList [PDict [(''type'', PStr ''text''), (''text'', PStr t)]]),
            (''isError'', PBool is_error)]"

definition initialize_result :: "server_info \<Rightarrow> capabilities \<Rightarrow> pyval" where
  "initialize_result info caps =
     PDict [(''protocolVersion'', PStr mcp_protocol_version), (''serverInfo'', server_info_to_dict info),
            (''capabilities'', capabilities_to_dict caps)]"

definition tools_list_result :: "tool_registry \<Rightarrow> pyval" where
  "tools_list_result reg = PDict [(''tools'', PList (map (\<lambda>(defn, _). tool_to_dict defn) (dvals reg)))]"

text \<open>Calling the function and packing its result, shared by the three servers.\<close>

definition call_tool :: "bool \<Rightarrow> tool_fn \<Rightarrow> pdict \<Rightarrow> pyval" where
  "call_tool ensure_ascii fn arguments =
     (case fn arguments of
        Inl e \<Rightarrow> text_content (''Error: '' @ exn_text e) True
      | Inr (PStr s) \<Rightarrow> text_content s False
      | Inr v \<Rightarrow> text_content (json_dumps ensure_ascii True v) False)"

definition validation_failure :: "string list \<Rightarrow> pyval" where
  "validation_failure errors = text_content (''Validation errors: '' @ str_join ''; '' errors) True"

section \<open>Method handlers\<close>

definition v0_handle_initialize :: "rpc_request \<Rightarrow> v0_server \<Rightarrow> (pyval \<times> v0_server) result" where
  "v0_handle_initialize req s =
     rbind (py_get (rq_params req) ''protocolVersion'' (PStr mcp_protocol_version)) (\<lambda>_.
     rbind (py_get (rq_params req) ''clientInfo'' (PDict [])) (\<lambda>_.
       Inr (initialize_result (v0_info s) (v0_caps s), s\<lparr>v0_initialized := True\<rparr>)))"

definition v0_handle_tools_call :: "rpc_request \<Rightarrow> v0_server \<Rightarrow> (pyval \<times> v0_server) result" where
  "v0_handle_tools_call req s =
     rbind (py_get (rq_params req) ''name'' PNone) (\<lambda>tool_name.
     rbind (py_get (rq_params req) ''arguments'' (PDict [])) (\<lambda>arguments.
       if \<not> truthy tool_name then Inl (ValueError (quoted ''name'' @ '' is required in tools/call params''))
       else rbind (key_lookup (v0_tools s) tool_name) (\<lambda>entry.
         case entry of
           None \<Rightarrow> Inl (LookupError (''Tool not found: '' @ quoted (py_str tool_name)))
         | Some (tool_def, fn) \<Rightarrow>
             rbind (validate_input (td_input_schema tool_def) arguments) (\<lambda>errors.
               if errors \<noteq> [] then Inr (validation_failure errors, s)
               else case arguments of
                      PDict args \<Rightarrow> Inr (call_tool False fn args, s)
                    | _ \<Rightarrow> Inr (text_content ''Error: argument after ** must be a mapping'' True, s)))))"

definition v0_handle_notification :: "rpc_request \<Rightarrow> v0_server \<Rightarrow> v0_server" where
  "v0_handle_notification req s =
     (if rq_method req = PStr ''notifications/initialized'' then s\<lparr>v0_initialized := True\<rparr> else s)"

text \<open>The table of \<open>_get_handler\<close>.\<close>

definition v0_get_handler :: "pyval \<Rightarrow> (rpc_request \<Rightarrow> v0_server \<Rightarrow> (pyval \<times> v0_server) result) option result" where
  "v0_get_handler method =
     key_lookup [(''initialize'', v0_handle_initialize),
                 (''tools/list'', \<lambda>req s. Inr (tools_list_result (v0_tools s), s)),
                 (''tools/call'', v0_handle_tools_call),
                 (''ping'', \<lambda>req s. Inr (PDict [], s))] method"

definition v0_handle :: "(py_exn \<Rightarrow> string) \<Rightarrow> pyval \<Rightarrow> v0_server \<Rightarrow> (rpc_response option \<times> v0_server) result" where
  "v0_handle traceback message s =
     rbind (request_from_dict message) (\<lambda>req.
       if rq_id req = PNone then Inr (None, v0_handle_notification req s)
       else rbind (v0_get_handler (rq_method req)) (\<lambda>handler.
         case handler of
           None \<Rightarrow> Inr (Some (make_error_response (rq_id req) METHOD_NOT_FOUND
                           (''Method not found: '' @ py_str (rq_method req)) PNone), s)
         | Some h \<Rightarrow>
             (case h req s of
                Inr (res, s') \<Rightarrow> Inr (Some (make_response (rq_id req) res), s')
              | Inl e \<Rightarrow> Inr (Some (make_error_response (rq_id req) INTERNAL_ERROR (exn_text e)
                             (PDict [(''traceback'', PStr (traceback e))])), s))))"

section \<open>The stdio loop\<close>

text \<open>
  The lines read before the end of input, and what is written. A blank line is skipped, a line that
  does not parse gets a parse error, anything raised by \<open>handle\<close> an internal error.
\<close>

fun v0_run :: "(py_exn \<Rightarrow> string) \<Rightarrow> (string \<Rightarrow> pyval result) \<Rightarrow> string list \<Rightarrow> v0_server \<Rightarrow> string list \<times> v0_server" where
  "v0_run traceback loads [] s = ([], s)"
| "v0_run traceback loads (raw # rest) s =
     (let line = str_strip raw in
      if line = [] then v0_run traceback loads rest s
      else case loads line of
             Inl e \<Rightarrow>
               (let (out, s') = v0_run traceback loads rest s
                in (response_to_json (make_error_response PNone PARSE_ERROR (exn_text e) PNone) # out, s'))
           | Inr message \<Rightarrow>
               (case v0_handle traceback message s of
                  Inl e \<Rightarrow>
                    (let (out, s') = v0_run traceback loads rest s
                     in (response_to_json (make_error_response PNone INTERNAL_ERROR (exn_text e) PNone) # out, s'))
                | Inr (None, s1) \<Rightarrow> v0_run traceback loads rest s1
                | Inr (Some resp, s1) \<Rightarrow>
                    (let (out, s') = v0_run traceback loads rest s1 in (response_to_json resp # out, s'))))"

section \<open>The server keeps the JSON-RPC contract\<close>

interpretation v0: rpc_server "v0_handle traceback"
  for traceback
proof unfold_locales
  fix msg r s assume "request_from_dict msg = Inr r" "rq_id r = PNone"
  then show "\<exists>s'. v0_handle traceback msg s = Inr (None, s')" by (simp add: v0_handle_def)
next
  fix msg r s x s' assume r: "request_from_dict msg = Inr r" "rq_id r \<noteq> PNone" "v0_handle traceback msg s = Inr (x, s')"
  then obtain handler where h: "v0_get_handler (rq_method r) = Inr handler"
    by (auto simp: v0_handle_def rbind_Inr)
  show "\<exists>resp. x = Some resp \<and> rs_id resp = rq_id r"
  proof (cases handler)
    case None
    with r h show ?thesis by (auto simp: v0_handle_def make_error_response_def)
  next
    case (Some f)
    with r h show ?thesis
      by (cases "f r s") (auto simp: v0_handle_def make_response_def make_error_response_def)
  qed
next
  fix msg s e assume "request_from_dict msg = Inl e"
  then show "v0_handle traceback msg s = Inl e" by (simp add: v0_handle_def)
qed

text \<open>The loop writes what the contract's transport sends.\<close>

lemma v0_run_serve:
  "fst (v0_run traceback (\<lambda>l. Inr (parse l)) lines s) =
     map response_to_json (v0.serve traceback (map parse (filter (\<lambda>l. l \<noteq> []) (map str_strip lines))) s)"
proof (induction lines arbitrary: s)
  case (Cons l lines)
  then show ?case by (auto simp: Let_def case_prod_unfold split: sum.split option.split)
qed simp

text \<open>A tool runs only with arguments its schema accepts.\<close>

lemma v0_tools_call_validated:
  assumes "rq_params req = PDict ps" and "dget ps ''name'' = Some (PStr name)" and "name \<noteq> []"
    and "dget_or ps ''arguments'' (PDict []) = PDict args"
    and "dget (v0_tools s) name = Some (defn, fn)" and "schema_ok props required (td_input_schema defn)"
  shows "(\<forall>f \<in> set required. dhas args f) \<and> (\<forall>(f, v) \<in> set args. fits props f v) \<Longrightarrow>
           v0_handle_tools_call req s = Inr (call_tool False fn args, s)"
    and "\<not> ((\<forall>f \<in> set required. dhas args f) \<and> (\<forall>(f, v) \<in> set args. fits props f v)) \<Longrightarrow>
           \<exists>errors. errors \<noteq> [] \<and> v0_handle_tools_call req s = Inr (validation_failure errors, s)"
proof -
  obtain errs where errs: "validate_input (td_input_schema defn) (PDict args) = Inr errs"
    "errs = [] \<longleftrightarrow> (\<forall>f \<in> set required. dhas args f) \<and> (\<forall>(f, v) \<in> set args. fits props f v)"
    using validate_input_ok [OF assms(6)] by blast
  have "v0_handle_tools_call req s =
      (if errs \<noteq> [] then Inr (validation_failure errs, s) else Inr (call_tool False fn args, s))"
    using assms errs(1) by (simp add: v0_handle_tools_call_def dget_or_def)
  then show "(\<forall>f \<in> set required. dhas args f) \<and> (\<forall>(f, v) \<in> set args. fits props f v) \<Longrightarrow>
           v0_handle_tools_call req s = Inr (call_tool False fn args, s)"
    and "\<not> ((\<forall>f \<in> set required. dhas args f) \<and> (\<forall>(f, v) \<in> set args. fits props f v)) \<Longrightarrow>
           \<exists>errors. errors \<noteq> [] \<and> v0_handle_tools_call req s = Inr (validation_failure errors, s)"
    using errs(2) by auto
qed

text \<open>
  The sample tools of \<open>v0_stdio.py\<close> and their registration. The file system is a parameter: a map
  from a path string to what is there. \<open>FFile n t\<close> is a regular file of \<open>n\<close> bytes that
  \<open>read_text\<close> decodes to \<open>t\<close>, \<open>FDir\<close> a directory with its entries (name, is a directory) in the
  order of \<open>sorted(iterdir())\<close>. \<open>execute_python\<close> runs the Python interpreter and is not modelled.
\<close>

datatype fs_node = FFile nat string | FDir "(string \<times> bool) list" | FOther

type_synonym file_system = "string \<Rightarrow> fs_node option"

definition read_file_schema :: pyval where
  "read_file_schema =
     PDict [(''type'', PStr ''object''),
       (''properties'', PDict [(''path'', PDict [(''type'', PStr ''string''),
          (''description'', PStr ''Absolute or relative file path to read'')])]),
       (''required'', PList [PStr ''path''])]"

definition read_file :: "file_system \<Rightarrow> string \<Rightarrow> string result" where
  "read_file fs path =
     (case fs path of
        None \<Rightarrow> Inl (OtherError (''File not found: '' @ path))
      | Some (FFile n contents) \<Rightarrow>
          if 1048576 < n
          then Inl (ValueError (''File too large ('' @ nat_str n @ '' bytes). Maximum is 1 MB.''))
          else Inr contents
      | Some _ \<Rightarrow> Inl (ValueError (''Path is not a file: '' @ path)))"

definition list_files_schema :: pyval where
  "list_files_schema =
     PDict [(''type'', PStr ''object''),
       (''properties'', PDict [(''directory'', PDict [(''type'', PStr ''string''),
          (''description'', PStr ''Directory path to list. Defaults to current directory.'')])]),
       (''required'', PList [])]"

definition list_files :: "file_system \<Rightarrow> string \<Rightarrow> string list result" where
  "list_files fs directory =
     (case fs directory of
        None \<Rightarrow> Inl (OtherError (''Directory not found: '' @ directory))
      | Some (FDir entries) \<Rightarrow>
          Inr (map (\<lambda>(name, is_dir). (if is_dir then ''dir'' else ''file'') @ '': '' @ name) entries)
      | Some _ \<Rightarrow> Inl (ValueError (''Path is not a directory: '' @ directory)))"

text \<open>Calling a function with keyword arguments: exactly its parameters, or \<open>TypeError\<close>.\<close>

definition kwargs_error :: "string \<Rightarrow> string list \<Rightarrow> pdict \<Rightarrow> py_exn option" where
  "kwargs_error fname params args =
     (case filter (\<lambda>k. k \<notin> set params) (dkeys args) of
        [] \<Rightarrow> None
      | k # _ \<Rightarrow> Some (TypeError (fname @ ''() got an unexpected keyword argument '' @ quoted k)))"

definition read_file_tool :: "file_system \<Rightarrow> tool_fn" where
  "read_file_tool fs args =
     (case kwargs_error ''read_file'' [''path''] args of
        Some e \<Rightarrow> Inl e
      | None \<Rightarrow>
          (case dget args ''path'' of
             Some (PStr path) \<Rightarrow> rmap PStr (read_file fs path)
           | Some v \<Rightarrow> Inl (TypeError (''expected str, bytes or os.PathLike object, not '' @ type_name v))
           | None \<Rightarrow> Inl (TypeError (''read_file() missing 1 required positional argument: '' @ quoted ''path''))))"

definition list_files_tool :: "file_system \<Rightarrow> tool_fn" where
  "list_files_tool fs args =
     (case kwargs_error ''list_files'' [''directory''] args of
        Some e \<Rightarrow> Inl e
      | None \<Rightarrow>
          (case dget_or args ''directory'' (PStr ''.'') of
             PStr directory \<Rightarrow> rmap (\<lambda>names. PList (map PStr names)) (list_files fs directory)
           | v \<Rightarrow> Inl (TypeError (''expected str, bytes or os.PathLike object, not '' @ type_name v))))"

definition register_file_tools :: "file_system \<Rightarrow> tool_registry \<Rightarrow> tool_registry" where
  "register_file_tools fs reg =
     mcp_tool ''list_files'' ''List files in a directory. Returns a JSON array of filenames.''
       list_files_schema (list_files_tool fs)
       (mcp_tool ''read_file'' ''Read the text contents of a file. Returns the file content as a string.''
          read_file_schema (read_file_tool fs) reg)"

lemma file_tool_schemas:
  "schema_ok [(''path'', PDict [(''type'', PStr ''string''),
      (''description'', PStr ''Absolute or relative file path to read'')])] [''path''] read_file_schema"
  "schema_ok [(''directory'', PDict [(''type'', PStr ''string''),
      (''description'', PStr ''Directory path to list. Defaults to current directory.'')])] [] list_files_schema"
  by (simp_all add: schema_ok_def read_file_schema_def list_files_schema_def dget_or_def)

lemma file_tools_registered:
  "dget (register_file_tools fs reg) ''read_file'' =
     Some (\<lparr>td_name = ''read_file'',
            td_description = ''Read the text contents of a file. Returns the file content as a string.'',
            td_input_schema = read_file_schema\<rparr>, read_file_tool fs)"
  "dget (register_file_tools fs reg) ''list_files'' =
     Some (\<lparr>td_name = ''list_files'',
            td_description = ''List files in a directory. Returns a JSON array of filenames.'',
            td_input_schema = list_files_schema\<rparr>, list_files_tool fs)"
  by (simp_all add: register_file_tools_def mcp_tool_def)

end
