(* ===== verification/McpV1.thy ===== *)
theory McpV1
  imports McpV0
begin

text \<open>
  \<open>mcp-server/src/v1_http.py\<close>: resources, prompts, the v1 dispatcher, the SSE queues and the HTTP
  endpoints. A registered resource is the outcome of calling its function (a parameter); a queue of a
  connected client is the list of the messages put and not yet read, under the number of its client.
\<close>

type_synonym resource_registry = "(string, resource_definition \<times> pyval result) pydict"
type_synonym prompt_registry = "(string, prompt_definition \<times> string) pydict"

definition mcp_resource :: "string \<Rightarrow> string \<Rightarrow> string \<Rightarrow> string \<Rightarrow> pyval result \<Rightarrow> resource_registry \<Rightarrow> resource_registry" where
  "mcp_resource uri name description mime_type fn reg =
     dset reg uri (\<lparr>rd_uri = uri, rd_name = name, rd_description = description, rd_mime_type = mime_type\<rparr>, fn)"

definition mcp_prompt :: "string \<Rightarrow> string \<Rightarrow> prompt_argument list \<Rightarrow> string \<Rightarrow> prompt_registry \<Rightarrow> prompt_registry" where
  "mcp_prompt name description arguments template reg =
     dset reg name (\<lparr>pd_name = name, pd_description = description, pd_arguments = arguments\<rparr>, template)"

definition newline :: string where
  "newline = [CHR 0x0A]"

text \<open>The two sample resources, from what the platform reports.\<close>

definition current_directory_resource :: "string \<Rightarrow> (string \<times> bool) list \<Rightarrow> string" where
  "current_directory_resource cwd entries =
     str_join newline ([''Current directory: '' @ cwd, []] @
       map (\<lambda>(name, is_dir). ''  '' @ (if is_dir then ''DIR '' else ''FILE'') @ '' '' @ name) entries)"

definition system_info_resource :: "string \<Rightarrow> string \<Rightarrow> string \<Rightarrow> string \<Rightarrow> string \<Rightarrow> string" where
  "system_info_resource plat version processor cwd timestamp =
     json_dumps True True (PDict [(''platform'', PStr plat), (''python_version'', PStr version),
       (''processor'', PStr processor), (''cwd'', PStr cwd), (''timestamp'', PFloat timestamp)])"

definition register_sample_prompts :: "prompt_registry \<Rightarrow> prompt_registry" where
  "register_sample_prompts reg =
     dset (dset reg ''code_review''
       (\<lparr>pd_name = ''code_review'',
         pd_description = ''Review code in a given programming language for bugs and style'',
         pd_arguments =
           [\<lparr>pa_name = ''language'', pa_description = ''Programming language (e.g., Python, Java)'', pa_required = True\<rparr>,
            \<lparr>pa_name = ''code'', pa_description = ''The code to review'', pa_required = True\<rparr>]\<rparr>,
        ''Please review the following $language code for bugs, style issues, and potential improvements:'' @
        newline @ newline @ replicate 3 (CHR 0x60) @ ''$language'' @ newline @ ''$code'' @ newline @ replicate 3 (CHR 0x60)))
      ''summarize''
       (\<lparr>pd_name = ''summarize'', pd_description = ''Summarize text with an optional maximum length constraint'',
         pd_arguments =
           [\<lparr>pa_name = ''text'', pa_description = ''The text to summarize'', pa_required = True\<rparr>,
            \<lparr>pa_name = ''max_length'', pa_description = ''Maximum length of the summary in words'', pa_required = False\<rparr>]\<rparr>,
        ''Please summarize the following text in no more than $max_length words:'' @ newline @ newline @ ''$text'')"

section \<open>The server\<close>

record v1_server =
  v1_info :: server_info
  v1_caps :: capabilities
  v1_tools :: tool_registry
  v1_resources :: resource_registry
  v1_prompts :: prompt_registry
  v1_initialized :: bool
  v1_queues :: "(nat \<times> string list) list"

definition new_v1_server :: "string \<Rightarrow> string \<Rightarrow> tool_registry \<Rightarrow> resource_registry \<Rightarrow> prompt_registry \<Rightarrow> v1_server" where
  "new_v1_server name version tools resources prompts =
     \<lparr>v1_info = \<lparr>info_name = name, info_version = version\<rparr>,
      v1_caps = \<lparr>cap_tools = True, cap_resources = True, cap_prompts = True, cap_sampling = False,
                 cap_roots = False, cap_logging = False\<rparr>,
      v1_tools = tools, v1_resources = resources, v1_prompts = prompts, v1_initialized = False, v1_queues = []\<rparr>"

definition v1_handle_initialize :: "rpc_request \<Rightarrow> v1_server \<Rightarrow> (pyval \<times> v1_server) result" where
  "v1_handle_initialize req s = Inr (initialize_result (v1_info s) (v1_caps s), s\<lparr>v1_initialized := True\<rparr>)"

definition v1_handle_tools_list :: "rpc_request \<Rightarrow> v1_server \<Rightarrow> (pyval \<times> v1_server) result" where
  "v1_handle_tools_list req s = Inr (tools_list_result (v1_tools s), s)"

text \<open>\<open>not name or name not in registry\<close>: the entry of a name, or the \<open>LookupError\<close>.\<close>

definition registry_entry :: "string \<Rightarrow> (string, 'a) pydict \<Rightarrow> pyval \<Rightarrow> 'a result" where
  "registry_entry what reg name =
     (let missing = LookupError (what @ '' not found: '' @ quoted (py_str name)) in
      if \<not> truthy name then Inl missing
      else rbind (key_lookup reg name) (\<lambda>entry. case entry of None \<Rightarrow> Inl missing | Some x \<Rightarrow> Inr x))"

definition v1_handle_tools_call :: "rpc_request \<Rightarrow> v1_server \<Rightarrow> (pyval \<times> v1_server) result" where
  "v1_handle_tools_call req s =
     rbind (py_get (rq_params req) ''name'' PNone) (\<lambda>tool_name.
     rbind (py_get (rq_params req) ''arguments'' (PDict [])) (\<lambda>arguments.
     rbind (registry_entry ''Tool'' (v1_tools s) tool_name) (\<lambda>(tool_def, fn).
     rbind (validate_input (td_input_schema tool_def) arguments) (\<lambda>errors.
       if errors \<noteq> [] then Inr (validation_failure errors, s)
       else case arguments of
              PDict args \<Rightarrow> Inr (call_tool True fn args, s)
            | _ \<Rightarrow> Inr (text_content ''Error: argument after ** must be a mapping'' True, s)))))"

definition resources_list_result :: "resource_registry \<Rightarrow> pyval" where
  "resources_list_result reg = PDict [(''resources'', PList (map (\<lambda>(defn, _). resource_to_dict defn) (dvals reg)))]"

definition v1_handle_resources_list :: "rpc_request \<Rightarrow> v1_server \<Rightarrow> (pyval \<times> v1_server) result" where
  "v1_handle_resources_list req s = Inr (resources_list_result (v1_resources s), s)"

definition contents_result :: "string \<Rightarrow> string \<Rightarrow> pyval \<Rightarrow> pyval" where
  "contents_result uri mime content =
     PDict [(''contents'', PList [PDict [(''uri'', PStr uri), (''mimeType'', PStr mime), (''text'', content)]])]"

definition rstrip_slash :: "string \<Rightarrow> string" where
  "rstrip_slash u = rev (dropWhile (\<lambda>c. c = CHR ''/'') (rev u))"

text \<open>The first registered resource whose URI, without trailing slashes, starts the requested one.\<close>

definition prefix_resource :: "resource_registry \<Rightarrow> string \<Rightarrow> (resource_definition \<times> pyval result) option" where
  "prefix_resource reg uri =
     map_option snd (find (\<lambda>(registered_uri, _). is_prefix_of (rstrip_slash registered_uri) uri) reg)"

definition v1_handle_resources_read :: "rpc_request \<Rightarrow> v1_server \<Rightarrow> (pyval \<times> v1_server) result" where
  "v1_handle_resources_read req s =
     rbind (py_get (rq_params req) ''uri'' PNone) (\<lambda>uri.
       if \<not> truthy uri then Inl (ValueError (quoted ''uri'' @ '' is required in resources/read params''))
       else rbind (key_lookup (v1_resources s) uri) (\<lambda>exact.
         case uri of
           PStr u \<Rightarrow>
             (case exact of
                Some (res_def, fn) \<Rightarrow> rmap (\<lambda>content. (contents_result u (rd_mime_type res_def) content, s)) fn
              | None \<Rightarrow>
                  (case prefix_resource (v1_resources s) u of
                     Some (res_def, fn) \<Rightarrow> rmap (\<lambda>content. (contents_result u (rd_mime_type res_def) content, s)) fn
                   | None \<Rightarrow> Inl (LookupError (''Resource not found: '' @ quoted u))))
         | _ \<Rightarrow> if v1_resources s = [] then Inl (LookupError (''Resource not found: '' @ quoted (py_str uri)))
                else Inl (no_attribute uri ''startswith'')))"

definition prompts_list_result :: "prompt_registry \<Rightarrow> pyval" where
  "prompts_list_result reg = PDict [(''prompts'', PList (map (\<lambda>(defn, _). prompt_to_dict defn) (dvals reg)))]"

definition v1_handle_prompts_list :: "rpc_request \<Rightarrow> v1_server \<Rightarrow> (pyval \<times> v1_server) result" where
  "v1_handle_prompts_list req s = Inr (prompts_list_result (v1_prompts s), s)"

definition prompt_result :: "string \<Rightarrow> string \<Rightarrow> pyval" where
  "prompt_result description rendered =
     PDict [(''description'', PStr description),
            (''messages'', PList [PDict [(''role'', PStr ''user''),
               (''content'', PDict [(''type'', PStr ''text''), (''text'', PStr rendered)])]])]"

definition v1_handle_prompts_get :: "rpc_request \<Rightarrow> v1_server \<Rightarrow> (pyval \<times> v1_server) result" where
  "v1_handle_prompts_get req s =
     rbind (py_get (rq_params req) ''name'' PNone) (\<lambda>name.
     rbind (py_get (rq_params req) ''arguments'' (PDict [])) (\<lambda>arguments.
     rbind (registry_entry ''Prompt'' (v1_prompts s) name) (\<lambda>(prompt_def, template).
     rmap (\<lambda>rendered. (prompt_result (pd_description prompt_def) rendered, s))
       (substitute arguments template))))"

definition v1_handle_notification :: "rpc_request \<Rightarrow> v1_server \<Rightarrow> v1_server" where
  "v1_handle_notification req s =
     (if rq_method req = PStr ''notifications/initialized'' then s\<lparr>v1_initialized := True\<rparr> else s)"

definition v1_get_handler :: "pyval \<Rightarrow> (rpc_request \<Rightarrow> v1_server \<Rightarrow> (pyval \<times> v1_server) result) option result" where
  "v1_get_handler method =
     key_lookup [(''initialize'', v1_handle_initialize),
                 (''tools/list'', v1_handle_tools_list),
                 (''tools/call'', v1_handle_tools_call),
                 (''resources/list'', v1_handle_resources_list),
                 (''resources/read'', v1_handle_resources_read),
                 (''prompts/list'', v1_handle_prompts_list),
                 (''prompts/get'', v1_handle_prompts_get),
                 (''ping'', \<lambda>req s. Inr (PDict [], s))] method"

text \<open>\<open>except LookupError\<close> before \<open>except Exception\<close>: the response to an exception.\<close>

definition exception_response :: "pyval \<Rightarrow> py_exn \<Rightarrow> rpc_response" where
  "exception_response req_id e =
     make_error_response req_id (if is_lookup_error e then RESOURCE_NOT_FOUND else INTERNAL_ERROR) (exn_text e) PNone"

definition v1_handle :: "pyval \<Rightarrow> v1_server \<Rightarrow> (rpc_response option \<times> v1_server) result" where
  "v1_handle message s =
     rbind (request_from_dict message) (\<lambda>req.
       if rq_id req = PNone then Inr (None, v1_handle_notification req s)
       else rbind (v1_get_handler (rq_method req)) (\<lambda>handler.
         case handler of
           None \<Rightarrow> Inr (Some (make_error_response (rq_id req) METHOD_NOT_FOUND
                           (''Method not found: '' @ py_str (rq_method req)) PNone), s)
         | Some h \<Rightarrow>
             (case h req s of
                Inr (res, s') \<Rightarrow> Inr (Some (make_response (rq_id req) res), s')
              | Inl e \<Rightarrow> Inr (Some (exception_response (rq_id req) e), s))))"

interpretation v1: rpc_server v1_handle
proof unfold_locales
  fix msg r s assume "request_from_dict msg = Inr r" "rq_id r = PNone"
  then show "\<exists>s'. v1_handle msg s = Inr (None, s')" by (simp add: v1_handle_def)
next
  fix msg r s x s' assume r: "request_from_dict msg = Inr r" "rq_id r \<noteq> PNone" "v1_handle msg s = Inr (x, s')"
  then obtain handler where h: "v1_get_handler (rq_method r) = Inr handler"
    by (auto simp: v1_handle_def rbind_Inr)
  show "\<exists>resp. x = Some resp \<and> rs_id resp = rq_id r"
  proof (cases handler)
    case None
    with r h show ?thesis by (auto simp: v1_handle_def make_error_response_def)
  next
    case (Some f)
    with r h show ?thesis
      by (cases "f r s") (auto simp: v1_handle_def exception_response_def make_response_def make_error_response_def)
  qed
next
  fix msg s e assume "request_from_dict msg = Inl e"
  then show "v1_handle msg s = Inl e" by (simp add: v1_handle_def)
qed

section \<open>Server-sent events\<close>

definition broadcast_notification :: "string \<Rightarrow> pyval \<Rightarrow> v1_server \<Rightarrow> v1_server" where
  "broadcast_notification method params s =
     (let data = json_dumps True False (PDict [(''jsonrpc'', PStr ''2.0''), (''method'', PStr method), (''params'', params)])
      in s\<lparr>v1_queues := map (\<lambda>(client, q). (client, q @ [data])) (v1_queues s)\<rparr>)"

definition sse_event :: "string \<Rightarrow> string" where
  "sse_event data = ''data: '' @ data @ newline @ newline"

text \<open>Opening a stream registers its queue and yields the \<open>connected\<close> event.\<close>

definition sse_open :: "nat \<Rightarrow> v1_server \<Rightarrow> string \<times> v1_server" where
  "sse_open client s =
     (sse_event (json_dumps True False (PDict [(''type'', PStr ''connected''), (''server'', PStr (info_name (v1_info s)))])),
      s\<lparr>v1_queues := v1_queues s @ [(client, [])]\<rparr>)"

definition sse_close :: "nat \<Rightarrow> v1_server \<Rightarrow> v1_server" where
  "sse_close client s = s\<lparr>v1_queues := filter (\<lambda>(c, _). c \<noteq> client) (v1_queues s)\<rparr>"

text \<open>
  The next event of a stream that has sent \<open>sent\<close> events: the oldest message of its queue, or a
  keepalive when none came in time; \<open>None\<close> when the stream ends.
\<close>

definition sse_next :: "nat option \<Rightarrow> nat \<Rightarrow> nat \<Rightarrow> v1_server \<Rightarrow> string option \<times> v1_server" where
  "sse_next max_events sent client s =
     (if \<not> (case max_events of None \<Rightarrow> True | Some m \<Rightarrow> sent < m) then (None, sse_close client s)
      else case map_of (v1_queues s) client of
             Some (message # rest) \<Rightarrow>
               (Some (sse_event message),
                s\<lparr>v1_queues := map (\<lambda>(c, q). (c, if c = client then rest else q)) (v1_queues s)\<rparr>)
           | _ \<Rightarrow> (Some ('': keepalive'' @ newline @ newline), s))"

section \<open>HTTP endpoints\<close>

text \<open>The token of an \<open>Authorization\<close> header: \<open>partition(" ")\<close>, scheme and stripped token.\<close>

definition bearer_token :: "string option \<Rightarrow> string option" where
  "bearer_token header =
     (let h = (case header of None \<Rightarrow> [] | Some h \<Rightarrow> h);
          scheme = takeWhile (\<lambda>c. c \<noteq> CHR '' '') h;
          token = str_strip (drop 1 (dropWhile (\<lambda>c. c \<noteq> CHR '' '') h))
      in if str_lower scheme = ''bearer'' \<and> token \<noteq> [] then Some token else None)"

definition http_reply :: "rpc_response option \<Rightarrow> nat \<times> pyval" where
  "http_reply response =
     (case response of None \<Rightarrow> (202, PDict []) | Some resp \<Rightarrow> (200, response_to_dict resp))"

text \<open>
  \<open>POST /messages\<close>: \<open>body\<close> is the parsed request body. \<open>set_token\<close> is the effect of
  \<open>set_request_token\<close> when an auth middleware was given; \<open>handle\<close> returns its state with an
  exception too, because the token is cleared in a \<open>finally\<close>.
\<close>

definition handle_message ::
  "(string option \<Rightarrow> 's \<Rightarrow> 's) option \<Rightarrow> (pyval \<Rightarrow> 's \<Rightarrow> rpc_response option result \<times> 's) \<Rightarrow>
   string option \<Rightarrow> pyval result \<Rightarrow> 's \<Rightarrow> (nat \<times> pyval) result \<times> 's" where
  "handle_message set_token handle header body s =
     (case body of
        Inl e \<Rightarrow> (Inr (400, PDict [(''error'', PStr ''Invalid JSON body'')]), s)
      | Inr message \<Rightarrow>
          (let (outcome, s') =
                 (case set_token of
                    Some set_tok \<Rightarrow>
                      (let (r, s1) = handle message (set_tok (bearer_token header) s) in (r, set_tok None s1))
                  | None \<Rightarrow> handle message s)
           in (rmap http_reply outcome, s')))"

definition health :: "server_info \<Rightarrow> pyval" where
  "health info = PDict [(''status'', PStr ''ok''), (''server'', PStr (info_name info))]"

section \<open>What a stream delivers\<close>

text \<open>A client that is connected reads the messages put into its queue in their order.\<close>

lemma map_of_queues:
  "map_of (map (\<lambda>(c, q). (c, f c q)) qs) c = map_option (f c) (map_of qs c)"
  by (induction qs) auto

lemma broadcast_queue:
  "map_of (v1_queues (broadcast_notification m p s)) c =
     map_option (\<lambda>q. q @ [json_dumps True False (PDict [(''jsonrpc'', PStr ''2.0''), (''method'', PStr m), (''params'', p)])])
       (map_of (v1_queues s) c)"
  using map_of_queues [of "\<lambda>_ q. q @ [json_dumps True False (PDict [(''jsonrpc'', PStr ''2.0''), (''method'', PStr m), (''params'', p)])]"]
  by (simp add: broadcast_notification_def)

fun sse_read :: "nat \<Rightarrow> nat \<Rightarrow> v1_server \<Rightarrow> string option list \<times> v1_server" where
  "sse_read 0 client s = ([], s)"
| "sse_read (Suc n) client s =
     (let (e, s1) = sse_next None 1 client s; (es, s2) = sse_read n client s1 in (e # es, s2))"

lemma sse_read_queue:
  "map_of (v1_queues s) client = Some (ms @ rest) \<Longrightarrow>
   \<exists>s'. sse_read (length ms) client s = (map (\<lambda>m. Some (sse_event m)) ms, s') \<and>
        map_of (v1_queues s') client = Some rest \<and>
        (\<forall>c. c \<noteq> client \<longrightarrow> map_of (v1_queues s') c = map_of (v1_queues s) c)"
proof (induction ms arbitrary: s)
  case (Cons m ms)
  define s1 where "s1 = s\<lparr>v1_queues := map (\<lambda>(c, q). (c, if c = client then ms @ rest else q)) (v1_queues s)\<rparr>"
  have n: "sse_next None 1 client s = (Some (sse_event m), s1)"
    using Cons.prems by (simp add: sse_next_def s1_def)
  have q: "map_of (v1_queues s1) c = (if c = client then Some (ms @ rest) else map_of (v1_queues s) c)" for c
    using map_of_queues [of "\<lambda>c q. if c = client then ms @ rest else q" "v1_queues s" c] Cons.prems
    by (cases "map_of (v1_queues s) c") (auto simp: s1_def)
  obtain s' where "sse_read (length ms) client s1 = (map (\<lambda>m. Some (sse_event m)) ms, s')"
      "map_of (v1_queues s') client = Some rest"
      "\<forall>c. c \<noteq> client \<longrightarrow> map_of (v1_queues s') c = map_of (v1_queues s1) c"
    using Cons.IH [of s1] q by auto
  then show ?case using n q by auto
qed simp

end
