(* ===== verification/McpV2.thy ===== *)
theory McpV2
  imports McpV1
begin

text \<open>
  \<open>mcp-server/src/v2_advanced.py\<close> and \<open>server.py\<close>: the middleware chain, the declared roots, progress
  notifications, the mock sampling handler and the unified server. A call that raises may have run
  middleware before, so the dispatcher returns its state beside the outcome. \<open>resolve\<close> is
  \<open>str(Path(raw).expanduser().resolve())\<close>, which asks the file system and is a parameter.
\<close>

section \<open>Middleware\<close>

record auth_mw =
  am_token :: string
  am_current :: "string option"

record log_entry =
  le_method :: pyval
  le_id :: pyval
  le_is_error :: bool

text \<open>The start times are left out: the keys of \<open>_start_times\<close> are the pending request ids.\<close>

record logging_mw =
  lm_log :: "log_entry list"
  lm_pending :: "pyval list"

datatype middleware = Auth auth_mw | Logging logging_mw

definition new_auth :: "string \<Rightarrow> auth_mw" where
  "new_auth token = \<lparr>am_token = token, am_current = None\<rparr>"

definition set_request_token :: "string option \<Rightarrow> auth_mw \<Rightarrow> auth_mw" where
  "set_request_token token a = a\<lparr>am_current := token\<rparr>"

definition ascii :: "string \<Rightarrow> bool" where
  "ascii s \<longleftrightarrow> (\<forall>c \<in> set s. (of_char c :: nat) < 128)"

text \<open>\<open>hmac.compare_digest\<close> takes only ASCII strings.\<close>

definition compare_digest :: "string \<Rightarrow> string \<Rightarrow> bool result" where
  "compare_digest a b =
     (if ascii a \<and> ascii b then Inr (a = b)
      else Inl (TypeError ''comparing strings with non-ASCII characters is not supported''))"

definition auth_pre :: "rpc_request \<Rightarrow> auth_mw \<Rightarrow> rpc_response option result" where
  "auth_pre req a =
     (let reject = Inr (Some (make_error_response (rq_id req) UNAUTHORIZED
                         ''Invalid or missing Authorization: Bearer token'' PNone))
      in if rq_method req = PStr ''initialize'' \<or> rq_method req = PStr ''ping'' then Inr None
         else case am_current a of
                None \<Rightarrow> reject
              | Some token \<Rightarrow> rbind (compare_digest token (am_token a)) (\<lambda>same. if same then Inr None else reject))"

definition new_logging :: logging_mw where
  "new_logging = \<lparr>lm_log = [], lm_pending = []\<rparr>"

definition logging_pre :: "rpc_request \<Rightarrow> logging_mw \<Rightarrow> rpc_response option result \<times> logging_mw" where
  "logging_pre req l =
     (if hashable (rq_id req)
      then (Inr None, l\<lparr>lm_pending := (if rq_id req \<in> set (lm_pending l) then lm_pending l else lm_pending l @ [rq_id req])\<rparr>)
      else (Inl (unhashable (rq_id req)), l))"

definition logging_post :: "rpc_request \<Rightarrow> rpc_response \<Rightarrow> logging_mw \<Rightarrow> logging_mw" where
  "logging_post req resp l =
     \<lparr>lm_log = lm_log l @ [\<lparr>le_method = rq_method req, le_id = rq_id req, le_is_error = rs_error resp \<noteq> None\<rparr>],
      lm_pending = filter (\<lambda>i. i \<noteq> rq_id req) (lm_pending l)\<rparr>"

fun mw_pre :: "rpc_request \<Rightarrow> middleware \<Rightarrow> rpc_response option result \<times> middleware" where
  "mw_pre req (Auth a) = (auth_pre req a, Auth a)"
| "mw_pre req (Logging l) = (case logging_pre req l of (r, l') \<Rightarrow> (r, Logging l'))"

fun mw_post :: "rpc_request \<Rightarrow> middleware \<Rightarrow> rpc_response \<Rightarrow> rpc_response \<times> middleware" where
  "mw_post req (Auth a) resp = (resp, Auth a)"
| "mw_post req (Logging l) resp = (resp, Logging (logging_post req resp l))"

text \<open>The first response of a pre-hook ends the chain, as an exception does.\<close>

fun run_middleware_pre :: "rpc_request \<Rightarrow> middleware list \<Rightarrow> rpc_response option result \<times> middleware list" where
  "run_middleware_pre req [] = (Inr None, [])"
| "run_middleware_pre req (mw # mws) =
     (case mw_pre req mw of
        (Inr None, mw') \<Rightarrow> (let (r, mws') = run_middleware_pre req mws in (r, mw' # mws'))
      | (r, mw') \<Rightarrow> (r, mw' # mws))"

text \<open>The post-hooks run from the last middleware to the first.\<close>

fun run_middleware_post :: "rpc_request \<Rightarrow> middleware list \<Rightarrow> rpc_response \<Rightarrow> rpc_response \<times> middleware list" where
  "run_middleware_post req [] resp = (resp, [])"
| "run_middleware_post req (mw # mws) resp =
     (let (resp1, mws') = run_middleware_post req mws resp; (resp2, mw') = mw_post req mw resp1
      in (resp2, mw' # mws'))"

section \<open>Paths and roots\<close>

text \<open>The parts of a POSIX path; an absolute one starts with the part \<open>/\<close>.\<close>

fun split_slash :: "string \<Rightarrow> string \<Rightarrow> string list" where
  "split_slash [] part = [part]"
| "split_slash (c # s) part = (if c = CHR ''/'' then part # split_slash s [] else split_slash s (part @ [c]))"

definition path_segments :: "string \<Rightarrow> string list" where
  "path_segments p = filter (\<lambda>x. x \<noteq> [] \<and> x \<noteq> ''.'') (split_slash p [])"

definition path_parts :: "string \<Rightarrow> string list" where
  "path_parts p = (if is_prefix_of ''/'' p then [''/''] else []) @ path_segments p"

definition is_relative_to :: "string \<Rightarrow> string \<Rightarrow> bool" where
  "is_relative_to p root \<longleftrightarrow> is_prefix_of (path_parts root) (path_parts p)"

definition path_name :: "string \<Rightarrow> string" where
  "path_name p = (if path_segments p = [] then [] else last (path_segments p))"

definition path_formats :: "string list" where
  "path_formats = [''path'', ''file-path'', ''filepath'', ''directory-path'', ''dir-path'', ''uri-reference'']"

definition path_arguments :: "string list" where
  "path_arguments = [''path'', ''paths'', ''file'', ''files'', ''filename'', ''filenames'', ''filepath'', ''file_path'',
     ''directory'', ''dir'', ''dirname'', ''folder'']"

definition marked_as_path :: "pdict \<Rightarrow> bool result" where
  "marked_as_path schema =
     (if dget schema ''x-mcp-path'' = Some (PBool True) then Inr True
      else in_names (dget_or schema ''format'' PNone) path_formats)"

definition is_path_property :: "string \<Rightarrow> pyval \<Rightarrow> bool result" where
  "is_path_property name prop_schema =
     (let by_name = Inr (str_lower name \<in> set path_arguments) in
      case prop_schema of
        PDict d \<Rightarrow>
          rbind (marked_as_path d) (\<lambda>m.
            if m then Inr True
            else case dget_or d ''items'' PNone of
                   PDict items \<Rightarrow> rbind (marked_as_path items) (\<lambda>mi. if mi then Inr True else by_name)
                 | _ \<Rightarrow> by_name)
      | _ \<Rightarrow> by_name)"

text \<open>A \<open>file://\<close> URI is unwrapped to its path.\<close>

definition raw_path :: "string \<Rightarrow> string" where
  "raw_path item = (if is_prefix_of ''file://'' item then drop 7 item else item)"

text \<open>The strings of one argument: itself, or the strings of its list.\<close>

definition path_items :: "pyval \<Rightarrow> string list" where
  "path_items v =
     (case v of
        PStr s \<Rightarrow> [s]
      | PList vs \<Rightarrow> concat (map (\<lambda>x. case x of PStr s \<Rightarrow> [s] | _ \<Rightarrow> []) vs)
      | _ \<Rightarrow> [])"

fun item_outside :: "(string \<Rightarrow> string result) \<Rightarrow> string list \<Rightarrow> string list \<Rightarrow> string option result" where
  "item_outside resolve roots [] = Inr None"
| "item_outside resolve roots (item # items) =
     rbind (resolve (raw_path item)) (\<lambda>resolved.
       if \<not> (\<exists>root \<in> set roots. is_relative_to resolved root) then Inr (Some item)
       else item_outside resolve roots items)"

fun arguments_outside ::
  "(string \<Rightarrow> string result) \<Rightarrow> string list \<Rightarrow> (string \<Rightarrow> pyval result) \<Rightarrow> pdict \<Rightarrow> string option result" where
  "arguments_outside resolve roots prop [] = Inr None"
| "arguments_outside resolve roots prop ((key, v) # rest) =
     rbind (prop key) (\<lambda>schema.
     rbind (is_path_property key schema) (\<lambda>is_path.
       if \<not> is_path then arguments_outside resolve roots prop rest
       else rbind (item_outside resolve roots (path_items v)) (\<lambda>found.
              case found of Some item \<Rightarrow> Inr (Some item) | None \<Rightarrow> arguments_outside resolve roots prop rest)))"

definition path_outside_roots :: "(string \<Rightarrow> string result) \<Rightarrow> string list \<Rightarrow> pdict \<Rightarrow> pyval \<Rightarrow> string option result" where
  "path_outside_roots resolve roots arguments input_schema =
     (if roots = [] then Inr None
      else let schema = (if truthy input_schema then input_schema else PDict [])
           in rbind (py_get schema ''properties'' (PDict [])) (\<lambda>p.
                let properties = (if truthy p then p else PDict [])
                in arguments_outside resolve roots (\<lambda>key. py_get properties key PNone) arguments))"

section \<open>The server\<close>

record v2_server =
  v2_info :: server_info
  v2_caps :: capabilities
  v2_tools :: tool_registry
  v2_resources :: resource_registry
  v2_prompts :: prompt_registry
  v2_roots :: "string list"
  v2_middlewares :: "middleware list"
  v2_initialized :: bool
  v2_queues :: "(nat \<times> string list) list"
  v2_notifications :: "pyval list"

definition new_v2_server ::
  "(string \<Rightarrow> string result) \<Rightarrow> string \<Rightarrow> string \<Rightarrow> string list \<Rightarrow> middleware list \<Rightarrow>
   tool_registry \<Rightarrow> resource_registry \<Rightarrow> prompt_registry \<Rightarrow> v2_server result" where
  "new_v2_server resolve name version roots middlewares tools resources prompts =
     rmap (\<lambda>resolved.
       \<lparr>v2_info = \<lparr>info_name = name, info_version = version\<rparr>,
        v2_caps = \<lparr>cap_tools = True, cap_resources = True, cap_prompts = True, cap_sampling = True,
                   cap_roots = True, cap_logging = True\<rparr>,
        v2_tools = tools, v2_resources = resources, v2_prompts = prompts, v2_roots = resolved,
        v2_middlewares = middlewares, v2_initialized = False, v2_queues = [], v2_notifications = []\<rparr>)
       (rfold (\<lambda>r acc. rmap (\<lambda>p. acc @ [p]) (resolve r)) roots [])"

end
