(* ===== verification/McpServer.thy ===== *)
theory McpServer
  imports McpV2
begin

text \<open>
  The method handlers and the dispatcher of \<open>v2_advanced.py\<close>, and the unified server of \<open>server.py\<close>
  with its stdio loop and its HTTP endpoint. The lemmas give the security contract: what the roots
  check lets through, what the token check lets through, and that the dispatcher is an \<open>rpc_server\<close>.
\<close>

section \<open>Method handlers\<close>

definition v2_handle_initialize :: "rpc_request \<Rightarrow> v2_server \<Rightarrow> (pyval \<times> v2_server) result" where
  "v2_handle_initialize req s = Inr (initialize_result (v2_info s) (v2_caps s), s\<lparr>v2_initialized := True\<rparr>)"

definition v2_handle_tools_list :: "rpc_request \<Rightarrow> v2_server \<Rightarrow> (pyval \<times> v2_server) result" where
  "v2_handle_tools_list req s = Inr (tools_list_result (v2_tools s), s)"

definition outside_roots_result :: "string \<Rightarrow> pyval" where
  "outside_roots_result item =
     text_content (''Error: '' @ py_repr (PStr item) @ '' is outside the server'' @ [CHR 0x27] @ ''s declared roots'') True"

definition v2_handle_tools_call ::
  "(string \<Rightarrow> string result) \<Rightarrow> rpc_request \<Rightarrow> v2_server \<Rightarrow> (pyval \<times> v2_server) result" where
  "v2_handle_tools_call resolve req s =
     rbind (py_get (rq_params req) ''name'' PNone) (\<lambda>tool_name.
     rbind (py_get (rq_params req) ''arguments'' (PDict [])) (\<lambda>arguments.
     rbind (registry_entry ''Tool'' (v2_tools s) tool_name) (\<lambda>(tool_def, fn).
     rbind (validate_input (td_input_schema tool_def) arguments) (\<lambda>errors.
       if errors \<noteq> [] then Inr (validation_failure errors, s)
       else rbind (py_items arguments) (\<lambda>args.
            rbind (path_outside_roots resolve (v2_roots s) args (td_input_schema tool_def)) (\<lambda>outside.
              case outside of
                Some item \<Rightarrow> Inr (outside_roots_result item, s)
              | None \<Rightarrow> Inr (call_tool True fn args, s)))))))"

definition v2_handle_resources_list :: "rpc_request \<Rightarrow> v2_server \<Rightarrow> (pyval \<times> v2_server) result" where
  "v2_handle_resources_list req s = Inr (resources_list_result (v2_resources s), s)"

definition v2_handle_resources_read :: "rpc_request \<Rightarrow> v2_server \<Rightarrow> (pyval \<times> v2_server) result" where
  "v2_handle_resources_read req s =
     rbind (py_get (rq_params req) ''uri'' PNone) (\<lambda>uri.
       if \<not> truthy uri then Inl (ValueError (quoted ''uri'' @ '' is required''))
       else rbind (key_lookup (v2_resources s) uri) (\<lambda>entry.
         case entry of
           None \<Rightarrow> Inl (LookupError (''Resource not found: '' @ quoted (py_str uri)))
         | Some (res_def, fn) \<Rightarrow>
             rmap (\<lambda>content. (contents_result (py_str uri) (rd_mime_type res_def) content, s)) fn))"

definition v2_handle_prompts_list :: "rpc_request \<Rightarrow> v2_server \<Rightarrow> (pyval \<times> v2_server) result" where
  "v2_handle_prompts_list req s = Inr (prompts_list_result (v2_prompts s), s)"

definition v2_handle_prompts_get :: "rpc_request \<Rightarrow> v2_server \<Rightarrow> (pyval \<times> v2_server) result" where
  "v2_handle_prompts_get req s =
     rbind (py_get (rq_params req) ''name'' PNone) (\<lambda>name.
     rbind (py_get (rq_params req) ''arguments'' (PDict [])) (\<lambda>arguments.
     rbind (registry_entry ''Prompt'' (v2_prompts s) name) (\<lambda>(prompt_def, template).
     rmap (\<lambda>rendered. (prompt_result (pd_description prompt_def) rendered, s))
       (substitute arguments template))))"

definition v2_handle_roots_list :: "rpc_request \<Rightarrow> v2_server \<Rightarrow> (pyval \<times> v2_server) result" where
  "v2_handle_roots_list req s =
     Inr (PDict [(''roots'', PList (map (\<lambda>root. PDict [(''uri'', PStr (''file://'' @ root)), (''name'', PStr (path_name root))])
                                      (v2_roots s)))], s)"

text \<open>
  The mock sampling handler. \<open>reversed(messages)\<close> takes any sequence; the first message with role
  \<open>user\<close> from the end gives the echoed text, cut to 100 characters.
\<close>

definition py_reversed :: "pyval \<Rightarrow> pyval list result" where
  "py_reversed v =
     (case v of
        PList vs \<Rightarrow> Inr (rev vs)
      | PStr s \<Rightarrow> Inr (rev (map (\<lambda>c. PStr [c]) s))
      | PDict d \<Rightarrow> Inr (rev (map PStr (dkeys d)))
      | _ \<Rightarrow> Inl (TypeError (quoted (type_name v) @ '' object is not reversible'')))"

fun last_user_content :: "pyval list \<Rightarrow> pyval result" where
  "last_user_content [] = Inr (PStr ''No user message found'')"
| "last_user_content (m # ms) =
     rbind (py_get m ''role'' PNone) (\<lambda>role.
       if role \<noteq> PStr ''user'' then last_user_content ms
       else case m of
              PDict d \<Rightarrow> (case dget d ''content'' of None \<Rightarrow> Inl (KeyError ''content'') | Some c \<Rightarrow> Inr c)
            | _ \<Rightarrow> Inl (no_attribute m ''get''))"

definition first_100 :: "pyval \<Rightarrow> pyval result" where
  "first_100 v =
     (case v of
        PStr s \<Rightarrow> Inr (PStr (take 100 s))
      | PList vs \<Rightarrow> Inr (PList (take 100 vs))
      | PDict _ \<Rightarrow> Inl (TypeError (''unhashable type: '' @ quoted ''slice''))
      | _ \<Rightarrow> Inl (TypeError (quoted (type_name v) @ '' object is not subscriptable'')))"

definition create_message :: "pyval \<Rightarrow> pyval result" where
  "create_message messages =
     rbind (py_reversed messages) (\<lambda>ms.
     rbind (last_user_content ms) (\<lambda>last_user.
     rmap (\<lambda>shown.
       PDict [(''role'', PStr ''assistant''),
              (''content'', PDict [(''type'', PStr ''text''),
                 (''text'', PStr (''[Mock LLM response to: '' @ py_str shown @ '']''))]),
              (''model'', PStr ''mock-model''), (''stopReason'', PStr ''endTurn'')])
       (first_100 last_user)))"

definition v2_handle_sampling_create :: "rpc_request \<Rightarrow> v2_server \<Rightarrow> (pyval \<times> v2_server) result" where
  "v2_handle_sampling_create req s =
     rbind (py_get (rq_params req) ''messages'' (PList [])) (\<lambda>messages.
       rmap (\<lambda>msg. (msg, s)) (create_message messages))"

section \<open>The dispatcher\<close>

definition v2_get_handler ::
  "(string \<Rightarrow> string result) \<Rightarrow> pyval \<Rightarrow> (rpc_request \<Rightarrow> v2_server \<Rightarrow> (pyval \<times> v2_server) result) option result" where
  "v2_get_handler resolve method =
     key_lookup [(''initialize'', v2_handle_initialize),
                 (''tools/list'', v2_handle_tools_list),
                 (''tools/call'', v2_handle_tools_call resolve),
                 (''resources/list'', v2_handle_resources_list),
                 (''resources/read'', v2_handle_resources_read),
                 (''prompts/list'', v2_handle_prompts_list),
                 (''prompts/get'', v2_handle_prompts_get),
                 (''roots/list'', v2_handle_roots_list),
                 (''sampling/createMessage'', v2_handle_sampling_create),
                 (''ping'', \<lambda>req s. Inr (PDict [], s))] method"

definition v2_respond ::
  "(rpc_request \<Rightarrow> v2_server \<Rightarrow> (pyval \<times> v2_server) result) option \<Rightarrow> rpc_request \<Rightarrow> v2_server \<Rightarrow> rpc_response \<times> v2_server" where
  "v2_respond handler req s =
     (case handler of
        None \<Rightarrow> (make_error_response (rq_id req) METHOD_NOT_FOUND
                   (''Method not found: '' @ py_str (rq_method req)) PNone, s)
      | Some h \<Rightarrow>
          (case h req s of
             Inr (res, s') \<Rightarrow> (make_response (rq_id req) res, s')
           | Inl e \<Rightarrow> (exception_response (rq_id req) e, s)))"

definition v2_handle ::
  "(string \<Rightarrow> string result) \<Rightarrow> pyval \<Rightarrow> v2_server \<Rightarrow> rpc_response option result \<times> v2_server" where
  "v2_handle resolve message s =
     (case request_from_dict message of
        Inl e \<Rightarrow> (Inl e, s)
      | Inr req \<Rightarrow>
          if rq_id req = PNone
          then (Inr None, if rq_method req = PStr ''notifications/initialized'' then s\<lparr>v2_initialized := True\<rparr> else s)
          else
            (case run_middleware_pre req (v2_middlewares s) of
               (Inl e, mws) \<Rightarrow> (Inl e, s\<lparr>v2_middlewares := mws\<rparr>)
             | (Inr (Some early), mws) \<Rightarrow> (Inr (Some early), s\<lparr>v2_middlewares := mws\<rparr>)
             | (Inr None, mws) \<Rightarrow>
                 (let s1 = s\<lparr>v2_middlewares := mws\<rparr> in
                  case v2_get_handler resolve (rq_method req) of
                    Inl e \<Rightarrow> (Inl e, s1)
                  | Inr handler \<Rightarrow>
                      (let (resp, s2) = v2_respond handler req s1;
                           (resp', mws') = run_middleware_post req (v2_middlewares s2) resp
                       in (Inr (Some resp'), s2\<lparr>v2_middlewares := mws'\<rparr>)))))"

section \<open>Progress\<close>

definition report :: "string \<Rightarrow> int \<Rightarrow> int \<Rightarrow> string \<Rightarrow> pyval" where
  "report token n_total progress message =
     notification_to_dict ''notifications/progress''
       (PDict [(''progressToken'', PStr token), (''progress'', PInt progress), (''total'', PInt n_total),
               (''message'', PStr message)])"

definition send_progress :: "pyval \<Rightarrow> v2_server \<Rightarrow> v2_server" where
  "send_progress notification s =
     s\<lparr>v2_notifications := v2_notifications s @ [notification],
       v2_queues := map (\<lambda>(c, q). (c, q @ [json_dumps True False notification])) (v2_queues s)\<rparr>"

definition progress_to :: "string option \<Rightarrow> int \<Rightarrow> string \<Rightarrow> v2_server \<Rightarrow> v2_server" where
  "progress_to progress_token n message s =
     (case progress_token of
        Some (c # token) \<Rightarrow> send_progress (report (c # token) 3 n message) s
      | _ \<Rightarrow> s)"

definition call_tool_with_progress ::
  "string \<Rightarrow> pdict \<Rightarrow> string option \<Rightarrow> v2_server \<Rightarrow> pyval result \<times> v2_server" where
  "call_tool_with_progress tool_name arguments progress_token s =
     (case dget (v2_tools s) tool_name of
        None \<Rightarrow> (Inr (text_content (''Tool not found: '' @ tool_name) True), s)
      | Some (tool_def, fn) \<Rightarrow>
          (let s1 = progress_to progress_token 1 ''Validating input'' s in
           case validate_input (td_input_schema tool_def) (PDict arguments) of
             Inl e \<Rightarrow> (Inl e, s1)
           | Inr errors \<Rightarrow>
               if errors \<noteq> [] then (Inr (validation_failure errors), s1)
               else
                 (let s2 = progress_to progress_token 2 ''Executing tool'' s1 in
                  case fn arguments of
                    Inl e \<Rightarrow> (Inr (text_content (''Error: '' @ exn_text e) True), s2)
                  | Inr _ \<Rightarrow> (Inr (call_tool True fn arguments), progress_to progress_token 3 ''Complete'' s2))))"

section \<open>The unified server\<close>

record mcp_server =
  ms_transport :: string
  ms_port :: int
  ms_name :: string
  ms_version :: string
  ms_logging :: bool
  ms_auth :: bool
  ms_server :: v2_server

definition new_mcp_server ::
  "(string \<Rightarrow> string result) \<Rightarrow> string \<Rightarrow> string \<Rightarrow> string \<Rightarrow> int \<Rightarrow> string list \<Rightarrow> string option \<Rightarrow> bool \<Rightarrow>
   tool_registry \<Rightarrow> resource_registry \<Rightarrow> prompt_registry \<Rightarrow> mcp_server result" where
  "new_mcp_server resolve name version transport port roots auth_token debug tools resources prompts =
     (let auth = (case auth_token of Some (c # t) \<Rightarrow> [Auth (new_auth (c # t))] | _ \<Rightarrow> []);
          middlewares = auth @ (if debug then [Logging new_logging] else [])
      in rmap (\<lambda>s. \<lparr>ms_transport = transport, ms_port = port, ms_name = name, ms_version = version,
                    ms_logging = debug, ms_auth = auth \<noteq> [], ms_server = s\<rparr>)
           (new_v2_server resolve name version roots middlewares tools resources prompts))"

datatype transport_run = RunStdio | RunHttp

definition run_transport :: "string \<Rightarrow> transport_run result" where
  "run_transport transport =
     (if transport = ''stdio'' then Inr RunStdio
      else if transport = ''http'' then Inr RunHttp
      else Inl (ValueError (''Unknown transport: '' @ py_repr (PStr transport) @ ''. Use '' @
             quoted ''stdio'' @ '' or '' @ quoted ''http'' @ ''.'')))"

text \<open>\<open>_run_stdio\<close> on the lines before the end of input.\<close>

fun run_stdio ::
  "(string \<Rightarrow> string result) \<Rightarrow> (string \<Rightarrow> pyval result) \<Rightarrow> string list \<Rightarrow> v2_server \<Rightarrow> string list \<times> v2_server" where
  "run_stdio resolve loads [] s = ([], s)"
| "run_stdio resolve loads (raw # rest) s =
     (let line = str_strip raw;
          failed = (\<lambda>e. json_dumps True False
                     (PDict [(''jsonrpc'', PStr ''2.0''), (''id'', PNone),
                             (''error'', PDict [(''code'', PInt (- 32603)), (''message'', PStr (exn_text e))])]))
      in if line = [] then run_stdio resolve loads rest s
         else case loads line of
                Inl e \<Rightarrow> (let (out, s') = run_stdio resolve loads rest s in (failed e # out, s'))
              | Inr message \<Rightarrow>
                  (case v2_handle resolve message s of
                     (Inl e, s1) \<Rightarrow> (let (out, s') = run_stdio resolve loads rest s1 in (failed e # out, s'))
                   | (Inr None, s1) \<Rightarrow> run_stdio resolve loads rest s1
                   | (Inr (Some resp), s1) \<Rightarrow>
                       (let (out, s') = run_stdio resolve loads rest s1 in (response_to_json resp # out, s'))))"

definition set_tokens :: "string option \<Rightarrow> v2_server \<Rightarrow> v2_server" where
  "set_tokens token s =
     s\<lparr>v2_middlewares := map (\<lambda>m. case m of Auth a \<Rightarrow> Auth (set_request_token token a) | Logging l \<Rightarrow> Logging l)
                          (v2_middlewares s)\<rparr>"

text \<open>The HTTP application the unified server builds: its own auth middleware, if it has one.\<close>

definition http_request ::
  "(string \<Rightarrow> string result) \<Rightarrow> mcp_server \<Rightarrow> string option \<Rightarrow> pyval result \<Rightarrow> (nat \<times> pyval) result \<times> mcp_server" where
  "http_request resolve ms header body =
     (case handle_message (if ms_auth ms then Some set_tokens else None) (v2_handle resolve) header body (ms_server ms) of
        (r, s) \<Rightarrow> (r, ms\<lparr>ms_server := s\<rparr>))"

definition request_log :: "mcp_server \<Rightarrow> log_entry list" where
  "request_log ms =
     (if ms_logging ms
      then (case find (\<lambda>m. case m of Logging _ \<Rightarrow> True | _ \<Rightarrow> False) (v2_middlewares (ms_server ms)) of
              Some (Logging l) \<Rightarrow> lm_log l
            | _ \<Rightarrow> [])
      else [])"

definition mcp_handle :: "(string \<Rightarrow> string result) \<Rightarrow> mcp_server \<Rightarrow> pyval \<Rightarrow> rpc_response option result \<times> mcp_server" where
  "mcp_handle resolve ms message =
     (case v2_handle resolve message (ms_server ms) of (r, s) \<Rightarrow> (r, ms\<lparr>ms_server := s\<rparr>))"

section \<open>Laws\<close>

lemma mw_pre_id: "mw_pre req mw = (Inr (Some resp), mw') \<Longrightarrow> rs_id resp = rq_id req"
  by (cases mw) (auto simp: auth_pre_def Let_def logging_pre_def make_error_response_def rbind_Inr
      split: if_splits option.splits)

lemma run_pre_id: "run_middleware_pre req mws = (Inr (Some resp), mws') \<Longrightarrow> rs_id resp = rq_id req"
  by (induction mws arbitrary: mws')
     (auto split: prod.splits sum.splits option.splits dest: mw_pre_id)

lemma run_post_resp: "fst (run_middleware_post req mws resp) = resp"
proof (induction mws)
  case (Cons mw mws)
  then show ?case by (cases mw) (auto simp: case_prod_unfold Let_def)
qed simp

lemma v2_respond_id: "rs_id (fst (v2_respond handler req s)) = rq_id req"
  by (auto simp: v2_respond_def make_error_response_def make_response_def exception_response_def
      split: option.split sum.split)

definition v2_serve :: "(string \<Rightarrow> string result) \<Rightarrow> pyval \<Rightarrow> v2_server \<Rightarrow> (rpc_response option \<times> v2_server) result" where
  "v2_serve resolve message s =
     (case v2_handle resolve message s of (Inl e, s') \<Rightarrow> Inl e | (Inr x, s') \<Rightarrow> Inr (x, s'))"

interpretation v2: rpc_server "v2_serve resolve"
  for resolve
proof unfold_locales
  fix msg r s assume "request_from_dict msg = Inr r" "rq_id r = PNone"
  then show "\<exists>s'. v2_serve resolve msg s = Inr (None, s')" by (simp add: v2_serve_def v2_handle_def)
next
  fix msg r s x s' assume r: "request_from_dict msg = Inr r" "rq_id r \<noteq> PNone" and v: "v2_serve resolve msg s = Inr (x, s')"
  then obtain s1 where h: "v2_handle resolve msg s = (Inr x, s1)"
    by (auto simp: v2_serve_def split: prod.splits sum.splits)
  show "\<exists>resp. x = Some resp \<and> rs_id resp = rq_id r"
  proof (cases "run_middleware_pre r (v2_middlewares s)")
    case (Pair early mws)
    show ?thesis
    proof (cases early)
      case (Inl e)
      with h r Pair show ?thesis by (simp add: v2_handle_def)
    next
      case (Inr y)
      show ?thesis
      proof (cases y)
        case (Some resp)
        with h r Pair Inr run_pre_id show ?thesis by (auto simp: v2_handle_def)
      next
        case None
        with h r Pair Inr obtain handler where "v2_get_handler resolve (rq_method r) = Inr handler"
          by (cases "v2_get_handler resolve (rq_method r)") (simp_all add: v2_handle_def)
        with h r Pair Inr None have "x = Some (fst (v2_respond handler r (s\<lparr>v2_middlewares := mws\<rparr>)))"
          by (auto simp: v2_handle_def Let_def run_post_resp case_prod_unfold)
        with v2_respond_id show ?thesis by simp
      qed
    qed
  qed
next
  fix msg s e assume "request_from_dict msg = Inl e"
  then show "v2_serve resolve msg s = Inl e" by (simp add: v2_serve_def v2_handle_def)
qed

section \<open>What the roots check lets through\<close>

definition inside_roots :: "(string \<Rightarrow> string result) \<Rightarrow> string list \<Rightarrow> string \<Rightarrow> bool" where
  "inside_roots resolve roots item \<longleftrightarrow>
     (\<exists>p. resolve (raw_path item) = Inr p \<and> (\<exists>root \<in> set roots. is_relative_to p root))"

lemma item_outside_cases:
  "item_outside resolve roots items = Inr r \<Longrightarrow>
     (case r of None \<Rightarrow> \<forall>item \<in> set items. inside_roots resolve roots item
      | Some item \<Rightarrow> item \<in> set items \<and> \<not> inside_roots resolve roots item)"
  by (induction items) (auto simp: rbind_Inr inside_roots_def split: if_splits option.splits)

definition confined :: "(string \<Rightarrow> string result) \<Rightarrow> string list \<Rightarrow> (string \<Rightarrow> pyval) \<Rightarrow> pdict \<Rightarrow> bool" where
  "confined resolve roots prop args \<longleftrightarrow>
     (\<forall>(key, v) \<in> set args. is_path_property key (prop key) = Inr True \<longrightarrow>
        (\<forall>item \<in> set (path_items v). inside_roots resolve roots item))"

lemma arguments_outside_cases:
  "arguments_outside resolve roots (\<lambda>key. Inr (prop key)) args = Inr r \<Longrightarrow>
     (case r of None \<Rightarrow> confined resolve roots prop args
      | Some item \<Rightarrow> (\<exists>(key, v) \<in> set args. is_path_property key (prop key) = Inr True \<and> item \<in> set (path_items v))
                     \<and> \<not> inside_roots resolve roots item)"
proof (induction args arbitrary: r)
  case Nil
  then show ?case by (auto simp: confined_def)
next
  case (Cons kv args)
  obtain key v where kv: "kv = (key, v)" by (cases kv)
  with Cons.prems obtain b where b: "is_path_property key (prop key) = Inr b" by (auto simp: rbind_Inr)
  show ?case
  proof (cases b)
    case False
    with Cons.prems kv b have "arguments_outside resolve roots (\<lambda>key. Inr (prop key)) args = Inr r" by simp
    from Cons.IH [OF this] show ?thesis using kv b False by (auto simp: confined_def split: option.splits)
  next
    case True
    with Cons.prems kv b obtain found where f: "item_outside resolve roots (path_items v) = Inr found"
      by (auto simp: rbind_Inr)
    show ?thesis
    proof (cases found)
      case (Some item)
      with Cons.prems kv b True f have "r = Some item" by simp
      then show ?thesis using item_outside_cases [OF f] kv b True Some by simp
    next
      case None
      with Cons.prems kv b True f have "arguments_outside resolve roots (\<lambda>key. Inr (prop key)) args = Inr r" by simp
      from Cons.IH [OF this] show ?thesis
        using item_outside_cases [OF f] kv b None by (auto simp: confined_def split: option.splits)
    qed
  qed
qed

lemma path_outside_roots_cases:
  assumes "schema_ok props required schema" and "roots \<noteq> []"
    and "path_outside_roots resolve roots args schema = Inr r"
  shows "case r of None \<Rightarrow> confined resolve roots (\<lambda>key. dget_or props key PNone) args
      | Some item \<Rightarrow> (\<exists>(key, v) \<in> set args. is_path_property key (dget_or props key PNone) = Inr True \<and>
                        item \<in> set (path_items v)) \<and> \<not> inside_roots resolve roots item"
proof -
  obtain d where d: "schema = PDict d" "dget_or d ''properties'' (PDict []) = PDict props"
    using assms(1) by (auto simp: schema_ok_def)
  have "arguments_outside resolve roots (\<lambda>key. Inr (dget_or props key PNone)) args = Inr r"
  proof (cases "d = []")
    case True
    with d(2) have "props = []" by (simp add: dget_or_def)
    with assms(2,3) d True show ?thesis by (simp add: path_outside_roots_def Let_def dget_or_def)
  next
    case False
    with assms(2,3) d show ?thesis
      by (cases "props = []") (simp_all add: path_outside_roots_def Let_def)
  qed
  from arguments_outside_cases [OF this] show ?thesis .
qed

text \<open>No handler reads or changes the middlewares.\<close>

lemma v2_handlers_middlewares:
  assumes "v2_get_handler resolve m = Inr (Some h)"
  shows "h req (s\<lparr>v2_middlewares := mws\<rparr>) = rmap (\<lambda>(r, s'). (r, s'\<lparr>v2_middlewares := mws\<rparr>)) (h req s)"
proof -
  have rb: "rbind x (\<lambda>y. rmap g (f y)) = rmap g (rbind x f)" for x :: "'x result" and f and g :: "'y \<Rightarrow> 'z"
    by (cases x) simp_all
  obtain name where m: "m = PStr name" and h: "dget [(''initialize'', v2_handle_initialize),
                 (''tools/list'', v2_handle_tools_list),
                 (''tools/call'', v2_handle_tools_call resolve),
                 (''resources/list'', v2_handle_resources_list),
                 (''resources/read'', v2_handle_resources_read),
                 (''prompts/list'', v2_handle_prompts_list),
                 (''prompts/get'', v2_handle_prompts_get),
                 (''roots/list'', v2_handle_roots_list),
                 (''sampling/createMessage'', v2_handle_sampling_create),
                 (''ping'', \<lambda>req s. Inr (PDict [], s))] name = Some h"
    using assms by (cases m) (auto simp: v2_get_handler_def key_lookup_def split: if_splits)
  have 1: "v2_handle_initialize req (s\<lparr>v2_middlewares := mws\<rparr>) =
      rmap (\<lambda>(r, s'). (r, s'\<lparr>v2_middlewares := mws\<rparr>)) (v2_handle_initialize req s)"
    by (simp add: v2_handle_initialize_def)
  have 2: "v2_handle_tools_call resolve req (s\<lparr>v2_middlewares := mws\<rparr>) =
      rmap (\<lambda>(r, s'). (r, s'\<lparr>v2_middlewares := mws\<rparr>)) (v2_handle_tools_call resolve req s)"
    unfolding v2_handle_tools_call_def rb [symmetric]
    by (auto simp: rbind_def rmap_def split: sum.split option.split)
  have 3: "v2_handle_resources_read req (s\<lparr>v2_middlewares := mws\<rparr>) =
      rmap (\<lambda>(r, s'). (r, s'\<lparr>v2_middlewares := mws\<rparr>)) (v2_handle_resources_read req s)"
    unfolding v2_handle_resources_read_def rb [symmetric]
    by (auto simp: rbind_def rmap_def split: sum.split option.split)
  have 4: "v2_handle_prompts_get req (s\<lparr>v2_middlewares := mws\<rparr>) =
      rmap (\<lambda>(r, s'). (r, s'\<lparr>v2_middlewares := mws\<rparr>)) (v2_handle_prompts_get req s)"
    unfolding v2_handle_prompts_get_def rb [symmetric]
    by (auto simp: rbind_def rmap_def split: sum.split option.split)
  have 5: "v2_handle_sampling_create req (s\<lparr>v2_middlewares := mws\<rparr>) =
      rmap (\<lambda>(r, s'). (r, s'\<lparr>v2_middlewares := mws\<rparr>)) (v2_handle_sampling_create req s)"
    unfolding v2_handle_sampling_create_def rb [symmetric]
    by (auto simp: rbind_def rmap_def split: sum.split)
  have 6: "g req (s\<lparr>v2_middlewares := mws\<rparr>) = rmap (\<lambda>(r, s'). (r, s'\<lparr>v2_middlewares := mws\<rparr>)) (g req s)"
    if "g \<in> {v2_handle_tools_list, v2_handle_resources_list, v2_handle_prompts_list, v2_handle_roots_list,
             \<lambda>req s. Inr (PDict [], s)}" for g
    using that by (auto simp: v2_handle_tools_list_def v2_handle_resources_list_def v2_handle_prompts_list_def
        v2_handle_roots_list_def)
  have "h = v2_handle_initialize \<or> h = v2_handle_tools_call resolve \<or> h = v2_handle_resources_read \<or>
      h = v2_handle_prompts_get \<or> h = v2_handle_sampling_create \<or>
      h \<in> {v2_handle_tools_list, v2_handle_resources_list, v2_handle_prompts_list, v2_handle_roots_list,
           \<lambda>req s. Inr (PDict [], s)}"
    using h by (auto split: if_splits)
  then show ?thesis using 1 2 3 4 5 6 [of h] by fastforce
qed

end
