(* ===== verification/McpProperties.thy ===== *)
theory McpProperties
  imports McpServer
begin

text \<open>
  The properties of the MCP servers (\<open>labs/mcp-server\<close>), from the line protocol of v0 to the roots and
  the token check of v2. The witnesses run a server with the two file tools on a one-file system.
\<close>

definition demo_fs :: file_system where
  "demo_fs path =
     (if path = ''/srv/a.txt'' then Some (FFile 2 ''hi'')
      else if path = ''/etc/passwd'' then Some (FFile 4 ''root'') else None)"

definition demo_tools :: tool_registry where
  "demo_tools = register_file_tools demo_fs []"

definition call_request :: "string \<Rightarrow> string \<Rightarrow> rpc_request" where
  "call_request tool path =
     \<lparr>rq_method = PStr ''tools/call'', rq_id = PInt 1,
      rq_params = PDict [(''name'', PStr tool), (''arguments'', PDict [(''path'', PStr path)])],
      rq_jsonrpc = PStr ''2.0''\<rparr>"

definition demo_v2 :: v2_server where
  "demo_v2 = \<lparr>v2_info = \<lparr>info_name = ''m'', info_version = ''1''\<rparr>,
     v2_caps = \<lparr>cap_tools = True, cap_resources = True, cap_prompts = True, cap_sampling = True,
                cap_roots = True, cap_logging = True\<rparr>,
     v2_tools = demo_tools, v2_resources = [], v2_prompts = [], v2_roots = [''/srv''], v2_middlewares = [],
     v2_initialized = False, v2_queues = [], v2_notifications = []\<rparr>"

definition path_props :: pdict where
  "path_props = [(''path'', PDict [(''type'', PStr ''string''),
      (''description'', PStr ''Absolute or relative file path to read'')])]"

definition read_file_defn :: tool_definition where
  "read_file_defn =
     \<lparr>td_name = ''read_file'',
      td_description = ''Read the text contents of a file. Returns the file content as a string.'',
      td_input_schema = read_file_schema\<rparr>"

lemma read_file_entry: "dget demo_tools ''read_file'' = Some (read_file_defn, read_file_tool demo_fs)"
  by (simp add: demo_tools_def file_tools_registered read_file_defn_def)

lemma read_file_schema_ok: "schema_ok path_props [''path''] (td_input_schema read_file_defn)"
  using file_tool_schemas(1) by (simp add: path_props_def read_file_defn_def)

lemma read_file_fits: "fits path_props ''path'' (PStr p)"
  by (simp add: fits_def declared_type_def path_props_def type_map_def)

definition call_params :: "string \<Rightarrow> string \<Rightarrow> pdict" where
  "call_params tool path = [(''name'', PStr tool), (''arguments'', PDict [(''path'', PStr path)])]"

lemma call_request_parts:
  "rq_params (call_request tool path) = PDict (call_params tool path)"
  "dget (call_params tool path) ''name'' = Some (PStr tool)"
  "dget_or (call_params tool path) ''arguments'' (PDict []) = PDict [(''path'', PStr path)]"
  by (simp_all add: call_request_def call_params_def dget_or_def)

lemma read_file_args_valid:
  "(\<forall>f \<in> set [''path'']. dhas [(''path'', PStr path)] f) \<and>
   (\<forall>(f, v) \<in> set [(''path'', PStr path)]. fits path_props f v)"
  by (simp add: dhas_iff read_file_fits)

section \<open>The line protocol\<close>

text \<open>The stdio server writes one line per request, in the order of the requests, each with the id of
  its request (or null when the message could not be read), and nothing for a notification or a
  blank line.\<close>

theorem stdio_one_response_per_request:
  "\<exists>responses. fst (v0_run traceback (\<lambda>l. Inr (parse l)) lines s) = map response_to_json responses \<and>
     list_all2 (\<lambda>resp msg. rs_id resp = PNone \<or> (\<exists>r. request_from_dict msg = Inr r \<and> rs_id resp = rq_id r))
       responses
       (filter (\<lambda>msg. case request_from_dict msg of Inl e \<Rightarrow> True | Inr r \<Rightarrow> rq_id r \<noteq> PNone)
          (map parse (filter (\<lambda>l. l \<noteq> []) (map str_strip lines))))"
proof (intro exI conjI)
  let ?msgs = "map parse (filter (\<lambda>l. l \<noteq> []) (map str_strip lines))"
  show "fst (v0_run traceback (\<lambda>l. Inr (parse l)) lines s) = map response_to_json (v0.serve traceback ?msgs s)"
    by (rule v0_run_serve)
  have "list_all2 (\<lambda>resp msg. rs_id resp = v0.reply_id msg \<or> rs_id resp = PNone)
      (v0.serve traceback ?msgs s) (filter v0.expects_reply ?msgs)" by (rule v0.serve_ids)
  then show "list_all2 (\<lambda>resp msg. rs_id resp = PNone \<or> (\<exists>r. request_from_dict msg = Inr r \<and> rs_id resp = rq_id r))
      (v0.serve traceback ?msgs s)
      (filter (\<lambda>msg. case request_from_dict msg of Inl e \<Rightarrow> True | Inr r \<Rightarrow> rq_id r \<noteq> PNone) ?msgs)"
    unfolding v0.expects_reply_def [abs_def]
    by (rule list_all2_mono) (auto simp: v0.reply_id_def split: sum.splits)
qed

text \<open>C15: A tool of the stdio server runs exactly when all required arguments are present and every
  argument has its declared type; otherwise the result is the list of validation errors.\<close>

theorem tools_call_validates:
  assumes "rq_params req = PDict ps" and "dget ps ''name'' = Some (PStr name)" and "name \<noteq> []"
    and "dget_or ps ''arguments'' (PDict []) = PDict args"
    and "dget (v0_tools s) name = Some (defn, fn)" and "schema_ok props required (td_input_schema defn)"
  shows "if (\<forall>f \<in> set required. dhas args f) \<and> (\<forall>(f, v) \<in> set args. fits props f v)
     then v0_handle_tools_call req s = Inr (call_tool False fn args, s)
     else \<exists>errors. errors \<noteq> [] \<and> v0_handle_tools_call req s = Inr (validation_failure errors, s)"
  using v0_tools_call_validated [OF assms] by simp

theorem tools_call_validates_witness:
  "v0_handle_tools_call (call_request ''read_file'' ''/srv/a.txt'') (new_v0_server ''m'' ''1'' demo_tools)
     = Inr (text_content ''hi'' False, new_v0_server ''m'' ''1'' demo_tools)"
proof -
  have "v0_handle_tools_call (call_request ''read_file'' ''/srv/a.txt'') (new_v0_server ''m'' ''1'' demo_tools)
     = Inr (call_tool False (read_file_tool demo_fs) [(''path'', PStr ''/srv/a.txt'')], new_v0_server ''m'' ''1'' demo_tools)"
    using tools_call_validates [where s = "new_v0_server ''m'' ''1'' demo_tools" and fn = "read_file_tool demo_fs",
        OF call_request_parts(1,2) _ call_request_parts(3) _ read_file_schema_ok, of "''read_file''" "''/srv/a.txt''"]
      read_file_args_valid [of "''/srv/a.txt''"]
    by (simp add: new_v0_server_def read_file_entry)
  then show ?thesis
    by (simp add: call_tool_def read_file_tool_def kwargs_error_def dkeys_def read_file_def demo_fs_def)
qed

section \<open>Resources and events\<close>

text \<open>Reading a resource answers with the registered content: the exact URI first, else the first
  registered URI that starts the requested one, else the error \<open>RESOURCE_NOT_FOUND\<close>.\<close>

theorem resources_read_outcomes:
  assumes "request_from_dict msg = Inr req" and "rq_id req \<noteq> PNone"
    and "rq_method req = PStr ''resources/read''" and "rq_params req = PDict ps"
    and "dget ps ''uri'' = Some (PStr u)" and "u \<noteq> []"
  shows "case (case dget (v1_resources s) u of Some e \<Rightarrow> Some e | None \<Rightarrow> prefix_resource (v1_resources s) u) of
      None \<Rightarrow> \<exists>resp. v1_handle msg s = Inr (Some resp, s) \<and> error_is RESOURCE_NOT_FOUND resp \<and> rs_id resp = rq_id req
    | Some (defn, Inr content) \<Rightarrow>
        v1_handle msg s = Inr (Some (make_response (rq_id req) (contents_result u (rd_mime_type defn) content)), s)
    | Some (defn, Inl e) \<Rightarrow> v1_handle msg s = Inr (Some (exception_response (rq_id req) e), s)"
proof -
  have h: "v1_get_handler (PStr ''resources/read'') = Inr (Some v1_handle_resources_read)"
    by (simp add: v1_get_handler_def)
  have read: "v1_handle_resources_read req s =
     (case (case dget (v1_resources s) u of Some e \<Rightarrow> Some e | None \<Rightarrow> prefix_resource (v1_resources s) u) of
        None \<Rightarrow> Inl (LookupError (''Resource not found: '' @ quoted u))
      | Some (defn, fn) \<Rightarrow> rmap (\<lambda>content. (contents_result u (rd_mime_type defn) content, s)) fn)"
    using assms by (auto simp: v1_handle_resources_read_def dget_or_def split: option.split)
  show ?thesis
    using assms(1-3) h read
    by (auto simp: v1_handle_def exception_response_def make_error_response_def error_is_def make_error_def
        split: option.splits sum.splits)
qed

theorem resources_read_outcomes_witness:
  "\<exists>resp. v1_handle (PDict [(''id'', PInt 1), (''method'', PStr ''resources/read''), (''params'', PDict [(''uri'', PStr ''x'')])])
       (new_v1_server ''m'' ''1'' [] [] []) = Inr (Some resp, new_v1_server ''m'' ''1'' [] [] [])
     \<and> error_is RESOURCE_NOT_FOUND resp"
  using resources_read_outcomes [of "PDict [(''id'', PInt 1), (''method'', PStr ''resources/read''), (''params'', PDict [(''uri'', PStr ''x'')])]"
      "\<lparr>rq_method = PStr ''resources/read'', rq_id = PInt 1, rq_params = PDict [(''uri'', PStr ''x'')], rq_jsonrpc = PStr ''2.0''\<rparr>"
      "[(''uri'', PStr ''x'')]" "''x''" "new_v1_server ''m'' ''1'' [] [] []"]
  by (auto simp: request_from_dict_def dget_or_def jsonrpc_version_def new_v1_server_def prefix_resource_def)

text \<open>C16: A connected SSE client reads every notification broadcast since it connected, in order, whatever
  the other clients do not read.\<close>

theorem sse_delivers_in_order:
  assumes "map_of (v1_queues s) client = None"
  shows "\<exists>s'. sse_read (length msgs) client
           (fold (\<lambda>(m, p). broadcast_notification m p) msgs (snd (sse_open client s)))
       = (map (\<lambda>(m, p). Some (sse_event (json_dumps True False
            (PDict [(''jsonrpc'', PStr ''2.0''), (''method'', PStr m), (''params'', p)])))) msgs, s')
     \<and> map_of (v1_queues s') client = Some []"
proof -
  let ?data = "\<lambda>(m, p). json_dumps True False (PDict [(''jsonrpc'', PStr ''2.0''), (''method'', PStr m), (''params'', p)])"
  have "map_of (v1_queues (fold (\<lambda>(m, p). broadcast_notification m p) msgs t)) client
      = map_option (\<lambda>q. q @ map ?data msgs) (map_of (v1_queues t) client)" for t
  proof (induction msgs arbitrary: t)
    case (Cons n msgs)
    then show ?case by (cases "map_of (v1_queues t) client"; cases n) (simp_all add: broadcast_queue)
  qed (simp add: option.map_ident)
  from this [of "snd (sse_open client s)"] assms
  have "map_of (v1_queues (fold (\<lambda>(m, p). broadcast_notification m p) msgs (snd (sse_open client s)))) client
      = Some (map ?data msgs @ [])" by (simp add: sse_open_def map_add_def)
  from sse_read_queue [OF this] show ?thesis by (auto simp: comp_def case_prod_unfold)
qed

theorem sse_delivers_in_order_witness:
  "\<exists>s'. sse_read 1 7 (broadcast_notification ''tick'' PNone (snd (sse_open 7 (new_v1_server ''m'' ''1'' [] [] []))))
     = ([Some (sse_event (json_dumps True False
          (PDict [(''jsonrpc'', PStr ''2.0''), (''method'', PStr ''tick''), (''params'', PNone)])))], s')"
  using sse_delivers_in_order [of "new_v1_server ''m'' ''1'' [] [] []" 7 "[(''tick'', PNone)]"]
  by (auto simp: new_v1_server_def)

section \<open>Confinement and authentication\<close>

text \<open>C17: A \<open>tools/call\<close> request with roots declared, and arguments valid for the tool's schema, runs the tool only if
  every path-like argument (by its schema or its name, a string or a list of strings) resolves inside a root; otherwise
  the tool does not run and the result names an argument outside. (The progress variant of the call makes no such check:
  \<open>progress_call_ignores_roots\<close> below.)\<close>

theorem tools_call_confined_to_roots:
  assumes "rq_params req = PDict ps" and "dget ps ''name'' = Some (PStr name)" and "name \<noteq> []"
    and "dget_or ps ''arguments'' (PDict []) = PDict args"
    and "dget (v2_tools s) name = Some (defn, fn)" and "schema_ok props required (td_input_schema defn)"
    and "(\<forall>f \<in> set required. dhas args f) \<and> (\<forall>(f, v) \<in> set args. fits props f v)"
    and "v2_roots s \<noteq> []" and "v2_handle_tools_call resolve req s = Inr (res, s')"
  shows "s' = s \<and>
    (confined resolve (v2_roots s) (\<lambda>key. dget_or props key PNone) args \<and> res = call_tool True fn args \<or>
     (\<exists>key v item. (key, v) \<in> set args \<and> is_path_property key (dget_or props key PNone) = Inr True \<and>
        item \<in> set (path_items v) \<and> \<not> inside_roots resolve (v2_roots s) item \<and> res = outside_roots_result item))"
proof -
  have "validate_input (td_input_schema defn) (PDict args) = Inr []"
    using validate_input_ok [OF assms(6)] assms(7) by blast
  with assms obtain outside where o: "path_outside_roots resolve (v2_roots s) args (td_input_schema defn) = Inr outside"
    and res: "s' = s" "res = (case outside of Some item \<Rightarrow> outside_roots_result item | None \<Rightarrow> call_tool True fn args)"
    by (auto simp: v2_handle_tools_call_def registry_entry_def dget_or_def rbind_Inr split: option.splits)
  from path_outside_roots_cases [OF assms(6,8) o] res show ?thesis by (cases outside) auto
qed

theorem tools_call_confined_to_roots_witness:
  "v2_handle_tools_call Inr (call_request ''read_file'' ''/etc/passwd'') demo_v2
     = Inr (outside_roots_result ''/etc/passwd'', demo_v2)"
proof -
  let ?req = "call_request ''read_file'' ''/etc/passwd''" and ?args = "[(''path'', PStr ''/etc/passwd'')]"
  have v: "validate_input (td_input_schema read_file_defn) (PDict ?args) = Inr []"
    using validate_input_ok [OF read_file_schema_ok, of ?args] read_file_args_valid by blast
  have o: "path_outside_roots Inr [''/srv''] ?args (td_input_schema read_file_defn) = Inr (Some ''/etc/passwd'')"
    by code_simp
  have s: "dget (v2_tools demo_v2) ''read_file'' = Some (read_file_defn, read_file_tool demo_fs)"
    "v2_roots demo_v2 = [''/srv'']" by (simp_all add: demo_v2_def read_file_entry)
  have "\<exists>res s'. v2_handle_tools_call Inr ?req demo_v2 = Inr (res, s')"
    unfolding v2_handle_tools_call_def call_request_parts(1) py_get_PDict call_request_parts(3)
    by (simp add: dget_or_def call_request_parts(2) registry_entry_def s v o)
  then obtain res s' where r: "v2_handle_tools_call Inr ?req demo_v2 = Inr (res, s')" by blast
  have path: "is_path_property ''path'' (dget_or path_props ''path'' PNone) = Inr True" by code_simp
  have out: "\<not> inside_roots Inr [''/srv''] ''/etc/passwd''"
    by (simp add: inside_roots_def raw_path_def is_relative_to_def path_parts_def path_segments_def)
  have "\<not> confined Inr [''/srv''] (\<lambda>key. dget_or path_props key PNone) ?args"
    using out path by (simp add: confined_def path_items_def)
  moreover have "item = ''/etc/passwd''" if "item \<in> set (path_items v)" "(key, v) \<in> set ?args" for key v item
    using that by (simp add: path_items_def)
  ultimately show ?thesis
    using tools_call_confined_to_roots [OF call_request_parts(1,2) _ call_request_parts(3) s(1) read_file_schema_ok
        read_file_args_valid _ r] r s(2) by auto
qed

text \<open>The progress variant of a tool call does not check the roots: a valid call of a known tool runs
  it whatever roots are declared and whatever its path arguments are.\<close>

theorem progress_call_ignores_roots:
  assumes "dget (v2_tools s) name = Some (defn, fn)" and "schema_ok props required (td_input_schema defn)"
    and "(\<forall>f \<in> set required. dhas args f) \<and> (\<forall>(f, v) \<in> set args. fits props f v)"
  shows "fst (call_tool_with_progress name args token s) = Inr (call_tool True fn args)"
proof -
  have "validate_input (td_input_schema defn) (PDict args) = Inr []"
    using validate_input_ok [OF assms(2)] assms(3) by blast
  then show ?thesis
    using assms(1) by (auto simp: call_tool_with_progress_def Let_def call_tool_def split: sum.split)
qed

theorem progress_call_ignores_roots_witness:
  "fst (call_tool_with_progress ''read_file'' [(''path'', PStr ''/etc/passwd'')] None demo_v2)
     = Inr (text_content ''root'' False)"
proof -
  have "fst (call_tool_with_progress ''read_file'' [(''path'', PStr ''/etc/passwd'')] None demo_v2)
     = Inr (call_tool True (read_file_tool demo_fs) [(''path'', PStr ''/etc/passwd'')])"
    by (rule progress_call_ignores_roots [OF _ read_file_schema_ok])
      (simp_all add: demo_v2_def read_file_entry dhas_iff read_file_fits)
  then show ?thesis
    by (simp add: call_tool_def read_file_tool_def kwargs_error_def dkeys_def read_file_def demo_fs_def)
qed

lemma v2_respond_middlewares:
  assumes "v2_get_handler resolve m = Inr handler"
  shows "v2_respond handler req (s\<lparr>v2_middlewares := mws\<rparr>)
       = (case v2_respond handler req s of (resp, s') \<Rightarrow> (resp, s'\<lparr>v2_middlewares := mws\<rparr>))"
proof (cases handler)
  case (Some h)
  with v2_handlers_middlewares [of resolve m h] assms show ?thesis
    by (cases "h req s") (auto simp: v2_respond_def)
qed (simp add: v2_respond_def)

lemma v2_handle_authorized:
  assumes "request_from_dict msg = Inr req" and "rq_id req \<noteq> PNone" and "auth_pre req a = Inr None"
  shows "v2_handle resolve msg (s\<lparr>v2_middlewares := [Auth a]\<rparr>)
       = (case v2_handle resolve msg (s\<lparr>v2_middlewares := []\<rparr>) of (r, s') \<Rightarrow> (r, s'\<lparr>v2_middlewares := [Auth a]\<rparr>))"
proof (cases "v2_get_handler resolve (rq_method req)")
  case (Inl e)
  with assms show ?thesis by (simp add: v2_handle_def)
next
  case (Inr handler)
  obtain resp s1 where r: "v2_respond handler req s = (resp, s1)" by (cases "v2_respond handler req s")
  have m: "v2_respond handler req (s\<lparr>v2_middlewares := mws\<rparr>) = (resp, s1\<lparr>v2_middlewares := mws\<rparr>)" for mws
    using v2_respond_middlewares [OF Inr, where req = req and s = s and mws = mws] r by simp
  from assms Inr m show ?thesis by (simp add: v2_handle_def)
qed

text \<open>C18: Over HTTP with a token configured as the only middleware, and tokens in ASCII (\<open>compare_digest\<close> raises on
  others): \<open>initialize\<close> and \<open>ping\<close> are served with and without a token; any other request is served, exactly as
  without authentication, if its Authorization header bears the token, and otherwise it is answered \<open>UNAUTHORIZED\<close> and
  the server does not change. The token never outlives the request.\<close>

theorem http_token_required:
  assumes "v2_middlewares (ms_server ms) = [Auth a]" and "ms_auth ms" and "am_current a = None"
    and "ascii (am_token a)" and "\<forall>t. bearer_token header = Some t \<longrightarrow> ascii t"
    and "request_from_dict msg = Inr req" and "rq_id req \<noteq> PNone"
  shows "http_request resolve ms header (Inr msg) =
    (if bearer_token header = Some (am_token a) \<or> rq_method req \<in> {PStr ''initialize'', PStr ''ping''}
     then (case v2_handle resolve msg ((ms_server ms)\<lparr>v2_middlewares := []\<rparr>) of (r, s) \<Rightarrow>
             (rmap http_reply r, ms\<lparr>ms_server := s\<lparr>v2_middlewares := [Auth a]\<rparr>\<rparr>))
     else (Inr (200, response_to_dict (make_error_response (rq_id req) UNAUTHORIZED
             ''Invalid or missing Authorization: Bearer token'' PNone)), ms))"
proof -
  let ?s = "ms_server ms" and ?a = "a\<lparr>am_current := bearer_token header\<rparr>"
  let ?free = "bearer_token header = Some (am_token a) \<or> rq_method req \<in> {PStr ''initialize'', PStr ''ping''}"
  have set1: "set_tokens (bearer_token header) ?s = ?s\<lparr>v2_middlewares := [Auth ?a]\<rparr>"
    using assms(1) by (simp add: set_tokens_def set_request_token_def)
  have clear: "set_tokens None (s\<lparr>v2_middlewares := [Auth ?a]\<rparr>) = s\<lparr>v2_middlewares := [Auth a]\<rparr>" for s
    using assms(3) by (cases a) (simp add: set_tokens_def set_request_token_def)
  have same: "?s\<lparr>v2_middlewares := [Auth a]\<rparr> = ?s" using assms(1) by (cases ?s) simp
  have pre: "auth_pre req ?a = Inr (if ?free then None
      else Some (make_error_response (rq_id req) UNAUTHORIZED ''Invalid or missing Authorization: Bearer token'' PNone))"
    using assms(4,5) by (auto simp: auth_pre_def compare_digest_def Let_def split: option.split)
  show ?thesis
  proof (cases ?free)
    case True
    then have "auth_pre req ?a = Inr None" unfolding pre by simp
    from v2_handle_authorized [OF assms(6,7) this, of resolve ?s] True assms(2)
    show ?thesis
      unfolding http_request_def handle_message_def by (simp add: set1 clear case_prod_unfold del: insert_iff)
  next
    case False
    with pre have "v2_handle resolve msg (?s\<lparr>v2_middlewares := [Auth ?a]\<rparr>) =
        (Inr (Some (make_error_response (rq_id req) UNAUTHORIZED ''Invalid or missing Authorization: Bearer token'' PNone)),
         ?s\<lparr>v2_middlewares := [Auth ?a]\<rparr>)"
      using assms(6,7) by (simp add: v2_handle_def)
    with False assms(2) show ?thesis
      by (simp add: http_request_def handle_message_def set1 clear same http_reply_def)
  qed
qed

theorem http_token_required_witness:
  "http_request Inr \<lparr>ms_transport = ''http'', ms_port = 8080, ms_name = ''m'', ms_version = ''1'', ms_logging = False,
      ms_auth = True, ms_server = demo_v2\<lparr>v2_middlewares := [Auth (new_auth ''secret'')]\<rparr>\<rparr>
     (Some ''Bearer guess'') (Inr (PDict [(''id'', PInt 1), (''method'', PStr ''tools/list'')]))
   = (Inr (200, response_to_dict (make_error_response (PInt 1) UNAUTHORIZED
        ''Invalid or missing Authorization: Bearer token'' PNone)),
      \<lparr>ms_transport = ''http'', ms_port = 8080, ms_name = ''m'', ms_version = ''1'', ms_logging = False,
      ms_auth = True, ms_server = demo_v2\<lparr>v2_middlewares := [Auth (new_auth ''secret'')]\<rparr>\<rparr>)"
proof -
  have b: "bearer_token (Some ''Bearer guess'') = Some ''guess''" by code_simp
  have r: "request_from_dict (PDict [(''id'', PInt 1), (''method'', PStr ''tools/list'')])
      = Inr \<lparr>rq_method = PStr ''tools/list'', rq_id = PInt 1, rq_params = PDict [], rq_jsonrpc = PStr ''2.0''\<rparr>"
    by (simp add: request_from_dict_def dget_or_def jsonrpc_version_def)
  show ?thesis
    by (subst http_token_required [OF _ _ _ _ _ r, where a = "new_auth ''secret''"])
      (simp_all add: new_auth_def ascii_def b)
qed

end
