(* ===== verification/AgentReact.thy ===== *)
theory AgentReact
  imports PyJson
begin

text \<open>
  \<open>agent-framework/src/v0_react.py\<close> and \<open>tools.py\<close>: tools, the two parsers of an LLM output, the ReAct
  loop and the demonstration tools. The LLM is a parameter, a function from a prompt and its own
  state to its output (or the exception it raised); so are \<open>eval\<close> and the clock. A string is its
  UTF-8 bytes, which matters only for the dashes of two literals.
\<close>

definition line_feed :: char where
  "line_feed = CHR 0x0A"

fun exn_class :: "py_exn \<Rightarrow> string" where
  "exn_class (ValueError _) = ''ValueError''"
| "exn_class (KeyError _) = ''KeyError''"
| "exn_class (IndexError _) = ''IndexError''"
| "exn_class (LookupError _) = ''LookupError''"
| "exn_class (AttributeError _) = ''AttributeError''"
| "exn_class (TypeError _) = ''TypeError''"
| "exn_class (RuntimeError _) = ''RuntimeError''"
| "exn_class (NotImplementedError _) = ''NotImplementedError''"
| "exn_class (OtherError _) = ''Exception''"

section \<open>Tools\<close>

record react_tool =
  rt_name :: string
  rt_description :: string
  rt_fn :: "string \<Rightarrow> string result"

definition tool_raised :: "string \<Rightarrow> py_exn \<Rightarrow> string" where
  "tool_raised name e = ''ERROR: tool '' @ quoted name @ '' raised '' @ exn_class e @ '': '' @ exn_text e"

definition react_tool_call :: "react_tool \<Rightarrow> string \<Rightarrow> string" where
  "react_tool_call t arg = (case rt_fn t arg of Inr r \<Rightarrow> r | Inl e \<Rightarrow> tool_raised (rt_name t) e)"

type_synonym react_registry = "(string, react_tool) pydict"

definition react_register :: "react_tool \<Rightarrow> react_registry \<Rightarrow> react_registry" where
  "react_register t reg = dset reg (rt_name t) t"

definition react_call :: "react_registry \<Rightarrow> string \<Rightarrow> string \<Rightarrow> string" where
  "react_call reg name args =
     (case dget reg name of
        None \<Rightarrow> ''ERROR: unknown tool '' @ quoted name @ ''. Available tools: '' @ str_join '', '' (dkeys reg)
      | Some t \<Rightarrow> react_tool_call t args)"

definition react_descriptions :: "react_registry \<Rightarrow> string" where
  "react_descriptions reg =
     str_join [line_feed] (map (\<lambda>t. ''  '' @ rt_name t @ '': '' @ rt_description t) (dvals reg))"

section \<open>Prompt and parsers\<close>

definition react_system_prompt :: "string \<Rightarrow> string" where
  "react_system_prompt tool_descriptions =
     concat (map (\<lambda>l. l @ [line_feed])
      [''You are a helpful assistant with access to tools.'', [], ''Available tools:'', tool_descriptions, [],
       ''Use the following format exactly:'', [],
       ''Thought: your reasoning about what to do next'', ''Action: tool_name'',
       ''Action Input: the input to the tool'', ''Observation: (will be filled by the framework)'', [],
       ''Repeat Thought/Action/Action Input/Observation as needed.'',
       ''When you have the final answer, write:'', [], ''Final Answer: your complete answer here'', [],
       ''Do not write anything after '' @ [CHR 0x22] @ ''Final Answer:'' @ [CHR 0x22] @ ''.''])"

definition build_prompt :: "string \<Rightarrow> string \<Rightarrow> string \<Rightarrow> string" where
  "build_prompt tool_descriptions query history =
     react_system_prompt tool_descriptions @ [line_feed, line_feed] @ ''Question: '' @ query @ [line_feed] @ history"

text \<open>
  \<open>\s*(.+)\<close> at the start of \<open>s\<close>, with or without \<open>DOTALL\<close>: the greedy \<open>\s*\<close> stops at the first other
  character; when there is none it gives back characters until \<open>.\<close> accepts one.
\<close>

definition capture :: "bool \<Rightarrow> string \<Rightarrow> string option" where
  "capture dotall s =
     (let rest = dropWhile is_space s
      in if rest \<noteq> [] then Some (if dotall then rest else takeWhile (\<lambda>c. c \<noteq> line_feed) rest)
         else case rev (filter (\<lambda>c. dotall \<or> c \<noteq> line_feed) s) of [] \<Rightarrow> None | c # _ \<Rightarrow> Some [c])"

text \<open>\<open>re.search\<close> of a literal (given in lower case, matched without case) followed by \<open>\s*(.+)\<close>.\<close>

fun re_search :: "string \<Rightarrow> bool \<Rightarrow> string \<Rightarrow> string option" where
  "re_search lit dotall [] = None"
| "re_search lit dotall (c # s) =
     (if str_lower (take (length lit) (c # s)) = lit
      then (case capture dotall (drop (length lit) (c # s)) of
              Some g \<Rightarrow> Some g
            | None \<Rightarrow> re_search lit dotall s)
      else re_search lit dotall s)"

definition parse_action :: "string \<Rightarrow> (string \<times> string) option" where
  "parse_action txt =
     (case (re_search ''action:'' False txt, re_search ''action input:'' False txt) of
        (Some a, Some i) \<Rightarrow> Some (str_strip a, str_strip i)
      | _ \<Rightarrow> None)"

definition parse_final_answer :: "string \<Rightarrow> string option" where
  "parse_final_answer txt = map_option str_strip (re_search ''final answer:'' True txt)"

section \<open>The loop\<close>

type_synonym 's llm = "string \<Rightarrow> 's \<Rightarrow> string result \<times> 's"

definition max_steps_exceeded :: "string \<Rightarrow> nat \<Rightarrow> py_exn" where
  "max_steps_exceeded who n =
     RuntimeError (who @ '' did not produce a Final Answer within '' @ nat_str n @ '' steps.'')"

definition react_observe :: "string \<Rightarrow> string \<Rightarrow> string" where
  "react_observe llm_output observation =
     llm_output @ [line_feed] @ ''Observation: '' @ observation @ [line_feed]"

fun react_loop ::
  "react_registry \<Rightarrow> 's llm \<Rightarrow> nat \<Rightarrow> string \<Rightarrow> nat \<Rightarrow> string \<Rightarrow> 's \<Rightarrow> string result \<times> 's" where
  "react_loop reg llm max_steps query 0 history s = (Inl (max_steps_exceeded ''Agent'' max_steps), s)"
| "react_loop reg llm max_steps query (Suc n) history s =
     (case llm (build_prompt (react_descriptions reg) query history) s of
        (Inl e, s') \<Rightarrow> (Inl e, s')
      | (Inr llm_output, s') \<Rightarrow>
          (case parse_final_answer llm_output of
             Some answer \<Rightarrow> (Inr answer, s')
           | None \<Rightarrow>
               (case parse_action llm_output of
                  None \<Rightarrow> (Inr (str_strip llm_output), s')
                | Some (tool_name, tool_input) \<Rightarrow>
                    react_loop reg llm max_steps query n
                      (history @ react_observe llm_output (react_call reg tool_name tool_input)) s')))"

definition react_run :: "react_registry \<Rightarrow> 's llm \<Rightarrow> nat \<Rightarrow> string \<Rightarrow> 's \<Rightarrow> string result \<times> 's" where
  "react_run reg llm max_steps query s = react_loop reg llm max_steps query max_steps [] s"

section \<open>The demonstration tools\<close>

text \<open>\<open>eval\<close> of an expression in the restricted namespace is a parameter.\<close>

definition calculator :: "(string \<Rightarrow> string result) \<Rightarrow> string \<Rightarrow> string result" where
  "calculator eval_str expression =
     (let cleaned = str_strip expression
      in if \<exists>kw \<in> set [''import'', ''exec'', ''eval'', ''__'', ''open'']. is_substring kw cleaned
         then Inr ''ERROR: disallowed expression''
         else case eval_str cleaned of Inr v \<Rightarrow> Inr v | Inl e \<Rightarrow> Inr (''ERROR: '' @ exn_text e))"

definition search_db :: "(string, string) pydict" where
  "search_db =
     [(''wal'', ''A Write-Ahead Log (WAL) ensures durability by writing changes to an '' @
        ''append-only log before applying them to the main data store. '' @
        ''PostgreSQL, MySQL InnoDB, and RocksDB all rely on WAL.''),
      (''raft'', ''Raft is a consensus algorithm designed for understandability. '' @
        ''It uses leader election and log replication to keep a cluster of '' @
        ''servers in agreement. Leaders are elected by majority vote.''),
      (''consistent hashing'', ''Consistent hashing places both servers and data on a hash ring. '' @
        ''When a server is added or removed, only the keys between adjacent '' @
        ''servers on the ring are remapped '' @ em_dash @ '' O(K/N) keys instead of O(K).''),
      (''react'', ''ReAct (Reason + Act) is a prompting strategy that interleaves '' @
        ''Thought, Action, and Observation steps to solve complex tasks '' @
        ''with an LLM. Published by Yao et al. (2022).''),
      (''agent'', ''An LLM agent is a system where an LLM drives a decision loop: '' @
        ''the model decides what tool to call, observes the result, '' @
        ''and repeats until it can produce a final answer.'')]"

definition search :: "string \<Rightarrow> string result" where
  "search query =
     (let q = str_strip (str_lower query)
      in case find (\<lambda>(key, _). is_substring key q \<or> is_substring q key) search_db of
           Some (_, snippet) \<Rightarrow> Inr snippet
         | None \<Rightarrow> Inr (''No results found for '' @ quoted query @ ''. Try a different query.''))"

definition react_default_registry :: "(string \<Rightarrow> string result) \<Rightarrow> string \<Rightarrow> react_registry" where
  "react_default_registry eval_str now =
     react_register \<lparr>rt_name = ''current_time'', rt_description = ''Return the current UTC time'', rt_fn = (\<lambda>_. Inr now)\<rparr>
      (react_register \<lparr>rt_name = ''search'',
          rt_description = ''Search for information on a topic (returns a short summary)'', rt_fn = search\<rparr>
        (react_register \<lparr>rt_name = ''calculator'',
          rt_description = ''Evaluate arithmetic expressions (e.g. '' @ quoted ''2 + 2'' @ '', '' @ quoted ''sqrt(16)'' @ '')'',
          rt_fn = calculator eval_str\<rparr> []))"

section \<open>What a run is\<close>

text \<open>
  \<open>react_steps k\<close>: the history and the LLM state after \<open>k\<close> outputs that were all tool calls, with the
  outputs and their observations in order.
\<close>

inductive react_steps ::
  "react_registry \<Rightarrow> 's llm \<Rightarrow> string \<Rightarrow> 's \<Rightarrow> (string \<times> string) list \<Rightarrow> 's \<Rightarrow> bool"
  for reg llm query where
  start: "react_steps reg llm query s [] s"
| step: "react_steps reg llm query s0 turns s \<Longrightarrow>
     llm (build_prompt (react_descriptions reg) query (concat (map (\<lambda>(out, obs). react_observe out obs) turns))) s
       = (Inr out, s') \<Longrightarrow>
     parse_final_answer out = None \<Longrightarrow> parse_action out = Some (name, arg) \<Longrightarrow>
     react_steps reg llm query s0 (turns @ [(out, react_call reg name arg)]) s'"

definition react_history :: "(string \<times> string) list \<Rightarrow> string" where
  "react_history turns = concat (map (\<lambda>(out, obs). react_observe out obs) turns)"

lemma react_history_Nil [simp]: "react_history [] = []"
  by (simp add: react_history_def)

text \<open>An output that ends the run: an exception, a final answer, or neither an answer nor an action.\<close>

definition react_stops :: "string result \<Rightarrow> bool" where
  "react_stops r = (case r of Inl e \<Rightarrow> True | Inr out \<Rightarrow> parse_final_answer out \<noteq> None \<or> parse_action out = None)"

definition react_answer :: "string result \<Rightarrow> string result" where
  "react_answer r = rmap (\<lambda>out. case parse_final_answer out of Some a \<Rightarrow> a | None \<Rightarrow> str_strip out) r"

definition react_ask :: "react_registry \<Rightarrow> 's llm \<Rightarrow> string \<Rightarrow> (string \<times> string) list \<Rightarrow> 's \<Rightarrow> string result \<times> 's" where
  "react_ask reg llm query turns s = llm (build_prompt (react_descriptions reg) query (react_history turns)) s"

lemma react_loop_outcome:
  assumes "react_steps reg llm query s0 turns s"
  shows "\<exists>turns' s1. react_steps reg llm query s0 turns' s1 \<and> length turns' \<le> length turns + n \<and>
     (if length turns' = length turns + n
      then react_loop reg llm m query n (react_history turns) s = (Inl (max_steps_exceeded ''Agent'' m), s1)
      else react_stops (fst (react_ask reg llm query turns' s1)) \<and>
           react_loop reg llm m query n (react_history turns) s =
             (react_answer (fst (react_ask reg llm query turns' s1)), snd (react_ask reg llm query turns' s1)))"
  using assms
proof (induction n arbitrary: turns s)
  case 0
  then show ?case by (intro exI [of _ turns] exI [of _ s]) simp
next
  case (Suc n)
  obtain r s' where l: "react_ask reg llm query turns s = (r, s')" by (metis surj_pair)
  show ?case
  proof (cases "react_stops r")
    case True
    with l have "react_loop reg llm m query (Suc n) (react_history turns) s = (react_answer r, s')"
      by (auto simp: react_stops_def react_answer_def react_ask_def split: sum.splits option.splits)
    with l True Suc.prems show ?thesis by (intro exI [of _ turns] exI [of _ s]) simp
  next
    case False
    then obtain out name arg where r: "r = Inr out" and out: "parse_final_answer out = None"
        "parse_action out = Some (name, arg)" by (auto simp: react_stops_def split: sum.splits)
    let ?turns = "turns @ [(out, react_call reg name arg)]"
    have st: "react_steps reg llm query s0 ?turns s'"
      using react_steps.step [OF Suc.prems _ out] l r unfolding react_history_def react_ask_def by blast
    have "react_loop reg llm m query (Suc n) (react_history turns) s = react_loop reg llm m query n (react_history ?turns) s'"
      using l r out by (simp add: react_history_def react_ask_def)
    moreover have "length ?turns + n = length turns + Suc n" by simp
    ultimately show ?thesis using Suc.IH [OF st] by metis
  qed
qed

end
