(* ===== verification/AgentFunction.thy ===== *)
theory AgentFunction
  imports AgentReact
begin

text \<open>
  \<open>agent-framework/src/v1_function_call.py\<close>: tools with JSON schemas, the token budget, the parser of
  function calls and the function-calling agent. The calls of a \<open>StreamingCallback\<close> are the list of
  events of a run. \<open>loads\<close> is \<open>json.loads\<close>.
\<close>

section \<open>Schemas and registry\<close>

record tool_schema =
  ts_name :: string
  ts_description :: string
  ts_parameters :: pdict
  ts_fn :: "pyval \<Rightarrow> string result"

definition to_openai_spec :: "tool_schema \<Rightarrow> pyval" where
  "to_openai_spec t =
     PDict [(''type'', PStr ''function''),
            (''function'', PDict [(''name'', PStr (ts_name t)), (''description'', PStr (ts_description t)),
                                  (''parameters'', PDict (ts_parameters t))])]"

definition json_type_map :: "(string, pyclass list) pydict" where
  "json_type_map = [(''string'', [ClsStr]), (''number'', [ClsInt, ClsFloat]), (''integer'', [ClsInt]),
     (''boolean'', [ClsBool]), (''array'', [ClsList]), (''object'', [ClsDict]), (''null'', [ClsNone])]"

definition matches_json_type :: "pyval \<Rightarrow> pyval \<Rightarrow> bool result" where
  "matches_json_type v json_type =
     rmap (\<lambda>classes. case classes of None \<Rightarrow> True | Some cs \<Rightarrow> \<exists>c \<in> set cs. is_instance v c)
       (key_lookup json_type_map json_type)"

text \<open>The two loops of \<open>_validate_args\<close>: the first missing field, the first field of the wrong type.\<close>

fun missing_field :: "pyval \<Rightarrow> pyval list \<Rightarrow> string option result" where
  "missing_field args [] = Inr None"
| "missing_field args (f # fs) =
     rbind (py_contains f args) (\<lambda>present.
       if present then missing_field args fs
       else Inr (Some (''missing required field '' @ quoted (py_str f))))"

definition property_type :: "pyval \<Rightarrow> string \<Rightarrow> pyval result" where
  "property_type properties key =
     (case properties of
        PDict props \<Rightarrow> py_get (dget_or props key PNone) ''type'' PNone
      | PList _ \<Rightarrow> Inl (TypeError ''list indices must be integers or slices, not str'')
      | _ \<Rightarrow> Inl (TypeError (''string indices must be integers, not '' @ quoted ''str'')))"

fun wrong_field :: "pyval \<Rightarrow> pdict \<Rightarrow> string option result" where
  "wrong_field properties [] = Inr None"
| "wrong_field properties ((key, v) # rest) =
     rbind (py_contains (PStr key) properties) (\<lambda>known.
       if \<not> known then wrong_field properties rest
       else rbind (property_type properties key) (\<lambda>expected_type.
              if \<not> truthy expected_type then wrong_field properties rest
              else rbind (matches_json_type v expected_type) (\<lambda>ok.
                     if ok then wrong_field properties rest
                     else Inr (Some (''field '' @ quoted key @ '' expected type '' @ quoted (py_str expected_type) @
                                     '', got '' @ type_name v)))))"

definition validate_args :: "pyval \<Rightarrow> pdict \<Rightarrow> string option result" where
  "validate_args args schema =
     (if dget schema ''type'' \<noteq> Some (PStr ''object'') then Inr None
      else rbind (py_iter (dget_or schema ''required'' (PList []))) (\<lambda>req.
           rbind (missing_field args req) (\<lambda>m.
             case m of
               Some e \<Rightarrow> Inr (Some e)
             | None \<Rightarrow> rbind (py_items args) (\<lambda>items.
                         wrong_field (dget_or schema ''properties'' (PDict [])) items))))"

definition validate_and_call :: "tool_schema \<Rightarrow> pyval \<Rightarrow> string result" where
  "validate_and_call t args =
     rmap (\<lambda>problem.
       case problem of
         Some e \<Rightarrow> ''ERROR: schema validation failed '' @ em_dash @ '' '' @ e
       | None \<Rightarrow> (case ts_fn t args of Inr r \<Rightarrow> r | Inl e \<Rightarrow> tool_raised (ts_name t) e))
       (validate_args args (ts_parameters t))"

type_synonym fc_registry = "(string, tool_schema) pydict"

definition fc_register :: "tool_schema \<Rightarrow> fc_registry \<Rightarrow> fc_registry" where
  "fc_register t reg = dset reg (ts_name t) t"

definition fc_call :: "fc_registry \<Rightarrow> pyval \<Rightarrow> pyval \<Rightarrow> string result" where
  "fc_call reg name args =
     rbind (key_lookup reg name) (\<lambda>entry.
       case entry of
         None \<Rightarrow> Inr (''ERROR: unknown tool '' @ quoted (py_str name) @ ''. Available: '' @ str_join '', '' (dkeys reg))
       | Some t \<Rightarrow> validate_and_call t args)"

definition openai_tools_spec :: "fc_registry \<Rightarrow> pyval" where
  "openai_tools_spec reg = PList (map to_openai_spec (dvals reg))"

definition system_prompt_section :: "fc_registry \<Rightarrow> string" where
  "system_prompt_section reg =
     (let q = [CHR 0x22] in
      str_join [line_feed]
       ([''You have the following tools available (JSON function-call format):''] @
        map (\<lambda>t. ''  '' @ ts_name t @ '': '' @ ts_description t) (dvals reg) @
        [[], ''To call a tool, output JSON on its own line: '' @
             ''{'' @ q @ ''type'' @ q @ '':'' @ q @ ''function'' @ q @ '','' @ q @ ''function'' @ q @ '':{'' @
             q @ ''name'' @ q @ '':'' @ q @ ''<tool>'' @ q @ '','' @ q @ ''arguments'' @ q @ '':'' @ q @ ''<json-string>'' @ q @ ''}}'',
         ''After the observation, continue reasoning or output your Final Answer.'']))"

section \<open>The token budget\<close>

record cost_guard =
  max_budget :: int
  token_count :: int

text \<open>\<open>len(text)\<close> counts characters: the bytes that do not continue one.\<close>

definition text_len :: "string \<Rightarrow> nat" where
  "text_len t = length (filter (\<lambda>c. \<not> (128 \<le> (of_char c :: nat) \<and> (of_char c :: nat) < 192)) t)"

definition count_tokens :: "string \<Rightarrow> int" where
  "count_tokens t = max 1 (int (text_len t) div 4)"

definition guard_add :: "string \<Rightarrow> cost_guard \<Rightarrow> cost_guard" where
  "guard_add t g = g\<lparr>token_count := token_count g + count_tokens t\<rparr>"

definition budget_exceeded :: "int \<Rightarrow> int \<Rightarrow> py_exn" where
  "budget_exceeded used limit = RuntimeError (''Token budget exceeded: used '' @ int_str used @ '', limit '' @ int_str limit)"

text \<open>\<open>check\<close> counts before it raises, so the guard comes back changed with the exception too.\<close>

definition guard_check :: "string \<Rightarrow> cost_guard \<Rightarrow> unit result \<times> cost_guard" where
  "guard_check t g =
     (let g1 = (if t \<noteq> [] then guard_add t g else g)
      in (if max_budget g1 < token_count g1 then Inl (budget_exceeded (token_count g1) (max_budget g1)) else Inr (), g1))"

definition guard_remaining :: "cost_guard \<Rightarrow> int" where
  "guard_remaining g = max 0 (max_budget g - token_count g)"

definition guard_reset :: "cost_guard \<Rightarrow> cost_guard" where
  "guard_reset g = g\<lparr>token_count := 0\<rparr>"

definition check_opt :: "string \<Rightarrow> cost_guard option \<Rightarrow> unit result \<times> cost_guard option" where
  "check_opt t g = (case g of None \<Rightarrow> (Inr (), None) | Some g \<Rightarrow> (case guard_check t g of (r, g1) \<Rightarrow> (r, Some g1)))"

section \<open>Parsing function calls\<close>

definition type_word :: string where
  "type_word = [CHR 0x22] @ ''type'' @ [CHR 0x22]"

definition function_word :: string where
  "function_word = [CHR 0x22] @ ''function'' @ [CHR 0x22]"

text \<open>Whether \<open>"type"\s*:\s*"function"\<close> occurs.\<close>

fun has_type_function :: "string \<Rightarrow> bool" where
  "has_type_function [] = False"
| "has_type_function (c # s) =
     (is_prefix_of type_word (c # s) \<and>
        (case dropWhile is_space (drop (length type_word) (c # s)) of
           d # t \<Rightarrow> d = CHR '':'' \<and> is_prefix_of function_word (dropWhile is_space t)
         | [] \<Rightarrow> False)
      \<or> has_type_function s)"

definition no_brace :: "char \<Rightarrow> bool" where
  "no_brace c \<longleftrightarrow> c \<noteq> CHR ''{'' \<and> c \<noteq> CHR ''}''"

text \<open>
  \<open>finditer\<close> of \<open>\{[^{}]*"type"\s*:\s*"function"[^{}]*\}\<close>: a brace, a run without braces that has the
  pair, a closing brace. The text of a match is determined by where it starts.
\<close>

function find_calls :: "string \<Rightarrow> string list" where
  "find_calls [] = []"
| "find_calls (c # s) =
     (let body = takeWhile no_brace s; rest = dropWhile no_brace s
      in if c = CHR ''{'' \<and> has_type_function body \<and> rest \<noteq> [] \<and> hd rest = CHR ''}''
         then ([CHR ''{''] @ body @ [CHR ''}'']) # find_calls (tl rest)
         else find_calls s)"
  by pat_completeness auto
termination
  by (relation "measure length") (auto simp: less_Suc_eq_le intro: le_trans [OF diff_le_self length_dropWhile_le])

text \<open>\<open>if isinstance(raw_args, str)\<close>: the arguments, decoded.\<close>

definition decode_args :: "(string \<Rightarrow> pyval result) \<Rightarrow> pyval \<Rightarrow> pyval" where
  "decode_args loads raw_args =
     (case raw_args of
        PStr s \<Rightarrow> (case loads s of Inr v \<Rightarrow> v | Inl e \<Rightarrow> PDict [(''raw'', PStr s)])
      | v \<Rightarrow> v)"

fun first_call :: "(string \<Rightarrow> pyval result) \<Rightarrow> string list \<Rightarrow> (pyval \<times> pyval) option result" where
  "first_call loads [] = Inr None"
| "first_call loads (m # ms) =
     (case loads m of
        Inl e \<Rightarrow> first_call loads ms
      | Inr obj \<Rightarrow>
          rbind (py_get obj ''function'' (PDict [])) (\<lambda>func.
          rbind (py_get func ''name'' (PStr [])) (\<lambda>name.
          rbind (py_get func ''arguments'' (PStr ''{}'')) (\<lambda>raw_args.
            if truthy name then Inr (Some (name, decode_args loads raw_args)) else first_call loads ms))))"

definition parse_function_call :: "(string \<Rightarrow> pyval result) \<Rightarrow> string \<Rightarrow> (pyval \<times> pyval) option result" where
  "parse_function_call loads txt = first_call loads (find_calls txt)"

section \<open>The agent\<close>

datatype fc_event = OnThought string | OnAction pyval pyval | OnObservation string | OnAnswer string

definition fc_system_prompt :: "fc_registry \<Rightarrow> string" where
  "fc_system_prompt reg =
     concat (map (\<lambda>l. l @ [line_feed])
       [''You are a helpful assistant with access to tools.'', [], system_prompt_section reg, [],
        ''Always reason step by step. When you have enough information, write:'',
        ''Final Answer: <your complete answer>''])"

text \<open>The text before the first brace, if there is a brace.\<close>

definition thought_of :: "string \<Rightarrow> fc_event list" where
  "thought_of out =
     (if CHR ''{'' \<in> set out
      then (let t = str_strip (takeWhile (\<lambda>c. c \<noteq> CHR ''{'') out) in if t \<noteq> [] then [OnThought t] else [])
      else [])"

record 's fc_state =
  fc_guard :: "cost_guard option"
  fc_events :: "fc_event list"
  fc_llm :: 's

definition emit :: "fc_event list \<Rightarrow> 's fc_state \<Rightarrow> 's fc_state" where
  "emit evs st = st\<lparr>fc_events := fc_events st @ evs\<rparr>"

text \<open>The LLM call between the two budget checks.\<close>

definition fc_ask :: "'s llm \<Rightarrow> string \<Rightarrow> 's fc_state \<Rightarrow> string result \<times> 's fc_state" where
  "fc_ask llm prompt st =
     (case check_opt prompt (fc_guard st) of
        (Inl e, g) \<Rightarrow> (Inl e, st\<lparr>fc_guard := g\<rparr>)
      | (Inr _, g) \<Rightarrow>
          (case llm prompt (fc_llm st) of
             (Inl e, s') \<Rightarrow> (Inl e, st\<lparr>fc_guard := g, fc_llm := s'\<rparr>)
           | (Inr out, s') \<Rightarrow>
               (case check_opt out g of
                  (Inl e, g') \<Rightarrow> (Inl e, st\<lparr>fc_guard := g', fc_llm := s'\<rparr>)
                | (Inr _, g') \<Rightarrow> (Inr out, st\<lparr>fc_guard := g', fc_llm := s'\<rparr>))))"

fun fc_loop ::
  "fc_registry \<Rightarrow> (string \<Rightarrow> pyval result) \<Rightarrow> 's llm \<Rightarrow> nat \<Rightarrow> nat \<Rightarrow> string list \<Rightarrow> 's fc_state \<Rightarrow> string result \<times> 's fc_state"
where
  "fc_loop reg loads llm max_steps 0 messages st = (Inl (max_steps_exceeded ''FunctionCallAgent'' max_steps), st)"
| "fc_loop reg loads llm max_steps (Suc n) messages st =
     (case fc_ask llm (str_join [line_feed] messages) st of
        (Inl e, st1) \<Rightarrow> (Inl e, st1)
      | (Inr out, st1) \<Rightarrow>
          (case parse_final_answer out of
             Some answer \<Rightarrow> (Inr answer, emit [OnAnswer answer] st1)
           | None \<Rightarrow>
               (let st2 = emit (thought_of out) st1 in
                case parse_function_call loads out of
                  Inl e \<Rightarrow> (Inl e, st2)
                | Inr None \<Rightarrow> (Inr (str_strip out), emit [OnAnswer (str_strip out)] st2)
                | Inr (Some (name, args)) \<Rightarrow>
                    (let st3 = emit [OnAction name args] st2 in
                     case fc_call reg name args of
                       Inl e \<Rightarrow> (Inl e, st3)
                     | Inr observation \<Rightarrow>
                         fc_loop reg loads llm max_steps n
                           (messages @ [''Assistant: '' @ out, ''Observation: '' @ observation])
                           (emit [OnObservation observation] st3)))))"

definition fc_run ::
  "fc_registry \<Rightarrow> (string \<Rightarrow> pyval result) \<Rightarrow> 's llm \<Rightarrow> nat \<Rightarrow> string \<Rightarrow> 's fc_state \<Rightarrow> string result \<times> 's fc_state" where
  "fc_run reg loads llm max_steps query st =
     fc_loop reg loads llm max_steps max_steps [''System: '' @ fc_system_prompt reg, ''User: '' @ query] st"

definition string_param :: "string \<Rightarrow> string \<Rightarrow> pdict" where
  "string_param name description =
     [(''type'', PStr ''object''),
      (''properties'', PDict [(name, PDict [(''type'', PStr ''string''), (''description'', PStr description)])]),
      (''required'', PList [PStr name])]"

text \<open>\<open>lambda args: fn(args[key])\<close>; \<open>attr\<close> is the string method \<open>fn\<close> calls first.\<close>

definition call_with :: "string \<Rightarrow> string \<Rightarrow> (string \<Rightarrow> string result) \<Rightarrow> pyval \<Rightarrow> string result" where
  "call_with key attr fn args =
     (case args of
        PDict d \<Rightarrow>
          (case dget d key of
             Some (PStr s) \<Rightarrow> fn s
           | Some v \<Rightarrow> Inl (no_attribute v attr)
           | None \<Rightarrow> Inl (KeyError key))
      | v \<Rightarrow> Inl (TypeError (quoted (type_name v) @ '' object is not subscriptable'')))"

definition fc_default_registry :: "(string \<Rightarrow> string result) \<Rightarrow> string \<Rightarrow> fc_registry" where
  "fc_default_registry eval_str now =
     fc_register \<lparr>ts_name = ''current_time'', ts_description = ''Return the current UTC time'',
         ts_parameters = [(''type'', PStr ''object''), (''properties'', PDict []), (''required'', PList [])],
         ts_fn = (\<lambda>_. Inr now)\<rparr>
      (fc_register \<lparr>ts_name = ''search'', ts_description = ''Search for information on a topic'',
         ts_parameters = string_param ''query'' ''search query'', ts_fn = call_with ''query'' ''lower'' search\<rparr>
       (fc_register \<lparr>ts_name = ''calculator'', ts_description = ''Evaluate an arithmetic expression'',
         ts_parameters = string_param ''expression'' (''e.g. '' @ quoted ''2 + 2'' @ '' or '' @ quoted ''sqrt(16)''),
         ts_fn = call_with ''expression'' ''strip'' (calculator eval_str)\<rparr> []))"

end
