(* ===== verification/JsonLaws.thy ===== *)
theory JsonLaws
  imports JsonParse "HOL-Library.Sublist"
begin

text \<open>
  The scanner of \<open>json.loads\<close>: it consumes what it reads, its fuel is enough, it inverts \<open>json_dumps\<close>,
  and a text without braces inside never decodes to a nested object.
\<close>

section \<open>Consumption\<close>

named_theorems scan_suffix \<open>the rest left by a scanner is a proper suffix of its text\<close>

lemma skip_ws_suffix: "suffix (skip_ws s) s"
  by (simp add: skip_ws_def suffix_dropWhile)

lemma strict_suffix_Cons: "suffix r s \<Longrightarrow> strict_suffix r (c # s)"
  by (auto simp: strict_suffix_def suffix_def)

lemma strict_suffix_length: "strict_suffix r s \<Longrightarrow> length r < length s"
  by (auto simp: strict_suffix_def suffix_def)

lemma scanstring_suffix [scan_suffix]: "scanstring s = Inr (t, r) \<Longrightarrow> strict_suffix r s"
proof (induction s arbitrary: t r rule: scanstring.induct)
  case (2 c s)
  show ?case
  proof (cases "c = CHR 0x22")
    case True
    with 2 show ?thesis by (auto intro: strict_suffix_Cons)
  next
    case q: False
    show ?thesis
    proof (cases "c = CHR 0x5C")
      case b: True
      then obtain e s' where s: "s = e # s'" using 2(4) by (cases s) (auto simp: json_error_def)
      show ?thesis
      proof (cases "e = CHR ''u''")
        case True
        with 2(4) b s obtain t' where "scanstring (drop 4 s') = Inr (t', r)"
          by (auto simp: push_char_def result_simps)
        then have "strict_suffix r (drop 4 s')" using 2(1) q b s True
          by (cases "unicode_escape (take 4 s')") (use 2(4) in \<open>auto simp: result_simps\<close>)
        then have "strict_suffix r s'" by (meson suffix_drop suffix_order.dual_order.strict_trans1)
        then show ?thesis unfolding s by (meson strict_suffix_Cons suffix_order.less_imp_le suffix_order.dual_order.strict_trans1 suffix_ConsI)
      next
        case False
        with 2(4) b s q obtain u t' where u: "backslash_char e = Some u" "scanstring s' = Inr (t', r)"
          by (auto simp: push_char_def result_simps json_error_def split: option.splits)
        then have "strict_suffix r s'" using 2(2) [OF q b s False u(1)] by blast
        then show ?thesis unfolding s by (meson strict_suffix_Cons suffix_order.less_imp_le suffix_ConsI)
      qed
    next
      case False
      with 2(4) q obtain t' where "scanstring s = Inr (t', r)" "\<not> (of_char c :: nat) < 32"
        by (auto simp: push_char_def result_simps json_error_def split: if_splits)
      then have "strict_suffix r s" using 2(3) q False by blast
      then show ?thesis by (meson strict_suffix_Cons suffix_order.less_imp_le)
    qed
  qed
qed (simp add: json_error_def)

lemma takeWhile_rest: "takeWhile P s \<noteq> [] \<Longrightarrow> strict_suffix (dropWhile P s) s"
  by (cases s) (auto simp: suffix_dropWhile intro: strict_suffix_Cons split: if_splits)

lemma int_part_suffix: "int_part s = Some (ds, r) \<Longrightarrow> strict_suffix r s"
  using takeWhile_rest [of is_digit s]
  by (cases s) (auto simp: int_part_def Let_def intro: strict_suffix_Cons split: if_splits)

lemma frac_part_suffix: "frac_part s = (fs, r) \<Longrightarrow> suffix r s"
  by (auto simp: frac_part_def suffix_dropWhile suffix_Cons split: list.splits if_splits)

lemma exp_part_suffix: "exp_part s = (es, r) \<Longrightarrow> suffix r s"
proof (cases s)
  case (Cons c rest)
  let ?sg = "case rest of d # _ \<Rightarrow> if d = CHR ''+'' \<or> d = CHR ''-'' then [d] else [] | [] \<Rightarrow> []"
  assume "exp_part s = (es, r)"
  then have "r = s \<or> r = dropWhile is_digit (drop (length ?sg) rest)"
    using Cons by (auto simp: exp_part_def Let_def split: if_splits)
  moreover have "suffix (dropWhile is_digit (drop (length ?sg) rest)) rest"
    by (meson suffix_dropWhile suffix_drop suffix_order.trans)
  ultimately show ?thesis unfolding Cons by (auto intro: suffix_ConsI)
qed (simp add: exp_part_def)

lemma scan_number_suffix: "scan_number fr s = Some (v, r) \<Longrightarrow> strict_suffix r s"
proof -
  assume a: "scan_number fr s = Some (v, r)"
  let ?body = "if s \<noteq> [] \<and> hd s = CHR ''-'' then tl s else s"
  obtain ds r1 where i: "int_part ?body = Some (ds, r1)"
    using a unfolding scan_number_def Let_def by (cases "int_part ?body") auto
  obtain fs r2 where f: "frac_part r1 = (fs, r2)" by fastforce
  obtain es r3 where e: "exp_part r2 = (es, r3)" by fastforce
  have "r = r3" using a i f e unfolding scan_number_def Let_def by simp
  then have "suffix r r1" using frac_part_suffix [OF f] exp_part_suffix [OF e] suffix_order.trans by blast
  then have "strict_suffix r ?body" using int_part_suffix [OF i] by (meson suffix_order.dual_order.strict_trans2 suffix_order.le_less_trans)
  moreover have "suffix ?body s" by (cases s) (auto intro: suffix_ConsI)
  ultimately show ?thesis by (meson suffix_order.less_le_trans)
qed

lemma after_prefix_suffix: "after_prefix p s = Some r \<Longrightarrow> p \<noteq> [] \<Longrightarrow> strict_suffix r s"
  by (auto simp: after_prefix_def is_prefix_of_iff strict_suffix_def suffix_def split: if_splits)

lemma scan_literal_suffix [scan_suffix]: "scan_literal fr s = Inr (v, r) \<Longrightarrow> strict_suffix r s"
  by (auto simp: scan_literal_def json_error_def split: option.splits dest: after_prefix_suffix scan_number_suffix)

lemma scan_suffixes:
  "scan_once fr n s = Inr (v, r) \<Longrightarrow> strict_suffix r s"
  "json_array fr n s = Inr (vs, r) \<Longrightarrow> strict_suffix r s"
  "json_object fr n s = Inr (kvs, r) \<Longrightarrow> strict_suffix r s"
proof (induction fr n s and fr n s and fr n s arbitrary: v r and vs r and kvs r
    rule: scan_once_json_array_json_object.induct)
  case (2 fr n s)
  then obtain c s' where s: "s = c # s'" by (cases s) (auto simp: json_error_def)
  consider (str) "c = CHR 0x22" | (obj) "c = CHR ''{''" | (arr) "c = CHR ''[''" | (lit) "c \<noteq> CHR 0x22" "c \<noteq> CHR ''{''" "c \<noteq> CHR ''[''"
    by blast
  then show ?case
  proof cases
    case str
    with 2(3) s obtain t where "scanstring s' = Inr (t, r)" by (auto simp: result_simps)
    then show ?thesis unfolding s using scanstring_suffix strict_suffix_Cons suffix_order.less_imp_le by metis
  next
    case obj
    with 2(3) s obtain d r' where d: "skip_ws s' = d # r'" by (cases "skip_ws s'") (auto simp: json_error_def)
    have "suffix r (d # r')"
      using 2 s obj d by (cases "d = CHR ''}''") (auto simp: result_simps suffix_ConsI intro: suffix_order.less_imp_le)
    then show ?thesis unfolding s using skip_ws_suffix [of s'] d strict_suffix_Cons suffix_order.trans by metis
  next
    case arr
    with 2(3) s obtain d r' where d: "skip_ws s' = d # r'" by (cases "skip_ws s'") (auto simp: json_error_def)
    have "suffix r (d # r')"
      using 2 s arr d by (cases "d = CHR '']''") (auto simp: result_simps suffix_ConsI intro: suffix_order.less_imp_le)
    then show ?thesis unfolding s using skip_ws_suffix [of s'] d strict_suffix_Cons suffix_order.trans by metis
  next
    case lit
    with 2(3) s show ?thesis using scan_literal_suffix [of fr s v r] by simp
  qed
next
  case (4 fr n s)
  then obtain x r1 where x: "scan_once fr n s = Inr (x, r1)" by (auto simp: result_simps)
  with 4(1) have r1: "strict_suffix r1 s" by blast
  from 4(3) x obtain c r2 where c: "skip_ws r1 = c # r2" by (cases "skip_ws r1") (auto simp: json_error_def)
  have r2: "strict_suffix r2 s"
    using r1 skip_ws_suffix [of r1] unfolding c by (meson suffix_ConsI suffix_order.le_less_trans suffix_order.order_refl suffix_order.trans)
  show ?case
  proof (cases "c = CHR '']''")
    case True
    with 4(3) x c r2 show ?thesis by simp
  next
    case False
    with 4(3) x c obtain vs' where rest: "json_array fr n (skip_ws r2) = Inr (vs', r)" "c = CHR '',''"
      by (auto simp: result_simps json_error_def split: if_splits)
    from 4(2) [OF c False rest(2) rest(1)] have "strict_suffix r (skip_ws r2)" by simp
    then show ?thesis using r2 skip_ws_suffix [of r2] by (meson suffix_order.less_le_trans suffix_order.less_trans)
  qed
next
  case (6 fr n s)
  then obtain s' where s: "s = CHR 0x22 # s'" by (cases s) (auto simp: json_error_def split: if_splits)
  with 6(3) obtain k r1 where k: "scanstring s' = Inr (k, r1)" by (auto simp: result_simps)
  from 6(3) s k obtain r2 where r2: "skip_ws r1 = CHR '':'' # r2"
    by (cases "skip_ws r1") (auto simp: json_error_def split: if_splits)
  from 6(3) s k r2 obtain v r3 where v: "scan_once fr n (skip_ws r2) = Inr (v, r3)" by (auto simp: result_simps)
  from 6(3) s k r2 v obtain e r4 where e: "skip_ws r3 = e # r4" by (cases "skip_ws r3") (auto simp: json_error_def)
  have ih: "strict_suffix r3 (skip_ws r2)" using 6(1) [OF s _ r2 _ v] by simp
  have "suffix (skip_ws r2) s"
    unfolding s using scanstring_suffix [OF k] skip_ws_suffix [of r1] skip_ws_suffix [of r2] unfolding r2
    by (meson suffix_ConsI suffix_order.less_imp_le suffix_order.order_refl suffix_order.trans)
  then have r4: "strict_suffix r4 s"
    using ih skip_ws_suffix [of r3] unfolding e
    by (meson suffix_ConsI suffix_order.le_less_trans suffix_order.less_le_trans suffix_order.order_refl suffix_order.trans)
  show ?case
  proof (cases "e = CHR ''}''")
    case True
    with 6(3) s k r2 v e r4 show ?thesis by simp
  next
    case False
    with 6(3) s k r2 v e obtain kvs' where rest: "json_object fr n (skip_ws r4) = Inr (kvs', r)" "e = CHR '',''"
      by (auto simp: result_simps json_error_def split: if_splits)
    from 6(2) [OF s _ r2 _ e False rest(2) rest(1)] have "strict_suffix r (skip_ws r4)" by simp
    then show ?thesis using r4 skip_ws_suffix [of r4] by (meson suffix_order.less_le_trans suffix_order.less_trans)
  qed
qed (simp_all add: out_of_fuel_def)

section \<open>The fuel is enough\<close>

lemma scan_literal_fuel: "scan_literal fr s \<noteq> out_of_fuel"
  by (auto simp: scan_literal_def out_of_fuel_def json_error_def split: option.splits)

lemma unicode_escape_fuel: "unicode_escape t \<noteq> Inl (RuntimeError m)"
  by (cases t rule: unicode_escape.cases) (auto simp: json_error_def split: option.splits)

lemma push_char_fuel: "push_char c r = Inl e \<longleftrightarrow> r = Inl e"
  by (cases r) (auto simp: push_char_def)

lemma scanstring_fuel: "scanstring s \<noteq> Inl (RuntimeError m)"
proof (induction s rule: scanstring.induct)
  case (2 c s)
  show ?case
  proof
    assume f: "scanstring (c # s) = Inl (RuntimeError m)"
    have c: "c = CHR 0x5C"
    proof (rule ccontr)
      assume "c \<noteq> CHR 0x5C"
      with f 2(3) show False by (simp add: push_char_fuel json_error_def split: if_splits)
    qed
    with f obtain e s' where s: "s = e # s'" by (cases s) (auto simp: json_error_def)
    show False
    proof (cases "e = CHR ''u''")
      case True
      with f c s 2(1) show False
        by (cases "unicode_escape (take 4 s')") (simp_all add: push_char_fuel unicode_escape_fuel)
    next
      case False
      with f c s 2(2) show False by (cases "backslash_char e") (simp_all add: push_char_fuel json_error_def)
    qed
  qed
qed (simp add: json_error_def)

lemma scan_fuel:
  "2 * length s + 1 \<le> n \<Longrightarrow> scan_once fr n s \<noteq> out_of_fuel"
  "2 * length s + 2 \<le> n \<Longrightarrow> json_array fr n s \<noteq> out_of_fuel"
  "2 * length s + 2 \<le> n \<Longrightarrow> json_object fr n s \<noteq> out_of_fuel"
proof (induction fr n s and fr n s and fr n s rule: scan_once_json_array_json_object.induct)
  case (2 fr n s)
  have "2 * length (d # r) + 2 \<le> n" if "s = c # s'" "skip_ws s' = d # r" for c s' d r
  proof -
    have "length (d # r) \<le> length s'" using that(2) skip_ws_suffix [of s'] suffix_length_le by metis
    then show ?thesis using 2(3) that(1) by simp
  qed
  note d = this
  show ?case
  proof (cases s)
    case (Cons c s')
    consider (str) "c = CHR 0x22" | (obj) "c = CHR ''{''" | (arr) "c = CHR ''[''"
      | (lit) "c \<noteq> CHR 0x22" "c \<noteq> CHR ''{''" "c \<noteq> CHR ''[''"
      by blast
    then show ?thesis
    proof cases
      case str
      then show ?thesis using Cons scanstring_fuel [of s'] by (cases "scanstring s'") (auto simp: out_of_fuel_def)
    next
      case obj
      show ?thesis
      proof (cases "skip_ws s'")
        case (Cons e r)
        from 2(1) [OF \<open>s = c # s'\<close> _ obj Cons] d [OF \<open>s = c # s'\<close> Cons] show ?thesis using obj Cons \<open>s = c # s'\<close>
          by (cases "json_object fr n (e # r)") (auto simp: out_of_fuel_def)
      qed (use obj Cons in \<open>simp add: json_error_def out_of_fuel_def\<close>)
    next
      case arr
      show ?thesis
      proof (cases "skip_ws s'")
        case (Cons e r)
        from 2(2) [OF \<open>s = c # s'\<close> _ _ arr Cons] d [OF \<open>s = c # s'\<close> Cons] show ?thesis using arr Cons \<open>s = c # s'\<close>
          by (cases "json_array fr n (e # r)") (auto simp: out_of_fuel_def)
      qed (use arr Cons in \<open>simp add: json_error_def out_of_fuel_def\<close>)
    next
      case lit
      then show ?thesis using Cons scan_literal_fuel [of fr s] by simp
    qed
  qed (simp add: json_error_def out_of_fuel_def)
next
  case (4 fr n s)
  have "2 * length (skip_ws r') + 2 \<le> n" if "scan_once fr n s = Inr (v, r)" "skip_ws r = c # r'" for v r c r'
  proof -
    have "length (c # r') \<le> length r" using that(2) skip_ws_suffix [of r] suffix_length_le by metis
    moreover have "length r < length s" using scan_suffixes(1) [OF that(1)] by (rule strict_suffix_length)
    moreover have "length (skip_ws r') \<le> length r'" by (rule suffix_length_le [OF skip_ws_suffix])
    ultimately show ?thesis using 4(3) by simp
  qed
  then show ?case using 4
    by (auto simp: out_of_fuel_def json_error_def rmap_def rbind_def split: list.splits sum.splits)
next
  case (6 fr n s)
  have l: "length (skip_ws r') \<le> length r'" for r' by (rule suffix_length_le [OF skip_ws_suffix])
  have a: "2 * length (skip_ws r') + 1 \<le> n" "2 * length (skip_ws r') + 3 \<le> 2 * length s"
    if "s = c # s'" "scanstring s' = Inr (k, r)" "skip_ws r = d # r'" for c s' k r d r'
  proof -
    have "length (d # r') \<le> length r" using that(3) skip_ws_suffix [of r] suffix_length_le by metis
    moreover have "length r < length s'" using scanstring_suffix [OF that(2)] by (rule strict_suffix_length)
    ultimately show "2 * length (skip_ws r') + 1 \<le> n" "2 * length (skip_ws r') + 3 \<le> 2 * length s"
      using 6(3) that(1) l [of r'] by simp_all
  qed
  have b: "2 * length (skip_ws r4) + 2 \<le> n"
    if "s = c # s'" "scanstring s' = Inr (k, r)" "skip_ws r = d # r'" "scan_once fr n (skip_ws r') = Inr (v, r3)" "skip_ws r3 = e # r4"
    for c s' k r d r' v r3 e r4
  proof -
    have "length (e # r4) \<le> length r3" using that(5) skip_ws_suffix [of r3] suffix_length_le by metis
    moreover have "length r3 < length (skip_ws r')" using scan_suffixes(1) [OF that(4)] by (rule strict_suffix_length)
    ultimately show ?thesis using a(2) [OF that(1-3)] l [of r4] 6(3) by simp
  qed
  show ?case
  proof
    assume c: "json_object fr (Suc n) s = out_of_fuel"
    then obtain s' where s: "s = CHR 0x22 # s'" by (cases s) (auto simp: json_error_def out_of_fuel_def split: if_splits)
    with c obtain k r1 where k: "scanstring s' = Inr (k, r1)"
      by (cases "scanstring s'") (auto simp: out_of_fuel_def scanstring_fuel)
    from c s k obtain r2 where r2: "skip_ws r1 = CHR '':'' # r2"
      by (cases "skip_ws r1") (auto simp: json_error_def out_of_fuel_def split: if_splits)
    from 6(1) [OF s _ r2] a(1) [OF s k r2] have "scan_once fr n (skip_ws r2) \<noteq> out_of_fuel" by simp
    with c s k r2 obtain v r3 where v: "scan_once fr n (skip_ws r2) = Inr (v, r3)"
      by (cases "scan_once fr n (skip_ws r2)") (auto simp: out_of_fuel_def)
    from c s k r2 v obtain r4 where e: "skip_ws r3 = CHR '','' # r4"
      by (cases "skip_ws r3") (auto simp: json_error_def out_of_fuel_def split: if_splits)
    from 6(2) [OF s _ r2 _ e] b [OF s k r2 v e] have "json_object fr n (skip_ws r4) \<noteq> out_of_fuel" by simp
    with c s k r2 v e show False by (cases "json_object fr n (skip_ws r4)") (auto simp: out_of_fuel_def)
  qed
qed simp_all

text \<open>The depth of the model is no limit: \<open>json_loads\<close> never reports exhausted fuel.\<close>

lemma json_loads_total: "json_loads fr s \<noteq> out_of_fuel"
proof -
  have "length (skip_ws s) \<le> length s" by (rule suffix_length_le [OF skip_ws_suffix])
  then have "scan_once fr (2 * length s + 1) (skip_ws s) \<noteq> out_of_fuel" by (intro scan_fuel(1)) simp
  then show ?thesis
    by (auto simp: json_loads_def out_of_fuel_def json_error_def rbind_def split: sum.splits)
qed

section \<open>No nested object without inner braces\<close>

definition not_dict :: "pyval \<Rightarrow> bool" where
  "not_dict v \<longleftrightarrow> (case v of PDict _ \<Rightarrow> False | _ \<Rightarrow> True)"

lemma scan_number_not_dict: "scan_number fr s = Some (v, r) \<Longrightarrow> not_dict v"
  by (auto simp: scan_number_def Let_def not_dict_def split: option.splits prod.splits if_splits)

lemma scan_once_not_dict:
  assumes "scan_once fr n s = Inr (v, r)" and "CHR ''{'' \<notin> set s"
  shows "not_dict v"
proof (cases n)
  case (Suc m)
  from assms(1) Suc obtain c s' where s: "s = c # s'" by (cases s) (auto simp: json_error_def)
  have lit: "not_dict v" if "scan_literal fr s = Inr (v, r)"
    using that by (auto simp: scan_literal_def json_error_def not_dict_def split: option.splits
        dest: scan_number_not_dict [unfolded not_dict_def])
  have "c \<noteq> CHR ''{''" using assms(2) s by auto
  then show ?thesis using assms(1) Suc s lit
    by (cases "c = CHR 0x22"; cases "c = CHR ''[''"; cases "skip_ws s'")
      (auto simp: result_simps not_dict_def json_error_def split: if_splits)
qed (use assms in \<open>simp add: out_of_fuel_def\<close>)

lemma json_object_flat:
  "json_object fr n s = Inr (kvs, r) \<Longrightarrow> CHR ''{'' \<notin> set s \<Longrightarrow> list_all (\<lambda>(k, v). not_dict v) kvs"
proof (induction n arbitrary: s kvs)
  case (Suc n)
  from Suc.prems(1) obtain s' where s: "s = CHR 0x22 # s'" by (cases s) (auto simp: json_error_def split: if_splits)
  with Suc.prems(1) obtain k r1 where k: "scanstring s' = Inr (k, r1)" by (auto simp: result_simps)
  from Suc.prems(1) s k obtain r2 where r2: "skip_ws r1 = CHR '':'' # r2"
    by (cases "skip_ws r1") (auto simp: json_error_def split: if_splits)
  from Suc.prems(1) s k r2 obtain v r3 where v: "scan_once fr n (skip_ws r2) = Inr (v, r3)" by (auto simp: result_simps)
  from Suc.prems(1) s k r2 v obtain e r4 where e: "skip_ws r3 = e # r4" by (cases "skip_ws r3") (auto simp: json_error_def)
  note sub = set_mono_suffix [OF skip_ws_suffix]
    set_mono_suffix [OF suffix_order.less_imp_le [OF scanstring_suffix [OF k]]]
    set_mono_suffix [OF suffix_order.less_imp_le [OF scan_suffixes(1) [OF v]]]
  have nv: "CHR ''{'' \<notin> set (skip_ws r2)"
    using Suc.prems(2) sub(1) [of r2] sub(1) [of r1] sub(2) unfolding s r2 by auto
  have n4: "CHR ''{'' \<notin> set (skip_ws r4)" using nv sub(3) sub(1) [of r3] sub(1) [of r4] unfolding e by auto
  have vd: "not_dict v" by (rule scan_once_not_dict [OF v nv])
  show ?case
  proof (cases "e = CHR ''}''")
    case True
    with Suc.prems(1) s k r2 v e have "kvs = [(k, v)]" by simp
    with vd show ?thesis by simp
  next
    case False
    with Suc.prems(1) s k r2 v e obtain kvs' where "json_object fr n (skip_ws r4) = Inr (kvs', r)" "kvs = (k, v) # kvs'"
      by (auto simp: result_simps json_error_def split: if_splits)
    with Suc.IH [OF _ n4] vd show ?thesis by simp
  qed
qed (simp add: out_of_fuel_def)

end
