(* ===== verification/AgentAsync.thy ===== *)
theory AgentAsync
  imports AgentFunction Lru JsonLaws
begin

text \<open>
  \<open>agent-framework/src/v2_async.py\<close> and \<open>agent.py\<close>: tool results, the registry over the subprocess
  sandbox, the conversation memory, the asynchronous agent and the facade. What a subprocess does is
  a parameter (\<open>sandbox_run\<close>, a \<open>ToolResult\<close> for a module, a function and an argument); the results of
  \<open>asyncio.gather\<close> come in the order of the calls, whatever the order of completion.
\<close>

section \<open>Tools\<close>

record tool_result =
  tr_name :: string
  tr_success :: bool
  tr_result :: string
  tr_duration :: int

definition to_observation :: "tool_result \<Rightarrow> string" where
  "to_observation r =
     (if tr_success r then ''['' @ tr_name r @ ''] ('' @ int_str (tr_duration r) @ ''ms) '' @ tr_result r
      else ''['' @ tr_name r @ ''] ERROR ('' @ int_str (tr_duration r) @ ''ms): '' @ tr_result r)"

text \<open>What \<open>subprocess.run\<close> gives: an exit code with its two streams, or a timeout.\<close>

datatype process_end = Exited int string string | TimedOut

definition sandbox_result :: "(string \<Rightarrow> pyval result) \<Rightarrow> string \<Rightarrow> string \<Rightarrow> int \<Rightarrow> process_end \<Rightarrow> tool_result" where
  "sandbox_result loads timeout fn_name duration_ms p =
     (case p of
        TimedOut \<Rightarrow>
          \<lparr>tr_name = fn_name, tr_success = False, tr_result = ''tool timed out after '' @ timeout @ ''s'',
           tr_duration = duration_ms\<rparr>
      | Exited code out err \<Rightarrow>
          if code \<noteq> 0
          then \<lparr>tr_name = fn_name, tr_success = False,
                tr_result = ''subprocess error: '' @ (if str_strip err = [] then ''non-zero exit'' else str_strip err),
                tr_duration = duration_ms\<rparr>
          else \<lparr>tr_name = fn_name, tr_success = True,
                tr_result = (case loads (str_strip out) of Inr v \<Rightarrow> py_str v | Inl e \<Rightarrow> str_strip out),
                tr_duration = duration_ms\<rparr>)"

record async_tool =
  at_name :: string
  at_description :: string
  at_module :: string
  at_fn :: string

type_synonym async_registry = "(string, async_tool) pydict"
type_synonym sandbox = "string \<Rightarrow> string \<Rightarrow> string \<Rightarrow> tool_result"

definition async_register :: "async_tool \<Rightarrow> async_registry \<Rightarrow> async_registry" where
  "async_register t reg = dset reg (at_name t) t"

definition async_call :: "sandbox \<Rightarrow> async_registry \<Rightarrow> pyval \<times> string \<Rightarrow> tool_result result" where
  "async_call sandbox_run reg = (\<lambda>(name, arg).
     rmap (\<lambda>entry.
       case entry of
         None \<Rightarrow> \<lparr>tr_name = py_str name, tr_success = False,
                  tr_result = ''unknown tool '' @ quoted (py_str name) @ ''. Available: '' @ str_join '', '' (dkeys reg),
                  tr_duration = 0\<rparr>
       | Some t \<Rightarrow> (sandbox_run (at_module t) (at_fn t) arg)\<lparr>tr_name := py_str name\<rparr>)
       (key_lookup reg name))"

text \<open>The first exception of a task is raised by \<open>gather\<close>.\<close>

definition call_parallel :: "sandbox \<Rightarrow> async_registry \<Rightarrow> (pyval \<times> string) list \<Rightarrow> tool_result list result" where
  "call_parallel sandbox_run reg calls =
     rfold (\<lambda>c acc. rmap (\<lambda>r. acc @ [r]) (async_call sandbox_run reg c)) calls []"

definition async_descriptions :: "async_registry \<Rightarrow> string" where
  "async_descriptions reg =
     str_join [line_feed] (map (\<lambda>t. ''  '' @ at_name t @ '': '' @ at_description t) (dvals reg))"

definition async_default_registry :: async_registry where
  "async_default_registry =
     async_register \<lparr>at_name = ''current_time'', at_description = ''Return the current UTC time'',
         at_module = ''src.tools'', at_fn = ''current_time''\<rparr>
      (async_register \<lparr>at_name = ''search'', at_description = ''Search for information on a topic'',
         at_module = ''src.tools'', at_fn = ''search''\<rparr>
       (async_register \<lparr>at_name = ''calculator'', at_description = ''Evaluate arithmetic expressions'',
         at_module = ''src.tools'', at_fn = ''calculator''\<rparr> []))"

section \<open>Memory\<close>

definition max_recent_turns :: nat where
  "max_recent_turns = 5"

record turn =
  role :: string
  content :: string

record memory =
  recent :: "turn list"
  summary :: string

definition new_memory :: memory where
  "new_memory = \<lparr>recent = [], summary = []\<rparr>"

definition summarize_oldest :: "(turn list \<Rightarrow> string) \<Rightarrow> memory \<Rightarrow> memory" where
  "summarize_oldest summarizer m =
     (let oldest = take (length (recent m) - max_recent_turns) (recent m);
          kept = drop (length (recent m) - max_recent_turns) (recent m);
          new_summary = summarizer oldest
      in \<lparr>recent = kept,
          summary = (if summary m \<noteq> [] then summary m @ [line_feed] @ new_summary else new_summary)\<rparr>)"

definition memory_add :: "(turn list \<Rightarrow> string) \<Rightarrow> string \<Rightarrow> string \<Rightarrow> memory \<Rightarrow> memory" where
  "memory_add summarizer r c m =
     (let m1 = m\<lparr>recent := recent m @ [\<lparr>role = r, content = c\<rparr>]\<rparr>
      in if max_recent_turns < length (recent m1) then summarize_oldest summarizer m1 else m1)"

definition str_capitalize :: "string \<Rightarrow> string" where
  "str_capitalize s = (case s of [] \<Rightarrow> [] | c # cs \<Rightarrow> upper_char c # str_lower cs)"

definition to_prompt_context :: "memory \<Rightarrow> string" where
  "to_prompt_context m =
     str_join [line_feed]
       ((if summary m \<noteq> [] then [''[Summary of earlier conversation]'' @ [line_feed] @ summary m] else []) @
        map (\<lambda>t. str_capitalize (role t) @ '': '' @ content t) (recent m))"

text \<open>\<open>content[:120]\<close>, on content of ASCII characters.\<close>

definition default_summarizer :: "turn list \<Rightarrow> string" where
  "default_summarizer turns = ''Earlier: '' @ str_join '' | '' (map (\<lambda>t. role t @ '': '' @ take 120 (content t)) turns)"

section \<open>Parallel calls\<close>

definition encode_args :: "pyval \<Rightarrow> string" where
  "encode_args raw_args =
     (case raw_args of PDict d \<Rightarrow> json_dumps True False (PDict d) | PStr s \<Rightarrow> s | v \<Rightarrow> py_str v)"

fun all_calls :: "(string \<Rightarrow> pyval result) \<Rightarrow> string list \<Rightarrow> (pyval \<times> string) list result" where
  "all_calls loads [] = Inr []"
| "all_calls loads (m # ms) =
     (case loads m of
        Inl e \<Rightarrow> all_calls loads ms
      | Inr obj \<Rightarrow>
          rbind (py_get obj ''function'' (PDict [])) (\<lambda>func.
          rbind (py_get func ''name'' (PStr [])) (\<lambda>name.
          rbind (py_get func ''arguments'' (PStr ''{}'')) (\<lambda>raw_args.
            rmap (\<lambda>rest. if truthy name then (name, encode_args raw_args) # rest else rest) (all_calls loads ms)))))"

definition parse_all_function_calls :: "(string \<Rightarrow> pyval result) \<Rightarrow> string \<Rightarrow> (pyval \<times> string) list result" where
  "parse_all_function_calls loads txt = all_calls loads (find_calls txt)"

section \<open>The agent\<close>

definition async_system_prompt :: "string \<Rightarrow> string" where
  "async_system_prompt tool_descriptions =
     (let q = [CHR 0x22] in
      concat (map (\<lambda>l. l @ [line_feed])
       [''You are a helpful assistant with access to tools.'', [], ''Tools:'', tool_descriptions, [],
        ''To call one or more tools, output JSON function call objects (one per line):'',
        ''  {'' @ q @ ''type'' @ q @ '':'' @ q @ ''function'' @ q @ '','' @ q @ ''function'' @ q @ '':{'' @
          q @ ''name'' @ q @ '':'' @ q @ ''<tool>'' @ q @ '','' @ q @ ''arguments'' @ q @ '':'' @ q @ ''<json-arg-string>'' @ q @ ''}}'',
        [], ''Multiple calls on separate lines execute in parallel.'',
        ''After observations, continue reasoning or write: Final Answer: <answer>'']))"

definition remember :: "(turn list \<Rightarrow> string) \<Rightarrow> string \<Rightarrow> string \<Rightarrow> memory option \<Rightarrow> memory option" where
  "remember summarizer r c mem = map_option (memory_add summarizer r c) mem"

fun async_loop ::
  "sandbox \<Rightarrow> async_registry \<Rightarrow> (turn list \<Rightarrow> string) \<Rightarrow> (string \<Rightarrow> pyval result) \<Rightarrow> 's llm \<Rightarrow> nat \<Rightarrow> string \<Rightarrow>
   nat \<Rightarrow> string \<Rightarrow> memory option \<Rightarrow> 's \<Rightarrow> string result \<times> memory option \<times> 's"
where
  "async_loop sb reg summarizer loads llm max_steps query 0 history mem s =
     (Inl (max_steps_exceeded ''AsyncAgent'' max_steps), mem, s)"
| "async_loop sb reg summarizer loads llm max_steps query (Suc n) history mem s =
     (let ctx = (case mem of None \<Rightarrow> [] | Some m \<Rightarrow> to_prompt_context m);
          prompt = str_strip (async_system_prompt (async_descriptions reg) @ [line_feed, line_feed] @ ctx @
                     [line_feed] @ ''Question: '' @ query @ [line_feed] @ history)
      in case llm prompt s of
           (Inl e, s') \<Rightarrow> (Inl e, mem, s')
         | (Inr out, s') \<Rightarrow>
             (case parse_final_answer out of
                Some answer \<Rightarrow> (Inr answer, remember summarizer ''assistant'' answer mem, s')
              | None \<Rightarrow>
                  (case parse_all_function_calls loads out of
                     Inl e \<Rightarrow> (Inl e, mem, s')
                   | Inr [] \<Rightarrow> (Inr (str_strip out), remember summarizer ''assistant'' (str_strip out) mem, s')
                   | Inr calls \<Rightarrow>
                       (case call_parallel sb reg calls of
                          Inl e \<Rightarrow> (Inl e, mem, s')
                        | Inr results \<Rightarrow>
                            (let obs = str_join [line_feed] (map to_observation results)
                             in async_loop sb reg summarizer loads llm max_steps query n
                                  (history @ out @ [line_feed] @ ''Observation: '' @ obs @ [line_feed])
                                  (remember summarizer ''observation'' obs (remember summarizer ''assistant'' out mem)) s')))))"

definition async_run ::
  "sandbox \<Rightarrow> async_registry \<Rightarrow> (turn list \<Rightarrow> string) \<Rightarrow> (string \<Rightarrow> pyval result) \<Rightarrow> 's llm \<Rightarrow> nat \<Rightarrow> string \<Rightarrow>
   memory option \<Rightarrow> 's \<Rightarrow> string result \<times> memory option \<times> 's"
where
  "async_run sb reg summarizer loads llm max_steps query mem s =
     async_loop sb reg summarizer loads llm max_steps query max_steps []
       (remember summarizer ''user'' query mem) s"

section \<open>The facade\<close>

text \<open>
  \<open>agent.py\<close>: the mode chooses the backend; \<open>run\<close> serves the two synchronous ones. An \<open>llm_fn\<close> that
  was not given answers \<open>(no LLM configured)\<close>.
\<close>

datatype agent_mode = ReactMode | FunctionMode "cost_guard option" | AsyncMode "memory option"

definition dummy_llm :: "'s llm" where
  "dummy_llm prompt s = (Inr ''Final Answer: (no LLM configured)'', s)"

definition new_agent :: "string \<Rightarrow> int option \<Rightarrow> bool \<Rightarrow> agent_mode result" where
  "new_agent mode max_tokens with_memory =
     (if mode = ''react'' then Inr ReactMode
      else if mode = ''function''
      then Inr (FunctionMode (case max_tokens of
                                Some n \<Rightarrow> if n = 0 then None else Some \<lparr>max_budget = n, token_count = 0\<rparr>
                              | None \<Rightarrow> None))
      else if mode = ''async'' then Inr (AsyncMode (if with_memory then Some new_memory else None))
      else Inl (ValueError (''Unknown mode '' @ quoted mode @ ''. Choose: react, function, async'')))"

record 's agent_env =
  env_eval :: "string \<Rightarrow> string result"
  env_now :: string
  env_loads :: "string \<Rightarrow> pyval result"
  env_sandbox :: sandbox
  env_llm :: "'s llm option"
  env_max_steps :: nat

definition env_ask :: "'s agent_env \<Rightarrow> 's llm" where
  "env_ask env = (case env_llm env of Some f \<Rightarrow> f | None \<Rightarrow> dummy_llm)"

definition agent_run :: "'s agent_env \<Rightarrow> agent_mode \<Rightarrow> string \<Rightarrow> 's \<Rightarrow> string result \<times> agent_mode \<times> 's" where
  "agent_run env mode query s =
     (case mode of
        ReactMode \<Rightarrow>
          (case react_run (react_default_registry (env_eval env) (env_now env)) (env_ask env) (env_max_steps env) query s of
             (r, s') \<Rightarrow> (r, mode, s'))
      | FunctionMode guard \<Rightarrow>
          (case fc_run (fc_default_registry (env_eval env) (env_now env)) (env_loads env) (env_ask env) (env_max_steps env)
                  query \<lparr>fc_guard = guard, fc_events = [], fc_llm = s\<rparr> of
             (r, st) \<Rightarrow> (r, FunctionMode (fc_guard st), fc_llm st))
      | AsyncMode _ \<Rightarrow> (Inl (RuntimeError (''Use run_async() for mode='' @ quoted ''async'')), mode, s))"

definition agent_run_async :: "'s agent_env \<Rightarrow> agent_mode \<Rightarrow> string \<Rightarrow> 's \<Rightarrow> string result \<times> agent_mode \<times> 's" where
  "agent_run_async env mode query s =
     (case mode of
        AsyncMode mem \<Rightarrow>
          (case async_run (env_sandbox env) async_default_registry default_summarizer (env_loads env) (env_ask env)
                  (env_max_steps env) query mem s of
             (r, mem', s') \<Rightarrow> (r, AsyncMode mem', s'))
      | _ \<Rightarrow> (Inl (RuntimeError (''run_async() requires mode='' @ quoted ''async'')), mode, s))"

section \<open>What the memory keeps\<close>

definition add_turn :: "(turn list \<Rightarrow> string) \<Rightarrow> turn \<Rightarrow> memory \<Rightarrow> memory" where
  "add_turn summarizer t m = memory_add summarizer (role t) (content t) m"

text \<open>The summary of the turns that left the window, one by one.\<close>

definition summary_of :: "(turn list \<Rightarrow> string) \<Rightarrow> turn list \<Rightarrow> string" where
  "summary_of summarizer ts =
     fold (\<lambda>t acc. if acc \<noteq> [] then acc @ [line_feed] @ summarizer [t] else summarizer [t]) ts []"

lemma turn_eta: "\<lparr>role = role t, content = content t\<rparr> = (t :: turn)"
  by (cases t) simp

lemma memory_add_window:
  assumes "recent m = drop (length ts - max_recent_turns) ts"
    and "summary m = summary_of summarizer (take (length ts - max_recent_turns) ts)"
  shows "recent (add_turn summarizer t m) = drop (length (ts @ [t]) - max_recent_turns) (ts @ [t])
       \<and> summary (add_turn summarizer t m) = summary_of summarizer (take (length (ts @ [t]) - max_recent_turns) (ts @ [t]))"
proof (cases "length ts < max_recent_turns")
  case True
  then show ?thesis
    using assms by (simp add: add_turn_def memory_add_def summary_of_def turn_eta)
next
  case False
  define k where "k = length ts - max_recent_turns"
  from False have k: "length ts = k + max_recent_turns" by (simp add: k_def)
  then have nth: "drop k ts = ts ! k # drop (k + 1) ts" and tk: "take (k + 1) ts = take k ts @ [ts ! k]"
    by (simp_all add: Cons_nth_drop_Suc take_Suc_conv_app_nth max_recent_turns_def)
  have r: "recent m = drop k ts" and sm: "summary m = summary_of summarizer (take k ts)"
    using assms by (simp_all only: k_def)
  have len: "length (recent m @ [t]) = max_recent_turns + 1" using k by (simp add: r)
  have "summarize_oldest summarizer (m\<lparr>recent := recent m @ [t]\<rparr>) =
      \<lparr>recent = drop (k + 1) ts @ [t],
       summary = (if summary m \<noteq> [] then summary m @ [line_feed] @ summarizer [ts ! k] else summarizer [ts ! k])\<rparr>"
    using len nth by (simp add: summarize_oldest_def r)
  then have "add_turn summarizer t m =
      \<lparr>recent = drop (k + 1) ts @ [t],
       summary = (if summary m \<noteq> [] then summary m @ [line_feed] @ summarizer [ts ! k] else summarizer [ts ! k])\<rparr>"
    using len by (simp add: add_turn_def memory_add_def turn_eta)
  moreover have "length (ts @ [t]) - max_recent_turns = k + 1" using k by simp
  moreover have "k + 1 - length ts = 0" using k by (simp add: max_recent_turns_def)
  ultimately show ?thesis using k tk by (simp add: summary_of_def sm max_recent_turns_def)
qed

lemma memory_window:
  "recent (fold (add_turn summarizer) ts new_memory) = drop (length ts - max_recent_turns) ts
   \<and> summary (fold (add_turn summarizer) ts new_memory) = summary_of summarizer (take (length ts - max_recent_turns) ts)"
proof (induction ts rule: rev_induct)
  case Nil
  then show ?case by (simp add: new_memory_def summary_of_def)
next
  case (snoc t ts)
  from memory_add_window [OF snoc [THEN conjunct1] snoc [THEN conjunct2], of t] show ?case by simp
qed

section \<open>What the parser of calls can find\<close>

text \<open>A text between braces that has no inner brace decodes to an object without nested objects.\<close>

definition loads_flat :: "(string \<Rightarrow> pyval result) \<Rightarrow> bool" where
  "loads_flat loads \<longleftrightarrow>
     (\<forall>body v. (\<forall>c \<in> set body. no_brace c) \<longrightarrow> loads ([CHR ''{''] @ body @ [CHR ''}'']) = Inr v \<longrightarrow>
        (\<exists>d. v = PDict d \<and> (\<forall>k e. dget d k \<noteq> Some (PDict e))))"

lemma find_calls_flat:
  "m \<in> set (find_calls s) \<Longrightarrow> \<exists>body. m = [CHR ''{''] @ body @ [CHR ''}''] \<and> (\<forall>c \<in> set body. no_brace c)"
proof (induction s rule: find_calls.induct)
  case (2 c s)
  then show ?case by (auto simp: Let_def split: if_splits dest: set_takeWhileD)
qed simp

lemma get_function_flat:
  assumes "\<forall>k e. dget d k \<noteq> Some (PDict e)"
  shows "dget d ''function'' = None \<or>
     (\<exists>v. py_get (PDict d) ''function'' (PDict []) = Inr v \<and> py_get v ''name'' (PStr []) = Inl (no_attribute v ''get''))"
proof (cases "dget d ''function''")
  case (Some v)
  then show ?thesis using assms by (cases v) (auto simp: dget_or_def py_get_def)
qed simp

lemma first_call_flat:
  assumes "loads_flat loads" and "\<forall>m \<in> set ms. \<exists>body. m = [CHR ''{''] @ body @ [CHR ''}''] \<and> (\<forall>c \<in> set body. no_brace c)"
  shows "first_call loads ms = Inr None \<or> (\<exists>v. first_call loads ms = Inl (no_attribute v ''get''))"
  using assms(2)
proof (induction ms)
  case (Cons m ms)
  show ?case
  proof (cases "loads m")
    case (Inl e)
    with Cons show ?thesis by simp
  next
    case (Inr obj)
    then obtain d where d: "obj = PDict d" "\<forall>k e. dget d k \<noteq> Some (PDict e)"
      using assms(1) Cons.prems unfolding loads_flat_def by (metis list.set_intros(1))
    from get_function_flat [OF d(2)] show ?thesis using Cons Inr d(1) by (auto simp: dget_or_def)
  qed
qed simp

lemma all_calls_flat:
  assumes "loads_flat loads" and "\<forall>m \<in> set ms. \<exists>body. m = [CHR ''{''] @ body @ [CHR ''}''] \<and> (\<forall>c \<in> set body. no_brace c)"
  shows "all_calls loads ms = Inr [] \<or> (\<exists>v. all_calls loads ms = Inl (no_attribute v ''get''))"
  using assms(2)
proof (induction ms)
  case (Cons m ms)
  show ?case
  proof (cases "loads m")
    case (Inl e)
    with Cons show ?thesis by simp
  next
    case (Inr obj)
    then obtain d where d: "obj = PDict d" "\<forall>k e. dget d k \<noteq> Some (PDict e)"
      using assms(1) Cons.prems unfolding loads_flat_def by (metis list.set_intros(1))
    from get_function_flat [OF d(2)] show ?thesis using Cons Inr d(1) by (auto simp: dget_or_def)
  qed
qed simp

lemma no_call_parsed:
  assumes "loads_flat loads"
  shows "parse_function_call loads txt = Inr None \<or> (\<exists>v. parse_function_call loads txt = Inl (no_attribute v ''get''))"
    and "parse_all_function_calls loads txt = Inr [] \<or> (\<exists>v. parse_all_function_calls loads txt = Inl (no_attribute v ''get''))"
  unfolding parse_function_call_def parse_all_function_calls_def
  using first_call_flat [OF assms] all_calls_flat [OF assms] find_calls_flat by blast+

text \<open>\<open>json.loads\<close> has this property.\<close>

lemma dget_foldl_dset: "dget (foldl (\<lambda>m (k, v). dset m k v) m kvs) k = Some v \<Longrightarrow> (k, v) \<in> set kvs \<or> dget m k = Some v"
  by (induction kvs arbitrary: m) (force split: if_splits)+

lemma json_loads_flat: "loads_flat (json_loads fr)"
  unfolding loads_flat_def
proof (intro allI impI)
  fix body v
  assume nb: "\<forall>c\<in>set body. no_brace c" and l: "json_loads fr ([CHR ''{''] @ body @ [CHR ''}'']) = Inr v"
  let ?s = "CHR ''{'' # body @ [CHR ''}'']"
  obtain r where sc: "scan_once fr (Suc (2 * length ?s)) ?s = Inr (v, r)"
    using l by (auto simp: json_loads_def skip_ws_def json_space_def result_simps json_error_def simp del: scan_once.simps split: if_splits)
  obtain d t where d: "skip_ws (body @ [CHR ''}'']) = d # t"
    using sc by (cases "skip_ws (body @ [CHR ''}''])") (auto simp: json_error_def)
  show "\<exists>d. v = PDict d \<and> (\<forall>k e. dget d k \<noteq> Some (PDict e))"
  proof (cases "d = CHR ''}''")
    case True
    with sc d show ?thesis by auto
  next
    case False
    with sc d obtain kvs where o: "json_object fr (2 * length ?s) (d # t) = Inr (kvs, r)"
      and v: "v = PDict (foldl (\<lambda>m (k, v). dset m k v) [] kvs)"
      by (auto simp: result_simps)
    have "CHR ''{'' \<notin> set (d # t)"
      using set_mono_suffix [OF skip_ws_suffix [of "body @ [CHR ''}'']"]] nb unfolding d by (auto simp: no_brace_def)
    from json_object_flat [OF o this] have "\<forall>(k, v)\<in>set kvs. not_dict v" by (simp add: list_all_iff)
    then show ?thesis unfolding v by (auto simp: not_dict_def dest!: dget_foldl_dset)
  qed
qed

end
