(* ===== verification/AgentProperties.thy ===== *)
theory AgentProperties
  imports AgentAsync
begin

text \<open>
  The properties of the agent framework (\<open>labs/agent-framework\<close>): how a ReAct run ends, what the memory
  keeps, what the token budget guarantees, and that the function-calling agents call no tool.
\<close>

section \<open>The ReAct loop\<close>

text \<open>C19: A ReAct run makes \<open>k \<le> max_steps\<close> tool calls, each in answer to an LLM output that is an action,
  with all earlier outputs and observations in its prompt. It ends with \<open>MaxStepsExceeded\<close> exactly
  when \<open>k = max_steps\<close>; otherwise the next output ends it: its final answer, the output itself when it
  is neither an answer nor an action, or the exception of the LLM. A tool that raises never ends it.\<close>

theorem react_run_outcome:
  "\<exists>turns s1. react_steps reg llm query s turns s1 \<and> length turns \<le> max_steps \<and>
     (if length turns = max_steps
      then react_run reg llm max_steps query s = (Inl (max_steps_exceeded ''Agent'' max_steps), s1)
      else react_stops (fst (react_ask reg llm query turns s1)) \<and>
           react_run reg llm max_steps query s =
             (react_answer (fst (react_ask reg llm query turns s1)), snd (react_ask reg llm query turns s1)))"
  unfolding react_run_def
  using react_loop_outcome [OF react_steps.start, of reg llm query s max_steps max_steps,
      unfolded react_history_Nil list.size add_0] .

section \<open>Memory and budget\<close>

text \<open>After any conversation the memory holds its last five turns verbatim and the summary of the
  earlier ones, each summarized as it left the window, in order.\<close>

theorem memory_keeps_last_turns:
  "recent (fold (\<lambda>t. memory_add summarizer (role t) (content t)) ts new_memory) = drop (length ts - 5) ts
   \<and> summary (fold (\<lambda>t. memory_add summarizer (role t) (content t)) ts new_memory)
       = fold (\<lambda>t acc. if acc \<noteq> [] then acc @ [line_feed] @ summarizer [t] else summarizer [t])
           (take (length ts - 5) ts) []"
  using memory_window [of summarizer ts]
  by (simp add: add_turn_def [abs_def] summary_of_def max_recent_turns_def)

lemma guard_check_ok:
  assumes "guard_check t g = (r, g1)"
  shows "max_budget g1 = max_budget g \<and> token_count g \<le> token_count g1 \<and>
     (r = Inr () \<longrightarrow> token_count g1 \<le> max_budget g1)"
  using assms by (auto simp: guard_check_def guard_add_def count_tokens_def Let_def split: if_splits)

lemma fc_ask_guard:
  assumes "fc_ask llm prompt st = (r, st1)" and "fc_guard st = Some g"
  shows "\<exists>g1. fc_guard st1 = Some g1 \<and> max_budget g1 = max_budget g \<and> token_count g \<le> token_count g1 \<and>
     (\<forall>out. r = Inr out \<longrightarrow> token_count g1 \<le> max_budget g1)"
proof -
  obtain r1 g1 where 1: "guard_check prompt g = (r1, g1)" by (metis surj_pair)
  obtain o1 s1 where l: "llm prompt (fc_llm st) = (o1, s1)" by (metis surj_pair)
  show ?thesis
  proof (cases "isl r1 \<or> isl o1")
    case True
    with assms 1 l guard_check_ok [OF 1] show ?thesis
      by (cases r1; cases o1) (auto simp: fc_ask_def check_opt_def)
  next
    case False
    then obtain out where o: "r1 = Inr ()" "o1 = Inr out" by (cases r1; cases o1) auto
    obtain r2 g2 where 2: "guard_check out g1 = (r2, g2)" by (metis surj_pair)
    with assms 1 l o guard_check_ok [OF 1] guard_check_ok [OF 2] show ?thesis
      by (cases r2) (auto simp: fc_ask_def check_opt_def)
  qed
qed

lemma emit_guard [simp]: "fc_guard (emit evs st) = fc_guard st"
  by (simp add: emit_def)

lemma fc_loop_budget:
  assumes "fc_loop reg loads llm m n messages st = (Inr ans, st')" and "fc_guard st = Some g"
  shows "\<exists>g1. fc_guard st' = Some g1 \<and> max_budget g1 = max_budget g \<and> token_count g \<le> token_count g1 \<and>
     token_count g1 \<le> max_budget g1"
  using assms
proof (induction n arbitrary: messages st g)
  case (Suc n)
  obtain r st1 where a: "fc_ask llm (str_join [line_feed] messages) st = (r, st1)" by (metis surj_pair)
  with Suc.prems(1) obtain out where out: "r = Inr out" by (cases r) auto
  obtain g1 where g1: "fc_guard st1 = Some g1" "max_budget g1 = max_budget g" "token_count g \<le> token_count g1"
      "token_count g1 \<le> max_budget g1" using fc_ask_guard [OF a Suc.prems(2)] out by auto
  show ?case
  proof (cases "\<exists>name args obs. parse_final_answer out = None \<and>
      parse_function_call loads out = Inr (Some (name, args)) \<and> fc_call reg name args = Inr obs")
    case False
    then have "fc_guard st' = Some g1"
      using Suc.prems(1) a out g1(1) by (auto simp: Let_def split: option.splits sum.splits)
    with g1 show ?thesis by simp
  next
    case True
    then obtain name args obs where c: "parse_final_answer out = None"
      "parse_function_call loads out = Inr (Some (name, args))" "fc_call reg name args = Inr obs" by blast
    define st3 where "st3 = emit [OnObservation obs] (emit [OnAction name args] (emit (thought_of out) st1))"
    have "fc_loop reg loads llm m n (messages @ [''Assistant: '' @ out, ''Observation: '' @ obs]) st3 = (Inr ans, st')"
      using Suc.prems(1) a out c by (simp add: Let_def st3_def)
    moreover have "fc_guard st3 = Some g1" using g1(1) by (simp add: st3_def)
    ultimately obtain g2 where "fc_guard st' = Some g2" "max_budget g2 = max_budget g1"
        "token_count g1 \<le> token_count g2" "token_count g2 \<le> max_budget g2"
      using Suc.IH by blast
    with g1 show ?thesis by simp
  qed
qed simp

text \<open>A run of the function-calling agent that returns an answer has stayed within its token budget:
  prompts and outputs are only ever added to the count, and the final count is at most the maximum.\<close>

theorem fc_run_within_budget:
  assumes "fc_run reg loads llm max_steps query st = (Inr answer, st')" and "fc_guard st = Some g"
  shows "\<exists>g'. fc_guard st' = Some g' \<and> max_budget g' = max_budget g \<and> token_count g \<le> token_count g' \<and>
     token_count g' \<le> max_budget g'"
  using fc_loop_budget [OF assms(1) [unfolded fc_run_def] assms(2)] .

theorem fc_run_within_budget_witness:
  "\<exists>g'. fc_guard (snd (fc_run [] (\<lambda>_. Inl (ValueError [])) dummy_llm 3 ''q''
        \<lparr>fc_guard = Some \<lparr>max_budget = 1000, token_count = 0\<rparr>, fc_events = [], fc_llm = ()\<rparr>)) = Some g'
     \<and> token_count g' \<le> 1000"
proof -
  let ?st = "\<lparr>fc_guard = Some \<lparr>max_budget = 1000, token_count = 0\<rparr>, fc_events = [], fc_llm = ()\<rparr>"
  have "\<not> isl (fst (fc_run [] (\<lambda>_. Inl (ValueError [])) dummy_llm 3 ''q'' ?st))" by code_simp
  then obtain answer st' where r: "fc_run [] (\<lambda>_. Inl (ValueError [])) dummy_llm 3 ''q'' ?st = (Inr answer, st')"
    by (cases "fc_run [] (\<lambda>_. Inl (ValueError [])) dummy_llm 3 ''q'' ?st"; cases "fst (fc_run [] (\<lambda>_. Inl (ValueError [])) dummy_llm 3 ''q'' ?st)") auto
  from fc_run_within_budget [OF r] r show ?thesis by auto
qed

section \<open>Function calls\<close>

definition no_action :: "fc_event list \<Rightarrow> bool" where
  "no_action evs \<longleftrightarrow> (\<forall>e \<in> set evs. case e of OnAction _ _ \<Rightarrow> False | _ \<Rightarrow> True)"

lemma thought_no_action: "no_action (thought_of out)"
  by (simp add: no_action_def thought_of_def Let_def)

text \<open>C20: The pattern of a function call allows no nested brace, so no call in the documented format is
  ever found: the function-calling agent reports no action, and its run does not depend on what its
  tools do, only on the names and descriptions in its prompt.\<close>

theorem function_calls_never_made:
  assumes "system_prompt_section reg = system_prompt_section reg'"
  shows "fc_run reg (json_loads fr) llm max_steps query st = fc_run reg' (json_loads fr) llm max_steps query st \<and>
     (\<exists>evs. fc_events (snd (fc_run reg (json_loads fr) llm max_steps query st)) = fc_events st @ evs \<and> no_action evs)"
proof (cases max_steps)
  case 0
  then show ?thesis by (simp add: fc_run_def no_action_def)
next
  case (Suc n)
  let ?msgs = "[''System: '' @ fc_system_prompt reg, ''User: '' @ query]"
  have eq: "fc_system_prompt reg' = fc_system_prompt reg" using assms by (simp add: fc_system_prompt_def)
  obtain r st1 where a: "fc_ask llm (str_join [line_feed] ?msgs) st = (r, st1)" by (metis surj_pair)
  have ev: "fc_events st1 = fc_events st"
    using a by (auto simp: fc_ask_def split: prod.splits sum.splits)
  have "fc_loop reg (json_loads fr) llm max_steps (Suc n) ?msgs st = fc_loop reg' (json_loads fr) llm max_steps (Suc n) ?msgs st \<and>
     (\<exists>evs. fc_events (snd (fc_loop reg (json_loads fr) llm max_steps (Suc n) ?msgs st)) = fc_events st @ evs \<and> no_action evs)"
  proof (cases r)
    case (Inl e)
    with a ev show ?thesis by (simp add: no_action_def)
  next
    case (Inr out)
    show ?thesis
    proof (cases "parse_final_answer out")
      case (Some ans)
      with a Inr ev show ?thesis by (simp add: no_action_def emit_def)
    next
      case None
      note t = thought_no_action [of out]
      from no_call_parsed(1) [OF json_loads_flat, of fr out] show ?thesis
        using a Inr None ev t by (auto simp: emit_def no_action_def Let_def)
    qed
  qed
  then show ?thesis unfolding fc_run_def eq Suc .
qed

theorem function_calls_never_made_witness:
  "fc_run (fc_default_registry (\<lambda>e. Inr ''4'') ''now'') (json_loads (\<lambda>s. s))
       dummy_llm 3 ''q'' \<lparr>fc_guard = None, fc_events = [], fc_llm = ()\<rparr>
   = fc_run (fc_default_registry (\<lambda>e. Inl (ValueError ''no'')) ''later'') (json_loads (\<lambda>s. s))
       dummy_llm 3 ''q'' \<lparr>fc_guard = None, fc_events = [], fc_llm = ()\<rparr>"
proof -
  have same: "system_prompt_section (fc_default_registry (\<lambda>e. Inr ''4'') ''now'')
      = system_prompt_section (fc_default_registry (\<lambda>e. Inl (ValueError ''no'')) ''later'')"
    by (simp add: system_prompt_section_def fc_default_registry_def fc_register_def dvals_def)
  from function_calls_never_made [OF same, of "\<lambda>s. s"] show ?thesis by blast
qed

end
