(* ===== verification/EmbCache.thy ===== *)
theory EmbCache
  imports Complex_Main PyValue Lru
begin

text \<open>
  \<open>embedding-pipeline/src/v0_single.py\<close> and \<open>v1_batched.py\<close>: the single-model server, the LRU cache, the
  batching queue and its worker thread. The model is a parameter (\<open>model_encode\<close>, from a list of texts
  to a list of embeddings, or the exception it raised), \<open>sha\<close> is SHA-256 of a text in hexadecimal.
  A \<open>Future\<close> is an index into the list of futures. How many requests arrive before the deadline of a
  drain is the parameter \<open>k\<close> of the worker step.
\<close>

section \<open>The single-model server\<close>

record model_info =
  mi_name :: string
  mi_dimension :: nat
  mi_loaded_at :: real

record 'm single_server =
  ss_model_name :: string
  ss_model :: "'m option"
  ss_info :: "model_info option"

definition new_single_server :: "string \<Rightarrow> 'm single_server" where
  "new_single_server name = \<lparr>ss_model_name = name, ss_model = None, ss_info = None\<rparr>"

definition single_load ::
  "(string \<Rightarrow> 'm result) \<Rightarrow> real \<Rightarrow> 'm single_server \<Rightarrow> unit result \<times> 'm single_server" where
  "single_load load_model now s =
     (case load_model (ss_model_name s) of
        Inl x \<Rightarrow> (Inl x, s)
      | Inr m \<Rightarrow> (Inr (), s\<lparr>ss_model := Some m,
                            ss_info := Some \<lparr>mi_name = ss_model_name s, mi_dimension = 384, mi_loaded_at = now\<rparr>\<rparr>))"

definition not_loaded :: py_exn where
  "not_loaded = RuntimeError (''Model not loaded '' @ em_dash @ '' call load() first'')"

text \<open>Floating-point numbers are real numbers here; the rounding to 32 bits is not modelled.\<close>

type_synonym embedding = "real list"

definition dot :: "embedding \<Rightarrow> embedding \<Rightarrow> real" where
  "dot x y = (\<Sum>(a, b)\<leftarrow>zip x y. a * b)"

definition l2_row :: "embedding \<Rightarrow> embedding" where
  "l2_row v = (let n = sqrt (\<Sum>a\<leftarrow>v. a\<^sup>2); n = (if n = 0 then 1 else n) in map (\<lambda>a. a / n) v)"

definition encode :: "('m \<Rightarrow> string list \<Rightarrow> embedding list result) \<Rightarrow> 'm \<Rightarrow> string list \<Rightarrow> embedding list result" where
  "encode model_encode model texts =
     (if texts = [] then Inr [] else rmap (\<lambda>raw. map l2_row raw) (model_encode model texts))"

definition cosine_similarity :: "embedding \<Rightarrow> embedding \<Rightarrow> real result" where
  "cosine_similarity a b =
     (if length a = length b then Inr (dot a b) else Inl (ValueError ''shapes not aligned''))"

definition single_embed ::
  "('m \<Rightarrow> string list \<Rightarrow> embedding list result) \<Rightarrow> 'm single_server \<Rightarrow> string list \<Rightarrow> embedding list result" where
  "single_embed model_encode s texts =
     (case ss_model s of None \<Rightarrow> Inl not_loaded | Some model \<Rightarrow> encode model_encode model texts)"

definition single_model_info :: "'m single_server \<Rightarrow> model_info result" where
  "single_model_info s = (case ss_info s of None \<Rightarrow> Inl not_loaded | Some i \<Rightarrow> Inr i)"

definition single_health :: "'m single_server \<Rightarrow> pyval" where
  "single_health s = PDict [(''status'', PStr ''ok''), (''model'', PStr (ss_model_name s)),
                            (''loaded'', PBool (ss_model s \<noteq> None))]"

section \<open>The cache\<close>

record 'e ecache =
  ec_max_size :: int
  ec_items :: "(string, 'e) pydict"
  ec_hits :: nat
  ec_misses :: nat

definition new_ecache :: "int \<Rightarrow> 'e ecache" where
  "new_ecache max_size = \<lparr>ec_max_size = max_size, ec_items = [], ec_hits = 0, ec_misses = 0\<rparr>"

definition ec_get :: "(string \<Rightarrow> string) \<Rightarrow> string \<Rightarrow> 'e ecache \<Rightarrow> 'e option \<times> 'e ecache" where
  "ec_get sha txt c =
     (case dget (ec_items c) (sha txt) of
        Some e \<Rightarrow> (Some e, c\<lparr>ec_items := dmove_end (ec_items c) (sha txt), ec_hits := ec_hits c + 1\<rparr>)
      | None \<Rightarrow> (None, c\<lparr>ec_misses := ec_misses c + 1\<rparr>))"

definition ec_put :: "(string \<Rightarrow> string) \<Rightarrow> string \<Rightarrow> 'e \<Rightarrow> 'e ecache \<Rightarrow> 'e ecache" where
  "ec_put sha txt e c =
     (let moved = (if dhas (ec_items c) (sha txt) then dmove_end (ec_items c) (sha txt) else ec_items c);
          items = dset moved (sha txt) e
      in c\<lparr>ec_items := (if ec_max_size c < int (length items) then tl items else items)\<rparr>)"

definition hit_rate :: "'e ecache \<Rightarrow> rat" where
  "hit_rate c =
     (let total = ec_hits c + ec_misses c in if 0 < total then of_nat (ec_hits c) / of_nat total else 0)"

record cache_stats =
  cs_size :: nat
  cs_max_size :: int
  cs_hits :: nat
  cs_misses :: nat
  cs_hit_rate :: rat

definition ec_stats :: "'e ecache \<Rightarrow> cache_stats" where
  "ec_stats c = \<lparr>cs_size = length (ec_items c), cs_max_size = ec_max_size c, cs_hits = ec_hits c,
                 cs_misses = ec_misses c, cs_hit_rate = hit_rate c\<rparr>"

section \<open>The queue and the worker\<close>

datatype 'e future = Waiting | Cancelled | Done 'e | Failed py_exn

record pending =
  pq_text :: string
  pq_future :: nat

record 'e bqueue =
  bq_max_batch :: int
  bq_items :: "pending list"
  bq_futures :: "'e future list"

definition new_bqueue :: "int \<Rightarrow> 'e bqueue" where
  "new_bqueue max_batch = \<lparr>bq_max_batch = max_batch, bq_items = [], bq_futures = []\<rparr>"

definition bq_put :: "string \<Rightarrow> 'e bqueue \<Rightarrow> nat \<times> 'e bqueue" where
  "bq_put txt q =
     (length (bq_futures q),
      q\<lparr>bq_items := bq_items q @ [\<lparr>pq_text = txt, pq_future = length (bq_futures q)\<rparr>],
        bq_futures := bq_futures q @ [Waiting]\<rparr>)"

text \<open>The first request and then, up to the batch size, the \<open>k\<close> that come before the deadline.\<close>

definition drain :: "nat \<Rightarrow> 'e bqueue \<Rightarrow> pending list \<times> 'e bqueue" where
  "drain k q =
     (let n = max 1 (min (k + 1) (nat (bq_max_batch q)))
      in (take n (bq_items q), q\<lparr>bq_items := drop n (bq_items q)\<rparr>))"

text \<open>Setting the results in order; a row that is missing raises after the earlier futures were set.\<close>

fun set_results :: "pending list \<Rightarrow> 'e list \<Rightarrow> 'e future list \<Rightarrow> py_exn option \<times> 'e future list" where
  "set_results [] rows futs = (None, futs)"
| "set_results (r # rs) rows futs =
     (if futs ! pq_future r = Cancelled then set_results rs (drop 1 rows) futs
      else case rows of
             [] \<Rightarrow> (Some (IndexError ''index is out of bounds''), futs)
           | e # _ \<Rightarrow>
               if futs ! pq_future r \<noteq> Waiting then (Some (OtherError ''InvalidStateError''), futs)
               else set_results rs (drop 1 rows) (futs[pq_future r := Done e]))"

definition set_exceptions :: "py_exn \<Rightarrow> pending list \<Rightarrow> 'e future list \<Rightarrow> 'e future list" where
  "set_exceptions x batch futs =
     fold (\<lambda>r futs. if futs ! pq_future r = Waiting then futs[pq_future r := Failed x] else futs) batch futs"

definition worker_step :: "(string list \<Rightarrow> 'e list result) \<Rightarrow> nat \<Rightarrow> 'e bqueue \<Rightarrow> 'e bqueue" where
  "worker_step enc k q =
     (let (batch, q1) = drain k q
      in if batch = [] then q1
         else case enc (map pq_text batch) of
                Inl x \<Rightarrow> q1\<lparr>bq_futures := set_exceptions x batch (bq_futures q1)\<rparr>
              | Inr rows \<Rightarrow>
                  (case set_results batch rows (bq_futures q1) of
                     (None, futs) \<Rightarrow> q1\<lparr>bq_futures := futs\<rparr>
                   | (Some x, futs) \<Rightarrow> q1\<lparr>bq_futures := set_exceptions x batch futs\<rparr>))"

section \<open>The batched server\<close>

record ('m, 'e) bserver =
  bs_single :: "'m single_server"
  bs_queue :: "'e bqueue"
  bs_cache :: "'e ecache"

definition new_bserver :: "string \<Rightarrow> int \<Rightarrow> int \<Rightarrow> ('m, 'e) bserver" where
  "new_bserver name max_batch cache_size =
     \<lparr>bs_single = new_single_server name, bs_queue = new_bqueue max_batch, bs_cache = new_ecache cache_size\<rparr>"

text \<open>Loading the model; the worker thread it starts is the \<open>worker_step\<close>s of the calls below.\<close>

definition bs_load ::
  "(string \<Rightarrow> 'm result) \<Rightarrow> real \<Rightarrow> ('m, 'e) bserver \<Rightarrow> unit result \<times> ('m, 'e) bserver" where
  "bs_load load_model now s =
     (case single_load load_model now (bs_single s) of (r, single) \<Rightarrow> (r, s\<lparr>bs_single := single\<rparr>))"

text \<open>The first loop of \<open>embed\<close>: for each text its cached embedding, or the future that will hold it.\<close>

fun lookup_all ::
  "(string \<Rightarrow> string) \<Rightarrow> string list \<Rightarrow> 'e ecache \<Rightarrow> 'e bqueue \<Rightarrow> ('e + nat) list \<times> 'e ecache \<times> 'e bqueue" where
  "lookup_all sha [] c q = ([], c, q)"
| "lookup_all sha (t # ts) c q =
     (case ec_get sha t c of
        (Some e, c1) \<Rightarrow> (case lookup_all sha ts c1 q of (slots, c2, q2) \<Rightarrow> (Inl e # slots, c2, q2))
      | (None, c1) \<Rightarrow>
          (case bq_put t q of
             (f, q1) \<Rightarrow> (case lookup_all sha ts c1 q1 of (slots, c2, q2) \<Rightarrow> (Inr f # slots, c2, q2))))"

text \<open>\<open>future.result(timeout=30.0)\<close>.\<close>

definition future_result :: "'e future list \<Rightarrow> nat \<Rightarrow> 'e result" where
  "future_result futs f =
     (case futs ! f of
        Done e \<Rightarrow> Inr e
      | Failed x \<Rightarrow> Inl x
      | Cancelled \<Rightarrow> Inl (OtherError ''CancelledError'')
      | Waiting \<Rightarrow> Inl (OtherError ''TimeoutError''))"

text \<open>The second loop: the results of the futures, each put into the cache as it comes.\<close>

fun collect ::
  "(string \<Rightarrow> string) \<Rightarrow> 'e future list \<Rightarrow> string list \<Rightarrow> ('e + nat) list \<Rightarrow> 'e ecache \<Rightarrow> 'e list result \<times> 'e ecache" where
  "collect sha futs (t # ts) (Inl e # slots) c =
     (case collect sha futs ts slots c of (r, c') \<Rightarrow> (rmap (\<lambda>es. e # es) r, c'))"
| "collect sha futs (t # ts) (Inr f # slots) c =
     (case future_result futs f of
        Inl x \<Rightarrow> (Inl x, c)
      | Inr e \<Rightarrow>
          (case collect sha futs ts slots (ec_put sha t e c) of (r, c') \<Rightarrow> (rmap (\<lambda>es. e # es) r, c')))"
| "collect sha futs ts slots c = (Inr [], c)"

text \<open>One call of \<open>embed\<close>, with the worker running the drains \<open>ks\<close> while it waits.\<close>

definition bs_embed ::
  "(string \<Rightarrow> string) \<Rightarrow> ('m \<Rightarrow> string list \<Rightarrow> embedding list result) \<Rightarrow> nat list \<Rightarrow> string list \<Rightarrow>
    ('m, embedding) bserver \<Rightarrow> embedding list result \<times> ('m, embedding) bserver" where
  "bs_embed sha model_encode ks texts s =
     (if texts = [] then (Inr [], s)
      else case lookup_all sha texts (bs_cache s) (bs_queue s) of
             (slots, c, q) \<Rightarrow>
               (let q' = fold (worker_step (single_embed model_encode (bs_single s))) ks q
                in case collect sha (bq_futures q') texts slots c of
                     (r, c') \<Rightarrow> (r, s\<lparr>bs_cache := c', bs_queue := q'\<rparr>)))"

definition bs_cache_stats :: "('m, 'e) bserver \<Rightarrow> cache_stats" where
  "bs_cache_stats s = ec_stats (bs_cache s)"

definition bs_health :: "('m, 'e) bserver \<Rightarrow> pyval \<times> cache_stats" where
  "bs_health s = (single_health (bs_single s), bs_cache_stats s)"

section \<open>The cache is an LRU pool\<close>

definition ecache_ok :: "'e ecache \<Rightarrow> bool" where
  "ecache_ok c \<longleftrightarrow> dwf (ec_items c) \<and> 1 \<le> ec_max_size c \<and> int (length (ec_items c)) \<le> ec_max_size c"

lemma dset_existing_keys: "dhas d k \<Longrightarrow> dkeys (dset d k v) = dkeys d"
  by (simp add: dhas_def dkeys_dset)

lemma dmove_end_keys: "dhas d k \<Longrightarrow> dwf d \<Longrightarrow> dkeys (dmove_end d k) = filter (\<lambda>x. x \<noteq> k) (dkeys d) @ [k]"
  by (auto simp: dkeys_dmove_end dhas_def)

lemma ec_put_keys:
  assumes "ecache_ok c"
  shows "dkeys (ec_items (ec_put sha t e c)) = lru_touch (nat (ec_max_size c)) (dkeys (ec_items c)) (sha t)"
    and "ecache_ok (ec_put sha t e c)" and "ec_max_size (ec_put sha t e c) = ec_max_size c"
    and "ec_hits (ec_put sha t e c) = ec_hits c \<and> ec_misses (ec_put sha t e c) = ec_misses c"
proof -
  let ?d = "ec_items c" and ?k = "sha t"
  have wf: "dwf ?d" and sz: "1 \<le> ec_max_size c" "int (length ?d) \<le> ec_max_size c"
    using assms by (simp_all add: ecache_ok_def)
  have "dkeys (ec_items (ec_put sha t e c)) = lru_touch (nat (ec_max_size c)) (dkeys ?d) ?k \<and>
     ecache_ok (ec_put sha t e c)"
  proof (cases "dhas ?d ?k")
    case True
    define d1 where "d1 = dset (dmove_end ?d ?k) ?k e"
    have k: "dkeys d1 = filter (\<lambda>x. x \<noteq> ?k) (dkeys ?d) @ [?k]"
      unfolding d1_def using dmove_end_keys [OF True wf] by (subst dset_existing_keys) (auto simp: dhas_def)
    have "dkeys d1 = dkeys (dmove_end ?d ?k)"
      unfolding d1_def using True by (subst dset_existing_keys) (auto simp: dhas_def)
    then have "length (dkeys d1) = length (dkeys ?d)" using length_dmove_end [OF wf, of ?k] by simp
    then have "length d1 = length ?d" by simp
    then have p: "ec_put sha t e c = c\<lparr>ec_items := d1\<rparr>"
      using True sz by (simp add: ec_put_def Let_def d1_def [symmetric])
    have "dwf d1" using wf k by (simp add: dwf_def)
    then show ?thesis using True p k sz \<open>length d1 = length ?d\<close> by (simp add: lru_touch_def dhas_def ecache_ok_def)
  next
    case False
    define d1 where "d1 = ?d @ [(?k, e)]"
    have d1: "dset ?d ?k e = d1" using False by (simp add: d1_def dset_new dhas_def)
    have wf1: "dwf d1" using wf False by (simp add: dwf_def d1_def dhas_def)
    show ?thesis
    proof (cases "ec_max_size c < int (length d1)")
      case True
      then have full: "nat (ec_max_size c) \<le> length ?d" "?d \<noteq> []" using sz by (auto simp: d1_def)
      have "ec_put sha t e c = c\<lparr>ec_items := tl d1\<rparr>" using False True d1 by (simp add: ec_put_def Let_def)
      moreover have "dwf (tl d1)" using wf1 by (simp add: dwf_def dkeys_def map_tl distinct_tl)
      ultimately show ?thesis
        using False full sz by (cases ?d) (auto simp: lru_touch_def dhas_def ecache_ok_def d1_def)
    next
      case no: False
      then have "\<not> nat (ec_max_size c) \<le> length ?d" using sz by (simp add: d1_def)
      moreover have "ec_put sha t e c = c\<lparr>ec_items := d1\<rparr>" using False no d1 by (simp add: ec_put_def Let_def)
      ultimately show ?thesis
        using False no wf1 sz by (auto simp: lru_touch_def dhas_def ecache_ok_def d1_def)
    qed
  qed
  then show "dkeys (ec_items (ec_put sha t e c)) = lru_touch (nat (ec_max_size c)) (dkeys ?d) ?k"
    and "ecache_ok (ec_put sha t e c)" by simp_all
  show "ec_max_size (ec_put sha t e c) = ec_max_size c"
    and "ec_hits (ec_put sha t e c) = ec_hits c \<and> ec_misses (ec_put sha t e c) = ec_misses c"
    by (simp_all add: ec_put_def Let_def)
qed

interpretation ec: lru_pool "\<lambda>c. nat (ec_max_size c)" "\<lambda>c. dkeys (ec_items c)" "\<lambda>(t, e). sha t" "\<lambda>(t, e). ec_put sha t e"
    ecache_ok
  for sha
proof unfold_locales
  fix c :: "'b ecache" and x :: "string \<times> 'b" assume ok: "ecache_ok c"
  obtain t e where x: "x = (t, e)" by (cases x)
  show "dkeys (ec_items ((case x of (t, e) \<Rightarrow> ec_put sha t e) c))
      = lru_touch (nat (ec_max_size c)) (dkeys (ec_items c)) (case x of (t, e) \<Rightarrow> sha t)"
    and "nat (ec_max_size ((case x of (t, e) \<Rightarrow> ec_put sha t e) c)) = nat (ec_max_size c)"
    and "ecache_ok ((case x of (t, e) \<Rightarrow> ec_put sha t e) c)"
    using ec_put_keys [OF ok, of sha t e] by (simp_all add: x)
  show "0 < nat (ec_max_size c)" using ok by (simp add: ecache_ok_def)
qed

section \<open>What the worker does to the queue\<close>

definition waiting_all :: "'e bqueue \<Rightarrow> bool" where
  "waiting_all q \<longleftrightarrow> distinct (map pq_future (bq_items q)) \<and>
     (\<forall>r\<in>set (bq_items q). pq_future r < length (bq_futures q) \<and> bq_futures q ! pq_future r = Waiting)"

definition batch_size :: "'e bqueue \<Rightarrow> nat \<Rightarrow> nat" where
  "batch_size q k = max 1 (min (k + 1) (nat (bq_max_batch q)))"

definition resolve :: "(string \<Rightarrow> 'e) \<Rightarrow> pending list \<Rightarrow> 'e future list \<Rightarrow> 'e future list" where
  "resolve f rs futs = fold (\<lambda>r futs. futs[pq_future r := Done (f (pq_text r))]) rs futs"

lemma resolve_simps [simp]:
  "resolve f [] futs = futs"
  "resolve f (r # rs) futs = resolve f rs (futs[pq_future r := Done (f (pq_text r))])"
  "resolve f (rs @ ts) futs = resolve f ts (resolve f rs futs)"
  by (simp_all add: resolve_def)

lemma length_resolve [simp]: "length (resolve f rs futs) = length futs"
  by (induction rs arbitrary: futs) auto

lemma resolve_other: "i \<notin> pq_future ` set rs \<Longrightarrow> resolve f rs futs ! i = futs ! i"
  by (induction rs arbitrary: futs) auto

lemma resolve_at:
  "distinct (map pq_future rs) \<Longrightarrow> r \<in> set rs \<Longrightarrow> pq_future r < length futs \<Longrightarrow>
   resolve f rs futs ! pq_future r = Done (f (pq_text r))"
  by (induction rs arbitrary: futs) (auto simp: resolve_other)

lemma set_results_rows:
  assumes "distinct (map pq_future rs)" and "\<forall>r\<in>set rs. pq_future r < length futs \<and> futs ! pq_future r = Waiting"
  shows "set_results rs (map (\<lambda>r. f (pq_text r)) rs) futs = (None, resolve f rs futs)"
  using assms
proof (induction rs arbitrary: futs)
  case (Cons r rs)
  have "set_results rs (map (\<lambda>r. f (pq_text r)) rs) (futs[pq_future r := Done (f (pq_text r))])
      = (None, resolve f rs (futs[pq_future r := Done (f (pq_text r))]))"
    by (rule Cons.IH) (use Cons.prems in \<open>auto simp: nth_list_update image_iff\<close>)
  then show ?case using Cons.prems by simp
qed simp

lemma worker_step_rows:
  assumes q: "waiting_all q" and enc: "\<And>ts. enc ts = Inr (map f ts)"
    and n: "n = batch_size q k"
  shows "worker_step enc k q =
     q\<lparr>bq_items := drop n (bq_items q), bq_futures := resolve f (take n (bq_items q)) (bq_futures q)\<rparr>"
proof -
  let ?b = "take n (bq_items q)"
  have "set_results ?b (map (\<lambda>r. f (pq_text r)) ?b) (bq_futures q) = (None, resolve f ?b (bq_futures q))"
    by (rule set_results_rows)
      (use q in \<open>auto simp: waiting_all_def take_map [symmetric] distinct_take dest: in_set_takeD\<close>)
  moreover have "drain k q = (?b, q\<lparr>bq_items := drop n (bq_items q)\<rparr>)"
    by (simp add: drain_def n batch_size_def Let_def)
  ultimately show ?thesis by (cases "?b = []") (auto simp: worker_step_def enc comp_def)
qed

lemma waiting_all_worker:
  assumes "waiting_all q"
  shows "waiting_all (q\<lparr>bq_items := drop n (bq_items q), bq_futures := resolve f (take n (bq_items q)) (bq_futures q)\<rparr>)"
proof -
  let ?qs = "bq_items q"
  have d: "distinct (map pq_future (take n ?qs) @ map pq_future (drop n ?qs))"
    using assms by (simp add: waiting_all_def flip: map_append)
  have "bq_futures q ! pq_future r = Waiting \<and> pq_future r < length (bq_futures q) \<and> pq_future r \<notin> pq_future ` set (take n ?qs)"
    if "r \<in> set (drop n ?qs)" for r
    using that assms d in_set_dropD [OF that] by (auto simp: waiting_all_def)
  then show ?thesis using d by (simp add: waiting_all_def resolve_other)
qed

text \<open>Any run of the worker answers the requests in the order of the queue, whatever the batches.\<close>

lemma worker_run:
  assumes "waiting_all q" and enc: "\<And>ts. enc ts = Inr (map f ts)"
  shows "fold (worker_step enc) ks q =
     q\<lparr>bq_items := drop (\<Sum>k\<leftarrow>ks. batch_size q k) (bq_items q),
       bq_futures := resolve f (take (\<Sum>k\<leftarrow>ks. batch_size q k) (bq_items q)) (bq_futures q)\<rparr>"
  using assms(1)
proof (induction ks arbitrary: q)
  case (Cons k ks)
  define q1 where "q1 = q\<lparr>bq_items := drop (batch_size q k) (bq_items q),
      bq_futures := resolve f (take (batch_size q k) (bq_items q)) (bq_futures q)\<rparr>"
  have step: "worker_step enc k q = q1" unfolding q1_def by (rule worker_step_rows [OF Cons.prems enc refl])
  have "waiting_all q1" unfolding q1_def by (rule waiting_all_worker [OF Cons.prems])
  note IH = Cons.IH [OF this]
  have "batch_size q1 = batch_size q" by (rule ext) (simp add: q1_def batch_size_def)
  with IH show ?case by (simp add: step) (simp add: q1_def take_add add.commute)
qed simp

lemma worker_run_all:
  assumes "waiting_all q" and "\<And>ts. enc ts = Inr (map f ts)" and "length (bq_items q) \<le> (\<Sum>k\<leftarrow>ks. batch_size q k)"
  shows "fold (worker_step enc) ks q = q\<lparr>bq_items := [], bq_futures := resolve f (bq_items q) (bq_futures q)\<rparr>"
  using worker_run [OF assms(1,2), where ks = ks] assms(3) by simp

end
