(* ===== verification/EmbSession.thy ===== *)
theory EmbSession
  imports EmbCache
begin

text \<open>
  Sequences of \<open>embed\<close> calls of \<open>embedding-pipeline/src/v1_batched.py\<close> against the row-wise model
  they are meant to implement: the cache, the queue and the batches the worker forms must not show.
\<close>

definition cache_right :: "(string \<Rightarrow> 'e) \<Rightarrow> (string \<Rightarrow> string) \<Rightarrow> string set \<Rightarrow> 'e ecache \<Rightarrow> bool" where
  "cache_right f sha T c \<longleftrightarrow>
     dwf (ec_items c) \<and> (\<forall>t\<in>T. \<forall>e. dget (ec_items c) (sha t) = Some e \<longrightarrow> e = f t)"

definition slot_right :: "(string \<Rightarrow> 'e) \<Rightarrow> pending list \<Rightarrow> string \<Rightarrow> 'e + nat \<Rightarrow> bool" where
  "slot_right f rs t slot =
     (case slot of Inl e \<Rightarrow> e = f t | Inr g \<Rightarrow> (\<exists>r\<in>set rs. pq_text r = t \<and> pq_future r = g))"

lemma cache_right_new [intro]: "cache_right f sha T (new_ecache n)"
  by (simp add: cache_right_def new_ecache_def)

lemma ec_get_right:
  assumes "cache_right f sha T c" and "ec_get sha t c = (r, c')"
  shows "cache_right f sha T c'" and "t \<in> T \<Longrightarrow> r = Some e \<Longrightarrow> e = f t"
  using assms by (auto simp: cache_right_def ec_get_def split: option.splits)

lemma dget_tl: "dwf d \<Longrightarrow> dget (tl d) k = Some v \<Longrightarrow> dget d k = Some v"
  by (cases d) (auto simp: dwf_Cons dest: dget_Some_key)

lemma dwf_tl: "dwf d \<Longrightarrow> dwf (tl d)"
  by (cases d) (auto simp: dwf_Cons)

lemma ec_put_right:
  assumes c: "cache_right f sha T c" and t: "t \<in> T" and inj: "inj_on sha T"
  shows "cache_right f sha T (ec_put sha t (f t) c)"
proof -
  define d where "d = dset (if dhas (ec_items c) (sha t) then dmove_end (ec_items c) (sha t) else ec_items c) (sha t) (f t)"
  have wf: "dwf d" using c by (auto simp: d_def cache_right_def)
  have right: "e = f u" if "u \<in> T" "dget d (sha u) = Some e" for u e
    using that c t inj by (auto simp: d_def cache_right_def dest: inj_onD split: if_splits)
  have "ec_items (ec_put sha t (f t) c) = d \<or> ec_items (ec_put sha t (f t) c) = tl d"
    by (simp add: ec_put_def d_def Let_def)
  with wf right show ?thesis by (auto simp: cache_right_def dwf_tl dest: dget_tl)
qed

lemma waiting_all_put:
  assumes "waiting_all q" and "bq_put t q = (g, q')"
  shows "waiting_all q'" and "bq_items q' = bq_items q @ [\<lparr>pq_text = t, pq_future = g\<rparr>]"
    and "bq_max_batch q' = bq_max_batch q"
proof -
  have q': "q' = q\<lparr>bq_items := bq_items q @ [\<lparr>pq_text = t, pq_future = length (bq_futures q)\<rparr>],
      bq_futures := bq_futures q @ [Waiting]\<rparr>" and g: "g = length (bq_futures q)"
    using assms(2) by (auto simp: bq_put_def)
  have old: "pq_future r < length (bq_futures q)" "bq_futures q ! pq_future r = Waiting" if "r \<in> set (bq_items q)" for r
    using that assms(1) by (simp_all add: waiting_all_def)
  have "length (bq_futures q) \<notin> pq_future ` set (bq_items q)" using old(1) by force
  then show "waiting_all q'" using assms(1) old by (auto simp: waiting_all_def q' nth_append less_SucI)
  show "bq_items q' = bq_items q @ [\<lparr>pq_text = t, pq_future = g\<rparr>]" and "bq_max_batch q' = bq_max_batch q"
    by (simp_all add: q' g)
qed

lemma lookup_all_right:
  assumes "cache_right f sha T c" and "waiting_all q" and "set ts \<subseteq> T" and "lookup_all sha ts c q = (slots, c', q')"
  shows "cache_right f sha T c' \<and> waiting_all q' \<and> bq_max_batch q' = bq_max_batch q \<and>
    (\<exists>new. bq_items q' = bq_items q @ new \<and> length new \<le> length ts) \<and> list_all2 (slot_right f (bq_items q')) ts slots"
  using assms
proof (induction ts arbitrary: c q slots)
  case (Cons t ts)
  obtain r c1 where get: "ec_get sha t c = (r, c1)" by force
  note g = ec_get_right [OF Cons.prems(1) get]
  have ts: "set ts \<subseteq> T" "t \<in> T" using Cons.prems by auto
  show ?case
  proof (cases r)
    case (Some e)
    with Cons.prems get obtain ss where l: "lookup_all sha ts c1 q = (ss, c', q')" and s: "slots = Inl e # ss"
      by (auto split: prod.splits)
    from Cons.IH [OF g(1) Cons.prems(2) ts(1) l] g(2) [OF ts(2) Some] s show ?thesis
      by (auto simp: slot_right_def)
  next
    case None
    obtain i q1 where put: "bq_put t q = (i, q1)" by force
    from Cons.prems get None put obtain ss where l: "lookup_all sha ts c1 q1 = (ss, c', q')" and s: "slots = Inr i # ss"
      by (auto split: prod.splits)
    note p = waiting_all_put [OF Cons.prems(2) put]
    from Cons.IH [OF g(1) p(1) ts(1) l] p s show ?thesis by (auto simp: slot_right_def)
  qed
qed auto

lemma collect_right:
  assumes "list_all2 (slot_right f rs) ts slots" and "\<forall>r\<in>set rs. futs ! pq_future r = Done (f (pq_text r))"
    and "cache_right f sha T c" and "set ts \<subseteq> T" and inj: "inj_on sha T"
  shows "\<exists>c'. collect sha futs ts slots c = (Inr (map f ts), c') \<and> cache_right f sha T c'"
  using assms(1-4)
proof (induction arbitrary: c rule: list_all2_induct)
  case Nil
  then show ?case by simp
next
  case (Cons t ts slot slots)
  have ts: "set ts \<subseteq> T" "t \<in> T" using Cons.prems by auto
  show ?case
  proof (cases slot)
    case (Inl e)
    with Cons.hyps(1) Cons.IH [OF Cons.prems(1,2) ts(1)] show ?thesis by (auto simp: slot_right_def rmap_def)
  next
    case (Inr g)
    with Cons.hyps(1) Cons.prems(1) have "futs ! g = Done (f t)" by (auto simp: slot_right_def)
    with Inr Cons.IH [OF Cons.prems(1) ec_put_right [OF Cons.prems(2) ts(2) inj] ts(1)] show ?thesis
      by (auto simp: future_result_def rmap_def)
  qed
qed

section \<open>A whole session\<close>

text \<open>The server between two calls: nothing waits in the queue, and the cache tells the truth.\<close>

definition bserver_right :: "(string \<Rightarrow> 'e) \<Rightarrow> (string \<Rightarrow> string) \<Rightarrow> string set \<Rightarrow> ('m, 'e) bserver \<Rightarrow> bool" where
  "bserver_right f sha T s \<longleftrightarrow>
     cache_right f sha T (bs_cache s) \<and> bq_items (bs_queue s) = [] \<and> ss_model (bs_single s) \<noteq> None"

text \<open>The drains \<open>ks\<close> the worker makes during a call have room for its texts.\<close>

definition room :: "int \<Rightarrow> nat list \<Rightarrow> nat" where
  "room max_batch ks = (\<Sum>k\<leftarrow>ks. max 1 (min (k + 1) (nat max_batch)))"

fun bs_session ::
  "(string \<Rightarrow> string) \<Rightarrow> ('m \<Rightarrow> string list \<Rightarrow> embedding list result) \<Rightarrow> (nat list \<times> string list) list \<Rightarrow>
    ('m, embedding) bserver \<Rightarrow> embedding list result list" where
  "bs_session sha model_encode [] s = []"
| "bs_session sha model_encode ((ks, texts) # calls) s =
     (case bs_embed sha model_encode ks texts s of (r, s') \<Rightarrow> r # bs_session sha model_encode calls s')"

lemma single_embed_rows:
  "ss_model s \<noteq> None \<Longrightarrow> \<forall>m ts. model_encode m ts = Inr (map raw ts) \<Longrightarrow> single_embed model_encode s ts = Inr (map (l2_row \<circ> raw) ts)"
  by (auto simp: single_embed_def encode_def rmap_def)

lemma bs_embed_right:
  assumes s: "bserver_right f sha T s" and rows: "\<forall>m ts. model_encode m ts = Inr (map raw ts)"
    and T: "set texts \<subseteq> T" and inj: "inj_on sha T"
    and room: "length texts \<le> room (bq_max_batch (bs_queue s)) ks"
    and f: "f = l2_row \<circ> raw"
  shows "\<exists>s'. bs_embed sha model_encode ks texts s = (Inr (map f texts), s') \<and> bserver_right f sha T s' \<and>
     bq_max_batch (bs_queue s') = bq_max_batch (bs_queue s)"
proof (cases "texts = []")
  case True
  then show ?thesis using s by (simp add: bs_embed_def)
next
  case False
  let ?enc = "single_embed model_encode (bs_single s)"
  obtain slots c q where l: "lookup_all sha texts (bs_cache s) (bs_queue s) = (slots, c, q)" by (metis prod_cases3)
  have w: "waiting_all (bs_queue s)" using s by (simp add: bserver_right_def waiting_all_def)
  have cs: "cache_right f sha T (bs_cache s)" using s by (simp add: bserver_right_def)
  note look = lookup_all_right [OF cs w T l]
  have items: "length (bq_items q) \<le> length texts" using look s by (auto simp: bserver_right_def)
  have "length (bq_items q) \<le> (\<Sum>k\<leftarrow>ks. batch_size q k)"
    using items room look by (simp add: room_def batch_size_def)
  then have run: "fold (worker_step ?enc) ks q = q\<lparr>bq_items := [], bq_futures := resolve f (bq_items q) (bq_futures q)\<rparr>"
    using s look by (intro worker_run_all) (auto simp: bserver_right_def single_embed_rows [OF _ rows] f)
  have "\<forall>r\<in>set (bq_items q). resolve f (bq_items q) (bq_futures q) ! pq_future r = Done (f (pq_text r))"
    using look by (auto simp: waiting_all_def intro: resolve_at)
  from collect_right [OF _ this _ T inj] look obtain c' where
    "collect sha (resolve f (bq_items q) (bq_futures q)) texts slots c = (Inr (map f texts), c')"
    "cache_right f sha T c'" by blast
  then show ?thesis using False l run s look by (simp add: bs_embed_def bserver_right_def)
qed

lemma bs_session_right:
  assumes "bserver_right f sha T s" and "\<forall>m ts. model_encode m ts = Inr (map raw ts)"
    and "\<forall>(ks, texts)\<in>set calls. set texts \<subseteq> T \<and> length texts \<le> room (bq_max_batch (bs_queue s)) ks" and "inj_on sha T"
    and f: "f = l2_row \<circ> raw"
  shows "bs_session sha model_encode calls s = map (\<lambda>(ks, texts). Inr (map f texts)) calls"
  using assms(1,3)
proof (induction calls arbitrary: s)
  case (Cons call calls)
  obtain ks texts where call: "call = (ks, texts)" by (cases call)
  with Cons.prems have "set texts \<subseteq> T" "length texts \<le> room (bq_max_batch (bs_queue s)) ks" by auto
  from bs_embed_right [OF Cons.prems(1) assms(2) this(1) assms(4) this(2) f] obtain s' where
    "bs_embed sha model_encode ks texts s = (Inr (map f texts), s')" "bserver_right f sha T s'"
    "bq_max_batch (bs_queue s') = bq_max_batch (bs_queue s)" by blast
  with Cons.IH [of s'] Cons.prems(2) call show ?case by simp
qed simp

lemma bserver_right_loaded:
  assumes "load_model name = Inr m"
  shows "bserver_right f sha T (snd (bs_load load_model now (new_bserver name max_batch cache_size)))"
    and "bq_max_batch (bs_queue (snd (bs_load load_model now (new_bserver name max_batch cache_size)))) = max_batch"
  using assms
  by (auto simp: bserver_right_def bs_load_def new_bserver_def single_load_def new_bqueue_def new_single_server_def)

end
