(* ===== verification/EmbVersions.thy ===== *)
theory EmbVersions
  imports EmbCache PyJson
begin

text \<open>
  \<open>embedding-pipeline/src/v2_versioned.py\<close>: the registry of model versions, the drift measures, the pins
  of callers to versions, and the server that resolves a version for each request. Times are real
  numbers; one operation reads the clock once (\<open>now\<close>). \<open>load_model\<close> and \<open>model_encode\<close> are
  the library's; \<open>argsort\<close> is \<open>numpy.argsort\<close> (the order of equal entries is its own).
\<close>

section \<open>The registry\<close>

record model_version =
  mv_name :: string
  mv_version :: string
  mv_dimension :: nat
  mv_loaded_at :: real

type_synonym 'm model_registry = "(string, 'm \<times> model_version) pydict"

text \<open>\<open>shape[1]\<close> of a matrix of embeddings; \<open>encode\<close> gives no texts a matrix of 0 by 384.\<close>

definition shape1 :: "embedding list \<Rightarrow> nat" where
  "shape1 rows = (case rows of [] \<Rightarrow> 384 | row # _ \<Rightarrow> length row)"

definition register_model ::
  "(string \<Rightarrow> 'm result) \<Rightarrow> ('m \<Rightarrow> string list \<Rightarrow> embedding list result) \<Rightarrow> real \<Rightarrow> string \<Rightarrow> string \<Rightarrow>
    'm model_registry \<Rightarrow> model_version result \<times> 'm model_registry" where
  "register_model load_model model_encode now version name reg =
     (case load_model name of
        Inl x \<Rightarrow> (Inl x, reg)
      | Inr m \<Rightarrow>
          (case model_encode m [''probe''] of
             Inl x \<Rightarrow> (Inl x, reg)
           | Inr probe \<Rightarrow>
               (let meta = \<lparr>mv_name = name, mv_version = version, mv_dimension = shape1 probe, mv_loaded_at = now\<rparr>
                in (Inr meta, dset reg version (m, meta)))))"

definition get_model :: "'m model_registry \<Rightarrow> string \<Rightarrow> 'm result" where
  "get_model reg version =
     (case dget reg version of
        None \<Rightarrow> Inl (KeyError (''Version '' @ py_repr (PStr version) @ '' not registered. Available: '' @
                             py_repr (PList (map PStr (dkeys reg)))))
      | Some (m, _) \<Rightarrow> Inr m)"

definition get_version_meta :: "'m model_registry \<Rightarrow> string \<Rightarrow> model_version result" where
  "get_version_meta reg version =
     (case dget reg version of
        None \<Rightarrow> Inl (KeyError (''Version '' @ py_repr (PStr version) @ '' not registered.''))
      | Some (_, meta) \<Rightarrow> Inr meta)"

definition list_versions :: "'m model_registry \<Rightarrow> model_version list" where
  "list_versions reg = map snd (dvals reg)"

definition has_version :: "'m model_registry \<Rightarrow> string \<Rightarrow> bool" where
  "has_version reg version = dhas reg version"

definition reg_embed ::
  "('m \<Rightarrow> string list \<Rightarrow> embedding list result) \<Rightarrow> 'm model_registry \<Rightarrow> string list \<Rightarrow> string \<Rightarrow> embedding list result" where
  "reg_embed model_encode reg texts version =
     rbind (get_model reg version) (\<lambda>m. encode model_encode m texts)"

section \<open>Drift\<close>

definition mean :: "real list \<Rightarrow> real" where
  "mean xs = sum_list xs / real (length xs)"

definition clip_distance :: "real \<Rightarrow> real" where
  "clip_distance d = min 2 (max 0 d)"

text \<open>\<open>einsum\<close> wants matrices of the same shape.\<close>

definition same_shape :: "embedding list \<Rightarrow> embedding list \<Rightarrow> bool" where
  "same_shape a b \<longleftrightarrow> length a = length b \<and> list_all2 (\<lambda>x y. length x = length y) a b"

definition measure_drift ::
  "('m \<Rightarrow> string list \<Rightarrow> embedding list result) \<Rightarrow> 'm model_registry \<Rightarrow> string list \<Rightarrow> string \<Rightarrow> string \<Rightarrow> real result" where
  "measure_drift model_encode reg texts version_a version_b =
     (if texts = [] then Inr 0
      else rbind (reg_embed model_encode reg texts version_a) (\<lambda>emb_a.
           rbind (reg_embed model_encode reg texts version_b) (\<lambda>emb_b.
             if same_shape emb_a emb_b
             then Inr (mean (map2 (\<lambda>x y. clip_distance (1 - dot x y)) emb_a emb_b))
             else Inl (ValueError ''operands could not be broadcast together''))))"

text \<open>The distances of text \<open>i\<close> to the texts, \<open>None\<close> (infinitely far) to itself.\<close>

definition top_k :: "(real option list \<Rightarrow> nat list) \<Rightarrow> nat \<Rightarrow> embedding list \<Rightarrow> nat list list" where
  "top_k argsort k emb =
     map (\<lambda>i. take k (argsort (map (\<lambda>j. if i = j then None else Some (- dot (emb ! i) (emb ! j))) [0..<length emb])))
       [0..<length emb]"

definition neighbour_overlap ::
  "(real option list \<Rightarrow> nat list) \<Rightarrow> ('m \<Rightarrow> string list \<Rightarrow> embedding list result) \<Rightarrow> 'm model_registry \<Rightarrow>
    string list \<Rightarrow> string \<Rightarrow> string \<Rightarrow> nat \<Rightarrow> real result" where
  "neighbour_overlap argsort model_encode reg texts version_a version_b k =
     (if length texts \<le> k
      then Inl (ValueError (''need more than k='' @ nat_str k @ '' texts, got '' @ nat_str (length texts)))
      else rbind (reg_embed model_encode reg texts version_a) (\<lambda>emb_a.
           rbind (reg_embed model_encode reg texts version_b) (\<lambda>emb_b.
             if k = 0 then Inl (OtherError ''division by zero'')
             else Inr (mean (map2 (\<lambda>a b. real (card (set a \<inter> set b)) / real k)
                              (top_k argsort k emb_a) (top_k argsort k emb_b))))))"

definition is_compatible ::
  "('m \<Rightarrow> string list \<Rightarrow> embedding list result) \<Rightarrow> 'm model_registry \<Rightarrow> string \<Rightarrow> string \<Rightarrow> string list \<Rightarrow> real \<Rightarrow> bool result" where
  "is_compatible model_encode reg version_a version_b probe_texts threshold =
     rbind (get_version_meta reg version_a) (\<lambda>meta_a.
     rbind (get_version_meta reg version_b) (\<lambda>meta_b.
       if mv_name meta_a \<noteq> mv_name meta_b \<or> mv_dimension meta_a \<noteq> mv_dimension meta_b then Inr False
       else rmap (\<lambda>drift. threshold \<le> 1 - drift) (measure_drift model_encode reg probe_texts version_a version_b)))"

section \<open>Pins\<close>

record pin_policy =
  pp_caller_id :: string
  pp_version :: string
  pp_pinned_until :: real

definition is_active :: "real \<Rightarrow> pin_policy \<Rightarrow> bool" where
  "is_active now p \<longleftrightarrow> now < pp_pinned_until p"

definition resolve_version :: "real \<Rightarrow> pin_policy \<Rightarrow> string \<Rightarrow> string" where
  "resolve_version now p default_version = (if is_active now p then pp_version p else default_version)"

type_synonym pin_registry = "(string, pin_policy) pydict"

definition pin_caller :: "string \<Rightarrow> string \<Rightarrow> real \<Rightarrow> pin_registry \<Rightarrow> pin_policy \<times> pin_registry" where
  "pin_caller caller version until pins =
     (let policy = \<lparr>pp_caller_id = caller, pp_version = version, pp_pinned_until = until\<rparr>
      in (policy, dset pins caller policy))"

definition resolve_pin :: "real \<Rightarrow> pin_registry \<Rightarrow> string \<Rightarrow> string \<Rightarrow> string" where
  "resolve_pin now pins caller default_version =
     (case dget pins caller of
        None \<Rightarrow> default_version
      | Some policy \<Rightarrow> resolve_version now policy default_version)"

text \<open>A listed pin: the policy and whether it is active.\<close>

definition list_pins :: "real \<Rightarrow> pin_registry \<Rightarrow> (pin_policy \<times> bool) list" where
  "list_pins now pins = map (\<lambda>p. (p, is_active now p)) (dvals pins)"

section \<open>The versioned server\<close>

record 'm vserver =
  vs_registry :: "'m model_registry"
  vs_pins :: pin_registry
  vs_default :: string

definition new_vserver :: "'m vserver" where
  "new_vserver = \<lparr>vs_registry = [], vs_pins = [], vs_default = ''stable''\<rparr>"

definition load_default ::
  "(string \<Rightarrow> 'm result) \<Rightarrow> ('m \<Rightarrow> string list \<Rightarrow> embedding list result) \<Rightarrow> real \<Rightarrow> string \<Rightarrow> 'm vserver \<Rightarrow>
    model_version result \<times> 'm vserver" where
  "load_default load_model model_encode now name s =
     (case register_model load_model model_encode now ''stable'' name (vs_registry s) of
        (r, reg) \<Rightarrow> (r, s\<lparr>vs_registry := reg\<rparr>))"

definition vs_resolve :: "real \<Rightarrow> 'm vserver \<Rightarrow> string option \<Rightarrow> string option \<Rightarrow> string" where
  "vs_resolve now s version caller =
     (case caller of
        Some c \<Rightarrow> resolve_pin now (vs_pins s) c (vs_default s)
      | None \<Rightarrow> (case version of Some v \<Rightarrow> v | None \<Rightarrow> vs_default s))"

definition vs_embed ::
  "('m \<Rightarrow> string list \<Rightarrow> embedding list result) \<Rightarrow> real \<Rightarrow> 'm vserver \<Rightarrow> string list \<Rightarrow> string option \<Rightarrow> string option \<Rightarrow>
    embedding list result" where
  "vs_embed model_encode now s texts version caller =
     reg_embed model_encode (vs_registry s) texts (vs_resolve now s version caller)"

record vserver_health =
  vh_versions :: "model_version list"
  vh_default_version :: string
  vh_active_pins :: nat

definition vs_health :: "real \<Rightarrow> 'm vserver \<Rightarrow> vserver_health" where
  "vs_health now s = \<lparr>vh_versions = list_versions (vs_registry s), vh_default_version = vs_default s,
     vh_active_pins = length (filter snd (list_pins now (vs_pins s)))\<rparr>"

end
