(* ===== verification/EmbServer.thy ===== *)
theory EmbServer
  imports EmbSession EmbVersions
begin

text \<open>
  \<open>embedding-pipeline/src/pipeline.py\<close> and \<open>server.py\<close>: the three servers behind one HTTP service. An
  endpoint returns a response, an \<open>HTTPException\<close> with its status, or an exception it does not catch.
  The clock is read twice by \<open>embed\<close>, once to choose the model and once to name it.
\<close>

section \<open>The pipeline\<close>

record 'm pipeline =
  pl_v0 :: "'m single_server"
  pl_v1 :: "('m, embedding) bserver"
  pl_v2 :: "'m vserver"
  pl_model_name :: string

definition new_pipeline :: "string \<Rightarrow> int \<Rightarrow> int \<Rightarrow> 'm pipeline" where
  "new_pipeline name max_batch cache_size =
     \<lparr>pl_v0 = new_single_server name, pl_v1 = new_bserver name max_batch cache_size, pl_v2 = new_vserver,
      pl_model_name = name\<rparr>"

definition pipeline_start ::
  "(string \<Rightarrow> 'm result) \<Rightarrow> ('m \<Rightarrow> string list \<Rightarrow> embedding list result) \<Rightarrow> real \<Rightarrow> 'm pipeline \<Rightarrow> unit result \<times> 'm pipeline" where
  "pipeline_start load_model model_encode now p =
     (case single_load load_model now (pl_v0 p) of
        (Inl x, v0) \<Rightarrow> (Inl x, p\<lparr>pl_v0 := v0\<rparr>)
      | (Inr _, v0) \<Rightarrow>
          (case bs_load load_model now (pl_v1 p) of
             (Inl x, v1) \<Rightarrow> (Inl x, p\<lparr>pl_v0 := v0, pl_v1 := v1\<rparr>)
           | (Inr _, v1) \<Rightarrow>
               (case load_default load_model model_encode now (pl_model_name p) (pl_v2 p) of
                  (r, v2) \<Rightarrow> (rmap (\<lambda>_. ()) r, p\<lparr>pl_v0 := v0, pl_v1 := v1, pl_v2 := v2\<rparr>))))"

definition pipeline_register ::
  "(string \<Rightarrow> 'm result) \<Rightarrow> ('m \<Rightarrow> string list \<Rightarrow> embedding list result) \<Rightarrow> real \<Rightarrow> string \<Rightarrow> string \<Rightarrow> 'm pipeline \<Rightarrow>
    model_version result \<times> 'm pipeline" where
  "pipeline_register load_model model_encode now version name p =
     (case register_model load_model model_encode now version name (vs_registry (pl_v2 p)) of
        (r, reg) \<Rightarrow> (r, p\<lparr>pl_v2 := (pl_v2 p)\<lparr>vs_registry := reg\<rparr>\<rparr>))"

definition pipeline_health :: "real \<Rightarrow> 'm pipeline \<Rightarrow> pyval \<times> (pyval \<times> cache_stats) \<times> vserver_health" where
  "pipeline_health now p = (single_health (pl_v0 p), bs_health (pl_v1 p), vs_health now (pl_v2 p))"

section \<open>The endpoints\<close>

record embed_request =
  er_texts :: "string list"
  er_version :: "string option"
  er_caller_id :: "string option"

record embed_response =
  es_embeddings :: "embedding list"
  es_model :: string
  es_dimension :: nat
  es_count :: nat

text \<open>\<open>x or y\<close> on an optional string.\<close>

definition or_str :: "string option \<Rightarrow> string \<Rightarrow> string" where
  "or_str x y = (case x of Some (c # cs) \<Rightarrow> c # cs | _ \<Rightarrow> y)"

definition given :: "string option \<Rightarrow> bool" where
  "given x \<longleftrightarrow> (case x of Some (c # cs) \<Rightarrow> True | _ \<Rightarrow> False)"

text \<open>The version whose model the response of \<open>/embed\<close> names.\<close>

definition reported_version :: "real \<Rightarrow> 'm vserver \<Rightarrow> embed_request \<Rightarrow> string" where
  "reported_version now s req =
     (if given (er_caller_id req) then resolve_pin now (vs_pins s) (or_str (er_caller_id req) []) ''stable''
      else or_str (er_version req) ''stable'')"

definition ep_embed ::
  "('m \<Rightarrow> string list \<Rightarrow> embedding list result) \<Rightarrow> real \<Rightarrow> real \<Rightarrow> 'm pipeline \<Rightarrow> embed_request \<Rightarrow> embed_response http" where
  "ep_embed model_encode now now' p req =
     (if er_texts req = [] then Inl (HttpError 400 ''texts list is empty'')
      else case vs_embed model_encode now (pl_v2 p) (er_texts req) (er_version req) (er_caller_id req) of
             Inl x \<Rightarrow> Inl (Uncaught x)
           | Inr embs \<Rightarrow>
               (case get_version_meta (vs_registry (pl_v2 p)) (reported_version now' (pl_v2 p) req) of
                  Inl x \<Rightarrow> Inl (Uncaught x)
                | Inr meta \<Rightarrow> Inr \<lparr>es_embeddings = embs, es_model = mv_name meta, es_dimension = shape1 embs,
                                  es_count = length (er_texts req)\<rparr>))"

definition info_response :: "embedding list \<Rightarrow> model_info \<Rightarrow> string list \<Rightarrow> embed_response" where
  "info_response embs info texts =
     \<lparr>es_embeddings = embs, es_model = mi_name info, es_dimension = mi_dimension info, es_count = length texts\<rparr>"

definition ep_embed_v0 ::
  "('m \<Rightarrow> string list \<Rightarrow> embedding list result) \<Rightarrow> 'm pipeline \<Rightarrow> embed_request \<Rightarrow> embed_response http" where
  "ep_embed_v0 model_encode p req =
     (if er_texts req = [] then Inl (HttpError 400 ''texts list is empty'')
      else uncaught (rbind (single_embed model_encode (pl_v0 p) (er_texts req)) (\<lambda>embs.
                     rbind (single_model_info (pl_v0 p)) (\<lambda>info. Inr (info_response embs info (er_texts req))))))"

definition ep_embed_v1 ::
  "(string \<Rightarrow> string) \<Rightarrow> ('m \<Rightarrow> string list \<Rightarrow> embedding list result) \<Rightarrow> nat list \<Rightarrow> 'm pipeline \<Rightarrow> embed_request \<Rightarrow>
    embed_response http \<times> 'm pipeline" where
  "ep_embed_v1 sha model_encode ks p req =
     (if er_texts req = [] then (Inl (HttpError 400 ''texts list is empty''), p)
      else case bs_embed sha model_encode ks (er_texts req) (pl_v1 p) of
             (r, v1) \<Rightarrow>
               (uncaught (rbind r (\<lambda>embs.
                  rbind (single_model_info (bs_single v1)) (\<lambda>info. Inr (info_response embs info (er_texts req))))),
                p\<lparr>pl_v1 := v1\<rparr>))"

definition ep_list_versions :: "'m pipeline \<Rightarrow> model_version list" where
  "ep_list_versions p = list_versions (vs_registry (pl_v2 p))"

definition ep_register ::
  "(string \<Rightarrow> 'm result) \<Rightarrow> ('m \<Rightarrow> string list \<Rightarrow> embedding list result) \<Rightarrow> real \<Rightarrow> string \<Rightarrow> string \<Rightarrow> 'm pipeline \<Rightarrow>
    model_version http \<times> 'm pipeline" where
  "ep_register load_model model_encode now version name p =
     (case pipeline_register load_model model_encode now version name p of
        (Inl x, p') \<Rightarrow> (Inl (HttpError 500 (exn_text x)), p')
      | (Inr meta, p') \<Rightarrow> (Inr meta, p'))"

record drift_response =
  dr_version_a :: string
  dr_version_b :: string
  dr_avg_cosine_distance :: real
  dr_avg_cosine_similarity :: real
  dr_compatible :: bool
  dr_threshold :: real

definition ep_drift ::
  "('m \<Rightarrow> string list \<Rightarrow> embedding list result) \<Rightarrow> 'm pipeline \<Rightarrow> string list \<Rightarrow> string \<Rightarrow> string \<Rightarrow> drift_response http" where
  "ep_drift model_encode p texts version_a version_b =
     (if texts = [] then Inl (HttpError 400 ''texts list is empty for drift measurement'')
      else case rbind (measure_drift model_encode (vs_registry (pl_v2 p)) texts version_a version_b) (\<lambda>drift.
                rbind (is_compatible model_encode (vs_registry (pl_v2 p)) version_a version_b texts (9 / 10)) (\<lambda>ok.
                  Inr \<lparr>dr_version_a = version_a, dr_version_b = version_b, dr_avg_cosine_distance = drift,
                       dr_avg_cosine_similarity = 1 - drift, dr_compatible = ok, dr_threshold = 9 / 10\<rparr>)) of
             Inl (KeyError e) \<Rightarrow> Inl (HttpError 404 (exn_text (KeyError e)))
           | r \<Rightarrow> uncaught r)"

definition ep_cache_stats :: "'m pipeline \<Rightarrow> cache_stats" where
  "ep_cache_stats p = bs_cache_stats (pl_v1 p)"

record pin_response =
  pr_caller_id :: string
  pr_pinned_to :: string
  pr_until :: real
  pr_active :: bool

text \<open>Times are in seconds; the second reading of the clock is that of \<open>is_active\<close>.\<close>

definition ep_pin :: "real \<Rightarrow> real \<Rightarrow> string \<Rightarrow> string \<Rightarrow> real \<Rightarrow> 'm pipeline \<Rightarrow> pin_response \<times> 'm pipeline" where
  "ep_pin now now' caller version duration_hours p =
     (case pin_caller caller version (now + 3600 * duration_hours) (vs_pins (pl_v2 p)) of
        (policy, pins) \<Rightarrow>
          (\<lparr>pr_caller_id = pp_caller_id policy, pr_pinned_to = pp_version policy, pr_until = pp_pinned_until policy,
            pr_active = is_active now' policy\<rparr>,
           p\<lparr>pl_v2 := (pl_v2 p)\<lparr>vs_pins := pins\<rparr>\<rparr>))"

text \<open>
  The embedding service as a state machine: it starts, and then registers model versions, pins callers
  and serves batched requests in any order. In every state it reaches, a version alias leads to the model
  that was loaded under the name its metadata shows.
\<close>

inductive service_reachable ::
  "(string \<Rightarrow> 'm result) \<Rightarrow> ('m \<Rightarrow> string list \<Rightarrow> embedding list result) \<Rightarrow> (string \<Rightarrow> string) \<Rightarrow> 'm pipeline \<Rightarrow> bool"
  for load_model model_encode sha where
  started: "pipeline_start load_model model_encode now (new_pipeline name max_batch cache_size) = (Inr (), p) \<Longrightarrow>
    service_reachable load_model model_encode sha p"
| registered: "service_reachable load_model model_encode sha p \<Longrightarrow>
    service_reachable load_model model_encode sha (snd (ep_register load_model model_encode now version name p))"
| pinned: "service_reachable load_model model_encode sha p \<Longrightarrow>
    service_reachable load_model model_encode sha (snd (ep_pin now now' caller version hours p))"
| embedded: "service_reachable load_model model_encode sha p \<Longrightarrow>
    service_reachable load_model model_encode sha (snd (ep_embed_v1 sha model_encode ks p req))"

definition registry_right :: "(string \<Rightarrow> 'm result) \<Rightarrow> 'm model_registry \<Rightarrow> bool" where
  "registry_right load_model reg \<longleftrightarrow>
     (\<forall>v m meta. dget reg v = Some (m, meta) \<longrightarrow> mv_version meta = v \<and> load_model (mv_name meta) = Inr m)"

lemma register_model_right:
  assumes "registry_right load_model reg"
  shows "registry_right load_model (snd (register_model load_model model_encode now version name reg))"
  using assms by (auto simp: register_model_def registry_right_def Let_def split: sum.splits)

definition service_right :: "(string \<Rightarrow> 'm result) \<Rightarrow> 'm pipeline \<Rightarrow> bool" where
  "service_right load_model p \<longleftrightarrow> registry_right load_model (vs_registry (pl_v2 p)) \<and> vs_default (pl_v2 p) = ''stable''"

lemma pipeline_start_v2:
  assumes "pipeline_start load_model model_encode now (new_pipeline name max_batch cache_size) = (Inr (), p)"
  shows "pl_v2 p = snd (load_default load_model model_encode now name new_vserver)"
  using assms
  by (auto simp: pipeline_start_def new_pipeline_def rmap_def split: prod.splits sum.splits)

lemma service_right_reachable: "service_reachable load_model model_encode sha p \<Longrightarrow> service_right load_model p"
proof (induction rule: service_reachable.induct)
  case (started now name max_batch cache_size p)
  have "registry_right load_model (snd (register_model load_model model_encode now ''stable'' name []))"
    by (rule register_model_right) (simp add: registry_right_def)
  then show ?case
    by (simp add: service_right_def pipeline_start_v2 [OF started] load_default_def new_vserver_def case_prod_beta)
next
  case (registered p now version name)
  then show ?case
    using register_model_right [of load_model "vs_registry (pl_v2 p)" model_encode now version name]
    by (auto simp: service_right_def ep_register_def pipeline_register_def split: prod.splits sum.splits)
next
  case (pinned p now now' caller version hours)
  then show ?case by (simp add: service_right_def ep_pin_def split: prod.splits)
next
  case (embedded p ks req)
  then show ?case by (simp add: service_right_def ep_embed_v1_def split: prod.splits)
qed

lemma reg_embed_Inr:
  assumes "reg_embed model_encode reg texts v = Inr embs" and "texts \<noteq> []"
  obtains m meta raw where "dget reg v = Some (m, meta)" and "model_encode m texts = Inr raw" and "embs = map l2_row raw"
  using assms
  by (auto simp: reg_embed_def get_model_def encode_def rbind_Inr rmap_Inr split: option.splits prod.splits)

lemma get_version_meta_Inr: "get_version_meta reg v = Inr meta \<longleftrightarrow> (\<exists>m. dget reg v = Some (m, meta))"
  by (auto simp: get_version_meta_def split: option.splits)

text \<open>Which requests are answered by the version the response names.\<close>

definition pins_steady :: "real \<Rightarrow> real \<Rightarrow> 'm vserver \<Rightarrow> embed_request \<Rightarrow> bool" where
  "pins_steady now now' s req \<longleftrightarrow>
     (\<forall>c pin. er_caller_id req = Some c \<longrightarrow> dget (vs_pins s) c = Some pin \<longrightarrow> is_active now pin = is_active now' pin)"

lemma reported_is_resolved:
  assumes "pins_steady now now' s req" and "er_caller_id req \<noteq> Some []" and "er_version req \<noteq> Some []"
    and "vs_default s = ''stable''"
  shows "reported_version now' s req = vs_resolve now s (er_version req) (er_caller_id req)"
proof (cases "er_caller_id req")
  case None
  then show ?thesis using assms
    by (auto simp: reported_version_def given_def or_str_def vs_resolve_def split: option.splits list.splits)
next
  case (Some c)
  with assms(2) obtain a cs where c: "c = a # cs" by (cases c) auto
  then show ?thesis using assms Some
    by (auto simp: reported_version_def given_def or_str_def vs_resolve_def resolve_pin_def resolve_version_def
        pins_steady_def split: option.splits)
qed

lemma ep_embed_Inr:
  assumes "ep_embed model_encode now now' p req = Inr resp"
  shows "er_texts req \<noteq> []"
    and "reg_embed model_encode (vs_registry (pl_v2 p)) (er_texts req)
          (vs_resolve now (pl_v2 p) (er_version req) (er_caller_id req)) = Inr (es_embeddings resp)"
    and "\<exists>m meta. dget (vs_registry (pl_v2 p)) (reported_version now' (pl_v2 p) req) = Some (m, meta) \<and>
          es_model resp = mv_name meta"
    and "es_dimension resp = shape1 (es_embeddings resp)" and "es_count resp = length (er_texts req)"
  using assms by (auto simp: ep_embed_def vs_embed_def get_version_meta_Inr split: if_splits sum.splits)

end
