(* ===== verification/EmbeddingProperties.thy ===== *)
theory EmbeddingProperties
  imports EmbServer
begin

text \<open>
  The properties of the embedding pipeline (\<open>labs/embedding-pipeline\<close>): the batched and cached server
  against the plain model, and which model answers a request and which one the response names.
\<close>

section \<open>Batching and caching\<close>

text \<open>C21: A session of \<open>embed\<close> calls on a freshly loaded batched server returns for every text its
  normalized embedding by the model, in order, whatever the cache size, the batch size and the batches
  the worker forms (as long as its drains have room for the texts of a call), when the model embeds
  each text by itself and the hash does not collide on the texts of the session.\<close>

theorem batched_embed_correct:
  assumes "load_model name = Inr m" and "\<forall>m ts. model_encode m ts = Inr (map raw ts)"
    and "inj_on sha (\<Union>(ks, texts)\<in>set calls. set texts)"
    and "\<forall>(ks, texts)\<in>set calls. length texts \<le> room max_batch ks"
  shows "bs_session sha model_encode calls (snd (bs_load load_model now (new_bserver name max_batch cache_size)))
    = map (\<lambda>(ks, texts). Inr (map (l2_row \<circ> raw) texts)) calls"
  by (rule bs_session_right [OF bserver_right_loaded(1) [of load_model name m] assms(2) _ assms(3) refl])
    (use assms(1,4) in \<open>auto simp: bserver_right_loaded(2)\<close>)

theorem batched_embed_correct_witness:
  "bs_session id (\<lambda>m ts. Inr (map (\<lambda>t. [real (length t), 0]) ts)) [([1], [''ab'', ''c'']), ([0], [''ab''])]
      (snd (bs_load Inr 0 (new_bserver ''mini'' 2 1)))
    = [Inr (map (l2_row \<circ> (\<lambda>t. [real (length t), 0])) [''ab'', ''c'']),
       Inr (map (l2_row \<circ> (\<lambda>t. [real (length t), 0])) [''ab''])]"
  using batched_embed_correct [of Inr "''mini''" "''mini''" "\<lambda>m ts. Inr (map (\<lambda>t. [real (length t), 0]) ts)"
      "\<lambda>t. [real (length t), 0]" id "[([1], [''ab'', ''c'']), ([0], [''ab''])]" 2 0 1]
  by (simp add: room_def)

section \<open>Versions\<close>

text \<open>C22: In every state the service reaches, a successful \<open>/embed\<close> returns the normalized output of the
  model loaded under the very name the response gives, one row per text, for every request whose caller
  id and version are not empty strings and whose pin does not run out between the two readings of the
  clock: registrations, replaced aliases and pins never make the name and the vectors disagree.\<close>

theorem embed_response_names_its_model:
  assumes "service_reachable load_model model_encode sha p" and "ep_embed model_encode now now' p req = Inr resp"
    and "er_caller_id req \<noteq> Some []" and "er_version req \<noteq> Some []" and "pins_steady now now' (pl_v2 p) req"
  shows "\<exists>m raw. load_model (es_model resp) = Inr m \<and> model_encode m (er_texts req) = Inr raw \<and>
    es_embeddings resp = map l2_row raw \<and> es_count resp = length (er_texts req)"
proof -
  have right: "service_right load_model p" using assms(1) by (rule service_right_reachable)
  note e = ep_embed_Inr [OF assms(2)]
  have "reported_version now' (pl_v2 p) req = vs_resolve now (pl_v2 p) (er_version req) (er_caller_id req)"
    by (rule reported_is_resolved) (use assms right in \<open>auto simp: service_right_def\<close>)
  with reg_embed_Inr [OF e(2,1)] e(3,5) right show ?thesis
    by (metis old.prod.inject option.inject registry_right_def service_right_def)
qed

definition demo_load :: "string \<Rightarrow> string result" where
  "demo_load name = (if name = [] then Inl (ValueError ''no model'') else Inr name)"

definition demo_encode :: "string \<Rightarrow> string list \<Rightarrow> embedding list result" where
  "demo_encode m ts = Inr (map (\<lambda>t. [real (length m), real (length t)]) ts)"

definition demo_service :: "string pipeline" where
  "demo_service = snd (ep_register demo_load demo_encode 1 ''canary'' ''large''
     (snd (pipeline_start demo_load demo_encode 0 (new_pipeline ''mini'' 32 100))))"

lemmas demo_simps = demo_service_def ep_register_def pipeline_register_def pipeline_start_def new_pipeline_def
  single_load_def bs_load_def new_bserver_def new_single_server_def load_default_def new_vserver_def
  register_model_def demo_load_def demo_encode_def

lemma demo_service_reachable: "service_reachable demo_load demo_encode id demo_service"
  unfolding demo_service_def
  by (rule service_reachable.registered, rule service_reachable.started [where now = 0 and name = "''mini''" and max_batch = 32 and cache_size = 100])
    (simp add: demo_simps Let_def)

theorem embed_response_names_its_model_witness:
  "\<exists>m raw. demo_load ''large'' = Inr m \<and> demo_encode m [''hi''] = Inr raw \<and> map l2_row [[5, 2]] = map l2_row raw \<and>
    (1 :: nat) = length [''hi'']"
  using embed_response_names_its_model [OF demo_service_reachable, of 2 2
      "\<lparr>er_texts = [''hi''], er_version = Some ''canary'', er_caller_id = None\<rparr>"
      "\<lparr>es_embeddings = map l2_row [[5, 2]], es_model = ''large'', es_dimension = 2, es_count = 1\<rparr>"]
  by (simp add: demo_simps ep_embed_def vs_embed_def vs_resolve_def reg_embed_def get_model_def encode_def
      get_version_meta_def reported_version_def given_def or_str_def shape1_def pins_steady_def l2_row_def Let_def)

text \<open>A request that names both a caller and a version is served as if it named no version: the pin of the
  caller decides, and without an active pin the default version, never the version asked for.\<close>

theorem explicit_version_ignored:
  "vs_embed model_encode now s texts (Some v) (Some c) = vs_embed model_encode now s texts None (Some c)"
  by (simp add: vs_embed_def vs_resolve_def)

text \<open>With an empty caller id the response names the model of the version asked for, although the vectors
  are those of the default version.\<close>

theorem empty_caller_misnamed:
  assumes "dget (vs_pins (pl_v2 p)) [] = None" and "vs_default (pl_v2 p) = ''stable''" and "v \<noteq> []"
    and "ep_embed model_encode now now' p \<lparr>er_texts = texts, er_version = Some v, er_caller_id = Some []\<rparr> = Inr resp"
  shows "reg_embed model_encode (vs_registry (pl_v2 p)) texts ''stable'' = Inr (es_embeddings resp)
    \<and> (\<exists>m meta. dget (vs_registry (pl_v2 p)) v = Some (m, meta) \<and> es_model resp = mv_name meta)"
proof -
  have "reported_version now' (pl_v2 p) \<lparr>er_texts = texts, er_version = Some v, er_caller_id = Some []\<rparr> = v"
    using assms(3) by (cases v) (simp_all add: reported_version_def given_def or_str_def)
  with ep_embed_Inr(2,3) [OF assms(4)] assms(1,2) show ?thesis by (simp add: vs_resolve_def resolve_pin_def)
qed

end
