(* ===== verification/Dist.thy ===== *)
theory Dist
  imports Complex_Main Prelude
begin

text \<open>
  Random choice as data: a distribution is the list of its outcomes with their probabilities. The choices
  of the code (\<open>torch.multinomial\<close>, \<open>torch.rand(1) < p\<close>) are such lists, \<open>bind_d\<close> runs what follows each
  outcome of nonzero probability. A run that raises has no outcome, so the mass missing from 1 is the probability of an
  exception; \<open>prob_d d P\<close> is the probability that the run returns and the outcome satisfies \<open>P\<close>.
\<close>

type_synonym 'a dist = "('a \<times> real) list"

definition return_d :: "'a \<Rightarrow> 'a dist" where
  "return_d x = [(x, 1)]"

definition bind_d :: "'a dist \<Rightarrow> ('a \<Rightarrow> 'b dist) \<Rightarrow> 'b dist" where
  "bind_d d f = concat (map (\<lambda>(x, w). if w = 0 then [] else map (\<lambda>(y, v). (y, w * v)) (f x)) d)"

definition prob_d :: "'a dist \<Rightarrow> ('a \<Rightarrow> bool) \<Rightarrow> real" where
  "prob_d d P = (\<Sum>(x, w)\<leftarrow>d. if P x then w else 0)"

definition total_d :: "'a dist \<Rightarrow> real" where
  "total_d d = (\<Sum>(x, w)\<leftarrow>d. w)"

definition outcomes :: "'a dist \<Rightarrow> 'a set" where
  "outcomes d = {x. \<exists>w. (x, w) \<in> set d \<and> w \<noteq> 0}"

text \<open>\<open>torch.multinomial(weights, 1)\<close>: it raises on a negative weight and on weights that are all zero.\<close>

definition multinomial :: "real list \<Rightarrow> nat dist" where
  "multinomial ws =
     (if (\<forall>w\<in>set ws. 0 \<le> w) \<and> 0 < sum_list ws
      then map (\<lambda>i. (i, ws ! i / sum_list ws)) [0..<length ws] else [])"

text \<open>\<open>torch.rand(1) < p\<close>, the uniform number being in \<open>[0, 1)\<close>.\<close>

definition rand_below :: "real \<Rightarrow> bool dist" where
  "rand_below p = (let c = max 0 (min 1 p) in [(True, c), (False, 1 - c)])"

definition proper_d :: "'a dist \<Rightarrow> bool" where
  "proper_d d \<longleftrightarrow> (\<forall>(x, w)\<in>set d. 0 \<le> w) \<and> total_d d = 1"

section \<open>Laws\<close>

lemma bind_d_simps [simp]:
  "bind_d [] f = []"
  "bind_d ((x, w) # d) f = (if w = 0 then [] else map (\<lambda>(y, v). (y, w * v)) (f x)) @ bind_d d f"
  by (simp_all add: bind_d_def case_prod_beta)

lemma bind_return [simp]: "bind_d (return_d x) f = f x"
  by (simp add: return_d_def case_prod_beta)

lemma bind_d_append [simp]: "bind_d (d @ e) f = bind_d d f @ bind_d e f"
  by (simp add: bind_d_def)

lemma bind_d_scale:
  assumes "w \<noteq> 0"
  shows "bind_d (map (\<lambda>(y, v). (y, w * v)) d) f = map (\<lambda>(y, v). (y, w * v)) (bind_d d f)"
  using assms by (induction d) (auto simp: mult.assoc comp_def case_prod_beta)

lemma bind_d_assoc: "bind_d (bind_d d f) g = bind_d d (\<lambda>x. bind_d (f x) g)"
  by (induction d) (auto simp: bind_d_scale)

lemma prob_d_simps [simp]:
  "prob_d [] P = 0"
  "prob_d ((x, w) # d) P = (if P x then w else 0) + prob_d d P"
  "prob_d (d @ e) P = prob_d d P + prob_d e P"
  "prob_d (return_d x) P = (if P x then 1 else 0)"
  by (simp_all add: prob_d_def return_d_def)

lemma prob_d_scale [simp]: "prob_d (map (\<lambda>(y, v). (y, w * v)) d) P = w * prob_d d P"
  by (induction d) (auto simp: algebra_simps)

lemma prob_d_bind: "prob_d (bind_d d f) P = (\<Sum>(x, w)\<leftarrow>d. w * prob_d (f x) P)"
  by (induction d) auto

lemma total_d_prob: "total_d d = prob_d d (\<lambda>_. True)"
  by (simp add: total_d_def prob_d_def)

lemma prob_d_cong: "(\<And>x. x \<in> outcomes d \<Longrightarrow> P x = Q x) \<Longrightarrow> prob_d d P = prob_d d Q"
  unfolding prob_d_def outcomes_def by (rule arg_cong [where f = sum_list], rule map_cong) force+

lemma prob_d_True: "proper_d d \<Longrightarrow> prob_d d (\<lambda>_. True) = 1"
  by (simp add: proper_d_def total_d_prob)

lemma prob_d_False [simp]: "prob_d d (\<lambda>_. False) = 0"
  by (induction d) auto

lemma prob_d_const: "proper_d d \<Longrightarrow> prob_d d (\<lambda>_. b) = (if b then 1 else 0)"
  by (cases b) (simp_all add: prob_d_True)

lemma proper_return [simp, intro]: "proper_d (return_d x)"
  by (simp add: proper_d_def return_d_def total_d_def)

lemma outcomes_return [simp]: "outcomes (return_d x) = {x}"
  by (auto simp: outcomes_def return_d_def)

lemma outcomes_bind [simp]: "outcomes (bind_d d f) = (\<Union>x\<in>outcomes d. outcomes (f x))"
  by (fastforce simp: outcomes_def bind_d_def split: if_splits)

lemma prob_d_bind_const:
  assumes "\<And>x. x \<in> outcomes d \<Longrightarrow> prob_d (f x) P = c"
  shows "prob_d (bind_d d f) P = total_d d * c"
proof -
  have "w * prob_d (f x) P = w * c" if "(x, w) \<in> set d" for x w
    using assms [of x] that by (cases "w = 0") (auto simp: outcomes_def)
  then have "(\<Sum>(x, w)\<leftarrow>d. w * prob_d (f x) P) = (\<Sum>(x, w)\<leftarrow>d. w * c)"
    by (intro arg_cong [where f = sum_list] map_cong) auto
  moreover have "(\<Sum>(x, w)\<leftarrow>d. w * c) = (\<Sum>(x, w)\<leftarrow>d. w) * c" by (induction d) (auto simp: algebra_simps)
  ultimately show ?thesis by (simp add: prob_d_bind total_d_def)
qed

lemma proper_bind [intro]:
  assumes d: "proper_d d" and f: "\<And>x. x \<in> outcomes d \<Longrightarrow> proper_d (f x)"
  shows "proper_d (bind_d d f)"
proof -
  have "prob_d (bind_d d f) (\<lambda>_. True) = total_d d * 1" by (rule prob_d_bind_const) (use f in \<open>simp add: prob_d_True\<close>)
  moreover have "0 \<le> v" if v: "(y, v) \<in> set (bind_d d f)" for y v
  proof -
    from v obtain x w u where x: "(x, w) \<in> set d" "w \<noteq> 0" "(y, u) \<in> set (f x)" "v = w * u"
      by (auto simp: bind_d_def split: if_splits)
    then have "proper_d (f x)" by (intro f) (auto simp: outcomes_def)
    with x d have "0 \<le> w" "0 \<le> u" by (auto simp: proper_d_def)
    with x(4) show ?thesis by simp
  qed
  ultimately show ?thesis using d by (auto simp: proper_d_def total_d_prob)
qed

section \<open>Expectations\<close>

definition exp_d :: "'a dist \<Rightarrow> ('a \<Rightarrow> real) \<Rightarrow> real" where
  "exp_d d f = (\<Sum>(x, w)\<leftarrow>d. w * f x)"

lemma exp_d_simps [simp]:
  "exp_d [] f = 0"
  "exp_d ((x, w) # d) f = w * f x + exp_d d f"
  "exp_d (d @ e) f = exp_d d f + exp_d e f"
  "exp_d (return_d x) f = f x"
  by (simp_all add: exp_d_def return_d_def)

lemma exp_d_scale [simp]: "exp_d (map (\<lambda>(y, v). (y, w * v)) d) f = w * exp_d d f"
  by (induction d) (auto simp: algebra_simps)

lemma exp_d_bind: "exp_d (bind_d d g) f = exp_d d (\<lambda>x. exp_d (g x) f)"
  by (induction d) auto

lemma exp_d_cong: "(\<And>x. x \<in> outcomes d \<Longrightarrow> f x = g x) \<Longrightarrow> exp_d d f = exp_d d g"
  unfolding exp_d_def outcomes_def by (rule arg_cong [where f = sum_list], rule map_cong) force+

lemma exp_d_const: "proper_d d \<Longrightarrow> exp_d d (\<lambda>_. c) = c"
proof -
  have "exp_d d (\<lambda>_. c) = total_d d * c" by (induction d) (auto simp: total_d_def algebra_simps)
  then show "proper_d d \<Longrightarrow> exp_d d (\<lambda>_. c) = c" by (simp add: proper_d_def)
qed

section \<open>Probability vectors\<close>

definition pvec :: "nat \<Rightarrow> real list \<Rightarrow> bool" where
  "pvec n ps \<longleftrightarrow> length ps = n \<and> (\<forall>p\<in>set ps. 0 \<le> p) \<and> sum_list ps = 1"

lemma multinomial_pvec: "pvec n ps \<Longrightarrow> multinomial ps = map (\<lambda>i. (i, ps ! i)) [0..<n]"
  by (simp add: multinomial_def pvec_def)

lemma pvec_sum: "pvec n ps \<Longrightarrow> (\<Sum>i<n. ps ! i) = 1"
  by (auto simp: pvec_def sum_list_sum_nth atLeast0LessThan)

lemma proper_multinomial [intro]: "pvec n ps \<Longrightarrow> proper_d (multinomial ps)"
  by (auto simp: multinomial_pvec proper_d_def total_d_def comp_def interv_sum_list_conv_sum_set_nat
      atLeast0LessThan pvec_sum) (simp add: pvec_def)

lemma prob_d_bind_multinomial:
  "pvec n ps \<Longrightarrow> prob_d (bind_d (multinomial ps) f) P = (\<Sum>i<n. ps ! i * prob_d (f i) P)"
  by (simp add: multinomial_pvec prob_d_bind comp_def interv_sum_list_conv_sum_set_nat atLeast0LessThan)

lemma prob_d_multinomial: "pvec n ps \<Longrightarrow> t < n \<Longrightarrow> prob_d (multinomial ps) (\<lambda>x. x = t) = ps ! t"
  by (simp add: multinomial_pvec prob_d_def comp_def interv_sum_list_conv_sum_set_nat atLeast0LessThan
      if_distrib [of "\<lambda>x. x * _"] sum.delta' cong: if_cong)

lemma outcomes_multinomial: "pvec n ps \<Longrightarrow> outcomes (multinomial ps) = {i. i < n \<and> ps ! i \<noteq> 0}"
  by (auto simp: multinomial_pvec outcomes_def image_iff)

lemma proper_rand_below [simp, intro]: "proper_d (rand_below p)"
  by (auto simp: rand_below_def proper_d_def total_d_def Let_def)

lemma prob_d_bind_rand_below:
  assumes "0 \<le> p" "p \<le> 1"
  shows "prob_d (bind_d (rand_below p) f) P = p * prob_d (f True) P + (1 - p) * prob_d (f False) P"
  using assms by (simp add: rand_below_def prob_d_bind Let_def)

lemma exp_d_rand_below: "0 \<le> p \<Longrightarrow> p \<le> 1 \<Longrightarrow> exp_d (rand_below p) f = p * f True + (1 - p) * f False"
  by (simp add: rand_below_def Let_def)

lemma exp_d_multinomial: "pvec n ps \<Longrightarrow> exp_d (multinomial ps) f = (\<Sum>i<n. ps ! i * f i)"
  by (simp add: multinomial_pvec exp_d_def comp_def interv_sum_list_conv_sum_set_nat atLeast0LessThan)

lemma outcomes_rand_below:
  assumes "0 \<le> p" "p \<le> 1"
  shows "outcomes (rand_below p) = {b. if b then p \<noteq> 0 else p \<noteq> 1}"
  using assms by (simp add: rand_below_def outcomes_def Let_def set_eq_iff)

end
