(* ===== verification/SpecDecode.thy ===== *)
theory SpecDecode
  imports Dist
begin

text \<open>
  Speculative decoding, \<open>labs/speculative-decoding/src/models.py\<close> and \<open>v0_basic.py\<close>. A language model is its
  function \<open>get_probs\<close> from contexts to probability vectors; numbers are reals. The random choices are
  those of \<open>Dist\<close>: a step, and a whole generation, is the distribution of its result.
\<close>

section \<open>Models\<close>

type_synonym language_model = "nat list \<Rightarrow> real list"

definition eos_token :: nat where
  "eos_token = 0"

definition tiny :: real where
  "tiny = 1 / 10 ^ 9"

definition get_logits :: "language_model \<Rightarrow> nat list \<Rightarrow> real list" where
  "get_logits m ctx = map (\<lambda>p. ln (max tiny p)) (m ctx)"

text \<open>\<open>argmax\<close> is the first index of a largest entry.\<close>

definition argmax :: "real list \<Rightarrow> nat" where
  "argmax ps = hd (filter (\<lambda>i. ps ! i = Max (set ps)) [0..<length ps])"

definition normalized :: "real list \<Rightarrow> real list" where
  "normalized ps = map (\<lambda>p. p / sum_list ps) ps"

definition model_sample :: "language_model \<Rightarrow> nat list \<Rightarrow> real \<Rightarrow> nat dist" where
  "model_sample m ctx temperature =
     (if temperature \<le> 0 then return_d (argmax (m ctx))
      else multinomial (normalized (map (\<lambda>p. p powr (1 / temperature)) (m ctx))))"

definition forward_batch :: "language_model \<Rightarrow> nat list list \<Rightarrow> real list list" where
  "forward_batch m seqs = map m seqs"

definition mock_uniform :: "nat \<Rightarrow> language_model" where
  "mock_uniform vocab ctx = replicate vocab (1 / real vocab)"

definition mock_high_acceptance :: "language_model \<Rightarrow> nat \<Rightarrow> real \<Rightarrow> language_model" where
  "mock_high_acceptance target vocab epsilon ctx =
     normalized (map2 (\<lambda>p u. (1 - epsilon) * p + epsilon * u) (target ctx) (replicate vocab (1 / real vocab)))"

section \<open>One step\<close>

record spec_result =
  accepted_tokens :: "nat list"
  n_draft_proposed :: nat
  n_accepted :: nat
  bonus_token :: nat

definition total_tokens :: "spec_result \<Rightarrow> nat" where
  "total_tokens r = length (accepted_tokens r)"

definition result_rate :: "spec_result \<Rightarrow> real" where
  "result_rate r = (if n_draft_proposed r = 0 then 0 else real (n_accepted r) / real (n_draft_proposed r))"

text \<open>The draft phase: \<open>k\<close> tokens, each with the probability the draft model gave it.\<close>

fun draft_phase :: "language_model \<Rightarrow> nat list \<Rightarrow> nat \<Rightarrow> (nat \<times> real) list dist" where
  "draft_phase draft ctx 0 = return_d []"
| "draft_phase draft ctx (Suc k) =
     bind_d (multinomial (draft ctx)) (\<lambda>t.
     bind_d (draft_phase draft (ctx @ [t]) k) (\<lambda>rest.
       return_d ((t, draft ctx ! t) # rest)))"

definition acceptance_prob :: "real \<Rightarrow> real \<Rightarrow> real" where
  "acceptance_prob p_target p_draft = min 1 (p_target / (p_draft + tiny))"

definition corrected :: "real list \<Rightarrow> real list \<Rightarrow> real list" where
  "corrected p_target p_draft =
     (let c = map2 (\<lambda>p q. max 0 (p - q)) p_target p_draft
      in if sum_list c < tiny then normalized p_target else normalized c)"

text \<open>The accept/reject loop after the tokens \<open>done\<close> were accepted. Taking \<open>p_target[token]\<close> out of range
  raises, and so does the difference of vectors of different lengths.\<close>

fun verify_phase ::
  "nat \<Rightarrow> language_model \<Rightarrow> language_model \<Rightarrow> nat list \<Rightarrow> nat list \<Rightarrow> (nat \<times> real) list \<Rightarrow> spec_result dist" where
  "verify_phase k draft target ctx done [] =
     bind_d (multinomial (target (ctx @ done))) (\<lambda>b.
       return_d \<lparr>accepted_tokens = done @ [b], n_draft_proposed = k, n_accepted = length done, bonus_token = b\<rparr>)"
| "verify_phase k draft target ctx done ((t, p_draft) # rest) =
     (let p_target = target (ctx @ done)
      in if length p_target \<le> t then []
         else bind_d (rand_below (acceptance_prob (p_target ! t) p_draft)) (\<lambda>ok.
           if ok then verify_phase k draft target ctx (done @ [t]) rest
           else if length p_target \<noteq> length (draft (ctx @ done)) then []
           else bind_d (multinomial (corrected p_target (draft (ctx @ done)))) (\<lambda>r.
                  return_d \<lparr>accepted_tokens = done @ [r], n_draft_proposed = k, n_accepted = length done,
                            bonus_token = r\<rparr>)))"

definition speculative_step :: "nat list \<Rightarrow> language_model \<Rightarrow> language_model \<Rightarrow> nat \<Rightarrow> spec_result dist" where
  "speculative_step ctx draft target k =
     bind_d (draft_phase draft ctx k) (\<lambda>drafted. verify_phase k draft target ctx [] drafted)"

section \<open>Running rates and the generation loop\<close>

record rate_tracker =
  total_proposed :: nat
  total_accepted :: nat
  total_bonus :: nat

definition new_tracker :: rate_tracker where
  "new_tracker = \<lparr>total_proposed = 0, total_accepted = 0, total_bonus = 0\<rparr>"

definition tracker_update :: "rate_tracker \<Rightarrow> spec_result \<Rightarrow> rate_tracker" where
  "tracker_update s r = s\<lparr>total_proposed := total_proposed s + n_draft_proposed r,
     total_accepted := total_accepted s + n_accepted r, total_bonus := total_bonus s + 1\<rparr>"

definition tracker_rate :: "rate_tracker \<Rightarrow> real" where
  "tracker_rate s = (if total_proposed s = 0 then 0 else real (total_accepted s) / real (total_proposed s))"

definition total_tokens_generated :: "rate_tracker \<Rightarrow> nat" where
  "total_tokens_generated s = total_accepted s + total_bonus s"

definition total_target_calls :: "rate_tracker \<Rightarrow> nat" where
  "total_target_calls s = total_bonus s"

definition tracker_speedup :: "rate_tracker \<Rightarrow> real" where
  "tracker_speedup s =
     (if total_target_calls s = 0 then 0 else real (total_tokens_generated s) / real (total_target_calls s))"

record generation =
  gen_ids :: "nat list"
  gen_prompt :: "nat list"
  gen_steps :: nat
  gen_tracker :: rate_tracker

text \<open>The inner loop: tokens go to the output and the context until an EOS or the maximum.\<close>

fun take_tokens :: "int \<Rightarrow> nat list \<Rightarrow> nat list \<Rightarrow> nat list \<Rightarrow> nat list \<times> nat list" where
  "take_tokens max_tokens ctx gen [] = (ctx, gen)"
| "take_tokens max_tokens ctx gen (t # ts) =
     (if t = eos_token then (ctx, gen)
      else if max_tokens \<le> int (length gen) + 1 then (ctx @ [t], gen @ [t])
      else take_tokens max_tokens (ctx @ [t]) (gen @ [t]) ts)"

text \<open>The loop of \<open>generate\<close> with at most \<open>n\<close> steps; a run that needs more has no outcome.\<close>

fun generate_loop ::
  "language_model \<Rightarrow> language_model \<Rightarrow> int \<Rightarrow> nat \<Rightarrow> nat list \<Rightarrow> nat \<Rightarrow> nat list \<Rightarrow> nat list \<Rightarrow> rate_tracker \<Rightarrow> nat \<Rightarrow>
    generation dist" where
  "generate_loop draft target max_tokens k prompt n ctx gen tracker steps =
     (if max_tokens \<le> int (length gen)
      then return_d \<lparr>gen_ids = gen, gen_prompt = prompt, gen_steps = steps, gen_tracker = tracker\<rparr>
      else case n of
             0 \<Rightarrow> []
           | Suc n' \<Rightarrow>
               bind_d (speculative_step ctx draft target k) (\<lambda>r.
                 let tracker' = tracker_update tracker r;
                     (ctx', gen') = take_tokens max_tokens ctx gen (accepted_tokens r)
                 in if eos_token \<in> set (accepted_tokens r)
                    then return_d \<lparr>gen_ids = gen', gen_prompt = prompt, gen_steps = steps + 1, gen_tracker = tracker'\<rparr>
                    else generate_loop draft target max_tokens k prompt n' ctx' gen' tracker' (steps + 1)))"

text \<open>Every step adds a token, so \<open>max_tokens\<close> steps are enough.\<close>

definition spec_generate :: "nat list \<Rightarrow> language_model \<Rightarrow> language_model \<Rightarrow> int \<Rightarrow> nat \<Rightarrow> generation dist" where
  "spec_generate prompt draft target max_tokens k =
     generate_loop draft target max_tokens k prompt (nat max_tokens) prompt [] new_tracker 0"

end
