(* ===== verification/SpecLaws.thy ===== *)
theory SpecLaws
  imports SpecDecode
begin

text \<open>
  What speculative decoding preserves: the law of the first token of a step up to the constant that the
  code adds to a denominator, the total probability, and, for a target that always gives one token
  all its probability, the tokens themselves.
\<close>

declare generate_loop.simps [simp del]

definition proper_lm :: "nat \<Rightarrow> language_model \<Rightarrow> bool" where
  "proper_lm n m \<longleftrightarrow> (\<forall>ctx. pvec n (m ctx))"

lemma proper_lmD [dest]: "proper_lm n m \<Longrightarrow> pvec n (m ctx)"
  by (simp add: proper_lm_def)

lemma pvec_nth: "pvec n ps \<Longrightarrow> i < n \<Longrightarrow> 0 \<le> ps ! i" "pvec n ps \<Longrightarrow> length ps = n"
  by (auto simp: pvec_def)

lemma pvec_le_1:
  assumes "pvec n ps" and "i < n" shows "ps ! i \<le> 1"
  using assms member_le_sum [of i "{..<n}" "\<lambda>j. ps ! j"] pvec_sum [OF assms(1)] pvec_nth [OF assms(1)] by auto

lemma pvec_normalized: "\<forall>p\<in>set ps. 0 \<le> p \<Longrightarrow> 0 < sum_list ps \<Longrightarrow> pvec (length ps) (normalized ps)"
  using sum_list_mult_const [of "\<lambda>p. p" "1 / sum_list ps" ps] by (auto simp: pvec_def normalized_def)

lemma tiny_pos [simp]: "0 < tiny" "tiny < 1"
  by (simp_all add: tiny_def)

section \<open>The corrected distribution\<close>

definition excess :: "real list \<Rightarrow> real list \<Rightarrow> nat \<Rightarrow> real" where
  "excess p q t = max 0 (p ! t - q ! t)"

lemma corrected_eq:
  assumes p: "pvec n p" and q: "pvec n q"
  shows "corrected p q = (if (\<Sum>t<n. excess p q t) < tiny then p
     else map (\<lambda>t. excess p q t / (\<Sum>t<n. excess p q t)) [0..<n])"
proof -
  have c: "map2 (\<lambda>p q. max 0 (p - q)) p q = map (excess p q) [0..<n]"
    using p q by (intro nth_equalityI) (simp_all add: excess_def pvec_def)
  have s: "sum_list (map (excess p q) [0..<n]) = (\<Sum>t<n. excess p q t)"
    by (simp add: interv_sum_list_conv_sum_set_nat atLeast0LessThan)
  have "normalized p = p" using p by (simp add: normalized_def pvec_def)
  then show ?thesis by (simp add: corrected_def c s Let_def) (simp add: normalized_def s comp_def)
qed

lemma pvec_corrected:
  assumes p: "pvec n p" and q: "pvec n q"
  shows "pvec n (corrected p q)"
proof (cases "(\<Sum>t<n. excess p q t) < tiny")
  case True
  then show ?thesis using p by (simp add: corrected_eq [OF p q])
next
  case False
  then have "0 < (\<Sum>t<n. excess p q t)" using tiny_pos(1) by linarith
  with False show ?thesis
    by (auto simp: corrected_eq [OF p q] pvec_def excess_def comp_def interv_sum_list_conv_sum_set_nat
        atLeast0LessThan simp flip: sum_divide_distrib)
qed

lemma acceptance_prob_range [simp]: "0 \<le> p \<Longrightarrow> 0 \<le> q \<Longrightarrow> 0 \<le> acceptance_prob p q" "acceptance_prob p q \<le> 1"
  by (simp_all add: acceptance_prob_def divide_nonneg_pos add_nonneg_pos)

section \<open>No run fails\<close>

definition drafted_ok :: "nat \<Rightarrow> (nat \<times> real) list \<Rightarrow> bool" where
  "drafted_ok n xs \<longleftrightarrow> (\<forall>(t, p)\<in>set xs. t < n \<and> 0 \<le> p)"

lemma draft_phase_ok:
  assumes "proper_lm n draft"
  shows "proper_d (draft_phase draft ctx k)"
    and "drafted \<in> outcomes (draft_phase draft ctx k) \<Longrightarrow> drafted_ok n drafted \<and> length drafted = k"
proof (induction k arbitrary: ctx drafted)
  case (Suc k)
  note p = proper_lmD [OF assms]
  { case 1 show ?case using p Suc(1) by (auto intro!: proper_bind proper_multinomial [OF p]) }
  { case 2 then obtain t rest where d: "drafted = (t, draft ctx ! t) # rest" and
      t: "t < n" and r: "rest \<in> outcomes (draft_phase draft (ctx @ [t]) k)"
      by (auto simp: outcomes_multinomial [OF p])
    with Suc(2) [OF r] pvec_nth(1) [OF p t] show ?case by (simp add: drafted_ok_def) }
qed (auto simp: drafted_ok_def)

lemma proper_verify_phase:
  assumes "proper_lm n draft" and "proper_lm n target" and "drafted_ok n drafted"
  shows "proper_d (verify_phase k draft target ctx acc drafted)"
  using assms(3)
proof (induction drafted arbitrary: acc)
  case Nil
  show ?case by (simp, rule proper_bind) (use assms in auto)
next
  case (Cons d rest)
  obtain t pd where d: "d = (t, pd)" by (cases d)
  have "drafted_ok n rest" "t < n" using Cons.prems by (auto simp: drafted_ok_def d)
  moreover have "length (target (ctx @ acc)) = n" "length (draft (ctx @ acc)) = n"
    using assms pvec_nth(2) by blast+
  moreover have "proper_d (multinomial (corrected (target (ctx @ acc)) (draft (ctx @ acc))))"
    using assms pvec_corrected by blast
  ultimately show ?case
    using Cons.IH by (auto simp: d Let_def intro!: proper_bind)
qed

lemma proper_step:
  assumes "proper_lm n draft" and "proper_lm n target"
  shows "proper_d (speculative_step ctx draft target k)"
  unfolding speculative_step_def
  by (rule proper_bind) (use assms draft_phase_ok proper_verify_phase in blast)+

section \<open>The law of the first token\<close>

lemma verify_phase_outcome:
  "r \<in> outcomes (verify_phase k draft target ctx acc drafted) \<Longrightarrow>
   (\<exists>ys. accepted_tokens r = acc @ ys \<and> ys \<noteq> [] \<and> length ys \<le> length drafted + 1) \<and>
   n_draft_proposed r = k \<and> length (accepted_tokens r) = n_accepted r + 1"
proof (induction drafted arbitrary: acc)
  case (Cons d rest)
  obtain t pd where d: "d = (t, pd)" by (cases d)
  from Cons.prems consider "r \<in> outcomes (verify_phase k draft target ctx (acc @ [t]) rest)"
    | b where "r = \<lparr>accepted_tokens = acc @ [b], n_draft_proposed = k, n_accepted = length acc, bonus_token = b\<rparr>"
    by (auto simp: d Let_def outcomes_def [of "[]"] split: if_splits)
  then show ?case
  proof cases
    case 1
    from Cons.IH [OF this] show ?thesis by force
  qed auto
qed auto

definition first_is :: "nat \<Rightarrow> spec_result \<Rightarrow> bool" where
  "first_is t r \<longleftrightarrow> hd (accepted_tokens r) = t"

lemma prob_first_accepted:
  assumes "proper_d (verify_phase k draft target ctx [x] rest)"
  shows "prob_d (verify_phase k draft target ctx [x] rest) (first_is t) = (if x = t then 1 else 0)"
proof -
  have "prob_d (verify_phase k draft target ctx [x] rest) (first_is t)
      = prob_d (verify_phase k draft target ctx [x] rest) (\<lambda>_. x = t)"
    by (rule prob_d_cong) (auto simp: first_is_def dest!: verify_phase_outcome)
  then show ?thesis by (simp add: prob_d_const [OF assms])
qed

definition accept_at :: "real list \<Rightarrow> real list \<Rightarrow> nat \<Rightarrow> real" where
  "accept_at p q x = acceptance_prob (p ! x) (q ! x)"

lemma first_token_law:
  assumes q: "proper_lm n draft" and p: "proper_lm n target" and t: "t < n"
    and a: "a = accept_at (target ctx) (draft ctx)"
  shows "prob_d (speculative_step ctx draft target (Suc k)) (first_is t) =
    draft ctx ! t * a t + (1 - (\<Sum>x<n. draft ctx ! x * a x)) * corrected (target ctx) (draft ctx) ! t"
proof -
  let ?q = "draft ctx" and ?p = "target ctx"
  let ?c = "corrected ?p ?q ! t"
  have vecs: "pvec n ?q" "pvec n ?p" using p q by auto
  note cor = pvec_corrected [OF vecs(2,1)]
  have v: "prob_d (verify_phase (Suc k) draft target ctx [] ((x, ?q ! x) # rest)) (first_is t)
      = a x * (if x = t then 1 else 0) + (1 - a x) * ?c" if x: "x < n" and r: "drafted_ok n rest" for x rest
  proof -
    have "prob_d (bind_d (multinomial (corrected ?p ?q)) (\<lambda>r. return_d \<lparr>accepted_tokens = [r],
        n_draft_proposed = Suc k, n_accepted = 0, bonus_token = r\<rparr>)) (first_is t) = ?c"
      using prob_d_multinomial [OF cor t]
      by (simp add: prob_d_bind first_is_def) (simp add: prob_d_def if_distrib [of "\<lambda>x. _ * x"] cong: if_cong)
    moreover have "0 \<le> a x" "a x \<le> 1" using x pvec_nth(1) vecs by (auto simp: a accept_at_def)
    ultimately show ?thesis
      using x pvec_nth(2) [OF vecs(1)] pvec_nth(2) [OF vecs(2)] prob_first_accepted proper_verify_phase [OF q p r]
      by (simp add: Let_def accept_at_def [symmetric] a [symmetric] prob_d_bind_rand_below)
  qed
  have "prob_d (bind_d (draft_phase draft (ctx @ [x]) k)
      (\<lambda>rest. verify_phase (Suc k) draft target ctx [] ((x, ?q ! x) # rest))) (first_is t)
    = a x * (if x = t then 1 else 0) + (1 - a x) * ?c" if x: "x < n" for x
  proof -
    have "total_d (draft_phase draft (ctx @ [x]) k) = 1" using draft_phase_ok(1) [OF q] by (simp add: proper_d_def)
    then show ?thesis
      using prob_d_bind_const [of "draft_phase draft (ctx @ [x]) k"
          "\<lambda>rest. verify_phase (Suc k) draft target ctx [] ((x, ?q ! x) # rest)" "first_is t"] v [OF x]
        draft_phase_ok(2) [OF q] by fastforce
  qed
  then have "prob_d (speculative_step ctx draft target (Suc k)) (first_is t)
      = (\<Sum>x<n. ?q ! x * (a x * (if x = t then 1 else 0) + (1 - a x) * ?c))"
    by (simp add: speculative_step_def bind_d_assoc prob_d_bind_multinomial [OF vecs(1)])
  also have "\<dots> = (\<Sum>x<n. if x = t then ?q ! x * a x else 0) + (\<Sum>x<n. ?q ! x * ?c) - (\<Sum>x<n. ?q ! x * a x * ?c)"
    unfolding sum.distrib [symmetric] sum_subtractf [symmetric] by (rule sum.cong) (auto simp: algebra_simps)
  also have "\<dots> = ?q ! t * a t + (1 - (\<Sum>x<n. ?q ! x * a x)) * ?c"
    using t pvec_sum [OF vecs(1)] unfolding sum_distrib_right [symmetric] by (simp add: left_diff_distrib)
  finally show ?thesis .
qed

text \<open>How far the probability that a drafted token is also accepted is from its ideal value, the smaller of
  the two probabilities: only by the constant in the denominator.\<close>

lemma accept_gap:
  assumes "0 \<le> p" "0 \<le> q"
  shows "q * acceptance_prob p q \<le> min p q" and "min p q - tiny \<le> q * acceptance_prob p q"
proof -
  have d: "0 < q + tiny" using assms(2) tiny_pos(1) by linarith
  have "q * acceptance_prob p q \<le> q" using mult_left_mono [OF acceptance_prob_range(2) assms(2)] by simp
  moreover have "q * (p / (q + tiny)) \<le> p"
    using d mult_nonneg_nonneg [OF less_imp_le [OF tiny_pos(1)] assms(1)] by (simp add: pos_divide_le_eq algebra_simps)
  then have "q * acceptance_prob p q \<le> p"
    using mult_left_mono [of "acceptance_prob p q" "p / (q + tiny)" q] assms(2) by (simp add: acceptance_prob_def)
  ultimately show "q * acceptance_prob p q \<le> min p q" by simp
  show "min p q - tiny \<le> q * acceptance_prob p q"
  proof (cases "q + tiny \<le> p")
    case True
    then have "acceptance_prob p q = 1" using d by (simp add: acceptance_prob_def)
    then show ?thesis using less_imp_le [OF tiny_pos(1)] by (auto simp: min_def)
  next
    case False
    then have e: "q * acceptance_prob p q = q * p / (q + tiny)" using d by (simp add: acceptance_prob_def)
    have "(min p q - tiny) * (q + tiny) \<le> q * p"
    proof (cases "p \<le> q")
      case True
      have "tiny * p \<le> tiny * q" using True tiny_pos(1) by simp
      moreover have "0 \<le> tiny * tiny" by simp
      ultimately have "tiny * p \<le> tiny * tiny + tiny * q" by linarith
      then show ?thesis using True by (simp add: algebra_simps)
    next
      case False
      then have "q * q \<le> p * q" using assms by (simp add: mult_right_mono)
      moreover have "0 \<le> tiny * tiny" by simp
      ultimately have "q * q \<le> tiny * tiny + p * q" by linarith
      then show ?thesis using False by (simp add: algebra_simps)
    qed
    then show ?thesis using d by (simp add: e pos_le_divide_eq)
  qed
qed

lemma first_token_near:
  assumes q: "pvec n q" and p: "pvec n p" and t: "t < n"
  defines "law \<equiv> q ! t * accept_at p q t + (1 - (\<Sum>x<n. q ! x * accept_at p q x)) * corrected p q ! t"
  shows "\<bar>law - p ! t\<bar> \<le> (real n + 1) * tiny"
proof -
  define m where "m x = min (p ! x) (q ! x)" for x
  define z where "z = (\<Sum>x<n. excess p q x)"
  define R where "R = 1 - (\<Sum>x<n. q ! x * accept_at p q x)"
  have me: "m x + excess p q x = p ! x" for x by (simp add: m_def excess_def)
  have "(\<Sum>x<n. m x) + z = (\<Sum>x<n. p ! x)" by (simp add: z_def me flip: sum.distrib)
  then have mz: "(\<Sum>x<n. m x) = 1 - z" using pvec_sum [OF p] by simp
  have gap: "q ! x * accept_at p q x \<le> m x" "m x - tiny \<le> q ! x * accept_at p q x" if "x < n" for x
    using accept_gap pvec_nth(1) [OF p that] pvec_nth(1) [OF q that] by (simp_all add: accept_at_def m_def)
  have "(\<Sum>x<n. q ! x * accept_at p q x) \<le> (\<Sum>x<n. m x)" by (rule sum_mono) (use gap(1) in simp)
  then have R1: "z \<le> R" using mz by (simp add: R_def)
  have "(\<Sum>x<n. m x - tiny) \<le> (\<Sum>x<n. q ! x * accept_at p q x)" by (rule sum_mono) (use gap(2) in simp)
  then have R2: "R \<le> z + real n * tiny" using mz by (simp add: R_def sum_subtractf)
  have ex: "0 \<le> excess p q x" for x by (simp add: excess_def)
  have ez: "excess p q t \<le> z" using t ex by (auto simp: z_def intro!: member_le_sum)
  have law: "law = q ! t * accept_at p q t + R * corrected p q ! t" by (simp add: law_def R_def)
  have n1: "tiny \<le> real n * tiny" using t tiny_pos(1) by simp
  have rhs: "(real n + 1) * tiny = real n * tiny + tiny" by (simp add: distrib_right)
  show ?thesis
  proof (cases "z < tiny")
    case True
    then have "corrected p q ! t = p ! t" by (simp add: corrected_eq [OF p q] z_def)
    then have l: "law - p ! t = (q ! t * accept_at p q t - m t) - excess p q t + R * p ! t" using law me [of t] by simp
    have "0 \<le> R * p ! t" "R * p ! t \<le> R"
      using pvec_nth(1) [OF p t] pvec_le_1 [OF p t] R1 ex sum_nonneg [of "{..<n}" "excess p q"]
      by (auto simp: z_def mult_left_le)
    then show ?thesis unfolding rhs using l gap [OF t] ez ex [of t] True R2 n1 by linarith
  next
    case False
    then have z: "0 < z" using tiny_pos(1) by linarith
    have "corrected p q ! t = excess p q t / z" using False t by (simp add: corrected_eq [OF p q] z_def)
    define D where "D = (R - z) * (excess p q t / z)"
    have "R * corrected p q ! t = excess p q t + D"
      using z \<open>corrected p q ! t = excess p q t / z\<close> by (simp add: D_def field_simps)
    moreover have "0 \<le> D" "D \<le> R - z"
      unfolding D_def using R1 z ez ex [of t] by (simp, intro mult_left_le) simp_all
    ultimately show ?thesis unfolding rhs using law me [of t] gap [OF t] R2 n1 tiny_pos(1) by linarith
  qed
qed

section \<open>Whole generations\<close>

lemma step_outcome:
  assumes "proper_lm n draft" and "r \<in> outcomes (speculative_step ctx draft target k)"
  shows "accepted_tokens r \<noteq> [] \<and> length (accepted_tokens r) \<le> k + 1 \<and> n_draft_proposed r = k \<and>
    length (accepted_tokens r) = n_accepted r + 1"
proof -
  from assms(2) obtain drafted where d: "drafted \<in> outcomes (draft_phase draft ctx k)"
    and r: "r \<in> outcomes (verify_phase k draft target ctx [] drafted)" by (auto simp: speculative_step_def)
  from verify_phase_outcome [OF r] draft_phase_ok(2) [OF assms(1) d] show ?thesis by auto
qed

lemma take_tokens_split:
  assumes "take_tokens mx ctx gen ts = (ctx', gen')" and "int (length gen) < mx"
  shows "\<exists>ys zs. ts = ys @ zs \<and> gen' = gen @ ys \<and> ctx' = ctx @ ys \<and> eos_token \<notin> set ys \<and> int (length gen') \<le> mx \<and>
    (zs = [] \<or> hd zs = eos_token \<or> int (length gen') = mx)"
  using assms
proof (induction ts arbitrary: ctx gen)
  case (Cons t ts)
  consider "t = eos_token" | "t \<noteq> eos_token" "mx \<le> int (length gen) + 1" | "t \<noteq> eos_token" "int (length gen) + 1 < mx"
    by linarith
  then show ?case
  proof cases
    case 1
    with Cons.prems show ?thesis by (intro exI [of _ "[]"] exI [of _ "t # ts"]) auto
  next
    case 2
    with Cons.prems show ?thesis by (intro exI [of _ "[t]"] exI [of _ ts]) auto
  next
    case 3
    with Cons.prems have tt: "take_tokens mx (ctx @ [t]) (gen @ [t]) ts = (ctx', gen')" by simp
    from 3 have "int (length (gen @ [t])) < mx" by simp
    from Cons.IH [OF tt this] obtain ys zs where "ts = ys @ zs" "gen' = (gen @ [t]) @ ys" "ctx' = (ctx @ [t]) @ ys"
      "eos_token \<notin> set ys" "int (length gen') \<le> mx" "zs = [] \<or> hd zs = eos_token \<or> int (length gen') = mx" by blast
    with 3(1) show ?thesis by (intro exI [of _ "t # ys"] exI [of _ zs]) auto
  qed
qed (auto intro!: exI [of _ "[]"])

lemma take_tokens_grows:
  assumes "take_tokens mx ctx gen ts = (ctx', gen')" and "int (length gen) < mx" and "ts \<noteq> []" and "eos_token \<notin> set ts"
  shows "length gen < length gen'"
proof -
  from take_tokens_split [OF assms(1,2)] obtain ys zs where s: "ts = ys @ zs" "gen' = gen @ ys"
    "zs = [] \<or> hd zs = eos_token \<or> int (length gen') = mx" by blast
  have "ys \<noteq> []"
  proof
    assume "ys = []"
    with s assms have "hd zs = eos_token" "zs \<noteq> []" by auto
    with s assms(4) show False by (metis Un_iff hd_in_set set_append)
  qed
  with s show ?thesis by simp
qed

lemma proper_generate_loop:
  assumes q: "proper_lm n draft" and p: "proper_lm n target"
  shows "max_tokens \<le> int (length gen + m) \<Longrightarrow> proper_d (generate_loop draft target max_tokens k prompt m ctx gen tr st)"
proof (induction m arbitrary: ctx gen tr st)
  case 0
  then show ?case by (subst generate_loop.simps) simp
next
  case (Suc m)
  show ?case
  proof (cases "max_tokens \<le> int (length gen)")
    case True
    then show ?thesis by (subst generate_loop.simps) simp
  next
    case False
    have "proper_d (generate_loop draft target max_tokens k prompt m ctx' gen' tr' (Suc st))"
      if r: "r \<in> outcomes (speculative_step ctx draft target k)" and t: "take_tokens max_tokens ctx gen (accepted_tokens r) = (ctx', gen')"
        and e: "eos_token \<notin> set (accepted_tokens r)" for r ctx' gen' tr'
      using take_tokens_grows [OF t _ _ e] step_outcome [OF q r] False Suc.prems
      by (intro Suc.IH) simp
    with False show ?thesis
      by (subst generate_loop.simps) (auto simp: Let_def split: prod.splits intro!: proper_bind proper_step [OF q p])
  qed
qed

text \<open>What every generation satisfies.\<close>

definition generation_ok :: "nat \<Rightarrow> int \<Rightarrow> generation \<Rightarrow> bool" where
  "generation_ok k max_tokens g \<longleftrightarrow>
     int (length (gen_ids g)) \<le> max 0 max_tokens \<and> eos_token \<notin> set (gen_ids g) \<and>
     total_bonus (gen_tracker g) = gen_steps g \<and> total_proposed (gen_tracker g) = k * gen_steps g \<and>
     total_accepted (gen_tracker g) \<le> k * gen_steps g \<and>
     length (gen_ids g) \<le> total_tokens_generated (gen_tracker g)"

text \<open>One turn of the loop, seen from an outcome.\<close>

lemma generate_loop_turn:
  assumes "g \<in> outcomes (generate_loop draft target mx k prompt (Suc m) ctx gen tr st)" and "int (length gen) < mx"
  obtains r ctx' gen' where "r \<in> outcomes (speculative_step ctx draft target k)"
    and "take_tokens mx ctx gen (accepted_tokens r) = (ctx', gen')"
    and "eos_token \<in> set (accepted_tokens r) \<Longrightarrow>
      g = \<lparr>gen_ids = gen', gen_prompt = prompt, gen_steps = st + 1, gen_tracker = tracker_update tr r\<rparr>"
    and "eos_token \<notin> set (accepted_tokens r) \<Longrightarrow>
      g \<in> outcomes (generate_loop draft target mx k prompt m ctx' gen' (tracker_update tr r) (st + 1))"
proof -
  from assms obtain r where r: "r \<in> outcomes (speculative_step ctx draft target k)"
    and g: "g \<in> outcomes (let tr' = tracker_update tr r; (ctx', gen') = take_tokens mx ctx gen (accepted_tokens r)
      in if eos_token \<in> set (accepted_tokens r)
         then return_d \<lparr>gen_ids = gen', gen_prompt = prompt, gen_steps = st + 1, gen_tracker = tr'\<rparr>
         else generate_loop draft target mx k prompt m ctx' gen' tr' (st + 1))"
    by (subst (asm) generate_loop.simps) auto
  obtain ctx' gen' where t: "take_tokens mx ctx gen (accepted_tokens r) = (ctx', gen')" by fastforce
  show ?thesis by (rule that [OF r t]) (use g t in \<open>simp_all add: Let_def\<close>)
qed

lemma generate_loop_end:
  "g \<in> outcomes (generate_loop draft target mx k prompt m ctx gen tr st) \<Longrightarrow> m = 0 \<or> mx \<le> int (length gen) \<Longrightarrow>
   g = \<lparr>gen_ids = gen, gen_prompt = prompt, gen_steps = st, gen_tracker = tr\<rparr> \<and> mx \<le> int (length gen)"
  by (subst (asm) generate_loop.simps) (auto simp: outcomes_def [of "[]"] split: if_splits)

lemma generate_loop_ok:
  assumes q: "proper_lm n draft"
  shows "g \<in> outcomes (generate_loop draft target max_tokens k prompt m ctx gen tr st) \<Longrightarrow>
    generation_ok k max_tokens \<lparr>gen_ids = gen, gen_prompt = prompt, gen_steps = st, gen_tracker = tr\<rparr> \<Longrightarrow>
    generation_ok k max_tokens g"
proof (induction m arbitrary: ctx gen tr st)
  case 0
  with generate_loop_end [OF 0(1)] show ?case by simp
next
  case (Suc m)
  show ?case
  proof (cases "max_tokens \<le> int (length gen)")
    case True
    with generate_loop_end [OF Suc.prems(1)] Suc.prems(2) show ?thesis by simp
  next
    case False
    then have room: "int (length gen) < max_tokens" by simp
    from generate_loop_turn [OF Suc.prems(1) room] obtain r ctx' gen' where
      r: "r \<in> outcomes (speculative_step ctx draft target k)"
      and t: "take_tokens max_tokens ctx gen (accepted_tokens r) = (ctx', gen')"
      and g: "eos_token \<in> set (accepted_tokens r) \<Longrightarrow>
          g = \<lparr>gen_ids = gen', gen_prompt = prompt, gen_steps = st + 1, gen_tracker = tracker_update tr r\<rparr>"
        "eos_token \<notin> set (accepted_tokens r) \<Longrightarrow>
          g \<in> outcomes (generate_loop draft target max_tokens k prompt m ctx' gen' (tracker_update tr r) (st + 1))"
      by blast
    from take_tokens_split [OF t room] obtain ys zs where s: "accepted_tokens r = ys @ zs" "gen' = gen @ ys"
      "eos_token \<notin> set ys" "int (length gen') \<le> max_tokens" by blast
    have "length ys \<le> n_accepted r + 1" using step_outcome [OF q r] s(1) by simp
    then have ok: "generation_ok k max_tokens
        \<lparr>gen_ids = gen', gen_prompt = prompt, gen_steps = st + 1, gen_tracker = tracker_update tr r\<rparr>"
      using Suc.prems(2) s step_outcome [OF q r]
      by (simp add: generation_ok_def tracker_update_def total_tokens_generated_def)
    with g Suc.IH show ?thesis by blast
  qed
qed

end
