(* ===== verification/SpecGreedy.thy ===== *)
theory SpecGreedy
  imports SpecLaws
begin

text \<open>
  Which tokens speculative decoding can emit: only those the target model gives a nonzero probability. For a
  target that puts all its probability on one token this determines the output: it is the greedy
  decoding of the target, whatever the draft model proposes.
\<close>

fun supported :: "language_model \<Rightarrow> nat list \<Rightarrow> nat list \<Rightarrow> bool" where
  "supported target ctx [] \<longleftrightarrow> True"
| "supported target ctx (t # ts) \<longleftrightarrow>
     t < length (target ctx) \<and> target ctx ! t \<noteq> 0 \<and> supported target (ctx @ [t]) ts"

lemma supported_append [simp]:
  "supported target ctx (xs @ ys) \<longleftrightarrow> supported target ctx xs \<and> supported target (ctx @ xs) ys"
  by (induction xs arbitrary: ctx) auto

lemma outcomes_corrected:
  assumes p: "pvec n p" and q: "pvec n q" and t: "t \<in> outcomes (multinomial (corrected p q))"
  shows "t < n \<and> p ! t \<noteq> 0"
proof -
  have t': "t < n" "corrected p q ! t \<noteq> 0" using t outcomes_multinomial [OF pvec_corrected [OF p q]] by auto
  then show ?thesis using pvec_nth(1) [OF q t'(1)]
    by (auto simp: corrected_eq [OF p q] excess_def max_def split: if_splits)
qed

lemma verify_phase_supported:
  assumes q: "proper_lm n draft" and p: "proper_lm n target"
  shows "r \<in> outcomes (verify_phase k draft target ctx acc drafted) \<Longrightarrow> drafted_ok n drafted \<Longrightarrow>
    supported target ctx acc \<Longrightarrow> supported target ctx (accepted_tokens r)"
proof (induction drafted arbitrary: acc)
  case Nil
  then show ?case using outcomes_multinomial [OF proper_lmD [OF p]] pvec_nth(2) [OF proper_lmD [OF p]] by auto
next
  case (Cons d rest)
  obtain t pd where d: "d = (t, pd)" by (cases d)
  have tn: "t < n" "0 \<le> pd" "drafted_ok n rest" using Cons.prems(2) by (auto simp: drafted_ok_def d)
  have len: "length (target c) = n" "length (draft c) = n" for c
    using pvec_nth(2) proper_lmD p q by blast+
  let ?p = "target (ctx @ acc)"
  note range = acceptance_prob_range(1) [OF pvec_nth(1) [OF proper_lmD [OF p] tn(1)] tn(2)] acceptance_prob_range(2)
  from Cons.prems(1) consider "acceptance_prob (?p ! t) pd \<noteq> 0" "r \<in> outcomes (verify_phase k draft target ctx (acc @ [t]) rest)"
    | b where "b \<in> outcomes (multinomial (corrected ?p (draft (ctx @ acc))))" "accepted_tokens r = acc @ [b]"
    using tn(1) by (auto simp: d Let_def len outcomes_rand_below [OF range] split: if_splits)
  then show ?case
  proof cases
    case 1
    then have "?p ! t \<noteq> 0" by (auto simp: acceptance_prob_def)
    with Cons.IH [OF 1(2) tn(3)] Cons.prems(3) tn(1) show ?thesis by (simp add: len)
  next
    case 2
    with outcomes_corrected [OF proper_lmD [OF p] proper_lmD [OF q] 2(1)] Cons.prems(3) show ?thesis by (simp add: len)
  qed
qed

lemma step_supported:
  assumes "proper_lm n draft" and "proper_lm n target" and "r \<in> outcomes (speculative_step ctx draft target k)"
  shows "supported target ctx (accepted_tokens r)"
proof -
  from assms(3) obtain drafted where d: "drafted \<in> outcomes (draft_phase draft ctx k)"
    and r: "r \<in> outcomes (verify_phase k draft target ctx [] drafted)" by (auto simp: speculative_step_def)
  from verify_phase_supported [OF assms(1,2) r] draft_phase_ok(2) [OF assms(1) d] show ?thesis by simp
qed

section \<open>Greedy targets\<close>

definition one_hot_lm :: "nat \<Rightarrow> (nat list \<Rightarrow> nat) \<Rightarrow> language_model \<Rightarrow> bool" where
  "one_hot_lm n best target \<longleftrightarrow>
     (\<forall>ctx. best ctx < n \<and> target ctx = map (\<lambda>i. if i = best ctx then 1 else 0) [0..<n])"

fun greedy_decode :: "(nat list \<Rightarrow> nat) \<Rightarrow> nat list \<Rightarrow> nat \<Rightarrow> nat list" where
  "greedy_decode best ctx 0 = []"
| "greedy_decode best ctx (Suc m) =
     (if best ctx = eos_token then [] else best ctx # greedy_decode best (ctx @ [best ctx]) m)"

lemma one_hot_proper: "one_hot_lm n best target \<Longrightarrow> proper_lm n target"
  by (auto simp: one_hot_lm_def proper_lm_def pvec_def interv_sum_list_conv_sum_set_nat)

lemma one_hot_supported:
  "one_hot_lm n best target \<Longrightarrow> supported target ctx (t # ts) \<Longrightarrow> t = best ctx \<and> supported target (ctx @ [best ctx]) ts"
  by (auto simp: one_hot_lm_def split: if_splits)

lemma greedy_split:
  assumes hot: "one_hot_lm n best target"
  shows "supported target ctx ys \<Longrightarrow> eos_token \<notin> set ys \<Longrightarrow> length ys \<le> m \<Longrightarrow>
    greedy_decode best ctx m = ys @ greedy_decode best (ctx @ ys) (m - length ys)"
proof (induction ys arbitrary: ctx m)
  case (Cons t ts)
  from one_hot_supported [OF hot Cons.prems(1)] have t: "t = best ctx" "supported target (ctx @ [best ctx]) ts" by auto
  from Cons.prems(3) obtain m' where "m = Suc m'" by (cases m) auto
  with t Cons.IH [OF t(2), of m'] Cons.prems show ?case by simp
qed simp

lemma greedy_stops: "one_hot_lm n best target \<Longrightarrow> supported target ctx (eos_token # ts) \<Longrightarrow> greedy_decode best ctx m = []"
  using one_hot_supported by (cases m) fastforce+

text \<open>Taking the tokens of a step: the output grows along the greedy decoding, and is complete when an EOS
  or the maximum ended it.\<close>

lemma take_tokens_greedy:
  assumes hot: "one_hot_lm n best target" and s: "supported target ctx ts"
    and t: "take_tokens mx ctx gen ts = (ctx', gen')" and room: "int (length gen) < mx"
  shows "gen @ greedy_decode best ctx (nat mx - length gen) = gen' @ greedy_decode best ctx' (nat mx - length gen')"
    and "eos_token \<in> set ts \<Longrightarrow> gen' = gen @ greedy_decode best ctx (nat mx - length gen)"
proof -
  from take_tokens_split [OF t room] obtain ys zs where sp: "ts = ys @ zs" "gen' = gen @ ys" "ctx' = ctx @ ys"
    "eos_token \<notin> set ys" "int (length gen') \<le> mx" "zs = [] \<or> hd zs = eos_token \<or> int (length gen') = mx" by blast
  have "length ys \<le> nat mx - length gen" using sp(2,5) by simp
  from greedy_split [OF hot _ sp(4) this] s sp(1-3)
  show g: "gen @ greedy_decode best ctx (nat mx - length gen) = gen' @ greedy_decode best ctx' (nat mx - length gen')"
    by simp
  assume eos: "eos_token \<in> set ts"
  have "greedy_decode best ctx' (nat mx - length gen') = []"
  proof (cases "int (length gen') = mx")
    case True
    then have "nat mx - length gen' = 0" by simp
    then show ?thesis by simp
  next
    case False
    from eos sp(1,4) have "zs \<noteq> []" by auto
    with False sp(6) obtain zs' where "zs = eos_token # zs'" by (cases zs) auto
    with greedy_stops [OF hot] s sp(1,3) show ?thesis by (metis supported_append)
  qed
  with g show "gen' = gen @ greedy_decode best ctx (nat mx - length gen)" by simp
qed

lemma generate_loop_greedy:
  assumes hot: "one_hot_lm n best target" and q: "proper_lm n draft"
  shows "g \<in> outcomes (generate_loop draft target mx k prompt m ctx gen tr st) \<Longrightarrow>
    gen_ids g = gen @ greedy_decode best ctx (nat mx - length gen)"
proof (induction m arbitrary: ctx gen tr st)
  case 0
  from generate_loop_end [OF 0] have "gen_ids g = gen" "nat mx - length gen = 0" by auto
  then show ?case by simp
next
  case (Suc m)
  show ?case
  proof (cases "mx \<le> int (length gen)")
    case True
    with generate_loop_end [OF Suc.prems] have "gen_ids g = gen" "nat mx - length gen = 0" by auto
    then show ?thesis by simp
  next
    case False
    then have room: "int (length gen) < mx" by simp
    from generate_loop_turn [OF Suc.prems room] obtain r ctx' gen' where
      r: "r \<in> outcomes (speculative_step ctx draft target k)"
      and t: "take_tokens mx ctx gen (accepted_tokens r) = (ctx', gen')"
      and g: "eos_token \<in> set (accepted_tokens r) \<Longrightarrow> gen_ids g = gen'"
        "eos_token \<notin> set (accepted_tokens r) \<Longrightarrow>
          g \<in> outcomes (generate_loop draft target mx k prompt m ctx' gen' (tracker_update tr r) (st + 1))"
      by (metis generation.select_convs(1))
    note tt = take_tokens_greedy [OF hot step_supported [OF q one_hot_proper [OF hot] r] t room]
    show ?thesis
    proof (cases "eos_token \<in> set (accepted_tokens r)")
      case True
      then show ?thesis using g(1) tt(2) by metis
    next
      case no: False
      from Suc.IH [OF g(2) [OF no]] tt(1) show ?thesis by metis
    qed
  qed
qed

end
