(* ===== verification/SpecBatch.thy ===== *)
theory SpecBatch
  imports SpecGreedy
begin

text \<open>
  Batched speculative decoding, \<open>labs/speculative-decoding/src/v1_batched.py\<close>: the decoder over several
  sequences with its statistics (without the clock), and the formulas for the expected speedup.
\<close>

section \<open>Statistics\<close>

record speedup_stats =
  tokens_generated :: nat
  draft_tokens_proposed :: nat
  draft_tokens_accepted :: nat
  target_calls :: nat
  sequence_steps :: nat

definition new_stats :: speedup_stats where
  "new_stats = \<lparr>tokens_generated = 0, draft_tokens_proposed = 0, draft_tokens_accepted = 0, target_calls = 0,
     sequence_steps = 0\<rparr>"

definition stats_acceptance_rate :: "speedup_stats \<Rightarrow> real" where
  "stats_acceptance_rate s =
     (if draft_tokens_proposed s = 0 then 0 else real (draft_tokens_accepted s) / real (draft_tokens_proposed s))"

definition speedup_vs_standard :: "speedup_stats \<Rightarrow> real" where
  "speedup_vs_standard s = (if sequence_steps s = 0 then 0 else real (tokens_generated s) / real (sequence_steps s))"

text \<open>The constructor call of \<open>merge\<close> leaves \<open>sequence_steps\<close> at its default.\<close>

definition stats_merge :: "speedup_stats \<Rightarrow> speedup_stats \<Rightarrow> speedup_stats" where
  "stats_merge a b = new_stats\<lparr>tokens_generated := tokens_generated a + tokens_generated b,
     draft_tokens_proposed := draft_tokens_proposed a + draft_tokens_proposed b,
     draft_tokens_accepted := draft_tokens_accepted a + draft_tokens_accepted b,
     target_calls := target_calls a + target_calls b\<rparr>"

section \<open>The decoder\<close>

record sequence_state =
  sq_prompt :: "nat list"
  sq_context :: "nat list"
  sq_generated :: "nat list"
  sq_finished :: bool

definition new_sequence :: "nat list \<Rightarrow> sequence_state" where
  "new_sequence prompt = \<lparr>sq_prompt = prompt, sq_context = prompt, sq_generated = [], sq_finished = False\<rparr>"

fun append_tokens :: "nat list \<Rightarrow> int \<Rightarrow> sequence_state \<Rightarrow> sequence_state" where
  "append_tokens [] max_tokens s = s"
| "append_tokens (t # ts) max_tokens s =
     (if sq_finished s then s
      else if t = eos_token then s\<lparr>sq_finished := True\<rparr>
      else let s' = s\<lparr>sq_generated := sq_generated s @ [t], sq_context := sq_context s @ [t]\<rparr>
           in if max_tokens \<le> int (length (sq_generated s')) then s'\<lparr>sq_finished := True\<rparr>
              else append_tokens ts max_tokens s')"

definition stats_update :: "speedup_stats \<Rightarrow> spec_result \<Rightarrow> speedup_stats" where
  "stats_update st r = st\<lparr>sequence_steps := sequence_steps st + 1,
     draft_tokens_proposed := draft_tokens_proposed st + n_draft_proposed r,
     draft_tokens_accepted := draft_tokens_accepted st + n_accepted r,
     tokens_generated := tokens_generated st + total_tokens r\<rparr>"

fun batch_round ::
  "language_model \<Rightarrow> language_model \<Rightarrow> nat \<Rightarrow> int \<Rightarrow> sequence_state list \<Rightarrow> speedup_stats \<Rightarrow>
    (sequence_state list \<times> speedup_stats) dist" where
  "batch_round draft target k max_tokens [] st = return_d ([], st)"
| "batch_round draft target k max_tokens (s # ss) st =
     (if sq_finished s
      then bind_d (batch_round draft target k max_tokens ss st) (\<lambda>(ss', st'). return_d (s # ss', st'))
      else bind_d (speculative_step (sq_context s) draft target k) (\<lambda>r.
           bind_d (batch_round draft target k max_tokens ss (stats_update st r)) (\<lambda>(ss', st').
             return_d (append_tokens (accepted_tokens r) max_tokens s # ss', st'))))"

text \<open>The loop with at most \<open>n\<close> rounds; a run that needs more has no outcome.\<close>

fun batch_loop ::
  "language_model \<Rightarrow> language_model \<Rightarrow> nat \<Rightarrow> int \<Rightarrow> nat \<Rightarrow> sequence_state list \<Rightarrow> speedup_stats \<Rightarrow>
    (nat list list \<times> speedup_stats) dist" where
  "batch_loop draft target k max_tokens n states st =
     (if \<forall>s\<in>set states. sq_finished s then return_d (map sq_generated states, st)
      else case n of
             0 \<Rightarrow> []
           | Suc n' \<Rightarrow>
               bind_d (batch_round draft target k max_tokens states (st\<lparr>target_calls := target_calls st + 1\<rparr>))
                 (\<lambda>(states', st'). batch_loop draft target k max_tokens n' states' st'))"

definition decode_batch ::
  "language_model \<Rightarrow> language_model \<Rightarrow> nat \<Rightarrow> nat list list \<Rightarrow> int \<Rightarrow> (nat list list \<times> speedup_stats) dist" where
  "decode_batch draft target k prompts max_tokens =
     batch_loop draft target k max_tokens (nat (max 1 max_tokens)) (map new_sequence prompts) new_stats"

definition decode_single ::
  "language_model \<Rightarrow> language_model \<Rightarrow> nat \<Rightarrow> nat list \<Rightarrow> int \<Rightarrow> (nat list \<times> speedup_stats) dist" where
  "decode_single draft target k prompt max_tokens =
     bind_d (decode_batch draft target k [prompt] max_tokens) (\<lambda>(results, st). return_d (results ! 0, st))"

section \<open>Formulas\<close>

definition expected_speedup :: "real \<Rightarrow> nat \<Rightarrow> real" where
  "expected_speedup a k = (if 1 \<le> a then real (k + 1) else (1 - a ^ (k + 1)) / (1 - a))"

definition expected_net_speedup :: "real \<Rightarrow> nat \<Rightarrow> real \<Rightarrow> real" where
  "expected_net_speedup a k draft_cost_ratio = expected_speedup a k / (1 + real k * draft_cost_ratio)"

fun bisect :: "nat \<Rightarrow> real \<Rightarrow> nat \<Rightarrow> real \<Rightarrow> real \<Rightarrow> real" where
  "bisect 0 tokens k lo hi = (lo + hi) / 2"
| "bisect (Suc n) tokens k lo hi =
     (let mid = (lo + hi) / 2
      in if expected_speedup mid k < tokens then bisect n tokens k mid hi else bisect n tokens k lo mid)"

definition implied_alpha :: "real \<Rightarrow> nat \<Rightarrow> real" where
  "implied_alpha tokens k =
     (if real (k + 1) \<le> tokens then 1 else if tokens \<le> 1 then 0 else bisect 60 tokens k 0 1)"

definition optimal_K :: "real \<Rightarrow> real \<Rightarrow> nat" where
  "optimal_K a draft_cost_ratio =
     fst (fold (\<lambda>k (best_k, best_net).
       let net = expected_net_speedup a k draft_cost_ratio in if best_net < net then (k, net) else (best_k, best_net))
       [1..<21] (1, 0))"

end
