(* ===== verification/SpecFormulas.thy ===== *)
theory SpecFormulas
  imports SpecBatch
begin

text \<open>
  The batched decoder against greedy decoding, the expected number of tokens of a step, and the
  inversion of the speedup formula.
\<close>

declare batch_loop.simps [simp del]

section \<open>The batch\<close>

definition turn_ok :: "language_model \<Rightarrow> int \<Rightarrow> sequence_state \<Rightarrow> sequence_state \<Rightarrow> bool" where
  "turn_ok target mx s s' \<longleftrightarrow>
     (if sq_finished s then s' = s
      else \<exists>ts. ts \<noteq> [] \<and> supported target (sq_context s) ts \<and> s' = append_tokens ts mx s)"

lemma batch_round_turns:
  assumes q: "proper_lm n draft" and p: "proper_lm n target"
  shows "proper_d (batch_round draft target k mx ss st)"
    and "(ss', st') \<in> outcomes (batch_round draft target k mx ss st) \<Longrightarrow> list_all2 (turn_ok target mx) ss ss'"
proof (induction ss arbitrary: st ss' st')
  case (Cons s ss)
  { case 1 show ?case using Cons(1) by (auto intro!: proper_bind proper_step [OF q p]) }
  { case 2
    show ?case
    proof (cases "sq_finished s")
      case True
      with 2 obtain ss1 where "(ss1, st') \<in> outcomes (batch_round draft target k mx ss st)" "ss' = s # ss1" by auto
      with Cons(2) True show ?thesis by (simp add: turn_ok_def)
    next
      case False
      with 2 obtain r ss1 where r: "r \<in> outcomes (speculative_step (sq_context s) draft target k)"
        and o: "(ss1, st') \<in> outcomes (batch_round draft target k mx ss (stats_update st r))"
        and ss: "ss' = append_tokens (accepted_tokens r) mx s # ss1" by auto
      from Cons(2) [OF o] step_supported [OF q p r] step_outcome [OF q r] False ss
      show ?thesis by (auto simp: turn_ok_def)
    qed }
qed auto

text \<open>A sequence on its way to the greedy decoding of its prompt. The decoder takes at least one token.\<close>

definition cap :: "int \<Rightarrow> nat" where
  "cap mx = max 1 (nat mx)"

definition sequence_right :: "(nat list \<Rightarrow> nat) \<Rightarrow> int \<Rightarrow> nat list \<Rightarrow> sequence_state \<Rightarrow> bool" where
  "sequence_right best mx prompt s \<longleftrightarrow>
     (if sq_finished s then sq_generated s = greedy_decode best prompt (cap mx)
      else length (sq_generated s) < cap mx \<and>
        sq_generated s @ greedy_decode best (sq_context s) (cap mx - length (sq_generated s))
          = greedy_decode best prompt (cap mx))"

lemma new_sequence_right: "sequence_right best mx prompt (new_sequence prompt)"
  by (simp add: sequence_right_def new_sequence_def cap_def)

lemma append_tokens_right:
  assumes hot: "one_hot_lm n best target"
  shows "supported target (sq_context s) ts \<Longrightarrow> sequence_right best mx prompt s \<Longrightarrow> \<not> sq_finished s \<Longrightarrow>
    sequence_right best mx prompt (append_tokens ts mx s) \<and>
    (\<not> sq_finished (append_tokens ts mx s) \<longrightarrow>
       length (sq_generated (append_tokens ts mx s)) = length (sq_generated s) + length ts)"
proof (induction ts arbitrary: s)
  case (Cons t ts)
  from one_hot_supported [OF hot Cons.prems(1)] have t: "t = best (sq_context s)"
    "supported target (sq_context s @ [best (sq_context s)]) ts" by auto
  have s: "length (sq_generated s) < cap mx"
    "sq_generated s @ greedy_decode best (sq_context s) (cap mx - length (sq_generated s)) = greedy_decode best prompt (cap mx)"
    using Cons.prems(2,3) by (simp_all add: sequence_right_def)
  obtain m where m: "cap mx - length (sq_generated s) = Suc m" using s(1) by (metis Suc_diff_Suc)
  define s' where "s' = s\<lparr>sq_generated := sq_generated s @ [t], sq_context := sq_context s @ [t]\<rparr>"
  have len: "cap mx - length (sq_generated s') = m" using m by (simp add: s'_def)
  show ?case
  proof (cases "t = eos_token")
    case True
    with s(2) m t(1) Cons.prems(3) show ?thesis by (simp add: sequence_right_def)
  next
    case False
    with s(2) m t(1) have g: "sq_generated s' @ greedy_decode best (sq_context s') m = greedy_decode best prompt (cap mx)"
      by (simp add: s'_def)
    show ?thesis
    proof (cases "mx \<le> int (length (sq_generated s'))")
      case True
      then have "m = 0" using len m by (simp add: s'_def cap_def)
      with g have "sq_generated s' = greedy_decode best prompt (cap mx)" by simp
      with True False Cons.prems(3) show ?thesis
        by (simp add: sequence_right_def Let_def flip: s'_def)
    next
      case no: False
      then have "length (sq_generated s') < cap mx" by (simp add: cap_def)
      with g len Cons.prems(3) have "sequence_right best mx prompt s'" by (simp add: sequence_right_def s'_def)
      moreover have "supported target (sq_context s') ts" "\<not> sq_finished s'" using t Cons.prems(3) by (simp_all add: s'_def)
      ultimately have "sequence_right best mx prompt (append_tokens ts mx s') \<and> (\<not> sq_finished (append_tokens ts mx s') \<longrightarrow>
          length (sq_generated (append_tokens ts mx s')) = length (sq_generated s') + length ts)" using Cons.IH by blast
      moreover have "append_tokens (t # ts) mx s = append_tokens ts mx s'"
        using no False Cons.prems(3) by (simp add: Let_def flip: s'_def)
      ultimately show ?thesis by (simp add: s'_def)
    qed
  qed
qed simp

text \<open>What is left to do: every unfinished sequence needs at most \<open>m\<close> more rounds.\<close>

definition left_at_most :: "int \<Rightarrow> nat \<Rightarrow> sequence_state \<Rightarrow> bool" where
  "left_at_most mx m s \<longleftrightarrow> sq_finished s \<or> cap mx \<le> length (sq_generated s) + m"

lemma turn_right:
  assumes hot: "one_hot_lm n best target" and t: "turn_ok target mx s s'"
    and s: "sequence_right best mx prompt s" "left_at_most mx (Suc m) s"
  shows "sequence_right best mx prompt s' \<and> left_at_most mx m s'"
proof (cases "sq_finished s")
  case True
  with t s show ?thesis by (simp add: turn_ok_def left_at_most_def)
next
  case False
  with t obtain ts where ts: "ts \<noteq> []" "supported target (sq_context s) ts" "s' = append_tokens ts mx s"
    by (auto simp: turn_ok_def)
  from append_tokens_right [OF hot ts(2) s(1) False] ts(1,3) s(2) False show ?thesis
    by (cases ts) (auto simp: left_at_most_def)
qed

lemma batch_loop_greedy:
  assumes hot: "one_hot_lm n best target" and q: "proper_lm n draft"
  shows "list_all2 (sequence_right best mx) prompts states \<Longrightarrow> \<forall>s\<in>set states. left_at_most mx m s \<Longrightarrow>
    proper_d (batch_loop draft target k mx m states st) \<and>
    (\<forall>(gen, st')\<in>outcomes (batch_loop draft target k mx m states st). gen = map (\<lambda>p. greedy_decode best p (cap mx)) prompts)"
proof (induction m arbitrary: states st)
  case 0
  have "sq_finished s \<and> sq_generated s = greedy_decode best p (cap mx)"
    if "sequence_right best mx p s" "left_at_most mx 0 s" for p s
    using that by (auto simp: sequence_right_def left_at_most_def split: if_splits)
  then have "list_all2 (\<lambda>p s. sq_finished s \<and> sq_generated s = greedy_decode best p (cap mx)) prompts states"
    using 0 by (auto simp: list_all2_conv_all_nth)
  then have "(\<forall>s\<in>set states. sq_finished s) \<and> map sq_generated states = map (\<lambda>p. greedy_decode best p (cap mx)) prompts"
    by (induction rule: list_all2_induct) auto
  then show ?case by (subst (1 2) batch_loop.simps) auto
next
  case (Suc m)
  let ?st = "st\<lparr>target_calls := target_calls st + 1\<rparr>"
  show ?case
  proof (cases "\<forall>s\<in>set states. sq_finished s")
    case True
    with Suc.prems(1) have "map sq_generated states = map (\<lambda>p. greedy_decode best p (cap mx)) prompts"
      by (intro nth_equalityI) (auto simp: list_all2_conv_all_nth sequence_right_def)
    with True show ?thesis by (subst (1 2) batch_loop.simps) auto
  next
    case False
    have next_turn: "proper_d (batch_loop draft target k mx m ss' st') \<and>
        (\<forall>(gen, st'')\<in>outcomes (batch_loop draft target k mx m ss' st'). gen = map (\<lambda>p. greedy_decode best p (cap mx)) prompts)"
      if o: "(ss', st') \<in> outcomes (batch_round draft target k mx states ?st)" for ss' st'
    proof (rule Suc.IH)
      from batch_round_turns(2) [OF q one_hot_proper [OF hot] o] have t: "list_all2 (turn_ok target mx) states ss'" .
      show "list_all2 (sequence_right best mx) prompts ss'"
        using t Suc.prems turn_right [OF hot] by (fastforce simp: list_all2_conv_all_nth)
      show "\<forall>s\<in>set ss'. left_at_most mx m s"
        using t Suc.prems turn_right [OF hot] by (fastforce simp: list_all2_conv_all_nth in_set_conv_nth)
    qed
    have turn: "batch_loop draft target k mx (Suc m) states st
        = bind_d (batch_round draft target k mx states ?st) (\<lambda>(ss', st'). batch_loop draft target k mx m ss' st')"
      using False by (subst batch_loop.simps) auto
    have "proper_d (batch_loop draft target k mx (Suc m) states st)"
      unfolding turn by (rule proper_bind [OF batch_round_turns(1) [OF q one_hot_proper [OF hot]]]) (use next_turn in auto)
    moreover have "gen = map (\<lambda>p. greedy_decode best p (cap mx)) prompts"
      if "(gen, st'') \<in> outcomes (batch_loop draft target k mx (Suc m) states st)" for gen st''
    proof -
      from that obtain ss' st' where "(ss', st') \<in> outcomes (batch_round draft target k mx states ?st)"
        and o: "(gen, st'') \<in> outcomes (batch_loop draft target k mx m ss' st')"
        unfolding turn outcomes_bind by (auto simp only: UN_iff split: prod.splits)
      from next_turn [OF this(1)] o show ?thesis by blast
    qed
    ultimately show ?thesis by blast
  qed
qed

text \<open>
  The formula of \<open>expected_speedup\<close> is the expected number of tokens of a step of the modelled decoder, and
  \<open>implied_alpha\<close> inverts it up to the width of its last bisection interval.
\<close>

section \<open>The expected number of tokens of a step\<close>

definition token_count_of :: "spec_result \<Rightarrow> real" where
  "token_count_of r = real (total_tokens r)"

lemma exp_d_affine: "proper_d d \<Longrightarrow> exp_d d (\<lambda>x. a * f x + c) = a * exp_d d f + c"
proof -
  have "exp_d d (\<lambda>x. a * f x + c) = a * exp_d d f + total_d d * c"
    by (induction d) (auto simp: total_d_def algebra_simps)
  then show "proper_d d \<Longrightarrow> exp_d d (\<lambda>x. a * f x + c) = a * exp_d d f + c" by (simp add: proper_d_def)
qed

definition acceptance_rate :: "nat \<Rightarrow> real list \<Rightarrow> real list \<Rightarrow> real" where
  "acceptance_rate n p q = (\<Sum>x<n. q ! x * accept_at p q x)"

lemma expected_verify:
  assumes q: "proper_lm n draft" and p: "proper_lm n target" and t: "t < n" and rest: "drafted_ok n rest"
  shows "exp_d (verify_phase k draft target ctx acc ((t, draft (ctx @ acc) ! t) # rest)) token_count_of
    = accept_at (target (ctx @ acc)) (draft (ctx @ acc)) t *
        exp_d (verify_phase k draft target ctx (acc @ [t]) rest) token_count_of
      + (1 - accept_at (target (ctx @ acc)) (draft (ctx @ acc)) t) * real (length acc + 1)"
proof -
  let ?p = "target (ctx @ acc)" and ?q = "draft (ctx @ acc)"
  have v: "pvec n ?p" "pvec n ?q" using p q by auto
  have "proper_d (multinomial (corrected ?p ?q))" using pvec_corrected [OF v] by blast
  then have c: "exp_d (multinomial (corrected ?p ?q)) (\<lambda>r. 1 + real (length acc)) = 1 + real (length acc)"
    by (rule exp_d_const)
  have "0 \<le> acceptance_prob (?p ! t) (?q ! t)" using pvec_nth(1) v t by simp
  then show ?thesis
    using t pvec_nth(2) [OF v(1)] pvec_nth(2) [OF v(2)]
    by (simp add: Let_def exp_d_bind exp_d_rand_below accept_at_def token_count_of_def total_tokens_def c)
qed

lemma expected_tokens_from:
  assumes q: "proper_lm n draft" and p: "proper_lm n target"
    and rate: "\<And>c. acceptance_rate n (target c) (draft c) = a"
  shows "exp_d (bind_d (draft_phase draft (ctx @ acc) k) (\<lambda>drafted. verify_phase m draft target ctx acc drafted)) token_count_of
    = real (length acc) + (\<Sum>i\<le>k. a ^ i)"
proof (induction k arbitrary: acc)
  case 0
  have "exp_d (multinomial (target (ctx @ acc))) (\<lambda>b. 1 + real (length acc)) = 1 + real (length acc)"
    using p by (intro exp_d_const) auto
  then show ?case by (simp add: exp_d_bind token_count_of_def total_tokens_def)
next
  case (Suc k)
  let ?p = "target (ctx @ acc)" and ?q = "draft (ctx @ acc)"
  let ?L = "(\<Sum>i\<le>k. a ^ i)" and ?d = "\<lambda>t. draft_phase draft (ctx @ acc @ [t]) k"
  have "exp_d (?d t) (\<lambda>rest. exp_d (verify_phase m draft target ctx acc ((t, ?q ! t) # rest)) token_count_of)
      = accept_at ?p ?q t * ?L + real (length acc + 1)" if t: "t < n" for t
  proof -
    have "exp_d (?d t) (\<lambda>rest. exp_d (verify_phase m draft target ctx acc ((t, ?q ! t) # rest)) token_count_of)
      = exp_d (?d t) (\<lambda>rest. accept_at ?p ?q t * exp_d (verify_phase m draft target ctx (acc @ [t]) rest) token_count_of
          + (1 - accept_at ?p ?q t) * real (length acc + 1))"
      using expected_verify [OF q p t] draft_phase_ok(2) [OF q] by (intro exp_d_cong) blast
    also have "\<dots> = accept_at ?p ?q t * exp_d (?d t) (\<lambda>rest. exp_d (verify_phase m draft target ctx (acc @ [t]) rest) token_count_of)
          + (1 - accept_at ?p ?q t) * real (length acc + 1)"
      by (rule exp_d_affine [OF draft_phase_ok(1) [OF q]])
    finally show ?thesis using Suc.IH [of "acc @ [t]"] by (simp add: exp_d_bind algebra_simps)
  qed
  then have "exp_d (bind_d (draft_phase draft (ctx @ acc) (Suc k)) (\<lambda>drafted. verify_phase m draft target ctx acc drafted)) token_count_of
      = (\<Sum>t<n. ?q ! t * (accept_at ?p ?q t * ?L + real (length acc + 1)))"
    by (simp add: exp_d_bind bind_d_assoc exp_d_multinomial [OF proper_lmD [OF q]])
  also have "\<dots> = acceptance_rate n ?p ?q * ?L + real (length acc + 1)"
    using pvec_sum [OF proper_lmD [OF q], of "ctx @ acc"]
    by (simp add: acceptance_rate_def distrib_left sum.distrib mult.assoc [symmetric] flip: sum_distrib_right)
  also have "\<dots> = real (length acc) + (\<Sum>i\<le>Suc k. a ^ i)"
    unfolding rate sum.atMost_Suc_shift by (simp add: sum_distrib_left)
  finally show ?case .
qed

section \<open>The closed form and its inverse\<close>

lemma expected_speedup_sum: "a \<le> 1 \<Longrightarrow> expected_speedup a k = (\<Sum>i\<le>k. a ^ i)"
  by (auto simp: expected_speedup_def sum_gp0)

lemma expected_speedup_mono: "0 \<le> a \<Longrightarrow> a \<le> b \<Longrightarrow> b \<le> 1 \<Longrightarrow> expected_speedup a k \<le> expected_speedup b k"
  by (simp add: expected_speedup_sum sum_mono power_mono)

lemma expected_speedup_strict:
  assumes "0 \<le> a" "a < b" "b \<le> 1" "1 \<le> k" shows "expected_speedup a k < expected_speedup b k"
proof -
  have "(\<Sum>i\<le>k. a ^ i) < (\<Sum>i\<le>k. b ^ i)"
    using assms by (intro sum_strict_mono_ex1) (auto intro!: power_mono bexI [of _ 1])
  with assms show ?thesis by (simp add: expected_speedup_sum)
qed

lemma bisect_close:
  assumes "1 \<le> k" "0 \<le> a" "a \<le> 1"
  shows "0 \<le> lo \<Longrightarrow> lo \<le> a \<Longrightarrow> a \<le> hi \<Longrightarrow> hi \<le> 1 \<Longrightarrow>
    \<bar>bisect n (expected_speedup a k) k lo hi - a\<bar> \<le> (hi - lo) / 2 ^ (n + 1)"
proof (induction n arbitrary: lo hi)
  case (Suc n)
  let ?mid = "(lo + hi) / 2"
  show ?case
  proof (cases "expected_speedup ?mid k < expected_speedup a k")
    case True
    then have "?mid \<le> a" using expected_speedup_mono [of a ?mid k] assms Suc.prems by force
    then have "\<bar>bisect n (expected_speedup a k) k ?mid hi - a\<bar> \<le> (hi - ?mid) / 2 ^ (n + 1)"
      using Suc.prems by (intro Suc.IH) auto
    with True show ?thesis by (simp add: Let_def field_simps)
  next
    case False
    then have "a \<le> ?mid" using expected_speedup_strict [of ?mid a k] assms Suc.prems by force
    then have "\<bar>bisect n (expected_speedup a k) k lo ?mid - a\<bar> \<le> (?mid - lo) / 2 ^ (n + 1)"
      using Suc.prems by (intro Suc.IH) auto
    with False show ?thesis by (simp add: Let_def field_simps)
  qed
qed (simp add: field_simps abs_le_iff)

lemma implied_alpha_close:
  assumes "1 \<le> k" "0 \<le> a" "a \<le> 1"
  shows "\<bar>implied_alpha (expected_speedup a k) k - a\<bar> \<le> 1 / 2 ^ 61"
proof -
  consider "a = 0" | "a = 1" | "0 < a" "a < 1" using assms by linarith
  then show ?thesis
  proof cases
    case 1
    then show ?thesis using assms by (simp add: implied_alpha_def expected_speedup_def)
  next
    case 2
    then show ?thesis by (simp add: implied_alpha_def expected_speedup_def)
  next
    case 3
    then have "expected_speedup 0 k < expected_speedup a k" "expected_speedup a k < expected_speedup 1 k"
      using assms by (simp_all add: expected_speedup_strict)
    then have "1 < expected_speedup a k" "expected_speedup a k < real (k + 1)" by (simp_all add: expected_speedup_def)
    moreover have "\<bar>bisect 60 (expected_speedup a k) k 0 1 - a\<bar> \<le> (1 - 0) / 2 ^ (60 + 1)"
      by (rule bisect_close) (use assms in auto)
    ultimately show ?thesis by (simp add: implied_alpha_def)
  qed
qed

text \<open>The width with the best net speedup is the first maximum over 1 to 20.\<close>

lemma first_max_fold:
  fixes f :: "nat \<Rightarrow> real"
  shows "\<forall>k. fst (fold (\<lambda>k (bk, bn). if bn < f k then (k, f k) else (bk, bn)) ks (b, v)) = k \<longrightarrow>
    v \<le> snd (fold (\<lambda>k (bk, bn). if bn < f k then (k, f k) else (bk, bn)) ks (b, v)) \<and>
    (\<forall>j\<in>set ks. f j \<le> snd (fold (\<lambda>k (bk, bn). if bn < f k then (k, f k) else (bk, bn)) ks (b, v))) \<and>
    (fold (\<lambda>k (bk, bn). if bn < f k then (k, f k) else (bk, bn)) ks (b, v) = (b, v) \<or>
      k \<in> set ks \<and> f k = snd (fold (\<lambda>k (bk, bn). if bn < f k then (k, f k) else (bk, bn)) ks (b, v)))"
proof (induction ks arbitrary: b v)
  case (Cons j ks)
  show ?case
  proof (cases "v < f j")
    case True
    with Cons.IH [of j "f j"] show ?thesis by fastforce
  next
    case False
    with Cons.IH [of b v] show ?thesis by fastforce
  qed
qed simp

lemma expected_speedup_pos: "0 \<le> a \<Longrightarrow> 0 < expected_speedup a k"
  using sum_nonneg [of "{..k} - {0}" "\<lambda>i. a ^ i"] expected_speedup_sum [of a k]
  by (cases "1 \<le> a") (simp add: expected_speedup_def, simp add: sum.atMost_shift add_pos_nonneg sum_nonneg)

lemma optimal_K_best:
  assumes "0 \<le> a" "0 \<le> c"
  shows "optimal_K a c \<in> {1..20} \<and> (\<forall>j\<in>{1..20}. expected_net_speedup a j c \<le> expected_net_speedup a (optimal_K a c) c)"
proof -
  let ?f = "\<lambda>k. expected_net_speedup a k c"
  let ?r = "fold (\<lambda>k (bk, bn). if bn < ?f k then (k, ?f k) else (bk, bn)) [1..<21] (1, 0)"
  have o: "optimal_K a c = fst ?r" by (simp add: optimal_K_def Let_def case_prod_beta)
  have "0 < ?f 1" using assms by (auto simp: expected_net_speedup_def expected_speedup_pos intro!: divide_pos_pos add_pos_nonneg)
  then have "?r \<noteq> (1, 0)"
    using first_max_fold [rule_format, where f = ?f and ks = "[1..<21]" and b = 1 and v = 0, OF refl] by force
  with first_max_fold [rule_format, where f = ?f and ks = "[1..<21]" and b = 1 and v = 0, OF refl] o
  show ?thesis by (simp add: atLeastLessThanSuc_atLeastAtMost [of 1 20, simplified] del: upt_conv_Cons)
qed

end
