(* ===== verification/SpecTree.thy ===== *)
theory SpecTree
  imports SpecGreedy
begin

text \<open>
  Draft trees, self-speculation and acceptance metrics, \<open>labs/speculative-decoding/src/v2_tree.py\<close>. \<open>topk\<close> is
  \<open>torch.topk\<close> (the indices of the largest entries; the order of equal ones is its own), \<open>forward\<close> the
  forward pass with early exit, from a context to the draft and the target logits.
\<close>

section \<open>Trees\<close>

datatype draft_tree =
  DraftTree (dt_token: nat) (dt_prob: real) (dt_depth: nat) (dt_path: "nat list") (dt_children: "draft_tree list")

definition is_leaf :: "draft_tree \<Rightarrow> bool" where
  "is_leaf t \<longleftrightarrow> dt_children t = []"

fun all_leaves :: "draft_tree \<Rightarrow> draft_tree list" where
  "all_leaves (DraftTree t p d path cs) =
     (if cs = [] then [DraftTree t p d path cs] else concat (map all_leaves cs))"

fun all_nodes :: "draft_tree \<Rightarrow> draft_tree list" where
  "all_nodes (DraftTree t p d path cs) = DraftTree t p d path cs # concat (map all_nodes cs)"

function expand_tree ::
  "(real list \<Rightarrow> nat \<Rightarrow> nat list) \<Rightarrow> language_model \<Rightarrow> nat \<Rightarrow> nat \<Rightarrow> nat list \<Rightarrow> nat \<Rightarrow> draft_tree list" where
  "expand_tree topk draft width depth path cur =
     (if depth \<le> cur then []
      else let probs = draft path
           in map (\<lambda>t. DraftTree t (probs ! t) cur (path @ [t]) (expand_tree topk draft width depth (path @ [t]) (cur + 1)))
                (topk probs (min width (length probs))))"
  by pat_completeness auto
termination by (relation "measure (\<lambda>(_, _, _, depth, _, cur). depth - cur)") auto

declare expand_tree.simps [simp del]

definition build_draft_tree ::
  "(real list \<Rightarrow> nat \<Rightarrow> nat list) \<Rightarrow> nat list \<Rightarrow> language_model \<Rightarrow> nat \<Rightarrow> nat \<Rightarrow> draft_tree list" where
  "build_draft_tree topk ctx draft width depth = expand_tree topk draft width depth ctx 0"

fun node_paths :: "nat list \<Rightarrow> draft_tree \<Rightarrow> nat list list" where
  "node_paths current (DraftTree t p d path cs) =
     (if cs = [] then [current @ [t]] else concat (map (node_paths (current @ [t])) cs))"

definition collect_paths :: "draft_tree list \<Rightarrow> nat list list" where
  "collect_paths nodes = concat (map (node_paths []) nodes)"

section \<open>Verification of a tree\<close>

record tree_result =
  best_path :: "nat list"
  tr_accepted :: nat
  tr_bonus :: nat
  all_leaves_checked :: nat

text \<open>Taking a probability out of range raises.\<close>

fun walk_path :: "language_model \<Rightarrow> language_model \<Rightarrow> nat list \<Rightarrow> nat list \<Rightarrow> nat list \<Rightarrow> nat list dist" where
  "walk_path draft target ctx acc [] = return_d acc"
| "walk_path draft target ctx acc (t # ts) =
     (let p_draft = draft (ctx @ acc); p_target = target (ctx @ acc)
      in if length p_draft \<le> t \<or> length p_target \<le> t then []
         else bind_d (rand_below (acceptance_prob (p_target ! t) (p_draft ! t))) (\<lambda>ok.
                if ok then walk_path draft target ctx (acc @ [t]) ts else return_d acc))"

fun longest_path ::
  "language_model \<Rightarrow> language_model \<Rightarrow> nat list \<Rightarrow> nat list list \<Rightarrow> nat list \<Rightarrow> int \<Rightarrow> nat list dist" where
  "longest_path draft target ctx [] best best_length = return_d best"
| "longest_path draft target ctx (path # paths) best best_length =
     bind_d (walk_path draft target ctx [] path) (\<lambda>accepted.
       if best_length < int (length accepted)
       then longest_path draft target ctx paths accepted (int (length accepted))
       else longest_path draft target ctx paths best best_length)"

definition verify_tree ::
  "nat list \<Rightarrow> draft_tree list \<Rightarrow> language_model \<Rightarrow> language_model \<Rightarrow> tree_result dist" where
  "verify_tree ctx roots draft target =
     (let paths = collect_paths roots
      in bind_d (longest_path draft target ctx paths [] (- 1)) (\<lambda>best.
         bind_d (multinomial (target (ctx @ best))) (\<lambda>bonus.
           return_d \<lparr>best_path = best, tr_accepted = length best, tr_bonus = bonus, all_leaves_checked = length paths\<rparr>)))"

section \<open>Self-speculation\<close>

definition softmax :: "real list \<Rightarrow> real list" where
  "softmax xs = map (\<lambda>x. exp x / (\<Sum>y\<leftarrow>xs. exp y)) xs"

type_synonym early_exit = "nat list \<Rightarrow> real list \<times> real list"

fun self_draft :: "early_exit \<Rightarrow> nat list \<Rightarrow> nat \<Rightarrow> (nat \<times> real) list dist" where
  "self_draft forward ctx 0 = return_d []"
| "self_draft forward ctx (Suc k) =
     (let draft_p = softmax (fst (forward ctx))
      in bind_d (multinomial draft_p) (\<lambda>t.
         bind_d (self_draft forward (ctx @ [t]) k) (\<lambda>rest. return_d ((t, draft_p ! t) # rest))))"

text \<open>The loop keeps the verified context beside the accepted tokens.\<close>

fun self_verify ::
  "nat \<Rightarrow> early_exit \<Rightarrow> nat list \<Rightarrow> nat list \<Rightarrow> nat \<Rightarrow> (nat \<times> real) list \<Rightarrow> spec_result dist" where
  "self_verify k forward verify_ctx acc n [] =
     bind_d (multinomial (softmax (snd (forward verify_ctx)))) (\<lambda>b.
       return_d \<lparr>accepted_tokens = acc @ [b], n_draft_proposed = k, n_accepted = n, bonus_token = b\<rparr>)"
| "self_verify k forward verify_ctx acc n ((t, p_draft) # rest) =
     (let target_p = softmax (snd (forward verify_ctx))
      in if length target_p \<le> t then []
         else bind_d (rand_below (acceptance_prob (target_p ! t) p_draft)) (\<lambda>ok.
           if ok then self_verify k forward (verify_ctx @ [t]) (acc @ [t]) (n + 1) rest
           else let draft_full_p = softmax (fst (forward verify_ctx))
                in if length target_p \<noteq> length draft_full_p then []
                   else bind_d (multinomial (corrected target_p draft_full_p)) (\<lambda>r.
                     return_d \<lparr>accepted_tokens = acc @ [r], n_draft_proposed = k, n_accepted = n, bonus_token = r\<rparr>)))"

definition self_speculative_step :: "early_exit \<Rightarrow> nat list \<Rightarrow> nat \<Rightarrow> spec_result dist" where
  "self_speculative_step forward ctx k =
     bind_d (self_draft forward ctx k) (\<lambda>drafted. self_verify k forward ctx [] 0 drafted)"

section \<open>Metrics\<close>

record acceptance_metrics =
  accepted_per_step :: "nat list"
  am_target_calls :: nat

definition new_metrics :: acceptance_metrics where
  "new_metrics = \<lparr>accepted_per_step = [], am_target_calls = 0\<rparr>"

definition record_step :: "acceptance_metrics \<Rightarrow> nat \<Rightarrow> acceptance_metrics" where
  "record_step m n = m\<lparr>accepted_per_step := accepted_per_step m @ [n], am_target_calls := am_target_calls m + 1\<rparr>"

definition mean_accepted :: "acceptance_metrics \<Rightarrow> real" where
  "mean_accepted m =
     (let xs = accepted_per_step m in if xs = [] then 0 else real (sum_list xs) / real (length xs))"

definition median :: "nat list \<Rightarrow> real" where
  "median xs =
     (let s = sort xs; n = length xs
      in if odd n then real (s ! (n div 2)) else (real (s ! (n div 2 - 1)) + real (s ! (n div 2))) / 2)"

definition p50_accepted :: "acceptance_metrics \<Rightarrow> real" where
  "p50_accepted m = (let xs = accepted_per_step m in if xs = [] then 0 else median xs)"

definition p95_accepted :: "acceptance_metrics \<Rightarrow> real" where
  "p95_accepted m =
     (let xs = accepted_per_step m
      in if xs = [] then 0
         else let idx = max 0 (\<lfloor>95 / 100 * real (length xs)\<rfloor> - 1) in real (sort xs ! nat idx))"

definition target_calls_per_1k_tokens :: "acceptance_metrics \<Rightarrow> real" where
  "target_calls_per_1k_tokens m = (if mean_accepted m \<le> 0 then 1000 else 1000 / (mean_accepted m + 1))"

end
