(* ===== verification/SpecTreeLaws.thy ===== *)
theory SpecTreeLaws
  imports SpecTree
begin

text \<open>
  The shape of a draft tree, what its verification returns, and self-speculation as an instance of
  speculative decoding.
\<close>

definition topk_ok :: "(real list \<Rightarrow> nat \<Rightarrow> nat list) \<Rightarrow> bool" where
  "topk_ok topk \<longleftrightarrow>
     (\<forall>ps k. k \<le> length ps \<longrightarrow> length (topk ps k) = k \<and> (\<forall>i\<in>set (topk ps k). i < length ps))"

section \<open>Shape\<close>

lemma sum_list_const_map: "(\<And>x. x \<in> set xs \<Longrightarrow> f x = c) \<Longrightarrow> (\<Sum>x\<leftarrow>xs. f x) = length xs * (c :: nat)"
  by (induction xs) auto

lemma geometric_step: "(\<Sum>i=1..Suc m. (w :: nat) ^ i) = w + w * (\<Sum>i=1..m. w ^ i)"
proof (induction m)
  case (Suc m)
  with arg_cong [OF Suc.IH, of "\<lambda>x. w * x"] show ?case by (simp add: distrib_left)
qed simp

lemma length_concat_map: "length (concat (map f xs)) = (\<Sum>x\<leftarrow>xs. length (f x))"
  by (simp add: length_concat comp_def)

lemma expand_Suc:
  assumes "topk_ok topk" and "proper_lm n draft" and "cur < depth"
  obtains tokens where "length tokens = min width n" and "\<forall>t\<in>set tokens. t < n"
    and "expand_tree topk draft width depth path cur =
      map (\<lambda>t. DraftTree t (draft path ! t) cur (path @ [t]) (expand_tree topk draft width depth (path @ [t]) (Suc cur))) tokens"
proof (rule that)
  let ?tokens = "topk (draft path) (min width n)"
  have "length (draft path) = n" using assms(2) pvec_nth(2) by blast
  with assms(1) [unfolded topk_ok_def, rule_format, of "min width n" "draft path"]
  show "length ?tokens = min width n" "\<forall>t\<in>set ?tokens. t < n" by simp_all
  show "expand_tree topk draft width depth path cur =
      map (\<lambda>t. DraftTree t (draft path ! t) cur (path @ [t]) (expand_tree topk draft width depth (path @ [t]) (Suc cur))) ?tokens"
    using assms(3) \<open>length (draft path) = n\<close> by (subst expand_tree.simps) (simp add: Let_def)
qed

lemma expand_shape:
  assumes tk: "topk_ok topk" and q: "proper_lm n draft" and w: "w = min width n"
  shows "depth = cur + Suc d \<Longrightarrow>
    length (concat (map (node_paths c) (expand_tree topk draft width depth path cur))) = w ^ Suc d \<and>
    (\<forall>p\<in>set (concat (map (node_paths c) (expand_tree topk draft width depth path cur))).
      \<exists>ts. p = c @ ts \<and> length ts = Suc d \<and> (\<forall>t\<in>set ts. t < n)) \<and>
    length (concat (map all_nodes (expand_tree topk draft width depth path cur))) = (\<Sum>i=1..Suc d. w ^ i)"
proof (induction d arbitrary: c path cur)
  case 0
  then have "cur < depth" by simp
  from expand_Suc [OF tk q this] obtain tokens where t: "length tokens = w" "\<forall>t\<in>set tokens. t < n"
    "expand_tree topk draft width depth path cur =
      map (\<lambda>t. DraftTree t (draft path ! t) cur (path @ [t]) (expand_tree topk draft width depth (path @ [t]) (Suc cur))) tokens"
    unfolding w by blast
  have "expand_tree topk draft width depth p (Suc cur) = []" for p using 0 by (subst expand_tree.simps) simp
  with t show ?case by (auto simp: length_concat comp_def sum_list_const_map)
next
  case (Suc d)
  then have "cur < depth" "depth = Suc cur + Suc d" by simp_all
  from expand_Suc [OF tk q this(1)] obtain tokens where t: "length tokens = w" "\<forall>t\<in>set tokens. t < n"
    "expand_tree topk draft width depth path cur =
      map (\<lambda>t. DraftTree t (draft path ! t) cur (path @ [t]) (expand_tree topk draft width depth (path @ [t]) (Suc cur))) tokens"
    unfolding w by blast
  let ?sub = "\<lambda>t. expand_tree topk draft width depth (path @ [t]) (Suc cur)"
  note IH = Suc.IH [OF \<open>depth = Suc cur + Suc d\<close>]
  have sub: "?sub t \<noteq> []" if "t \<in> set tokens" for t
    using that t(1) IH [of "[]" "path @ [t]"] by (cases "w = 0") auto
  have paths: "concat (map (node_paths c) (expand_tree topk draft width depth path cur))
      = concat (map (\<lambda>t. concat (map (node_paths (c @ [t])) (?sub t))) tokens)"
    unfolding t(3) by (rule arg_cong [where f = concat]) (use sub in \<open>simp add: comp_def\<close>)
  have nodes: "length (concat (map all_nodes (expand_tree topk draft width depth path cur)))
      = (\<Sum>t\<leftarrow>tokens. Suc (length (concat (map all_nodes (?sub t)))))"
    unfolding t(3) by (simp add: length_concat comp_def)
  have "(\<Sum>i=1..Suc (Suc d). w ^ i) = w + w * (\<Sum>i=1..Suc d. w ^ i)"
    by (rule geometric_step)
  then have "length (concat (map all_nodes (expand_tree topk draft width depth path cur))) = (\<Sum>i=1..Suc (Suc d). w ^ i)"
    using IH t(1) by (simp add: nodes sum_list_const_map [where c = "Suc (\<Sum>i=1..Suc d. w ^ i)"] del: sum.cl_ivl_Suc)
  moreover have "length (concat (map (\<lambda>t. concat (map (node_paths (c @ [t])) (?sub t))) tokens)) = w ^ Suc (Suc d)"
    by (subst length_concat_map, subst sum_list_const_map [where c = "w ^ Suc d"]) (use IH t(1) in simp_all)
  moreover have "\<exists>ts. p = c @ ts \<and> length ts = Suc (Suc d) \<and> (\<forall>t\<in>set ts. t < n)"
    if p: "p \<in> set (concat (map (\<lambda>t. concat (map (node_paths (c @ [t])) (?sub t))) tokens))" for p
  proof -
    from p obtain u where u: "u \<in> set tokens" "p \<in> set (concat (map (node_paths (c @ [u])) (?sub u)))" by auto
    from IH [of "c @ [u]" "path @ [u]"] u(2) obtain ts where "p = (c @ [u]) @ ts" "length ts = Suc d" "\<forall>t\<in>set ts. t < n"
      by blast
    with u(1) t(2) show ?thesis by (intro exI [of _ "u # ts"]) auto
  qed
  ultimately show ?case unfolding paths by blast
qed

section \<open>Verification\<close>

lemma walk_path_outcome:
  assumes q: "proper_lm n draft" and p: "proper_lm n target"
  shows "\<forall>t\<in>set ts. t < n \<Longrightarrow> supported target ctx acc \<Longrightarrow>
    proper_d (walk_path draft target ctx acc ts) \<and>
    (\<forall>r\<in>outcomes (walk_path draft target ctx acc ts). supported target ctx r \<and> (\<exists>k\<le>length ts. r = acc @ take k ts))"
proof (induction ts arbitrary: acc)
  case (Cons t ts)
  let ?p = "target (ctx @ acc)" and ?q = "draft (ctx @ acc)"
  have t: "t < n" "\<forall>t\<in>set ts. t < n" using Cons.prems(1) by auto
  have v: "pvec n ?p" "pvec n ?q" using p q by auto
  let ?a = "acceptance_prob (?p ! t) (?q ! t)"
  have range: "0 \<le> ?a" "?a \<le> 1" using pvec_nth(1) v t(1) by simp_all
  have w: "walk_path draft target ctx acc (t # ts) = bind_d (rand_below ?a)
      (\<lambda>ok. if ok then walk_path draft target ctx (acc @ [t]) ts else return_d acc)"
    using t(1) pvec_nth(2) [OF v(1)] pvec_nth(2) [OF v(2)] by (simp add: Let_def)
  show ?case
  proof (cases "?a = 0")
    case True
    then have "outcomes (rand_below ?a) = {False}" using range by (auto simp: outcomes_rand_below)
    then have "outcomes (walk_path draft target ctx acc (t # ts)) = {acc}" unfolding w by simp
    moreover have "proper_d (walk_path draft target ctx acc (t # ts))"
      unfolding w by (rule proper_bind) (use \<open>outcomes (rand_below ?a) = {False}\<close> in simp_all)
    ultimately show ?thesis using Cons.prems(2) by (metis le0 append_Nil2 singletonD take0)
  next
    case False
    then have "?p ! t \<noteq> 0" by (auto simp: acceptance_prob_def)
    then have "supported target ctx (acc @ [t])" using Cons.prems(2) t(1) pvec_nth(2) [OF v(1)] by simp
    note IH = Cons.IH [OF t(2) this]
    have "supported target ctx r \<and> (\<exists>k\<le>length (t # ts). r = acc @ take k (t # ts))"
      if r: "r \<in> outcomes (walk_path draft target ctx acc (t # ts))" for r
    proof -
      from r consider "r \<in> outcomes (walk_path draft target ctx (acc @ [t]) ts)" | "r = acc"
        unfolding w by (auto split: if_splits)
      then show ?thesis
      proof cases
        case 1
        with IH obtain k where "supported target ctx r" "k \<le> length ts" "r = (acc @ [t]) @ take k ts" by blast
        then show ?thesis by (intro conjI exI [of _ "Suc k"]) simp_all
      next
        case 2
        with Cons.prems(2) show ?thesis by (intro conjI exI [of _ 0]) simp_all
      qed
    qed
    moreover have "proper_d (walk_path draft target ctx acc (t # ts))"
      unfolding w by (rule proper_bind) (use IH in simp_all)
    ultimately show ?thesis by blast
  qed
qed auto

lemma longest_path_outcome:
  assumes q: "proper_lm n draft" and p: "proper_lm n target"
  shows "\<forall>path\<in>set paths. \<forall>t\<in>set path. t < n \<Longrightarrow> supported target ctx best \<Longrightarrow>
    proper_d (longest_path draft target ctx paths best len) \<and>
    (\<forall>r\<in>outcomes (longest_path draft target ctx paths best len).
      supported target ctx r \<and> (r = best \<or> (\<exists>path\<in>set paths. \<exists>k. r = take k path)))"
proof (induction paths arbitrary: best len)
  case (Cons path paths)
  from walk_path_outcome [OF q p, of path ctx "[]"] Cons.prems
  have w: "proper_d (walk_path draft target ctx [] path)"
    "\<forall>r\<in>outcomes (walk_path draft target ctx [] path). supported target ctx r \<and> (\<exists>k. r = take k path)" by auto
  have "\<forall>path\<in>set paths. \<forall>t\<in>set path. t < n" using Cons.prems(1) by simp
  note IH = Cons.IH [OF this]
  define next_d where "next_d acc = (if len < int (length acc) then longest_path draft target ctx paths acc (int (length acc))
      else longest_path draft target ctx paths best len)" for acc
  have l: "longest_path draft target ctx (path # paths) best len = bind_d (walk_path draft target ctx [] path) next_d"
    by (simp add: next_d_def [abs_def])
  have n: "proper_d (next_d acc) \<and> (\<forall>r\<in>outcomes (next_d acc).
      supported target ctx r \<and> (r = best \<or> r = acc \<or> (\<exists>path\<in>set paths. \<exists>k. r = take k path)))"
    if "supported target ctx acc" for acc
    using IH [OF that, of "int (length acc)"] IH [OF Cons.prems(2), of len] unfolding next_d_def
    by (cases "len < int (length acc)") (simp_all, blast+)
  have "proper_d (longest_path draft target ctx (path # paths) best len)"
    unfolding l by (rule proper_bind [OF w(1)]) (use w(2) n in blast)
  moreover have "supported target ctx r \<and> (r = best \<or> (\<exists>path\<in>set (path # paths). \<exists>k. r = take k path))"
    if r: "r \<in> outcomes (longest_path draft target ctx (path # paths) best len)" for r
  proof -
    from r obtain acc where "acc \<in> outcomes (walk_path draft target ctx [] path)" "r \<in> outcomes (next_d acc)"
      unfolding l by auto
    with w(2) n [of acc] show ?thesis by (metis list.set_intros(1,2))
  qed
  ultimately show ?case by blast
qed auto

section \<open>Self-speculation\<close>

lemma pvec_softmax: "xs \<noteq> [] \<Longrightarrow> pvec (length xs) (softmax xs)"
proof -
  assume ne: "xs \<noteq> []"
  have "0 < (\<Sum>y\<leftarrow>xs. exp y)" using ne by (cases xs) (auto intro!: add_pos_nonneg sum_list_nonneg)
  moreover have "softmax xs = normalized (map exp xs)" by (simp add: softmax_def normalized_def comp_def)
  ultimately show ?thesis using pvec_normalized [of "map exp xs"] by auto
qed

lemma self_draft_eq: "self_draft forward ctx k = draft_phase (\<lambda>c. softmax (fst (forward c))) ctx k"
  by (induction k arbitrary: ctx) (simp_all add: Let_def)

lemma self_verify_eq:
  "self_verify k forward (ctx @ acc) acc (length acc) drafted =
   verify_phase k (\<lambda>c. softmax (fst (forward c))) (\<lambda>c. softmax (snd (forward c))) ctx acc drafted"
proof (induction drafted arbitrary: acc)
  case (Cons d rest)
  obtain t p where d: "d = (t, p)" by (cases d)
  have "self_verify k forward (ctx @ acc @ [t]) (acc @ [t]) (Suc (length acc)) rest
      = verify_phase k (\<lambda>c. softmax (fst (forward c))) (\<lambda>c. softmax (snd (forward c))) ctx (acc @ [t]) rest"
    using Cons.IH [of "acc @ [t]"] by simp
  then show ?case by (simp add: d Let_def cong: if_cong)
qed simp

end
