(* ===== verification/SpecProperties.thy ===== *)
theory SpecProperties
  imports SpecFormulas SpecTreeLaws
begin

text \<open>
  The properties of speculative decoding (\<open>labs/speculative-decoding\<close>): what it preserves of the target
  model, what a generation and a batch return, and what the speedup formulas mean.
\<close>

section \<open>The demonstration models\<close>

definition coin_lm :: "real \<Rightarrow> language_model" where
  "coin_lm p ctx = [p, 1 - p]"

definition short_lm :: language_model where
  "short_lm ctx = map (\<lambda>i. if i = (if length ctx < 3 then 1 else 0) then 1 else 0) [0..<2]"

lemma coin_proper: "0 \<le> p \<Longrightarrow> p \<le> 1 \<Longrightarrow> proper_lm 2 (coin_lm p)"
  by (simp add: proper_lm_def pvec_def coin_lm_def)

lemma short_one_hot: "one_hot_lm 2 (\<lambda>ctx. if length ctx < 3 then 1 else 0) short_lm"
  by (simp add: one_hot_lm_def short_lm_def)

section \<open>Steps\<close>

text \<open>C23: The first token of a speculative step has the probability the target model gives it, up to
  \<open>(n + 1) / 10^9\<close> on a vocabulary of \<open>n\<close> tokens, whatever the draft model and the number of drafted
  tokens; the difference comes from the constant the code adds to the denominator of the acceptance ratio.\<close>

theorem first_token_near_target:
  assumes "proper_lm n draft" and "proper_lm n target" and "t < n"
  shows "\<bar>prob_d (speculative_step ctx draft target (Suc k)) (first_is t) - target ctx ! t\<bar> \<le> real (n + 1) / 10 ^ 9"
proof -
  have "pvec n (draft ctx)" "pvec n (target ctx)" using assms by auto
  from first_token_near [OF this assms(3)] show ?thesis
    by (simp add: first_token_law [OF assms(1,2,3) refl] tiny_def)
qed

theorem first_token_near_target_witness:
  "\<bar>prob_d (speculative_step [] (coin_lm (1 / 2)) (coin_lm (1 / 4)) (Suc 2)) (first_is 0) - coin_lm (1 / 4) [] ! 0\<bar>
    \<le> real (2 + 1) / 10 ^ 9"
  by (rule first_token_near_target) (simp_all add: coin_proper)

lemma acceptance_rate_le_1:
  assumes "pvec n p" and "pvec n q" shows "acceptance_rate n p q \<le> 1"
proof -
  have "acceptance_rate n p q \<le> (\<Sum>x<n. q ! x)"
    unfolding acceptance_rate_def accept_at_def
    by (rule sum_mono) (use assms in \<open>auto intro!: mult_left_le pvec_nth\<close>)
  then show ?thesis using pvec_sum [OF assms(2)] by simp
qed

text \<open>When every context has the same acceptance rate, the expected number of tokens of a step is what
  \<open>expected_speedup\<close> computes from it.\<close>

theorem expected_tokens_per_step:
  assumes "proper_lm n draft" and "proper_lm n target" and "\<forall>c. acceptance_rate n (target c) (draft c) = a"
  shows "exp_d (speculative_step ctx draft target k) token_count_of = expected_speedup a k"
proof -
  have "a \<le> 1" using assms(3) acceptance_rate_le_1 [OF proper_lmD [OF assms(2)] proper_lmD [OF assms(1)]] by metis
  moreover have "exp_d (speculative_step ctx draft target k) token_count_of = (\<Sum>i\<le>k. a ^ i)"
    using expected_tokens_from [OF assms(1,2), of a ctx "[]" k k] assms(3) by (simp add: speculative_step_def)
  ultimately show ?thesis by (simp add: expected_speedup_sum)
qed

theorem expected_tokens_per_step_witness:
  "exp_d (speculative_step [7] (coin_lm (1 / 2)) (coin_lm (1 / 4)) 5) token_count_of
    = expected_speedup (acceptance_rate 2 (coin_lm (1 / 4) []) (coin_lm (1 / 2) [])) 5"
  by (rule expected_tokens_per_step) (simp_all add: coin_proper coin_lm_def)

text \<open>Self-speculation is speculative decoding with the softmax of the early exit as draft model and of
  the full pass as target model: the same distribution of results, outcome by outcome.\<close>

theorem self_speculation_is_speculation:
  "self_speculative_step forward ctx k
    = speculative_step ctx (\<lambda>c. softmax (fst (forward c))) (\<lambda>c. softmax (snd (forward c))) k"
  using self_verify_eq [of k forward ctx "[]"] by (simp add: self_speculative_step_def speculative_step_def self_draft_eq)

section \<open>Generations\<close>

text \<open>C25: A generation with proper models returns with probability 1: no step raises, and \<open>max_tokens\<close> steps
  are always enough. Every result has at most \<open>max_tokens\<close> tokens, no EOS among them, and a tracker whose
  counts agree: one bonus and \<open>k\<close> proposals per step, and no more output than it counts.\<close>

theorem spec_generate_total:
  assumes "proper_lm n draft" and "proper_lm n target"
  shows "proper_d (spec_generate prompt draft target max_tokens k) \<and>
    (\<forall>g\<in>outcomes (spec_generate prompt draft target max_tokens k). generation_ok k max_tokens g)"
proof
  show "proper_d (spec_generate prompt draft target max_tokens k)"
    unfolding spec_generate_def by (rule proper_generate_loop [OF assms]) simp
  show "\<forall>g\<in>outcomes (spec_generate prompt draft target max_tokens k). generation_ok k max_tokens g"
    unfolding spec_generate_def
    by (intro ballI, erule generate_loop_ok [OF assms(1)])
      (simp add: generation_ok_def new_tracker_def total_tokens_generated_def)
qed

theorem spec_generate_total_witness:
  "proper_d (spec_generate [1] (coin_lm (1 / 2)) (coin_lm (1 / 4)) 3 2) \<and>
    outcomes (spec_generate [1] (coin_lm (1 / 2)) (coin_lm (1 / 4)) 3 2) \<subseteq> Collect (generation_ok 2 3)"
  using spec_generate_total [OF coin_proper [of "1 / 2"] coin_proper [of "1 / 4"], of "[1]" 3 2] by auto

text \<open>C24: With a target that gives one token all its probability in every context, speculative generation
  returns the greedy decoding of the target with probability 1, whatever the draft model proposes.\<close>

theorem spec_generation_is_greedy:
  assumes "one_hot_lm n best target" and "proper_lm n draft"
  shows "proper_d (spec_generate prompt draft target max_tokens k) \<and>
    (\<forall>g\<in>outcomes (spec_generate prompt draft target max_tokens k). gen_ids g = greedy_decode best prompt (nat max_tokens))"
proof
  show "proper_d (spec_generate prompt draft target max_tokens k)"
    unfolding spec_generate_def by (rule proper_generate_loop [OF assms(2) one_hot_proper [OF assms(1)]]) simp
  show "\<forall>g\<in>outcomes (spec_generate prompt draft target max_tokens k). gen_ids g = greedy_decode best prompt (nat max_tokens)"
    unfolding spec_generate_def using generate_loop_greedy [OF assms] by fastforce
qed

theorem spec_generation_is_greedy_witness:
  "proper_d (spec_generate [5] (coin_lm (1 / 3)) short_lm 10 4) \<and>
    gen_ids ` outcomes (spec_generate [5] (coin_lm (1 / 3)) short_lm 10 4) \<subseteq> {[1, 1]}"
  using spec_generation_is_greedy [OF short_one_hot coin_proper [of "1 / 3"], of "[5]" 10 4]
  by (auto simp: eos_token_def eval_nat_numeral)

text \<open>C26: With a target that gives one token all its probability, decoding a batch returns with probability 1 the greedy
  decoding of every prompt, in order, up to its first EOS (left out) and of at most \<open>max 1 max_tokens\<close> tokens: unlike \<open>generate\<close>
  the batched decoder takes a first token even when \<open>max_tokens\<close> is zero or negative.\<close>

theorem decode_batch_is_greedy:
  assumes "one_hot_lm n best target" and "proper_lm n draft"
  shows "proper_d (decode_batch draft target k prompts max_tokens) \<and>
    (\<forall>(gen, st)\<in>outcomes (decode_batch draft target k prompts max_tokens).
      gen = map (\<lambda>p. greedy_decode best p (max 1 (nat max_tokens))) prompts)"
proof -
  have "list_all2 (sequence_right best max_tokens) prompts (map new_sequence prompts)"
    by (simp add: list_all2_conv_all_nth new_sequence_right)
  moreover have "\<forall>s\<in>set (map new_sequence prompts). left_at_most max_tokens (nat (max 1 max_tokens)) s"
    by (auto simp: left_at_most_def cap_def)
  ultimately show ?thesis
    using batch_loop_greedy [OF assms] unfolding decode_batch_def cap_def by blast
qed

theorem decode_batch_is_greedy_witness:
  "proper_d (decode_batch (coin_lm (1 / 3)) short_lm 4 [[5], [6, 7]] 0) \<and>
    fst ` outcomes (decode_batch (coin_lm (1 / 3)) short_lm 4 [[5], [6, 7]] 0) \<subseteq> {[[1], [1]]}"
  using decode_batch_is_greedy [OF short_one_hot coin_proper [of "1 / 3"], of 4 "[[5], [6, 7]]" 0]
  by (auto simp: eos_token_def)

text \<open>The merged statistics of two batches have no speedup at all: \<open>merge\<close> forgets the sequence steps.\<close>

theorem merged_speedup_is_zero: "speedup_vs_standard (stats_merge a b) = 0"
  by (simp add: stats_merge_def new_stats_def speedup_vs_standard_def)

section \<open>Formulas and trees\<close>

text \<open>\<open>implied_alpha\<close> inverts \<open>expected_speedup\<close>: from the expected tokens per call of any acceptance
  probability it recovers the probability up to \<open>2^-61\<close>.\<close>

theorem implied_alpha_inverts:
  assumes "1 \<le> k" and "0 \<le> a" and "a \<le> 1"
  shows "\<bar>implied_alpha (expected_speedup a k) k - a\<bar> \<le> 1 / 2 ^ 61"
  by (rule implied_alpha_close [OF assms])

theorem implied_alpha_inverts_witness:
  "\<bar>implied_alpha (expected_speedup (82 / 100) 5) 5 - 82 / 100\<bar> \<le> 1 / 2 ^ 61"
  by (rule implied_alpha_inverts) simp_all

text \<open>C27: Building and verifying a draft tree of depth at least 1 never raises. Every result checked
  \<open>min width n ^ depth\<close> paths; its best path is a prefix of one of them, of at most \<open>depth\<close> tokens; and no
  token of the path, nor the bonus token, has probability zero in the target model.\<close>

theorem verify_tree_sound:
  assumes "topk_ok topk" and "proper_lm n draft" and "proper_lm n target" and "0 < depth"
  shows "proper_d (verify_tree ctx (build_draft_tree topk ctx draft width depth) draft target) \<and>
    (\<forall>r\<in>outcomes (verify_tree ctx (build_draft_tree topk ctx draft width depth) draft target).
      all_leaves_checked r = min width n ^ depth \<and> tr_accepted r = length (best_path r) \<and> tr_accepted r \<le> depth \<and>
      (best_path r = [] \<or> (\<exists>path\<in>set (collect_paths (build_draft_tree topk ctx draft width depth)). \<exists>k. best_path r = take k path)) \<and>
      supported target ctx (best_path r @ [tr_bonus r]))"
proof -
  let ?roots = "build_draft_tree topk ctx draft width depth"
  obtain d where d: "depth = Suc d" using assms(4) by (cases depth) auto
  from expand_shape [OF assms(1,2) refl, where depth = depth and cur = 0 and d = d and width = width and c = "[]" and path = ctx] d
  have shape: "length (collect_paths ?roots) = min width n ^ depth"
    "\<forall>p\<in>set (collect_paths ?roots). length p = depth \<and> (\<forall>t\<in>set p. t < n)"
    by (auto simp: collect_paths_def build_draft_tree_def)
  then have "\<forall>path\<in>set (collect_paths ?roots). \<forall>t\<in>set path. t < n" by blast
  from longest_path_outcome [OF assms(2,3) this, of ctx "[]" "- 1"]
  have long: "proper_d (longest_path draft target ctx (collect_paths ?roots) [] (- 1))"
    "\<forall>r\<in>outcomes (longest_path draft target ctx (collect_paths ?roots) [] (- 1)).
      supported target ctx r \<and> (r = [] \<or> (\<exists>path\<in>set (collect_paths ?roots). \<exists>k. r = take k path))" by simp_all
  have m: "pvec n (target c)" for c using assms(3) by auto
  have "proper_d (verify_tree ctx ?roots draft target)"
    unfolding verify_tree_def Let_def using long(1) m by (blast intro: proper_bind)
  moreover have "\<exists>best b. best \<in> outcomes (longest_path draft target ctx (collect_paths ?roots) [] (- 1)) \<and>
      b \<in> outcomes (multinomial (target (ctx @ best))) \<and> r = \<lparr>best_path = best, tr_accepted = length best, tr_bonus = b,
        all_leaves_checked = length (collect_paths ?roots)\<rparr>"
    if "r \<in> outcomes (verify_tree ctx ?roots draft target)" for r
    using that unfolding verify_tree_def Let_def by auto
  moreover have "length (take k path) \<le> depth" if "path \<in> set (collect_paths ?roots)" for path k
    using that shape(2) by auto
  ultimately show ?thesis
    using long(2) shape(1) outcomes_multinomial [OF m] pvec_nth(2) [OF m] by fastforce
qed

theorem verify_tree_sound_witness:
  "proper_d (verify_tree [3] (build_draft_tree (\<lambda>ps k. [0..<k]) [3] (coin_lm (1 / 2)) 2 3) (coin_lm (1 / 2)) (coin_lm (1 / 4)))"
  using verify_tree_sound [of "\<lambda>ps k. [0..<k]" 2 "coin_lm (1 / 2)" "coin_lm (1 / 4)" 3 "[3]" 2]
  by (simp add: topk_ok_def coin_proper)

end
