(* ===== verification/Quant.thy ===== *)
theory Quant
  imports Complex_Main PyValue "HOL-Library.Word"
begin

unbundle bit_operations_syntax

text \<open>
  Weight quantization, \<open>labs/model-quantizer/src/v0_int8.py\<close> and \<open>v1_int4.py\<close>. An array is its shape and its
  elements in C order; \<open>float32\<close> elements are reals (rounding to 32 bits is not modelled), \<open>int8\<close> and \<open>uint8\<close>
  elements are 8-bit words, so packing and sign extension are the machine's.
\<close>

section \<open>Arrays\<close>

record 'a ndarray =
  shape :: "nat list"
  elems :: "'a list"

definition array_ok :: "'a ndarray \<Rightarrow> bool" where
  "array_ok a \<longleftrightarrow> length (elems a) = prod_list (shape a)"

definition reshape :: "'a list \<Rightarrow> nat list \<Rightarrow> 'a ndarray result" where
  "reshape xs sh =
     (if length xs = prod_list sh then Inr \<lparr>shape = sh, elems = xs\<rparr>
      else Inl (ValueError ''cannot reshape array''))"

text \<open>\<open>np.round\<close> rounds halves to the even neighbour.\<close>

definition round_even :: "real \<Rightarrow> int" where
  "round_even x =
     (let f = \<lfloor>x\<rfloor>; d = x - of_int f
      in if d < 1 / 2 then f else if 1 / 2 < d then f + 1 else if even f then f else f + 1)"

definition clip :: "int \<Rightarrow> int \<Rightarrow> int \<Rightarrow> int" where
  "clip lo hi x = min hi (max lo x)"

definition abs_max :: "real list \<Rightarrow> real" where
  "abs_max xs = Max ((\<lambda>x. \<bar>x\<bar>) ` set xs)"

section \<open>INT8\<close>

definition quantize_symmetric_int8 :: "real ndarray \<Rightarrow> (8 word ndarray \<times> real) result" where
  "quantize_symmetric_int8 t =
     (if elems t = [] then Inl (ValueError ''zero-size array to reduction operation maximum which has no identity'')
      else let m = abs_max (elems t)
           in if m = 0 then Inr (\<lparr>shape = shape t, elems = map (\<lambda>_. 0) (elems t)\<rparr>, 1)
              else let scale = m / 127
                   in Inr (\<lparr>shape = shape t,
                            elems = map (\<lambda>x. word_of_int (clip (- 128) 127 (round_even (x / scale)))) (elems t)\<rparr>,
                           scale))"

definition dequantize_symmetric_int8 :: "8 word ndarray \<Rightarrow> real \<Rightarrow> real ndarray" where
  "dequantize_symmetric_int8 q scale = \<lparr>shape = shape q, elems = map (\<lambda>w. of_int (sint w) * scale) (elems q)\<rparr>"

record quantized_model =
  qm_weights :: "(string, 8 word ndarray) pydict"
  qm_scales :: "(string, real) pydict"
  qm_original_dtype :: string

definition qm_size_bytes :: "quantized_model \<Rightarrow> nat" where
  "qm_size_bytes m = (\<Sum>w\<leftarrow>dvals (qm_weights m). length (elems w))"

definition qm_num_params :: "quantized_model \<Rightarrow> nat" where
  "qm_num_params m = (\<Sum>w\<leftarrow>dvals (qm_weights m). length (elems w))"

definition quantize_model_int8 :: "(string, real ndarray) pydict \<Rightarrow> quantized_model result" where
  "quantize_model_int8 weights =
     rfold (\<lambda>(name, t) m.
       rmap (\<lambda>(q, s). m\<lparr>qm_weights := dset (qm_weights m) name q, qm_scales := dset (qm_scales m) name s\<rparr>)
         (quantize_symmetric_int8 t))
       weights \<lparr>qm_weights = [], qm_scales = [], qm_original_dtype = ''float32''\<rparr>"

text \<open>A weight without a scale raises \<open>KeyError\<close>.\<close>

definition dequantize_model_int8 :: "quantized_model \<Rightarrow> (string, real ndarray) pydict result" where
  "dequantize_model_int8 m =
     rfold (\<lambda>(name, q) d.
       case dget (qm_scales m) name of
         None \<Rightarrow> Inl (KeyError name)
       | Some s \<Rightarrow> Inr (dset d name (dequantize_symmetric_int8 q s)))
       (qm_weights m) []"

definition mean_of :: "real list \<Rightarrow> real" where
  "mean_of xs = sum_list xs / real (length xs)"

text \<open>The error measures, for arrays of the same shape (others are broadcast or rejected by numpy).\<close>

definition mean_squared_error :: "real ndarray \<Rightarrow> real ndarray \<Rightarrow> real" where
  "mean_squared_error original recovered = mean_of (map2 (\<lambda>x y. (x - y)\<^sup>2) (elems original) (elems recovered))"

definition relative_error :: "real ndarray \<Rightarrow> real ndarray \<Rightarrow> real" where
  "relative_error original recovered =
     mean_of (map2 (\<lambda>x y. \<bar>x - y\<bar> / (\<bar>x\<bar> + 1 / 10 ^ 8)) (elems original) (elems recovered))"

definition softmax_row :: "real list \<Rightarrow> real list" where
  "softmax_row xs = (let e = map (\<lambda>x. exp (x - Max (set xs))) xs in map (\<lambda>y. y / sum_list e) e)"

definition perplexity_change :: "real list list \<Rightarrow> real list list \<Rightarrow> real" where
  "perplexity_change original_logits quantized_logits =
     mean_of (map2 (\<lambda>a b. \<Sum>(p, q)\<leftarrow>zip (softmax_row a) (softmax_row b).
                    p * ln ((p + 1 / 10 ^ 10) / (q + 1 / 10 ^ 10))) original_logits quantized_logits)"

definition compression_ratio :: "(string, real ndarray) pydict \<Rightarrow> quantized_model \<Rightarrow> real" where
  "compression_ratio original m =
     (let fp32_bytes = (\<Sum>t\<leftarrow>dvals original. 4 * length (elems t)); int8_bytes = qm_size_bytes m
      in if int8_bytes = 0 then 0 else real fp32_bytes / real int8_bytes)"

section \<open>INT4\<close>

definition int4_max :: int where
  "int4_max = 7"

definition int4_min :: int where
  "int4_min = - 8"

text \<open>Even positions go to the high nibbles, odd ones to the low nibbles.\<close>

fun pack_pairs :: "8 word list \<Rightarrow> 8 word list" where
  "pack_pairs (a # b # ns) = (push_bit 4 a OR b) # pack_pairs ns"
| "pack_pairs ns = []"

text \<open>A value viewed as a byte and masked to its low four bits.\<close>

definition nibble :: "int \<Rightarrow> 8 word" where
  "nibble v = word_of_int v AND 0x0F"

definition pack_int4 :: "int list \<Rightarrow> 8 word list result" where
  "pack_int4 values =
     (if odd (length values)
      then Inl (ValueError (''pack_int4 requires even number of elements, got '' @ nat_str (length values)))
      else if (\<exists>v\<in>set values. v < int4_min) \<or> (\<exists>v\<in>set values. int4_max < v)
      then Inl (ValueError ''Values out of INT4 range [-8, 7]'')
      else Inr (pack_pairs (map nibble values)))"

definition sign_nibble :: "8 word \<Rightarrow> 8 word" where
  "sign_nibble n = (let signed = uint n in word_of_int (if 8 \<le> n then signed - 16 else signed))"

definition unpack_int4 :: "8 word list \<Rightarrow> 8 word list" where
  "unpack_int4 packed = concat (map (\<lambda>p. [sign_nibble (drop_bit 4 p), sign_nibble (p AND 0x0F)]) packed)"

fun groups_of :: "nat \<Rightarrow> nat \<Rightarrow> 'a list \<Rightarrow> 'a list list" where
  "groups_of g 0 xs = []"
| "groups_of g (Suc n) xs = take g xs # groups_of g n (drop g xs)"

definition group_scale :: "real list \<Rightarrow> real" where
  "group_scale g = (let m = abs_max g in (if m = 0 then 1 else m) / of_int int4_max)"

definition quantize_group :: "real list \<Rightarrow> 8 word list" where
  "quantize_group g = map (\<lambda>x. word_of_int (clip int4_min int4_max (round_even (x / group_scale g)))) g"

definition quantize_q4_grouped :: "real ndarray \<Rightarrow> nat \<Rightarrow> (8 word list \<times> real list) result" where
  "quantize_q4_grouped t group_size =
     (if group_size = 0 then Inl (OtherError ''ZeroDivisionError: integer modulo by zero'')
      else let n = length (elems t);
               pad = nat (- int n mod int group_size);
               flat = elems t @ replicate pad 0;
               groups = groups_of group_size (length flat div group_size) flat;
               flat_int4 = concat (map quantize_group groups);
               even_int4 = (if odd (length flat_int4) then flat_int4 @ [0] else flat_int4)
           in rmap (\<lambda>packed. (packed, map group_scale groups)) (pack_int4 (map sint even_int4)))"

definition dequantize_q4_grouped :: "8 word list \<Rightarrow> real list \<Rightarrow> nat list \<Rightarrow> nat \<Rightarrow> real ndarray result" where
  "dequantize_q4_grouped packed scales original_shape group_size =
     (let flat_int4 = take (length scales * group_size) (unpack_int4 packed)
      in if length flat_int4 \<noteq> length scales * group_size then Inl (ValueError ''cannot reshape array'')
         else let groups = groups_of group_size (length scales) flat_int4;
                  flat = concat (map2 (\<lambda>g s. map (\<lambda>w. of_int (sint w) * s) g) groups scales)
              in reshape (take (prod_list original_shape) flat) original_shape)"

record quantized_model_q4 =
  q4_packed :: "(string, 8 word list) pydict"
  q4_scales :: "(string, real list) pydict"
  q4_shapes :: "(string, nat list) pydict"
  q4_group_size :: nat

definition q4_size_bytes :: "quantized_model_q4 \<Rightarrow> nat" where
  "q4_size_bytes m = (\<Sum>w\<leftarrow>dvals (q4_packed m). length w) + (\<Sum>s\<leftarrow>dvals (q4_scales m). 4 * length s)"

definition q4_num_params :: "quantized_model_q4 \<Rightarrow> nat" where
  "q4_num_params m = (\<Sum>s\<leftarrow>dvals (q4_shapes m). prod_list s)"

text \<open>A tensor smaller than a group is padded to one group first.\<close>

definition quantize_tensor_q4 :: "nat \<Rightarrow> real ndarray \<Rightarrow> (8 word list \<times> real list) result" where
  "quantize_tensor_q4 group_size t =
     (if length (elems t) < group_size
      then quantize_q4_grouped \<lparr>shape = [group_size], elems = elems t @ replicate (group_size - length (elems t)) 0\<rparr> group_size
      else quantize_q4_grouped t group_size)"

definition quantize_model_q4 :: "(string, real ndarray) pydict \<Rightarrow> nat \<Rightarrow> quantized_model_q4 result" where
  "quantize_model_q4 weights group_size =
     rfold (\<lambda>(name, t) m.
       rmap (\<lambda>(packed, scales). m\<lparr>q4_packed := dset (q4_packed m) name packed,
                                   q4_scales := dset (q4_scales m) name scales,
                                   q4_shapes := dset (q4_shapes m) name (shape t)\<rparr>)
         (quantize_tensor_q4 group_size t))
       weights \<lparr>q4_packed = [], q4_scales = [], q4_shapes = [], q4_group_size = group_size\<rparr>"

definition dequantize_model_q4 :: "quantized_model_q4 \<Rightarrow> (string, real ndarray) pydict result" where
  "dequantize_model_q4 m =
     rfold (\<lambda>(name, packed) d.
       case (dget (q4_scales m) name, dget (q4_shapes m) name) of
         (Some scales, Some sh) \<Rightarrow>
           rmap (\<lambda>t. dset d name t) (dequantize_q4_grouped packed scales sh (q4_group_size m))
       | _ \<Rightarrow> Inl (KeyError name))
       (q4_packed m) []"

definition compression_ratio_q4 :: "(string, real ndarray) pydict \<Rightarrow> quantized_model_q4 \<Rightarrow> real" where
  "compression_ratio_q4 original m =
     (let fp32_bytes = (\<Sum>t\<leftarrow>dvals original. 4 * length (elems t)); q4_bytes = q4_size_bytes m
      in if q4_bytes = 0 then 0 else real fp32_bytes / real q4_bytes)"

end
