(* ===== verification/QuantLaws.thy ===== *)
theory QuantLaws
  imports Quant
begin

text \<open>
  Rounding, the packing of nibbles and the grouping of arrays: the facts behind the error bounds of the
  quantizers.
\<close>

section \<open>Rounding\<close>

lemma round_even_near: "\<bar>of_int (round_even x) - x\<bar> \<le> 1 / 2"
  unfolding round_even_def Let_def by (auto simp: abs_le_iff)

lemma round_even_range:
  assumes "\<bar>x\<bar> \<le> of_int n" shows "\<bar>round_even x\<bar> \<le> n"
proof -
  have "of_int \<bar>round_even x\<bar> \<le> \<bar>x\<bar> + (1 / 2 :: real)" using round_even_near [of x] unfolding of_int_abs by arith
  with assms have "of_int \<bar>round_even x\<bar> < (of_int (n + 1) :: real)" by simp
  then show ?thesis by linarith
qed

lemma abs_max_ge: "x \<in> set xs \<Longrightarrow> \<bar>x\<bar> \<le> abs_max xs"
  by (simp add: abs_max_def)

lemma abs_max_nonneg: "xs \<noteq> [] \<Longrightarrow> 0 \<le> abs_max xs"
  using abs_max_ge [of "hd xs" xs] by (metis abs_ge_zero hd_in_set order_trans)

text \<open>One element: quantizing with a scale that covers it costs at most half the scale.\<close>

lemma dequantized_near:
  assumes "0 < scale" and "\<bar>x\<bar> \<le> of_int n * scale" and "lo \<le> - n" "n \<le> hi" "- 128 \<le> - n" "n \<le> 127"
  shows "sint (word_of_int (clip lo hi (round_even (x / scale))) :: 8 word) = round_even (x / scale)"
    and "\<bar>x - of_int (sint (word_of_int (clip lo hi (round_even (x / scale))) :: 8 word)) * scale\<bar> \<le> scale / 2"
proof -
  have "\<bar>x / scale\<bar> \<le> of_int n" using assms(1,2) by (simp add: pos_divide_le_eq)
  then have r: "\<bar>round_even (x / scale)\<bar> \<le> n" by (rule round_even_range)
  then have "clip lo hi (round_even (x / scale)) = round_even (x / scale)" using assms(3,4) by (auto simp: clip_def)
  moreover have "sint (word_of_int (round_even (x / scale)) :: 8 word) = round_even (x / scale)"
    using r assms(5,6) by (simp add: sint_sbintrunc' signed_take_bit_int_eq_self)
  ultimately show s: "sint (word_of_int (clip lo hi (round_even (x / scale))) :: 8 word) = round_even (x / scale)" by simp
  have "\<bar>x / scale - of_int (round_even (x / scale))\<bar> * scale \<le> 1 / 2 * scale"
    using round_even_near [of "x / scale"] assms(1) by (intro mult_right_mono) (simp_all add: abs_minus_commute)
  then have "\<bar>(x / scale - of_int (round_even (x / scale))) * scale\<bar> \<le> scale / 2" using assms(1) by (simp add: abs_mult)
  then show "\<bar>x - of_int (sint (word_of_int (clip lo hi (round_even (x / scale))) :: 8 word)) * scale\<bar> \<le> scale / 2"
    unfolding s using assms(1) by (simp add: left_diff_distrib)
qed

section \<open>Nibbles\<close>

lemma nibble_bits: "uint a < 16 \<Longrightarrow> bit a n \<Longrightarrow> n < 4" for a :: "8 word"
proof -
  assume "uint a < 16"
  then have "take_bit 4 (uint a) = uint a" by (simp add: take_bit_int_eq_self)
  then have "bit (uint a) n \<Longrightarrow> n < 4" by (metis bit_take_bit_iff)
  then show "bit a n \<Longrightarrow> n < 4" using bit_imp_le_length [of a n] by (simp add: bit_uint_iff)
qed

lemma pair_high:
  fixes a b :: "8 word" assumes "uint a < 16" "uint b < 16" shows "drop_bit 4 (push_bit 4 a OR b) = a"
  using assms by (intro bit_word_eqI) (auto simp: bit_simps dest: nibble_bits)

lemma mask4: "(0x0F :: 8 word) = mask 4"
  by (simp add: mask_eq_exp_minus_1)

lemma pair_low:
  fixes a b :: "8 word" assumes "uint a < 16" "uint b < 16" shows "(push_bit 4 a OR b) AND 0x0F = b"
  using assms unfolding mask4 by (intro bit_word_eqI) (auto simp: bit_simps dest: nibble_bits)

lemma nibble_of: "uint (nibble v) = v mod 16"
proof -
  have "uint (nibble v) = take_bit 4 (take_bit 8 v)"
    unfolding nibble_def mask4 take_bit_eq_mask [symmetric] by (simp add: unsigned_take_bit_eq uint_word_of_int_eq)
  also have "\<dots> = take_bit 4 v" by (simp add: take_bit_take_bit)
  finally show ?thesis by (simp add: take_bit_eq_mod)
qed

lemma sign_nibble_of:
  assumes "- 8 \<le> v" "v \<le> 7"
  shows "sign_nibble (nibble v) = word_of_int v"
proof -
  have "8 \<le> nibble v \<longleftrightarrow> 8 \<le> v mod 16" by (simp add: word_le_def nibble_of)
  moreover have "v mod 16 = (if 0 \<le> v then v else v + 16)"
    using assms mod_pos_pos_trivial [of "v + 16" 16] by (cases "0 \<le> v") (simp_all add: mod_pos_pos_trivial)
  ultimately show ?thesis using assms by (auto simp: sign_nibble_def nibble_of Let_def)
qed

lemma unpack_pack:
  "even (length vs) \<Longrightarrow> \<forall>v\<in>set vs. - 8 \<le> v \<and> v \<le> 7 \<Longrightarrow> unpack_int4 (pack_pairs (map nibble vs)) = map word_of_int vs"
proof (induction "map nibble vs" arbitrary: vs rule: pack_pairs.induct)
  case (1 a b ns)
  then obtain x y zs where vs: "vs = x # y # zs" by (cases vs; cases "tl vs") auto
  have n: "uint (nibble v) < 16" for v by (simp add: nibble_of)
  have "sign_nibble (drop_bit 4 (push_bit 4 (nibble x) OR nibble y)) = word_of_int x"
    and "sign_nibble ((push_bit 4 (nibble x) OR nibble y) AND 0x0F) = word_of_int y"
    unfolding pair_high [OF n n] pair_low [OF n n] using 1 vs by (simp_all add: sign_nibble_of)
  moreover have "unpack_int4 (pack_pairs (map nibble zs)) = map word_of_int zs" using 1 vs by simp
  ultimately show ?case unfolding vs by (simp add: unpack_int4_def del: drop_bit_or)
qed (auto simp: unpack_int4_def)

lemma pack_int4_Inr:
  "pack_int4 vs = Inr packed \<Longrightarrow> unpack_int4 packed = map word_of_int vs"
  by (auto simp: pack_int4_def int4_min_def int4_max_def not_less unpack_pack split: if_splits)

lemma sign_nibble_sint:
  fixes n :: "8 word" assumes "uint n < 16"
  shows "sint (sign_nibble n) = (if 8 \<le> uint n then uint n - 16 else uint n)"
proof -
  have "signed_take_bit 7 (if 8 \<le> k then k - 16 else k) = (if 8 \<le> k then k - 16 else k)" if "0 \<le> k" "k < 16" for k :: int
    using that by (simp add: signed_take_bit_int_eq_self)
  then show ?thesis
    unfolding sign_nibble_def Let_def word_le_def sint_sbintrunc' using assms
    by (simp del: if_cancel split del: if_split)
qed

lemma sign_nibble_range: "uint n < 16 \<Longrightarrow> - 8 \<le> sint (sign_nibble n) \<and> sint (sign_nibble n) \<le> 7" for n :: "8 word"
proof -
  assume n: "uint n < 16"
  have "0 \<le> uint n" by (rule unsigned_greater_eq)
  then have "- 8 \<le> uint n" by linarith
  with n show ?thesis unfolding sign_nibble_sint [OF n] by (simp split: if_split)
qed

lemma high_nibble: "uint (drop_bit 4 p) < 16" for p :: "8 word"
proof -
  have "uint (drop_bit 4 p) = uint p div 16" by (simp add: drop_bit_eq_div uint_div_distrib)
  moreover have "uint p < 256" using uint_lt2p [of p] by simp
  ultimately show ?thesis by simp
qed

lemma low_nibble: "uint (p AND 0x0F) < 16" for p :: "8 word"
  unfolding mask4 take_bit_eq_mask [symmetric] by (simp add: take_bit_eq_mod uint_mod)

lemma nibble_sign_nibble: "uint n < 16 \<Longrightarrow> nibble (sint (sign_nibble n)) = n" for n :: "8 word"
proof -
  assume n: "uint n < 16"
  have "(if 8 \<le> k then k - 16 else k) mod 16 = k" if "0 \<le> k" "k < 16" for k :: int
    using that mod_add_self2 [of "k - 16" 16] by simp
  then have "uint (nibble (sint (sign_nibble n))) = uint n"
    unfolding nibble_of sign_nibble_sint [OF n] using n by (simp split del: if_split)
  then show ?thesis by (simp add: word_uint_eq_iff)
qed

lemma pack_unpack_byte:
  "push_bit 4 (nibble (sint (sign_nibble (drop_bit 4 p)))) OR nibble (sint (sign_nibble (p AND 0x0F))) = p" for p :: "8 word"
  unfolding nibble_sign_nibble [OF high_nibble] nibble_sign_nibble [OF low_nibble] unfolding mask4
  by (intro bit_word_eqI) (auto simp: bit_simps)

section \<open>Groups\<close>

lemma length_groups_of [simp]: "length (groups_of g n xs) = n"
  by (induction g n xs rule: groups_of.induct) simp_all

lemma concat_groups_of: "concat (groups_of g n xs) = take (n * g) xs"
  by (induction g n xs rule: groups_of.induct) (simp_all add: take_add add.commute)

lemma groups_of_lengths: "n * g \<le> length xs \<Longrightarrow> grp \<in> set (groups_of g n xs) \<Longrightarrow> length grp = g"
  by (induction g n xs rule: groups_of.induct) auto

lemma groups_of_concat: "(\<And>grp. grp \<in> set gs \<Longrightarrow> length grp = g) \<Longrightarrow> length gs = n \<Longrightarrow> groups_of g n (concat gs @ rest) = gs"
  by (induction gs arbitrary: n) auto

lemma length_concat_groups: "(\<And>grp. grp \<in> set gs \<Longrightarrow> length grp = g) \<Longrightarrow> length (concat gs) = length gs * g"
  by (induction gs) auto

lemma concat_groups_nth:
  assumes "\<And>grp. grp \<in> set gs \<Longrightarrow> length grp = g" and "0 < g" and "i < length gs * g"
  shows "concat gs ! i = gs ! (i div g) ! (i mod g)"
  using assms
proof (induction gs arbitrary: i)
  case (Cons grp gs)
  show ?case
  proof (cases "i < g")
    case False
    then have "i div g = Suc ((i - g) div g)" "i mod g = (i - g) mod g"
      using Cons.prems(2) by (simp_all add: le_div_geq le_mod_geq)
    with False Cons show ?thesis by (simp add: nth_append)
  qed (use Cons.prems in \<open>simp add: nth_append\<close>)
qed simp

section \<open>Grouped INT4\<close>

lemma group_scale_pos: "grp \<noteq> [] \<Longrightarrow> 0 < group_scale grp"
  using abs_max_nonneg [of grp] by (auto simp: group_scale_def Let_def int4_max_def)

lemma group_scale_covers: "x \<in> set grp \<Longrightarrow> \<bar>x\<bar> \<le> of_int 7 * group_scale grp"
  using abs_max_ge [of x grp] by (auto simp: group_scale_def Let_def int4_max_def)

definition dequantized_group :: "real list \<Rightarrow> real list" where
  "dequantized_group grp = map (\<lambda>w. of_int (sint w) * group_scale grp) (quantize_group grp)"

lemma quantize_group_near:
  assumes "x \<in> set grp"
  shows "\<bar>x - of_int (sint (word_of_int (clip int4_min int4_max (round_even (x / group_scale grp))) :: 8 word)) * group_scale grp\<bar>
    \<le> group_scale grp / 2"
proof -
  have "grp \<noteq> []" using assms by auto
  then show ?thesis using dequantized_near(2) [OF group_scale_pos group_scale_covers, of grp x int4_min int4_max] assms
    by (simp add: int4_min_def int4_max_def)
qed

lemma quantize_group_range: "w \<in> set (quantize_group grp) \<Longrightarrow> - 7 \<le> sint w \<and> sint w \<le> 7"
proof -
  assume "w \<in> set (quantize_group grp)"
  then obtain x where x: "x \<in> set grp" and w: "w = word_of_int (clip int4_min int4_max (round_even (x / group_scale grp)))"
    by (auto simp: quantize_group_def)
  then have p: "0 < group_scale grp" by (intro group_scale_pos) auto
  have "sint w = round_even (x / group_scale grp)"
    unfolding w by (rule dequantized_near(1) [OF p group_scale_covers [OF x]]) (simp_all add: int4_min_def int4_max_def)
  moreover have "\<bar>x / group_scale grp\<bar> \<le> of_int 7" using group_scale_covers [OF x] p by (simp add: pos_divide_le_eq)
  ultimately show ?thesis using round_even_range by fastforce
qed

lemma length_dequantized_group [simp]: "length (dequantized_group grp) = length grp"
  by (simp add: dequantized_group_def quantize_group_def)

lemma length_quantize_group [simp]: "length (quantize_group grp) = length grp"
  by (simp add: quantize_group_def)

text \<open>The two directions composed: what dequantizing a quantized tensor computes.\<close>

lemma padded_length: "0 < g \<Longrightarrow> (n + nat (- int n mod int g)) mod g = 0"
proof -
  assume g: "0 < g"
  have "int (n + nat (- int n mod int g)) = int n + - int n mod int g" using g by simp
  also have "\<dots> mod int g = 0" by (simp add: mod_add_right_eq)
  finally show ?thesis by (metis int_ops(1) nat_int zmod_int)
qed

definition q4_groups :: "nat \<Rightarrow> real list \<Rightarrow> real list list" where
  "q4_groups g xs =
     (let flat = xs @ replicate (nat (- int (length xs) mod int g)) 0 in groups_of g (length flat div g) flat)"

lemma q4_groups:
  assumes "0 < g"
  shows "concat (q4_groups g xs) = xs @ replicate (nat (- int (length xs) mod int g)) 0"
    and "grp \<in> set (q4_groups g xs) \<Longrightarrow> length grp = g"
    and "length xs \<le> length (q4_groups g xs) * g"
proof -
  let ?flat = "xs @ replicate (nat (- int (length xs) mod int g)) (0 :: real)"
  have d: "length ?flat div g * g = length ?flat"
    using padded_length [OF assms, of "length xs"] by (simp add: mod_0_imp_dvd)
  show "concat (q4_groups g xs) = ?flat" unfolding q4_groups_def Let_def concat_groups_of d by simp
  show "grp \<in> set (q4_groups g xs) \<Longrightarrow> length grp = g"
    unfolding q4_groups_def Let_def by (rule groups_of_lengths) (simp_all only: d)
  show "length xs \<le> length (q4_groups g xs) * g"
    unfolding q4_groups_def Let_def length_groups_of d by simp
qed

lemma quantize_q4_grouped_Inr:
  assumes "0 < g"
  obtains packed where
    "quantize_q4_grouped t g = Inr (packed, map group_scale (q4_groups g (elems t)))"
    "take (length (q4_groups g (elems t)) * g) (unpack_int4 packed) = concat (map quantize_group (q4_groups g (elems t)))"
    "length packed = (length (q4_groups g (elems t)) * g + 1) div 2"
proof -
  let ?gs = "q4_groups g (elems t)"
  define f where "f = concat (map quantize_group ?gs)"
  define e where "e = (if odd (length f) then f @ [0] else f)"
  have lf: "length f = length ?gs * g"
    unfolding f_def using length_concat_groups [of "map quantize_group ?gs" g] q4_groups(2) [OF assms] by fastforce
  have ev: "even (length e)" by (simp add: e_def)
  have rng: "\<forall>v\<in>set (map sint e). int4_min \<le> v \<and> v \<le> int4_max"
    using quantize_group_range by (fastforce simp: e_def f_def int4_min_def int4_max_def split: if_splits)
  have p: "pack_int4 (map sint e) = Inr (pack_pairs (map nibble (map sint e)))"
    using ev rng by (auto simp: pack_int4_def not_less [symmetric] simp del: list.map_comp)
  have u: "unpack_int4 (pack_pairs (map nibble (map sint e))) = e"
    using pack_int4_Inr [OF p] by (simp add: comp_def)
  have lp: "length (unpack_int4 ps) = 2 * length ps" for ps by (induction ps) (simp_all add: unpack_int4_def)
  have "length (pack_pairs (map nibble (map sint e))) = (length f + 1) div 2"
    using lp [of "pack_pairs (map nibble (map sint e))"] unfolding u by (auto simp: e_def split: if_splits)
  moreover have "take (length f) (unpack_int4 (pack_pairs (map nibble (map sint e)))) = f" unfolding u by (simp add: e_def)
  moreover have "quantize_q4_grouped t g = Inr (pack_pairs (map nibble (map sint e)), map group_scale ?gs)"
  proof -
    have "quantize_q4_grouped t g = rmap (\<lambda>packed. (packed, map group_scale ?gs)) (pack_int4 (map sint e))"
      unfolding quantize_q4_grouped_def e_def f_def q4_groups_def Let_def
      by (subst if_not_P) (use assms in simp_all)
    then show ?thesis unfolding p by simp
  qed
  ultimately show thesis using that lf f_def by metis
qed

lemma dequantize_quantized_q4:
  assumes "quantize_q4_grouped t g = Inr (packed, scales)" and "prod_list sh \<le> length (elems t)"
  shows "dequantize_q4_grouped packed scales sh g =
      Inr \<lparr>shape = sh, elems = take (prod_list sh) (concat (map dequantized_group (q4_groups g (elems t))))\<rparr>"
    and "scales = map group_scale (q4_groups g (elems t))"
proof -
  let ?gs = "q4_groups g (elems t)"
  have g: "0 < g" using assms(1) by (cases "g = 0") (simp_all add: quantize_q4_grouped_def)
  obtain p where p: "quantize_q4_grouped t g = Inr (p, map group_scale ?gs)"
    and u: "take (length ?gs * g) (unpack_int4 p) = concat (map quantize_group ?gs)"
    by (rule quantize_q4_grouped_Inr [OF g])
  with assms(1) show s: "scales = map group_scale ?gs" by simp
  have lq: "\<And>grp. grp \<in> set (map quantize_group ?gs) \<Longrightarrow> length grp = g"
    and ld: "\<And>grp. grp \<in> set (map dequantized_group ?gs) \<Longrightarrow> length grp = g"
    using q4_groups(2) [OF g] by auto
  have "length (concat (map quantize_group ?gs)) = length (map quantize_group ?gs) * g" by (rule length_concat_groups) (rule lq)
  then have c: "length (concat (map quantize_group ?gs)) = length ?gs * g" by simp
  have "length (concat (map dequantized_group ?gs)) = length (map dequantized_group ?gs) * g" by (rule length_concat_groups) (rule ld)
  then have cd: "length (concat (map dequantized_group ?gs)) = length ?gs * g" by simp
  have "groups_of g (length ?gs) (concat (map quantize_group ?gs) @ []) = map quantize_group ?gs"
    by (rule groups_of_concat) (erule lq, simp)
  then have "groups_of g (length ?gs) (concat (map quantize_group ?gs)) = map quantize_group ?gs" by simp
  moreover have "map2 (\<lambda>grp s. map (\<lambda>w. of_int (sint w) * s) grp) (map quantize_group ?gs) (map group_scale ?gs) = map dequantized_group ?gs"
    by (simp add: zip_map_map zip_same_conv_map dequantized_group_def comp_def)
  moreover have "prod_list sh \<le> length (concat (map dequantized_group ?gs))"
    unfolding cd using q4_groups(3) [OF g, of "elems t"] assms(2) by simp
  ultimately show "dequantize_q4_grouped packed scales sh g =
      Inr \<lparr>shape = sh, elems = take (prod_list sh) (concat (map dequantized_group ?gs))\<rparr>"
    using p assms(1) u c unfolding dequantize_q4_grouped_def s by (simp add: Let_def reshape_def)
qed

text \<open>Each element comes back within half the scale of its group.\<close>

lemma dequantized_groups_near:
  assumes g: "0 < g" and i: "i < length xs"
  shows "\<bar>xs ! i - concat (map dequantized_group (q4_groups g xs)) ! i\<bar> \<le> group_scale (q4_groups g xs ! (i div g)) / 2"
proof -
  let ?gs = "q4_groups g xs"
  have ig: "i < length ?gs * g" using q4_groups(3) [OF g, of xs] i by simp
  then have id: "i div g < length ?gs" by (simp add: less_mult_imp_div_less)
  let ?grp = "?gs ! (i div g)"
  have im: "i mod g < length ?grp" using g id q4_groups(2) [OF g nth_mem [OF id]] by simp
  have "concat ?gs ! i = ?grp ! (i mod g)" by (rule concat_groups_nth [OF q4_groups(2) [OF g] g ig])
  then have x: "?grp ! (i mod g) = xs ! i" using i by (simp add: q4_groups(1) [OF g] nth_append)
  have "concat (map dequantized_group ?gs) ! i = dequantized_group ?grp ! (i mod g)"
    using concat_groups_nth [of "map dequantized_group ?gs" g i] q4_groups(2) [OF g] g ig id by (fastforce simp: nth_map)
  with quantize_group_near [OF nth_mem [OF im]] im show ?thesis
    by (simp add: dequantized_group_def quantize_group_def x)
qed

end
