(* ===== verification/QuantQuality.thy ===== *)
theory QuantQuality
  imports Quant PyJson
begin

text \<open>
  Quality and size of the schemes, \<open>labs/model-quantizer/src/v2_quality.py\<close>: perplexity from logits, the table
  of schemes with its hard-coded perplexities, and mixed precision. Numbers are reals.
\<close>

section \<open>Perplexity\<close>

definition log_softmax :: "real list \<Rightarrow> real list" where
  "log_softmax row = (let row_max = Max (set row) in map (\<lambda>x. x - row_max - ln (\<Sum>y\<leftarrow>row. exp (y - row_max))) row)"

definition target_log_prob :: "real list \<times> int \<Rightarrow> real result" where
  "target_log_prob = (\<lambda>(row, target).
     if row = [] then Inl (ValueError ''zero-size array to reduction operation maximum which has no identity'')
     else py_index (log_softmax row) target)"

text \<open>\<open>None\<close> is the \<open>nan\<close> that the mean of no numbers gives.\<close>

definition compute_perplexity :: "real list list \<Rightarrow> int list \<Rightarrow> real option result" where
  "compute_perplexity logits target_ids =
     (if length logits \<noteq> length target_ids
      then Inl (OtherError (''AssertionError: logits ('' @ nat_str (length logits) @ '') and target_ids (''
                  @ nat_str (length target_ids) @ '') must have the same sequence length''))
      else rmap (\<lambda>log_probs. if log_probs = [] then None else Some (exp (- mean_of log_probs)))
             (rfold (\<lambda>rt acc. rmap (\<lambda>lp. acc @ [lp]) (target_log_prob rt)) (zip logits target_ids) []))"

definition perplexity_deltas :: "(string, real) pydict" where
  "perplexity_deltas = [(''fp32'', 0), (''int8'', 4 / 10), (''q4_0'', 38 / 10), (''q4_k_m'', 11 / 10), (''q2_k'', 8)]"

definition simulate_perplexity_from_scheme :: "string \<Rightarrow> real \<Rightarrow> real result" where
  "simulate_perplexity_from_scheme scheme base_perplexity =
     (case dget perplexity_deltas (str_lower scheme) of
        None \<Rightarrow> Inl (ValueError (''Unknown scheme '' @ quoted scheme @ ''. Known schemes: ''
                  @ py_repr (PList (map PStr (dkeys perplexity_deltas)))))
      | Some d \<Rightarrow> Inr (base_perplexity + d))"

section \<open>The comparison of schemes\<close>

record scheme_result =
  sr_scheme :: string
  sr_bits :: real
  sr_compression_ratio :: real
  sr_perplexity :: real
  sr_perplexity_delta :: real
  sr_size_mb :: real

record quantization_report =
  rp_model_name :: string
  rp_fp32_size_mb :: real
  rp_fp32_perplexity :: real
  rp_results :: "scheme_result list"

definition report_add :: "scheme_result \<Rightarrow> quantization_report \<Rightarrow> quantization_report" where
  "report_add r rp = rp\<lparr>rp_results := rp_results rp @ [r]\<rparr>"

definition schemes :: "(string \<times> real) list" where
  "schemes = [(''fp32'', 32), (''int8'', 8), (''q4_k_m'', 45 / 10), (''q4_0'', 4), (''q2_k'', 25 / 10)]"

definition comparison_run :: "string \<Rightarrow> real \<Rightarrow> real \<Rightarrow> quantization_report result" where
  "comparison_run model_name fp32_size_mb base_perplexity =
     rfold (\<lambda>(scheme, bits) report.
       rmap (\<lambda>ppl. let ratio = 32 / bits
                   in report_add \<lparr>sr_scheme = scheme, sr_bits = bits, sr_compression_ratio = ratio, sr_perplexity = ppl,
                        sr_perplexity_delta = ppl - base_perplexity, sr_size_mb = fp32_size_mb / ratio\<rparr> report)
         (simulate_perplexity_from_scheme scheme base_perplexity))
       schemes \<lparr>rp_model_name = model_name, rp_fp32_size_mb = fp32_size_mb, rp_fp32_perplexity = base_perplexity, rp_results = []\<rparr>"

section \<open>Mixed precision\<close>

definition layer_scheme :: "string \<Rightarrow> string" where
  "layer_scheme name =
     (let lower = str_lower name
      in if is_substring ''embed'' lower \<or> is_substring ''wte'' lower \<or> is_substring ''wpe'' lower then ''int8''
         else if is_substring ''ln'' lower \<or> is_substring ''norm'' lower \<or> is_substring ''bias'' lower then ''fp32''
         else ''q4_grouped'')"

definition q4_k_m_style :: "string list \<Rightarrow> (string, string) pydict" where
  "q4_k_m_style layer_names = foldl (\<lambda>d name. dset d name (layer_scheme name)) [] layer_names"

datatype mixed_tensor =
    MixedInt8 "8 word ndarray" real
  | MixedQ4 "8 word list" "real list" "nat list"
  | MixedFp32 "real ndarray"

definition mixed_tensor_of :: "string \<Rightarrow> real ndarray \<Rightarrow> mixed_tensor result" where
  "mixed_tensor_of scheme t =
     (if scheme = ''int8'' then rmap (\<lambda>(q, scale). MixedInt8 q scale) (quantize_symmetric_int8 t)
      else if scheme = ''q4_grouped'' then rmap (\<lambda>(packed, scales). MixedQ4 packed scales (shape t)) (quantize_q4_grouped t 32)
      else Inr (MixedFp32 t))"

definition mixed_precision_quantize :: "(string, real ndarray) pydict \<Rightarrow> (string, string) pydict
    \<Rightarrow> (string, mixed_tensor) pydict result" where
  "mixed_precision_quantize weights layer_config =
     rfold (\<lambda>(name, t) d. rmap (\<lambda>x. dset d name x) (mixed_tensor_of (dget_or layer_config name ''q4_grouped'') t)) weights []"

fun mixed_nbytes :: "mixed_tensor \<Rightarrow> nat" where
  "mixed_nbytes (MixedInt8 q _) = length (elems q)"
| "mixed_nbytes (MixedQ4 packed scales _) = length packed + 4 * length scales"
| "mixed_nbytes (MixedFp32 t) = 4 * length (elems t)"

definition mixed_precision_size_bytes :: "(string, mixed_tensor) pydict \<Rightarrow> nat" where
  "mixed_precision_size_bytes quantized = (\<Sum>x\<leftarrow>dvals quantized. mixed_nbytes x)"

section \<open>Bounds on the perplexity\<close>

lemma sum_list_ge_one: "x \<in> set xs \<Longrightarrow> (\<And>y. y \<in> set xs \<Longrightarrow> (0::real) \<le> f y) \<Longrightarrow> f x \<le> (\<Sum>y\<leftarrow>xs. f y)"
proof (induction xs)
  case (Cons a xs)
  have "0 \<le> (\<Sum>y\<leftarrow>xs. f y)" using Cons.prems(2) by (intro sum_list_nonneg) auto
  moreover have "x \<in> set xs \<Longrightarrow> f x \<le> (\<Sum>y\<leftarrow>xs. f y)" using Cons by simp
  ultimately show ?case using Cons.prems by fastforce
qed simp

lemma log_softmax_nonpos: "row \<noteq> [] \<Longrightarrow> l \<in> set (log_softmax row) \<Longrightarrow> l \<le> 0"
proof -
  assume ne: "row \<noteq> []" and "l \<in> set (log_softmax row)"
  then obtain x where x: "x \<in> set row" and l: "l = x - Max (set row) - ln (\<Sum>y\<leftarrow>row. exp (y - Max (set row)))"
    by (auto simp: log_softmax_def Let_def)
  have "exp (x - Max (set row)) \<le> (\<Sum>y\<leftarrow>row. exp (y - Max (set row)))" by (rule sum_list_ge_one [OF x]) simp
  then have "x - Max (set row) \<le> ln (\<Sum>y\<leftarrow>row. exp (y - Max (set row)))" by (metis exp_gt_zero ln_exp ln_mono order_less_le_trans)
  then show "l \<le> 0" unfolding l by simp
qed

lemma log_softmax_uniform: "row = replicate v c \<Longrightarrow> l \<in> set (log_softmax row) \<Longrightarrow> l = - ln (real v)"
  by (cases "v = 0") (auto simp: log_softmax_def sum_list_replicate)

text \<open>The log probabilities of the targets, in order.\<close>

lemma target_log_probs:
  "rfold (\<lambda>rt acc. rmap (\<lambda>lp. acc @ [lp]) (target_log_prob rt)) rts acc = Inr lps \<Longrightarrow>
     \<exists>ls. lps = acc @ ls \<and> list_all2 (\<lambda>rt l. fst rt \<noteq> [] \<and> l \<in> set (log_softmax (fst rt))) rts ls"
proof (induction rts arbitrary: acc)
  case (Cons rt rts)
  then obtain l where l: "target_log_prob rt = Inr l"
    "rfold (\<lambda>rt acc. rmap (\<lambda>lp. acc @ [lp]) (target_log_prob rt)) rts (acc @ [l]) = Inr lps"
    by (auto simp: rmap_def split: sum.splits)
  from Cons.IH [OF l(2)] obtain ls where "lps = acc @ l # ls"
    "list_all2 (\<lambda>rt l. fst rt \<noteq> [] \<and> l \<in> set (log_softmax (fst rt))) rts ls" by auto
  moreover have "fst rt \<noteq> [] \<and> l \<in> set (log_softmax (fst rt))"
    using l(1) by (auto simp: target_log_prob_def split: prod.splits if_splits dest: py_index_in_set)
  ultimately show ?case by auto
qed simp

lemma mean_of_bound: "xs \<noteq> [] \<Longrightarrow> (\<And>x. x \<in> set xs \<Longrightarrow> x \<le> c) \<Longrightarrow> mean_of xs \<le> c"
  using sum_list_mono [of xs "\<lambda>x. x" "\<lambda>_. c"] by (simp add: mean_of_def pos_divide_le_eq sum_list_triv mult.commute)

lemma mean_of_const: "xs \<noteq> [] \<Longrightarrow> (\<And>x. x \<in> set xs \<Longrightarrow> x = c) \<Longrightarrow> mean_of xs = c"
proof -
  assume "xs \<noteq> []" "\<And>x. x \<in> set xs \<Longrightarrow> x = c"
  then have "xs = replicate (length xs) c" by (simp add: replicate_eqI)
  then have "sum_list xs = real (length xs) * c" by (metis sum_list_replicate)
  then show "mean_of xs = c" using \<open>xs \<noteq> []\<close> by (simp add: mean_of_def)
qed

end
