(* ===== verification/JsonRound.thy ===== *)
theory JsonRound
  imports JsonLaws
begin

text \<open>
  What \<open>json.dumps\<close> writes, \<open>json.loads\<close> reads back (\<open>json_loads_dumps\<close>), in the compact and the indented
  form and with or without \<open>ensure_ascii\<close>. A float must be a literal that \<open>repr(float(.))\<close> keeps; a
  dictionary holds no key twice.
\<close>

section \<open>Strings\<close>

lemma of_char_eq: "(of_char c :: nat) = n \<Longrightarrow> c = char_of n"
  using char_of_char [of c] by auto

lemma char_codes:
  "char_of (34 :: nat) = CHR 0x22" "char_of (92 :: nat) = CHR 0x5C" "char_of (10 :: nat) = CHR 0x0A" "char_of (13 :: nat) = CHR 0x0D"
  "char_of (9 :: nat) = CHR 0x09" "char_of (8 :: nat) = CHR 0x08" "char_of (12 :: nat) = CHR 0x0C" "char_of (48 :: nat) = CHR ''0''"
  by code_simp+

lemma hex_value_digit: "k < 16 \<Longrightarrow> hex_value (hex_digit k) = Some k"
  by (auto simp: hex_value_def hex_digit_def Let_def of_char_of)

lemma scanstring_char: "scanstring (json_char a c @ r) = push_char c (scanstring r)"
proof -
  let ?n = "of_char c :: nat"
  have u: "char_of (16 * (?n div 16) + ?n mod 16) = c" by simp
  have h: "?n div 16 < 16" using of_char_of [of "?n"] by (simp add: less_mult_imp_div_less)
  consider "?n = 34" | "?n = 92" | "?n = 10" | "?n = 13" | "?n = 9" | "?n = 8" | "?n = 12"
    | (hex) "?n \<notin> {34, 92, 10, 13, 9, 8, 12}" "?n < 32 \<or> a \<and> 126 < ?n"
    | (plain) "?n \<notin> {34, 92, 10, 13, 9, 8, 12}" "\<not> (?n < 32 \<or> a \<and> 126 < ?n)" by blast
  then show ?thesis
  proof cases
    case hex
    have hv: "hex_value (hex_digit (?n mod 16)) = Some (?n mod 16)" "hex_value (hex_digit (?n div 16)) = Some (?n div 16)"
      "hex_value CHR ''0'' = Some 0"
      using h by (auto simp: hex_value_digit) (simp add: hex_value_def Let_def)
    have "json_char a c = [CHR 0x5C, CHR ''u'', CHR ''0'', CHR ''0'', hex_digit (?n div 16), hex_digit (?n mod 16)]"
      using hex by (simp add: json_char_def Let_def)
    moreover have "unicode_escape [CHR ''0'', CHR ''0'', hex_digit (?n div 16), hex_digit (?n mod 16)] = Inr c"
      unfolding unicode_escape.simps hv by simp
    ultimately show ?thesis by simp
  next
    case plain
    then have "c \<noteq> CHR 0x22" "c \<noteq> CHR 0x5C" by auto
    moreover have "json_char a c = [c]" using plain by (auto simp: json_char_def Let_def)
    moreover have "\<not> ?n < 32" using plain by simp
    ultimately show ?thesis by simp
  qed (drule of_char_eq, simp add: char_codes json_char_def backslash_char_def)+
qed

lemma scanstring_chars: "scanstring (concat (map (json_char a) s) @ CHR 0x22 # r) = Inr (s, r)"
  by (induction s) (simp_all add: scanstring_char push_char_def)

section \<open>Numbers\<close>

definition delim :: "string \<Rightarrow> bool" where
  "delim r \<longleftrightarrow> r = [] \<or> hd r \<in> {CHR '','', CHR '']'', CHR ''}'', CHR 0x0A}"

lemma takeWhile_delim: "r = [] \<or> \<not> P (hd r) \<Longrightarrow> takeWhile P (s @ r) = takeWhile P s"
  by (induction s) (cases r; auto)+

lemma dropWhile_delim: "r = [] \<or> \<not> P (hd r) \<Longrightarrow> dropWhile P (s @ r) = dropWhile P s @ r"
  by (induction s) (cases r; auto)+

lemma delim_not_digit: "delim r \<Longrightarrow> r = [] \<or> \<not> is_digit (hd r)"
  by (auto simp: delim_def is_digit_def Let_def)

lemma digits_delim:
  assumes "delim r"
  shows "takeWhile is_digit (s @ r) = takeWhile is_digit s" "dropWhile is_digit (s @ r) = dropWhile is_digit s @ r"
  by (rule takeWhile_delim dropWhile_delim, rule delim_not_digit [OF assms])+

lemma int_part_append: "int_part s = Some (ds, r1) \<Longrightarrow> delim r \<Longrightarrow> int_part (s @ r) = Some (ds, r1 @ r)"
  using digits_delim [of r s]
  by (cases s) (auto simp: int_part_def Let_def split: if_splits)

lemma frac_part_append:
  assumes "delim r" shows "frac_part (s @ r) = (fst (frac_part s), snd (frac_part s) @ r)"
proof (cases s)
  case Nil
  with assms show ?thesis by (cases r) (auto simp: frac_part_def delim_def)
next
  case (Cons c t)
  then show ?thesis
    using digits_delim [OF assms, of t]
    by (simp add: frac_part_def)
qed

lemma exp_part_append:
  assumes "delim r" shows "exp_part (s @ r) = (fst (exp_part s), snd (exp_part s) @ r)"
proof (cases s)
  case Nil
  with assms show ?thesis by (cases r) (auto simp: exp_part_def delim_def Let_def)
next
  case (Cons c t)
  let ?sg = "\<lambda>r. case r of d # _ \<Rightarrow> if d = CHR ''+'' \<or> d = CHR ''-'' then [d] else [] | [] \<Rightarrow> []"
  have sg: "?sg (t @ r) = ?sg t" using assms by (cases t; cases r) (auto simp: delim_def)
  have dr: "drop (length (?sg t)) (t @ r) = drop (length (?sg t)) t @ r" by (cases t) auto
  let ?u = "drop (length (?sg t)) t"
  show ?thesis
    using digits_delim [OF assms, of ?u]
    unfolding Cons exp_part_def append_Cons list.case Let_def sg dr by simp
qed

text \<open>A text the pattern matches whole is still read, and no more, when a delimiter follows.\<close>

lemma scan_number_append:
  assumes "scan_number fr s = Some (v, [])" and "delim r"
  shows "scan_number fr (s @ r) = Some (v, r)"
proof -
  have ne: "s \<noteq> []" using assms(1) by (auto simp: scan_number_def int_part_def)
  let ?neg = "hd s = CHR ''-''"
  let ?body = "if ?neg then tl s else s"
  obtain ds r1 where i: "int_part ?body = Some (ds, r1)"
    using assms(1) ne unfolding scan_number_def Let_def by (cases "int_part ?body") auto
  have "(if ?neg then tl (s @ r) else s @ r) = ?body @ r" using ne by simp
  then have i2: "int_part (if ?neg then tl (s @ r) else s @ r) = Some (ds, r1 @ r)"
    using int_part_append [OF i assms(2)] by metis
  obtain fs r2 where f: "frac_part r1 = (fs, r2)" by fastforce
  obtain es r3 where e: "exp_part r2 = (es, r3)" by fastforce
  define x where "x = (if fs = [] \<and> es = [] then PInt (if ?neg then - int (dec_value ds) else int (dec_value ds))
    else PFloat (fr ((if ?neg then ''-'' else []) @ ds @ fs @ es)))"
  have "scan_number fr s = Some (x, r3)" using ne i f e by (simp add: scan_number_def Let_def x_def)
  with assms(1) have r3: "r3 = []" and x: "x = v" by simp_all
  have "frac_part (r1 @ r) = (fs, r2 @ r)" "exp_part (r2 @ r) = (es, r)"
    using frac_part_append [OF assms(2), of r1] exp_part_append [OF assms(2), of r2] f e r3 by simp_all
  then have "scan_number fr (s @ r) = Some (x, r)" using ne i2 by (simp add: scan_number_def Let_def x_def)
  then show ?thesis by (simp add: x)
qed

lemma digit_char_digit: "is_digit (digit_char n)" "of_char (digit_char n) - 48 = n mod 10"
  by (simp_all add: is_digit_def digit_char_def Let_def of_char_of)

lemma nat_str_digits: "list_all is_digit (nat_str n)" "nat_str n \<noteq> []"
  by (induction n rule: nat_str.induct; subst nat_str.simps; simp add: digit_char_digit)+

lemma nat_str_value: "dec_value (nat_str n) = n"
proof (induction n rule: nat_str.induct)
  case (1 n)
  show ?case
  proof (cases "n < 10")
    case False
    then have "dec_value (nat_str n) = 10 * dec_value (nat_str (n div 10)) + n mod 10"
      by (subst nat_str.simps) (simp add: dec_value_def digit_char_digit)
    with 1 False show ?thesis by simp
  qed (subst nat_str.simps, simp add: dec_value_def digit_char_digit)
qed

lemma nat_str_zero: "hd (nat_str n) = CHR ''0'' \<Longrightarrow> n = 0 \<and> nat_str n = ''0''"
proof (induction n rule: nat_str.induct)
  case (1 n)
  show ?case
  proof (cases "n < 10")
    case True
    then have "n = 0" using 1(2) by (subst (asm) nat_str.simps) (auto simp: digit_char_def dest!: arg_cong [where f = "of_char :: char \<Rightarrow> nat"])
    then show ?thesis by (simp add: nat_str.simps digit_char_def char_codes)
  next
    case False
    then have "hd (nat_str (n div 10)) = CHR ''0''"
      using 1(2) nat_str_digits(2) [of "n div 10"] by (subst (asm) nat_str.simps) simp
    with 1(1) False show ?thesis by (auto simp: div_eq_0_iff)
  qed
qed

lemma int_part_nat_str: "int_part (nat_str n) = Some (nat_str n, [])"
proof -
  have t: "takeWhile is_digit (nat_str n) = nat_str n" "dropWhile is_digit (nat_str n) = []"
    using nat_str_digits(1) [of n] by (auto simp: list_all_iff takeWhile_eq_all_conv)
  show ?thesis using nat_str_digits(2) [of n] nat_str_zero [of n] unfolding int_part_def Let_def t by auto
qed

lemma digit_not_minus: "is_digit c \<Longrightarrow> c \<noteq> CHR ''-''"
  by (auto simp: is_digit_def)

lemma hd_nat_str: "is_digit (hd (nat_str n))"
  using nat_str_digits [of n] by (cases "nat_str n") auto

lemma scan_int_str: "scan_number fr (int_str i) = Some (PInt i, [])"
  using nat_str_digits(2) digit_not_minus [OF hd_nat_str]
  by (auto simp: scan_number_def int_str_def int_part_nat_str frac_part_def exp_part_def nat_str_value Let_def)

section \<open>Values\<close>

fun json_ok :: "(string \<Rightarrow> string) \<Rightarrow> pyval \<Rightarrow> bool" where
  "json_ok fr (PFloat s) = (scan_number fr s = Some (PFloat s, []))"
| "json_ok fr (PList vs) = (\<forall>v\<in>set vs. json_ok fr v)"
| "json_ok fr (PDict d) = (dwf d \<and> (\<forall>(k, v)\<in>set d. json_ok fr v))"
| "json_ok fr _ = True"

lemma str_join_Cons: "str_join sep (x # xs) = x @ (if xs = [] then [] else sep @ str_join sep xs)"
  by (cases xs) simp_all

lemma size_dumps: "size v \<le> length (json_dumps_at a lv v)"
proof (induction a lv v rule: json_dumps_at.induct)
  case (6 a lv vs)
  have "vs \<noteq> [] \<Longrightarrow> size_list size vs + Suc 0 \<le> length (str_join (json_sep lv) (map (json_dumps_at a (json_deeper lv)) vs)) + 2"
    using 6
  proof (induction vs)
    case (Cons v vs)
    then have "size v \<le> length (json_dumps_at a (json_deeper lv) v)" by auto
    moreover have "1 \<le> length (json_sep lv)" by (simp add: json_sep_def split: json_layout.split)
    moreover have "vs \<noteq> [] \<Longrightarrow> size_list size vs + Suc 0
        \<le> length (str_join (json_sep lv) (map (json_dumps_at a (json_deeper lv)) vs)) + 2"
      using Cons(1,3) by simp
    ultimately show ?case by (cases "vs = []") (simp_all add: str_join_Cons)
  qed simp
  then show ?case by auto
next
  case (7 a lv d)
  have "d \<noteq> [] \<Longrightarrow> size_list (size_prod (\<lambda>_. 0) size) d + Suc 0
    \<le> length (str_join (json_sep lv) (map (\<lambda>(k, v). json_string a k @ json_colon lv @ json_dumps_at a (json_deeper lv) v) d)) + 2"
    using 7
  proof (induction d)
    case (Cons kv d)
    obtain k v where kv: "kv = (k, v)" by fastforce
    with Cons(3) have "size v \<le> length (json_dumps_at a (json_deeper lv) v)" by auto
    moreover have "1 \<le> length (json_sep lv)" by (simp add: json_sep_def split: json_layout.split)
    moreover have "2 \<le> length (json_string a k)" by (simp add: json_string_def)
    moreover have "d \<noteq> [] \<Longrightarrow> size_list (size_prod (\<lambda>_. 0) size) d + Suc 0
        \<le> length (str_join (json_sep lv) (map (\<lambda>(k, v). json_string a k @ json_colon lv @ json_dumps_at a (json_deeper lv) v) d)) + 2"
      using Cons(1,3) by auto
    ultimately show ?case by (cases "d = []") (simp_all add: str_join_Cons kv)
  qed simp
  then show ?case by auto
qed simp_all

text \<open>The text of a value starts with a character that is neither space nor a closing bracket.\<close>

definition value_start :: "string \<Rightarrow> bool" where
  "value_start s \<longleftrightarrow> s \<noteq> [] \<and> \<not> json_space (hd s) \<and> hd s \<noteq> CHR '']'' \<and> hd s \<noteq> CHR ''}''"

lemma number_start:
  assumes "scan_number fr s = Some (v, r)"
  shows "value_start s" "hd s \<notin> {CHR 0x22, CHR ''{'', CHR ''['', CHR ''n'', CHR ''t'', CHR ''f''}" "s \<noteq> []"
proof -
  have "s \<noteq> [] \<and> (hd s = CHR ''-'' \<or> is_digit (hd s))"
    using assms by (cases s) (auto simp: scan_number_def int_part_def Let_def split: if_splits option.splits)
  then show "value_start s" "hd s \<notin> {CHR 0x22, CHR ''{'', CHR ''['', CHR ''n'', CHR ''t'', CHR ''f''}" "s \<noteq> []"
    by (auto simp: value_start_def json_space_def is_digit_def Let_def)
qed

lemma dumps_start: "json_ok fr v \<Longrightarrow> value_start (json_dumps_at a lv v)"
  using number_start(1) [OF scan_int_str] number_start(1) [of fr]
  by (cases v) (auto simp: value_start_def json_space_def json_string_def)

lemma skip_value: "value_start s \<Longrightarrow> skip_ws (s @ r) = s @ r"
  by (cases s) (auto simp: value_start_def skip_ws_def)

lemma skip_spaces: "list_all json_space w \<Longrightarrow> skip_ws (w @ s) = skip_ws s"
  by (simp add: skip_ws_def list_all_iff dropWhile_append2)

lemma json_white: "list_all json_space (json_open lv)" "list_all json_space (json_close lv)"
  by (auto simp: json_open_def json_close_def json_space_def list_all_iff split: json_layout.splits)

lemma json_sep_shape: obtains w where "json_sep lv = CHR '','' # w" "list_all json_space w"
  using json_white(1) [of lv] by (cases lv) (auto simp: json_sep_def json_space_def)

lemma skip_close:
  assumes "c = CHR '']'' \<or> c = CHR ''}''"
  shows "skip_ws (json_close lv @ c # r) = c # r" and "delim (json_close lv @ c # r)"
  using assms by (auto simp: skip_spaces [OF json_white(2)])
    (auto simp: skip_ws_def json_space_def delim_def json_close_def split: json_layout.splits)

lemma skip_sep: "CHR '','' # w = json_sep lv \<Longrightarrow> skip_ws (CHR '','' # w @ s) = CHR '','' # w @ s" "delim (CHR '','' # s)"
  by (simp_all add: skip_ws_def json_space_def delim_def)

definition reads_back :: "(string \<Rightarrow> string) \<Rightarrow> bool \<Rightarrow> json_layout \<Rightarrow> pyval \<Rightarrow> bool" where
  "reads_back fr a lv v \<longleftrightarrow>
     (\<forall>n r. size v < n \<longrightarrow> delim r \<longrightarrow> scan_once fr n (json_dumps_at a lv v @ r) = Inr (v, r))"

lemma array_reads_back:
  assumes "\<And>v. v \<in> set vs \<Longrightarrow> reads_back fr a lv' v" "\<And>v. v \<in> set vs \<Longrightarrow> json_ok fr v"
    and "vs \<noteq> []" and "size_list size vs < n"
  shows "json_array fr n (str_join (json_sep lv) (map (json_dumps_at a lv') vs) @ json_close lv @ CHR '']'' # r) = Inr (vs, r)"
  using assms
proof (induction vs arbitrary: n)
  case (Cons v vs)
  obtain m where n: "n = Suc m" using Cons.prems(4) by (cases n) simp_all
  have v: "scan_once fr m (json_dumps_at a lv' v @ s) = Inr (v, s)" if "delim s" for s
    using Cons.prems(1) [of v] Cons.prems(4) that by (simp add: reads_back_def n)
  note c = skip_close [of "CHR '']''" lv r]
  show ?case
  proof (cases "vs = []")
    case True
    with v [OF c(2)] c(1) show ?thesis by (simp add: n)
  next
    case False
    obtain w where w: "json_sep lv = CHR '','' # w" "list_all json_space w" by (rule json_sep_shape)
    let ?rest = "str_join (json_sep lv) (map (json_dumps_at a lv') vs) @ json_close lv @ CHR '']'' # r"
    have st: "value_start (json_dumps_at a lv' (hd vs))" using False Cons.prems(2) by (intro dumps_start [of fr]) auto
    have "skip_ws (w @ ?rest) = ?rest"
      using skip_value [OF st] w(2) False by (cases vs) (simp_all add: skip_spaces str_join_Cons)
    moreover have "json_array fr m ?rest = Inr (vs, r)"
      using Cons.prems by (intro Cons.IH [OF _ _ False]) (auto simp: n)
    moreover have "scan_once fr m (json_dumps_at a lv' v @ CHR '','' # w @ ?rest) = Inr (v, CHR '','' # w @ ?rest)"
      by (rule v) (rule skip_sep(2))
    ultimately show ?thesis using False by (simp add: n w(1) str_join_Cons skip_sep(1) [OF w(1) [symmetric]])
  qed
qed simp

lemma object_reads_back:
  assumes "\<And>k v. (k, v) \<in> set d \<Longrightarrow> reads_back fr a lv' v" "\<And>k v. (k, v) \<in> set d \<Longrightarrow> json_ok fr v"
    and "d \<noteq> []" and "size_list (size_prod (\<lambda>_. 0) size) d < n"
  shows "json_object fr n (str_join (json_sep lv) (map (\<lambda>(k, v). json_string a k @ json_colon lv @ json_dumps_at a lv' v) d)
           @ json_close lv @ CHR ''}'' # r) = Inr (d, r)"
  using assms
proof (induction d arbitrary: n)
  case (Cons kv d)
  obtain k v where kv: "kv = (k, v)" by fastforce
  obtain m where n: "n = Suc m" using Cons.prems(4) by (cases n) simp_all
  have v: "scan_once fr m (json_dumps_at a lv' v @ s) = Inr (v, s)" if "delim s" for s
    using Cons.prems(1) [of k v] Cons.prems(4) that by (simp add: reads_back_def n kv)
  have sv: "skip_ws (json_dumps_at a lv' v @ s) = json_dumps_at a lv' v @ s" for s
    using Cons.prems(2) [of k v] by (intro skip_value dumps_start) (auto simp: kv)
  obtain w0 where w0: "json_colon lv = CHR '':'' # w0" "list_all json_space w0"
    by (cases "lv = Tight") (simp_all add: json_colon_def json_space_def)
  have sp: "skip_ws (w0 @ json_dumps_at a lv' v @ s) = json_dumps_at a lv' v @ s" for s
    by (simp add: skip_spaces [OF w0(2)] sv)
  have co: "skip_ws (CHR '':'' # s) = CHR '':'' # s" for s by (simp add: skip_ws_def json_space_def)
  note c = skip_close [of "CHR ''}''" lv r]
  note key = scanstring_chars [of a k]
  show ?case
  proof (cases "d = []")
    case True
    with v [OF c(2)] c(1) key show ?thesis by (simp add: n kv json_string_def w0(1) co sp)
  next
    case False
    obtain w where w: "json_sep lv = CHR '','' # w" "list_all json_space w" by (rule json_sep_shape)
    let ?rest = "str_join (json_sep lv) (map (\<lambda>(k, v). json_string a k @ json_colon lv @ json_dumps_at a lv' v) d)
      @ json_close lv @ CHR ''}'' # r"
    obtain b where b: "?rest = CHR 0x22 # b" using False by (cases d) (auto simp: str_join_Cons json_string_def)
    have "skip_ws (w @ ?rest) = ?rest" unfolding b skip_spaces [OF w(2)] by (simp add: skip_ws_def json_space_def)
    moreover have "json_object fr m ?rest = Inr (d, r)"
      using Cons.prems by (intro Cons.IH [OF _ _ False]) (auto simp: n kv)
    moreover have "scan_once fr m (json_dumps_at a lv' v @ CHR '','' # w @ ?rest) = Inr (v, CHR '','' # w @ ?rest)"
      by (rule v) (rule skip_sep(2))
    ultimately show ?thesis using False key
      by (simp add: n kv w(1) w0(1) str_join_Cons json_string_def co sp skip_sep(1) [OF w(1) [symmetric]])
  qed
qed simp

lemma dict_of_items: "dwf (e @ d) \<Longrightarrow> foldl (\<lambda>m (k, v). dset m k v) e d = e @ d"
proof (induction d arbitrary: e)
  case (Cons kv d)
  have "dset e (fst kv) (snd kv) = e @ [kv]" if "fst kv \<notin> set (dkeys e)"
    using that by (induction e) (auto simp: dkeys_def)
  with Cons show ?case by (cases kv) (auto simp: dwf_def)
qed simp

lemma after_prefix_hd: "hd s \<noteq> hd p \<Longrightarrow> p \<noteq> [] \<Longrightarrow> after_prefix p s = None"
  by (auto simp: after_prefix_def is_prefix_of_iff)

lemma scan_once_number:
  assumes "scan_number fr s = Some (v, [])" and "delim r"
  shows "scan_once fr (Suc m) (s @ r) = Inr (v, r)"
proof -
  note st = number_start [OF assms(1)]
  obtain c t where s: "s = c # t" using st(3) by (cases s) auto
  have "after_prefix ''null'' (s @ r) = None" "after_prefix ''true'' (s @ r) = None" "after_prefix ''false'' (s @ r) = None"
    using st(2) s by (auto intro!: after_prefix_hd)
  then have "scan_literal fr (s @ r) = Inr (v, r)" by (simp add: scan_literal_def scan_number_append [OF assms])
  then show ?thesis using st(2) s by simp
qed

lemma dumps_reads_back: "json_ok fr v \<Longrightarrow> reads_back fr a lv v"
proof (induction a lv v rule: json_dumps_at.induct)
  case (6 a lv vs)
  show ?case
  proof (cases "vs = []")
    case True
    then show ?thesis by (auto simp: reads_back_def gr0_conv_Suc less_Suc_eq_0_disj skip_ws_def json_space_def dest!: less_imp_Suc_add)
  next
    case False
    have "scan_once fr n (json_dumps_at a lv (PList vs) @ r) = Inr (PList vs, r)" if "size (PList vs) < n" for n r
    proof -
      obtain m where m: "n = Suc m" using \<open>size (PList vs) < n\<close> by (cases n) simp_all
      let ?body = "str_join (json_sep lv) (map (json_dumps_at a (json_deeper lv)) vs) @ json_close lv @ CHR '']'' # r"
      have st: "value_start (json_dumps_at a (json_deeper lv) (hd vs))"
        using False 6(2) by (intro dumps_start [of fr]) simp
      have sk: "skip_ws (json_open lv @ ?body) = ?body"
        using skip_value [OF st] False by (cases vs) (simp_all add: skip_spaces [OF json_white(1)] str_join_Cons)
      obtain d b where b: "?body = d # b" "d \<noteq> CHR '']''"
        using st False by (cases vs; cases "json_dumps_at a (json_deeper lv) (hd vs)") (auto simp: str_join_Cons value_start_def)
      have "json_array fr m ?body = Inr (vs, r)"
        by (rule array_reads_back) (use 6 False that m in auto)
      then have "json_array fr m (d # b) = Inr (vs, r)" and "skip_ws (json_open lv @ ?body) = d # b" using sk b(1) by simp_all
      then show ?thesis using False b(2) by (simp add: m)
    qed
    then show ?thesis by (auto simp: reads_back_def)
  qed
next
  case (7 a lv d)
  show ?case
  proof (cases "d = []")
    case True
    then show ?thesis by (auto simp: reads_back_def skip_ws_def json_space_def dest!: less_imp_Suc_add)
  next
    case False
    have "scan_once fr n (json_dumps_at a lv (PDict d) @ r) = Inr (PDict d, r)" if "size (PDict d) < n" for n r
    proof -
      obtain m where m: "n = Suc m" using \<open>size (PDict d) < n\<close> by (cases n) simp_all
      let ?body = "str_join (json_sep lv) (map (\<lambda>(k, v). json_string a k @ json_colon lv @ json_dumps_at a (json_deeper lv) v) d)
        @ json_close lv @ CHR ''}'' # r"
      obtain b where b: "?body = CHR 0x22 # b" using False by (cases d) (auto simp: str_join_Cons json_string_def)
      then have sk: "skip_ws (json_open lv @ ?body) = ?body"
        unfolding b by (simp add: skip_spaces [OF json_white(1)]) (simp add: skip_ws_def json_space_def)
      have "json_object fr m ?body = Inr (d, r)"
        by (rule object_reads_back) (use 7 False that m in auto)
      then have "json_object fr m (CHR 0x22 # b) = Inr (d, r)" and "skip_ws (json_open lv @ ?body) = CHR 0x22 # b" using sk b by simp_all
      then show ?thesis using False dict_of_items [of "[]" d] 7(2) by (simp add: m)
    qed
    then show ?thesis by (auto simp: reads_back_def)
  qed
next
  case (1 a lv)
  show ?case by (auto simp: reads_back_def scan_literal_def after_prefix_def dest!: less_imp_Suc_add)
next
  case (2 a lv b)
  show ?case by (auto simp: reads_back_def scan_literal_def after_prefix_def dest!: less_imp_Suc_add)
next
  case (3 a lv i)
  show ?case by (auto simp: reads_back_def scan_once_number [OF scan_int_str] simp del: scan_once.simps dest!: less_imp_Suc_add)
next
  case (4 a lv s)
  then show ?case by (auto simp: reads_back_def scan_once_number simp del: scan_once.simps dest!: less_imp_Suc_add)
next
  case (5 a lv s)
  show ?case by (auto simp: reads_back_def json_string_def scanstring_chars dest!: less_imp_Suc_add)
qed

text \<open>The round trip.\<close>

lemma json_loads_dumps_at:
  assumes "json_ok fr v" shows "json_loads fr (json_dumps_at a lv v) = Inr v"
proof -
  let ?t = "json_dumps_at a lv v"
  have "skip_ws ?t = ?t" using skip_value [OF dumps_start [OF assms], of a lv "[]"] by simp
  moreover have "scan_once fr (2 * length ?t + 1) (?t @ []) = Inr (v, [])"
  proof -
    have "size v < 2 * length ?t + 1" using size_dumps [of v a lv] by linarith
    moreover have "delim []" by (simp add: delim_def)
    ultimately show ?thesis using dumps_reads_back [OF assms, of a lv] unfolding reads_back_def by blast
  qed
  ultimately show ?thesis unfolding json_loads_def by (simp add: skip_ws_def del: scan_once.simps)
qed

lemma json_loads_dumps:
  "json_ok fr v \<Longrightarrow> json_loads fr (json_dumps ensure_ascii indented v) = Inr v"
  "json_ok fr v \<Longrightarrow> json_loads fr (json_dumps_tight v) = Inr v"
  by (simp_all add: json_dumps_def json_dumps_tight_def json_loads_dumps_at)

end
