(* ===== verification/Gguf.thy ===== *)
theory Gguf
  imports Quant Utf8 JsonRound
begin

text \<open>
  The GGUF-lite container, \<open>labs/model-quantizer/src/gguf_lite.py\<close>, and the file format of the INT4 model
  (\<open>write_q4_model_gguf\<close>, \<open>read_q4_model_gguf\<close> of \<open>v1_int4.py\<close>). A file is the list of its bytes. A writer is
  the sequence of its \<open>f.write\<close> calls, so a call that raises leaves what was written before it. A reader passes
  its position. Tensor names are 8-bit text. A \<open>float32\<close> element is its 32-bit pattern; \<open>enc\<close> and \<open>dec\<close>
  convert it to and from a real. \<open>fr\<close> is \<open>repr(float(.))\<close>, used by \<open>json.loads\<close>.
\<close>

section \<open>Constants and arrays\<close>

definition gguf_magic :: bytes where
  "gguf_magic = [71, 71, 85, 70]"

definition gguf_version :: nat where
  "gguf_version = 3"

datatype gguf_array =
    I8 "8 word ndarray"
  | U8 "8 word ndarray"
  | F32 "32 word ndarray"
  | OtherDtype string "nat list"

fun dtype_code :: "gguf_array \<Rightarrow> nat option" where
  "dtype_code (I8 _) = Some 0"
| "dtype_code (U8 _) = Some 1"
| "dtype_code (F32 _) = Some 2"
| "dtype_code (OtherDtype _ _) = None"

fun array_shape :: "gguf_array \<Rightarrow> nat list" where
  "array_shape (I8 a) = shape a"
| "array_shape (U8 a) = shape a"
| "array_shape (F32 a) = shape a"
| "array_shape (OtherDtype _ sh) = sh"

fun dtype_name :: "gguf_array \<Rightarrow> string" where
  "dtype_name (I8 _) = ''int8''"
| "dtype_name (U8 _) = ''uint8''"
| "dtype_name (F32 _) = ''float32''"
| "dtype_name (OtherDtype d _) = d"

text \<open>\<open>np.ascontiguousarray\<close>: at least one dimension.\<close>

definition at_least_1d :: "nat list \<Rightarrow> nat list" where
  "at_least_1d sh = (if sh = [] then [1] else sh)"

fun ascontiguous :: "gguf_array \<Rightarrow> gguf_array" where
  "ascontiguous (I8 a) = I8 (a\<lparr>shape := at_least_1d (shape a)\<rparr>)"
| "ascontiguous (U8 a) = U8 (a\<lparr>shape := at_least_1d (shape a)\<rparr>)"
| "ascontiguous (F32 a) = F32 (a\<lparr>shape := at_least_1d (shape a)\<rparr>)"
| "ascontiguous (OtherDtype d sh) = OtherDtype d (at_least_1d sh)"

section \<open>Bytes\<close>

text \<open>\<open>struct.pack\<close> of an unsigned field of \<open>n\<close> bytes.\<close>

definition pack_uint :: "nat \<Rightarrow> nat \<Rightarrow> bytes result" where
  "pack_uint n x = (if x < 256 ^ n then Inr (le_bytes n x) else Inl (OtherError ''struct.error: argument out of range''))"

fun raw_bytes :: "gguf_array \<Rightarrow> bytes" where
  "raw_bytes (I8 a) = map unat (elems a)"
| "raw_bytes (U8 a) = map unat (elems a)"
| "raw_bytes (F32 a) = concat (map (\<lambda>w. le_bytes 4 (unat w)) (elems a))"
| "raw_bytes (OtherDtype _ _) = []"

definition name_bytes :: "string \<Rightarrow> bytes result" where
  "name_bytes s = utf8_encode (map of_char s)"

text \<open>Strict decoding: only the bytes of some text are accepted.\<close>

definition strict_decode :: "bytes \<Rightarrow> string result" where
  "strict_decode bs =
     (let t = utf8_decode bs
      in if utf8_encode t \<noteq> Inr bs then Inl (ValueError ''UnicodeDecodeError'')
         else if list_all (\<lambda>c. c < 256) t then Inr (map char_of t)
         else Inl (OtherError ''text above U+00FF''))"

section \<open>Writing\<close>

text \<open>The calls of \<open>f.write\<close> in order: the bytes on disk and the exception, if one was raised.\<close>

fun run_writes :: "bytes result list \<Rightarrow> bytes \<times> py_exn option" where
  "run_writes [] = ([], None)"
| "run_writes (Inl e # ws) = ([], Some e)"
| "run_writes (Inr bs # ws) = (let (rest, e) = run_writes ws in (bs @ rest, e))"

definition padding :: "nat \<Rightarrow> nat" where
  "padding pos = (32 - pos mod 32) mod 32"

definition tensor_writes :: "string \<times> gguf_array \<Rightarrow> bytes result list" where
  "tensor_writes = (\<lambda>(name, a).
     let arr = ascontiguous a
     in case dtype_code arr of
          None \<Rightarrow> [Inl (ValueError (''Unsupported dtype '' @ dtype_name arr @ '' for tensor '' @ quoted name
                     @ ''. Supported: int8, uint8, float32''))]
        | Some code \<Rightarrow>
            (case name_bytes name of
               Inl e \<Rightarrow> [Inl e]
             | Inr nb \<Rightarrow>
                 [pack_uint 4 (length nb), Inr nb, pack_uint 1 code, pack_uint 1 (length (array_shape arr))]
                 @ map (pack_uint 4) (array_shape arr)
                 @ [pack_uint 8 (length (raw_bytes arr)), Inr (raw_bytes arr)]))"

definition write_gguf_lite :: "(string, gguf_array) pydict \<Rightarrow> pdict option \<Rightarrow> bytes \<times> py_exn option" where
  "write_gguf_lite tensors metadata =
     (let meta = (case metadata of None \<Rightarrow> [] | Some d \<Rightarrow> d)
      in case name_bytes (json_dumps_tight (PDict meta)) of
           Inl e \<Rightarrow> ([], Some e)
         | Inr meta_bytes \<Rightarrow>
             run_writes
               ([Inr gguf_magic, pack_uint 4 gguf_version, pack_uint 4 (length tensors), pack_uint 4 (length meta_bytes),
                 Inr meta_bytes, Inr (replicate (padding (16 + length meta_bytes)) 0)]
                @ concat (map tensor_writes tensors)))"

section \<open>Reading\<close>

definition eof_error :: "nat \<Rightarrow> nat \<Rightarrow> py_exn" where
  "eof_error pos n =
     OtherError (''EOFError: File truncated at byte '' @ nat_str pos @ '': expected '' @ nat_str n @ '' more bytes'')"

definition read_n :: "bytes \<Rightarrow> nat \<Rightarrow> nat \<Rightarrow> (bytes \<times> nat) result" where
  "read_n data pos n =
     (let chunk = take n (drop pos data)
      in if length chunk < n then Inl (eof_error pos n) else Inr (chunk, pos + n))"

definition read_uint :: "bytes \<Rightarrow> nat \<Rightarrow> nat \<Rightarrow> (nat \<times> nat) result" where
  "read_uint data pos n = rmap (\<lambda>(bs, p). (le_value bs, p)) (read_n data pos n)"

fun read_dims :: "bytes \<Rightarrow> nat \<Rightarrow> nat \<Rightarrow> (nat list \<times> nat) result" where
  "read_dims data 0 pos = Inr ([], pos)"
| "read_dims data (Suc n) pos =
     rbind (read_uint data pos 4) (\<lambda>(d, p). rmap (\<lambda>(ds, q). (d # ds, q)) (read_dims data n p))"

fun words_of :: "bytes \<Rightarrow> 32 word list" where
  "words_of (a # b # c # d # bs) = word_of_nat (le_value [a, b, c, d]) # words_of bs"
| "words_of _ = []"

text \<open>\<open>np.frombuffer(raw, dtype).reshape(shape).copy()\<close>.\<close>

definition array_of :: "nat \<Rightarrow> bytes \<Rightarrow> nat list \<Rightarrow> gguf_array result" where
  "array_of code raw sh =
     (if code = 0 then rmap I8 (reshape (map word_of_nat raw) sh)
      else if code = 1 then rmap U8 (reshape (map word_of_nat raw) sh)
      else if length raw mod 4 \<noteq> 0 then Inl (ValueError ''buffer size must be a multiple of element size'')
      else rmap F32 (reshape (words_of raw) sh))"

record tensor_info =
  ti_name :: string
  ti_data :: gguf_array

record gguf_model =
  gm_metadata :: pyval
  gm_tensors :: "tensor_info list"

definition read_tensor :: "bytes \<Rightarrow> nat \<Rightarrow> (tensor_info \<times> nat) result" where
  "read_tensor data pos =
     rbind (read_uint data pos 4) (\<lambda>(name_len, p1).
     rbind (read_n data p1 name_len) (\<lambda>(nb, p2).
     rbind (strict_decode nb) (\<lambda>name.
     rbind (read_uint data p2 1) (\<lambda>(code, p3).
     if 2 < code then Inl (ValueError (''Unknown dtype code '' @ nat_str code @ '' for tensor '' @ quoted name))
     else rbind (read_uint data p3 1) (\<lambda>(ndim, p4).
       rbind (read_dims data ndim p4) (\<lambda>(sh, p5).
       rbind (read_uint data p5 8) (\<lambda>(data_len, p6).
       rbind (read_n data p6 data_len) (\<lambda>(raw, p7).
       rmap (\<lambda>arr. (\<lparr>ti_name = name, ti_data = arr\<rparr>, p7)) (array_of code raw sh)))))))))"

fun read_tensors :: "bytes \<Rightarrow> nat \<Rightarrow> nat \<Rightarrow> (tensor_info list \<times> nat) result" where
  "read_tensors data 0 pos = Inr ([], pos)"
| "read_tensors data (Suc n) pos =
     rbind (read_tensor data pos) (\<lambda>(t, p). rmap (\<lambda>(ts, q). (t # ts, q)) (read_tensors data n p))"

text \<open>The reader with the position it ends at.\<close>

definition read_gguf_at :: "(string \<Rightarrow> string) \<Rightarrow> bytes \<Rightarrow> (gguf_model \<times> nat) result" where
  "read_gguf_at fr data =
     rbind (read_n data 0 4) (\<lambda>(magic, p1).
     if magic \<noteq> gguf_magic then Inl (ValueError ''Bad magic'')
     else rbind (read_uint data p1 4) (\<lambda>(version, p2).
     if version \<noteq> gguf_version
     then Inl (ValueError (''Unsupported GGUF-lite version '' @ nat_str version @ '', expected '' @ nat_str gguf_version))
     else rbind (read_uint data p2 4) (\<lambda>(n_tensors, p3).
     rbind (read_uint data p3 4) (\<lambda>(meta_len, p4).
     rbind (read_n data p4 meta_len) (\<lambda>(meta_bytes, _).
     rbind (strict_decode meta_bytes) (\<lambda>meta_text.
     rbind (json_loads fr meta_text) (\<lambda>metadata.
       rmap (\<lambda>(ts, p). (\<lparr>gm_metadata = metadata, gm_tensors = ts\<rparr>, p))
          (read_tensors data n_tensors (16 + meta_len + padding (16 + meta_len))))))))))"

definition read_gguf_lite :: "(string \<Rightarrow> string) \<Rightarrow> bytes \<Rightarrow> gguf_model result" where
  "read_gguf_lite fr data = rmap fst (read_gguf_at fr data)"

section \<open>Quantized models\<close>

datatype scale_value = Scalar real | ScaleArray "real ndarray"

text \<open>\<open>np.array(s, dtype=np.float32)\<close> of a scalar has no dimension.\<close>

fun scale_array :: "(real \<Rightarrow> 32 word) \<Rightarrow> scale_value \<Rightarrow> gguf_array" where
  "scale_array enc (Scalar s) = F32 \<lparr>shape = [], elems = [enc s]\<rparr>"
| "scale_array enc (ScaleArray a) = F32 \<lparr>shape = shape a, elems = map enc (elems a)\<rparr>"

definition scale_suffix :: string where
  "scale_suffix = ''.scale''"

definition ends_with :: "string \<Rightarrow> string \<Rightarrow> bool" where
  "ends_with s suf \<longleftrightarrow> length suf \<le> length s \<and> drop (length s - length suf) s = suf"

definition all_tensors :: "(real \<Rightarrow> 32 word) \<Rightarrow> (string, gguf_array) pydict \<Rightarrow> (string, scale_value) pydict
    \<Rightarrow> (string, gguf_array) pydict" where
  "all_tensors enc weights scales =
     foldl (\<lambda>d (name, s). dset d (name @ scale_suffix) (scale_array enc s))
       (foldl (\<lambda>d (name, w). dset d name w) [] weights) scales"

text \<open>The metadata dictionary of the caller is updated in place; the second result is what it holds afterwards.\<close>

definition write_quantized_gguf :: "(real \<Rightarrow> 32 word) \<Rightarrow> (string, gguf_array) pydict \<Rightarrow> (string, scale_value) pydict
    \<Rightarrow> pdict option \<Rightarrow> (bytes \<times> py_exn option) \<times> pdict" where
  "write_quantized_gguf enc weights scales metadata =
     (let meta = (case metadata of None \<Rightarrow> [] | Some d \<Rightarrow> d);
          meta' = dset (dset meta ''gguf_lite_version'' (PInt (int gguf_version))) ''n_weight_tensors'' (PInt (int (length weights)))
      in (write_gguf_lite (all_tensors enc weights scales) (Some meta'), meta'))"

definition split_tensors :: "tensor_info list \<Rightarrow> (string, gguf_array) pydict \<times> (string, gguf_array) pydict" where
  "split_tensors ts =
     foldl (\<lambda>(ws, ss) t.
       if ends_with (ti_name t) scale_suffix
       then (ws, dset ss (take (length (ti_name t) - 6) (ti_name t)) (ti_data t))
       else (dset ws (ti_name t) (ti_data t), ss)) ([], []) ts"

definition read_quantized_gguf :: "(string \<Rightarrow> string) \<Rightarrow> bytes
    \<Rightarrow> ((string, gguf_array) pydict \<times> (string, gguf_array) pydict \<times> pyval) result" where
  "read_quantized_gguf fr data =
     rmap (\<lambda>m. let (ws, ss) = split_tensors (gm_tensors m) in (ws, ss, gm_metadata m)) (read_gguf_lite fr data)"

section \<open>INT4 model files\<close>

definition vector :: "'a list \<Rightarrow> 'a ndarray" where
  "vector xs = \<lparr>shape = [length xs], elems = xs\<rparr>"

definition q4_metadata :: "quantized_model_q4 \<Rightarrow> pdict \<Rightarrow> pdict" where
  "q4_metadata m meta =
     dset (dset (dset meta ''quant_type'' (PStr ''Q4_grouped'')) ''group_size'' (PInt (int (q4_group_size m))))
       ''shapes'' (PDict (map (\<lambda>(k, v). (k, PList (map (PInt \<circ> int) v))) (q4_shapes m)))"

definition write_q4_model_gguf :: "(real \<Rightarrow> 32 word) \<Rightarrow> quantized_model_q4 \<Rightarrow> pdict option \<Rightarrow> (bytes \<times> py_exn option) \<times> pdict" where
  "write_q4_model_gguf enc m metadata =
     write_quantized_gguf enc (map (\<lambda>(k, p). (k, U8 (vector p))) (q4_packed m))
       (map (\<lambda>(k, s). (k, ScaleArray (vector s))) (q4_scales m))
       (Some (q4_metadata m (case metadata of None \<Rightarrow> [] | Some d \<Rightarrow> d)))"

text \<open>What the record of the model can hold: natural dimensions, \<open>uint8\<close> weights, \<open>float32\<close> scales.\<close>

definition outside_model :: "'a result" where
  "outside_model = Inl (OtherError ''a value the model does not hold'')"

fun nat_of_json :: "pyval \<Rightarrow> nat result" where
  "nat_of_json (PInt i) = (if 0 \<le> i then Inr (nat i) else outside_model)"
| "nat_of_json _ = outside_model"

fun weight_of :: "gguf_array \<Rightarrow> 8 word list result" where
  "weight_of (U8 a) = Inr (elems a)"
| "weight_of _ = outside_model"

fun scales_of :: "(32 word \<Rightarrow> real) \<Rightarrow> gguf_array \<Rightarrow> real list result" where
  "scales_of dec (F32 a) = Inr (map dec (elems a))"
| "scales_of dec _ = outside_model"

definition read_q4_model_gguf :: "(string \<Rightarrow> string) \<Rightarrow> (32 word \<Rightarrow> real) \<Rightarrow> bytes \<Rightarrow> quantized_model_q4 result" where
  "read_q4_model_gguf fr dec data =
     rbind (read_quantized_gguf fr data) (\<lambda>(weights, scales, metadata).
     rbind (py_get metadata ''shapes'' (PDict [])) (\<lambda>shapes_raw.
     rbind (py_get metadata ''group_size'' (PInt 32)) (\<lambda>gs.
     rbind (nat_of_json gs) (\<lambda>g.
     rbind (py_items shapes_raw) (\<lambda>items.
     rbind (rmap_list (\<lambda>(k, v). rbind (py_iter v) (\<lambda>vs. rmap (Pair k) (rmap_list nat_of_json vs))) items) (\<lambda>shapes.
     rbind (rmap_list (\<lambda>(k, a). rmap (Pair k) (weight_of a)) weights) (\<lambda>packed.
     rmap (\<lambda>ss. \<lparr>q4_packed = packed, q4_scales = ss, q4_shapes = shapes, q4_group_size = g\<rparr>)
       (rmap_list (\<lambda>(k, a). rmap (Pair k) (scales_of dec a)) scales))))))))"

end
