(* ===== verification/GgufLaws.thy ===== *)
theory GgufLaws
  imports Gguf
begin

text \<open>
  The writer and the reader of the container agree field by field; a reader sees the same on a cut file, or
  reports the end of the file.
\<close>

section \<open>Fields\<close>

lemma pack_uint_Inr: "pack_uint n x = Inr bs \<longleftrightarrow> x < 256 ^ n \<and> bs = le_bytes n x"
  by (auto simp: pack_uint_def)

lemma strict_decode_name:
  assumes "name_bytes s = Inr bs" shows "strict_decode bs = Inr s"
proof -
  have "utf8_decode bs = map of_char s" using assms utf8_round_trip by (simp add: name_bytes_def)
  moreover have "list_all (\<lambda>c. c < 256) (map of_char s :: nat list)"
    by (simp add: list_all_iff)
  ultimately show ?thesis using assms by (simp add: strict_decode_def name_bytes_def comp_def)
qed

lemma length_four: "length xs = 4 \<Longrightarrow> \<exists>a b c d. xs = [a, b, c, d]"
  by (auto simp: numeral_eq_Suc length_Suc_conv)

lemma words_of_bytes: "words_of (concat (map (\<lambda>w. le_bytes 4 (unat w)) ws)) = ws"
proof (induction ws)
  case (Cons w ws)
  have u: "unat w < 256 ^ 4" using unsigned_less [of w] by simp
  obtain a b c d where l: "le_bytes 4 (unat w) = [a, b, c, d]" using length_four [OF length_le_bytes] by blast
  have "word_of_nat (le_value [a, b, c, d]) = w" unfolding l [symmetric] le_value_le_bytes [OF u] by simp
  with Cons l show ?case by (simp only: list.map concat.simps l append_Cons append_Nil words_of.simps)
qed simp

lemma words_of_raw: "length (concat (map (\<lambda>w. le_bytes 4 (unat w)) ws)) = 4 * length ws" for ws :: "32 word list"
  by (induction ws) simp_all

definition gguf_ok :: "gguf_array \<Rightarrow> bool" where
  "gguf_ok a = (case a of I8 x \<Rightarrow> array_ok x | U8 x \<Rightarrow> array_ok x | F32 x \<Rightarrow> array_ok x | OtherDtype _ _ \<Rightarrow> True)"

lemma at_least_1d_prod [simp]: "prod_list (at_least_1d sh) = prod_list sh"
  by (simp add: at_least_1d_def)

lemma gguf_ok_ascontiguous: "gguf_ok a \<Longrightarrow> gguf_ok (ascontiguous a)"
  by (cases a) (simp_all add: gguf_ok_def array_ok_def)

lemma reshape_elems: "array_ok a \<Longrightarrow> reshape (elems a) (shape a) = Inr a" for a :: "'a ndarray"
  by (cases a) (simp add: array_ok_def reshape_def)

lemma array_of_raw: "gguf_ok a \<Longrightarrow> dtype_code a = Some code \<Longrightarrow> array_of code (raw_bytes a) (array_shape a) = Inr a"
  by (cases a) (auto simp: array_of_def gguf_ok_def comp_def words_of_bytes words_of_raw reshape_elems)

section \<open>Writing\<close>

lemma run_writes_Cons: "run_writes (w # vs) = (bs, None) \<longleftrightarrow> (\<exists>b c. w = Inr b \<and> run_writes vs = (c, None) \<and> bs = b @ c)"
  by (cases w) (auto split: prod.splits)

lemma run_writes_append:
  "run_writes (ws @ vs) = (bs, None) \<longleftrightarrow> (\<exists>b c. run_writes ws = (b, None) \<and> run_writes vs = (c, None) \<and> bs = b @ c)"
proof (induction ws arbitrary: bs)
  case (Cons w ws)
  show ?case unfolding append_Cons run_writes_Cons Cons.IH by (metis append_assoc)
qed simp

section \<open>Reading\<close>

text \<open>The reader at a position: the bytes read are the front of what is left.\<close>

lemma read_n_at:
  assumes "drop pos data = bs @ rest" and "n = length bs"
  shows "read_n data pos n = Inr (bs, pos + length bs)" and "drop (pos + length bs) data = rest"
proof -
  show "read_n data pos n = Inr (bs, pos + length bs)" using assms by (simp add: read_n_def)
  have "drop (length bs) (drop pos data) = rest" unfolding assms by simp
  then show "drop (pos + length bs) data = rest" by (simp add: add.commute)
qed

lemma read_uint_at:
  assumes "drop pos data = le_bytes n x @ rest" and "x < 256 ^ n"
  shows "read_uint data pos n = Inr (x, pos + n)" and "drop (pos + n) data = rest"
  using read_n_at [OF assms(1)] assms(2) by (simp_all add: read_uint_def le_value_le_bytes)

lemma read_dims_at:
  assumes "run_writes (map (pack_uint 4) sh) = (bs, None)" and "drop pos data = bs @ rest"
  shows "read_dims data (length sh) pos = Inr (sh, pos + length bs)" and "drop (pos + length bs) data = rest"
  using assms
proof (induction sh arbitrary: pos bs)
  case (Cons d sh)
  { case 1
    then obtain c where d: "d < 256 ^ 4" "run_writes (map (pack_uint 4) sh) = (c, None)" "bs = le_bytes 4 d @ c"
      by (auto simp: run_writes_Cons pack_uint_Inr)
    then have at: "drop pos data = le_bytes 4 d @ c @ rest" using 1(2) by simp
    note r = read_uint_at [OF at d(1)]
    from Cons.IH [OF d(2) r(2)] r(1) d(3) show ?case by simp
  next
    case 2
    then show ?case using read_n_at(2) by blast
  }
qed simp_all

lemma read_tensor_at:
  assumes "run_writes (tensor_writes (name, a)) = (bs, None)" and "drop pos data = bs @ rest" and "gguf_ok a"
  shows "read_tensor data pos = Inr (\<lparr>ti_name = name, ti_data = ascontiguous a\<rparr>, pos + length bs)"
proof -
  let ?a = "ascontiguous a"
  obtain code nb where c: "dtype_code ?a = Some code" and nb: "name_bytes name = Inr nb"
    using assms(1) by (auto simp: tensor_writes_def Let_def split: option.splits sum.splits)
  have "code \<le> 2" using c by (cases ?a) auto
  obtain ds where w: "length nb < 256 ^ 4" "length (array_shape ?a) < 256 ^ 1" "length (raw_bytes ?a) < 256 ^ 8"
    and ds: "run_writes (map (pack_uint 4) (array_shape ?a)) = (ds, None)"
    and bs: "bs = le_bytes 4 (length nb) @ nb @ le_bytes 1 code @ le_bytes 1 (length (array_shape ?a)) @ ds
       @ le_bytes 8 (length (raw_bytes ?a)) @ raw_bytes ?a"
    using assms(1) c nb
    by (auto simp: tensor_writes_def Let_def run_writes_Cons run_writes_append pack_uint_Inr simp del: run_writes.simps(3))
  have a0: "drop pos data = le_bytes 4 (length nb) @ nb @ le_bytes 1 code @ le_bytes 1 (length (array_shape ?a)) @ ds
       @ le_bytes 8 (length (raw_bytes ?a)) @ raw_bytes ?a @ rest"
    using assms(2) unfolding bs by simp
  note r1 = read_uint_at [OF a0 w(1)]
  note r2 = read_n_at [OF r1(2) refl]
  have c1: "code < 256 ^ 1" using \<open>code \<le> 2\<close> by simp
  note r3 = read_uint_at [OF r2(2) c1]
  note r4 = read_uint_at [OF r3(2) w(2)]
  note r5 = read_dims_at [OF ds r4(2)]
  note r6 = read_uint_at [OF r5(2) w(3)]
  note r7 = read_n_at [OF r6(2) refl]
  show ?thesis
    unfolding read_tensor_def
    using r1(1) r2(1) r3(1) r4(1) r5(1) r6(1) r7(1) \<open>code \<le> 2\<close> strict_decode_name [OF nb]
      array_of_raw [OF gguf_ok_ascontiguous [OF assms(3)] c]
    by (simp add: bs add.assoc)
qed

lemma read_tensors_at:
  assumes "run_writes (concat (map tensor_writes ts)) = (bs, None)" and "drop pos data = bs @ rest"
    and "list_all (gguf_ok \<circ> snd) ts"
  shows "read_tensors data (length ts) pos = Inr (map (\<lambda>(n, a). \<lparr>ti_name = n, ti_data = ascontiguous a\<rparr>) ts, pos + length bs)"
  using assms
proof (induction ts arbitrary: pos bs)
  case (Cons t ts)
  obtain n a where t: "t = (n, a)" by fastforce
  from Cons.prems obtain b c where w: "run_writes (tensor_writes (n, a)) = (b, None)"
    "run_writes (concat (map tensor_writes ts)) = (c, None)" "bs = b @ c"
    by (auto simp: run_writes_append t)
  then have at: "drop pos data = b @ c @ rest" using Cons.prems(2) by simp
  have ok: "gguf_ok a" using Cons.prems(3) t by simp
  note r = read_tensor_at [OF w(1) at ok]
  have rest: "drop (pos + length b) data = c @ rest" using read_n_at(2) [OF at refl] .
  from Cons.IH [OF w(2) rest] Cons.prems(3) r show ?case by (simp add: t w(3))
qed simp

section \<open>The container\<close>

definition metadata_of :: "pdict option \<Rightarrow> pdict" where
  "metadata_of m = (case m of None \<Rightarrow> [] | Some d \<Rightarrow> d)"

definition gguf_header :: "bytes \<Rightarrow> nat \<Rightarrow> bytes" where
  "gguf_header meta_bytes n =
     gguf_magic @ le_bytes 4 gguf_version @ le_bytes 4 n @ le_bytes 4 (length meta_bytes) @ meta_bytes
       @ replicate (padding (16 + length meta_bytes)) 0"

lemma write_gguf_lite_None:
  assumes "write_gguf_lite tensors metadata = (file, None)"
  obtains mb body where "name_bytes (json_dumps_tight (PDict (metadata_of metadata))) = Inr mb"
    "length tensors < 256 ^ 4" "length mb < 256 ^ 4"
    "run_writes (concat (map tensor_writes tensors)) = (body, None)" "file = gguf_header mb (length tensors) @ body"
  using assms
  by (auto simp: write_gguf_lite_def metadata_of_def gguf_header_def run_writes_Cons run_writes_append pack_uint_Inr
      split: sum.splits simp del: run_writes.simps(3))

text \<open>What the reader does after a header it accepts.\<close>

lemma read_after_header:
  assumes "file = gguf_header mb n @ body" and "n < 256 ^ 4" "length mb < 256 ^ 4"
    and "strict_decode mb = Inr txt" and "json_loads fr txt = Inr meta"
  shows "read_gguf_at fr file =
      rmap (\<lambda>(ts, p). (\<lparr>gm_metadata = meta, gm_tensors = ts\<rparr>, p)) (read_tensors file n (length (gguf_header mb n)))"
    and "drop (length (gguf_header mb n)) file = body"
proof -
  have a0: "drop 0 file = gguf_magic @ le_bytes 4 gguf_version @ le_bytes 4 n @ le_bytes 4 (length mb) @ mb
       @ replicate (padding (16 + length mb)) 0 @ body"
    unfolding assms(1) gguf_header_def by simp
  note r1 = read_n_at [OF a0, of 4]
  have m: "length gguf_magic = 4" and v: "gguf_version < 256 ^ 4" by (simp_all add: gguf_magic_def gguf_version_def)
  note r1 = read_n_at [OF a0 m [symmetric]]
  note r2 = read_uint_at [OF r1(2) v]
  note r3 = read_uint_at [OF r2(2) assms(2)]
  note r4 = read_uint_at [OF r3(2) assms(3)]
  note r5 = read_n_at [OF r4(2) refl]
  have l: "length (gguf_header mb n) = 16 + length mb + padding (16 + length mb)"
    by (simp add: gguf_header_def m)
  show "read_gguf_at fr file =
      rmap (\<lambda>(ts, p). (\<lparr>gm_metadata = meta, gm_tensors = ts\<rparr>, p)) (read_tensors file n (length (gguf_header mb n)))"
    unfolding read_gguf_at_def l using r1(1) r2(1) r3(1) r4(1) r5(1) assms(4,5) by (simp add: m Let_def)
  show "drop (length (gguf_header mb n)) file = body" unfolding assms(1) by simp
qed

lemma gguf_round_trip_at:
  assumes "write_gguf_lite tensors metadata = (file, None)"
    and "json_ok fr (PDict (metadata_of metadata))" and "list_all (gguf_ok \<circ> snd) tensors"
  shows "read_gguf_at fr file = Inr (\<lparr>gm_metadata = PDict (metadata_of metadata),
      gm_tensors = map (\<lambda>(n, a). \<lparr>ti_name = n, ti_data = ascontiguous a\<rparr>) tensors\<rparr>, length file)"
proof -
  from assms(1) obtain mb body where mb: "name_bytes (json_dumps_tight (PDict (metadata_of metadata))) = Inr mb"
    and n: "length tensors < 256 ^ 4" "length mb < 256 ^ 4"
    and b: "run_writes (concat (map tensor_writes tensors)) = (body, None)"
    and f: "file = gguf_header mb (length tensors) @ body" by (rule write_gguf_lite_None)
  note h = read_after_header [OF f n strict_decode_name [OF mb] json_loads_dumps(2) [OF assms(2)]]
  have d: "drop (length (gguf_header mb (length tensors))) file = body @ []" using h(2) by simp
  have l: "length file = length (gguf_header mb (length tensors)) + length body" unfolding f by simp
  from h(1) read_tensors_at [OF b d assms(3)] show ?thesis by (simp add: l)
qed

section \<open>Cut files\<close>

text \<open>A reader that goes from a position to a later one, and on a shorter file gives the same or the end of the file.\<close>

definition is_eof :: "py_exn \<Rightarrow> bool" where
  "is_eof e \<longleftrightarrow> (\<exists>pos n. e = eof_error pos n)"

definition cut_safe :: "bytes \<Rightarrow> (bytes \<Rightarrow> ('a \<times> nat) result) \<Rightarrow> bool" where
  "cut_safe data R \<longleftrightarrow>
     (\<forall>m x p. R data = Inr (x, p) \<longrightarrow> R (take m data) = Inr (x, p) \<or> (\<exists>e. R (take m data) = Inl e \<and> is_eof e))"

lemma cut_safe_read_n: "cut_safe data (\<lambda>d. read_n d pos n)"
  unfolding cut_safe_def
proof (intro allI impI)
  fix m x p
  assume r: "read_n data pos n = Inr (x, p)"
  then have x: "x = take n (drop pos data)" "length x = n" "p = pos + n" by (auto simp: read_n_def Let_def split: if_splits)
  show "read_n (take m data) pos n = Inr (x, p) \<or> (\<exists>e. read_n (take m data) pos n = Inl e \<and> is_eof e)"
  proof (cases "length (take n (drop pos (take m data))) < n")
    case True
    then show ?thesis by (auto simp: read_n_def is_eof_def)
  next
    case False
    have "take n (drop pos (take m data)) = take (length (take n (drop pos (take m data)))) x"
      unfolding x(1) by (simp add: drop_take min_def)
    then have "take n (drop pos (take m data)) = x" using False x(2) by (simp add: min_def split: if_splits)
    with False x(3) show ?thesis by (auto simp: read_n_def)
  qed
qed

lemma cut_safe_rmap: "cut_safe data R \<Longrightarrow> cut_safe data (\<lambda>d. rmap (\<lambda>(x, p). (f x, p)) (R d))"
  unfolding cut_safe_def by (fastforce simp: result_simps)

lemma cut_safe_rbind:
  assumes "cut_safe data R" and "\<And>x p. R data = Inr (x, p) \<Longrightarrow> cut_safe data (\<lambda>d. S d x p)"
  shows "cut_safe data (\<lambda>d. rbind (R d) (\<lambda>(x, p). S d x p))"
  unfolding cut_safe_def
proof (intro allI impI)
  fix m y q
  assume "rbind (R data) (\<lambda>(x, p). S data x p) = Inr (y, q)"
  then obtain x p where xp: "R data = Inr (x, p)" "S data x p = Inr (y, q)" by (auto simp: result_simps)
  from assms(1) xp(1) consider "R (take m data) = Inr (x, p)" | e where "R (take m data) = Inl e" "is_eof e"
    unfolding cut_safe_def by blast
  then show "rbind (R (take m data)) (\<lambda>(x, p). S (take m data) x p) = Inr (y, q)
    \<or> (\<exists>e. rbind (R (take m data)) (\<lambda>(x, p). S (take m data) x p) = Inl e \<and> is_eof e)"
  proof cases
    case 1
    with assms(2) [OF xp(1)] xp(2) show ?thesis unfolding cut_safe_def by simp
  qed simp
qed

lemma cut_safe_const: "cut_safe data (\<lambda>d. r)"
  by (simp add: cut_safe_def)

lemma cut_safe_read_uint: "cut_safe data (\<lambda>d. read_uint d pos n)"
  unfolding read_uint_def by (rule cut_safe_rmap) (rule cut_safe_read_n)

lemma cut_safe_read_dims: "cut_safe data (\<lambda>d. read_dims d n pos)"
  by (induction n arbitrary: pos)
    (auto intro!: cut_safe_const cut_safe_rbind cut_safe_read_uint cut_safe_rmap)

lemma cut_safe_lift: "(\<And>x. r = Inr x \<Longrightarrow> cut_safe data (\<lambda>d. S d x)) \<Longrightarrow> cut_safe data (\<lambda>d. rbind r (S d))"
  by (cases r) (auto simp: cut_safe_const)

lemma cut_safe_read_tensor: "cut_safe data (\<lambda>d. read_tensor d pos)"
  unfolding read_tensor_def
  apply (rule cut_safe_rbind [OF cut_safe_read_uint])
  apply (rule cut_safe_rbind [OF cut_safe_read_n])
  apply (rule cut_safe_lift)
  apply (rule cut_safe_rbind [OF cut_safe_read_uint])
  subgoal for a p1 b p2 c d p3
    apply (cases "2 < d")
     apply (simp add: cut_safe_const)
    apply (simp only: if_False)
    apply (rule cut_safe_rbind [OF cut_safe_read_uint])
    apply (rule cut_safe_rbind [OF cut_safe_read_dims])
    apply (rule cut_safe_rbind [OF cut_safe_read_uint])
    apply (rule cut_safe_rbind [OF cut_safe_read_n])
    apply (rule cut_safe_const)
    done
  done

lemma cut_safe_read_tensors: "cut_safe data (\<lambda>d. read_tensors d n pos)"
  by (induction n arbitrary: pos)
    (auto intro!: cut_safe_const cut_safe_rbind cut_safe_read_tensor cut_safe_rmap)

text \<open>Tensors that were read lie within the file.\<close>

lemma read_n_within: "read_n data pos n = Inr (x, p) \<Longrightarrow> p = pos + n \<and> (n = 0 \<or> p \<le> length data)"
  by (auto simp: read_n_def Let_def split: if_splits)

lemma read_tensor_within: "read_tensor data pos = Inr (t, p) \<Longrightarrow> p \<le> length data"
proof -
  assume "read_tensor data pos = Inr (t, p)"
  then obtain p5 p6 len raw where "read_uint data p5 8 = Inr (len, p6)" "read_n data p6 len = Inr (raw, p)"
    by (auto simp: read_tensor_def result_simps split: if_splits)
  then show ?thesis by (auto simp: read_uint_def result_simps dest!: read_n_within)
qed

lemma read_tensors_within: "read_tensors data (Suc n) pos = Inr (ts, p) \<Longrightarrow> p \<le> length data"
proof (induction n arbitrary: pos ts)
  case 0
  then show ?case by (auto simp: result_simps dest: read_tensor_within)
next
  case (Suc n)
  then obtain q ts' where "read_tensors data (Suc n) q = Inr (ts', p)"
    unfolding read_tensors.simps(2) [of data "Suc n"] by (auto simp only: result_simps prod.case split_paired_Ex)
  then show ?case by (rule Suc.IH)
qed

lemma cut_safe_read_gguf: "cut_safe data (read_gguf_at fr)"
  unfolding read_gguf_at_def
  apply (rule cut_safe_rbind [OF cut_safe_read_n])
  subgoal for magic p1
    apply (cases "magic \<noteq> gguf_magic")
     apply (simp add: cut_safe_const)
    apply (simp only: if_False)
    apply (rule cut_safe_rbind [OF cut_safe_read_uint])
    subgoal for v p2
      apply (cases "v \<noteq> gguf_version")
       apply (simp add: cut_safe_const)
      apply (simp only: if_False)
      apply (rule cut_safe_rbind [OF cut_safe_read_uint])
      apply (rule cut_safe_rbind [OF cut_safe_read_uint])
      apply (rule cut_safe_rbind [OF cut_safe_read_n])
      apply (rule cut_safe_lift)+
      apply (rule cut_safe_rmap [OF cut_safe_read_tensors])
      done
    done
  done

lemma read_gguf_within:
  assumes "read_gguf_at fr data = Inr (g, p)" and "gm_tensors g \<noteq> []"
  shows "p \<le> length data"
proof -
  from assms(1) obtain n pos ts where "read_tensors data n pos = Inr (ts, p)" "gm_tensors g = ts"
    by (auto simp: read_gguf_at_def result_simps split: if_splits)
  with assms(2) show ?thesis using read_tensors_within [of data _ pos ts p] by (cases n) (auto simp del: read_tensors.simps(2))
qed

text \<open>A file cut short is reported as such, wherever it is cut, when it has a tensor.\<close>

lemma gguf_cut:
  assumes "write_gguf_lite tensors metadata = (file, None)" and "tensors \<noteq> []"
    and "json_ok fr (PDict (metadata_of metadata))" and "list_all (gguf_ok \<circ> snd) tensors" and "m < length file"
  shows "\<exists>pos n. read_gguf_lite fr (take m file) = Inl (eof_error pos n)"
proof -
  note g = gguf_round_trip_at [OF assms(1,3,4)]
  let ?g = "\<lparr>gm_metadata = PDict (metadata_of metadata),
      gm_tensors = map (\<lambda>(n, a). \<lparr>ti_name = n, ti_data = ascontiguous a\<rparr>) tensors\<rparr>"
  have "read_gguf_at fr (take m file) = Inr (?g, length file) \<or> (\<exists>e. read_gguf_at fr (take m file) = Inl e \<and> is_eof e)"
    using cut_safe_read_gguf g unfolding cut_safe_def by blast
  then consider "read_gguf_at fr (take m file) = Inr (?g, length file)"
    | e where "read_gguf_at fr (take m file) = Inl e" "is_eof e" by blast
  then show ?thesis
  proof cases
    case 1
    from read_gguf_within [OF this] assms(2,5) show ?thesis by simp
  next
    case (2 e)
    then show ?thesis by (auto simp: read_gguf_lite_def is_eof_def)
  qed
qed

section \<open>Model files\<close>

lemma set_dset_subset: "set (dset d k v) \<subseteq> insert (k, v) (set d)"
  by (induction d k v rule: dset.induct) auto

lemma json_ok_dset: "json_ok fr (PDict d) \<Longrightarrow> json_ok fr v \<Longrightarrow> json_ok fr (PDict (dset d k v))"
  using set_dset_subset [of d k v] by auto

lemma ends_with_suffix: "ends_with (s @ suf) suf" "take (length (s @ suf) - length suf) (s @ suf) = s"
  by (simp_all add: ends_with_def)

lemma length_scale_suffix [simp]: "length scale_suffix = 6"
  by (simp add: scale_suffix_def)

text \<open>The weights come first, then the scales under their suffixed names.\<close>

lemma all_tensors_append:
  assumes "dwf weights" "dwf scales" and "\<And>n. n \<in> set (dkeys weights) \<Longrightarrow> \<not> ends_with n scale_suffix"
  shows "all_tensors enc weights scales = weights @ map (\<lambda>(n, s). (n @ scale_suffix, scale_array enc s)) scales"
proof -
  let ?ss = "map (\<lambda>(n, s). (n @ scale_suffix, scale_array enc s)) scales"
  have k: "dkeys ?ss = map (\<lambda>n. n @ scale_suffix) (dkeys scales)" by (simp add: dkeys_def comp_def case_prod_beta')
  have "distinct (dkeys ?ss)" using assms(2) unfolding k dwf_def by (simp add: distinct_map inj_on_def)
  moreover have "set (dkeys weights) \<inter> set (dkeys ?ss) = {}" using assms(3) ends_with_suffix(1) unfolding k by auto
  ultimately have "dwf (weights @ ?ss)" using assms(1) by (simp add: dwf_def)
  then have "foldl (\<lambda>d (n, v). dset d n v) weights ?ss = weights @ ?ss" by (rule dict_of_items)
  moreover have "foldl (\<lambda>d (n, w). dset d n w) [] weights = weights" using dict_of_items [of "[]" weights] assms(1) by simp
  moreover have "foldl (\<lambda>d (n, s). dset d (n @ scale_suffix) (scale_array enc s)) e scales = foldl (\<lambda>d (n, v). dset d n v) e ?ss" for e
    by (induction scales arbitrary: e) auto
  ultimately show ?thesis by (simp add: all_tensors_def)
qed

definition stored :: "(string, gguf_array) pydict \<Rightarrow> (string, gguf_array) pydict" where
  "stored d = map (\<lambda>(n, a). (n, ascontiguous a)) d"

definition info_of :: "string \<times> gguf_array \<Rightarrow> tensor_info" where
  "info_of = (\<lambda>(n, a). \<lparr>ti_name = n, ti_data = ascontiguous a\<rparr>)"

lemma split_tensors_append:
  assumes "dwf weights" "dwf scales" and "\<And>n. n \<in> set (dkeys weights) \<Longrightarrow> \<not> ends_with n scale_suffix"
  shows "split_tensors (map info_of (weights @ map (\<lambda>(n, s). (n @ scale_suffix, s)) scales)) = (stored weights, stored scales)"
proof -
  let ?step = "\<lambda>(ws, ss) t. if ends_with (ti_name t) scale_suffix
       then (ws, dset ss (take (length (ti_name t) - 6) (ti_name t)) (ti_data t))
       else (dset ws (ti_name t) (ti_data t), ss)"
  have w: "foldl ?step (ws, ss) (map info_of weights) = (foldl (\<lambda>d (n, v). dset d n v) ws (stored weights), ss)" for ws ss
    using assms(3) by (induction weights arbitrary: ws) (auto simp: info_of_def stored_def)
  have s: "foldl ?step (ws, ss) (map info_of (map (\<lambda>(n, s). (n @ scale_suffix, s)) scales))
      = (ws, foldl (\<lambda>d (n, v). dset d n v) ss (stored scales))" for ws ss
    using ends_with_suffix [of _ scale_suffix]
    by (induction scales arbitrary: ss) (auto simp: info_of_def stored_def simp del: take_append)
  have keys: "dkeys (stored d) = dkeys d" for d by (simp add: stored_def dkeys_def comp_def case_prod_beta')
  have "foldl (\<lambda>d (n, v). dset d n v) [] (stored d) = stored d" if "dwf d" for d
    using dict_of_items [of "[]" "stored d"] that by (simp add: dwf_def keys)
  with assms(1,2) show ?thesis unfolding split_tensors_def map_append foldl_append w s by simp
qed

end
