(* ===== verification/QuantModels.thy ===== *)
theory QuantModels
  imports QuantLaws QuantQuality GgufLaws
begin

text \<open>
  Whole models: what quantizing a dictionary of tensors and dequantizing it gives, for INT8 and grouped INT4,
  and what a model file holds.
\<close>

section \<open>Building dictionaries\<close>

lemma rfold_entries:
  assumes "\<And>n t m. f (n, t) m = rmap (\<lambda>r. g n r m) (h n t)"
  shows "rfold f ws m0 = Inr m \<longleftrightarrow>
     (\<exists>rs. list_all2 (\<lambda>(n, t) (n', r). n' = n \<and> h n t = Inr r) ws rs \<and> m = foldl (\<lambda>m (n, r). g n r m) m0 rs)"
proof (induction ws arbitrary: m0)
  case (Cons w ws)
  obtain n t where w: "w = (n, t)" by fastforce
  show ?case
  proof (cases "h n t")
    case (Inr r)
    have "rfold f (w # ws) m0 = rfold f ws (g n r m0)" by (simp add: w assms Inr)
    with Cons.IH [of "g n r m0"] Inr show ?thesis by (auto simp: w list_all2_Cons1)
  qed (auto simp: w assms list_all2_Cons1)
qed auto

lemma list_all2_keys: "list_all2 (\<lambda>(n, t) (n', r). n' = n \<and> P n t r) ws rs \<Longrightarrow> dkeys rs = dkeys ws"
  by (induction rule: list_all2_induct) (auto simp: dkeys_def)

lemma list_all2_entry:
  assumes "list_all2 (\<lambda>(n, t) (n', r). n' = n \<and> P n t r) ws rs" and "(n, t) \<in> set ws"
  obtains r where "(n, r) \<in> set rs" "P n t r"
  using assms by (induction arbitrary: thesis rule: list_all2_induct) auto

lemma dwf_same_keys: "dkeys d = dkeys e \<Longrightarrow> dwf e \<Longrightarrow> dwf d"
  by (simp add: dwf_def)

text \<open>The entries of a dictionary under construction do not disturb each other.\<close>

lemma items_of_fold: "dwf d \<Longrightarrow> foldl (\<lambda>m (n, r). dset m n r) [] d = d"
  using dict_of_items [of "[]" d] by simp

lemma dget_item: "dwf d \<Longrightarrow> (n, r) \<in> set d \<Longrightarrow> dget d n = Some r"
  by (simp add: dwf_dget_iff)

section \<open>INT8 models\<close>

lemma dequantized_int8:
  assumes "quantize_symmetric_int8 t = Inr (q, s)"
  shows "shape (dequantize_symmetric_int8 q s) = shape t \<and> 0 < s \<and>
    list_all2 (\<lambda>x y. \<bar>x - y\<bar> \<le> s / 2) (elems t) (elems (dequantize_symmetric_int8 q s)) \<and>
    (\<forall>w\<in>set (elems q). - 127 \<le> sint w \<and> sint w \<le> 127)"
proof -
  let ?m = "abs_max (elems t)"
  have ne: "elems t \<noteq> []" using assms by (auto simp: quantize_symmetric_int8_def split: if_splits)
  have "0 \<le> ?m" using ne by (rule abs_max_nonneg)
  show ?thesis
  proof (cases "?m = 0")
    case True
    then have z: "x = 0" if "x \<in> set (elems t)" for x using abs_max_ge [OF that] by simp
    with True ne assms show ?thesis
      by (auto simp: quantize_symmetric_int8_def dequantize_symmetric_int8_def list_all2_map2 list_all2_same dest!: z)
  next
    case False
    then have s: "s = ?m / 127" "0 < s" and q: "q = \<lparr>shape = shape t, elems = map (\<lambda>x. word_of_int (clip (- 128) 127 (round_even (x / s)))) (elems t)\<rparr>"
      using assms ne \<open>0 \<le> ?m\<close> by (auto simp: quantize_symmetric_int8_def Let_def)
    have cover: "\<bar>x\<bar> \<le> of_int 127 * s" if "x \<in> set (elems t)" for x using abs_max_ge [OF that] s(1) by simp
    note near = dequantized_near [OF s(2) cover, of _ "- 128" 127, simplified]
    have "\<bar>round_even (x / s)\<bar> \<le> 127" if "x \<in> set (elems t)" for x
      using cover [OF that] s(2) by (intro round_even_range) (simp add: pos_divide_le_eq)
    then have "- 127 \<le> sint w \<and> sint w \<le> 127" if "w \<in> set (elems q)" for w
      using that near(1) unfolding q by (fastforce simp: abs_le_iff)
    with near(2) s(2) show ?thesis
      by (auto simp: q dequantize_symmetric_int8_def list_all2_map2 list_all2_same)
  qed
qed

lemma quantize_model_int8_entries:
  assumes "quantize_model_int8 ws = Inr m" and "dwf ws"
  obtains rs where "list_all2 (\<lambda>(n, t) (n', r). n' = n \<and> quantize_symmetric_int8 t = Inr r) ws rs"
    "qm_weights m = map (\<lambda>(n, r). (n, fst r)) rs" "qm_scales m = map (\<lambda>(n, r). (n, snd r)) rs" "dwf rs"
proof -
  let ?m0 = "\<lparr>qm_weights = [], qm_scales = [], qm_original_dtype = ''float32''\<rparr>"
  let ?g = "\<lambda>n (q, s) m. m\<lparr>qm_weights := dset (qm_weights m) n q, qm_scales := dset (qm_scales m) n s\<rparr>"
  from assms(1) obtain rs where rs: "list_all2 (\<lambda>(n, t) (n', r). n' = n \<and> quantize_symmetric_int8 t = Inr r) ws rs"
    and m: "m = foldl (\<lambda>m (n, r). ?g n r m) ?m0 rs"
    unfolding quantize_model_int8_def
    by (subst (asm) rfold_entries [where g = ?g and h = "\<lambda>n t. quantize_symmetric_int8 t"])
      (auto simp: case_prod_beta' rmap_def split: sum.splits)
  have w: "dwf rs" using list_all2_keys [OF rs] assms(2) by (rule dwf_same_keys)
  have "qm_weights (foldl (\<lambda>m (n, r). ?g n r m) m1 rs) = foldl (\<lambda>d (n, v). dset d n v) (qm_weights m1) (map (\<lambda>(n, r). (n, fst r)) rs)
     \<and> qm_scales (foldl (\<lambda>m (n, r). ?g n r m) m1 rs) = foldl (\<lambda>d (n, v). dset d n v) (qm_scales m1) (map (\<lambda>(n, r). (n, snd r)) rs)" for m1
    by (induction rs arbitrary: m1) (simp_all add: case_prod_beta')
  note folds = this [of ?m0]
  have "dwf (map (\<lambda>(n, r). (n, fst r)) rs)" "dwf (map (\<lambda>(n, r). (n, snd r)) rs)"
    using w by (simp_all add: dwf_def dkeys_def comp_def case_prod_beta')
  then have "qm_weights m = map (\<lambda>(n, r). (n, fst r)) rs" "qm_scales m = map (\<lambda>(n, r). (n, snd r)) rs"
    unfolding m using folds by (simp_all only: items_of_fold quantized_model.simps)
  with that [OF rs _ _ w] show thesis by blast
qed

lemma dequantize_model_int8_entries:
  assumes "quantize_model_int8 ws = Inr m" and "dwf ws"
  obtains d where "dequantize_model_int8 m = Inr d" "dkeys d = dkeys ws"
    "\<And>n t. (n, t) \<in> set ws \<Longrightarrow> \<exists>q s. quantize_symmetric_int8 t = Inr (q, s) \<and>
       dget (qm_scales m) n = Some s \<and> dget d n = Some (dequantize_symmetric_int8 q s)"
proof -
  from quantize_model_int8_entries [OF assms] obtain rs where
    rs: "list_all2 (\<lambda>(n, t) (n', r). n' = n \<and> quantize_symmetric_int8 t = Inr r) ws rs"
    and w: "qm_weights m = map (\<lambda>(n, r). (n, fst r)) rs" and sc: "qm_scales m = map (\<lambda>(n, r). (n, snd r)) rs" and wf: "dwf rs" .
  let ?d = "map (\<lambda>(n, r). (n, dequantize_symmetric_int8 (fst r) (snd r))) rs"
  have keys: "dkeys ?d = dkeys rs" "dkeys (qm_scales m) = dkeys rs" unfolding sc by (simp_all add: dkeys_def comp_def case_prod_beta')
  have scale: "dget (qm_scales m) n = Some (snd r)" if "(n, r) \<in> set rs" for n r
    using that dwf_same_keys [OF keys(2) wf] by (intro dget_item) (auto simp: sc)
  let ?h = "\<lambda>n q. case dget (qm_scales m) n of None \<Rightarrow> Inl (KeyError n) | Some s \<Rightarrow> Inr (dequantize_symmetric_int8 q s)"
  have "list_all2 (\<lambda>(n, q) (n', r). n' = n \<and> ?h n q = Inr r) (qm_weights m) ?d"
    unfolding w list_all2_map1 list_all2_map2 list_all2_same by (auto simp: scale)
  moreover have "foldl (\<lambda>d (n, r). dset d n r) [] ?d = ?d" using dwf_same_keys [OF keys(1) wf] by (rule items_of_fold)
  ultimately have d: "dequantize_model_int8 m = Inr ?d"
    unfolding dequantize_model_int8_def
    by (subst rfold_entries [where g = "\<lambda>n r d. dset d n r" and h = ?h]) (auto split: option.split)
  show thesis
  proof
    show "dequantize_model_int8 m = Inr ?d" by (rule d)
    show "dkeys ?d = dkeys ws" using keys(1) list_all2_keys [OF rs] by simp
    fix n t assume "(n, t) \<in> set ws"
    with rs obtain r where r: "(n, r) \<in> set rs" "quantize_symmetric_int8 t = Inr r" by (rule list_all2_entry)
    moreover have "dget ?d n = Some (dequantize_symmetric_int8 (fst r) (snd r))"
      using r(1) dwf_same_keys [OF keys(1) wf] by (intro dget_item) auto
    ultimately show "\<exists>q s. quantize_symmetric_int8 t = Inr (q, s) \<and> dget (qm_scales m) n = Some s \<and>
       dget ?d n = Some (dequantize_symmetric_int8 q s)" using scale [OF r(1)] by (metis prod.collapse)
  qed
qed

section \<open>INT4 models\<close>

text \<open>A small tensor is padded with zeros; the groups of the padded elements start with its own.\<close>

definition q4_padded :: "nat \<Rightarrow> real ndarray \<Rightarrow> real list" where
  "q4_padded g t = elems t @ replicate (g - length (elems t)) 0"

lemma quantize_tensor_q4_is:
  "quantize_tensor_q4 g t = quantize_q4_grouped \<lparr>shape = (if length (elems t) < g then [g] else shape t), elems = q4_padded g t\<rparr> g"
  by (cases t) (simp add: quantize_tensor_q4_def q4_padded_def)

lemma dequantized_tensor_q4:
  assumes "quantize_tensor_q4 g t = Inr (packed, scales)" and "array_ok t"
  obtains d where "dequantize_q4_grouped packed scales (shape t) g = Inr d" "shape d = shape t"
    "length (elems d) = length (elems t)"
    "\<And>i. i < length (elems t) \<Longrightarrow> \<bar>elems t ! i - elems d ! i\<bar> \<le> scales ! (i div g) / 2"
proof -
  have g: "0 < g" using assms(1) by (cases "g = 0") (simp_all add: quantize_tensor_q4_is quantize_q4_grouped_def)
  let ?xs = "q4_padded g t"
  let ?flat = "concat (map dequantized_group (q4_groups g ?xs))"
  have le: "length (elems t) \<le> length ?xs" by (simp add: q4_padded_def)
  have p: "prod_list (shape t) = length (elems t)" using assms(2) by (simp add: array_ok_def)
  note q = dequantize_quantized_q4 [OF assms(1) [unfolded quantize_tensor_q4_is], of "shape t", simplified, folded p]
  let ?d = "\<lparr>shape = shape t, elems = take (length (elems t)) ?flat\<rparr>"
  have d: "dequantize_q4_grouped packed scales (shape t) g = Inr ?d" using q(1) le by (simp add: p)
  have len: "length ?xs \<le> length ?flat"
  proof -
    have "length ?flat = length (q4_groups g ?xs) * g"
      using length_concat_groups [of "map dequantized_group (q4_groups g ?xs)" g] q4_groups(2) [OF g] by fastforce
    then show ?thesis using q4_groups(3) [OF g] by metis
  qed
  show thesis
  proof
    show "dequantize_q4_grouped packed scales (shape t) g = Inr ?d" by (rule d)
    show "shape ?d = shape t" by simp
    show "length (elems ?d) = length (elems t)" using le len by simp
    fix i assume i: "i < length (elems t)"
    have x: "?xs ! i = elems t ! i" using i by (simp add: q4_padded_def nth_append)
    have "i div g < length (q4_groups g ?xs)"
      using i le q4_groups(3) [OF g, of ?xs] by (intro less_mult_imp_div_less) linarith
    then have "scales ! (i div g) = group_scale (q4_groups g ?xs ! (i div g))" using q(2) le by (simp add: p)
    with dequantized_groups_near [OF g, of i ?xs] i le x show "\<bar>elems t ! i - elems ?d ! i\<bar> \<le> scales ! (i div g) / 2" by simp
  qed
qed

lemma quantize_model_q4_entries:
  assumes "quantize_model_q4 ws g = Inr m" and "dwf ws"
  obtains rs where "list_all2 (\<lambda>(n, t) (n', r). n' = n \<and> quantize_tensor_q4 g t = Inr r) ws rs"
    "q4_packed m = map (\<lambda>(n, r). (n, fst r)) rs" "q4_scales m = map (\<lambda>(n, r). (n, snd r)) rs"
    "q4_shapes m = map (\<lambda>(n, t). (n, shape t)) ws" "q4_group_size m = g" "dwf rs"
proof -
  let ?m0 = "\<lparr>q4_packed = [], q4_scales = [], q4_shapes = [], q4_group_size = g\<rparr>"
  let ?g = "\<lambda>n (p, s, sh) m. m\<lparr>q4_packed := dset (q4_packed m) n p, q4_scales := dset (q4_scales m) n s,
     q4_shapes := dset (q4_shapes m) n sh\<rparr>"
  let ?h = "\<lambda>n t. rmap (\<lambda>(p, s). (p, s, shape t)) (quantize_tensor_q4 g t)"
  from assms(1) obtain ts where ts: "list_all2 (\<lambda>(n, t) (n', r). n' = n \<and> ?h n t = Inr r) ws ts"
    and m: "m = foldl (\<lambda>m (n, r). ?g n r m) ?m0 ts"
    unfolding quantize_model_q4_def
    by (subst (asm) rfold_entries [where g = ?g and h = ?h]) (auto simp: case_prod_beta' rmap_def split: sum.splits)
  have w: "dwf ts" using list_all2_keys [OF ts] assms(2) by (rule dwf_same_keys)
  have folds: "q4_packed (foldl (\<lambda>m (n, r). ?g n r m) m1 ts) = foldl (\<lambda>d (n, v). dset d n v) (q4_packed m1) (map (\<lambda>(n, r). (n, fst r)) ts)
     \<and> q4_scales (foldl (\<lambda>m (n, r). ?g n r m) m1 ts) = foldl (\<lambda>d (n, v). dset d n v) (q4_scales m1) (map (\<lambda>(n, r). (n, fst (snd r))) ts)
     \<and> q4_shapes (foldl (\<lambda>m (n, r). ?g n r m) m1 ts) = foldl (\<lambda>d (n, v). dset d n v) (q4_shapes m1) (map (\<lambda>(n, r). (n, snd (snd r))) ts)
     \<and> q4_group_size (foldl (\<lambda>m (n, r). ?g n r m) m1 ts) = q4_group_size m1" for m1
    by (induction ts arbitrary: m1) (simp_all add: case_prod_beta')
  have wfs: "dwf (map (\<lambda>(n, r). (n, f r)) ts)" for f :: "8 word list \<times> real list \<times> nat list \<Rightarrow> 'b"
    using w by (simp add: dwf_def dkeys_def comp_def case_prod_beta')
  let ?rs = "map (\<lambda>(n, r). (n, (fst r, fst (snd r)))) ts"
  have "list_all2 (\<lambda>(n, t) (n', r). n' = n \<and> quantize_tensor_q4 g t = Inr r) ws ?rs"
    unfolding list_all2_map2 by (rule list_all2_mono [OF ts]) (auto simp: result_simps)
  moreover have "q4_packed m = map (\<lambda>(n, r). (n, fst r)) ?rs"
    unfolding m folds [of ?m0, THEN conjunct1] quantized_model_q4.simps items_of_fold [OF wfs] by (simp add: case_prod_beta')
  moreover have "q4_scales m = map (\<lambda>(n, r). (n, snd r)) ?rs"
    unfolding m folds [of ?m0, THEN conjunct2, THEN conjunct1] quantized_model_q4.simps items_of_fold [OF wfs [of "\<lambda>r. fst (snd r)"]]
    by (simp add: case_prod_beta')
  moreover have "q4_shapes m = map (\<lambda>(n, t). (n, shape t)) ws"
  proof -
    have "map (\<lambda>(n, r). (n, snd (snd r))) ts = map (\<lambda>(n, t). (n, shape t)) ws"
      using ts by (induction rule: list_all2_induct) (auto simp: result_simps)
    then show ?thesis
      unfolding m folds [of ?m0, THEN conjunct2, THEN conjunct2, THEN conjunct1] quantized_model_q4.simps
        items_of_fold [OF wfs [of "\<lambda>r. snd (snd r)"]] .
  qed
  moreover have "q4_group_size m = g" unfolding m using folds [of ?m0] by simp
  moreover have "dwf ?rs" by (rule wfs)
  ultimately show thesis by (rule that)
qed

lemma dequantize_model_q4_entries:
  assumes "quantize_model_q4 ws g = Inr m" and "dwf ws" and "array_ok ` (snd ` set ws) \<subseteq> {True}"
  obtains d where "dequantize_model_q4 m = Inr d" "dkeys d = dkeys ws"
    "\<And>n t. (n, t) \<in> set ws \<Longrightarrow> \<exists>p s d'. quantize_tensor_q4 g t = Inr (p, s) \<and> dget (q4_scales m) n = Some s \<and>
       dequantize_q4_grouped p s (shape t) g = Inr d' \<and> dget d n = Some d'"
proof -
  from quantize_model_q4_entries [OF assms(1,2)] obtain rs where
    rs: "list_all2 (\<lambda>(n, t) (n', r). n' = n \<and> quantize_tensor_q4 g t = Inr r) ws rs"
    and pk: "q4_packed m = map (\<lambda>(n, r). (n, fst r)) rs" and sc: "q4_scales m = map (\<lambda>(n, r). (n, snd r)) rs"
    and sh: "q4_shapes m = map (\<lambda>(n, t). (n, shape t)) ws" and gs: "q4_group_size m = g" and wf: "dwf rs" .
  have kr: "dkeys rs = dkeys ws" by (rule list_all2_keys [OF rs])
  have ks: "dkeys (q4_scales m) = dkeys rs" "dkeys (q4_shapes m) = dkeys ws"
    unfolding sc sh by (simp_all add: dkeys_def comp_def case_prod_beta')
  have scale: "dget (q4_scales m) n = Some (snd r)" if "(n, r) \<in> set rs" for n r
    using that dwf_same_keys [OF ks(1) wf] by (intro dget_item) (auto simp: sc)
  have shp: "dget (q4_shapes m) n = Some (shape t)" if "(n, t) \<in> set ws" for n t
    using that dwf_same_keys [OF ks(2) assms(2)] by (intro dget_item) (auto simp: sh)
  let ?h = "\<lambda>n packed. case (dget (q4_scales m) n, dget (q4_shapes m) n) of
         (Some scales, Some sh) \<Rightarrow> dequantize_q4_grouped packed scales sh (q4_group_size m) | _ \<Rightarrow> Inl (KeyError n)"
  have each: "\<exists>d'. ?h n (fst r) = Inr d' \<and> quantize_tensor_q4 g t = Inr r \<and> dequantize_q4_grouped (fst r) (snd r) (shape t) g = Inr d'"
    if "(n, t) \<in> set ws" "(n, r) \<in> set rs" for n t r
  proof -
    from rs that(1) obtain r' where r': "(n, r') \<in> set rs" "quantize_tensor_q4 g t = Inr r'" by (rule list_all2_entry)
    then have "r' = r" using that(2) wf by (metis dget_item option.inject)
    with r' have r: "quantize_tensor_q4 g t = Inr (fst r, snd r)" by simp
    have "array_ok t" using that(1) assms(3) by (auto simp: image_subset_iff)
    with r obtain d' where "dequantize_q4_grouped (fst r) (snd r) (shape t) g = Inr d'" by (rule dequantized_tensor_q4)
    then show ?thesis using scale [OF that(2)] shp [OF that(1)] gs r by simp
  qed
  have "\<exists>ds. list_all2 (\<lambda>(n, q) (n', r). n' = n \<and> ?h n q = Inr r) (q4_packed m) ds"
  proof -
    have "\<exists>x. ?h n (fst r) = Inr x" if "(n, r) \<in> set rs" for n r
    proof -
      have "n \<in> set (dkeys rs)" using that by (force simp: dkeys_def)
      then have "n \<in> set (dkeys ws)" by (simp only: kr)
      then obtain t where "(n, t) \<in> set ws" by (auto simp: dkeys_def)
      with each that show ?thesis by blast
    qed
    then obtain F where F: "\<And>n r. (n, r) \<in> set rs \<Longrightarrow> ?h n (fst r) = Inr (F n r)" by metis
    have "list_all2 (\<lambda>(n, q) (n', r). n' = n \<and> ?h n q = Inr r) (q4_packed m) (map (\<lambda>(n, r). (n, F n r)) rs)"
      unfolding pk list_all2_map1 list_all2_map2 list_all2_same by (clarsimp, drule F, simp)
    then show ?thesis by blast
  qed
  then obtain ds where ds: "list_all2 (\<lambda>(n, q) (n', r). n' = n \<and> ?h n q = Inr r) (q4_packed m) ds" by blast
  have kd: "dkeys ds = dkeys ws"
    using list_all2_keys [OF ds] kr unfolding pk by (simp add: dkeys_def comp_def case_prod_beta')
  have "foldl (\<lambda>d (n, r). dset d n r) [] ds = ds" using dwf_same_keys [OF kd assms(2)] by (rule items_of_fold)
  then have d: "dequantize_model_q4 m = Inr ds"
    unfolding dequantize_model_q4_def
    by (subst rfold_entries [where g = "\<lambda>n r d. dset d n r" and h = ?h]) (use ds in \<open>auto split: option.split\<close>)
  show thesis
  proof
    show "dequantize_model_q4 m = Inr ds" by (rule d)
    show "dkeys ds = dkeys ws" by (rule kd)
    fix n t assume t: "(n, t) \<in> set ws"
    with rs obtain r where r: "(n, r) \<in> set rs" by (rule list_all2_entry)
    then have "(n, fst r) \<in> set (q4_packed m)" unfolding pk by force
    with ds obtain d' where d': "(n, d') \<in> set ds" "?h n (fst r) = Inr d'" by (rule list_all2_entry)
    have g: "dget ds n = Some d'" by (rule dget_item [OF dwf_same_keys [OF kd assms(2)] d'(1)])
    obtain d'' where e: "?h n (fst r) = Inr d''" "quantize_tensor_q4 g t = Inr r"
      "dequantize_q4_grouped (fst r) (snd r) (shape t) g = Inr d''" using each [OF t r] by blast
    have "d' = d''" using d'(2) e(1) by (simp only: sum.inject)
    with g have "dget ds n = Some d''" by simp
    moreover have "quantize_tensor_q4 g t = Inr (fst r, snd r)" using e(2) by simp
    ultimately show "\<exists>p s d'. quantize_tensor_q4 g t = Inr (p, s) \<and> dget (q4_scales m) n = Some s \<and>
       dequantize_q4_grouped p s (shape t) g = Inr d' \<and> dget ds n = Some d'"
      using e(3) scale [OF r] by blast
  qed
qed

section \<open>What a tensor quantizer promises\<close>

text \<open>A quantizer \<open>enc\<close> and its dequantizer \<open>dec\<close>: accepted tensors come back with their shape, element
  \<open>i\<close> within half of \<open>step c i\<close>. The mean squared error follows.\<close>

locale tensor_codec =
  fixes ok :: "real ndarray \<Rightarrow> bool"
    and enc :: "real ndarray \<Rightarrow> 'c result"
    and dec :: "'c \<Rightarrow> nat list \<Rightarrow> real ndarray result"
    and step :: "'c \<Rightarrow> nat \<Rightarrow> real"
  assumes decodes: "ok t \<Longrightarrow> enc t = Inr c \<Longrightarrow>
      \<exists>t'. dec c (shape t) = Inr t' \<and> shape t' = shape t \<and> length (elems t') = length (elems t)"
    and near: "ok t \<Longrightarrow> enc t = Inr c \<Longrightarrow> dec c (shape t) = Inr t' \<Longrightarrow> i < length (elems t) \<Longrightarrow>
      \<bar>elems t ! i - elems t' ! i\<bar> \<le> step c i / 2"
begin

lemma squared_error_bound:
  assumes "ok t" "enc t = Inr c" "dec c (shape t) = Inr t'" and b: "\<And>i. i < length (elems t) \<Longrightarrow> step c i \<le> b"
    and "elems t \<noteq> []"
  shows "mean_squared_error t t' \<le> (b / 2)\<^sup>2"
proof -
  have l: "length (elems t') = length (elems t)" using decodes [OF assms(1,2)] assms(3) by auto
  let ?sq = "map2 (\<lambda>x y. (x - y)\<^sup>2) (elems t) (elems t')"
  have "z \<le> (b / 2)\<^sup>2" if "z \<in> set ?sq" for z
  proof -
    from that obtain i where i: "i < length (elems t)" "z = (elems t ! i - elems t' ! i)\<^sup>2"
      using l by (auto simp: in_set_conv_nth)
    have "\<bar>elems t ! i - elems t' ! i\<bar> \<le> b / 2" using near [OF assms(1-3) i(1)] b [OF i(1)] by simp
    then show ?thesis unfolding i(2) using power_mono [of "\<bar>elems t ! i - elems t' ! i\<bar>" "b / 2" 2] by simp
  qed
  moreover have "?sq \<noteq> []" using assms(5) l by (cases "elems t"; cases "elems t'") auto
  ultimately show ?thesis unfolding mean_squared_error_def by (intro mean_of_bound)
qed

end

interpretation int8: tensor_codec "\<lambda>_. True" quantize_symmetric_int8
  "\<lambda>c sh. Inr (dequantize_symmetric_int8 (fst c) (snd c))" "\<lambda>c i. snd c"
proof
  fix t c assume e: "quantize_symmetric_int8 t = Inr c"
  then have d: "shape (dequantize_symmetric_int8 (fst c) (snd c)) = shape t"
    "list_all2 (\<lambda>x y. \<bar>x - y\<bar> \<le> snd c / 2) (elems t) (elems (dequantize_symmetric_int8 (fst c) (snd c)))"
    using dequantized_int8 [of t "fst c" "snd c"] by simp_all
  then show "\<exists>t'. Inr (dequantize_symmetric_int8 (fst c) (snd c)) = Inr t' \<and> shape t' = shape t \<and> length (elems t') = length (elems t)"
    by (auto dest: list_all2_lengthD)
  fix t' :: "real ndarray" and i
  assume "Inr (dequantize_symmetric_int8 (fst c) (snd c)) = Inr t'" "i < length (elems t)"
  with d(2) show "\<bar>elems t ! i - elems t' ! i\<bar> \<le> snd c / 2" by (auto dest: list_all2_nthD)
qed

interpretation q4: tensor_codec array_ok "quantize_tensor_q4 g"
  "\<lambda>c sh. dequantize_q4_grouped (fst c) (snd c) sh g" "\<lambda>c i. snd c ! (i div g)" for g
proof
  fix t c assume a: "array_ok t" and e: "quantize_tensor_q4 g t = Inr c"
  then have e': "quantize_tensor_q4 g t = Inr (fst c, snd c)" by simp
  from dequantized_tensor_q4 [OF e' a] obtain d where d: "dequantize_q4_grouped (fst c) (snd c) (shape t) g = Inr d" "shape d = shape t"
    "length (elems d) = length (elems t)" "\<And>i. i < length (elems t) \<Longrightarrow> \<bar>elems t ! i - elems d ! i\<bar> \<le> snd c ! (i div g) / 2" by blast
  then show "\<exists>t'. dequantize_q4_grouped (fst c) (snd c) (shape t) g = Inr t' \<and> shape t' = shape t \<and> length (elems t') = length (elems t)"
    by blast
  fix t' i assume "dequantize_q4_grouped (fst c) (snd c) (shape t) g = Inr t'" "i < length (elems t)"
  with d(1) d(4) show "\<bar>elems t ! i - elems t' ! i\<bar> \<le> snd c ! (i div g) / 2" by simp
qed

section \<open>Sizes\<close>

lemma sum_dvals_map: "(\<Sum>x\<leftarrow>dvals (map (\<lambda>(n, r). (n, f r)) d). g x) = (\<Sum>r\<leftarrow>dvals d. g (f r))"
  by (simp add: dvals_def comp_def case_prod_beta')

lemma sum_list_all2:
  "list_all2 (\<lambda>(n, t) (n', r). n' = n \<and> P t r) ws rs \<Longrightarrow> (\<And>t r. (t \<in> snd ` set ws) \<Longrightarrow> P t r \<Longrightarrow> f r = c * h t) \<Longrightarrow>
   (\<Sum>r\<leftarrow>dvals rs. f r) = c * (\<Sum>t\<leftarrow>dvals ws. h t)" for c :: nat
  by (induction rule: list_all2_induct) (auto simp: dvals_def distrib_left)

lemma int8_size_bytes:
  assumes "quantize_model_int8 weights = Inr m" and "dwf weights"
  shows "qm_size_bytes m = (\<Sum>t\<leftarrow>dvals weights. length (elems t))"
proof -
  from quantize_model_int8_entries [OF assms] obtain rs where
    rs: "list_all2 (\<lambda>(n, t) (n', r). n' = n \<and> quantize_symmetric_int8 t = Inr r) weights rs"
    and w: "qm_weights m = map (\<lambda>(n, r). (n, fst r)) rs" by metis
  have "(\<Sum>r\<leftarrow>dvals rs. length (elems (fst r))) = 1 * (\<Sum>t\<leftarrow>dvals weights. length (elems t))"
    by (rule sum_list_all2 [OF rs]) (auto simp: quantize_symmetric_int8_def Let_def split: if_splits)
  then show ?thesis unfolding qm_size_bytes_def w sum_dvals_map by simp
qed

lemma q4_tensor_bytes:
  assumes "quantize_tensor_q4 32 t = Inr (packed, scales)" and "elems t \<noteq> []" "length (elems t) mod 32 = 0"
  shows "8 * (length packed + 4 * length scales) = 5 * length (elems t)"
proof -
  from assms(2,3) have "32 \<le> length (elems t)" using dvd_imp_le [of 32 "length (elems t)"] by auto
  then have q: "quantize_q4_grouped t 32 = Inr (packed, scales)" using assms(1) by (simp add: quantize_tensor_q4_def)
  obtain p where p: "quantize_q4_grouped t 32 = Inr (p, map group_scale (q4_groups 32 (elems t)))"
    "length p = (length (q4_groups 32 (elems t)) * 32 + 1) div 2"
    by (rule quantize_q4_grouped_Inr [of 32 t]) simp_all
  have "nat (- int (length (elems t)) mod int 32) = 0"
  proof -
    have "int 32 dvd int (length (elems t))" using assms(3) by (simp only: int_dvd_int_iff mod_eq_0_iff_dvd)
    then have "int 32 dvd - int (length (elems t))" by simp
    then show ?thesis by (simp add: mod_eq_0_iff_dvd)
  qed
  then have "length (concat (q4_groups 32 (elems t))) = length (elems t)" using q4_groups(1) [of 32 "elems t"] by simp
  moreover have "length (concat (q4_groups 32 (elems t))) = length (q4_groups 32 (elems t)) * 32"
    by (rule length_concat_groups) (rule q4_groups(2), simp)
  ultimately have n: "length (elems t) = length (q4_groups 32 (elems t)) * 32" by (rule trans [OF sym])
  have "length packed = (length (q4_groups 32 (elems t)) * 32 + 1) div 2" "length scales = length (q4_groups 32 (elems t))"
    using p q by simp_all
  then show ?thesis unfolding n by presburger
qed

lemma q4_size_bytes_32:
  assumes "quantize_model_q4 weights 32 = Inr m" and "dwf weights"
    and "(\<lambda>t. elems t \<noteq> [] \<and> length (elems t) mod 32 = 0) ` (snd ` set weights) \<subseteq> {True}"
  shows "8 * q4_size_bytes m = 5 * (\<Sum>t\<leftarrow>dvals weights. length (elems t))"
proof -
  from quantize_model_q4_entries [OF assms(1,2)] obtain rs where
    rs: "list_all2 (\<lambda>(n, t) (n', r). n' = n \<and> quantize_tensor_q4 32 t = Inr r) weights rs"
    and w: "q4_packed m = map (\<lambda>(n, r). (n, fst r)) rs" "q4_scales m = map (\<lambda>(n, r). (n, snd r)) rs" by metis
  have "(\<Sum>r\<leftarrow>dvals rs. 8 * (length (fst r) + 4 * length (snd r))) = 5 * (\<Sum>t\<leftarrow>dvals weights. length (elems t))"
    by (rule sum_list_all2 [OF rs]) (use assms(3) in \<open>auto simp: image_subset_iff intro!: q4_tensor_bytes [simplified]\<close>)
  moreover have "(\<Sum>r\<leftarrow>dvals rs. 8 * (length (fst r) + 4 * length (snd r))) = 8 * q4_size_bytes m"
    unfolding q4_size_bytes_def w sum_dvals_map by (simp add: sum_list_const_mult sum_list_addf distrib_left)
  ultimately show ?thesis by simp
qed

section \<open>Files\<close>

lemma read_written_quantized:
  assumes "write_quantized_gguf enc weights scales metadata = ((file, None), written)"
    and "dwf weights" "dwf scales" and "(\<lambda>n. ends_with n scale_suffix) ` set (dkeys weights) \<subseteq> {False}"
    and "gguf_ok ` (snd ` set weights) \<subseteq> {True}" "(gguf_ok \<circ> scale_array enc) ` (snd ` set scales) \<subseteq> {True}"
    and "json_ok fr (PDict (metadata_of metadata))"
  shows "read_quantized_gguf fr file =
    Inr (stored weights, stored (map (\<lambda>(n, s). (n, scale_array enc s)) scales), PDict written)"
proof -
  let ?ss = "map (\<lambda>(n, s). (n, scale_array enc s)) scales"
  have ends: "\<not> ends_with n scale_suffix" if "n \<in> set (dkeys weights)" for n using assms(4) that by (auto simp: image_subset_iff)
  have all: "all_tensors enc weights scales = weights @ map (\<lambda>(n, s). (n @ scale_suffix, s)) ?ss"
    using all_tensors_append [OF assms(2,3) ends] by (simp add: comp_def case_prod_beta')
  have w: "write_gguf_lite (all_tensors enc weights scales) (Some written) = (file, None)"
    and md: "written = dset (dset (metadata_of metadata) ''gguf_lite_version'' (PInt (int gguf_version)))
       ''n_weight_tensors'' (PInt (int (length weights)))"
    using assms(1) by (auto simp: write_quantized_gguf_def metadata_of_def Let_def)
  have jk: "json_ok fr (PDict (metadata_of (Some written)))"
    unfolding md metadata_of_def option.case by (intro json_ok_dset) (use assms(7) in \<open>simp_all add: metadata_of_def\<close>)
  have ok: "list_all (gguf_ok \<circ> snd) (all_tensors enc weights scales)"
    unfolding all using assms(5,6) by (auto simp: list_all_iff image_subset_iff)
  have "dwf ?ss" using assms(3) by (simp add: dwf_def dkeys_def comp_def case_prod_beta')
  note split = split_tensors_append [OF assms(2) this ends]
  from gguf_round_trip_at [OF w jk ok] show ?thesis
    unfolding read_quantized_gguf_def read_gguf_lite_def all
    using split by (simp add: metadata_of_def info_of_def [abs_def])
qed

lemma read_written_q4:
  assumes "write_q4_model_gguf enc m metadata = ((file, None), written)"
    and "dwf (q4_packed m)" "dwf (q4_scales m)" "dwf (q4_shapes m)"
    and "(\<lambda>n. ends_with n scale_suffix) ` set (dkeys (q4_packed m)) \<subseteq> {False}"
    and "(\<lambda>s. dec (enc s) = s) ` (\<Union>(set ` set (dvals (q4_scales m)))) \<subseteq> {True}"
    and "json_ok fr (PDict (metadata_of metadata))"
  shows "read_q4_model_gguf fr dec file = Inr m"
proof -
  let ?ws = "map (\<lambda>(k, p). (k, U8 (vector p))) (q4_packed m)"
  let ?ss = "map (\<lambda>(k, s). (k, ScaleArray (vector s))) (q4_scales m)"
  let ?md = "Some (q4_metadata m (metadata_of metadata))"
  have keys: "dkeys (map (\<lambda>(k, v). (k, f v)) d) = dkeys d" for f :: "'x \<Rightarrow> 'y" and d :: "(string, 'x) pydict"
    by (simp add: dkeys_def comp_def case_prod_beta')
  have w: "write_quantized_gguf enc ?ws ?ss ?md = ((file, None), written)"
    using assms(1) by (simp add: write_q4_model_gguf_def metadata_of_def)
  have wf: "dwf ?ws" "dwf ?ss" using assms(2,3) unfolding dwf_def keys by simp_all
  have ends: "(\<lambda>n. ends_with n scale_suffix) ` set (dkeys ?ws) \<subseteq> {False}" using assms(5) unfolding keys .
  have ok: "gguf_ok ` (snd ` set ?ws) \<subseteq> {True}" "(gguf_ok \<circ> scale_array enc) ` (snd ` set ?ss) \<subseteq> {True}"
    by (auto simp: gguf_ok_def array_ok_def vector_def)
  have "json_ok fr (PDict (map (\<lambda>(k, v). (k, PList (map (PInt \<circ> int) v))) (q4_shapes m)))"
    using assms(4) unfolding dwf_def by (auto simp: dwf_def dkeys_def comp_def case_prod_beta')
  then have jk: "json_ok fr (PDict (metadata_of ?md))"
    unfolding metadata_of_def option.case q4_metadata_def
    by (intro json_ok_dset) (use assms(7) in \<open>simp_all add: metadata_of_def\<close>)
  note r = read_written_quantized [OF w wf ends ok jk]
  have md: "written = dset (dset (q4_metadata m (metadata_of metadata)) ''gguf_lite_version'' (PInt (int gguf_version)))
       ''n_weight_tensors'' (PInt (int (length ?ws)))"
    using w by (auto simp: write_quantized_gguf_def metadata_of_def Let_def)
  have "py_get (PDict written) ''shapes'' (PDict []) = Inr (PDict (map (\<lambda>(k, v). (k, PList (map (PInt \<circ> int) v))) (q4_shapes m)))"
    and "py_get (PDict written) ''group_size'' (PInt 32) = Inr (PInt (int (q4_group_size m)))"
    unfolding md q4_metadata_def by (simp_all add: dget_or_def)
  moreover have "rmap_list (\<lambda>(k, v). rbind (py_iter v) (\<lambda>vs. rmap (Pair k) (rmap_list nat_of_json vs)))
      (map (\<lambda>(k, v). (k, PList (map (PInt \<circ> int) v))) (q4_shapes m)) = Inr (map (\<lambda>x. x) (q4_shapes m))"
  proof (rule rmap_list_map)
    fix kv :: "string \<times> nat list"
    have "rmap_list nat_of_json (map (PInt \<circ> int) v) = Inr (map (\<lambda>x. x) v)" for v by (rule rmap_list_map) simp
    then show "(case (case kv of (k, v) \<Rightarrow> (k, PList (map (PInt \<circ> int) v))) of
        (k, v) \<Rightarrow> rbind (py_iter v) (\<lambda>vs. rmap (Pair k) (rmap_list nat_of_json vs))) = Inr kv"
      by (cases kv) (simp add: py_iter_def)
  qed
  moreover have "rmap_list (\<lambda>(k, a). rmap (Pair k) (weight_of a)) (stored ?ws) = Inr (map (\<lambda>x. x) (q4_packed m))"
    unfolding stored_def map_map by (rule rmap_list_map) (auto simp: vector_def)
  moreover have "rmap_list (\<lambda>(k, a). rmap (Pair k) (scales_of dec a)) (stored (map (\<lambda>(n, s). (n, scale_array enc s)) ?ss))
      = Inr (map (\<lambda>x. x) (q4_scales m))"
    unfolding stored_def map_map
  proof (rule rmap_list_map)
    fix kv assume "kv \<in> set (q4_scales m)"
    then have "map (\<lambda>s. dec (enc s)) (snd kv) = map (\<lambda>s. s) (snd kv)"
      using assms(6) by (intro map_cong refl) (fastforce simp: dvals_def image_subset_iff)
    then show "(case ((\<lambda>(n, a). (n, ascontiguous a)) \<circ> ((\<lambda>(n, s). (n, scale_array enc s)) \<circ> (\<lambda>(k, s). (k, ScaleArray (vector s))))) kv of
        (k, a) \<Rightarrow> rmap (Pair k) (scales_of dec a)) = Inr kv"
      by (cases kv) (simp add: vector_def comp_def)
  qed
  ultimately show ?thesis unfolding read_q4_model_gguf_def r by simp
qed

text \<open>
  The quantizer service, \<open>labs/model-quantizer/src/server.py\<close>. The random tensors are the parameter \<open>rng\<close>, which
  gives the elements of the two \<open>dim\<close> by \<open>dim\<close> matrices; the elapsed time is left out. The results: the sizes of a
  response agree with each other, and the rows of a comparison.
\<close>

record quantize_request =
  qr_model_name :: string
  qr_num_params :: nat
  qr_scheme :: string
  qr_group_size :: nat

definition request_valid :: "quantize_request \<Rightarrow> bool" where
  "request_valid r \<longleftrightarrow> 1000 \<le> qr_num_params r \<and> qr_num_params r \<le> 500000000 \<and>
     (qr_scheme r = ''int8'' \<or> qr_scheme r = ''q4_grouped'') \<and> 8 \<le> qr_group_size r \<and> qr_group_size r \<le> 256"

record tensor_stats =
  ts_name :: string
  ts_original_shape :: "nat list"
  ts_original_size_mb :: real
  ts_quantized_size_mb :: real
  ts_compression_ratio :: real
  ts_scheme :: string

record quantize_response =
  rs_model_name :: string
  rs_scheme :: string
  rs_num_params :: nat
  rs_original_size_mb :: real
  rs_quantized_size_mb :: real
  rs_compression_ratio :: real
  rs_tensors :: "tensor_stats list"

record compare_response =
  cr_model :: string
  cr_fp32_size_mb :: real
  cr_fp32_perplexity :: real
  cr_schemes :: "scheme_result list"

definition megabytes :: "nat \<Rightarrow> real" where
  "megabytes n = real n / 1024 / 1024"

definition matrix_dim :: "nat \<Rightarrow> nat" where
  "matrix_dim num_params = max 32 (nat \<lfloor>sqrt (real (num_params div 2))\<rfloor>)"

definition synthetic_weights :: "(nat \<Rightarrow> real list \<times> real list) \<Rightarrow> nat \<Rightarrow> (string, real ndarray) pydict" where
  "synthetic_weights rng d =
     (let (w0, w1) = rng d
      in [(''weight_0'', \<lparr>shape = [d, d], elems = w0\<rparr>), (''weight_1'', \<lparr>shape = [d, d], elems = w1\<rparr>)])"

definition fp32_bytes :: "real ndarray \<Rightarrow> nat" where
  "fp32_bytes t = 4 * length (elems t)"

definition stats_of :: "string \<Rightarrow> string \<Rightarrow> real ndarray \<Rightarrow> nat \<Rightarrow> tensor_stats" where
  "stats_of scheme name t q_size =
     \<lparr>ts_name = name, ts_original_shape = shape t, ts_original_size_mb = megabytes (fp32_bytes t),
      ts_quantized_size_mb = megabytes q_size, ts_compression_ratio = real (fp32_bytes t) / real q_size, ts_scheme = scheme\<rparr>"

text \<open>The statistics of each tensor; a tensor missing from the quantized model raises \<open>KeyError\<close>.\<close>

definition all_stats :: "(string \<Rightarrow> nat option) \<Rightarrow> string \<Rightarrow> (string, real ndarray) pydict \<Rightarrow> tensor_stats list result" where
  "all_stats size_of scheme weights =
     rfold (\<lambda>(name, t) acc. case size_of name of
       None \<Rightarrow> Inl (KeyError name) | Some q_size \<Rightarrow> Inr (acc @ [stats_of scheme name t q_size])) weights []"

definition quantize_response_of :: "quantize_request \<Rightarrow> (string, real ndarray) pydict \<Rightarrow> nat \<Rightarrow> real \<Rightarrow> tensor_stats list \<Rightarrow> quantize_response" where
  "quantize_response_of req weights total_q_bytes ratio stats =
     \<lparr>rs_model_name = qr_model_name req, rs_scheme = qr_scheme req,
      rs_num_params = (\<Sum>t\<leftarrow>dvals weights. length (elems t)),
      rs_original_size_mb = megabytes (\<Sum>t\<leftarrow>dvals weights. fp32_bytes t),
      rs_quantized_size_mb = megabytes total_q_bytes, rs_compression_ratio = ratio, rs_tensors = stats\<rparr>"

definition quantize_endpoint :: "(nat \<Rightarrow> real list \<times> real list) \<Rightarrow> quantize_request \<Rightarrow> quantize_response result" where
  "quantize_endpoint rng req =
     (if \<not> request_valid req then Inl (OtherError ''422'')
      else let weights = synthetic_weights rng (matrix_dim (qr_num_params req))
           in if qr_scheme req = ''int8''
              then rbind (quantize_model_int8 weights) (\<lambda>qm.
                rmap (quantize_response_of req weights (qm_size_bytes qm) (compression_ratio weights qm))
                  (all_stats (\<lambda>n. map_option (length \<circ> elems) (dget (qm_weights qm) n)) ''int8'' weights))
              else rbind (quantize_model_q4 weights (qr_group_size req)) (\<lambda>qm.
                rmap (quantize_response_of req weights (q4_size_bytes qm) (compression_ratio_q4 weights qm))
                  (all_stats (\<lambda>n. case (dget (q4_packed qm) n, dget (q4_scales qm) n) of
                      (Some p, Some s) \<Rightarrow> Some (length p + 4 * length s) | _ \<Rightarrow> None)
                     (''q4_grouped(g='' @ nat_str (qr_group_size req) @ '')'') weights)))"

definition compare_endpoint :: "string \<Rightarrow> real \<Rightarrow> real \<Rightarrow> compare_response result" where
  "compare_endpoint model fp32_size_mb base_perplexity =
     rmap (\<lambda>report. \<lparr>cr_model = model, cr_fp32_size_mb = fp32_size_mb, cr_fp32_perplexity = base_perplexity,
                     cr_schemes = sort_key (\<lambda>r. - sr_bits r) (rp_results report)\<rparr>)
       (comparison_run model fp32_size_mb base_perplexity)"

section \<open>Results\<close>

lemma dget_map_item: "dwf d \<Longrightarrow> (n, r) \<in> set d \<Longrightarrow> dget (map (\<lambda>(n, r). (n, f r)) d) n = Some (f r)"
  by (induction d) (auto simp: dwf_def dkeys_def rev_image_eqI)

lemma all_stats_sizes:
  assumes "list_all2 (\<lambda>(n, t) (n', s). n' = n \<and> size_of n = Some s) weights sizes"
  shows "all_stats size_of scheme weights = Inr (map2 (\<lambda>(n, t) (_, s). stats_of scheme n t s) weights sizes)"
proof -
  let ?f = "\<lambda>(name, t) acc. case size_of name of
       None \<Rightarrow> Inl (KeyError name) | Some q_size \<Rightarrow> Inr (acc @ [stats_of scheme name t q_size])"
  have "rfold ?f weights acc = Inr (acc @ map2 (\<lambda>(n, t) (_, s). stats_of scheme n t s) weights sizes)" for acc
    using assms by (induction arbitrary: acc rule: list_all2_induct) auto
  then show ?thesis by (simp add: all_stats_def)
qed

lemma megabytes_add: "megabytes (a + b) = megabytes a + megabytes b"
  by (simp add: megabytes_def add_divide_distrib)

text \<open>The stages of a comparison: the size and the ratio are those of the bits, the rows are by falling bits.\<close>

lemma compare_rows:
  "\<exists>r. compare_endpoint model size_mb base = Inr r \<and>
     map (\<lambda>s. (sr_scheme s, sr_bits s)) (cr_schemes r) = schemes \<and>
     (\<forall>s\<in>set (cr_schemes r). sr_compression_ratio s * sr_bits s = 32 \<and> sr_size_mb s * 32 = size_mb * sr_bits s \<and>
        sr_perplexity_delta s = sr_perplexity s - base)"
  by (simp add: compare_endpoint_def comparison_run_def schemes_def simulate_perplexity_from_scheme_def
      perplexity_deltas_def str_lower_def lower_char_def report_add_def Let_def)

text \<open>The sizes a response lists for the tensors add up to the size it gives for the model.\<close>

lemma stats_sizes_sum:
  "list_all2 (\<lambda>(n, t) (n', s). n' = n \<and> P n t s) weights sizes \<Longrightarrow>
   sum_list (map ts_quantized_size_mb (map2 (\<lambda>(n, t) (_, s). stats_of scheme n t s) weights sizes)) = megabytes (\<Sum>s\<leftarrow>dvals sizes. s)"
  by (induction rule: list_all2_induct) (auto simp: dvals_def stats_of_def megabytes_add, simp add: megabytes_def)

lemma quantize_endpoint_sizes:
  assumes "quantize_endpoint rng req = Inr r"
  shows "sum_list (map ts_quantized_size_mb (rs_tensors r)) = rs_quantized_size_mb r \<and> map ts_name (rs_tensors r) = [''weight_0'', ''weight_1'']"
proof -
  define weights where "weights = synthetic_weights rng (matrix_dim (qr_num_params req))"
  have wf: "dwf weights" and names: "dkeys weights = [''weight_0'', ''weight_1'']"
    by (simp_all add: weights_def synthetic_weights_def dwf_def dkeys_def split: prod.splits)
  have stats: "map ts_name (map2 (\<lambda>(n, t) (_, s). stats_of scheme n t s) ws sizes) = dkeys ws"
    if "list_all2 (\<lambda>(n, t) (n', s). n' = n \<and> P n t s) ws sizes" for P scheme and ws :: "(string, real ndarray) pydict" and sizes
    using that by (induction rule: list_all2_induct) (auto simp: dkeys_def stats_of_def)
  from assms have v: "request_valid req" by (simp add: quantize_endpoint_def split: if_splits)
  show ?thesis
  proof (cases "qr_scheme req = ''int8''")
    case True
    from assms v True obtain qm st where qm: "quantize_model_int8 weights = Inr qm"
      and st: "all_stats (\<lambda>n. map_option (length \<circ> elems) (dget (qm_weights qm) n)) ''int8'' weights = Inr st"
      and r: "r = quantize_response_of req weights (qm_size_bytes qm) (compression_ratio weights qm) st"
      by (auto simp: quantize_endpoint_def Let_def weights_def [symmetric] result_simps)
    from quantize_model_int8_entries [OF qm wf] obtain rs where
      rs: "list_all2 (\<lambda>(n, t) (n', r). n' = n \<and> quantize_symmetric_int8 t = Inr r) weights rs"
      and w: "qm_weights qm = map (\<lambda>(n, r). (n, fst r)) rs" and wfr: "dwf rs" by metis
    let ?sizes = "map (\<lambda>(n, r). (n, length (elems (fst r)))) rs"
    have "dget (qm_weights qm) n = Some (fst x)" if "(n, x) \<in> set rs" for n x
      unfolding w by (rule dget_map_item [OF wfr that])
    then have "list_all2 (\<lambda>(n, t) (n', s). n' = n \<and> map_option (length \<circ> elems) (dget (qm_weights qm) n) = Some s) weights ?sizes"
      unfolding list_all2_map2 using rs by (auto elim!: list.rel_mono_strong)
    note a = this
    have e: "map2 (\<lambda>(n, t) (_, s). stats_of ''int8'' n t s) weights ?sizes = st"
      using trans [OF sym [OF all_stats_sizes [OF a]] st] by (rule Inr_inject)
    show ?thesis
      using stats_sizes_sum [OF a, of "''int8''", unfolded e] stats [OF a, of "''int8''", unfolded e]
      unfolding r by (simp add: quantize_response_of_def qm_size_bytes_def w sum_dvals_map sum_dvals_map [where g = "\<lambda>x. x", simplified] names)
  next
    case False
    let ?scheme = "''q4_grouped(g='' @ nat_str (qr_group_size req) @ '')''"
    let ?size = "\<lambda>qm n. case (dget (q4_packed qm) n, dget (q4_scales qm) n) of (Some p, Some s) \<Rightarrow> Some (length p + 4 * length s) | _ \<Rightarrow> None"
    from assms v False obtain qm st where qm: "quantize_model_q4 weights (qr_group_size req) = Inr qm"
      and st: "all_stats (?size qm) ?scheme weights = Inr st"
      and r: "r = quantize_response_of req weights (q4_size_bytes qm) (compression_ratio_q4 weights qm) st"
      by (auto simp: quantize_endpoint_def Let_def weights_def [symmetric] result_simps)
    from quantize_model_q4_entries [OF qm wf] obtain rs where
      rs: "list_all2 (\<lambda>(n, t) (n', r). n' = n \<and> quantize_tensor_q4 (qr_group_size req) t = Inr r) weights rs"
      and w: "q4_packed qm = map (\<lambda>(n, r). (n, fst r)) rs" "q4_scales qm = map (\<lambda>(n, r). (n, snd r)) rs" and wfr: "dwf rs" by metis
    let ?sizes = "map (\<lambda>(n, r). (n, length (fst r) + 4 * length (snd r))) rs"
    have "dget (q4_packed qm) n = Some (fst x)" "dget (q4_scales qm) n = Some (snd x)" if "(n, x) \<in> set rs" for n x
      unfolding w by (rule dget_map_item [OF wfr that])+
    then have "list_all2 (\<lambda>(n, t) (n', s). n' = n \<and> ?size qm n = Some s) weights ?sizes"
      unfolding list_all2_map2 using rs by (auto elim!: list.rel_mono_strong)
    note a = this
    have e: "map2 (\<lambda>(n, t) (_, s). stats_of ?scheme n t s) weights ?sizes = st"
      using trans [OF sym [OF all_stats_sizes [OF a]] st] by (rule Inr_inject)
    show ?thesis
      using stats_sizes_sum [OF a, of ?scheme, unfolded e] stats [OF a, of ?scheme, unfolded e]
      unfolding r by (simp add: quantize_response_of_def q4_size_bytes_def w sum_dvals_map sum_dvals_map [where g = "\<lambda>x. x", simplified] names sum_list_addf)
  qed
qed

end
