(* ===== verification/QuantProperties.thy ===== *)
theory QuantProperties
  imports QuantModels "HOL-Library.Code_Target_Nat"
begin

text \<open>
  Properties of the model quantizer: how close a dequantized model is, that packing, the container and the
  model files lose nothing, that a cut file is noticed, and what the sizes and the perplexity come to.
\<close>

section \<open>Accuracy\<close>

text \<open>Quantizing a model to INT8 and back keeps every tensor, its shape and every element within half of
  its tensor's scale, so the mean squared error is at most the square of half the scale.\<close>

theorem int8_model_within_half_scale:
  assumes "quantize_model_int8 weights = Inr m" and "dwf weights" and "(name, t) \<in> set weights"
  shows "\<exists>d t' s. dequantize_model_int8 m = Inr d \<and> dkeys d = dkeys weights \<and> dget d name = Some t' \<and>
     dget (qm_scales m) name = Some s \<and> shape t' = shape t \<and>
     list_all2 (\<lambda>x y. \<bar>x - y\<bar> \<le> s / 2) (elems t) (elems t') \<and> mean_squared_error t t' \<le> (s / 2)\<^sup>2"
proof -
  from dequantize_model_int8_entries [OF assms(1,2)] obtain d where d: "dequantize_model_int8 m = Inr d" "dkeys d = dkeys weights"
    and e: "\<And>n t. (n, t) \<in> set weights \<Longrightarrow> \<exists>q s. quantize_symmetric_int8 t = Inr (q, s) \<and>
       dget (qm_scales m) n = Some s \<and> dget d n = Some (dequantize_symmetric_int8 q s)" by blast
  from e [OF assms(3)] obtain q s where q: "quantize_symmetric_int8 t = Inr (q, s)" "dget (qm_scales m) name = Some s"
    "dget d name = Some (dequantize_symmetric_int8 q s)" by blast
  have "elems t \<noteq> []" using q(1) by (auto simp: quantize_symmetric_int8_def)
  then have "mean_squared_error t (dequantize_symmetric_int8 q s) \<le> (s / 2)\<^sup>2"
    using int8.squared_error_bound [of t "(q, s)" "dequantize_symmetric_int8 q s" s] q(1) by simp
  with dequantized_int8 [OF q(1)] d q show ?thesis by blast
qed

theorem int8_model_within_half_scale_witness:
  "\<exists>m d t' s. quantize_model_int8 [(''w'', \<lparr>shape = [2], elems = [1, 127]\<rparr>)] = Inr m \<and>
     dequantize_model_int8 m = Inr d \<and> dget d ''w'' = Some t' \<and> dget (qm_scales m) ''w'' = Some s \<and>
     list_all2 (\<lambda>x y. \<bar>x - y\<bar> \<le> s / 2) [1, 127] (elems t')"
proof -
  have "\<exists>r. quantize_symmetric_int8 \<lparr>shape = [2], elems = [1, 127]\<rparr> = Inr r"
    by (simp add: quantize_symmetric_int8_def Let_def del: split_paired_Ex)
  then have "\<exists>m. quantize_model_int8 [(''w'', \<lparr>shape = [2], elems = [1, 127]\<rparr>)] = Inr m"
    by (auto simp: quantize_model_int8_def)
  then obtain m where m: "quantize_model_int8 [(''w'', \<lparr>shape = [2], elems = [1, 127]\<rparr>)] = Inr m" by blast
  from int8_model_within_half_scale [OF m, of "''w''" "\<lparr>shape = [2], elems = [1, 127]\<rparr>"] m show ?thesis
    by (fastforce simp: dwf_def dkeys_def)
qed

text \<open>C28: Quantizing a model to grouped INT4 and back keeps every tensor and its shape, and every element
  within half of the scale of its group, whatever the group size and however short the tensor.\<close>

theorem q4_model_within_half_group_scale:
  assumes "quantize_model_q4 weights group_size = Inr m" and "dwf weights"
    and "array_ok ` (snd ` set weights) \<subseteq> {True}" and "(name, t) \<in> set weights" and "i < length (elems t)"
  shows "\<exists>d t' scales. dequantize_model_q4 m = Inr d \<and> dkeys d = dkeys weights \<and> dget d name = Some t' \<and>
     dget (q4_scales m) name = Some scales \<and> shape t' = shape t \<and> length (elems t') = length (elems t) \<and>
     \<bar>elems t ! i - elems t' ! i\<bar> \<le> scales ! (i div group_size) / 2"
proof -
  have ok: "array_ok t" if "(n, t) \<in> set weights" for n t using assms(3) that by (auto simp: image_subset_iff)
  from dequantize_model_q4_entries [OF assms(1,2,3)] obtain d where d: "dequantize_model_q4 m = Inr d" "dkeys d = dkeys weights"
    and e: "\<And>n t. (n, t) \<in> set weights \<Longrightarrow> \<exists>p s d'. quantize_tensor_q4 group_size t = Inr (p, s) \<and> dget (q4_scales m) n = Some s \<and>
       dequantize_q4_grouped p s (shape t) group_size = Inr d' \<and> dget d n = Some d'" by blast
  from e [OF assms(4)] obtain p s d' where q: "quantize_tensor_q4 group_size t = Inr (p, s)" "dget (q4_scales m) name = Some s"
    "dequantize_q4_grouped p s (shape t) group_size = Inr d'" "dget d name = Some d'" by blast
  from q(1) ok [OF assms(4)] obtain d'' where dd: "dequantize_q4_grouped p s (shape t) group_size = Inr d''" "shape d'' = shape t"
    "length (elems d'') = length (elems t)"
    "\<And>i. i < length (elems t) \<Longrightarrow> \<bar>elems t ! i - elems d'' ! i\<bar> \<le> s ! (i div group_size) / 2"
    by (rule dequantized_tensor_q4) blast
  with q(3) have "d'' = d'" by simp
  with d q dd(2,3) dd(4) [OF assms(5)] show ?thesis by blast
qed

theorem q4_model_within_half_group_scale_witness:
  "\<exists>m d t' s. quantize_model_q4 [(''w'', \<lparr>shape = [3], elems = [1, - 7, 2]\<rparr>)] 2 = Inr m \<and>
     dequantize_model_q4 m = Inr d \<and> dget d ''w'' = Some t' \<and> dget (q4_scales m) ''w'' = Some s \<and>
     shape t' = [3] \<and> \<bar>2 - elems t' ! 2\<bar> \<le> s ! 1 / 2"
proof -
  let ?t = "\<lparr>shape = [3], elems = [1, - 7, 2]\<rparr> :: real ndarray"
  obtain p where p: "quantize_q4_grouped \<lparr>shape = [3], elems = q4_padded 2 ?t\<rparr> 2
      = Inr (p, map group_scale (q4_groups 2 (q4_padded 2 ?t)))"
    using quantize_q4_grouped_Inr [of 2 "\<lparr>shape = [3], elems = q4_padded 2 ?t\<rparr>"] by auto
  then have "quantize_tensor_q4 2 ?t = Inr (p, map group_scale (q4_groups 2 (q4_padded 2 ?t)))"
    unfolding quantize_tensor_q4_is by simp
  then have "\<exists>m. quantize_model_q4 [(''w'', ?t)] 2 = Inr m" by (auto simp: quantize_model_q4_def)
  then obtain m where m: "quantize_model_q4 [(''w'', ?t)] 2 = Inr m" by blast
  from q4_model_within_half_group_scale [OF m, of "''w''" ?t 2] m show ?thesis
    by (fastforce simp: dwf_def dkeys_def array_ok_def)
qed

section \<open>Round trips\<close>

text \<open>Packing two signed nibbles per byte loses nothing: unpacking gives back every value that packing
  accepts, and packing gives back every byte.\<close>

theorem nibbles_round_trip:
  "(\<forall>p. pack_int4 values = Inr p \<longrightarrow> map sint (unpack_int4 p) = values \<and> 2 * length p = length values) \<and>
   pack_int4 (map sint (unpack_int4 packed)) = Inr packed"
proof
  have si: "sint (word_of_int v :: 8 word) = v" if "int4_min \<le> v \<and> v \<le> int4_max" for v
    using that by (simp add: int4_min_def int4_max_def sint_sbintrunc' signed_take_bit_int_eq_self)
  have len: "length (unpack_int4 ps) = 2 * length ps" for ps by (induction ps) (simp_all add: unpack_int4_def)
  show "\<forall>p. pack_int4 values = Inr p \<longrightarrow> map sint (unpack_int4 p) = values \<and> 2 * length p = length values"
  proof (intro allI impI)
    fix p assume p: "pack_int4 values = Inr p"
    then have r: "int4_min \<le> v \<and> v \<le> int4_max" if "v \<in> set values" for v
      using that by (auto simp: pack_int4_def not_less split: if_splits)
    have "map sint (unpack_int4 p) = values" using pack_int4_Inr [OF p] si r by (simp add: map_idI)
    then show "map sint (unpack_int4 p) = values \<and> 2 * length p = length values" by (metis len length_map)
  qed
  have rng: "int4_min \<le> sint (sign_nibble n) \<and> sint (sign_nibble n) \<le> int4_max" if "uint n < 16" for n
    using sign_nibble_range [OF that] by (simp add: int4_min_def int4_max_def)
  have "pack_pairs (map nibble (map sint (unpack_int4 packed))) = packed"
    by (induction packed) (simp_all add: unpack_int4_def pack_unpack_byte)
  moreover have "int4_min \<le> v \<and> v \<le> int4_max" if "v \<in> set (map sint (unpack_int4 packed))" for v
    using that rng high_nibble low_nibble by (auto simp: unpack_int4_def)
  ultimately show "pack_int4 (map sint (unpack_int4 packed)) = Inr packed"
    by (auto simp: pack_int4_def len not_less [symmetric] simp del: map_map)
qed

theorem nibbles_round_trip_witness:
  "map sint (unpack_int4 [0x8F, 0x70]) = [- 8, - 1, 7, 0] \<and> pack_int4 [- 8, - 1, 7, 0] = Inr [0x8F, 0x70]"
proof -
  have p: "pack_int4 [- 8, - 1, 7, 0] = Inr [0x8F, 0x70]"
    by (simp add: pack_int4_def int4_min_def int4_max_def nibble_def)
  with nibbles_round_trip [of "[- 8, - 1, 7, 0]"] show ?thesis by blast
qed

section \<open>Files\<close>

text \<open>C29: Reading a file that write_quantized_gguf finished gives back the weights and the scales under their
  names and the metadata it wrote, when no weight name ends in .scale; an array without dimensions, as a scalar
  scale is, comes back with one.\<close>

theorem quantized_file_round_trip:
  assumes "write_quantized_gguf enc weights scales metadata = ((file, None), written)"
    and "dwf weights" "dwf scales" and "(\<lambda>n. ends_with n scale_suffix) ` set (dkeys weights) \<subseteq> {False}"
    and "gguf_ok ` (snd ` set weights) \<subseteq> {True}" "(gguf_ok \<circ> scale_array enc) ` (snd ` set scales) \<subseteq> {True}"
    and "json_ok fr (PDict (metadata_of metadata))"
  shows "read_quantized_gguf fr file =
    Inr (stored weights, stored (map (\<lambda>(n, s). (n, scale_array enc s)) scales), PDict written)"
  using assms by (rule read_written_quantized)

theorem quantized_file_round_trip_witness:
  "\<exists>file written. write_quantized_gguf (\<lambda>_. 7) [(''w'', I8 \<lparr>shape = [2], elems = [1, - 2]\<rparr>)] [(''w'', Scalar 1)] None
       = ((file, None), written) \<and>
     read_quantized_gguf (\<lambda>s. s) file
       = Inr ([(''w'', I8 \<lparr>shape = [2], elems = [1, - 2]\<rparr>)], [(''w'', F32 \<lparr>shape = [1], elems = [7]\<rparr>)], PDict written)"
proof -
  let ?w = "write_quantized_gguf (\<lambda>_. 7) [(''w'', I8 \<lparr>shape = [2], elems = [1, - 2]\<rparr>)] [(''w'', Scalar 1)] None"
  have "snd (fst ?w) = None" by code_simp
  then have w: "?w = ((fst (fst ?w), None), snd ?w)" by (metis prod.collapse)
  have "read_quantized_gguf (\<lambda>s. s) (fst (fst ?w))
      = Inr ([(''w'', I8 \<lparr>shape = [2], elems = [1, - 2]\<rparr>)], [(''w'', F32 \<lparr>shape = [1], elems = [7]\<rparr>)], PDict (snd ?w))"
    by (subst quantized_file_round_trip [OF w])
      (simp_all add: dwf_def dkeys_def ends_with_def scale_suffix_def gguf_ok_def array_ok_def metadata_of_def stored_def at_least_1d_def)
  with w show ?thesis by blast
qed

text \<open>Reading the file an INT4 model was written to gives back the model: packed weights, scales,
  shapes and group size.\<close>

theorem q4_file_round_trip:
  assumes "write_q4_model_gguf enc m metadata = ((file, None), written)"
    and "dwf (q4_packed m)" "dwf (q4_scales m)" "dwf (q4_shapes m)"
    and "(\<lambda>n. ends_with n scale_suffix) ` set (dkeys (q4_packed m)) \<subseteq> {False}"
    and "(\<lambda>s. dec (enc s) = s) ` (\<Union>(set ` set (dvals (q4_scales m)))) \<subseteq> {True}"
    and "json_ok fr (PDict (metadata_of metadata))"
  shows "read_q4_model_gguf fr dec file = Inr m"
  using assms by (rule read_written_q4)

definition small_q4 :: quantized_model_q4 where
  "small_q4 = \<lparr>q4_packed = [(''w'', [0x1F, 0x20])], q4_scales = [(''w'', [1, 1])], q4_shapes = [(''w'', [3])], q4_group_size = 2\<rparr>"

theorem q4_file_round_trip_witness:
  "\<exists>file written. write_q4_model_gguf (\<lambda>_. 7) small_q4 None = ((file, None), written) \<and>
     read_q4_model_gguf (\<lambda>s. s) (\<lambda>_. 1) file = Inr small_q4"
proof -
  let ?w = "write_q4_model_gguf (\<lambda>_. 7) small_q4 None"
  have "snd (fst ?w) = None" by code_simp
  then have w: "?w = ((fst (fst ?w), None), snd ?w)" by (metis prod.collapse)
  have "read_q4_model_gguf (\<lambda>s. s) (\<lambda>_. 1) (fst (fst ?w)) = Inr small_q4"
    by (rule q4_file_round_trip [OF w])
      (simp_all add: small_q4_def dwf_def dkeys_def dvals_def ends_with_def scale_suffix_def metadata_of_def)
  with w show ?thesis by blast
qed

text \<open>A container with at least one tensor that is cut anywhere is rejected as truncated: reading it raises
  EOFError, never another exception and never a shorter model.\<close>

theorem truncated_file_rejected:
  assumes "write_gguf_lite tensors metadata = (file, None)" and "tensors \<noteq> []"
    and "json_ok fr (PDict (metadata_of metadata))" and "gguf_ok ` (snd ` set tensors) \<subseteq> {True}" and "m < length file"
  shows "\<exists>pos n. read_gguf_lite fr (take m file) = Inl (eof_error pos n)"
  using assms(1-3) _ assms(5) by (rule gguf_cut) (use assms(4) in \<open>auto simp: list_all_iff image_subset_iff\<close>)

theorem truncated_file_rejected_witness:
  "\<exists>file pos n. write_gguf_lite [(''w'', U8 \<lparr>shape = [2, 1], elems = [1, 2]\<rparr>)] None = (file, None) \<and>
     read_gguf_lite (\<lambda>s. s) (take 40 file) = Inl (eof_error pos n)"
proof -
  let ?w = "write_gguf_lite [(''w'', U8 \<lparr>shape = [2, 1], elems = [1, 2]\<rparr>)] None"
  have "snd ?w = None" by code_simp
  then have w: "?w = (fst ?w, None)" by (metis prod.collapse)
  have "40 < length (fst ?w)" by code_simp
  from truncated_file_rejected [OF w _ _ _ this, of "\<lambda>s. s"] w show ?thesis
    by (fastforce simp: metadata_of_def gguf_ok_def array_ok_def)
qed

section \<open>Size and quality\<close>

text \<open>An INT8 model takes a quarter of the float32 bytes; a grouped INT4 model with groups of 32 takes 5 bits
  per weight, a ratio of 6.4, when the sizes of its tensors are positive multiples of 32.\<close>

theorem compression_ratios:
  assumes "quantize_model_int8 weights = Inr m8" and "quantize_model_q4 weights 32 = Inr m4" and "dwf weights" "weights \<noteq> []"
    and "(\<lambda>t. elems t \<noteq> [] \<and> length (elems t) mod 32 = 0) ` (snd ` set weights) \<subseteq> {True}"
  shows "compression_ratio weights m8 = 4 \<and> compression_ratio_q4 weights m4 = 32 / 5"
proof -
  define n where "n = (\<Sum>t\<leftarrow>dvals weights. length (elems t))"
  have n: "0 < n"
    unfolding n_def using assms(4,5) by (cases weights) (auto simp: dvals_def image_subset_iff)
  have "qm_size_bytes m8 = n" unfolding n_def by (rule int8_size_bytes [OF assms(1,3)])
  moreover have "8 * q4_size_bytes m4 = 5 * n" unfolding n_def by (rule q4_size_bytes_32 [OF assms(2,3,5)])
  moreover have "(\<Sum>t\<leftarrow>dvals weights. 4 * length (elems t)) = 4 * n" unfolding n_def by (rule sum_list_const_mult)
  ultimately show ?thesis using n by (simp add: compression_ratio_def compression_ratio_q4_def Let_def field_simps)
qed

theorem compression_ratios_witness:
  "\<exists>m8 m4. quantize_model_int8 [(''w'', \<lparr>shape = [32], elems = replicate 32 1\<rparr>)] = Inr m8 \<and>
     quantize_model_q4 [(''w'', \<lparr>shape = [32], elems = replicate 32 1\<rparr>)] 32 = Inr m4 \<and>
     compression_ratio [(''w'', \<lparr>shape = [32], elems = replicate 32 1\<rparr>)] m8 = 4 \<and>
     compression_ratio_q4 [(''w'', \<lparr>shape = [32], elems = replicate 32 1\<rparr>)] m4 = 32 / 5"
proof -
  let ?t = "\<lparr>shape = [32], elems = replicate 32 1\<rparr> :: real ndarray"
  have "\<exists>r. quantize_symmetric_int8 ?t = Inr r" by (simp add: quantize_symmetric_int8_def Let_def del: split_paired_Ex)
  then have "\<exists>m. quantize_model_int8 [(''w'', ?t)] = Inr m" by (auto simp: quantize_model_int8_def)
  then obtain m8 where m8: "quantize_model_int8 [(''w'', ?t)] = Inr m8" by blast
  obtain p where "quantize_q4_grouped ?t 32 = Inr (p, map group_scale (q4_groups 32 (elems ?t)))"
    by (rule quantize_q4_grouped_Inr [of 32 ?t]) simp_all
  then have "\<exists>m. quantize_model_q4 [(''w'', ?t)] 32 = Inr m" by (auto simp: quantize_model_q4_def quantize_tensor_q4_def)
  then obtain m4 where m4: "quantize_model_q4 [(''w'', ?t)] 32 = Inr m4" by blast
  from compression_ratios [OF m8 m4] m8 m4 show ?thesis by (fastforce simp: dwf_def dkeys_def)
qed

text \<open>A perplexity is at least 1, and with the same logits for every token it is the size of the
  vocabulary.\<close>

theorem perplexity_bounds:
  assumes "compute_perplexity logits target_ids = Inr (Some p)"
  shows "1 \<le> p \<and> (logits = map (\<lambda>c. replicate v c) cs \<longrightarrow> p = real v)"
proof -
  obtain lps where lps: "rfold (\<lambda>rt acc. rmap (\<lambda>lp. acc @ [lp]) (target_log_prob rt)) (zip logits target_ids) [] = Inr lps"
    and ne: "lps \<noteq> []" and p: "p = exp (- mean_of lps)"
    using assms by (auto simp: compute_perplexity_def result_simps split: if_splits)
  from target_log_probs [OF lps] have l: "list_all2 (\<lambda>rt l. fst rt \<noteq> [] \<and> l \<in> set (log_softmax (fst rt))) (zip logits target_ids) lps"
    by simp
  have each: "\<exists>row \<in> set logits. row \<noteq> [] \<and> x \<in> set (log_softmax row)" if "x \<in> set lps" for x
  proof -
    from l that obtain rt where "rt \<in> set (zip logits target_ids)" "fst rt \<noteq> []" "x \<in> set (log_softmax (fst rt))"
      unfolding list_all2_conv_all_nth in_set_conv_nth by metis
    moreover from this(1) have "fst rt \<in> set logits" using set_zip_leftD [of "fst rt" "snd rt"] by simp
    ultimately show ?thesis by blast
  qed
  have "mean_of lps \<le> 0" using each log_softmax_nonpos by (intro mean_of_bound [OF ne]) blast
  moreover have "p = real v" if u: "logits = map (\<lambda>c. replicate v c) cs"
  proof -
    have "x = - ln (real v)" if "x \<in> set lps" for x using each [OF that] log_softmax_uniform unfolding u by auto
    then have "mean_of lps = - ln (real v)" by (rule mean_of_const [OF ne])
    moreover obtain x where "x \<in> set lps" using ne by (cases lps) auto
    then have "0 < v" using each unfolding u by fastforce
    ultimately show ?thesis by (simp add: p)
  qed
  ultimately show ?thesis by (auto simp: p)
qed

theorem perplexity_bounds_witness:
  "compute_perplexity [[3, 3, 3], [0, 0, 0]] [1, - 1] = Inr (Some 3)"
proof -
  have "\<exists>p. compute_perplexity [[3, 3, 3], [0, 0, 0]] [1, - 1] = Inr (Some p)"
    by (simp add: compute_perplexity_def target_log_prob_def py_index_def log_softmax_def Let_def)
  then obtain p where p: "compute_perplexity [[3, 3, 3], [0, 0, 0]] [1, - 1] = Inr (Some p)" by blast
  have "[[3, 3, 3], [0, 0, 0 :: real]] = map (\<lambda>c. replicate 3 c) [3, 0]" by (simp add: numeral_eq_Suc)
  with perplexity_bounds [OF p, of 3 "[3, 0]"] p show ?thesis by simp
qed

end
