(* ===== verification/PyText.thy ===== *)
theory PyText
  imports PyValue "HOL-Library.Sublist"
begin

text \<open>
  \<open>str.split()\<close> and its inverse, joining words by a space: what white-space tokenization keeps of a text, and when
  a sequence of words lies within another.
\<close>

text \<open>A line feed, and \<open>xs[:n]\<close> with a bound that may be negative.\<close>

definition nl :: string where
  "nl = [CHR 0x0A]"

definition take_int :: "int \<Rightarrow> 'a list \<Rightarrow> 'a list" where
  "take_int n xs = take (if 0 \<le> n then nat n else length xs - nat (- n)) xs"

section \<open>Splitting\<close>

text \<open>\<open>str.split()\<close>.\<close>

function split_words :: "string \<Rightarrow> string list" where
  "split_words s =
     (let t = dropWhile is_space s
      in if t = [] then [] else takeWhile (\<lambda>c. \<not> is_space c) t # split_words (dropWhile (\<lambda>c. \<not> is_space c) t))"
  by pat_completeness auto
termination
proof (relation "measure length", goal_cases)
  case (2 s t)
  then have "t \<noteq> []" "\<not> is_space (hd t)" using hd_dropWhile [of is_space s] by auto
  then have "length (dropWhile (\<lambda>c. \<not> is_space c) t) < length t"
    by (cases t) (simp_all add: le_imp_less_Suc length_dropWhile_le)
  with 2(1) show ?case using length_dropWhile_le [of is_space s] by simp
qed simp

declare split_words.simps [simp del]

section \<open>Words\<close>

text \<open>What \<open>split\<close> gives: nonempty pieces without white space.\<close>

definition spaceless :: "string \<Rightarrow> bool" where
  "spaceless w \<longleftrightarrow> w \<noteq> [] \<and> list_all (\<lambda>c. \<not> is_space c) w"

lemma space_is_space [simp]: "is_space (CHR '' '')"
  by (simp add: is_space_def)

lemma split_words_eq:
  "dropWhile is_space s = [] \<Longrightarrow> split_words s = []"
  "dropWhile is_space s = t \<Longrightarrow> t \<noteq> [] \<Longrightarrow>
     split_words s = takeWhile (\<lambda>c. \<not> is_space c) t # split_words (dropWhile (\<lambda>c. \<not> is_space c) t)"
  by (simp_all add: split_words.simps [of s] Let_def del: dropWhile_eq_Nil_conv)

lemma split_words_Nil [simp]: "split_words [] = []"
  by (simp add: split_words_eq(1))

lemma split_words_space [simp]:
  assumes "is_space c" shows "split_words (c # s) = split_words s"
proof (cases "dropWhile is_space s = []")
  case True
  have "dropWhile is_space (c # s) = []" using True assms by simp
  from trans [OF split_words_eq(1) [OF this] split_words_eq(1) [OF True, symmetric]] show ?thesis .
next
  case False
  have "dropWhile is_space (c # s) = dropWhile is_space s" using assms by simp
  from trans [OF split_words_eq(2) [OF this False] split_words_eq(2) [OF refl False, symmetric]] show ?thesis .
qed

lemma dropWhile_append_all: "list_all P w \<Longrightarrow> dropWhile P (w @ s) = dropWhile P s"
  by (induction w) auto

lemma takeWhile_append_all: "list_all P w \<Longrightarrow> takeWhile P (w @ s) = w @ takeWhile P s"
  by (induction w) auto

lemma split_words_blank: "list_all is_space u \<Longrightarrow> split_words (u @ s) = split_words s"
  by (induction u) auto

lemma split_words_word:
  assumes "spaceless w" and "s = [] \<or> is_space (hd s)"
  shows "split_words (w @ s) = w # split_words s"
proof -
  have w: "dropWhile is_space (w @ s) = w @ s" using assms(1) by (cases w) (auto simp: spaceless_def)
  have all: "list_all (\<lambda>c. \<not> is_space c) w" using assms(1) by (simp add: spaceless_def)
  have "takeWhile (\<lambda>c. \<not> is_space c) s = []" "dropWhile (\<lambda>c. \<not> is_space c) s = s"
    using assms(2) by (cases s; auto)+
  then have "takeWhile (\<lambda>c. \<not> is_space c) (w @ s) = w" "dropWhile (\<lambda>c. \<not> is_space c) (w @ s) = s"
    by (simp_all add: takeWhile_append_all [OF all] dropWhile_append_all [OF all])
  then show ?thesis using assms(1) split_words_eq(2) [OF w] by (simp add: spaceless_def)
qed

lemma split_words_spaceless: "list_all spaceless (split_words s)"
proof (induction s rule: split_words.induct)
  case (1 s)
  let ?t = "dropWhile is_space s"
  show ?case
  proof (cases "?t = []")
    case False
    then have "\<not> is_space (hd ?t)" by (rule hd_dropWhile)
    then have "spaceless (takeWhile (\<lambda>c. \<not> is_space c) ?t)"
      using False by (cases ?t) (auto simp: spaceless_def list_all_iff dest: set_takeWhileD)
    with 1 [OF refl False] split_words_eq(2) [OF refl False] show ?thesis by simp
  qed (simp add: split_words_eq(1))
qed

lemma str_join_step: "str_join sep (x # xs) = x @ (if xs = [] then [] else sep @ str_join sep xs)"
  by (cases xs) simp_all

text \<open>Joining words by spaces and splitting again gives the words.\<close>

lemma split_join: "list_all spaceless ws \<Longrightarrow> split_words (str_join '' '' ws) = ws"
proof (induction ws)
  case (Cons w ws)
  then have w: "spaceless w" "split_words (str_join '' '' ws) = ws" by simp_all
  show ?case
    using split_words_word [OF w(1), of "[]"] split_words_word [OF w(1), of "CHR '' '' # str_join '' '' ws"] w(2)
    by (auto simp: str_join_step)
qed simp

text \<open>Splitting does not see the white space around a text.\<close>

lemma split_words_append_blank: "list_all is_space v \<Longrightarrow> split_words (s @ v) = split_words s"
proof (induction s rule: split_words.induct)
  case (1 s)
  have v: "split_words v = []" if "list_all is_space v" for v using split_words_blank [OF that, of "[]"] by simp
  let ?t = "dropWhile is_space s"
  show ?case
  proof (cases "?t = []")
    case True
    then have "list_all is_space s" by (simp add: dropWhile_eq_Nil_conv list_all_iff)
    then show ?thesis using 1(2) v [of "s @ v"] v [of s] by simp
  next
    case False
    then have "\<not> is_space (hd ?t)" by (rule hd_dropWhile)
    let ?w = "takeWhile (\<lambda>c. \<not> is_space c) ?t" and ?r = "dropWhile (\<lambda>c. \<not> is_space c) ?t"
    have t: "?t = ?w @ ?r" by simp
    have w: "spaceless ?w" using False \<open>\<not> is_space (hd ?t)\<close> by (cases ?t) (auto simp: spaceless_def list_all_iff dest: set_takeWhileD)
    have r: "?r = [] \<or> is_space (hd ?r)" using hd_dropWhile [of "\<lambda>c. \<not> is_space c" ?t] by blast
    have s: "s = takeWhile is_space s @ ?w @ ?r" by simp
    have sp: "list_all is_space (takeWhile is_space s)" by (auto simp: list_all_iff dest: set_takeWhileD)
    have "split_words (s @ v) = split_words (?w @ ?r @ v)"
      using split_words_blank [OF sp, of "(?w @ ?r) @ v"] s by (metis append.assoc)
    also have "\<dots> = ?w # split_words (?r @ v)"
      by (rule split_words_word [OF w]) (use r 1(2) in \<open>cases v; auto simp: hd_append\<close>)
    also have "\<dots> = ?w # split_words ?r" using 1(1) [OF refl False 1(2)] by simp
    also have "\<dots> = split_words s"
      using split_words_blank [OF sp, of "?w @ ?r"] split_words_word [OF w r] s by metis
    finally show ?thesis .
  qed
qed

section \<open>Lines\<close>

text \<open>\<open>str.splitlines()\<close>, of ASCII text.\<close>

definition is_line_break :: "char \<Rightarrow> bool" where
  "is_line_break c \<longleftrightarrow> of_char c \<in> {10 :: nat, 11, 12, 13, 28, 29, 30}"

fun skip_line_break :: "string \<Rightarrow> string" where
  "skip_line_break (c # d # s) = (if c = CHR 0x0D \<and> d = CHR 0x0A then s else d # s)"
| "skip_line_break s = []"

function splitlines :: "string \<Rightarrow> string list" where
  "splitlines s =
     (if s = [] then []
      else takeWhile (\<lambda>c. \<not> is_line_break c) s # splitlines (skip_line_break (dropWhile (\<lambda>c. \<not> is_line_break c) s)))"
  by pat_completeness auto
termination
proof (relation "measure length", goal_cases)
  case (2 s)
  have "length (skip_line_break r) < length r \<or> r = []" for r by (cases r rule: skip_line_break.cases) auto
  moreover have "length (dropWhile (\<lambda>c. \<not> is_line_break c) s) \<le> length s" by (rule length_dropWhile_le)
  ultimately have "length (skip_line_break (dropWhile (\<lambda>c. \<not> is_line_break c) s)) < length s"
    using 2 by (metis le_less_trans length_greater_0_conv less_le_trans list.size(3) skip_line_break.simps(2))
  then show ?case by simp
qed simp

declare splitlines.simps [simp del]

text \<open>Lines joined by line feeds split into the lines again.\<close>

definition plain_line :: "string \<Rightarrow> bool" where
  "plain_line l \<longleftrightarrow> l \<noteq> [] \<and> list_all (\<lambda>c. \<not> is_line_break c) l"

lemma nl_breaks [simp]: "is_line_break (CHR 0x0A)"
  by (simp add: is_line_break_def)

lemma splitlines_line: "plain_line l \<Longrightarrow> splitlines (l @ CHR 0x0A # s) = l # splitlines s"
  using takeWhile_append_all [of "\<lambda>c. \<not> is_line_break c" l "CHR 0x0A # s"]
    dropWhile_append_all [of "\<lambda>c. \<not> is_line_break c" l "CHR 0x0A # s"]
  by (cases s) (simp_all add: splitlines.simps [of "l @ _"] plain_line_def splitlines.simps [of "[]"])

lemma splitlines_last: "plain_line l \<Longrightarrow> splitlines l = [l]"
  using takeWhile_append_all [of "\<lambda>c. \<not> is_line_break c" l "[]"] dropWhile_append_all [of "\<lambda>c. \<not> is_line_break c" l "[]"]
  by (simp add: splitlines.simps [of l] plain_line_def splitlines.simps [of "[]"] del: dropWhile_eq_Nil_conv)

lemma splitlines_join: "list_all plain_line ls \<Longrightarrow> splitlines (str_join nl ls) = ls"
  by (induction ls) (auto simp: str_join_step nl_def splitlines_line splitlines_last splitlines.simps [of "[]"])

section \<open>Stripping\<close>

lemma str_strip_infix: "\<exists>u v. s = u @ str_strip s @ v \<and> list_all is_space u \<and> list_all is_space v"
proof -
  have l: "s = takeWhile is_space s @ str_lstrip s" by (simp add: str_lstrip_def)
  have r: "t = str_rstrip t @ rev (takeWhile is_space (rev t))" for t
    unfolding str_rstrip_def by (metis rev_append rev_rev_ident takeWhile_dropWhile_id)
  have "s = takeWhile is_space s @ str_strip s @ rev (takeWhile is_space (rev (str_lstrip s)))"
    using l r [of "str_lstrip s"] by (simp add: str_strip_def)
  moreover have "list_all is_space (takeWhile is_space t)" for t by (induction t) auto
  ultimately show ?thesis by (metis list_all_rev)
qed

end
