(* ===== verification/RagChunk.thy ===== *)
theory RagChunk
  imports PyText
begin

text \<open>
  The chunker of \<open>labs/rag/src/v0_naive.py\<close>, on ASCII text. \<open>chunk_loop\<close> is the \<open>while\<close> loop of
  \<open>chunk_document\<close>; \<open>windows\<close> is its abstract specification, the intervals of the text the chunks are cut from,
  which cover it and overlap.
\<close>

section \<open>The code\<close>

record chunk =
  ch_text :: string
  ch_doc_index :: nat
  ch_chunk_index :: nat

definition chunk_chars :: nat where
  "chunk_chars = 512 * 4"

definition overlap_chars :: nat where
  "overlap_chars = 50 * 4"

text \<open>The ends of the matches of \<open>[.!?]\s\<close>, in order.\<close>

definition sentence_mark :: "char \<Rightarrow> bool" where
  "sentence_mark c \<longleftrightarrow> c = CHR ''.'' \<or> c = CHR ''!'' \<or> c = CHR ''?''"

fun sentence_ends :: "nat \<Rightarrow> string \<Rightarrow> nat list" where
  "sentence_ends p (a # b # s) =
     (if sentence_mark a \<and> is_space b then (p + 2) # sentence_ends (p + 2) s else sentence_ends (p + 1) (b # s))"
| "sentence_ends p _ = []"

definition slice :: "nat \<Rightarrow> nat \<Rightarrow> 'a list \<Rightarrow> 'a list" where
  "slice i j xs = take (j - i) (drop i xs)"

text \<open>\<open>int(CHUNK_CHARS * 0.8)\<close> is 1638.\<close>

definition window_end :: "string \<Rightarrow> nat \<Rightarrow> nat" where
  "window_end tx start =
     (let stop = start + chunk_chars
      in if stop < length tx
         then let search_start = start + 1638; ends = sentence_ends 0 (slice search_start stop tx)
              in if ends = [] then stop else search_start + last ends
         else stop)"

definition next_start :: "nat \<Rightarrow> nat \<Rightarrow> nat" where
  "next_start start stop = start + max 1 (stop - start - overlap_chars)"

lemma next_start_greater: "start < next_start start e"
  by (simp add: next_start_def)

function chunk_loop :: "string \<Rightarrow> nat \<Rightarrow> nat \<Rightarrow> nat \<Rightarrow> chunk list" where
  "chunk_loop tx doc_index start chunk_idx =
     (if length tx \<le> start then []
      else let stop = window_end tx start; chunk_text = str_strip (slice start stop tx)
           in (if chunk_text \<noteq> []
               then [\<lparr>ch_text = chunk_text, ch_doc_index = doc_index, ch_chunk_index = chunk_idx\<rparr>] else [])
              @ (if length tx \<le> stop then []
                 else chunk_loop tx doc_index (next_start start stop) (if chunk_text \<noteq> [] then chunk_idx + 1 else chunk_idx)))"
  by pat_completeness auto
termination
  by (relation "measure (\<lambda>(tx, _, start, _). length tx - start)") (auto intro: diff_less_mono2 simp: next_start_greater)

declare chunk_loop.simps [simp del]

definition chunk_document :: "string \<Rightarrow> nat \<Rightarrow> chunk list" where
  "chunk_document text doc_index =
     (let t = str_strip text in if t = [] then [] else chunk_loop t doc_index 0 0)"

section \<open>Windows\<close>

lemma sentence_ends_bounds: "e \<in> set (sentence_ends p s) \<Longrightarrow> p + 2 \<le> e \<and> e \<le> p + length s"
  by (induction p s rule: sentence_ends.induct) (auto split: if_splits)

lemma window_end_bounds:
  "start + 1640 \<le> window_end tx start" "window_end tx start \<le> start + chunk_chars"
proof -
  let ?s = "slice (start + 1638) (start + chunk_chars) tx"
  have l: "length ?s \<le> 410" by (simp add: slice_def chunk_chars_def)
  have "sentence_ends 0 ?s \<noteq> [] \<Longrightarrow> 2 \<le> last (sentence_ends 0 ?s) \<and> last (sentence_ends 0 ?s) \<le> 410"
    using sentence_ends_bounds [of "last (sentence_ends 0 ?s)" 0 ?s] l by simp
  then show "start + 1640 \<le> window_end tx start" "window_end tx start \<le> start + chunk_chars"
    by (auto simp: window_end_def Let_def chunk_chars_def)
qed

text \<open>So the stride is never cut to 1: the next window starts 200 characters before the end of this one.\<close>

lemma next_start_overlap: "next_start start (window_end tx start) = window_end tx start - overlap_chars"
  using window_end_bounds(1) [where start = start and tx = tx] by (simp add: next_start_def overlap_chars_def)

function windows_from :: "string \<Rightarrow> nat \<Rightarrow> (nat \<times> nat) list" where
  "windows_from tx start =
     (if length tx \<le> start then []
      else (start, window_end tx start) #
        (if length tx \<le> window_end tx start then [] else windows_from tx (window_end tx start - overlap_chars)))"
  by pat_completeness auto
termination
proof (relation "measure (\<lambda>(tx, start). length tx - start)", goal_cases)
  case (2 tx start)
  then show ?case using window_end_bounds(1) [where start = start and tx = tx] by (simp add: overlap_chars_def)
qed simp

declare windows_from.simps [simp del]

definition windows :: "string \<Rightarrow> (nat \<times> nat) list" where
  "windows tx = windows_from tx 0"

fun number_chunks :: "nat \<Rightarrow> nat \<Rightarrow> string list \<Rightarrow> chunk list" where
  "number_chunks doc n [] = []"
| "number_chunks doc n (t # ts) = \<lparr>ch_text = t, ch_doc_index = doc, ch_chunk_index = n\<rparr> # number_chunks doc (Suc n) ts"

text \<open>The chunks are the windows, stripped, without the blank ones, numbered in order.\<close>

lemma chunk_loop_windows:
  "chunk_loop tx doc start idx =
     number_chunks doc idx (filter (\<lambda>t. t \<noteq> []) (map (\<lambda>(i, j). str_strip (slice i j tx)) (windows_from tx start)))"
proof (induction tx doc start idx rule: chunk_loop.induct)
  case (1 tx doc start idx)
  show ?case
    using 1 [OF _ refl refl] by (subst chunk_loop.simps, subst windows_from.simps) (auto simp: Let_def next_start_overlap)
qed

lemma windows_shape:
  "windows_from tx start = ws \<Longrightarrow> start < length tx \<Longrightarrow>
     ws \<noteq> [] \<and> fst (hd ws) = start \<and> length tx \<le> snd (last ws) \<and> (\<forall>(i, j)\<in>set ws. i + 1640 \<le> j \<and> j \<le> i + chunk_chars)"
proof (induction tx start arbitrary: ws rule: windows_from.induct)
  case (1 tx start)
  note b = window_end_bounds [where start = start and tx = tx]
  show ?case
  proof (cases "length tx \<le> window_end tx start")
    case True
    then have "ws = [(start, window_end tx start)]" using 1(2,3) by (subst (asm) windows_from.simps) auto
    then show ?thesis using True b by simp
  next
    case False
    then have ws: "ws = (start, window_end tx start) # windows_from tx (window_end tx start - overlap_chars)"
      using 1(2,3) by (subst (asm) windows_from.simps) auto
    have "window_end tx start - overlap_chars < length tx" using False by simp
    from 1(1) [OF _ False refl this] 1(3) b show ?thesis unfolding ws by simp
  qed
qed

text \<open>A passage of at most 200 characters lies within one window.\<close>

lemma passage_in_window:
  "start \<le> p \<Longrightarrow> p + n \<le> length tx \<Longrightarrow> 0 < n \<Longrightarrow> n \<le> overlap_chars \<Longrightarrow>
     \<exists>(i, j)\<in>set (windows_from tx start). i \<le> p \<and> p + n \<le> j"
proof (induction tx start rule: windows_from.induct)
  case (1 tx start)
  have s: "start < length tx" using 1(2-4) by simp
  show ?case
  proof (cases "p + n \<le> window_end tx start")
    case True
    then show ?thesis using s 1(2) by (subst windows_from.simps) auto
  next
    case False
    then have e: "window_end tx start < length tx" using 1(3) by simp
    have "window_end tx start - overlap_chars \<le> p" using False 1(5) by simp
    from 1(1) [OF _ _ this 1(3-5)] s e show ?thesis by (subst windows_from.simps) auto
  qed
qed

section \<open>Stripping\<close>

text \<open>Stripping keeps every passage that does not begin or end with white space.\<close>

lemma str_strip_keeps:
  assumes "s = a @ w @ b" and "w \<noteq> []" "\<not> is_space (hd w)" "\<not> is_space (last w)"
  shows "is_substring w (str_strip s)"
proof -
  obtain u v where uv: "s = u @ str_strip s @ v" "list_all is_space u" "list_all is_space v" using str_strip_infix by blast
  obtain x w' where x: "w = x # w'" "\<not> is_space x" using assms(2,3) by (cases w) auto
  obtain w'' y where y: "w = w'' @ [y]" "\<not> is_space y" using assms(2,4) by (cases w rule: rev_cases) auto
  have "length u \<le> length a"
  proof (rule ccontr)
    assume "\<not> length u \<le> length a"
    then have la: "length a < length u" by simp
    then have "s ! length a = u ! length a" by (subst uv(1)) (simp add: nth_append)
    moreover have "s ! length a = x" using assms(1) x(1) by (simp add: nth_append)
    ultimately show False using uv(2) x(2) la by (metis list_all_length)
  qed
  moreover have "length v \<le> length b"
  proof (rule ccontr)
    assume l: "\<not> length v \<le> length b"
    have "rev s ! length b = y" unfolding assms(1) y(1) by (simp add: nth_append)
    moreover have "rev s ! length b = rev v ! length b" using l by (subst uv(1)) (simp add: nth_append)
    moreover have "list_all is_space (rev v)" using uv(3) by simp
    ultimately show False using y(2) l by (metis length_rev list_all_length not_le)
  qed
  moreover have "take (length u) (u @ str_strip s @ v) = take (length u) (a @ w @ b)"
    "drop (length s - length v) (u @ str_strip s @ v) = drop (length s - length v) (a @ w @ b)"
    using uv(1) assms(1) by simp_all
  moreover have "length s = length u + length (str_strip s) + length v" using arg_cong [OF uv(1), of length] by simp
  moreover have "length s = length a + length w + length b" using assms(1) by simp
  ultimately have "u = take (length u) a" "v = drop (length b - length v) b" by simp_all
  then obtain a' b' where "a = u @ a'" "b = b' @ v" by (metis append_take_drop_id)
  then have "str_strip s = a' @ w @ b'" using uv(1) assms(1) by simp
  then show ?thesis unfolding is_substring_iff by blast
qed

end
