(* ===== verification/Rag.thy ===== *)
theory Rag
  imports RagChunk PyText EmbCache PyJson
begin

text \<open>
  The retrieval pipelines of \<open>labs/rag/src\<close>: dense (\<open>v0_naive.py\<close>), hybrid with reciprocal rank fusion
  (\<open>v1_hybrid.py\<close>) and two-stage with a cross-encoder (\<open>v2_rerank.py\<close>). Parameters: the embedding model \<open>enc\<close>
  and the cross-encoder \<open>predict\<close>, which may raise; \<open>BM25Okapi\<close> (\<open>bm25_new\<close>, \<open>bm25_scores\<close>); \<open>numpy.argsort\<close> and
  \<open>numpy.argpartition\<close>; the HTTP call of the LLM. Scores are reals.
\<close>

section \<open>Dense retrieval\<close>

record retrieved_chunk =
  rc_chunk :: chunk
  rc_score :: real

record rag_result =
  rr_answer :: string
  rr_sources :: "string list"
  rr_retrieved :: "retrieved_chunk list"

type_synonym encoder = "string list \<Rightarrow> embedding list result"

definition embed_texts :: "encoder \<Rightarrow> string list \<Rightarrow> embedding list result" where
  "embed_texts enc texts = rmap (map l2_row) (enc texts)"

text \<open>\<open>xs[-k:]\<close>.\<close>

definition last_k :: "nat \<Rightarrow> 'a list \<Rightarrow> 'a list" where
  "last_k k xs = (if k = 0 then xs else drop (length xs - k) xs)"

record numpy_sorts =
  np_argsort :: "real list \<Rightarrow> nat list"
  np_argpartition :: "real list \<Rightarrow> nat \<Rightarrow> nat list"

definition cosine_similarity_top_k :: "numpy_sorts \<Rightarrow> embedding \<Rightarrow> embedding list \<Rightarrow> nat \<Rightarrow> (nat \<times> real) list" where
  "cosine_similarity_top_k np query_vec chunk_vecs k =
     (let scores = map (\<lambda>v. dot v query_vec) chunk_vecs;
          indices =
            (if length scores \<le> k then rev (np_argsort np scores)
             else let top_k_idx = last_k k (np_argpartition np scores (if k = 0 then 0 else length scores - k))
                  in map (\<lambda>i. top_k_idx ! i) (rev (np_argsort np (map (\<lambda>i. scores ! i) top_k_idx))))
      in map (\<lambda>i. (i, scores ! i)) (take k indices))"

section \<open>Generation\<close>

datatype post_reply = RequestFailed string | Reply pyval

definition llm_system_prompt :: string where
  "llm_system_prompt = ''You are a helpful assistant. Answer the question using ONLY the provided context. ''
     @ ''If the context does not contain the answer, say so. Do not make things up.''"

definition lf :: string where
  "lf = [CHR 0x0A]"

definition rag_context :: "string list \<Rightarrow> string" where
  "rag_context context_chunks =
     str_join (lf @ lf @ ''---'' @ lf @ lf)
       (map (\<lambda>(i, c). ''[Source '' @ nat_str (i + 1) @ '']'' @ lf @ c) (enumerate 0 context_chunks))"

definition rag_payload :: "string \<Rightarrow> string \<Rightarrow> string list \<Rightarrow> pyval" where
  "rag_payload model question context_chunks =
     PDict [(''model'', PStr model),
            (''messages'', PList
               [PDict [(''role'', PStr ''system''), (''content'', PStr llm_system_prompt)],
                PDict [(''role'', PStr ''user''),
                       (''content'', PStr (''Context:'' @ lf @ rag_context context_chunks @ lf @ lf @ ''Question: '' @ question))]]),
            (''max_tokens'', PInt 512), (''temperature'', PFloat ''0.0'')]"

text \<open>Subscripts of a JSON value.\<close>

definition json_key :: "pyval \<Rightarrow> string \<Rightarrow> pyval result" where
  "json_key v k =
     (case v of
        PDict d \<Rightarrow> (case dget d k of Some x \<Rightarrow> Inr x | None \<Rightarrow> Inl (KeyError k))
      | PList _ \<Rightarrow> Inl (TypeError ''list indices must be integers or slices, not str'')
      | PStr _ \<Rightarrow> Inl (TypeError ''string indices must be integers'')
      | _ \<Rightarrow> Inl (TypeError (quoted (type_name v) @ '' object is not subscriptable'')))"

definition json_first :: "pyval \<Rightarrow> pyval result" where
  "json_first v =
     (case v of
        PList xs \<Rightarrow> py_index xs 0
      | PStr s \<Rightarrow> rmap (\<lambda>c. PStr [c]) (py_index s 0)
      | PDict d \<Rightarrow> Inl (KeyError ''0'')
      | _ \<Rightarrow> Inl (TypeError (quoted (type_name v) @ '' object is not subscriptable'')))"

definition answer_of :: "pyval \<Rightarrow> string result" where
  "answer_of reply =
     rbind (json_key reply ''choices'') (\<lambda>cs. rbind (json_first cs) (\<lambda>c. rbind (json_key c ''message'') (\<lambda>m.
     rbind (json_key m ''content'') (\<lambda>x. case x of PStr s \<Rightarrow> Inr (str_strip s) | _ \<Rightarrow> Inl (no_attribute x ''strip'')))))"

record rag_llm =
  lm_model :: string
  lm_post :: "pyval \<Rightarrow> post_reply"

definition generate_answer :: "rag_llm \<Rightarrow> string \<Rightarrow> string list \<Rightarrow> string result" where
  "generate_answer llm question context_chunks =
     (case lm_post llm (rag_payload (lm_model llm) question context_chunks) of
        RequestFailed e \<Rightarrow> Inr (''[LLM unavailable: '' @ e @ '']'')
      | Reply v \<Rightarrow> answer_of v)"

definition rag_query :: "rag_llm \<Rightarrow> (string \<Rightarrow> nat \<Rightarrow> retrieved_chunk list result) \<Rightarrow> string \<Rightarrow> nat \<Rightarrow> rag_result result" where
  "rag_query llm retrieve question top_k =
     rbind (retrieve question top_k) (\<lambda>retrieved.
       let context_texts = map (ch_text \<circ> rc_chunk) retrieved
       in rmap (\<lambda>answer. \<lparr>rr_answer = answer, rr_sources = context_texts, rr_retrieved = retrieved\<rparr>)
            (generate_answer llm question context_texts))"

section \<open>The naive pipeline\<close>

record naive_rag =
  nr_chunks :: "chunk list"
  nr_embeddings :: "embedding list option"
  nr_docs :: "string list"

definition new_naive_rag :: naive_rag where
  "new_naive_rag = \<lparr>nr_chunks = [], nr_embeddings = None, nr_docs = []\<rparr>"

fun chunk_all :: "nat \<Rightarrow> string list \<Rightarrow> chunk list" where
  "chunk_all doc_idx [] = []"
| "chunk_all doc_idx (doc # docs) = chunk_document doc doc_idx @ chunk_all (doc_idx + 1) docs"

definition vstack :: "embedding list option \<Rightarrow> embedding list \<Rightarrow> embedding list" where
  "vstack old new = (case old of None \<Rightarrow> new | Some es \<Rightarrow> es @ new)"

record ingest_stats =
  is_chunks_added :: nat
  is_total_chunks :: nat

definition naive_ingest :: "encoder \<Rightarrow> string list \<Rightarrow> naive_rag \<Rightarrow> ingest_stats result \<times> naive_rag" where
  "naive_ingest enc docs s =
     (let new_chunks = chunk_all (length (nr_docs s)) docs; s1 = s\<lparr>nr_docs := nr_docs s @ docs\<rparr>
      in if new_chunks = [] then (Inr \<lparr>is_chunks_added = 0, is_total_chunks = length (nr_chunks s1)\<rparr>, s1)
         else case embed_texts enc (map ch_text new_chunks) of
                Inl e \<Rightarrow> (Inl e, s1)
              | Inr new \<Rightarrow>
                  (let s2 = s1\<lparr>nr_embeddings := Some (vstack (nr_embeddings s1) new), nr_chunks := nr_chunks s1 @ new_chunks\<rparr>
                   in (Inr \<lparr>is_chunks_added = length new_chunks, is_total_chunks = length (nr_chunks s2)\<rparr>, s2)))"

definition at_index :: "chunk list \<Rightarrow> nat \<times> real \<Rightarrow> retrieved_chunk result" where
  "at_index chunks = (\<lambda>(idx, score). rmap (\<lambda>c. \<lparr>rc_chunk = c, rc_score = score\<rparr>) (py_index chunks (int idx)))"

definition naive_retrieve :: "encoder \<Rightarrow> numpy_sorts \<Rightarrow> naive_rag \<Rightarrow> string \<Rightarrow> nat \<Rightarrow> retrieved_chunk list result" where
  "naive_retrieve enc np s question top_k =
     (case nr_embeddings s of
        None \<Rightarrow> Inr []
      | Some es \<Rightarrow>
          if nr_chunks s = [] then Inr []
          else rbind (embed_texts enc [question]) (\<lambda>qs. rbind (py_index qs 0) (\<lambda>q_vec.
            rmap_list (at_index (nr_chunks s)) (cosine_similarity_top_k np q_vec es top_k))))"

definition naive_query :: "encoder \<Rightarrow> numpy_sorts \<Rightarrow> rag_llm \<Rightarrow> naive_rag \<Rightarrow> string \<Rightarrow> nat \<Rightarrow> rag_result result" where
  "naive_query enc np llm s = rag_query llm (naive_retrieve enc np s)"

definition naive_stats :: "naive_rag \<Rightarrow> pdict" where
  "naive_stats s = [(''version'', PStr ''v0-naive''), (''total_docs'', PInt (int (length (nr_docs s)))),
     (''total_chunks'', PInt (int (length (nr_chunks s)))), (''embedding_dim'', PInt 384), (''embed_model'', PStr ''all-MiniLM-L6-v2'')]"

section \<open>Hybrid retrieval\<close>

definition tokenize_for_bm25 :: "string \<Rightarrow> string list" where
  "tokenize_for_bm25 text = map str_lower (filter (\<lambda>t. 1 < length t) (split_words text))"

definition rrf_k :: nat where
  "rrf_k = 60"

definition rrf_add :: "nat \<Rightarrow> (nat, real) pydict \<Rightarrow> nat \<times> nat \<Rightarrow> (nat, real) pydict" where
  "rrf_add k scores = (\<lambda>(rank_0indexed, doc_idx).
     dset scores doc_idx (dget_or scores doc_idx 0 + 1 / real (k + (rank_0indexed + 1))))"

definition reciprocal_rank_fusion :: "nat list list \<Rightarrow> nat \<Rightarrow> (nat \<times> real) list" where
  "reciprocal_rank_fusion ranked_lists k =
     sort_key (\<lambda>x. - snd x) (foldl (\<lambda>scores ranked_list. foldl (rrf_add k) scores (enumerate 0 ranked_list)) [] ranked_lists)"

record 'b bm25_lib =
  bm25_new :: "string list list \<Rightarrow> 'b result"
  bm25_scores :: "'b \<Rightarrow> string list \<Rightarrow> real list"

record 'b hybrid_rag =
  hr_chunks :: "chunk list"
  hr_embeddings :: "embedding list option"
  hr_docs :: "string list"
  hr_bm25 :: "'b option"
  hr_tokenized :: "string list list"
  hr_candidates :: nat

definition new_hybrid_rag :: "nat \<Rightarrow> 'b hybrid_rag" where
  "new_hybrid_rag candidates =
     \<lparr>hr_chunks = [], hr_embeddings = None, hr_docs = [], hr_bm25 = None, hr_tokenized = [], hr_candidates = candidates\<rparr>"

definition hybrid_ingest :: "encoder \<Rightarrow> 'b bm25_lib \<Rightarrow> string list \<Rightarrow> 'b hybrid_rag \<Rightarrow> ingest_stats result \<times> 'b hybrid_rag" where
  "hybrid_ingest enc lib docs s =
     (let new_chunks = chunk_all (length (hr_docs s)) docs; s1 = s\<lparr>hr_docs := hr_docs s @ docs\<rparr>
      in if new_chunks = [] then (Inr \<lparr>is_chunks_added = 0, is_total_chunks = length (hr_chunks s1)\<rparr>, s1)
         else case embed_texts enc (map ch_text new_chunks) of
                Inl e \<Rightarrow> (Inl e, s1)
              | Inr new \<Rightarrow>
                  (let s2 = s1\<lparr>hr_embeddings := Some (vstack (hr_embeddings s1) new)\<rparr>;
                       s3 = s2\<lparr>hr_tokenized := hr_tokenized s2 @ map (tokenize_for_bm25 \<circ> ch_text) new_chunks\<rparr>
                   in case bm25_new lib (hr_tokenized s3) of
                        Inl e \<Rightarrow> (Inl e, s3)
                      | Inr b \<Rightarrow>
                          (let s4 = s3\<lparr>hr_bm25 := Some b, hr_chunks := hr_chunks s3 @ new_chunks\<rparr>
                           in (Inr \<lparr>is_chunks_added = length new_chunks, is_total_chunks = length (hr_chunks s4)\<rparr>, s4))))"

definition retrieve_dense :: "encoder \<Rightarrow> numpy_sorts \<Rightarrow> 'b hybrid_rag \<Rightarrow> string \<Rightarrow> nat \<Rightarrow> nat list result" where
  "retrieve_dense enc np s question top_k =
     (case hr_embeddings s of
        None \<Rightarrow> Inr []
      | Some es \<Rightarrow> rbind (embed_texts enc [question]) (\<lambda>qs. rmap (\<lambda>q_vec.
          map fst (cosine_similarity_top_k np q_vec es top_k)) (py_index qs 0)))"

definition retrieve_bm25 :: "'b bm25_lib \<Rightarrow> numpy_sorts \<Rightarrow> 'b hybrid_rag \<Rightarrow> string \<Rightarrow> nat \<Rightarrow> nat list" where
  "retrieve_bm25 lib np s question top_k =
     (case hr_bm25 s of
        None \<Rightarrow> []
      | Some b \<Rightarrow> take top_k (rev (np_argsort np (bm25_scores lib b (tokenize_for_bm25 question)))))"

definition hybrid_retrieve :: "encoder \<Rightarrow> 'b bm25_lib \<Rightarrow> numpy_sorts \<Rightarrow> 'b hybrid_rag \<Rightarrow> string \<Rightarrow> nat \<Rightarrow> retrieved_chunk list result" where
  "hybrid_retrieve enc lib np s question top_k =
     (let candidates = max top_k (hr_candidates s)
      in rbind (retrieve_dense enc np s question candidates) (\<lambda>dense_ranked.
           let fused = reciprocal_rank_fusion [dense_ranked, retrieve_bm25 lib np s question candidates] rrf_k
           in rmap_list (at_index (hr_chunks s)) (take top_k fused)))"

definition hybrid_query :: "encoder \<Rightarrow> 'b bm25_lib \<Rightarrow> numpy_sorts \<Rightarrow> rag_llm \<Rightarrow> 'b hybrid_rag \<Rightarrow> string \<Rightarrow> nat \<Rightarrow> rag_result result" where
  "hybrid_query enc lib np llm s = rag_query llm (hybrid_retrieve enc lib np s)"

definition hybrid_stats :: "'b hybrid_rag \<Rightarrow> pdict" where
  "hybrid_stats s = [(''version'', PStr ''v1-hybrid''), (''total_docs'', PInt (int (length (hr_docs s)))),
     (''total_chunks'', PInt (int (length (hr_chunks s)))), (''embedding_dim'', PInt 384), (''embed_model'', PStr ''all-MiniLM-L6-v2''),
     (''bm25_indexed'', PBool (hr_bm25 s \<noteq> None)), (''candidates_per_retriever'', PInt (int (hr_candidates s))),
     (''rrf_k'', PInt (int rrf_k))]"

section \<open>Reranking\<close>

record 'b reranked_rag =
  rk_hybrid :: "'b hybrid_rag"
  rk_candidates :: nat

definition new_reranked_rag :: "nat \<Rightarrow> 'b reranked_rag" where
  "new_reranked_rag n = \<lparr>rk_hybrid = new_hybrid_rag n, rk_candidates = n\<rparr>"

definition reranked_ingest :: "encoder \<Rightarrow> 'b bm25_lib \<Rightarrow> string list \<Rightarrow> 'b reranked_rag \<Rightarrow> ingest_stats result \<times> 'b reranked_rag" where
  "reranked_ingest enc lib docs s = (let (r, h) = hybrid_ingest enc lib docs (rk_hybrid s) in (r, s\<lparr>rk_hybrid := h\<rparr>))"

type_synonym cross_encoder = "(string \<times> string) list \<Rightarrow> real list result"

definition rerank :: "numpy_sorts \<Rightarrow> retrieved_chunk list \<Rightarrow> real list \<Rightarrow> nat \<Rightarrow> retrieved_chunk list" where
  "rerank np candidates rerank_scores top_k =
     map (\<lambda>i. \<lparr>rc_chunk = rc_chunk (candidates ! i), rc_score = rerank_scores ! i\<rparr>) (take top_k (rev (np_argsort np rerank_scores)))"

definition reranked_retrieve :: "encoder \<Rightarrow> 'b bm25_lib \<Rightarrow> numpy_sorts \<Rightarrow> cross_encoder \<Rightarrow> 'b reranked_rag \<Rightarrow> string \<Rightarrow> nat
    \<Rightarrow> retrieved_chunk list result" where
  "reranked_retrieve enc lib np predict s question top_k =
     (if hr_chunks (rk_hybrid s) = [] then Inr []
      else rbind (hybrid_retrieve enc lib np (rk_hybrid s) question (rk_candidates s)) (\<lambda>candidates.
        if candidates = [] then Inr []
        else rmap (\<lambda>rerank_scores. rerank np candidates rerank_scores top_k)
               (predict (map (\<lambda>c. (question, ch_text (rc_chunk c))) candidates))))"

definition reranked_query :: "encoder \<Rightarrow> 'b bm25_lib \<Rightarrow> numpy_sorts \<Rightarrow> cross_encoder \<Rightarrow> rag_llm \<Rightarrow> 'b reranked_rag \<Rightarrow> string \<Rightarrow> nat
    \<Rightarrow> rag_result result" where
  "reranked_query enc lib np predict llm s = rag_query llm (reranked_retrieve enc lib np predict s)"

definition reranked_stats :: "'b reranked_rag \<Rightarrow> pdict" where
  "reranked_stats s = foldl (\<lambda>d (k, v). dset d k v) (hybrid_stats (rk_hybrid s))
     [(''version'', PStr ''v2-rerank''), (''rerank_model'', PStr ''cross-encoder/ms-marco-MiniLM-L-6-v2''),
      (''rerank_candidates'', PInt (int (rk_candidates s)))]"

text \<open>
  The evaluation (\<open>labs/rag/src/eval.py\<close>) and the service (\<open>server.py\<close>) over the three pipelines. The service
  creates the pipeline of the configured version at the first request that needs it.
\<close>

section \<open>Recall\<close>

record eval_pair =
  ep_question :: string
  ep_expected_answer :: string

record eval_result =
  er_question :: string
  er_expected_answer :: string
  er_hit :: bool
  er_retrieved_texts :: "string list"
  er_rank :: "nat option"

fun first_hit :: "string \<Rightarrow> nat \<Rightarrow> string list \<Rightarrow> bool \<times> nat option" where
  "first_hit expected_lower i [] = (False, None)"
| "first_hit expected_lower i (text # texts) =
     (if is_substring expected_lower (str_lower text) then (True, Some (i + 1)) else first_hit expected_lower (i + 1) texts)"

definition check_hit :: "string \<Rightarrow> string list \<Rightarrow> bool \<times> nat option" where
  "check_hit expected retrieved_texts = first_hit (str_lower expected) 0 retrieved_texts"

definition eval_one :: "(string \<Rightarrow> nat \<Rightarrow> retrieved_chunk list result) \<Rightarrow> nat \<Rightarrow> eval_pair \<Rightarrow> eval_result result" where
  "eval_one retrieve k pair =
     rmap (\<lambda>retrieved.
       let texts = map (ch_text \<circ> rc_chunk) retrieved; (hit, rank) = check_hit (ep_expected_answer pair) texts
       in \<lparr>er_question = ep_question pair, er_expected_answer = ep_expected_answer pair, er_hit = hit,
           er_retrieved_texts = texts, er_rank = rank\<rparr>)
       (retrieve (ep_question pair) k)"

definition evaluate_recall_at_k :: "(string \<Rightarrow> nat \<Rightarrow> retrieved_chunk list result) \<Rightarrow> eval_pair list \<Rightarrow> nat
    \<Rightarrow> (real \<times> eval_result list) result" where
  "evaluate_recall_at_k retrieve pairs k =
     (if pairs = [] then Inr (0, [])
      else rmap (\<lambda>results. (real (length (filter er_hit results)) / real (length pairs), results))
             (rmap_list (eval_one retrieve k) pairs))"

section \<open>The service\<close>

datatype 'b rag_pipeline = PNaive naive_rag | PHybrid "'b hybrid_rag" | PReranked "'b reranked_rag"

record 'b rag_env =
  re_version :: string
  re_enc :: encoder
  re_np :: numpy_sorts
  re_bm25 :: "'b bm25_lib"
  re_predict :: cross_encoder
  re_llm :: rag_llm

definition get_pipeline :: "'b rag_env \<Rightarrow> 'b rag_pipeline option \<Rightarrow> 'b rag_pipeline" where
  "get_pipeline env st =
     (case st of
        Some p \<Rightarrow> p
      | None \<Rightarrow>
          if re_version env = ''v2'' then PReranked (new_reranked_rag 20)
          else if re_version env = ''v1'' then PHybrid (new_hybrid_rag 20)
          else PNaive new_naive_rag)"

text \<open>The methods of the pipeline at hand; only the two-stage one names its version in the ingestion statistics.\<close>

definition pipeline_ingest :: "'b rag_env \<Rightarrow> string list \<Rightarrow> 'b rag_pipeline
    \<Rightarrow> (ingest_stats \<times> string option) result \<times> 'b rag_pipeline" where
  "pipeline_ingest env docs p =
     (case p of
        PNaive s \<Rightarrow> (let (r, s') = naive_ingest (re_enc env) docs s in (rmap (\<lambda>x. (x, None)) r, PNaive s'))
      | PHybrid s \<Rightarrow> (let (r, s') = hybrid_ingest (re_enc env) (re_bm25 env) docs s in (rmap (\<lambda>x. (x, None)) r, PHybrid s'))
      | PReranked s \<Rightarrow>
          (let (r, s') = reranked_ingest (re_enc env) (re_bm25 env) docs s
           in (rmap (\<lambda>x. (x, Some ''v2-rerank'')) r, PReranked s')))"

definition pipeline_retrieve :: "'b rag_env \<Rightarrow> 'b rag_pipeline \<Rightarrow> string \<Rightarrow> nat \<Rightarrow> retrieved_chunk list result" where
  "pipeline_retrieve env p =
     (case p of
        PNaive s \<Rightarrow> naive_retrieve (re_enc env) (re_np env) s
      | PHybrid s \<Rightarrow> hybrid_retrieve (re_enc env) (re_bm25 env) (re_np env) s
      | PReranked s \<Rightarrow> reranked_retrieve (re_enc env) (re_bm25 env) (re_np env) (re_predict env) s)"

definition pipeline_query :: "'b rag_env \<Rightarrow> 'b rag_pipeline \<Rightarrow> string \<Rightarrow> nat \<Rightarrow> rag_result result" where
  "pipeline_query env p = rag_query (re_llm env) (pipeline_retrieve env p)"

definition pipeline_stats :: "'b rag_pipeline \<Rightarrow> pdict" where
  "pipeline_stats p = (case p of PNaive s \<Rightarrow> naive_stats s | PHybrid s \<Rightarrow> hybrid_stats s | PReranked s \<Rightarrow> reranked_stats s)"

definition stat_of :: "pdict \<Rightarrow> string \<Rightarrow> pyval result" where
  "stat_of s k = (case dget s k of Some v \<Rightarrow> Inr v | None \<Rightarrow> Inl (KeyError k))"

record ingest_response =
  ir_chunks_added :: nat
  ir_total_chunks :: nat
  ir_version :: string

record query_response =
  qs_answer :: string
  qs_sources :: "string list"
  qs_version :: string

record stats_response =
  sp_version :: pyval
  sp_total_docs :: pyval
  sp_total_chunks :: pyval
  sp_embed_model :: pyval
  sp_extra :: pdict

definition rag_ingest :: "'b rag_env \<Rightarrow> string list \<Rightarrow> 'b rag_pipeline option \<Rightarrow> ingest_response http \<times> 'b rag_pipeline option" where
  "rag_ingest env docs st =
     (if docs = [] then (Inl (HttpError 400 ''docs list is empty''), st)
      else let (r, p) = pipeline_ingest env docs (get_pipeline env st)
           in (uncaught (rmap (\<lambda>(stats, version).
                 \<lparr>ir_chunks_added = is_chunks_added stats, ir_total_chunks = is_total_chunks stats,
                  ir_version = (case version of Some v \<Rightarrow> v | None \<Rightarrow> re_version env)\<rparr>) r), Some p))"

text \<open>A \<open>top_k\<close> outside 1 to 20 is refused before the handler runs.\<close>

definition rag_query_endpoint :: "'b rag_env \<Rightarrow> string \<Rightarrow> int \<Rightarrow> 'b rag_pipeline option \<Rightarrow> query_response http \<times> 'b rag_pipeline option" where
  "rag_query_endpoint env question n st =
     (if n < 1 \<or> 20 < n then (Inl (HttpError 422 ''top_k''), st)
      else let p = get_pipeline env st
           in (case stat_of (pipeline_stats p) ''total_chunks'' of
                 Inl e \<Rightarrow> Inl (Uncaught e)
               | Inr count \<Rightarrow>
                   if count = PInt 0 then Inl (HttpError 400 ''No documents ingested yet. Call POST /ingest first.'')
                   else uncaught (rmap (\<lambda>r. \<lparr>qs_answer = rr_answer r, qs_sources = rr_sources r, qs_version = re_version env\<rparr>)
                          (pipeline_query env p question (nat n))),
               Some p))"

definition rag_stats_endpoint :: "'b rag_env \<Rightarrow> 'b rag_pipeline option \<Rightarrow> stats_response http \<times> 'b rag_pipeline option" where
  "rag_stats_endpoint env st =
     (let p = get_pipeline env st; s = pipeline_stats p
      in (uncaught (rbind (stat_of s ''total_docs'') (\<lambda>d. rbind (stat_of s ''total_chunks'') (\<lambda>c. rmap (\<lambda>m.
            \<lparr>sp_version = dget_or s ''version'' (PStr (re_version env)), sp_total_docs = d, sp_total_chunks = c, sp_embed_model = m,
             sp_extra = filter (\<lambda>(k, v). k \<notin> {''version'', ''total_docs'', ''total_chunks'', ''embed_model''}) s\<rparr>)
            (stat_of s ''embed_model'')))), Some p))"

definition rag_health_endpoint :: "'b rag_env \<Rightarrow> 'b rag_pipeline option \<Rightarrow> pdict http \<times> 'b rag_pipeline option" where
  "rag_health_endpoint env st =
     (let p = get_pipeline env st; s = pipeline_stats p
      in (uncaught (rmap (\<lambda>c. [(''status'', PStr ''ok''), (''total_chunks'', c), (''version'', dget_or s ''version'' (PStr (re_version env)))])
            (stat_of s ''total_chunks'')), Some p))"

end
