(* ===== verification/RagLaws.thy ===== *)
theory RagLaws
  imports Rag "HOL-Library.Multiset"
begin

text \<open>
  Ranking: what the sorts of numpy give the top-k search and the reranker, and the scores of rank fusion; the
  invariant of the hybrid index.
\<close>

section \<open>Sorting by index\<close>

text \<open>The documented behaviour of \<open>argsort\<close> and \<open>argpartition\<close>; the order of equal entries is left open.\<close>

definition sorts_ok :: "numpy_sorts \<Rightarrow> bool" where
  "sorts_ok np \<longleftrightarrow>
     (\<forall>xs. mset (np_argsort np xs) = mset [0..<length xs] \<and> sorted (map (nth xs) (np_argsort np xs))) \<and>
     (\<forall>xs m. m < length xs \<longrightarrow>
        mset (np_argpartition np xs m) = mset [0..<length xs] \<and>
        (\<forall>i<m. \<forall>j. m \<le> j \<longrightarrow> j < length xs \<longrightarrow> xs ! (np_argpartition np xs m ! i) \<le> xs ! (np_argpartition np xs m ! j)))"

text \<open>A selection of \<open>k\<close> of the indices of a list of scores, best first, that leaves out no better one.\<close>

definition best_k :: "real list \<Rightarrow> nat \<Rightarrow> nat list \<Rightarrow> bool" where
  "best_k scores k ix \<longleftrightarrow>
     length ix = min k (length scores) \<and> distinct ix \<and> set ix \<subseteq> {..<length scores} \<and>
     sorted_wrt (\<lambda>a b. scores ! b \<le> scores ! a) ix \<and>
     (\<forall>i\<in>set ix. \<forall>j<length scores. j \<notin> set ix \<longrightarrow> scores ! j \<le> scores ! i)"

lemma argsort_perm:
  assumes "sorts_ok np"
  shows "length (np_argsort np xs) = length xs" "distinct (np_argsort np xs)" "set (np_argsort np xs) = {..<length xs}"
proof -
  have m: "mset (np_argsort np xs) = mset [0..<length xs]" using assms by (simp add: sorts_ok_def)
  then show "length (np_argsort np xs) = length xs" using mset_eq_length by fastforce
  show "distinct (np_argsort np xs)" using mset_eq_imp_distinct_iff [OF m] by simp
  show "set (np_argsort np xs) = {..<length xs}" using mset_eq_setD [OF m] by (simp add: lessThan_atLeast0)
qed

lemma argsort_desc:
  assumes "sorts_ok np" shows "sorted_wrt (\<lambda>a b. xs ! b \<le> xs ! a) (rev (np_argsort np xs))"
  using assms by (simp add: sorts_ok_def sorted_wrt_rev sorted_wrt_map)

lemma best_k_take:
  assumes "distinct ix" and "set ix = {..<length scores}" and "sorted_wrt (\<lambda>a b. scores ! b \<le> scores ! a) ix"
  shows "best_k scores k (take k ix)"
proof -
  have l: "length ix = length scores" using assms(1,2) distinct_card [of ix] by simp
  have tk: "set (take k ix) \<subseteq> set ix" by (rule set_take_subset)
  have "scores ! j \<le> scores ! i" if "i \<in> set (take k ix)" "j < length scores" "j \<notin> set (take k ix)" for i j
  proof -
    have "j \<in> set ix" using assms(2) that(2) by simp
    then have "j \<in> set (take k ix @ drop k ix)" by simp
    then have "j \<in> set (drop k ix)" using that(3) unfolding set_append by blast
    moreover have "sorted_wrt (\<lambda>a b. scores ! b \<le> scores ! a) (take k ix @ drop k ix)" using assms(3) by simp
    ultimately show ?thesis using that(1) unfolding sorted_wrt_append by blast
  qed
  then show ?thesis
    unfolding best_k_def using assms tk l by (auto simp: sorted_wrt_take)
qed

lemma best_k_argsort: "sorts_ok np \<Longrightarrow> best_k scores k (take k (rev (np_argsort np scores)))"
  by (rule best_k_take) (simp_all add: argsort_perm argsort_desc)

text \<open>The partial sort selects as well as the full one.\<close>

lemma best_k_partition:
  assumes "sorts_ok np" and "0 < k" "k < length scores"
  defines "p \<equiv> last_k k (np_argpartition np scores (length scores - k))"
  shows "best_k scores k (take k (map (\<lambda>i. p ! i) (rev (np_argsort np (map (\<lambda>i. scores ! i) p)))))"
proof -
  let ?n = "length scores" and ?q = "np_argpartition np scores (length scores - k)"
  have m: "mset ?q = mset [0..<?n]"
    and part: "\<And>i j. i < ?n - k \<Longrightarrow> ?n - k \<le> j \<Longrightarrow> j < ?n \<Longrightarrow> scores ! (?q ! i) \<le> scores ! (?q ! j)"
    using assms(1-3) by (auto simp: sorts_ok_def)
  have lq: "length ?q = ?n" using mset_eq_length [OF m] by simp
  have dq: "distinct ?q" using mset_eq_imp_distinct_iff [OF m] by simp
  have sq: "set ?q = {..<?n}" using mset_eq_setD [OF m] by (simp add: lessThan_atLeast0)
  have p: "p = drop (?n - k) ?q" using assms(2) by (simp add: p_def last_k_def lq)
  have lp: "length p = k" using assms(3) by (simp add: p lq)
  let ?sc = "map (\<lambda>i. scores ! i) p" and ?ord = "rev (np_argsort np (map (\<lambda>i. scores ! i) p))"
  have ord: "distinct ?ord" "set ?ord = {..<k}" "length ?ord = k" using argsort_perm [OF assms(1), of ?sc] lp by simp_all
  let ?ix = "map (\<lambda>i. p ! i) ?ord"
  have dp: "distinct p" using dq by (simp add: p)
  have "inj_on (\<lambda>i. p ! i) {..<k}" using dp lp by (auto simp: inj_on_def nth_eq_iff_index_eq)
  then have d: "distinct ?ix" using ord(1,2) by (simp add: distinct_map)
  have s: "set ?ix = set p" unfolding set_map ord(2) using lp by (auto simp: set_conv_nth image_def)
  have srt: "sorted_wrt (\<lambda>a b. scores ! b \<le> scores ! a) ?ix"
  proof -
    have "sorted_wrt (\<lambda>a b. ?sc ! b \<le> ?sc ! a) ?ord" by (rule argsort_desc [OF assms(1)])
    then have "sorted_wrt (\<lambda>a b. scores ! (p ! b) \<le> scores ! (p ! a)) ?ord"
      by (rule sorted_wrt_mono_rel [rotated]) (use ord(2) lp in simp)
    then show ?thesis by (simp only: sorted_wrt_map)
  qed
  have "scores ! j \<le> scores ! i" if i: "i \<in> set p" and j: "j < ?n" and nj: "j \<notin> set p" for i j
  proof -
    obtain a where a: "a < ?n" "j = ?q ! a" using j sq lq by (metis in_set_conv_nth lessThan_iff)
    have "a < ?n - k"
    proof (rule ccontr)
      assume "\<not> a < ?n - k"
      then have "j \<in> set p" using a lq by (auto simp: p in_set_conv_nth intro!: exI [of _ "a - (?n - k)"])
      with nj show False by simp
    qed
    moreover obtain b where "b < k" "i = ?q ! (?n - k + b)" using i lp assms(3) lq by (auto simp: p in_set_conv_nth)
    ultimately show ?thesis using part [of a "?n - k + b"] a assms(3) by simp
  qed
  moreover have "set p \<subseteq> {..<?n}" unfolding sq [symmetric] p by (rule set_drop_subset)
  moreover have "take k ?ix = ?ix" using ord(3) by simp
  ultimately show ?thesis unfolding best_k_def using d s srt ord(3) assms(3) by simp
qed

lemma top_k_is_best:
  assumes "sorts_ok np"
  shows "\<exists>ix. best_k (map (\<lambda>v. dot v q) vecs) k ix \<and>
     cosine_similarity_top_k np q vecs k = map (\<lambda>i. (i, map (\<lambda>v. dot v q) vecs ! i)) ix"
proof -
  let ?sc = "map (\<lambda>v. dot v q) vecs"
  consider "length ?sc \<le> k" | "k = 0" "0 < length ?sc" | "0 < k" "k < length ?sc" by linarith
  then show ?thesis
  proof cases
    case 1
    then show ?thesis using best_k_argsort [OF assms, of ?sc k]
      by (intro exI [of _ "take k (rev (np_argsort np ?sc))"]) (simp add: cosine_similarity_top_k_def Let_def)
  next
    case 2
    then show ?thesis by (intro exI [of _ "[]"]) (simp add: cosine_similarity_top_k_def Let_def best_k_def)
  next
    case 3
    show ?thesis
      by (rule exI, rule conjI, rule best_k_partition [OF assms 3]) (use 3 in \<open>simp add: cosine_similarity_top_k_def Let_def\<close>)
  qed
qed

section \<open>Rank fusion\<close>

definition rrf_score :: "nat \<Rightarrow> nat list list \<Rightarrow> nat \<Rightarrow> real" where
  "rrf_score k ls d = (\<Sum>l\<leftarrow>ls. \<Sum>(r, x)\<leftarrow>enumerate 0 l. if x = d then 1 / real (k + r + 1) else 0)"

lemma rrf_add_simps:
  "dwf sc \<Longrightarrow> dwf (rrf_add k sc p)"
  "set (dkeys (rrf_add k sc p)) = insert (snd p) (set (dkeys sc))"
  "dget_or (rrf_add k sc p) d 0 = dget_or sc d 0 + (if snd p = d then 1 / real (k + fst p + 1) else 0)"
  by (auto simp: rrf_add_def dget_or_def dwf_dset split: prod.split)

lemma rrf_add_fold:
  "dwf sc \<Longrightarrow> dwf (foldl (rrf_add k) sc ps)"
  "set (dkeys (foldl (rrf_add k) sc ps)) = set (dkeys sc) \<union> snd ` set ps"
  "dget_or (foldl (rrf_add k) sc ps) d 0 = dget_or sc d 0 + (\<Sum>(r, x)\<leftarrow>ps. if x = d then 1 / real (k + r + 1) else 0)"
proof -
  show "dwf sc \<Longrightarrow> dwf (foldl (rrf_add k) sc ps)"
    by (induction ps arbitrary: sc) (simp_all add: rrf_add_simps)
  show "set (dkeys (foldl (rrf_add k) sc ps)) = set (dkeys sc) \<union> snd ` set ps"
    by (induction ps arbitrary: sc) (simp_all add: rrf_add_simps)
  show "dget_or (foldl (rrf_add k) sc ps) d 0 = dget_or sc d 0 + (\<Sum>(r, x)\<leftarrow>ps. if x = d then 1 / real (k + r + 1) else 0)"
    by (induction ps arbitrary: sc) (simp_all add: rrf_add_simps case_prod_beta')
qed

abbreviation rrf_scores :: "nat \<Rightarrow> (nat, real) pydict \<Rightarrow> nat list list \<Rightarrow> (nat, real) pydict" where
  "rrf_scores k sc ls \<equiv> foldl (\<lambda>s l. foldl (rrf_add k) s (enumerate 0 l)) sc ls"

lemma rrf_fold:
  "dwf sc \<Longrightarrow> dwf (rrf_scores k sc ls)"
  "dget_or (rrf_scores k sc ls) d 0 = dget_or sc d 0 + rrf_score k ls d"
  "set (dkeys (rrf_scores k sc ls)) = set (dkeys sc) \<union> \<Union>(set ` set ls)"
proof -
  have e: "snd ` set (enumerate 0 l) = set l" for l :: "nat list" by (metis set_map map_snd_enumerate)
  show "dwf sc \<Longrightarrow> dwf (rrf_scores k sc ls)" by (induction ls arbitrary: sc) (simp_all add: rrf_add_fold(1))
  show "dget_or (rrf_scores k sc ls) d 0 = dget_or sc d 0 + rrf_score k ls d"
    by (induction ls arbitrary: sc) (simp_all add: rrf_add_fold(3) rrf_score_def)
  show "set (dkeys (rrf_scores k sc ls)) = set (dkeys sc) \<union> \<Union>(set ` set ls)"
    by (induction ls arbitrary: sc) (simp_all add: rrf_add_fold(2) e Un_assoc)
qed

lemma reciprocal_rank_fusion_spec:
  "distinct (map fst (reciprocal_rank_fusion ls k))"
  "set (reciprocal_rank_fusion ls k) = (\<lambda>d. (d, rrf_score k ls d)) ` \<Union>(set ` set ls)"
  "sorted_wrt (\<lambda>a b. snd b \<le> snd a) (reciprocal_rank_fusion ls k)"
proof -
  let ?d = "rrf_scores k [] ls"
  have m: "mset (reciprocal_rank_fusion ls k) = mset ?d" by (simp add: reciprocal_rank_fusion_def)
  note f = rrf_fold [where sc = "[]" and k = k and ls = ls]
  have "distinct (map fst ?d)" using f(1) by (simp add: dwf_def dkeys_def)
  moreover have "mset (map fst (reciprocal_rank_fusion ls k)) = mset (map fst ?d)" using m by simp
  ultimately show "distinct (map fst (reciprocal_rank_fusion ls k))" using mset_eq_imp_distinct_iff by blast
  have "(x, s) \<in> set ?d \<longleftrightarrow> x \<in> \<Union>(set ` set ls) \<and> s = rrf_score k ls x" for x s
  proof -
    have "(x, s) \<in> set ?d \<longleftrightarrow> dget ?d x = Some s" using dwf_dget_iff [of ?d x s] f(1) by simp
    moreover have "dget ?d x = None \<longleftrightarrow> x \<notin> \<Union>(set ` set ls)" using f(3) by (simp add: dget_None_iff)
    moreover have "dget ?d x = Some y \<Longrightarrow> y = rrf_score k ls x" for y using f(2) [of x] by (simp add: dget_or_def)
    ultimately show ?thesis by (cases "dget ?d x") auto
  qed
  then have "set ?d = (\<lambda>d. (d, rrf_score k ls d)) ` \<Union>(set ` set ls)" by auto
  then show "set (reciprocal_rank_fusion ls k) = (\<lambda>d. (d, rrf_score k ls d)) ` \<Union>(set ` set ls)"
    using mset_eq_setD [OF m] by simp
  have "sorted (map (\<lambda>x. - snd x) (reciprocal_rank_fusion ls k))"
    unfolding reciprocal_rank_fusion_def by (rule sorted_sort_key)
  then show "sorted_wrt (\<lambda>a b. snd b \<le> snd a) (reciprocal_rank_fusion ls k)" by (simp add: sorted_wrt_map)
qed

end
