(* ===== verification/RagPipeline.thy ===== *)
theory RagPipeline
  imports RagLaws Rag
begin

text \<open>
  The indexes of the pipelines stay consistent as long as no ingestion raises, a retrieval then returns as many
  chunks as asked for, and the service built on them answers. The locale \<open>retriever\<close> is what the query and the
  evaluation rely on.
\<close>

section \<open>The libraries\<close>

definition encoder_ok :: "encoder \<Rightarrow> bool" where
  "encoder_ok enc \<longleftrightarrow> (\<forall>ts. \<exists>es. enc ts = Inr es \<and> length es = length ts)"

definition bm25_ok :: "'b bm25_lib \<Rightarrow> bool" where
  "bm25_ok lib \<longleftrightarrow> (\<forall>ts b q. bm25_new lib ts = Inr b \<longrightarrow> length (bm25_scores lib b q) = length ts)"

definition predict_ok :: "cross_encoder \<Rightarrow> bool" where
  "predict_ok predict \<longleftrightarrow> (\<forall>ps. \<exists>xs. predict ps = Inr xs \<and> length xs = length ps)"

lemma embed_texts_ok: "encoder_ok enc \<Longrightarrow> \<exists>es. embed_texts enc ts = Inr es \<and> length es = length ts"
  by (metis embed_texts_def encoder_ok_def length_map rmap_simps(2))

section \<open>Chunks of documents\<close>

lemma chunk_all_append: "chunk_all n (a @ b) = chunk_all n a @ chunk_all (n + length a) b"
  by (induction a arbitrary: n) simp_all

text \<open>What a consistent index is: the chunks of the documents, and as many vectors and token lists.\<close>

definition naive_ok :: "naive_rag \<Rightarrow> bool" where
  "naive_ok s \<longleftrightarrow> nr_chunks s = chunk_all 0 (nr_docs s) \<and>
     (case nr_embeddings s of None \<Rightarrow> nr_chunks s = [] | Some es \<Rightarrow> length es = length (nr_chunks s))"

definition hybrid_ok :: "'b bm25_lib \<Rightarrow> 'b hybrid_rag \<Rightarrow> bool" where
  "hybrid_ok lib s \<longleftrightarrow> hr_chunks s = chunk_all 0 (hr_docs s) \<and>
     hr_tokenized s = map (tokenize_for_bm25 \<circ> ch_text) (hr_chunks s) \<and>
     (case hr_embeddings s of
        None \<Rightarrow> hr_chunks s = [] \<and> hr_bm25 s = None
      | Some es \<Rightarrow> length es = length (hr_chunks s) \<and> (\<exists>b. hr_bm25 s = Some b \<and> bm25_new lib (hr_tokenized s) = Inr b))"

lemma naive_ingest_ok:
  assumes "encoder_ok enc" "naive_ok s" "naive_ingest enc docs s = (Inr r, s')"
  shows "naive_ok s'" "nr_docs s' = nr_docs s @ docs"
proof -
  let ?new = "chunk_all (length (nr_docs s)) docs"
  obtain es where es: "embed_texts enc (map ch_text ?new) = Inr es" "length es = length ?new"
    using embed_texts_ok [OF assms(1), of "map ch_text ?new"] by auto
  show "naive_ok s'" "nr_docs s' = nr_docs s @ docs"
    using assms(2,3) es
    by (auto simp: naive_ok_def naive_ingest_def Let_def vstack_def chunk_all_append split: if_splits option.splits)
qed

lemma hybrid_ingest_ok:
  assumes "encoder_ok enc" "hybrid_ok lib s" "hybrid_ingest enc lib docs s = (Inr r, s')"
  shows "hybrid_ok lib s'" "hr_docs s' = hr_docs s @ docs" "hr_candidates s' = hr_candidates s"
proof -
  let ?new = "chunk_all (length (hr_docs s)) docs"
  obtain es where es: "embed_texts enc (map ch_text ?new) = Inr es" "length es = length ?new"
    using embed_texts_ok [OF assms(1), of "map ch_text ?new"] by auto
  show "hybrid_ok lib s'" "hr_docs s' = hr_docs s @ docs" "hr_candidates s' = hr_candidates s"
    using assms(2,3) es
    by (auto simp: hybrid_ok_def hybrid_ingest_def Let_def vstack_def chunk_all_append split: if_splits option.splits sum.splits)
qed

text \<open>A BM25 library that raises leaves vectors and token lists without chunks.\<close>

lemma hybrid_ingest_torn:
  assumes "encoder_ok enc" "hybrid_ok lib s" "chunk_all (length (hr_docs s)) docs \<noteq> []"
    and "bm25_new lib (hr_tokenized s @ map (tokenize_for_bm25 \<circ> ch_text) (chunk_all (length (hr_docs s)) docs)) = Inl e"
  shows "\<exists>s' es. hybrid_ingest enc lib docs s = (Inl e, s') \<and> hr_chunks s' = hr_chunks s \<and> hr_embeddings s' = Some es \<and>
     length (hr_chunks s') < length es \<and> length es = length (hr_tokenized s') \<and> hr_docs s' = hr_docs s @ docs"
proof -
  let ?new = "chunk_all (length (hr_docs s)) docs"
  obtain es where es: "embed_texts enc (map ch_text ?new) = Inr es" "length es = length ?new"
    using embed_texts_ok [OF assms(1), of "map ch_text ?new"] by auto
  have "length (vstack (hr_embeddings s) es) = length (hr_chunks s) + length ?new"
    using assms(2) es(2) by (auto simp: hybrid_ok_def vstack_def split: option.splits)
  moreover have "hr_tokenized s = map (tokenize_for_bm25 \<circ> ch_text) (hr_chunks s)" using assms(2) by (simp add: hybrid_ok_def)
  ultimately show ?thesis using assms(3,4) es by (simp add: hybrid_ingest_def Let_def)
qed

section \<open>Retrieval\<close>

lemma at_index_chunks:
  assumes "\<And>i s. (i, s) \<in> set ps \<Longrightarrow> i < length chunks"
  shows "rmap_list (at_index chunks) ps = Inr (map (\<lambda>(i, s). \<lparr>rc_chunk = chunks ! i, rc_score = s\<rparr>) ps)"
proof -
  have "rmap_list (at_index chunks) (map (\<lambda>x. x) ps) = Inr (map (\<lambda>(i, s). \<lparr>rc_chunk = chunks ! i, rc_score = s\<rparr>) ps)"
    by (rule rmap_list_map) (use assms in \<open>auto simp: at_index_def py_index_def\<close>)
  then show ?thesis by simp
qed

lemma at_index_within: "rmap_list (at_index chunks) ps = Inr rs \<Longrightarrow> rc_chunk ` set rs \<subseteq> set chunks \<and> length rs = length ps"
  using rmap_list_Inr_set [of "at_index chunks" ps rs] rmap_list_length [of "at_index chunks" ps rs]
  by (fastforce simp: at_index_def result_simps dest: py_index_in_set)

text \<open>What every retrieval gives from a consistent index.\<close>

definition good_answer :: "chunk list \<Rightarrow> nat \<Rightarrow> retrieved_chunk list \<Rightarrow> bool" where
  "good_answer chunks k rs \<longleftrightarrow> length rs = min k (length chunks) \<and> rc_chunk ` set rs \<subseteq> set chunks \<and>
     sorted_wrt (\<lambda>a b. rc_score b \<le> rc_score a) rs"

lemma best_k_pairs:
  assumes "best_k sc k ix"
  shows "length ix = min k (length sc)" "\<And>i. i \<in> set ix \<Longrightarrow> i < length sc" "distinct ix"
    "sorted_wrt (\<lambda>a b. sc ! b \<le> sc ! a) ix"
  using assms by (auto simp: best_k_def)

lemma naive_retrieve_good:
  assumes "encoder_ok enc" "sorts_ok np" "naive_ok s"
  shows "\<exists>rs. naive_retrieve enc np s q k = Inr rs \<and> good_answer (nr_chunks s) k rs"
proof (cases "nr_embeddings s")
  case None
  then have "nr_chunks s = []" using assms(3) by (auto simp: naive_ok_def)
  with None show ?thesis by (simp add: naive_retrieve_def good_answer_def)
next
  case (Some es)
  show ?thesis
  proof (cases "nr_chunks s = []")
    case False
    have l: "length es = length (nr_chunks s)" using assms(3) Some by (simp add: naive_ok_def)
    obtain v where v: "embed_texts enc [q] = Inr [v]" using embed_texts_ok [OF assms(1), of "[q]"] by (auto simp: length_Suc_conv)
    obtain ix where ix: "best_k (map (\<lambda>w. dot w v) es) k ix"
      "cosine_similarity_top_k np v es k = map (\<lambda>i. (i, map (\<lambda>w. dot w v) es ! i)) ix"
      using top_k_is_best [OF assms(2)] by blast
    note b = best_k_pairs [OF ix(1)]
    have "rmap_list (at_index (nr_chunks s)) (cosine_similarity_top_k np v es k)
        = Inr (map (\<lambda>i. \<lparr>rc_chunk = nr_chunks s ! i, rc_score = map (\<lambda>w. dot w v) es ! i\<rparr>) ix)" (is "_ = Inr ?rs")
      unfolding ix(2) by (subst at_index_chunks) (use b(2) l in \<open>auto simp: comp_def\<close>)
    moreover have "good_answer (nr_chunks s) k ?rs"
      using b l by (auto simp: good_answer_def sorted_wrt_map)
    ultimately show ?thesis using Some False v by (simp add: naive_retrieve_def py_index_def)
  qed (use Some in \<open>simp add: naive_retrieve_def good_answer_def\<close>)
qed

text \<open>The fused ranking lists every chunk that one of the rankings lists.\<close>

lemma hybrid_retrieve_good:
  assumes "encoder_ok enc" "bm25_ok lib" "sorts_ok np" "hybrid_ok lib s"
  shows "\<exists>rs. hybrid_retrieve enc lib np s q k = Inr rs \<and> good_answer (hr_chunks s) k rs"
proof (cases "hr_embeddings s")
  case None
  then have "hr_chunks s = []" "hr_bm25 s = None" using assms(4) by (auto simp: hybrid_ok_def)
  with None show ?thesis
    by (simp add: hybrid_retrieve_def retrieve_dense_def retrieve_bm25_def reciprocal_rank_fusion_def rmap_list_def good_answer_def)
next
  case (Some es)
  let ?n = "length (hr_chunks s)" and ?c = "max k (hr_candidates s)"
  from assms(4) Some obtain b where l: "length es = ?n" and b: "hr_bm25 s = Some b" "bm25_new lib (hr_tokenized s) = Inr b"
    and tk: "length (hr_tokenized s) = ?n" by (auto simp: hybrid_ok_def)
  obtain v where v: "embed_texts enc [q] = Inr [v]" using embed_texts_ok [OF assms(1), of "[q]"] by (auto simp: length_Suc_conv)
  obtain ix where ix: "best_k (map (\<lambda>w. dot w v) es) ?c ix"
    "cosine_similarity_top_k np v es ?c = map (\<lambda>i. (i, map (\<lambda>w. dot w v) es ! i)) ix"
    using top_k_is_best [OF assms(3)] by blast
  have dense: "retrieve_dense enc np s q ?c = Inr ix"
    using Some v by (simp add: retrieve_dense_def py_index_def ix(2) comp_def)
  let ?sc = "bm25_scores lib b (tokenize_for_bm25 q)"
  have ls: "length ?sc = ?n" using assms(2) b(2) tk by (simp add: bm25_ok_def)
  define jx where "jx = take ?c (rev (np_argsort np ?sc))"
  have jx: "best_k ?sc ?c jx" unfolding jx_def by (rule best_k_argsort [OF assms(3)])
  have sparse: "retrieve_bm25 lib np s q ?c = jx" by (simp add: retrieve_bm25_def b(1) jx_def)
  let ?f = "reciprocal_rank_fusion [ix, jx] rrf_k"
  have idx: "i < ?n" if "(i, x) \<in> set ?f" for i x
    using that best_k_pairs(2) [OF ix(1)] best_k_pairs(2) [OF jx] l ls
    unfolding reciprocal_rank_fusion_spec(2) by auto
  have "min k ?n \<le> length ?f"
  proof -
    have "card (set ix) = min ?c ?n" using best_k_pairs(1,3) [OF ix(1)] l by (simp add: distinct_card)
    moreover have "card (set ix) \<le> card (set (map fst ?f))"
      by (rule card_mono) (auto simp: reciprocal_rank_fusion_spec(2) image_image)
    moreover have "card (set (map fst ?f)) = length ?f"
      using distinct_card [OF reciprocal_rank_fusion_spec(1), of "[ix, jx]" rrf_k] by simp
    ultimately show ?thesis by simp
  qed
  moreover have "length ?f \<le> ?n"
  proof -
    have "set (map fst ?f) \<subseteq> {..<?n}" using idx by auto
    then have "card (set (map fst ?f)) \<le> ?n" using card_mono [of "{..<?n}" "set (map fst ?f)"] by simp
    then show ?thesis using distinct_card [OF reciprocal_rank_fusion_spec(1), of "[ix, jx]" rrf_k] by simp
  qed
  ultimately have len: "length (take k ?f) = min k ?n" by auto
  let ?rs = "map (\<lambda>(i, x). \<lparr>rc_chunk = hr_chunks s ! i, rc_score = x\<rparr>) (take k ?f)"
  have idx_take: "i < ?n" if "(i, x) \<in> set (take k ?f)" for i x using idx in_set_takeD [OF that] by blast
  have "rmap_list (at_index (hr_chunks s)) (take k ?f) = Inr ?rs" by (rule at_index_chunks) (rule idx_take)
  moreover have "sorted_wrt (\<lambda>a b. snd b \<le> snd a) (take k ?f)"
    by (intro sorted_wrt_take reciprocal_rank_fusion_spec(3))
  then have "good_answer (hr_chunks s) k ?rs"
    using len idx_take by (auto simp: good_answer_def sorted_wrt_map case_prod_beta')
  ultimately show ?thesis by (simp add: hybrid_retrieve_def dense sparse)
qed

text \<open>The reranker orders the candidates of the hybrid stage by its own scores.\<close>

lemma rerank_good:
  assumes "sorts_ok np" and "length scores = length candidates"
  shows "good_answer (map rc_chunk candidates) k (rerank np candidates scores k)"
proof -
  note b = best_k_pairs [OF best_k_argsort [OF assms(1), of scores k]]
  show ?thesis
    using b assms(2) unfolding good_answer_def rerank_def by (auto simp: sorted_wrt_map simp del: take_rev)
qed

lemma reranked_retrieve_good:
  assumes "encoder_ok enc" "bm25_ok lib" "sorts_ok np" "predict_ok predict" "hybrid_ok lib (rk_hybrid s)"
    and "k \<le> rk_candidates s"
  shows "\<exists>rs. reranked_retrieve enc lib np predict s q k = Inr rs \<and> good_answer (hr_chunks (rk_hybrid s)) k rs"
proof (cases "hr_chunks (rk_hybrid s) = []")
  case True
  then show ?thesis by (simp add: reranked_retrieve_def good_answer_def)
next
  case ne: False
  obtain cs where cs: "hybrid_retrieve enc lib np (rk_hybrid s) q (rk_candidates s) = Inr cs"
    and good: "good_answer (hr_chunks (rk_hybrid s)) (rk_candidates s) cs"
    using hybrid_retrieve_good [OF assms(1-3,5)] by blast
  obtain xs where xs: "predict (map (\<lambda>c. (q, ch_text (rc_chunk c))) cs) = Inr xs" "length xs = length cs"
    using assms(4) unfolding predict_ok_def by (metis length_map)
  have r: "good_answer (map rc_chunk cs) k (rerank np cs xs k)" by (rule rerank_good [OF assms(3) xs(2)])
  show ?thesis
  proof (cases "cs = []")
    case True
    with good ne assms(6) have "k = 0" by (auto simp: good_answer_def min_def split: if_splits)
    with True cs ne show ?thesis by (simp add: reranked_retrieve_def good_answer_def)
  next
    case False
    have "good_answer (hr_chunks (rk_hybrid s)) k (rerank np cs xs k)"
      using r good assms(6) unfolding good_answer_def by auto
    with False cs xs ne show ?thesis by (simp add: reranked_retrieve_def)
  qed
qed

section \<open>What the query and the evaluation rely on\<close>

lemma first_hit_rank:
  "first_hit e i ts = (hit, rank) \<Longrightarrow>
     (hit \<longleftrightarrow> (\<exists>t\<in>set ts. is_substring e (str_lower t))) \<and>
     (case rank of None \<Rightarrow> \<not> hit | Some r \<Rightarrow> hit \<and> i < r \<and> r \<le> i + length ts \<and> is_substring e (str_lower (ts ! (r - i - 1))))"
proof (induction e i ts rule: first_hit.induct)
  case (2 e i t ts)
  show ?case
  proof (cases "is_substring e (str_lower t)")
    case False
    with 2 have "(hit \<longleftrightarrow> (\<exists>t\<in>set ts. is_substring e (str_lower t))) \<and>
      (case rank of None \<Rightarrow> \<not> hit | Some r \<Rightarrow> hit \<and> i + 1 < r \<and> r \<le> i + 1 + length ts \<and> is_substring e (str_lower (ts ! (r - (i + 1) - 1))))"
      by simp
    then show ?thesis using False by (auto split: option.splits simp: nth_Cons')
  qed (use 2 in auto)
qed auto

locale retriever =
  fixes chunks_of :: "'s \<Rightarrow> chunk list"
    and good :: "'s \<Rightarrow> bool"
    and retrieve :: "'s \<Rightarrow> string \<Rightarrow> nat \<Rightarrow> retrieved_chunk list result"
  assumes within: "good s \<Longrightarrow> retrieve s q k = Inr rs \<Longrightarrow> rc_chunk ` set rs \<subseteq> set (chunks_of s) \<and> length rs \<le> k"
begin

lemma sources_from_index:
  assumes "good s" "rag_query llm (retrieve s) q k = Inr r"
  shows "set (rr_sources r) \<subseteq> ch_text ` set (chunks_of s)" "length (rr_sources r) \<le> k"
    "rr_sources r = map (ch_text \<circ> rc_chunk) (rr_retrieved r)"
proof -
  obtain rs where rs: "retrieve s q k = Inr rs" "rr_sources r = map (ch_text \<circ> rc_chunk) rs" "rr_retrieved r = rs"
    using assms(2) by (auto simp: rag_query_def Let_def result_simps)
  with within [OF assms(1) rs(1)] show "set (rr_sources r) \<subseteq> ch_text ` set (chunks_of s)" "length (rr_sources r) \<le> k"
    "rr_sources r = map (ch_text \<circ> rc_chunk) (rr_retrieved r)" by auto
qed

text \<open>A hit is a chunk of the index that contains the expected answer; recall is the share of the hits.\<close>

lemma recall_sound:
  assumes "good s" "evaluate_recall_at_k (retrieve s) pairs k = Inr (recall, results)"
  shows "0 \<le> recall" "recall \<le> 1" "length results = length pairs"
    "\<And>r. r \<in> set results \<Longrightarrow> er_hit r \<Longrightarrow>
       \<exists>c\<in>set (chunks_of s). is_substring (str_lower (er_expected_answer r)) (str_lower (ch_text c))"
    "\<And>r n. r \<in> set results \<Longrightarrow> er_rank r = Some n \<Longrightarrow> er_hit r \<and> 1 \<le> n \<and> n \<le> k"
    "\<And>r. r \<in> set results \<Longrightarrow> er_rank r = None \<Longrightarrow> \<not> er_hit r"
proof -
  have len: "length results = length pairs"
    using assms(2) by (auto simp: evaluate_recall_at_k_def result_simps dest!: rmap_list_length split: if_splits)
  have "length (filter er_hit results) \<le> length pairs" using length_filter_le [of er_hit results] unfolding len .
  then show "0 \<le> recall" "recall \<le> 1"
    using assms(2) by (auto simp: evaluate_recall_at_k_def result_simps divide_le_eq_1 split: if_splits)
  show "length results = length pairs" by (rule len)
  fix r assume r: "r \<in> set results"
  obtain pr where pr: "eval_one (retrieve s) k pr = Inr r"
    using r assms(2) rmap_list_Inr_set [of "eval_one (retrieve s) k" pairs results]
    by (auto simp: evaluate_recall_at_k_def result_simps split: if_splits)
  then obtain rs where rs: "retrieve s (ep_question pr) k = Inr rs" by (auto simp: eval_one_def result_simps)
  note w = within [OF assms(1) rs]
  obtain hit rank where h: "check_hit (ep_expected_answer pr) (map (ch_text \<circ> rc_chunk) rs) = (hit, rank)" by fastforce
  have er: "er_hit r = hit" "er_rank r = rank" "er_expected_answer r = ep_expected_answer pr"
    using pr rs h by (auto simp: eval_one_def Let_def)
  note f = first_hit_rank [OF h [unfolded check_hit_def]]
  show "er_hit r \<Longrightarrow> \<exists>c\<in>set (chunks_of s). is_substring (str_lower (er_expected_answer r)) (str_lower (ch_text c))"
    using f w er by auto
  show "er_rank r = None \<Longrightarrow> \<not> er_hit r" using f er by auto
  show "er_hit r \<and> 1 \<le> n \<and> n \<le> k" if "er_rank r = Some n" for n
    using f w er that by auto
qed

end

interpretation naive: retriever nr_chunks "\<lambda>_. sorts_ok np" "naive_retrieve enc np" for enc np
proof
  fix s q k rs
  assume np: "sorts_ok np" and r: "naive_retrieve enc np s q k = Inr rs"
  show "rc_chunk ` set rs \<subseteq> set (nr_chunks s) \<and> length rs \<le> k"
    using r top_k_is_best [OF np] at_index_within [of "nr_chunks s"]
    by (auto simp: naive_retrieve_def cosine_similarity_top_k_def Let_def result_simps split: option.splits if_splits dest!: at_index_within)
qed

interpretation hybrid: retriever hr_chunks "\<lambda>_. True" "hybrid_retrieve enc lib np" for enc lib np
proof
  fix s q k rs
  assume r: "hybrid_retrieve enc lib np s q k = Inr rs"
  then obtain fused where "rmap_list (at_index (hr_chunks s)) (take k fused) = Inr rs"
    by (auto simp: hybrid_retrieve_def Let_def result_simps)
  from at_index_within [OF this] show "rc_chunk ` set rs \<subseteq> set (hr_chunks s) \<and> length rs \<le> k" by simp
qed

interpretation reranked: retriever "hr_chunks \<circ> rk_hybrid" "\<lambda>_. sorts_ok np \<and> predict_ok predict" "reranked_retrieve enc lib np predict"
  for enc lib np predict
proof
  fix s q k rs
  assume g: "sorts_ok np \<and> predict_ok predict" and r: "reranked_retrieve enc lib np predict s q k = Inr rs"
  show "rc_chunk ` set rs \<subseteq> set ((hr_chunks \<circ> rk_hybrid) s) \<and> length rs \<le> k"
  proof (cases "rs = []")
    case False
    with r obtain cs xs where cs: "hybrid_retrieve enc lib np (rk_hybrid s) q (rk_candidates s) = Inr cs"
      and xs: "predict (map (\<lambda>c. (q, ch_text (rc_chunk c))) cs) = Inr xs" and rs: "rs = rerank np cs xs k"
      by (auto simp: reranked_retrieve_def result_simps split: if_splits)
    have "length xs = length cs" using g xs unfolding predict_ok_def by (metis length_map Inr_inject)
    then have "good_answer (map rc_chunk cs) k rs" unfolding rs using g by (intro rerank_good) simp_all
    moreover have "rc_chunk ` set cs \<subseteq> set (hr_chunks (rk_hybrid s))" using hybrid.within [OF TrueI cs] by simp
    ultimately show ?thesis unfolding good_answer_def by (auto dest: subset_trans)
  qed simp
qed

section \<open>The service\<close>

definition env_ok :: "'b rag_env \<Rightarrow> bool" where
  "env_ok env \<longleftrightarrow> encoder_ok (re_enc env) \<and> bm25_ok (re_bm25 env) \<and> sorts_ok (re_np env) \<and> predict_ok (re_predict env)"

text \<open>The states of the service after requests in which no ingestion raised, with the documents ingested.\<close>

inductive rag_reachable :: "'b rag_env \<Rightarrow> string list \<Rightarrow> 'b rag_pipeline option \<Rightarrow> bool" for env where
  start: "rag_reachable env [] None"
| ingest: "rag_reachable env ds st \<Longrightarrow> rag_ingest env docs st = (Inr r, st') \<Longrightarrow> rag_reachable env (ds @ docs) st'"
| query: "rag_reachable env ds st \<Longrightarrow> rag_query_endpoint env q n st = (r, st') \<Longrightarrow> rag_reachable env ds st'"
| stats: "rag_reachable env ds st \<Longrightarrow> rag_stats_endpoint env st = (r, st') \<Longrightarrow> rag_reachable env ds st'"
| health: "rag_reachable env ds st \<Longrightarrow> rag_health_endpoint env st = (h, st') \<Longrightarrow> rag_reachable env ds st'"

definition pipeline_ok :: "'b rag_env \<Rightarrow> string list \<Rightarrow> 'b rag_pipeline \<Rightarrow> bool" where
  "pipeline_ok env ds p \<longleftrightarrow>
     (case p of
        PNaive s \<Rightarrow> naive_ok s \<and> nr_docs s = ds
      | PHybrid s \<Rightarrow> hybrid_ok (re_bm25 env) s \<and> hr_docs s = ds
      | PReranked s \<Rightarrow> hybrid_ok (re_bm25 env) (rk_hybrid s) \<and> hr_docs (rk_hybrid s) = ds \<and> rk_candidates s = 20)"

lemma pipeline_ok_new: "pipeline_ok env [] (get_pipeline env None)"
  by (simp add: pipeline_ok_def get_pipeline_def new_reranked_rag_def new_hybrid_rag_def new_naive_rag_def naive_ok_def hybrid_ok_def)

lemma pipeline_ingest_ok:
  assumes "env_ok env" "pipeline_ok env ds p" "pipeline_ingest env docs p = (Inr r, p')"
  shows "pipeline_ok env (ds @ docs) p'"
proof (cases p)
  case (PNaive s)
  with assms naive_ingest_ok [of "re_enc env" s docs] show ?thesis
    by (auto simp: pipeline_ingest_def pipeline_ok_def env_ok_def result_simps split: prod.splits)
next
  case (PHybrid s)
  with assms hybrid_ingest_ok [of "re_enc env" "re_bm25 env" s docs] show ?thesis
    by (auto simp: pipeline_ingest_def pipeline_ok_def env_ok_def result_simps split: prod.splits)
next
  case (PReranked s)
  with assms hybrid_ingest_ok [of "re_enc env" "re_bm25 env" "rk_hybrid s" docs] show ?thesis
    by (auto simp: pipeline_ingest_def reranked_ingest_def pipeline_ok_def env_ok_def result_simps split: prod.splits)
qed

lemma get_pipeline_Some [simp]: "get_pipeline env (Some p) = p"
  by (simp add: get_pipeline_def)

lemma rag_reachable_ok:
  assumes "env_ok env" shows "rag_reachable env ds st \<Longrightarrow> pipeline_ok env ds (get_pipeline env st)"
proof (induction rule: rag_reachable.induct)
  case start
  show ?case by (rule pipeline_ok_new)
next
  case (ingest ds st docs r st')
  then obtain p x where p: "pipeline_ingest env docs (get_pipeline env st) = (Inr x, p)" "st' = Some p"
    by (auto simp: rag_ingest_def uncaught_def rmap_def split: if_splits prod.splits sum.splits)
  from pipeline_ingest_ok [OF assms ingest.IH p(1)] p(2) show ?case by simp
qed (auto simp: rag_query_endpoint_def rag_stats_endpoint_def rag_health_endpoint_def Let_def split: if_splits)

definition pipeline_chunks :: "'b rag_pipeline \<Rightarrow> chunk list" where
  "pipeline_chunks p = (case p of PNaive s \<Rightarrow> nr_chunks s | PHybrid s \<Rightarrow> hr_chunks s | PReranked s \<Rightarrow> hr_chunks (rk_hybrid s))"

lemma pipeline_chunks_of: "pipeline_ok env ds p \<Longrightarrow> pipeline_chunks p = chunk_all 0 ds"
  by (auto simp: pipeline_ok_def pipeline_chunks_def naive_ok_def hybrid_ok_def split: rag_pipeline.splits)

lemma pipeline_total: "stat_of (pipeline_stats p) ''total_chunks'' = Inr (PInt (int (length (pipeline_chunks p))))"
  by (cases p) (simp_all add: stat_of_def pipeline_stats_def naive_stats_def hybrid_stats_def reranked_stats_def pipeline_chunks_def)

lemma pipeline_retrieve_good:
  assumes "env_ok env" "pipeline_ok env ds p" "k \<le> 20"
  shows "\<exists>rs. pipeline_retrieve env p q k = Inr rs \<and> good_answer (pipeline_chunks p) k rs"
  using assms naive_retrieve_good [of "re_enc env" "re_np env"]
    hybrid_retrieve_good [of "re_enc env" "re_bm25 env" "re_np env"]
    reranked_retrieve_good [of "re_enc env" "re_bm25 env" "re_np env" "re_predict env"]
  by (cases p) (simp_all add: env_ok_def pipeline_ok_def pipeline_retrieve_def pipeline_chunks_def)

text \<open>The service's pipeline is a retriever as well, whichever version it is.\<close>

interpretation service: retriever pipeline_chunks "\<lambda>_. env_ok env" "pipeline_retrieve env" for env
proof
  fix p q k rs
  assume "env_ok env" and r: "pipeline_retrieve env p q k = Inr rs"
  then have np: "sorts_ok (re_np env)" and pr: "predict_ok (re_predict env)" by (simp_all add: env_ok_def)
  show "rc_chunk ` set rs \<subseteq> set (pipeline_chunks p) \<and> length rs \<le> k"
  proof (cases p)
    case (PNaive s)
    with r naive.within [OF np] show ?thesis by (simp add: pipeline_retrieve_def pipeline_chunks_def)
  next
    case (PHybrid s)
    with r hybrid.within [OF TrueI] show ?thesis by (simp add: pipeline_retrieve_def pipeline_chunks_def)
  next
    case (PReranked s)
    with r reranked.within [OF conjI [OF np pr]] show ?thesis by (simp add: pipeline_retrieve_def pipeline_chunks_def)
  qed
qed

text \<open>What a query answers once the retrieval is known.\<close>

lemma rag_query_endpoint_good:
  assumes "env_ok env" "pipeline_ok env ds (get_pipeline env st)" "1 \<le> n" "n \<le> 20" "chunk_all 0 ds \<noteq> []"
  shows "\<exists>rs. good_answer (chunk_all 0 ds) (nat n) rs \<and>
     fst (rag_query_endpoint env q n st) = uncaught (rmap (\<lambda>a. \<lparr>qs_answer = a, qs_sources = map (ch_text \<circ> rc_chunk) rs,
       qs_version = re_version env\<rparr>) (generate_answer (re_llm env) q (map (ch_text \<circ> rc_chunk) rs)))"
proof -
  let ?p = "get_pipeline env st"
  have c: "pipeline_chunks ?p = chunk_all 0 ds" by (rule pipeline_chunks_of [OF assms(2)])
  obtain rs where rs: "pipeline_retrieve env ?p q (nat n) = Inr rs" "good_answer (chunk_all 0 ds) (nat n) rs"
    using pipeline_retrieve_good [OF assms(1,2), of "nat n" q] assms(4) c by (auto simp: nat_le_iff)
  have t: "stat_of (pipeline_stats ?p) ''total_chunks'' = Inr (PInt (int (length (chunk_all 0 ds))))"
    using pipeline_total [of ?p] c by simp
  show ?thesis
  proof (intro exI conjI)
    show "good_answer (chunk_all 0 ds) (nat n) rs" by (rule rs(2))
    show "fst (rag_query_endpoint env q n st) = uncaught (rmap (\<lambda>a. \<lparr>qs_answer = a, qs_sources = map (ch_text \<circ> rc_chunk) rs,
       qs_version = re_version env\<rparr>) (generate_answer (re_llm env) q (map (ch_text \<circ> rc_chunk) rs)))"
      using assms(3-5) t rs(1)
      by (cases "generate_answer (re_llm env) q (map (ch_text \<circ> rc_chunk) rs)")
        (simp_all add: rag_query_endpoint_def Let_def pipeline_query_def rag_query_def)
  qed
qed

lemma rag_query_endpoint_empty:
  assumes "pipeline_ok env ds (get_pipeline env st)" "1 \<le> n" "n \<le> 20" "chunk_all 0 ds = []"
  shows "fst (rag_query_endpoint env q n st) = Inl (HttpError 400 ''No documents ingested yet. Call POST /ingest first.'')"
  using assms pipeline_chunks_of [OF assms(1)] pipeline_total [of "get_pipeline env st"]
  by (simp add: rag_query_endpoint_def Let_def)

text \<open>On a consistent index the evaluation returns.\<close>

lemma evaluate_total:
  assumes "\<And>q. \<exists>rs. retrieve q k = Inr rs"
  shows "\<exists>recall results. evaluate_recall_at_k retrieve pairs k = Inr (recall, results)"
proof -
  have one: "\<exists>r. eval_one retrieve k pr = Inr r" for pr using assms [of "ep_question pr"] by (auto simp: eval_one_def)
  then obtain g where g: "\<And>pr. eval_one retrieve k pr = Inr (g pr)" by metis
  have "rmap_list (eval_one retrieve k) (map (\<lambda>x. x) pairs) = Inr (map g pairs)" by (rule rmap_list_map) (rule g)
  then show ?thesis by (simp add: evaluate_recall_at_k_def)
qed

end
