(* ===== verification/RagProperties.thy ===== *)
theory RagProperties
  imports RagPipeline
begin

text \<open>The properties of the retrieval pipelines and their service, with the inputs that witness their hypotheses.\<close>

section \<open>An instance of the libraries\<close>

definition stable_sorts :: numpy_sorts where
  "stable_sorts = \<lparr>np_argsort = (\<lambda>xs. sort_key (nth xs) [0..<length xs]), np_argpartition = (\<lambda>xs m. sort_key (nth xs) [0..<length xs])\<rparr>"

lemma stable_sorts_ok: "sorts_ok stable_sorts"
proof -
  have s: "sorted (map (nth xs) (sort_key (nth xs) [0..<length xs]))" for xs :: "real list" by (rule sorted_sort_key)
  have "xs ! (sort_key (nth xs) [0..<length xs] ! i) \<le> xs ! (sort_key (nth xs) [0..<length xs] ! j)"
    if "i < m" "m \<le> j" "j < length xs" for xs :: "real list" and i j m
    using sorted_nth_mono [OF s [of xs], of i j] that by simp
  then show ?thesis using s by (simp add: sorts_ok_def stable_sorts_def)
qed

definition unit_encoder :: encoder where
  "unit_encoder ts = Inr (map (\<lambda>t. [1]) ts)"

definition small_env :: "string list list rag_env" where
  "small_env = \<lparr>re_version = ''v1'', re_enc = unit_encoder, re_np = stable_sorts,
     re_bm25 = \<lparr>bm25_new = (\<lambda>ts. if concat ts = [] then Inl (OtherError ''ZeroDivisionError: division by zero'') else Inr ts),
                bm25_scores = (\<lambda>ts q. map (\<lambda>t. real (length (filter (\<lambda>w. w \<in> set q) t))) ts)\<rparr>,
     re_predict = (\<lambda>ps. Inr (map (\<lambda>p. 0) ps)), re_llm = \<lparr>lm_model = ''m'', lm_post = (\<lambda>_. RequestFailed ''refused'')\<rparr>\<rparr>"

lemma small_env_ok: "env_ok small_env"
  by (auto simp: env_ok_def small_env_def stable_sorts_ok encoder_ok_def unit_encoder_def bm25_ok_def predict_ok_def split: if_splits)

section \<open>Chunks\<close>

lemma window_chunk:
  assumes "c \<noteq> []" "c \<in> (\<lambda>(i, j). str_strip (slice i j tx)) ` set ws"
  shows "\<exists>ch\<in>set (number_chunks doc n (filter (\<lambda>t. t \<noteq> []) (map (\<lambda>(i, j). str_strip (slice i j tx)) ws))). ch_text ch = c"
proof -
  have "c \<in> set ts \<Longrightarrow> \<exists>ch\<in>set (number_chunks doc n ts). ch_text ch = c" for ts
    by (induction doc n ts rule: number_chunks.induct) auto
  then show ?thesis using assms by auto
qed

lemma slice_contains:
  assumes "i \<le> length a" "length a + length w \<le> j"
  shows "slice i j (a @ w @ b) = drop i a @ w @ take (j - length a - length w) b"
  using assms by (simp add: slice_def)

text \<open>C31: Every passage of at most 200 characters of a document, which is the overlap of the windows, that
  does not begin or end with white space is whole in one of its chunks: chunking never cuts a short passage apart.\<close>

theorem chunks_keep_passages:
  assumes "length w \<le> overlap_chars" and "w \<noteq> []" and "\<not> is_space (hd w)" and "\<not> is_space (last w)"
  shows "\<exists>c\<in>set (chunk_document (a @ w @ b) doc). is_substring w (ch_text c)"
proof -
  define tx where "tx = str_strip (a @ w @ b)"
  have sub: "is_substring w tx" unfolding tx_def by (rule str_strip_keeps [OF refl assms(2-4)])
  then obtain u v where uv: "tx = u @ w @ v" unfolding is_substring_iff by blast
  obtain i j where ij: "(i, j) \<in> set (windows_from tx 0)" "i \<le> length u" "length u + length w \<le> j"
    using passage_in_window [of 0 "length u" "length w" tx] assms(1,2) uv by auto
  define c where "c = str_strip (slice i j tx)"
  have keep: "is_substring w c"
    unfolding c_def by (rule str_strip_keeps [OF _ assms(2-4)]) (use uv ij in \<open>simp add: slice_contains\<close>)
  have ne: "c \<noteq> []" using keep assms(2) by (auto simp: is_substring_iff)
  have "c \<in> (\<lambda>(i, j). str_strip (slice i j tx)) ` set (windows_from tx 0)" using ij(1) by (auto simp: c_def)
  from window_chunk [OF ne this] keep
  have "\<exists>ch\<in>set (chunk_loop tx doc 0 0). is_substring w (ch_text ch)" unfolding chunk_loop_windows by metis
  moreover have "tx \<noteq> []" using uv assms(2) by simp
  ultimately show ?thesis by (simp add: chunk_document_def tx_def)
qed

theorem chunks_keep_passages_witness:
  "\<exists>c\<in>set (chunk_document (replicate 3000 CHR ''x'' @ ''mat.'' @ replicate 500 CHR ''y'') 0). is_substring ''mat.'' (ch_text c)"
  by (rule chunks_keep_passages) (simp_all add: overlap_chars_def is_space_def)

section \<open>Ranking\<close>

text \<open>The top-k search returns, for any sorts that keep numpy's contract, \<open>min(k, n)\<close> distinct indices of
  the \<open>n\<close> vectors with their dot products, best first, and no vector left out scores higher than one returned;
  the partial sort of the code selects as well as a full one.\<close>

theorem top_k_search_is_exact:
  assumes "sorts_ok np"
  shows "\<exists>ix. best_k (map (\<lambda>v. dot v q) vecs) k ix \<and>
    cosine_similarity_top_k np q vecs k = map (\<lambda>i. (i, map (\<lambda>v. dot v q) vecs ! i)) ix"
  by (rule top_k_is_best [OF assms])

theorem top_k_search_is_exact_witness:
  "\<exists>ix. best_k (map (\<lambda>v. dot v [1, 0]) [[1, 0], [0, 1], [1, 1]]) 2 ix \<and>
    cosine_similarity_top_k stable_sorts [1, 0] [[1, 0], [0, 1], [1, 1]] 2 = map (\<lambda>i. (i, map (\<lambda>v. dot v [1, 0]) [[1, 0], [0, 1], [1, 1]] ! i)) ix"
  by (rule top_k_search_is_exact) (rule stable_sorts_ok)

text \<open>Reciprocal rank fusion lists each chunk that some ranking lists, once, with the sum of
  \<open>1 / (k + rank)\<close> over the rankings, best first.\<close>

theorem rank_fusion_scores:
  "distinct (map fst (reciprocal_rank_fusion ls k)) \<and>
   set (reciprocal_rank_fusion ls k) = (\<lambda>d. (d, rrf_score k ls d)) ` \<Union>(set ` set ls) \<and>
   sorted_wrt (\<lambda>a b. snd b \<le> snd a) (reciprocal_rank_fusion ls k)"
  by (intro conjI reciprocal_rank_fusion_spec)

section \<open>The service\<close>

definition cat_docs :: "string list" where
  "cat_docs = [''The cat sat.'', ''A dog ran.'']"

lemma cat_chunks: "chunk_all 0 cat_docs = [\<lparr>ch_text = ''The cat sat.'', ch_doc_index = 0, ch_chunk_index = 0\<rparr>,
    \<lparr>ch_text = ''A dog ran.'', ch_doc_index = 1, ch_chunk_index = 0\<rparr>]"
  by (simp add: cat_docs_def chunk_document_def chunk_loop.simps window_end_def slice_def chunk_chars_def str_strip_def
      str_lstrip_def str_rstrip_def is_space_def Let_def)

lemma cat_tokens: "map (tokenize_for_bm25 \<circ> ch_text) (chunk_all 0 cat_docs) = [[''the'', ''cat'', ''sat.''], [''dog'', ''ran.'']]"
  by (simp add: cat_chunks tokenize_for_bm25_def split_words.simps is_space_def Let_def) (simp add: str_lower_def lower_char_def char_of_def bit_0 bit_numeral_rec)

lemma cat_ingest: "\<exists>r st. rag_ingest small_env cat_docs None = (Inr r, st)"
proof -
  have n: "chunk_all 0 cat_docs \<noteq> []" "cat_docs \<noteq> []" by (simp_all add: cat_chunks) (simp add: cat_docs_def)
  have e: "embed_texts unit_encoder ts = Inr (map (\<lambda>t. l2_row [1]) ts)" for ts
    by (simp add: embed_texts_def unit_encoder_def comp_def)
  have "\<exists>r s. hybrid_ingest unit_encoder (re_bm25 small_env) cat_docs (new_hybrid_rag 20) = (Inr r, s)"
    using n e cat_tokens by (simp add: hybrid_ingest_def new_hybrid_rag_def Let_def small_env_def)
  then show ?thesis
    using n by (auto simp: rag_ingest_def get_pipeline_def pipeline_ingest_def uncaught_def small_env_def)
qed

lemma cat_state: "\<exists>st. rag_reachable small_env cat_docs st"
proof -
  obtain r st where "rag_ingest small_env cat_docs None = (Inr r, st)" using cat_ingest by blast
  from rag_reachable.ingest [OF rag_reachable.start this] show ?thesis by auto
qed

text \<open>C30: In every state the service reaches through requests of which no ingestion raised, a query for 1 to 20
  chunks answers 400 exactly when the documents have no chunk; otherwise it retrieves \<open>min(top_k, n)\<close> of their
  \<open>n\<close> chunks, in the order of their scores, and answers from them; an LLM that cannot be reached gives an answer
  that says so, with the sources.\<close>

theorem rag_query_outcomes:
  assumes "env_ok env" and "rag_reachable env ds st" and "1 \<le> n" and "n \<le> 20"
  shows "if chunk_all 0 ds = []
     then fst (rag_query_endpoint env q n st) = Inl (HttpError 400 ''No documents ingested yet. Call POST /ingest first.'')
     else \<exists>rs. good_answer (chunk_all 0 ds) (nat n) rs \<and>
       fst (rag_query_endpoint env q n st) =
         (case lm_post (re_llm env) (rag_payload (lm_model (re_llm env)) q (map (ch_text \<circ> rc_chunk) rs)) of
            RequestFailed e \<Rightarrow> Inr \<lparr>qs_answer = ''[LLM unavailable: '' @ e @ '']'', qs_sources = map (ch_text \<circ> rc_chunk) rs,
                                qs_version = re_version env\<rparr>
          | Reply v \<Rightarrow> uncaught (rmap (\<lambda>a. \<lparr>qs_answer = a, qs_sources = map (ch_text \<circ> rc_chunk) rs,
                                qs_version = re_version env\<rparr>) (answer_of v)))"
proof (cases "chunk_all 0 ds = []")
  case True
  then show ?thesis
    using rag_query_endpoint_empty [OF rag_reachable_ok [OF assms(1,2)] assms(3,4)] by simp
next
  case False
  obtain rs where rs: "good_answer (chunk_all 0 ds) (nat n) rs"
    "fst (rag_query_endpoint env q n st) = uncaught (rmap (\<lambda>a. \<lparr>qs_answer = a, qs_sources = map (ch_text \<circ> rc_chunk) rs,
       qs_version = re_version env\<rparr>) (generate_answer (re_llm env) q (map (ch_text \<circ> rc_chunk) rs)))"
    using rag_query_endpoint_good [OF assms(1) rag_reachable_ok [OF assms(1,2)] assms(3,4) False] by blast
  then show ?thesis
    using False by (auto simp: generate_answer_def uncaught_def intro!: exI [of _ rs] split: post_reply.split)
qed

theorem rag_query_outcomes_witness:
  "\<exists>st (rs :: retrieved_chunk list). rag_reachable small_env cat_docs st \<and> length rs = 1 \<and>
     fst (rag_query_endpoint small_env ''cat'' 1 st) =
       Inr \<lparr>qs_answer = ''[LLM unavailable: refused]'', qs_sources = map (ch_text \<circ> rc_chunk) rs, qs_version = ''v1''\<rparr>"
proof -
  obtain st where st: "rag_reachable small_env cat_docs st" using cat_state by blast
  have llm: "lm_post (re_llm small_env) x = RequestFailed ''refused''" "re_version small_env = ''v1''" for x
    by (simp_all add: small_env_def)
  have "\<exists>rs. good_answer (chunk_all 0 cat_docs) 1 rs \<and> fst (rag_query_endpoint small_env ''cat'' 1 st) =
      Inr \<lparr>qs_answer = ''[LLM unavailable: refused]'', qs_sources = map (ch_text \<circ> rc_chunk) rs, qs_version = ''v1''\<rparr>"
    using rag_query_outcomes [OF small_env_ok st, of 1 "''cat''"] by (simp add: cat_chunks llm del: map_map)
  then obtain rs where "good_answer (chunk_all 0 cat_docs) 1 rs" "fst (rag_query_endpoint small_env ''cat'' 1 st) =
      Inr \<lparr>qs_answer = ''[LLM unavailable: refused]'', qs_sources = map (ch_text \<circ> rc_chunk) rs, qs_version = ''v1''\<rparr>" by blast
  moreover from this(1) have "length rs = 1" by (simp add: good_answer_def cat_chunks)
  ultimately show ?thesis using st by blast
qed

text \<open>An ingestion whose BM25 index cannot be built (every token of the corpus one character long, say)
  reports the error and leaves the hybrid index torn: vectors and token lists of chunks that are not stored, with
  the documents counted.\<close>

theorem failed_bm25_tears_index:
  assumes "encoder_ok enc" and "hybrid_ok lib s" and "chunk_all (length (hr_docs s)) docs \<noteq> []"
    and "bm25_new lib (hr_tokenized s @ map (tokenize_for_bm25 \<circ> ch_text) (chunk_all (length (hr_docs s)) docs)) = Inl e"
  shows "\<exists>s' es. hybrid_ingest enc lib docs s = (Inl e, s') \<and> hr_chunks s' = hr_chunks s \<and> hr_embeddings s' = Some es \<and>
    length (hr_chunks s') < length es \<and> length es = length (hr_tokenized s') \<and> hr_docs s' = hr_docs s @ docs"
  by (rule hybrid_ingest_torn [OF assms])

theorem failed_bm25_tears_index_witness:
  "\<exists>s' es. hybrid_ingest unit_encoder (re_bm25 small_env) [''a b''] (new_hybrid_rag 20) =
       (Inl (OtherError ''ZeroDivisionError: division by zero''), s') \<and>
     hr_chunks s' = hr_chunks (new_hybrid_rag 20 :: string list list hybrid_rag) \<and> hr_embeddings s' = Some es \<and> length (hr_chunks s') < length es \<and>
     length es = length (hr_tokenized s') \<and> hr_docs s' = hr_docs (new_hybrid_rag 20 :: string list list hybrid_rag) @ [''a b'']"
  by (rule failed_bm25_tears_index)
    (simp_all add: encoder_ok_def unit_encoder_def hybrid_ok_def new_hybrid_rag_def chunk_document_def chunk_loop.simps window_end_def
      slice_def chunk_chars_def str_strip_def str_lstrip_def str_rstrip_def is_space_def Let_def small_env_def
      tokenize_for_bm25_def split_words.simps)

text \<open>Recall over any pipeline of the service that reached a consistent state is defined, lies between 0 and 1, has one result per
  question, and every hit is at a rank within \<open>k\<close> and due to a chunk of the ingested documents that
  contains the expected answer, ignoring case.\<close>

theorem recall_is_sound:
  assumes "env_ok env" and "pipeline_ok env ds p" and "k \<le> 20"
  shows "\<exists>recall results. evaluate_recall_at_k (pipeline_retrieve env p) pairs k = Inr (recall, results) \<and>
    0 \<le> recall \<and> recall \<le> 1 \<and> length results = length pairs \<and>
    (\<forall>r\<in>set results. case er_rank r of
        None \<Rightarrow> \<not> er_hit r
      | Some n \<Rightarrow> er_hit r \<and> 1 \<le> n \<and> n \<le> k \<and>
          (\<exists>c\<in>set (chunk_all 0 ds). is_substring (str_lower (er_expected_answer r)) (str_lower (ch_text c))))"
proof -
  have "\<exists>rs. pipeline_retrieve env p q k = Inr rs" for q using pipeline_retrieve_good [OF assms] by blast
  from evaluate_total [of "pipeline_retrieve env p" k pairs, OF this] obtain recall results
    where e: "evaluate_recall_at_k (pipeline_retrieve env p) pairs k = Inr (recall, results)" by blast
  note s = service.recall_sound [OF assms(1) e] and c = pipeline_chunks_of [OF assms(2)]
  show ?thesis
    by (intro exI conjI, rule e) (use s c in \<open>auto split: option.splits\<close>)
qed

theorem recall_is_sound_witness:
  "\<exists>recall results. evaluate_recall_at_k (pipeline_retrieve small_env (get_pipeline small_env None)) [\<lparr>ep_question = ''q'', ep_expected_answer = ''a''\<rparr>] 3
      = Inr (recall, results) \<and> 0 \<le> recall \<and> recall \<le> 1 \<and> length results = 1"
  using recall_is_sound [OF small_env_ok pipeline_ok_new, of 3 "[\<lparr>ep_question = ''q'', ep_expected_answer = ''a''\<rparr>]"] by auto

end
