(* ===== verification/EvalFewshot.thy ===== *)
theory EvalFewshot
  imports Complex_Main PyText
begin

text \<open>
  Few-shot evaluation, \<open>labs/llm-eval/src/v0_fewshot.py\<close>, and the task type of \<open>tasks.py\<close>. The model is a function
  from a prompt to its completion, which may raise. \<open>te_id\<close> stands for the identity of an example, which the code
  compares with \<open>is\<close>. The regular expressions are written out as searches.
\<close>

section \<open>Tasks\<close>

record task_example =
  te_id :: nat
  te_question :: string
  te_choices :: "string list option"
  te_answer :: string

record task =
  tk_name :: string
  tk_metric :: string
  tk_examples :: "task_example list"

record example_result =
  xr_question :: string
  xr_expected :: string
  xr_predicted :: string
  xr_correct :: bool

record fewshot_result =
  fr_task_name :: string
  fr_n_shot :: int
  fr_accuracy :: real
  fr_num_correct :: nat
  fr_num_total :: nat
  fr_examples :: "example_result list"

section \<open>Prompts\<close>

definition format_mc_example :: "task_example \<Rightarrow> bool \<Rightarrow> string result" where
  "format_mc_example ex include_answer =
     (case te_choices ex of
        None \<Rightarrow> Inl (KeyError ''choices'')
      | Some choices \<Rightarrow> Inr (''Question: '' @ te_question ex @ nl @ str_join nl choices @ nl @ ''Answer:''
          @ (if include_answer then '' '' @ te_answer ex else [])))"

definition format_em_example :: "task_example \<Rightarrow> bool \<Rightarrow> string result" where
  "format_em_example ex include_answer =
     Inr (''Question: '' @ te_question ex @ nl @ ''Answer:'' @ (if include_answer then '' '' @ te_answer ex else []))"

definition unknown_metric :: "string \<Rightarrow> py_exn" where
  "unknown_metric m = ValueError (''Unknown metric: '' @ py_repr (PStr m))"

definition demonstrations :: "task \<Rightarrow> task_example \<Rightarrow> int \<Rightarrow> task_example list" where
  "demonstrations task test_example n_shot = take_int n_shot (filter (\<lambda>ex. te_id ex \<noteq> te_id test_example) (tk_examples task))"

definition fewshot_prompt :: "task \<Rightarrow> task_example \<Rightarrow> int \<Rightarrow> string result" where
  "fewshot_prompt task test_example n_shot =
     (let demos = demonstrations task test_example n_shot;
          blocks = (\<lambda>format. rbind (rmap_list (\<lambda>demo. format demo True) demos) (\<lambda>parts.
            rmap (\<lambda>last_part. str_join (nl @ nl) (parts @ [last_part])) (format test_example False)))
      in if tk_metric task = ''multiple_choice'' then blocks format_mc_example
         else if tk_metric task = ''exact_match'' then blocks format_em_example
         else Inl (unknown_metric (tk_metric task)))"

section \<open>Normalization\<close>

definition is_punct :: "char \<Rightarrow> bool" where
  "is_punct c \<longleftrightarrow> (let n = of_char c :: nat in (33 \<le> n \<and> n \<le> 47) \<or> (58 \<le> n \<and> n \<le> 64) \<or> (91 \<le> n \<and> n \<le> 96) \<or> (123 \<le> n \<and> n \<le> 126))"

text \<open>\<open>re.sub(r"\s+", " ", s)\<close>.\<close>

function collapse_spaces :: "string \<Rightarrow> string" where
  "collapse_spaces [] = []"
| "collapse_spaces (c # s) = (if is_space c then CHR '' '' # collapse_spaces (dropWhile is_space s) else c # collapse_spaces s)"
  by pat_completeness auto
termination
  by (relation "measure length") (simp_all add: le_imp_less_Suc length_dropWhile_le)

definition normalize_string :: "string \<Rightarrow> string" where
  "normalize_string s = str_strip (collapse_spaces (filter (\<lambda>c. \<not> is_punct c) (str_lower (str_strip s))))"

section \<open>Extraction of a choice\<close>

definition choice_letter :: "char \<Rightarrow> bool" where
  "choice_letter c \<longleftrightarrow> c \<in> {CHR ''A'', CHR ''B'', CHR ''C'', CHR ''D''}"

definition is_word_char :: "char \<Rightarrow> bool" where
  "is_word_char c \<longleftrightarrow> (let n = of_char c :: nat in (48 \<le> n \<and> n \<le> 57) \<or> (65 \<le> n \<and> n \<le> 90) \<or> (97 \<le> n \<and> n \<le> 122) \<or> n = 95)"

definition at_boundary :: "string \<Rightarrow> bool" where
  "at_boundary rest \<longleftrightarrow> (case rest of [] \<Rightarrow> True | c # _ \<Rightarrow> \<not> is_word_char c)"

text \<open>\<open>^([ABCD])[.):]?\s\<close>, ignoring case.\<close>

definition match_leading :: "string \<Rightarrow> char option" where
  "match_leading s =
     (case s of
        c # d # rest \<Rightarrow>
          if choice_letter (upper_char c) \<and> (is_space d \<or> (d \<in> {CHR ''.'', CHR '')'', CHR '':''} \<and> rest \<noteq> [] \<and> is_space (hd rest)))
          then Some (upper_char c) else None
      | _ \<Rightarrow> None)"

text \<open>\<open>[Aa]nswer[:\s]+([ABCD])\<close>, ignoring case, at the front of a text, and the search for its leftmost match.\<close>

definition match_answer :: "string \<Rightarrow> char option" where
  "match_answer s =
     (if str_lower (take 6 s) = ''answer''
      then let sep = (\<lambda>c. c = CHR '':'' \<or> is_space c); r = drop 6 s; rest = dropWhile sep r
           in if rest \<noteq> r \<and> rest \<noteq> [] \<and> choice_letter (upper_char (hd rest)) then Some (upper_char (hd rest)) else None
      else None)"

fun search_answer :: "string \<Rightarrow> char option" where
  "search_answer [] = None"
| "search_answer (c # s) = (case match_answer (c # s) of Some l \<Rightarrow> Some l | None \<Rightarrow> search_answer s)"

text \<open>\<open>\bis\s+\(?([ABCD])\b\<close>, case-sensitive; the first argument tells whether a word character stands before.\<close>

definition match_is :: "string \<Rightarrow> char option" where
  "match_is s =
     (if take 2 s = ''is''
      then let r = drop 2 s; rest = dropWhile is_space r; rest' = (if rest \<noteq> [] \<and> hd rest = CHR ''('' then tl rest else rest)
           in if rest \<noteq> r \<and> rest' \<noteq> [] \<and> choice_letter (hd rest') \<and> at_boundary (tl rest') then Some (hd rest') else None
      else None)"

fun search_is :: "bool \<Rightarrow> string \<Rightarrow> char option" where
  "search_is after_word [] = None"
| "search_is after_word (c # s) =
     (case (if after_word then None else match_is (c # s)) of Some l \<Rightarrow> Some l | None \<Rightarrow> search_is (is_word_char c) s)"

text \<open>\<open>^([ABCD])\b\<close>, ignoring case.\<close>

definition match_alone :: "string \<Rightarrow> char option" where
  "match_alone s =
     (case s of [] \<Rightarrow> None | c # rest \<Rightarrow> if choice_letter (upper_char c) \<and> at_boundary rest then Some (upper_char c) else None)"

definition extract_multiple_choice :: "string \<Rightarrow> string" where
  "extract_multiple_choice completion =
     (let s = str_strip completion
      in case match_leading s of
           Some l \<Rightarrow> [l]
         | None \<Rightarrow>
             (case search_answer s of
                Some l \<Rightarrow> [l]
              | None \<Rightarrow> (case search_is False s of Some l \<Rightarrow> [l] | None \<Rightarrow> (case match_alone s of Some l \<Rightarrow> [l] | None \<Rightarrow> []))))"

section \<open>Evaluation\<close>

definition evaluate_example :: "(string \<Rightarrow> string result) \<Rightarrow> task \<Rightarrow> int \<Rightarrow> task_example \<Rightarrow> example_result result" where
  "evaluate_example model_fn task n_shot example =
     rbind (fewshot_prompt task example n_shot) (\<lambda>prompt. rbind (model_fn prompt) (\<lambda>completion.
       let result = (\<lambda>predicted expected. Inr \<lparr>xr_question = te_question example, xr_expected = expected,
             xr_predicted = predicted, xr_correct = (predicted = expected)\<rparr>)
       in if tk_metric task = ''multiple_choice'' then result (extract_multiple_choice completion) (te_answer example)
          else if tk_metric task = ''exact_match'' then result (normalize_string completion) (normalize_string (te_answer example))
          else Inl (unknown_metric (tk_metric task))))"

definition accuracy_of :: "example_result list \<Rightarrow> real" where
  "accuracy_of rs = (if 0 < length rs then real (length (filter xr_correct rs)) / real (length rs) else 0)"

definition fewshot_evaluate :: "(string \<Rightarrow> string result) \<Rightarrow> task \<Rightarrow> int \<Rightarrow> fewshot_result result" where
  "fewshot_evaluate model_fn task n_shot =
     rmap (\<lambda>example_results.
       \<lparr>fr_task_name = tk_name task, fr_n_shot = n_shot, fr_accuracy = accuracy_of example_results,
        fr_num_correct = length (filter xr_correct example_results), fr_num_total = length example_results,
        fr_examples = example_results\<rparr>)
       (rmap_list (evaluate_example model_fn task n_shot) (tk_examples task))"

end
