(* ===== verification/EvalFewshotLaws.thy ===== *)
theory EvalFewshotLaws
  imports EvalFewshot
begin

text \<open>
  Few-shot evaluation: normalization as a function on words, what the extraction returns, the shape of a prompt
  and the figures of an evaluation.
\<close>

section \<open>Normalization\<close>

lemma str_rstrip_append: "str_rstrip (a @ b) = (if str_rstrip b = [] then str_rstrip a else a @ str_rstrip b)"
  by (auto simp: str_rstrip_def dropWhile_append dropWhile_eq_Nil_conv)

lemma str_rstrip_spaceless: "list_all (\<lambda>c. \<not> is_space c) w \<Longrightarrow> str_rstrip w = w"
  by (cases w rule: rev_cases) (simp_all add: str_rstrip_def)

lemma collapse_word: "list_all (\<lambda>c. \<not> is_space c) w \<Longrightarrow> collapse_spaces (w @ s) = w @ collapse_spaces s"
  by (induction w) auto

lemma str_join_eq_Nil: "list_all spaceless ws \<Longrightarrow> str_join '' '' ws = [] \<longleftrightarrow> ws = []"
  by (cases ws) (auto simp: str_join_step spaceless_def)

text \<open>Collapsing white space and stripping is splitting into words and joining them by single spaces.\<close>

lemma collapse_words: "str_rstrip (collapse_spaces (dropWhile is_space s)) = str_join '' '' (split_words s)"
proof (induction s rule: split_words.induct)
  case (1 s)
  let ?t = "dropWhile is_space s"
  show ?case
  proof (cases "?t = []")
    case True
    then show ?thesis by (simp add: split_words_eq(1) [OF True] str_rstrip_def del: dropWhile_eq_Nil_conv)
  next
    case False
    let ?w = "takeWhile (\<lambda>c. \<not> is_space c) ?t" and ?r = "dropWhile (\<lambda>c. \<not> is_space c) ?t"
    have w: "list_all (\<lambda>c. \<not> is_space c) ?w" by (auto simp: list_all_iff dest: set_takeWhileD)
    have c: "collapse_spaces ?t = ?w @ collapse_spaces ?r" using collapse_word [OF w, of ?r] by simp
    note s = split_words_eq(2) [OF refl False]
    show ?thesis
    proof (cases "?r")
      case Nil
      then show ?thesis unfolding s c Nil by (simp add: str_rstrip_spaceless [OF w])
    next
      case (Cons x xs)
      have "?r \<noteq> []" using Cons by simp
      then have "\<not> \<not> is_space (hd ?r)" by (rule hd_dropWhile)
      then have x: "is_space x" using Cons by simp
      have cr: "collapse_spaces ?r = CHR '' '' # collapse_spaces (dropWhile is_space ?r)" using x Cons by simp
      have IH: "str_rstrip (collapse_spaces (dropWhile is_space ?r)) = str_join '' '' (split_words ?r)" by (rule 1 [OF refl False])
      have one: "str_rstrip '' '' = []" by (simp add: str_rstrip_def)
      have "str_rstrip (collapse_spaces ?t) = str_rstrip ((?w @ '' '') @ collapse_spaces (dropWhile is_space ?r))"
        unfolding c cr by simp
      also have "\<dots> = str_join '' '' (?w # split_words ?r)"
        unfolding str_rstrip_append [of "?w @ '' ''"] IH
        by (simp add: str_join_eq_Nil [OF split_words_spaceless] str_join_step str_rstrip_append one str_rstrip_spaceless [OF w])
      finally show ?thesis unfolding s .
    qed
  qed
qed

lemma str_lstrip_collapse: "str_strip (collapse_spaces s) = str_rstrip (collapse_spaces (dropWhile is_space s))"
proof (cases s)
  case (Cons c t)
  show ?thesis
  proof (cases "is_space c")
    case True
    have "collapse_spaces (dropWhile is_space t) = [] \<or> \<not> is_space (hd (collapse_spaces (dropWhile is_space t)))"
    proof (cases "dropWhile is_space t")
      case (Cons x xs)
      then have "\<not> is_space x" using hd_dropWhile [of is_space t] by simp
      then show ?thesis unfolding Cons by simp
    qed (simp del: dropWhile_eq_Nil_conv)
    then have "dropWhile is_space (collapse_spaces (dropWhile is_space t)) = collapse_spaces (dropWhile is_space t)"
      by (cases "collapse_spaces (dropWhile is_space t)") simp_all
    then show ?thesis using True by (simp add: Cons str_strip_def str_lstrip_def)
  qed (simp add: Cons str_strip_def str_lstrip_def)
qed (simp add: str_strip_def str_lstrip_def)

lemma split_words_strip: "split_words (str_strip s) = split_words s"
proof -
  have "s = takeWhile is_space s @ str_strip s @ rev (takeWhile is_space (rev (str_lstrip s)))"
    unfolding str_strip_def str_rstrip_def str_lstrip_def
    by (metis rev_append rev_rev_ident takeWhile_dropWhile_id)
  moreover have "list_all is_space (takeWhile is_space u)" for u by (auto simp: list_all_iff dest: set_takeWhileD)
  ultimately show ?thesis by (metis split_words_blank split_words_append_blank list_all_rev)
qed

lemma space_lower [simp]: "is_space (lower_char c) = is_space c"
proof (cases "65 \<le> (of_char c :: nat) \<and> (of_char c :: nat) \<le> 90")
  case True
  then have "of_char (lower_char c) = (of_char c + 32 :: nat)" by (simp add: lower_char_def)
  then show ?thesis using True by (auto simp: is_space_def)
qed (auto simp: lower_char_def)

lemma not_punct_space: "is_space c \<Longrightarrow> \<not> is_punct c"
  by (auto simp: is_space_def is_punct_def)

definition content_words :: "string \<Rightarrow> string list" where
  "content_words s = split_words (filter (\<lambda>c. \<not> is_punct c) (str_lower s))"

lemma split_words_core:
  assumes "list_all is_space u" "list_all is_space v" shows "split_words (u @ s @ v) = split_words s"
  using split_words_blank [OF assms(1), of "s @ v"] split_words_append_blank [OF assms(2), of s] by simp

lemma normalize_is_words: "normalize_string s = str_join '' '' (content_words s)"
proof -
  obtain u v where uv: "s = u @ str_strip s @ v" "list_all is_space u" "list_all is_space v"
    using str_strip_infix by blast
  let ?f = "\<lambda>s. filter (\<lambda>c. \<not> is_punct c) (str_lower s)"
  have blank: "list_all is_space (?f w)" if "list_all is_space w" for w
    using that by (induction w) (auto simp: str_lower_def)
  have "content_words s = split_words (?f u @ ?f (str_strip s) @ ?f v)"
    unfolding content_words_def by (subst uv(1)) (simp add: str_lower_def)
  also have "\<dots> = split_words (?f (str_strip s))" by (rule split_words_core [OF blank [OF uv(2)] blank [OF uv(3)]])
  finally show ?thesis by (simp add: normalize_string_def str_lstrip_collapse collapse_words)
qed

text \<open>Normalizing again changes nothing.\<close>

lemma not_punct_lower: "\<not> is_punct (lower_char c) \<longleftrightarrow> \<not> is_punct c"
proof (cases "65 \<le> (of_char c :: nat) \<and> (of_char c :: nat) \<le> 90")
  case True
  then have "of_char (lower_char c) = (of_char c + 32 :: nat)" by (simp add: lower_char_def)
  then show ?thesis using True by (auto simp: is_punct_def Let_def)
qed (auto simp: lower_char_def)

lemma content_words_chars: "w \<in> set (content_words s) \<Longrightarrow> str_lower w = w \<and> list_all (\<lambda>c. \<not> is_punct c) w"
proof -
  have sub: "w \<in> set (split_words t) \<Longrightarrow> set w \<subseteq> set t" for t
  proof (induction t rule: split_words.induct)
    case (1 t)
    show ?case
    proof (cases "dropWhile is_space t = []")
      case True
      then show ?thesis using 1(2) split_words_eq(1) [OF True] by simp
    next
      case False
      from 1(2) [unfolded split_words_eq(2) [OF refl False]] 1(1) [OF refl False] show ?thesis
        by (auto dest!: set_takeWhileD set_dropWhileD)
    qed
  qed
  assume "w \<in> set (content_words s)"
  then have w: "set w \<subseteq> set (filter (\<lambda>c. \<not> is_punct c) (str_lower s))" unfolding content_words_def by (rule sub)
  have "lower_char c = c" if "c \<in> set w" for c using that w by (auto simp: str_lower_def lower_char_idem)
  then have "str_lower w = w" by (simp add: str_lower_def map_idI)
  with w show ?thesis by (auto simp: list_all_iff)
qed

lemma normalize_idem: "normalize_string (normalize_string s) = normalize_string s"
proof -
  let ?ws = "content_words s"
  have "str_lower (str_join '' '' ws) = str_join '' '' ws \<and> filter (\<lambda>c. \<not> is_punct c) (str_join '' '' ws) = str_join '' '' ws"
    if "\<And>w. w \<in> set ws \<Longrightarrow> str_lower w = w \<and> list_all (\<lambda>c. \<not> is_punct c) w" for ws
    using that
  proof (induction ws)
    case (Cons w ws)
    have "str_lower '' '' = '' ''" "\<not> is_punct (CHR '' '')" by (simp_all add: str_lower_def lower_char_def is_punct_def)
    moreover have "filter (\<lambda>c. \<not> is_punct c) w = w" using Cons.prems [of w] by (simp add: list_all_iff filter_id_conv)
    ultimately show ?case using Cons by (auto simp: str_join_step str_lower_def)
  qed (simp add: str_lower_def)
  from this [OF content_words_chars] have "content_words (str_join '' '' ?ws) = split_words (str_join '' '' ?ws)"
    by (simp add: content_words_def [of "str_join '' '' ?ws"])
  also have "\<dots> = ?ws" unfolding content_words_def by (rule split_join [OF split_words_spaceless])
  finally show ?thesis by (simp add: normalize_is_words)
qed

section \<open>Extraction\<close>

lemma match_letters:
  "match_leading s = Some l \<Longrightarrow> choice_letter l" "match_answer s = Some l \<Longrightarrow> choice_letter l"
  "match_is s = Some l \<Longrightarrow> choice_letter l" "match_alone s = Some l \<Longrightarrow> choice_letter l"
  by (auto simp: match_leading_def match_answer_def match_is_def match_alone_def Let_def split: list.splits if_splits)

lemma search_letters:
  "search_answer s = Some l \<Longrightarrow> choice_letter l" "search_is w s = Some l \<Longrightarrow> choice_letter l"
  by (induction s arbitrary: w) (auto split: option.splits if_splits dest: match_letters)

lemma extract_range: "extract_multiple_choice s \<in> {[], ''A'', ''B'', ''C'', ''D''}"
  by (auto simp: extract_multiple_choice_def Let_def choice_letter_def split: option.splits
      dest!: match_letters search_letters)

lemma strip_prefix: "p \<noteq> [] \<Longrightarrow> \<not> is_space (hd p) \<Longrightarrow> \<not> is_space (last p) \<Longrightarrow> str_strip (p @ rest) = p @ str_rstrip rest"
proof -
  assume p: "p \<noteq> []" "\<not> is_space (hd p)" "\<not> is_space (last p)"
  have "str_rstrip p = p" using p by (cases p rule: rev_cases) (simp_all add: str_rstrip_def)
  moreover have "str_lstrip (p @ rest) = p @ rest" using p by (cases p) (simp_all add: str_lstrip_def)
  ultimately show ?thesis by (simp add: str_strip_def str_rstrip_append)
qed

lemma letter_cases: "choice_letter l \<Longrightarrow> l = CHR ''A'' \<or> l = CHR ''B'' \<or> l = CHR ''C'' \<or> l = CHR ''D''"
  by (auto simp: choice_letter_def)

lemmas extract_simps = extract_multiple_choice_def match_leading_def match_answer_def match_is_def match_alone_def choice_letter_def
  upper_char_def str_lower_def lower_char_def is_space_def at_boundary_def is_word_char_def str_strip_def str_lstrip_def str_rstrip_def
  Let_def char_of_def bit_0 bit_numeral_rec

lemma extract_answer_prefix:
  assumes "choice_letter l" shows "extract_multiple_choice (''Answer: '' @ [l] @ rest) = [l]"
proof -
  have "str_strip ((''Answer: '' @ [l]) @ rest) = (''Answer: '' @ [l]) @ str_rstrip rest"
    by (rule strip_prefix) (use letter_cases [OF assms] in \<open>auto simp: is_space_def\<close>)
  then have s: "str_strip (''Answer: '' @ [l] @ rest) = ''Answer: '' @ [l] @ str_rstrip rest" by simp
  show ?thesis
    unfolding extract_multiple_choice_def s using letter_cases [OF assms]
    by (elim disjE) (simp_all add: match_leading_def match_answer_def choice_letter_def upper_char_def str_lower_def lower_char_def
        is_space_def Let_def char_of_def bit_0 bit_numeral_rec)
qed

lemma extract_short:
  assumes "choice_letter l"
  shows "extract_multiple_choice [l] = [l]" "extract_multiple_choice (l # ''.'') = [l]"
    "extract_multiple_choice (''The answer is '' @ [l] @ ''.'') = [l]" "extract_multiple_choice (''The answer is ('' @ [l] @ '')'') = [l]"
  using letter_cases [OF assms] by (elim disjE; simp add: extract_simps)+

text \<open>A word after \<open>answer:\<close> that begins with one of the letters is taken for the choice.\<close>

lemma extract_misread: "extract_multiple_choice (''My answer: definitely '' @ rest) = ''D''"
proof -
  have "str_strip (''My answer: definitely'' @ (CHR '' '' # rest)) = ''My answer: definitely'' @ str_rstrip (CHR '' '' # rest)"
    by (rule strip_prefix) (auto simp: is_space_def)
  then have s: "str_strip (''My answer: definitely '' @ rest) = ''My answer: definitely'' @ str_rstrip (CHR '' '' # rest)" by simp
  show ?thesis
    unfolding extract_multiple_choice_def s
    by (simp add: match_leading_def match_answer_def choice_letter_def upper_char_def str_lower_def lower_char_def
        is_space_def Let_def char_of_def bit_0 bit_numeral_rec)
qed

section \<open>Prompts\<close>

definition with_answer :: "nat \<Rightarrow> string \<Rightarrow> task \<Rightarrow> task" where
  "with_answer i a task = task\<lparr>tk_examples := map (\<lambda>e. if te_id e = i then e\<lparr>te_answer := a\<rparr> else e) (tk_examples task)\<rparr>"

lemma build_prompt_blind:
  "fewshot_prompt (with_answer (te_id ex) a task) (ex\<lparr>te_answer := a\<rparr>) n = fewshot_prompt task ex n"
proof -
  have "demonstrations (with_answer (te_id ex) a task) (ex\<lparr>te_answer := a\<rparr>) n = demonstrations task ex n"
  proof -
    have "filter (\<lambda>e. te_id e \<noteq> te_id ex) (map (\<lambda>e. if te_id e = te_id ex then e\<lparr>te_answer := a\<rparr> else e) es)
        = filter (\<lambda>e. te_id e \<noteq> te_id ex) es" for es :: "task_example list"
      by (induction es) auto
    then show ?thesis by (simp add: demonstrations_def with_answer_def)
  qed
  moreover have "tk_metric (with_answer (te_id ex) a task) = tk_metric task" by (simp add: with_answer_def)
  moreover have "format_mc_example (ex\<lparr>te_answer := a\<rparr>) False = format_mc_example ex False"
    "format_em_example (ex\<lparr>te_answer := a\<rparr>) False = format_em_example ex False"
    by (simp_all add: format_mc_example_def format_em_example_def split: option.split)
  ultimately show ?thesis by (simp add: fewshot_prompt_def Let_def)
qed

lemma demonstrations_within:
  assumes "0 \<le> n"
  shows "length (demonstrations task ex n) \<le> nat n" "te_id ex \<notin> te_id ` set (demonstrations task ex n)"
    "subseq (demonstrations task ex n) (tk_examples task)"
proof -
  let ?d = "take (nat n) (filter (\<lambda>e. te_id e \<noteq> te_id ex) (tk_examples task))"
  have d: "demonstrations task ex n = ?d" using assms by (simp add: demonstrations_def take_int_def)
  show "length (demonstrations task ex n) \<le> nat n" by (simp add: d)
  show "te_id ex \<notin> te_id ` set (demonstrations task ex n)" unfolding d by (auto dest!: in_set_takeD)
  have "subseq ?d (filter (\<lambda>e. te_id e \<noteq> te_id ex) (tk_examples task))" by (metis append_take_drop_id list_emb_append2 subseq_append' subseq_rev_drop_many take_drop subseq_drop_many order.refl sublist_take sublist_imp_subseq)
  moreover have "subseq (filter (\<lambda>e. te_id e \<noteq> te_id ex) (tk_examples task)) (tk_examples task)" by (rule subseq_filter_left)
  ultimately show "subseq (demonstrations task ex n) (tk_examples task)" unfolding d by (rule subseq_order.order_trans)
qed

section \<open>Figures\<close>

lemma accuracy_bounds: "0 \<le> accuracy_of rs" "accuracy_of rs \<le> 1"
  using length_filter_le [of xr_correct rs] by (auto simp: accuracy_of_def divide_le_eq_1)

lemma build_prompt_total:
  assumes "tk_metric task = ''exact_match'' \<or> (tk_metric task = ''multiple_choice'' \<and> (\<forall>e\<in>set (tk_examples task). te_choices e \<noteq> None))"
    and "ex \<in> set (tk_examples task)"
  shows "\<exists>p. fewshot_prompt task ex n = Inr p"
proof -
  have dem: "set (demonstrations task ex n) \<subseteq> set (tk_examples task)"
    by (auto simp: demonstrations_def take_int_def dest!: in_set_takeD)
  have "\<exists>ps. rmap_list (\<lambda>d. format_em_example d True) (demonstrations task ex n) = Inr ps"
    by (rule rmap_list_total) (simp add: format_em_example_def)
  moreover have "tk_metric task = ''multiple_choice'' \<Longrightarrow> \<exists>ps. rmap_list (\<lambda>d. format_mc_example d True) (demonstrations task ex n) = Inr ps"
    by (rule rmap_list_total) (use assms(1) dem in \<open>auto simp: format_mc_example_def split: option.splits\<close>)
  moreover have "tk_metric task = ''multiple_choice'' \<Longrightarrow> \<exists>p. format_mc_example ex False = Inr p"
    using assms by (auto simp: format_mc_example_def split: option.splits)
  moreover have "\<exists>p. format_em_example ex False = Inr p" by (simp add: format_em_example_def)
  ultimately show ?thesis using assms(1) by (auto simp: fewshot_prompt_def Let_def)
qed

text \<open>An evaluation fails only with a prompt that cannot be built or a model that raises; each result is that of its
  example.\<close>

lemma evaluate_example_total:
  assumes "\<exists>p. fewshot_prompt task ex n = Inr p" "\<And>p. \<exists>c. model_fn p = Inr c"
    and "tk_metric task = ''multiple_choice'' \<or> tk_metric task = ''exact_match''"
  shows "\<exists>r. evaluate_example model_fn task n ex = Inr r"
proof -
  obtain p where p: "fewshot_prompt task ex n = Inr p" using assms(1) by blast
  obtain c where "model_fn p = Inr c" using assms(2) by blast
  with p assms(3) show ?thesis by (auto simp: evaluate_example_def Let_def)
qed

lemma fewshot_evaluate_total:
  assumes "tk_metric task = ''exact_match'' \<or> (tk_metric task = ''multiple_choice'' \<and> (\<forall>e\<in>set (tk_examples task). te_choices e \<noteq> None))"
    and "\<And>p. \<exists>c. model_fn p = Inr c"
  shows "\<exists>r. fewshot_evaluate model_fn task n = Inr r"
proof -
  have "\<exists>rs. rmap_list (evaluate_example model_fn task n) (tk_examples task) = Inr rs"
    by (rule rmap_list_total, rule evaluate_example_total)
      (use assms build_prompt_total in blast)+
  then show ?thesis by (auto simp: fewshot_evaluate_def)
qed

lemma fewshot_evaluate_figures:
  assumes "fewshot_evaluate model_fn task n = Inr r"
  shows "fr_num_total r = length (tk_examples task)" "fr_num_correct r \<le> fr_num_total r" "0 \<le> fr_accuracy r" "fr_accuracy r \<le> 1"
    "fr_accuracy r * real (fr_num_total r) = real (fr_num_correct r)" "fr_task_name r = tk_name task" "fr_n_shot r = n"
    "fr_num_correct r = length (filter id (map xr_correct (fr_examples r)))" "length (fr_examples r) = fr_num_total r"
    "fr_accuracy r = accuracy_of (fr_examples r)"
proof -
  obtain rs where rs: "rmap_list (evaluate_example model_fn task n) (tk_examples task) = Inr rs"
    and r: "r = \<lparr>fr_task_name = tk_name task, fr_n_shot = n, fr_accuracy = accuracy_of rs,
      fr_num_correct = length (filter xr_correct rs), fr_num_total = length rs, fr_examples = rs\<rparr>"
    using assms by (auto simp: fewshot_evaluate_def result_simps)
  show "fr_num_total r = length (tk_examples task)" using rmap_list_length [OF rs] by (simp add: r)
  show "fr_num_correct r \<le> fr_num_total r" "0 \<le> fr_accuracy r" "fr_accuracy r \<le> 1" "fr_task_name r = tk_name task" "fr_n_shot r = n"
    "length (fr_examples r) = fr_num_total r" "fr_accuracy r = accuracy_of (fr_examples r)"
    by (simp_all add: r accuracy_bounds)
  show "fr_accuracy r * real (fr_num_total r) = real (fr_num_correct r)" by (simp add: r accuracy_of_def)
  show "fr_num_correct r = length (filter id (map xr_correct (fr_examples r)))" by (simp add: r filter_map comp_def)
qed

text \<open>Which examples count as correct.\<close>

lemma evaluate_example_correct:
  assumes "evaluate_example model_fn task n ex = Inr r"
  shows "\<exists>p c. fewshot_prompt task ex n = Inr p \<and> model_fn p = Inr c \<and>
    xr_correct r = (if tk_metric task = ''multiple_choice'' then extract_multiple_choice c = te_answer ex
                    else content_words c = content_words (te_answer ex))"
proof -
  have inj: "normalize_string a = normalize_string b \<longleftrightarrow> content_words a = content_words b" for a b
    unfolding normalize_is_words by (metis content_words_def split_join split_words_spaceless)
  obtain p c where "fewshot_prompt task ex n = Inr p" "model_fn p = Inr c"
    using assms by (auto simp: evaluate_example_def result_simps)
  then show ?thesis using assms by (auto simp: evaluate_example_def Let_def inj split: if_splits)
qed

end
