(* ===== verification/EvalContam.thy ===== *)
theory EvalContam
  imports EvalFewshotLaws
begin

text \<open>
  Contamination detection and bootstrap statistics (\<open>labs/llm-eval/src/v2_contamination.py\<close>) and the harness that
  combines them with the few-shot evaluation (\<open>harness.py\<close>). The resamples of \<open>rng.choice\<close> are the parameter
  \<open>draws\<close>, the indices drawn in each round; \<open>numpy.percentile\<close> is a parameter; the mean of no numbers is NaN, here
  \<open>None\<close>. Accuracies are reals.
\<close>

section \<open>Contamination\<close>

definition make_ngrams :: "string \<Rightarrow> nat \<Rightarrow> string list set" where
  "make_ngrams text n =
     (let ws = split_words (str_lower text)
      in if length ws < n then (if ws \<noteq> [] then {ws} else {})
         else set (map (\<lambda>i. take n (drop i ws)) [0..<length ws - n + 1]))"

definition ngram_size :: nat where
  "ngram_size = 13"

record detector =
  cd_training_ngrams :: "string list set"
  cd_training_texts :: "string list"

definition new_detector :: detector where
  "new_detector = \<lparr>cd_training_ngrams = {}, cd_training_texts = []\<rparr>"

definition padded :: "string list \<Rightarrow> string" where
  "padded ws = '' '' @ str_join '' '' ws @ '' ''"

definition add_training_text :: "detector \<Rightarrow> string \<Rightarrow> detector" where
  "add_training_text d text =
     d\<lparr>cd_training_ngrams := cd_training_ngrams d \<union> make_ngrams text ngram_size,
       cd_training_texts := cd_training_texts d @ [padded (split_words (str_lower text))]\<rparr>"

definition add_training_shard :: "detector \<Rightarrow> string list \<Rightarrow> detector" where
  "add_training_shard d texts = foldl add_training_text d texts"

definition check_contamination :: "detector \<Rightarrow> string \<Rightarrow> real" where
  "check_contamination d example_text =
     (let ws = split_words (str_lower example_text)
      in if 0 < length ws \<and> length ws < ngram_size
         then (if \<exists>t\<in>set (cd_training_texts d). is_substring (padded ws) t then 1 else 0)
         else let example_ngrams = make_ngrams example_text ngram_size
              in if example_ngrams = {} then 0
                 else real (card (example_ngrams \<inter> cd_training_ngrams d)) / real (card example_ngrams))"

definition is_contaminated :: "detector \<Rightarrow> string \<Rightarrow> bool" where
  "is_contaminated d example_text \<longleftrightarrow> 1 / 10 < check_contamination d example_text"

definition example_text_of :: "task_example \<Rightarrow> string" where
  "example_text_of ex =
     (case te_choices ex of
        Some choices \<Rightarrow> te_question ex @ '' '' @ str_join '' '' choices @ '' '' @ te_answer ex
      | None \<Rightarrow> te_question ex @ '' '' @ te_answer ex)"

definition filter_step :: "detector \<Rightarrow> task_example list \<times> nat \<Rightarrow> task_example \<Rightarrow> task_example list \<times> nat" where
  "filter_step d = (\<lambda>(clean_examples, removed) ex.
     if is_contaminated d (example_text_of ex) then (clean_examples, removed + 1) else (clean_examples @ [ex], removed))"

definition filter_task :: "detector \<Rightarrow> task \<Rightarrow> task \<times> nat" where
  "filter_task d task =
     (let (clean_examples, removed) = foldl (filter_step d) ([], 0) (tk_examples task)
      in (\<lparr>tk_name = tk_name task, tk_metric = tk_metric task, tk_examples = clean_examples\<rparr>, removed))"

section \<open>Bootstrap\<close>

record bootstrap_interval =
  bc_lower :: real
  bc_upper :: real
  bc_mean :: real
  bc_confidence :: real
  bc_n_bootstrap :: nat
  bc_n_samples :: nat

type_synonym draws = "nat \<Rightarrow> nat list"

definition as_floats :: "bool list \<Rightarrow> real list" where
  "as_floats results = map of_bool results"

definition np_mean :: "real list \<Rightarrow> real" where
  "np_mean xs = sum_list xs / real (length xs)"

definition bootstrap_ci :: "(real list \<Rightarrow> real \<Rightarrow> real) \<Rightarrow> draws \<Rightarrow> bool list \<Rightarrow> nat \<Rightarrow> real \<Rightarrow> bootstrap_interval" where
  "bootstrap_ci percentile draws results n_bootstrap confidence =
     (let arr = as_floats results; n = length arr
      in if n = 0
         then \<lparr>bc_lower = 0, bc_upper = 0, bc_mean = 0, bc_confidence = confidence, bc_n_bootstrap = n_bootstrap, bc_n_samples = 0\<rparr>
         else let boot_means = map (\<lambda>i. np_mean (map (\<lambda>j. arr ! j) (draws i))) [0..<n_bootstrap];
                  alpha = 1 - confidence;
                  lower = percentile boot_means (100 * (alpha / 2));
                  upper = percentile boot_means (100 * (1 - alpha / 2))
              in \<lparr>bc_lower = max 0 lower, bc_upper = min 1 upper, bc_mean = np_mean arr, bc_confidence = confidence,
                  bc_n_bootstrap = n_bootstrap, bc_n_samples = n\<rparr>)"

text \<open>The difference of two means, which is NaN when there are no samples; a comparison with NaN is false.\<close>

definition nan_mean :: "real list \<Rightarrow> real option" where
  "nan_mean xs = (if xs = [] then None else Some (np_mean xs))"

definition delta_leq_zero :: "real list \<Rightarrow> real list \<Rightarrow> bool" where
  "delta_leq_zero a b =
     (case (nan_mean a, nan_mean b) of
        (Some ma, Some mb) \<Rightarrow> ma - mb \<le> 0
      | _ \<Rightarrow> False)"

definition paired_bootstrap_test :: "draws \<Rightarrow> bool list \<Rightarrow> bool list \<Rightarrow> nat \<Rightarrow> real result" where
  "paired_bootstrap_test draws results_A results_B n_bootstrap =
     (if length results_A \<noteq> length results_B
      then Inl (ValueError (''results_A and results_B must have the same length. Got '' @ nat_str (length results_A) @ '' and ''
              @ nat_str (length results_B) @ ''.''))
      else let arr_A = as_floats results_A; arr_B = as_floats results_B;
               count_leq_zero = length (filter (\<lambda>i. delta_leq_zero (map (\<lambda>j. arr_A ! j) (draws i)) (map (\<lambda>j. arr_B ! j) (draws i)))
                                  [0..<n_bootstrap])
           in if n_bootstrap = 0 then Inl (OtherError ''ZeroDivisionError: division by zero'')
              else Inr (real count_leq_zero / real n_bootstrap))"

section \<open>The harness\<close>

record eval_report =
  ep_task :: string
  ep_n_shot :: int
  ep_accuracy :: real
  ep_ci_95 :: "real \<times> real"
  ep_contaminated :: nat
  ep_total :: nat

definition ep_clean :: "eval_report \<Rightarrow> int" where
  "ep_clean r = int (ep_total r) - int (ep_contaminated r)"

record harness =
  hn_detector :: "detector option"
  hn_n_bootstrap :: nat
  hn_confidence :: real

definition harness_run :: "(real list \<Rightarrow> real \<Rightarrow> real) \<Rightarrow> draws \<Rightarrow> harness \<Rightarrow> (string \<Rightarrow> string result) \<Rightarrow> task \<Rightarrow> int \<Rightarrow> eval_report result" where
  "harness_run percentile draws h model_fn task n_shot =
     (let (task', contaminated_count) = (case hn_detector h of None \<Rightarrow> (task, 0) | Some d \<Rightarrow> filter_task d task)
      in rmap (\<lambda>result.
           let ci = bootstrap_ci percentile draws (map xr_correct (fr_examples result)) (hn_n_bootstrap h) (hn_confidence h)
           in \<lparr>ep_task = fr_task_name result, ep_n_shot = n_shot, ep_accuracy = fr_accuracy result, ep_ci_95 = (bc_lower ci, bc_upper ci),
               ep_contaminated = contaminated_count, ep_total = fr_num_total result + contaminated_count\<rparr>)
           (fewshot_evaluate model_fn task' n_shot))"

end
