(* ===== verification/EvalServer.thy ===== *)
theory EvalServer
  imports EvalContam
begin

text \<open>
  Contamination as a relation between word sequences: the search for a padded word string is the search for a
  contiguous word sequence, and the n-grams of a text are its word sequences of length n. Bounds of the bootstrap
  figures, and the harness over a filtered task.
\<close>

section \<open>Word sequences in padded strings\<close>

definition body :: "string list \<Rightarrow> string" where
  "body ws = concat (map (\<lambda>w. w @ '' '') ws)"

lemma body_simps [simp]: "body [] = []" "body (w # ws) = w @ CHR '' '' # body ws" "body (a @ b) = body a @ body b"
  by (simp_all add: body_def)

lemma padded_body: "ws \<noteq> [] \<Longrightarrow> padded ws = CHR '' '' # body ws"
proof -
  have "ws \<noteq> [] \<Longrightarrow> str_join '' '' ws @ '' '' = body ws"
    by (induction ws) (auto simp: str_join_step)
  then show "ws \<noteq> [] \<Longrightarrow> padded ws = CHR '' '' # body ws" by (simp add: padded_def)
qed

lemma spaceless_no_space: "spaceless w \<Longrightarrow> CHR '' '' \<notin> set w"
  by (auto simp: spaceless_def list_all_iff)

lemma word_split:
  assumes "spaceless w" "spaceless x" "w @ CHR '' '' # a = x @ CHR '' '' # b" shows "w = x \<and> a = b"
proof -
  have tw: "takeWhile (\<lambda>c. c \<noteq> CHR '' '') (u @ CHR '' '' # r) = u" if "CHR '' '' \<notin> set u" for u r
    using that by (induction u) auto
  have "w = x" using tw [of w a] tw [of x b] assms(3) spaceless_no_space [OF assms(1)] spaceless_no_space [OF assms(2)] by simp
  then show ?thesis using assms(3) by simp
qed

lemma body_prefix: "list_all spaceless ws \<Longrightarrow> list_all spaceless vs \<Longrightarrow> body ws @ v = body vs \<Longrightarrow> prefix ws vs"
proof (induction ws arbitrary: vs)
  case (Cons w ws)
  obtain x xs where vs: "vs = x # xs" using Cons.prems(3) by (cases vs) auto
  have "w = x \<and> body ws @ v = body xs" by (rule word_split) (use Cons.prems vs in simp_all)
  with Cons vs show ?case by simp
qed simp

lemma body_sublist:
  "list_all spaceless ws \<Longrightarrow> list_all spaceless vs \<Longrightarrow> ws \<noteq> [] \<Longrightarrow> u @ CHR '' '' # body ws @ v = CHR '' '' # body vs \<Longrightarrow> sublist ws vs"
proof (induction vs arbitrary: u)
  case Nil
  then show ?case by (cases u; cases ws) auto
next
  case (Cons x xs)
  show ?case
  proof (cases u)
    case Nil
    then have "body ws @ v = body (x # xs)" using Cons.prems(4) by simp
    from body_prefix [OF Cons.prems(1,2) this] show ?thesis by (rule prefix_imp_sublist)
  next
    case (Cons c u')
    then have e: "u' @ CHR '' '' # body ws @ v = x @ CHR '' '' # body xs" using Cons.prems(4) by simp
    have IH: "sublist ws xs" if "us @ CHR '' '' # body ws @ v = CHR '' '' # body xs" for us
      using Cons.IH [OF Cons.prems(1) _ Cons.prems(3) that] Cons.prems(2) by simp
    from e consider us where "u' = x @ us" "us @ CHR '' '' # body ws @ v = CHR '' '' # body xs"
      | us where "u' @ us = x" "CHR '' '' # body ws @ v = us @ CHR '' '' # body xs"
      by (auto simp: append_eq_append_conv2)
    then have "sublist ws xs"
    proof cases
      case (2 us)
      have "us = []"
      proof (rule ccontr)
        assume "us \<noteq> []"
        then have "CHR '' '' \<in> set x" using 2 by (cases us) auto
        then show False using spaceless_no_space [of x] Cons.prems(2) by simp
      qed
      then show ?thesis using IH [of "[]"] 2 by simp
    qed (rule IH)
    then show ?thesis by (rule sublist_Cons_right [THEN iffD2, OF disjI2])
  qed
qed

lemma padded_substring:
  assumes "list_all spaceless ws" "list_all spaceless vs" "ws \<noteq> []"
  shows "is_substring (padded ws) (padded vs) \<longleftrightarrow> sublist ws vs"
proof
  assume "is_substring (padded ws) (padded vs)"
  then obtain u v where e: "padded vs = u @ padded ws @ v" unfolding is_substring_iff by blast
  show "sublist ws vs"
  proof (cases vs)
    case Nil
    obtain w ws' where w: "ws = w # ws'" using assms(3) by (cases ws) auto
    have "set w \<subseteq> set (padded vs)" unfolding e padded_body [OF assms(3)] unfolding w by auto
    then have "set w \<subseteq> {CHR '' ''}" by (simp add: Nil padded_def)
    moreover have "w \<noteq> []" "CHR '' '' \<notin> set w" using assms(1) w spaceless_no_space by (auto simp: spaceless_def)
    ultimately show ?thesis by (cases w) auto
  next
    case (Cons x xs)
    have "u @ CHR '' '' # body ws @ v = CHR '' '' # body vs" using e padded_body [OF assms(3)] padded_body [of vs] Cons by simp
    then show ?thesis by (rule body_sublist [OF assms])
  qed
next
  assume "sublist ws vs"
  then obtain ps ss where vs: "vs = ps @ ws @ ss" by (auto simp: sublist_def)
  obtain u where u: "CHR '' '' # body ps = u @ '' ''" by (cases ps rule: rev_cases) auto
  have "padded vs = (CHR '' '' # body ps) @ body ws @ body ss" using padded_body [of vs] vs assms(3) by simp
  also have "\<dots> = u @ padded ws @ body ss" unfolding u padded_body [OF assms(3)] by simp
  finally show "is_substring (padded ws) (padded vs)" unfolding is_substring_iff by blast
qed

section \<open>N-grams\<close>

lemma ngrams_sublists:
  assumes "n \<le> length (split_words (str_lower text))"
  shows "make_ngrams text n = {g. sublist g (split_words (str_lower text)) \<and> length g = n}"
proof -
  let ?ws = "split_words (str_lower text)"
  have "make_ngrams text n = (\<lambda>i. take n (drop i ?ws)) ` {0..<length ?ws - n + 1}"
    using assms unfolding make_ngrams_def Let_def by (simp only: if_False not_less [symmetric] not_not set_map set_upt)
  also have "\<dots> = {g. sublist g ?ws \<and> length g = n}"
  proof (intro equalityI subsetI)
    fix g assume "g \<in> (\<lambda>i. take n (drop i ?ws)) ` {0..<length ?ws - n + 1}"
    then obtain i where i: "i < length ?ws - n + 1" "g = take n (drop i ?ws)" unfolding image_iff by auto
    then have "i + n \<le> length ?ws" using assms by linarith
    then have "length g = n" using i(2) by simp
    moreover have "sublist g ?ws" unfolding i(2) by (meson sublist_drop sublist_take sublist_order.order_trans)
    ultimately show "g \<in> {g. sublist g ?ws \<and> length g = n}" by simp
  next
    fix g assume "g \<in> {g. sublist g ?ws \<and> length g = n}"
    then obtain ps ss where g: "?ws = ps @ g @ ss" "length g = n" by (auto simp: sublist_def)
    then have "g = take n (drop (length ps) ?ws)" "length ps \<in> {0..<length ?ws - n + 1}" by simp_all
    then show "g \<in> (\<lambda>i. take n (drop i ?ws)) ` {0..<length ?ws - n + 1}" by (rule image_eqI)
  qed
  finally show ?thesis .
qed

lemma ngrams_finite: "finite (make_ngrams text n)"
  by (simp add: make_ngrams_def Let_def)

section \<open>The detector\<close>

abbreviation words_of_text :: "string \<Rightarrow> string list" where
  "words_of_text text \<equiv> split_words (str_lower text)"

lemma shard_fields:
  "cd_training_texts (add_training_shard d ts) = cd_training_texts d @ map (padded \<circ> words_of_text) ts"
  "cd_training_ngrams (add_training_shard d ts) = cd_training_ngrams d \<union> (\<Union>t\<in>set ts. make_ngrams t ngram_size)"
  by (induction ts arbitrary: d) (auto simp: add_training_shard_def add_training_text_def)

lemma shards_append: "add_training_shard (add_training_shard d xs) ys = add_training_shard d (xs @ ys)"
  by (simp add: add_training_shard_def)

definition trained :: "string list \<Rightarrow> detector" where
  "trained ts = add_training_shard new_detector ts"

lemma trained_fields:
  "cd_training_texts (trained ts) = map (padded \<circ> words_of_text) ts"
  "cd_training_ngrams (trained ts) = (\<Union>t\<in>set ts. make_ngrams t ngram_size)"
  by (simp_all add: trained_def shard_fields new_detector_def)

text \<open>A short example counts as contaminated when its words stand together in a training text.\<close>

lemma check_short:
  assumes "0 < length (words_of_text ex)" "length (words_of_text ex) < ngram_size"
  shows "check_contamination (trained ts) ex = (if \<exists>t\<in>set ts. sublist (words_of_text ex) (words_of_text t) then 1 else 0)"
proof -
  have "is_substring (padded (words_of_text ex)) (padded (words_of_text t)) \<longleftrightarrow> sublist (words_of_text ex) (words_of_text t)" for t
    by (rule padded_substring) (use assms split_words_spaceless in auto)
  then show ?thesis using assms by (auto simp: check_contamination_def Let_def trained_fields)
qed

lemma check_long:
  assumes "ngram_size \<le> length (words_of_text ex)"
  shows "check_contamination (trained ts) ex =
    real (card {g. sublist g (words_of_text ex) \<and> length g = ngram_size \<and> (\<exists>t\<in>set ts. g \<in> make_ngrams t ngram_size)})
      / real (card {g. sublist g (words_of_text ex) \<and> length g = ngram_size})"
    "{g. sublist g (words_of_text ex) \<and> length g = ngram_size} \<noteq> {}"
proof -
  note g = ngrams_sublists [OF assms]
  show ne: "{g. sublist g (words_of_text ex) \<and> length g = ngram_size} \<noteq> {}"
    using assms by (auto intro!: exI [of _ "take ngram_size (words_of_text ex)"])
  have "make_ngrams ex ngram_size \<inter> cd_training_ngrams (trained ts)
      = {g. sublist g (words_of_text ex) \<and> length g = ngram_size \<and> (\<exists>t\<in>set ts. g \<in> make_ngrams t ngram_size)}"
    unfolding g trained_fields by auto
  then show "check_contamination (trained ts) ex =
    real (card {g. sublist g (words_of_text ex) \<and> length g = ngram_size \<and> (\<exists>t\<in>set ts. g \<in> make_ngrams t ngram_size)})
      / real (card {g. sublist g (words_of_text ex) \<and> length g = ngram_size})"
    using assms ne unfolding check_contamination_def Let_def g by (simp only: if_False if_True not_less [symmetric] simp_thms)
qed

lemma check_bounds: "0 \<le> check_contamination d ex" "check_contamination d ex \<le> 1"
proof -
  have "card (make_ngrams ex ngram_size \<inter> cd_training_ngrams d) \<le> card (make_ngrams ex ngram_size)"
    by (rule card_mono [OF ngrams_finite]) simp
  then show "0 \<le> check_contamination d ex" "check_contamination d ex \<le> 1"
    by (auto simp: check_contamination_def Let_def divide_le_eq_1)
qed

lemma check_verbatim:
  assumes "t \<in> set ts" "words_of_text ex \<noteq> []" "sublist (words_of_text ex) (words_of_text t)"
  shows "check_contamination (trained ts) ex = 1"
proof (cases "length (words_of_text ex) < ngram_size")
  case True
  with check_short [of ex ts] assms show ?thesis by auto
next
  case False
  then have le: "ngram_size \<le> length (words_of_text ex)" by simp
  then have "ngram_size \<le> length (words_of_text t)" using sublist_length_le [OF assms(3)] by simp
  note gt = ngrams_sublists [OF this]
  have "{g. sublist g (words_of_text ex) \<and> length g = ngram_size \<and> (\<exists>t\<in>set ts. g \<in> make_ngrams t ngram_size)}
      = {g. sublist g (words_of_text ex) \<and> length g = ngram_size}"
    using assms(1) sublist_order.order_trans [OF _ assms(3)] by (auto simp: gt intro!: bexI [of _ t])
  moreover have "finite {g. sublist g (words_of_text ex) \<and> length g = ngram_size}"
    using ngrams_finite [of ex ngram_size] unfolding ngrams_sublists [OF le] .
  ultimately show ?thesis using check_long(2) [OF le] unfolding check_long(1) [OF le] by simp
qed

lemma check_clean:
  assumes "ngram_size \<le> length (words_of_text ex)" "\<And>g t. sublist g (words_of_text ex) \<Longrightarrow> length g = ngram_size \<Longrightarrow> t \<in> set ts \<Longrightarrow> \<not> sublist g (words_of_text t)"
  shows "check_contamination (trained ts) ex = 0"
proof -
  have "g \<notin> make_ngrams t ngram_size" if "sublist g (words_of_text ex)" "length g = ngram_size" "t \<in> set ts" for g t
  proof (cases "ngram_size \<le> length (words_of_text t)")
    case True
    then show ?thesis using assms(2) [OF that] ngrams_sublists [OF True] by simp
  qed (use that(2) in \<open>auto simp: make_ngrams_def Let_def\<close>)
  then have "{g. sublist g (words_of_text ex) \<and> length g = ngram_size \<and> (\<exists>t\<in>set ts. g \<in> make_ngrams t ngram_size)} = {}" by auto
  then show ?thesis unfolding check_long(1) [OF assms(1)] by (simp only: card.empty of_nat_0 div_0)
qed

section \<open>Filtering\<close>

lemma filter_task_spec:
  "filter_task d task = (task\<lparr>tk_examples := filter (\<lambda>ex. \<not> is_contaminated d (example_text_of ex)) (tk_examples task)\<rparr>,
     length (filter (\<lambda>ex. is_contaminated d (example_text_of ex)) (tk_examples task)))"
proof -
  have "foldl (filter_step d) (c, n) exs = (c @ filter (\<lambda>ex. \<not> is_contaminated d (example_text_of ex)) exs,
      n + length (filter (\<lambda>ex. is_contaminated d (example_text_of ex)) exs))" for c n exs
    by (induction exs arbitrary: c n) (auto simp: filter_step_def)
  then show ?thesis by (simp add: filter_task_def)
qed

section \<open>Bootstrap\<close>

text \<open>The documented behaviour of \<open>numpy.percentile\<close>: within the range of the data, and growing with the rank.\<close>

definition percentile_ok :: "(real list \<Rightarrow> real \<Rightarrow> real) \<Rightarrow> bool" where
  "percentile_ok percentile \<longleftrightarrow>
     (\<forall>xs q. xs \<noteq> [] \<longrightarrow> 0 \<le> q \<longrightarrow> q \<le> 100 \<longrightarrow> Min (set xs) \<le> percentile xs q \<and> percentile xs q \<le> Max (set xs)) \<and>
     (\<forall>xs q r. xs \<noteq> [] \<longrightarrow> 0 \<le> q \<longrightarrow> q \<le> r \<longrightarrow> r \<le> 100 \<longrightarrow> percentile xs q \<le> percentile xs r)"

definition draws_ok :: "draws \<Rightarrow> nat \<Rightarrow> nat \<Rightarrow> bool" where
  "draws_ok draws n rounds \<longleftrightarrow> (\<forall>i<rounds. length (draws i) = n \<and> set (draws i) \<subseteq> {..<n})"

lemma np_mean_bounds:
  assumes "xs \<noteq> []" "\<And>x. x \<in> set xs \<Longrightarrow> a \<le> x \<and> x \<le> b" shows "a \<le> np_mean xs \<and> np_mean xs \<le> b"
proof -
  have "real (length xs) * a \<le> sum_list xs \<and> sum_list xs \<le> real (length xs) * b"
    using assms(2) by (induction xs) (auto simp: algebra_simps intro: add_mono)
  moreover have "0 < real (length xs)" using assms(1) by simp
  ultimately show ?thesis by (simp add: np_mean_def field_simps)
qed

lemma boot_means_bounds:
  assumes "draws_ok draws (length results) rounds" "results \<noteq> []" "m \<in> set (map (\<lambda>i. np_mean (map (\<lambda>j. as_floats results ! j) (draws i))) [0..<rounds])"
    "\<And>r. r \<in> set results \<Longrightarrow> a \<le> of_bool r \<and> of_bool r \<le> b"
  shows "a \<le> m \<and> m \<le> b"
proof -
  from assms(3) obtain i where i: "i < rounds" "m = np_mean (map (\<lambda>j. as_floats results ! j) (draws i))" by auto
  have d: "length (draws i) = length results" "set (draws i) \<subseteq> {..<length results}" using assms(1) i(1) by (simp_all add: draws_ok_def)
  show ?thesis unfolding i(2)
  proof (rule np_mean_bounds)
    show "map (\<lambda>j. as_floats results ! j) (draws i) \<noteq> []" using d(1) assms(2) by auto
    fix x assume "x \<in> set (map (\<lambda>j. as_floats results ! j) (draws i))"
    then obtain j where "j < length results" "x = of_bool (results ! j)" using d(2) by (auto simp: as_floats_def)
    then show "a \<le> x \<and> x \<le> b" using assms(4) by simp
  qed
qed

lemma percentile_within:
  assumes "percentile_ok percentile" "xs \<noteq> []" "0 \<le> q" "q \<le> 100" "\<And>x. x \<in> set xs \<Longrightarrow> a \<le> x \<and> x \<le> b"
  shows "a \<le> percentile xs q \<and> percentile xs q \<le> b"
proof -
  have "a \<le> Min (set xs)" "Max (set xs) \<le> b" using assms(2,5) by auto
  then show ?thesis using assms(1-4) unfolding percentile_ok_def by (meson order_trans)
qed

lemma bootstrap_ci_bounds:
  assumes "percentile_ok percentile" "draws_ok draws (length results) rounds" "0 < rounds" "0 \<le> confidence" "confidence \<le> 1"
  defines "ci \<equiv> bootstrap_ci percentile draws results rounds confidence"
  shows "0 \<le> bc_lower ci \<and> bc_lower ci \<le> bc_upper ci \<and> bc_upper ci \<le> 1 \<and> 0 \<le> bc_mean ci \<and> bc_mean ci \<le> 1"
proof (cases "results = []")
  case False
  let ?bm = "map (\<lambda>i. np_mean (map (\<lambda>j. as_floats results ! j) (draws i))) [0..<rounds]"
  let ?lo = "100 * ((1 - confidence) / 2)" and ?hi = "100 * (1 - (1 - confidence) / 2)"
  have ne: "?bm \<noteq> []" using assms(3) by simp
  have q: "0 \<le> ?lo" "?lo \<le> ?hi" "?hi \<le> 100" using assms(4,5) by (simp_all add: field_simps)
  have in01: "0 \<le> m \<and> m \<le> 1" if "m \<in> set ?bm" for m
    by (rule boot_means_bounds [OF assms(2) False that]) simp
  have "0 \<le> percentile ?bm ?lo \<and> percentile ?bm ?lo \<le> 1"
    by (rule percentile_within [OF assms(1) ne _ _ in01]) (use q in linarith)+
  moreover have "0 \<le> percentile ?bm ?hi \<and> percentile ?bm ?hi \<le> 1"
    by (rule percentile_within [OF assms(1) ne _ _ in01]) (use q in linarith)+
  moreover have "percentile ?bm ?lo \<le> percentile ?bm ?hi" using assms(1) ne q unfolding percentile_ok_def by blast
  moreover have "0 \<le> np_mean (as_floats results) \<and> np_mean (as_floats results) \<le> 1"
    by (rule np_mean_bounds) (use False in \<open>auto simp: as_floats_def\<close>)
  moreover have "bc_lower ci = max 0 (percentile ?bm ?lo)" "bc_upper ci = min 1 (percentile ?bm ?hi)" "bc_mean ci = np_mean (as_floats results)"
  proof -
    have "(length (as_floats results) = 0) = False" using False by (simp add: as_floats_def)
    then show "bc_lower ci = max 0 (percentile ?bm ?lo)" "bc_upper ci = min 1 (percentile ?bm ?hi)" "bc_mean ci = np_mean (as_floats results)"
      unfolding ci_def bootstrap_ci_def Let_def by (simp_all only: if_False bootstrap_interval.select_convs)
  qed
  ultimately show ?thesis by linarith
qed (simp add: ci_def bootstrap_ci_def as_floats_def)

text \<open>The paired test.\<close>

lemma paired_range:
  assumes "paired_bootstrap_test draws ra rb rounds = Inr p" shows "0 \<le> p \<and> p \<le> 1"
proof -
  let ?P = "\<lambda>i. delta_leq_zero (map (\<lambda>j. as_floats ra ! j) (draws i)) (map (\<lambda>j. as_floats rb ! j) (draws i))"
  have "length (filter ?P [0..<rounds]) \<le> rounds" using length_filter_le [of ?P "[0..<rounds]"] by simp
  then show ?thesis using assms by (auto simp: paired_bootstrap_test_def Let_def divide_le_eq_1 split: if_splits)
qed

lemma sum_list_le: "length xs = length ys \<Longrightarrow> (\<And>i. i < length xs \<Longrightarrow> xs ! i \<le> ys ! i) \<Longrightarrow> sum_list xs \<le> (sum_list ys :: real)"
  by (induction xs ys rule: list_induct2) (force intro: add_mono)+

lemma paired_dominated:
  assumes "length ra = length rb" "ra \<noteq> []" "0 < rounds" "draws_ok draws (length ra) rounds"
    and "\<And>i. i < length ra \<Longrightarrow> ra ! i \<Longrightarrow> rb ! i"
  shows "paired_bootstrap_test draws ra rb rounds = Inr 1"
proof -
  have "delta_leq_zero (map (\<lambda>j. as_floats ra ! j) (draws i)) (map (\<lambda>j. as_floats rb ! j) (draws i))" if "i < rounds" for i
  proof -
    have d: "length (draws i) = length ra" "set (draws i) \<subseteq> {..<length ra}" using assms(4) that by (simp_all add: draws_ok_def)
    have ne: "draws i \<noteq> []" using d(1) assms(2) by auto
    have "sum_list (map (\<lambda>j. as_floats ra ! j) (draws i)) \<le> sum_list (map (\<lambda>j. as_floats rb ! j) (draws i))"
    proof (rule sum_list_le)
      fix k assume "k < length (map (\<lambda>j. as_floats ra ! j) (draws i))"
      then have "draws i ! k < length ra" "k < length (draws i)" using d(2) by (auto simp: subset_iff)
      then show "map (\<lambda>j. as_floats ra ! j) (draws i) ! k \<le> map (\<lambda>j. as_floats rb ! j) (draws i) ! k"
        using assms(1,5) by (auto simp: as_floats_def of_bool_def)
    qed simp
    then show ?thesis using ne by (simp add: delta_leq_zero_def nan_mean_def np_mean_def divide_right_mono)
  qed
  then have "filter (\<lambda>i. delta_leq_zero (map (\<lambda>j. as_floats ra ! j) (draws i)) (map (\<lambda>j. as_floats rb ! j) (draws i))) [0..<rounds] = [0..<rounds]"
    by (intro filter_True) simp
  then show ?thesis using assms(1,3) by (simp add: paired_bootstrap_test_def)
qed

text \<open>Two empty result lists give the p-value 0, since no comparison with NaN holds.\<close>

lemma paired_empty: "0 < rounds \<Longrightarrow> draws_ok draws 0 rounds \<Longrightarrow> paired_bootstrap_test draws [] [] rounds = Inr 0"
proof -
  assume r: "0 < rounds" "draws_ok draws 0 rounds"
  have "filter (\<lambda>i. delta_leq_zero (map (\<lambda>j. as_floats [] ! j) (draws i)) (map (\<lambda>j. as_floats [] ! j) (draws i))) [0..<rounds] = []"
    using r(2) by (auto simp: filter_empty_conv delta_leq_zero_def nan_mean_def draws_ok_def)
  then show ?thesis using r(1) by (simp add: paired_bootstrap_test_def)
qed

section \<open>The harness\<close>

text \<open>The report is that of the evaluation of the clean examples, with the others counted.\<close>

lemma harness_report:
  assumes "harness_run percentile draws h model_fn task n = Inr r" "hn_detector h = Some d"
  defines "clean \<equiv> task\<lparr>tk_examples := filter (\<lambda>ex. \<not> is_contaminated d (example_text_of ex)) (tk_examples task)\<rparr>"
  shows "\<exists>result. fewshot_evaluate model_fn clean n = Inr result \<and> ep_accuracy r = fr_accuracy result \<and> ep_task r = tk_name task \<and>
    ep_total r = length (tk_examples task) \<and> ep_clean r = int (fr_num_total result) \<and>
    ep_contaminated r = length (filter (\<lambda>ex. is_contaminated d (example_text_of ex)) (tk_examples task)) \<and>
    ep_ci_95 r = (let ci = bootstrap_ci percentile draws (map xr_correct (fr_examples result)) (hn_n_bootstrap h) (hn_confidence h)
                  in (bc_lower ci, bc_upper ci))"
proof -
  obtain result where e: "fewshot_evaluate model_fn clean n = Inr result"
    and r: "r = (let ci = bootstrap_ci percentile draws (map xr_correct (fr_examples result)) (hn_n_bootstrap h) (hn_confidence h)
      in \<lparr>ep_task = fr_task_name result, ep_n_shot = n, ep_accuracy = fr_accuracy result, ep_ci_95 = (bc_lower ci, bc_upper ci),
          ep_contaminated = length (filter (\<lambda>ex. is_contaminated d (example_text_of ex)) (tk_examples task)),
          ep_total = fr_num_total result + length (filter (\<lambda>ex. is_contaminated d (example_text_of ex)) (tk_examples task))\<rparr>)"
    using assms(1,2) by (auto simp: harness_run_def filter_task_spec result_simps clean_def)
  note f = fewshot_evaluate_figures [OF e]
  have "fr_num_total result + length (filter (\<lambda>ex. is_contaminated d (example_text_of ex)) (tk_examples task)) = length (tk_examples task)"
    using f(1) sum_length_filter_compl [of "\<lambda>ex. is_contaminated d (example_text_of ex)" "tk_examples task"] by (simp add: clean_def)
  then show ?thesis using e f(6) by (auto simp: r Let_def ep_clean_def clean_def)
qed

text \<open>
  The built-in tasks (\<open>labs/llm-eval/src/tasks.py\<close>) and the service (\<open>server.py\<close>), whose only model answers A. The
  resamples and \<open>numpy.percentile\<close> are parameters.
\<close>

section \<open>The built-in tasks\<close>

definition example :: "nat \<Rightarrow> string \<Rightarrow> string list option \<Rightarrow> string \<Rightarrow> task_example" where
  "example i question choices answer = \<lparr>te_id = i, te_question = question, te_choices = choices, te_answer = answer\<rparr>"

definition hellaswag_lite :: task where
  "hellaswag_lite = \<lparr>tk_name = ''HellaSwag-lite'', tk_metric = ''multiple_choice'', tk_examples = [
        example 0 ''She poured water into the pot and placed it on the stove. She then''
          (Some [''A. turned on the burner and waited for the water to boil.'', ''B. placed the pot in the refrigerator.'', ''C. filled the pot with sand.'', ''D. put the pot on the floor.'']) ''A'',
        example 1 ''He laced up his running shoes and stepped outside. He then''
          (Some [''A. sat down on the couch.'', ''B. began jogging down the street.'', ''C. took off his shoes.'', ''D. cooked breakfast.'']) ''B'',
        example 2 ''The teacher wrote the problem on the blackboard. The students''
          (Some [''A. left the classroom.'', ''B. started talking loudly.'', ''C. took out their notebooks and began working.'', ''D. fell asleep.'']) ''C'',
        example 3 ''The mechanic lifted the hood of the car and inspected the engine. He noticed''
          (Some [''A. the engine was painted red.'', ''B. a loose wire near the battery.'', ''C. a bird's nest inside the engine.'', ''D. the seats were comfortable.'']) ''B'',
        example 4 ''After mixing the ingredients together, she placed the dough in a pan. She then''
          (Some [''A. put the pan in the oven to bake.'', ''B. poured the dough down the drain.'', ''C. ate the raw dough.'', ''D. put the pan in the freezer.'']) ''A'',
        example 5 ''The dog saw the ball rolling across the yard. It immediately''
          (Some [''A. fell asleep.'', ''B. chased after the ball.'', ''C. ignored it and walked away.'', ''D. started barking at the fence.'']) ''B'',
        example 6 ''He opened the book to the first page and began reading. After a few hours, he''
          (Some [''A. had read several chapters.'', ''B. turned on the television.'', ''C. went for a swim.'', ''D. cooked dinner.'']) ''A'',
        example 7 ''She noticed the plant's leaves were turning yellow. She decided to''
          (Some [''A. water it more frequently.'', ''B. throw the plant away immediately.'', ''C. paint the leaves green.'', ''D. move the plant to a dark room.'']) ''A'',
        example 8 ''The programmer found a bug in the code. She''
          (Some [''A. deleted the entire project.'', ''B. ignored it and shipped anyway.'', ''C. carefully debugged and fixed the issue.'', ''D. asked a colleague to write the code from scratch.'']) ''C'',
        example 9 ''The athlete finished the race in first place. She''
          (Some [''A. started crying and left.'', ''B. crossed the finish line and raised her arms in celebration.'', ''C. stopped before the finish line.'', ''D. ran the race again.'']) ''B'']\<rparr>"

definition triviaqa_lite :: task where
  "triviaqa_lite = \<lparr>tk_name = ''TriviaQA-lite'', tk_metric = ''exact_match'', tk_examples = [
        example 0 ''What is the capital of France?''
          None ''Paris'',
        example 1 ''How many sides does a hexagon have?''
          None ''6'',
        example 2 ''What is the chemical symbol for gold?''
          None ''Au'',
        example 3 ''Who wrote Romeo and Juliet?''
          None ''Shakespeare'',
        example 4 ''What planet is closest to the Sun?''
          None ''Mercury'',
        example 5 ''What is the boiling point of water in Celsius?''
          None ''100'',
        example 6 ''How many continents are there on Earth?''
          None ''7'',
        example 7 ''What is the largest ocean on Earth?''
          None ''Pacific'',
        example 8 ''What is the square root of 144?''
          None ''12'',
        example 9 ''In what year did World War II end?''
          None ''1945'']\<rparr>"

definition mmlu_lite_math :: task where
  "mmlu_lite_math = \<lparr>tk_name = ''MMLU-lite-math'', tk_metric = ''multiple_choice'', tk_examples = [
        example 0 ''What is 15% of 200?''
          (Some [''A. 20'', ''B. 25'', ''C. 30'', ''D. 35'']) ''C'',
        example 1 ''If x + 7 = 12, what is x?''
          (Some [''A. 3'', ''B. 4'', ''C. 5'', ''D. 6'']) ''C'',
        example 2 ''What is the area of a rectangle with length 8 and width 5?''
          (Some [''A. 13'', ''B. 26'', ''C. 40'', ''D. 80'']) ''C'',
        example 3 ''What is 2^10?''
          (Some [''A. 512'', ''B. 1024'', ''C. 2048'', ''D. 4096'']) ''B'',
        example 4 ''What is the sum of angles in a triangle?''
          (Some [''A. 90 degrees'', ''B. 180 degrees'', ''C. 270 degrees'', ''D. 360 degrees'']) ''B'',
        example 5 ''If a train travels 60 mph for 2.5 hours, how far does it go?''
          (Some [''A. 100 miles'', ''B. 120 miles'', ''C. 150 miles'', ''D. 180 miles'']) ''C'',
        example 6 ''What is log base 10 of 1000?''
          (Some [''A. 2'', ''B. 3'', ''C. 4'', ''D. 10'']) ''B'',
        example 7 ''What is 7 factorial (7!)?''
          (Some [''A. 2520'', ''B. 5040'', ''C. 720'', ''D. 40320'']) ''B'',
        example 8 ''What is the derivative of x^3?''
          (Some [''A. x^2'', ''B. 2x^2'', ''C. 3x^2'', ''D. 3x'']) ''C'',
        example 9 ''How many prime numbers are less than 20?''
          (Some [''A. 6'', ''B. 7'', ''C. 8'', ''D. 9'']) ''C'']\<rparr>"

definition all_tasks :: "(string, task) pydict" where
  "all_tasks = [(''hellaswag-lite'', hellaswag_lite), (''triviaqa-lite'', triviaqa_lite), (''mmlu-lite-math'', mmlu_lite_math)]"

section \<open>The service\<close>

definition mock_always_a :: "string \<Rightarrow> string result" where
  "mock_always_a prompt = Inr ''A''"

definition mock_models :: "(string, string \<Rightarrow> string result) pydict" where
  "mock_models = [(''mock-always-A'', mock_always_a)]"

record task_info =
  ti_name :: string
  ti_metric :: string
  ti_num_examples :: nat

definition list_tasks :: "task_info list" where
  "list_tasks = map (\<lambda>task. \<lparr>ti_name = tk_name task, ti_metric = tk_metric task, ti_num_examples = length (tk_examples task)\<rparr>) (dvals all_tasks)"

record eval_response =
  vr_task :: string
  vr_n_shot :: int
  vr_accuracy :: real
  vr_num_correct :: nat
  vr_num_total :: nat
  vr_ci_95_lower :: real
  vr_ci_95_upper :: real
  vr_model :: string

definition not_found :: "string \<Rightarrow> string \<Rightarrow> string list \<Rightarrow> string" where
  "not_found what name available =
     what @ '' '' @ py_repr (PStr name) @ '' not found. Available: '' @ py_repr (PList (map PStr available))"

definition run_eval :: "(real list \<Rightarrow> real \<Rightarrow> real) \<Rightarrow> draws \<Rightarrow> string \<Rightarrow> int \<Rightarrow> string \<Rightarrow> eval_response http" where
  "run_eval percentile draws task_name n_shot model =
     (case dget all_tasks task_name of
        None \<Rightarrow> Inl (HttpError 404 (not_found ''Task'' task_name (dkeys all_tasks)))
      | Some task \<Rightarrow>
          (case dget mock_models model of
             None \<Rightarrow> Inl (HttpError 400 (not_found ''Model'' model (dkeys mock_models)))
           | Some model_fn \<Rightarrow>
               uncaught (rmap (\<lambda>result.
                 let ci = bootstrap_ci percentile draws (map xr_correct (fr_examples result)) 1000 (95 / 100)
                 in \<lparr>vr_task = fr_task_name result, vr_n_shot = fr_n_shot result, vr_accuracy = fr_accuracy result,
                     vr_num_correct = fr_num_correct result, vr_num_total = fr_num_total result, vr_ci_95_lower = bc_lower ci,
                     vr_ci_95_upper = bc_upper ci, vr_model = model\<rparr>)
                 (fewshot_evaluate model_fn task n_shot))))"

section \<open>The tasks are well-formed\<close>

text \<open>An example of a multiple-choice task has four choices and its answer is one of their labels.\<close>

definition example_ok :: "string \<Rightarrow> task_example \<Rightarrow> bool" where
  "example_ok metric ex \<longleftrightarrow>
     (if metric = ''multiple_choice''
      then (case te_choices ex of None \<Rightarrow> False | Some cs \<Rightarrow> length cs = 4 \<and> te_answer ex \<in> {''A'', ''B'', ''C'', ''D''})
      else te_choices ex = None)"

definition task_ok :: "task \<Rightarrow> bool" where
  "task_ok task \<longleftrightarrow> tk_metric task \<in> {''multiple_choice'', ''exact_match''} \<and> length (tk_examples task) = 10 \<and>
     map te_id (tk_examples task) = [0..<10] \<and> list_all (example_ok (tk_metric task)) (tk_examples task)"

lemma hellaswag_ok: "task_ok hellaswag_lite"
  by code_simp

lemma triviaqa_ok: "task_ok triviaqa_lite"
  by code_simp

lemma mmlu_ok: "task_ok mmlu_lite_math"
  by code_simp

end
