(* ===== verification/EvalLogprob.thy ===== *)
theory EvalLogprob
  imports EvalFewshotLaws
begin

text \<open>
  Log-likelihood evaluation, \<open>labs/llm-eval/src/v1_logprob.py\<close>. A scoring function may raise; scores are reals.
  The only state is the bias cache of the calibrator, passed along. The locale \<open>scorer\<close> is what the evaluation
  relies on: a scoring function whose state never shows in its scores.
\<close>

section \<open>Scores\<close>

type_synonym logprob_fn = "string \<Rightarrow> string \<Rightarrow> real result"
type_synonym bias_cache = "(string, real) pydict"

definition score_logprob :: "logprob_fn \<Rightarrow> string \<Rightarrow> string \<Rightarrow> real result" where
  "score_logprob model_fn context_text continuation =
     rbind (model_fn context_text continuation) (\<lambda>score.
       if 0 < score then Inl (ValueError ''Log probability must be <= 0'') else Inr score)"

definition score_normalized :: "logprob_fn \<Rightarrow> string \<Rightarrow> string \<Rightarrow> real result" where
  "score_normalized model_fn context_text continuation =
     rmap (\<lambda>raw_score. raw_score / real (max 1 (length (split_words continuation)))) (score_logprob model_fn context_text continuation)"

definition get_bias :: "logprob_fn \<Rightarrow> string \<Rightarrow> bias_cache \<Rightarrow> real result \<times> bias_cache" where
  "get_bias model_fn continuation cache =
     (case dget cache continuation of
        Some b \<Rightarrow> (Inr b, cache)
      | None \<Rightarrow>
          (case model_fn [] continuation of
             Inl e \<Rightarrow> (Inl e, cache)
           | Inr b \<Rightarrow> (Inr b, dset cache continuation b)))"

definition calibrated_score :: "logprob_fn \<Rightarrow> string \<Rightarrow> string \<Rightarrow> bias_cache \<Rightarrow> real result \<times> bias_cache" where
  "calibrated_score model_fn context_text continuation cache =
     (case model_fn context_text continuation of
        Inl e \<Rightarrow> (Inl e, cache)
      | Inr raw \<Rightarrow> (let (bias, cache') = get_bias model_fn continuation cache in (rmap (\<lambda>b. raw - b) bias, cache')))"

record logprob_evaluator =
  le_mode :: string
  le_calibrator :: "logprob_fn option"

definition new_logprob_evaluator :: "string \<Rightarrow> logprob_fn option \<Rightarrow> logprob_evaluator result" where
  "new_logprob_evaluator scoring_mode calibrator =
     (if scoring_mode \<notin> {''raw'', ''normalized'', ''calibrated''}
      then Inl (ValueError (''Unknown scoring_mode: '' @ py_repr (PStr scoring_mode)))
      else Inr \<lparr>le_mode = scoring_mode, le_calibrator = calibrator\<rparr>)"

definition score_choice :: "logprob_evaluator \<Rightarrow> logprob_fn \<Rightarrow> string \<Rightarrow> string \<Rightarrow> bias_cache \<Rightarrow> real result \<times> bias_cache" where
  "score_choice ev model_fn context_text choice_text cache =
     (if le_mode ev = ''raw'' then (score_logprob model_fn context_text choice_text, cache)
      else if le_mode ev = ''normalized'' then (score_normalized model_fn context_text choice_text, cache)
      else if le_mode ev = ''calibrated''
      then (case le_calibrator ev of
              None \<Rightarrow> (Inl (ValueError (''scoring_mode='' @ py_repr (PStr ''calibrated'') @ '' requires a ContextualCalibration instance.'')), cache)
            | Some cal \<Rightarrow> calibrated_score cal context_text choice_text cache)
      else (Inl (ValueError (''Unknown scoring_mode: '' @ py_repr (PStr (le_mode ev)))), cache))"

section \<open>Evaluation\<close>

type_synonym 's scoring = "string \<Rightarrow> string \<Rightarrow> 's \<Rightarrow> real result \<times> 's"

fun score_choices :: "'s scoring \<Rightarrow> string \<Rightarrow> (string \<times> string) list \<Rightarrow> 's \<Rightarrow> (string \<times> real) list result \<times> 's" where
  "score_choices score context_text [] s = (Inr [], s)"
| "score_choices score context_text ((label, choice_text) # cs) s =
     (case score context_text choice_text s of
        (Inl e, s') \<Rightarrow> (Inl e, s')
      | (Inr x, s') \<Rightarrow> (let (r, s'') = score_choices score context_text cs s' in (rmap (\<lambda>d. (label, x) # d) r, s'')))"

text \<open>\<open>max(scores, key=...)\<close>: the first of the labels with the largest score.\<close>

definition max_label :: "(string \<times> real) list \<Rightarrow> string result" where
  "max_label scores =
     (case scores of
        [] \<Rightarrow> Inl (ValueError ''max() arg is an empty sequence'')
      | x # xs \<Rightarrow> Inr (fst (foldl (\<lambda>best y. if snd best < snd y then y else best) x xs)))"

definition choice_labels :: "string list" where
  "choice_labels = [''A'', ''B'', ''C'', ''D'']"

definition logprob_example :: "'s scoring \<Rightarrow> task \<Rightarrow> int \<Rightarrow> task_example \<Rightarrow> 's \<Rightarrow> example_result result \<times> 's" where
  "logprob_example score task n_shot test_example s =
     (if tk_metric task = ''multiple_choice''
      then (case fewshot_prompt task test_example n_shot of
              Inl e \<Rightarrow> (Inl e, s)
            | Inr context_text \<Rightarrow>
                (case te_choices test_example of
                   None \<Rightarrow> (Inl (KeyError ''choices''), s)
                 | Some choices \<Rightarrow>
                     (let (r, s') = score_choices score context_text (zip choice_labels choices) s
                      in (rbind r (\<lambda>scores. rmap (\<lambda>predicted.
                            \<lparr>xr_question = te_question test_example, xr_expected = te_answer test_example, xr_predicted = predicted,
                             xr_correct = (predicted = te_answer test_example)\<rparr>) (max_label scores)), s'))))
      else if tk_metric task = ''exact_match''
      then (Inl (ValueError (''LogprobEvaluator scores multiple_choice tasks only; '' @ py_repr (PStr (tk_name task))
              @ '' is exact_match (no candidate answers to score). Use FewShotEvaluator.'')), s)
      else (Inl (unknown_metric (tk_metric task)), s))"

fun logprob_examples :: "'s scoring \<Rightarrow> task \<Rightarrow> int \<Rightarrow> task_example list \<Rightarrow> 's \<Rightarrow> example_result list result \<times> 's" where
  "logprob_examples score task n_shot [] s = (Inr [], s)"
| "logprob_examples score task n_shot (ex # exs) s =
     (case logprob_example score task n_shot ex s of
        (Inl e, s') \<Rightarrow> (Inl e, s')
      | (Inr x, s') \<Rightarrow> (let (r, s'') = logprob_examples score task n_shot exs s' in (rmap ((#) x) r, s'')))"

record logprob_result =
  lr_task_name :: string
  lr_n_shot :: int
  lr_accuracy :: real
  lr_num_correct :: nat
  lr_num_total :: nat
  lr_scoring_mode :: string
  lr_examples :: "example_result list"

definition logprob_summary :: "string \<Rightarrow> task \<Rightarrow> int \<Rightarrow> example_result list \<Rightarrow> logprob_result" where
  "logprob_summary scoring_mode task n_shot rs =
     \<lparr>lr_task_name = tk_name task, lr_n_shot = n_shot, lr_accuracy = accuracy_of rs, lr_num_correct = length (filter xr_correct rs),
      lr_num_total = length rs, lr_scoring_mode = scoring_mode, lr_examples = rs\<rparr>"

definition logprob_evaluate :: "logprob_evaluator \<Rightarrow> logprob_fn \<Rightarrow> task \<Rightarrow> int \<Rightarrow> bias_cache \<Rightarrow> logprob_result result \<times> bias_cache" where
  "logprob_evaluate ev model_fn task n_shot cache =
     (let (r, cache') = logprob_examples (score_choice ev model_fn) task n_shot (tk_examples task) cache
      in (rmap (logprob_summary (le_mode ev) task n_shot) r, cache'))"

section \<open>The suite\<close>

record suite_result =
  sr_per_task :: "(string, real) pydict"
  sr_macro_average :: real

fun suite_loop :: "logprob_evaluator \<Rightarrow> logprob_fn \<Rightarrow> int \<Rightarrow> task list \<Rightarrow> (string, real) pydict \<Rightarrow> bias_cache
    \<Rightarrow> (string, real) pydict result \<times> bias_cache" where
  "suite_loop ev model_fn n_shot [] per_task cache = (Inr per_task, cache)"
| "suite_loop ev model_fn n_shot (task # tasks) per_task cache =
     (case logprob_evaluate ev model_fn task n_shot cache of
        (Inl e, cache') \<Rightarrow> (Inl e, cache')
      | (Inr r, cache') \<Rightarrow> suite_loop ev model_fn n_shot tasks (dset per_task (lr_task_name r) (lr_accuracy r)) cache')"

definition suite_run :: "logprob_evaluator \<Rightarrow> logprob_fn \<Rightarrow> task list \<Rightarrow> int \<Rightarrow> bias_cache \<Rightarrow> suite_result result \<times> bias_cache" where
  "suite_run ev model_fn tasks n_shot cache =
     (let (r, cache') = suite_loop ev model_fn n_shot tasks [] cache
      in (rmap (\<lambda>per_task. \<lparr>sr_per_task = per_task,
            sr_macro_average = (if per_task \<noteq> [] then sum_list (dvals per_task) / real (length per_task) else 0)\<rparr>) r, cache'))"

section \<open>Argmax\<close>

lemma foldl_max:
  fixes xs :: "(string \<times> real) list"
  defines "f \<equiv> \<lambda>best y. if snd best < snd y then y else best"
  shows "\<exists>i<length (x # xs). foldl f x xs = (x # xs) ! i \<and> (\<forall>j<length (x # xs). snd ((x # xs) ! j) \<le> snd ((x # xs) ! i)) \<and>
    (\<forall>j<i. snd ((x # xs) ! j) < snd ((x # xs) ! i))"
proof (induction xs rule: rev_induct)
  case Nil
  then show ?case by simp
next
  case (snoc y ys)
  define zs where "zs = x # ys"
  from snoc obtain i where i: "i < length zs" "foldl f x ys = zs ! i" "\<forall>j<length zs. snd (zs ! j) \<le> snd (zs ! i)"
    "\<forall>j<i. snd (zs ! j) < snd (zs ! i)" unfolding zs_def by blast
  have e: "x # ys @ [y] = zs @ [y]" by (simp add: zs_def)
  have "\<exists>i<length (zs @ [y]). foldl f x (ys @ [y]) = (zs @ [y]) ! i \<and> (\<forall>j<length (zs @ [y]). snd ((zs @ [y]) ! j) \<le> snd ((zs @ [y]) ! i)) \<and>
    (\<forall>j<i. snd ((zs @ [y]) ! j) < snd ((zs @ [y]) ! i))"
  proof (cases "snd (zs ! i) < snd y")
    case True
    then show ?thesis
      by (intro exI [of _ "length zs"]) (use i in \<open>force simp: f_def nth_append less_Suc_eq intro: le_less_trans\<close>)
  next
    case False
    then show ?thesis
      by (intro exI [of _ i]) (use i in \<open>auto simp: f_def nth_append less_Suc_eq\<close>)
  qed
  then show ?case unfolding e by simp
qed

lemma max_label_first:
  assumes "max_label scores = Inr l"
  shows "\<exists>i<length scores. l = fst (scores ! i) \<and> (\<forall>j<length scores. snd (scores ! j) \<le> snd (scores ! i)) \<and>
    (\<forall>j<i. snd (scores ! j) < snd (scores ! i))"
proof (cases scores)
  case (Cons x xs)
  with assms foldl_max [of x xs] show ?thesis by (auto simp: max_label_def)
qed (use assms in \<open>simp add: max_label_def\<close>)

end
