(* ===== verification/EvalLogprobLaws.thy ===== *)
theory EvalLogprobLaws
  imports EvalLogprob
begin

text \<open>
  The bias cache of the calibrator never shows, and the predicted label is the first of those with the best score.
  The locale \<open>scorer\<close> is what the evaluation needs of a scoring function with state, interpreted on the three
  scoring modes.
\<close>

section \<open>The evaluation without state\<close>

definition pure_scores :: "(string \<Rightarrow> string \<Rightarrow> real result) \<Rightarrow> string \<Rightarrow> (string \<times> string) list \<Rightarrow> (string \<times> real) list result" where
  "pure_scores pure context_text cs = rmap_list (\<lambda>(label, choice_text). rmap (Pair label) (pure context_text choice_text)) cs"

definition pure_example :: "(string \<Rightarrow> string \<Rightarrow> real result) \<Rightarrow> task \<Rightarrow> int \<Rightarrow> task_example \<Rightarrow> example_result result" where
  "pure_example pure task n_shot ex =
     fst (logprob_example (\<lambda>c t u :: unit. (pure c t, u)) task n_shot ex ())"

lemma pure_scores_Cons:
  "pure_scores pure c ((l, t) # cs) = rbind (pure c t) (\<lambda>x. rmap ((#) (l, x)) (pure_scores pure c cs))"
  by (cases "pure c t") (simp_all add: pure_scores_def rmap_list_def)

lemma logprob_example_cong:
  assumes "\<And>c cs. fst (score_choices f c cs s) = fst (score_choices g c cs u)"
  shows "fst (logprob_example f task n ex s) = fst (logprob_example g task n ex u)"
  using assms by (simp add: logprob_example_def Let_def case_prod_beta split: sum.split option.split)

lemma logprob_example_state: "snd (logprob_example f task n ex s) = s \<or> (\<exists>c cs. snd (logprob_example f task n ex s) = snd (score_choices f c cs s))"
  by (auto simp: logprob_example_def Let_def case_prod_beta split: sum.split option.split)

locale scorer =
  fixes score :: "'s scoring" and ok :: "'s \<Rightarrow> bool" and pure :: "string \<Rightarrow> string \<Rightarrow> real result"
  assumes score_pure: "ok s \<Longrightarrow> fst (score c t s) = pure c t"
    and score_ok: "ok s \<Longrightarrow> ok (snd (score c t s))"
begin

lemma score_choices_pure:
  "ok s \<Longrightarrow> fst (score_choices score c cs s) = pure_scores pure c cs \<and> ok (snd (score_choices score c cs s))"
proof (induction cs arbitrary: s)
  case Nil
  then show ?case by (simp add: pure_scores_def rmap_list_def)
next
  case (Cons p cs)
  obtain l t where p: "p = (l, t)" by force
  obtain x s' where sc: "score c t s = (x, s')" by force
  have x: "pure c t = x" "ok s'" using score_pure [OF Cons.prems, of c t] score_ok [OF Cons.prems, of c t] sc by auto
  show ?case
  proof (cases x)
    case (Inr y)
    with Cons.IH [OF x(2)] show ?thesis by (auto simp: p sc x(1) pure_scores_Cons split: prod.splits)
  qed (use x in \<open>simp add: p sc pure_scores_Cons\<close>)
qed

lemma logprob_example_pure:
  assumes "ok s"
  shows "fst (logprob_example score task n ex s) = pure_example pure task n ex \<and> ok (snd (logprob_example score task n ex s))"
proof -
  have unit: "fst (score_choices (\<lambda>c t u :: unit. (pure c t, u)) c cs u) = pure_scores pure c cs" for c cs u
    by (induction cs arbitrary: u) (auto simp: pure_scores_Cons pure_scores_def [of _ _ "[]"] rmap_list_def [of _ "[]"] split: sum.splits prod.splits)
  note sc = score_choices_pure [OF assms]
  have "fst (logprob_example score task n ex s) = pure_example pure task n ex"
    unfolding pure_example_def by (rule logprob_example_cong) (simp add: sc unit)
  moreover have "ok (snd (logprob_example score task n ex s))"
    using logprob_example_state [of score task n ex s] sc assms by metis
  ultimately show ?thesis ..
qed

lemma logprob_examples_pure:
  "ok s \<Longrightarrow> fst (logprob_examples score task n exs s) = rmap_list (pure_example pure task n) exs \<and>
     ok (snd (logprob_examples score task n exs s))"
proof (induction exs arbitrary: s)
  case Nil
  then show ?case by (simp add: rmap_list_def)
next
  case (Cons ex exs)
  obtain x s' where sc: "logprob_example score task n ex s = (x, s')" by force
  have x: "pure_example pure task n ex = x" "ok s'" using logprob_example_pure [OF Cons.prems, of task n ex] sc by auto
  have step: "rmap_list (pure_example pure task n) (ex # exs) = rbind x (\<lambda>y. rmap ((#) y) (rmap_list (pure_example pure task n) exs))"
    by (simp add: rmap_list_def x(1))
  show ?case
  proof (cases x)
    case (Inr y)
    with Cons.IH [OF x(2)] show ?thesis unfolding step by (auto simp: sc split: prod.splits)
  qed (use x in \<open>simp add: sc step\<close>)
qed

end

section \<open>The three modes\<close>

definition biases_right :: "logprob_fn \<Rightarrow> bias_cache \<Rightarrow> bool" where
  "biases_right cal cache \<longleftrightarrow> (\<forall>c b. dget cache c = Some b \<longrightarrow> cal [] c = Inr b)"

definition calibrated_pure :: "logprob_fn \<Rightarrow> logprob_fn" where
  "calibrated_pure cal context_text t = rbind (cal context_text t) (\<lambda>raw. rmap (\<lambda>b. raw - b) (cal [] t))"

interpretation raw_mode: scorer "score_choice \<lparr>le_mode = ''raw'', le_calibrator = c\<rparr> f" "\<lambda>_. True" "score_logprob f" for c f
  by unfold_locales (simp_all add: score_choice_def)

interpretation normalized_mode: scorer "score_choice \<lparr>le_mode = ''normalized'', le_calibrator = c\<rparr> f" "\<lambda>_. True" "score_normalized f" for c f
  by unfold_locales (simp_all add: score_choice_def)

interpretation calibrated_mode: scorer "score_choice \<lparr>le_mode = ''calibrated'', le_calibrator = Some cal\<rparr> f" "biases_right cal" "calibrated_pure cal" for cal f
proof
  fix s c t assume ok: "biases_right cal s"
  have e: "score_choice \<lparr>le_mode = ''calibrated'', le_calibrator = Some cal\<rparr> f c t s = calibrated_score cal c t s"
    by (simp add: score_choice_def)
  show "fst (score_choice \<lparr>le_mode = ''calibrated'', le_calibrator = Some cal\<rparr> f c t s) = calibrated_pure cal c t"
    unfolding e using ok
    by (auto simp: calibrated_score_def get_bias_def calibrated_pure_def biases_right_def split: sum.splits option.splits)
  show "biases_right cal (snd (score_choice \<lparr>le_mode = ''calibrated'', le_calibrator = Some cal\<rparr> f c t s))"
    unfolding e using ok
    by (auto simp: calibrated_score_def get_bias_def biases_right_def split: sum.splits option.splits)
qed

text \<open>The label an example is given.\<close>

lemma pure_scores_nth:
  "pure_scores pure c cs = Inr d \<Longrightarrow> length d = length cs \<and>
     (\<forall>i<length cs. fst (d ! i) = fst (cs ! i) \<and> pure c (snd (cs ! i)) = Inr (snd (d ! i)))"
proof (induction cs arbitrary: d)
  case (Cons p cs)
  obtain l t where p: "p = (l, t)" by force
  with Cons.prems obtain x d' where x: "pure c t = Inr x" "pure_scores pure c cs = Inr d'" "d = (l, x) # d'"
    by (auto simp: pure_scores_Cons result_simps)
  with Cons.IH [OF x(2)] show ?case by (auto simp: p nth_Cons')
qed (simp add: pure_scores_def rmap_list_def)

interpretation plain: scorer "\<lambda>c t u :: unit. (pure c t, u)" "\<lambda>_. True" pure for pure
  by unfold_locales simp_all

lemma pure_example_best:
  assumes "pure_example pure task n ex = Inr r"
  shows "\<exists>c choices i x. fewshot_prompt task ex n = Inr c \<and> te_choices ex = Some choices \<and> i < min 4 (length choices) \<and>
    xr_predicted r = choice_labels ! i \<and> (\<forall>j<min 4 (length choices). pure c (choices ! j) = Inr (x j) \<and> x j \<le> x i) \<and> (\<forall>j<i. x j < x i) \<and>
    xr_correct r = (xr_predicted r = te_answer ex)"
proof -
  obtain c choices where c: "fewshot_prompt task ex n = Inr c" "te_choices ex = Some choices"
    and r: "rbind (fst (score_choices (\<lambda>c t u :: unit. (pure c t, u)) c (zip choice_labels choices) ())) (\<lambda>scores. rmap (\<lambda>predicted.
        \<lparr>xr_question = te_question ex, xr_expected = te_answer ex, xr_predicted = predicted,
         xr_correct = (predicted = te_answer ex)\<rparr>) (max_label scores)) = Inr r"
    using assms by (auto simp: pure_example_def logprob_example_def split: if_splits sum.splits option.splits prod.splits)
  have "fst (score_choices (\<lambda>c t u :: unit. (pure c t, u)) c (zip choice_labels choices) ()) = pure_scores pure c (zip choice_labels choices)"
    using plain.score_choices_pure by blast
  with r obtain d where d: "pure_scores pure c (zip choice_labels choices) = Inr d" "max_label d = Inr (xr_predicted r)"
    "xr_correct r = (xr_predicted r = te_answer ex)" by (auto simp: result_simps)
  note nth = pure_scores_nth [OF d(1)]
  have len: "length d = min 4 (length choices)" using nth by (simp add: choice_labels_def)
  obtain i where i: "i < length d" "xr_predicted r = fst (d ! i)" "\<forall>j<length d. snd (d ! j) \<le> snd (d ! i)" "\<forall>j<i. snd (d ! j) < snd (d ! i)"
    using max_label_first [OF d(2)] by blast
  show ?thesis
  proof (intro exI conjI allI impI)
    show "fewshot_prompt task ex n = Inr c" "te_choices ex = Some choices" by (rule c)+
    show "i < min 4 (length choices)" using i(1) len by simp
    show "xr_predicted r = choice_labels ! i" using i(1,2) nth len by (simp add: choice_labels_def)
    fix j assume j: "j < min 4 (length choices)"
    then show "pure c (choices ! j) = Inr (snd (d ! j))" "snd (d ! j) \<le> snd (d ! i)"
      using nth i(3) len by (simp_all add: choice_labels_def)
  next
    fix j assume "j < i"
    then show "snd (d ! j) < snd (d ! i)" using i(4) by simp
  qed (rule d(3))
qed

section \<open>The suite\<close>

lemma logprob_accuracy: "fst (logprob_evaluate ev f task n cache) = Inr r \<Longrightarrow> 0 \<le> lr_accuracy r \<and> lr_accuracy r \<le> 1 \<and> lr_task_name r = tk_name task"
  by (auto simp: logprob_evaluate_def logprob_summary_def accuracy_bounds result_simps split: prod.splits)

lemma suite_loop_bounds:
  "fst (suite_loop ev f n tasks d cache) = Inr d' \<Longrightarrow> dwf d \<Longrightarrow> (\<forall>a\<in>set (dvals d). 0 \<le> a \<and> a \<le> 1) \<Longrightarrow>
     dwf d' \<and> (\<forall>a\<in>set (dvals d'). 0 \<le> a \<and> a \<le> 1) \<and> set (dkeys d') = set (dkeys d) \<union> tk_name ` set tasks"
proof (induction tasks arbitrary: d cache)
  case (Cons task tasks)
  obtain r cache' where r: "logprob_evaluate ev f task n cache = (Inr r, cache')"
    using Cons.prems(1) by (auto split: prod.splits sum.splits)
  note b = logprob_accuracy [of ev f task n cache r]
  have vals: "set (dvals (dset d k v)) \<subseteq> insert v (set (dvals d))" for k v
    by (induction d k v rule: dset.induct) (auto simp: dvals_def)
  have "fst (suite_loop ev f n tasks (dset d (lr_task_name r) (lr_accuracy r)) cache') = Inr d'" using Cons.prems(1) r by simp
  note IH = Cons.IH [OF this dwf_dset [OF Cons.prems(2)]]
  have acc: "0 \<le> lr_accuracy r \<and> lr_accuracy r \<le> 1 \<and> lr_task_name r = tk_name task" by (rule b) (simp add: r)
  have "\<forall>a\<in>set (dvals (dset d (lr_task_name r) (lr_accuracy r))). 0 \<le> a \<and> a \<le> 1"
    using vals [of "lr_task_name r" "lr_accuracy r"] Cons.prems(3) acc by blast
  from IH [OF this] acc show ?case by simp
qed simp

lemma suite_average_bounds:
  assumes "fst (suite_run ev f tasks n cache) = Inr r"
  shows "0 \<le> sr_macro_average r" "sr_macro_average r \<le> 1" "dwf (sr_per_task r)" "set (dkeys (sr_per_task r)) = tk_name ` set tasks"
proof -
  obtain d where d: "fst (suite_loop ev f n tasks [] cache) = Inr d" and r: "r = \<lparr>sr_per_task = d,
      sr_macro_average = (if d \<noteq> [] then sum_list (dvals d) / real (length d) else 0)\<rparr>"
    using assms by (auto simp: suite_run_def result_simps split: prod.splits)
  note b = suite_loop_bounds [OF d]
  have v: "\<forall>a\<in>set (dvals d). 0 \<le> a \<and> a \<le> 1" "dwf d" "set (dkeys d) = tk_name ` set tasks" using b by (auto simp: dvals_def)
  have le: "(\<forall>a\<in>set xs. 0 \<le> a \<and> a \<le> 1) \<Longrightarrow> 0 \<le> sum_list xs \<and> sum_list xs \<le> real (length xs)" for xs :: "real list"
    by (induction xs) auto
  have "0 \<le> sum_list (dvals d)" "sum_list (dvals d) \<le> real (length d)" using le [OF v(1)] by (simp_all add: dvals_def)
  then show "0 \<le> sr_macro_average r" "sr_macro_average r \<le> 1" by (simp_all add: r divide_le_eq_1)
  show "dwf (sr_per_task r)" "set (dkeys (sr_per_task r)) = tk_name ` set tasks" using v by (simp_all add: r)
qed

end
