(* ===== verification/EvalProperties.thy ===== *)
theory EvalProperties
  imports EvalServer EvalLogprobLaws
begin

text \<open>The properties of the evaluation harness (\<open>labs/llm-eval\<close>), with the inputs that witness their hypotheses.\<close>

section \<open>An instance of numpy\<close>

definition two_sided :: "real list \<Rightarrow> real \<Rightarrow> real" where
  "two_sided xs q = (if q \<le> 50 then Min (set xs) else Max (set xs))"

lemma two_sided_ok: "percentile_ok two_sided"
  by (auto simp: percentile_ok_def two_sided_def)

definition each_once :: "nat \<Rightarrow> draws" where
  "each_once n i = [0..<n]"

lemma each_once_ok: "draws_ok (each_once n) n rounds"
  by (auto simp: draws_ok_def each_once_def)

section \<open>Few-shot evaluation\<close>

text \<open>The prompt of an example does not depend on its answer, wherever the example stands in the task: the
  demonstrations are at most \<open>n_shot\<close> of the other examples, in the task's order.\<close>

theorem prompt_is_blind:
  "fewshot_prompt (with_answer (te_id ex) a task) (ex\<lparr>te_answer := a\<rparr>) n = fewshot_prompt task ex n \<and>
   te_id ex \<notin> te_id ` set (demonstrations task ex (int k)) \<and> length (demonstrations task ex (int k)) \<le> k \<and>
   subseq (demonstrations task ex (int k)) (tk_examples task)"
  using demonstrations_within [where n = "int k" and task = task and ex = ex] by (simp add: build_prompt_blind)

text \<open>The documented formats of an answer are read as the letter they give; but the second pattern has no word
  boundary, so after \<open>answer:\<close> any word that begins with one of the letters is taken for the choice.\<close>

theorem choice_extraction:
  assumes "choice_letter l"
  shows "extract_multiple_choice [l] = [l] \<and> extract_multiple_choice (''Answer: '' @ [l] @ rest) = [l] \<and>
    extract_multiple_choice (''The answer is '' @ [l] @ ''.'') = [l] \<and> extract_multiple_choice (''The answer is ('' @ [l] @ '')'') = [l] \<and>
    extract_multiple_choice (''My answer: definitely '' @ [l]) = ''D'' \<and>
    extract_multiple_choice s \<in> {[], ''A'', ''B'', ''C'', ''D''}"
  by (intro conjI extract_answer_prefix extract_short extract_misread extract_range assms)

theorem choice_extraction_witness:
  "extract_multiple_choice (''Answer: '' @ ''B'' @ '' because of C'') = ''B'' \<and> extract_multiple_choice (''My answer: definitely '' @ ''B'') = ''D''"
  using choice_extraction [of "CHR ''B''" "'' because of C''"] by (simp add: choice_letter_def)

section \<open>Log-likelihood evaluation\<close>

text \<open>C33: A calibrated evaluation gives the results it would give without its cache of biases, whatever right biases
  the cache already holds, and leaves it right; each predicted label is the first among the labels with the best
  difference between the score in context and the score without.\<close>

theorem calibrated_evaluation:
  assumes "biases_right cal cache"
  shows "fst (logprob_evaluate \<lparr>le_mode = ''calibrated'', le_calibrator = Some cal\<rparr> f task n cache) =
      rmap (logprob_summary ''calibrated'' task n) (rmap_list (pure_example (calibrated_pure cal) task n) (tk_examples task)) \<and>
    biases_right cal (snd (logprob_evaluate \<lparr>le_mode = ''calibrated'', le_calibrator = Some cal\<rparr> f task n cache)) \<and>
    (\<forall>ex. case pure_example (calibrated_pure cal) task n ex of
       Inl _ \<Rightarrow> True
     | Inr r \<Rightarrow> \<exists>c choices i x. fewshot_prompt task ex n = Inr c \<and> te_choices ex = Some choices \<and> i < min 4 (length choices) \<and>
         xr_predicted r = choice_labels ! i \<and> (\<forall>j<min 4 (length choices). calibrated_pure cal c (choices ! j) = Inr (x j) \<and> x j \<le> x i) \<and>
         (\<forall>j<i. x j < x i) \<and> xr_correct r = (xr_predicted r = te_answer ex))"
proof (intro conjI allI)
  note e = calibrated_mode.logprob_examples_pure [OF assms, of f task n "tk_examples task"]
  show "fst (logprob_evaluate \<lparr>le_mode = ''calibrated'', le_calibrator = Some cal\<rparr> f task n cache) =
      rmap (logprob_summary ''calibrated'' task n) (rmap_list (pure_example (calibrated_pure cal) task n) (tk_examples task))"
    "biases_right cal (snd (logprob_evaluate \<lparr>le_mode = ''calibrated'', le_calibrator = Some cal\<rparr> f task n cache))"
    using e by (simp_all add: logprob_evaluate_def case_prod_beta)
  fix ex
  show "case pure_example (calibrated_pure cal) task n ex of
       Inl _ \<Rightarrow> True
     | Inr r \<Rightarrow> \<exists>c choices i x. fewshot_prompt task ex n = Inr c \<and> te_choices ex = Some choices \<and> i < min 4 (length choices) \<and>
         xr_predicted r = choice_labels ! i \<and> (\<forall>j<min 4 (length choices). calibrated_pure cal c (choices ! j) = Inr (x j) \<and> x j \<le> x i) \<and>
         (\<forall>j<i. x j < x i) \<and> xr_correct r = (xr_predicted r = te_answer ex)"
  proof (cases "pure_example (calibrated_pure cal) task n ex")
    case (Inr r)
    from pure_example_best [OF Inr] show ?thesis unfolding Inr sum.case .
  qed simp
qed

theorem calibrated_evaluation_witness:
  "fst (logprob_evaluate \<lparr>le_mode = ''calibrated'', le_calibrator = Some (\<lambda>c t. Inr (real (length c)))\<rparr> (\<lambda>c t. Inr 0) hellaswag_lite 5 [(''x'', 0)]) =
    rmap (logprob_summary ''calibrated'' hellaswag_lite 5)
      (rmap_list (pure_example (calibrated_pure (\<lambda>c t. Inr (real (length c)))) hellaswag_lite 5) (tk_examples hellaswag_lite))"
proof -
  have "biases_right (\<lambda>c t. Inr (real (length c))) [(''x'', 0)]" by (simp add: biases_right_def)
  from calibrated_evaluation [OF this, of "\<lambda>c t. Inr 0" hellaswag_lite 5] show ?thesis by blast
qed

section \<open>Contamination\<close>

text \<open>C32: After any training texts, an example whose words stand together in one of them is found contaminated in
  full; a shorter example than 13 words is found contaminated only so; a longer one that shares no sequence of 13
  words with the texts is found clean. Case and white space do not matter.\<close>

theorem contamination_by_words:
  assumes "words_of_text ex \<noteq> []"
  shows "((\<exists>t\<in>set ts. sublist (words_of_text ex) (words_of_text t)) \<longrightarrow> check_contamination (trained ts) ex = 1 \<and> is_contaminated (trained ts) ex) \<and>
    (length (words_of_text ex) < 13 \<longrightarrow>
       (is_contaminated (trained ts) ex \<longleftrightarrow> (\<exists>t\<in>set ts. sublist (words_of_text ex) (words_of_text t)))) \<and>
    (13 \<le> length (words_of_text ex) \<and> (\<forall>t\<in>set ts. \<forall>g. sublist g (words_of_text ex) \<and> length g = 13 \<longrightarrow> \<not> sublist g (words_of_text t)) \<longrightarrow>
       \<not> is_contaminated (trained ts) ex)"
proof (intro conjI impI)
  assume "\<exists>t\<in>set ts. sublist (words_of_text ex) (words_of_text t)"
  then show one: "check_contamination (trained ts) ex = 1" using check_verbatim assms by blast
  then show "is_contaminated (trained ts) ex" by (simp add: is_contaminated_def)
next
  assume "length (words_of_text ex) < 13"
  then show "is_contaminated (trained ts) ex \<longleftrightarrow> (\<exists>t\<in>set ts. sublist (words_of_text ex) (words_of_text t))"
    using check_short [of ex ts] assms by (auto simp: is_contaminated_def ngram_size_def)
next
  assume "13 \<le> length (words_of_text ex) \<and> (\<forall>t\<in>set ts. \<forall>g. sublist g (words_of_text ex) \<and> length g = 13 \<longrightarrow> \<not> sublist g (words_of_text t))"
  then have "check_contamination (trained ts) ex = 0" by (intro check_clean) (auto simp: ngram_size_def)
  then show "\<not> is_contaminated (trained ts) ex" by (simp add: is_contaminated_def)
qed

lemma cat_words: "words_of_text ''The Cat'' = [''the'', ''cat'']" "words_of_text ''see the  cat now'' = [''see'', ''the'', ''cat'', ''now'']"
  by code_simp+

theorem contamination_by_words_witness:
  "is_contaminated (trained [''see the  cat now'']) ''The Cat''"
proof -
  have "sublist [''the'', ''cat''] [''see'', ''the'', ''cat'', ''now'']" 
    unfolding sublist_def by (rule exI [of _ "[''see'']"], rule exI [of _ "[''now'']"]) simp
  then show ?thesis using contamination_by_words [of "''The Cat''" "[''see the  cat now'']"] by (simp add: cat_words)
qed

section \<open>The harness\<close>

text \<open>On a task whose examples have what its metric needs, with a model that does not raise, the harness reports
  the accuracy of the model on the examples that are not contaminated, counts the others, and gives a confidence
  interval within 0 and 1, whatever is resampled.\<close>

theorem harness_reports:
  assumes "tk_metric task = ''exact_match'' \<or> (tk_metric task = ''multiple_choice'' \<and> (\<forall>e\<in>set (tk_examples task). te_choices e \<noteq> None))"
    and "\<forall>p. \<exists>c. model_fn p = Inr c" and "hn_detector h = Some d"
    and "percentile_ok percentile" and "0 < hn_n_bootstrap h" and "0 \<le> hn_confidence h" and "hn_confidence h \<le> 1"
    and "draws_ok draws (length (filter (\<lambda>ex. \<not> is_contaminated d (example_text_of ex)) (tk_examples task))) (hn_n_bootstrap h)"
  shows "\<exists>r result lo hi. harness_run percentile draws h model_fn task n = Inr r \<and>
    fewshot_evaluate model_fn (task\<lparr>tk_examples := filter (\<lambda>ex. \<not> is_contaminated d (example_text_of ex)) (tk_examples task)\<rparr>) n = Inr result \<and>
    ep_accuracy r = fr_accuracy result \<and> 0 \<le> ep_accuracy r \<and> ep_accuracy r \<le> 1 \<and>
    ep_total r = length (tk_examples task) \<and> ep_clean r = int (fr_num_total result) \<and>
    ep_ci_95 r = (lo, hi) \<and> 0 \<le> lo \<and> lo \<le> hi \<and> hi \<le> 1"
proof -
  let ?clean = "task\<lparr>tk_examples := filter (\<lambda>ex. \<not> is_contaminated d (example_text_of ex)) (tk_examples task)\<rparr>"
  obtain result where e: "fewshot_evaluate model_fn ?clean n = Inr result"
    using fewshot_evaluate_total [of ?clean model_fn n] assms(1,2) by auto
  obtain r where r: "harness_run percentile draws h model_fn task n = Inr r"
    using e assms(3) by (simp add: harness_run_def filter_task_spec)
  from harness_report [OF r assms(3)] e have h: "ep_accuracy r = fr_accuracy result" "ep_total r = length (tk_examples task)"
    "ep_clean r = int (fr_num_total result)"
    "ep_ci_95 r = (let ci = bootstrap_ci percentile draws (map xr_correct (fr_examples result)) (hn_n_bootstrap h) (hn_confidence h)
       in (bc_lower ci, bc_upper ci))" by auto
  note f = fewshot_evaluate_figures [OF e]
  have "draws_ok draws (length (map xr_correct (fr_examples result))) (hn_n_bootstrap h)"
    using assms(8) f(1,9) by simp
  from bootstrap_ci_bounds [OF assms(4) this assms(5-7)] obtain lo hi where "ep_ci_95 r = (lo, hi)" "0 \<le> lo" "lo \<le> hi" "hi \<le> 1"
    using h(4) by (auto simp: Let_def)
  moreover have "0 \<le> ep_accuracy r" "ep_accuracy r \<le> 1" using f(3,4) h(1) by simp_all
  ultimately show ?thesis using r e h(1-3) by (intro exI [of _ r] exI [of _ result] exI [of _ lo] exI [of _ hi] conjI)
qed

theorem harness_reports_witness:
  "\<exists>r. harness_run two_sided (each_once 10) \<lparr>hn_detector = Some new_detector, hn_n_bootstrap = 2, hn_confidence = 95 / 100\<rparr> mock_always_a triviaqa_lite 3 = Inr r \<and>
    ep_total r = 10"
proof -
  have c: "check_contamination new_detector t = 0" for t
    by (simp add: check_contamination_def new_detector_def Let_def)
  have l: "length (tk_examples triviaqa_lite) = 10" using triviaqa_ok by (simp add: task_ok_def)
  have m: "tk_metric triviaqa_lite = ''exact_match''" by (simp add: triviaqa_lite_def)
  show ?thesis
    using harness_reports [of triviaqa_lite mock_always_a "\<lparr>hn_detector = Some new_detector, hn_n_bootstrap = 2, hn_confidence = 95 / 100\<rparr>"
        new_detector two_sided "each_once 10" 3] l each_once_ok [of 10 2]
    by (auto simp: m mock_always_a_def two_sided_ok is_contaminated_def c)
qed

section \<open>The service\<close>

lemma always_a_correct:
  assumes "task_ok task" "fewshot_evaluate mock_always_a task n = Inr r"
  shows "fr_num_correct r = (if tk_metric task = ''multiple_choice'' then length (filter (\<lambda>ex. te_answer ex = ''A'') (tk_examples task))
     else length (filter (\<lambda>ex. content_words (te_answer ex) = [''a'']) (tk_examples task)))"
proof -
  have a: "extract_multiple_choice ''A'' = ''A''" by (rule extract_short) (simp add: choice_letter_def)
  have w: "content_words ''A'' = [''a'']"
    by (simp add: content_words_def str_lower_def lower_char_def is_punct_def char_of_def bit_0 bit_numeral_rec split_words.simps is_space_def Let_def)
  have one: "xr_correct x = (if tk_metric task = ''multiple_choice'' then te_answer ex = ''A'' else content_words (te_answer ex) = [''a''])"
    if "evaluate_example mock_always_a task n ex = Inr x" for ex x
    using evaluate_example_correct [OF that] by (auto simp: mock_always_a_def a w)
  have "map xr_correct xs = map (\<lambda>ex. if tk_metric task = ''multiple_choice'' then te_answer ex = ''A'' else content_words (te_answer ex) = [''a'']) es"
    if "rmap_list (evaluate_example mock_always_a task n) es = Inr xs" for es xs
    using that by (induction es arbitrary: xs) (auto simp: rmap_list_def result_simps one)
  then have "map xr_correct (fr_examples r) = map (\<lambda>ex. if tk_metric task = ''multiple_choice'' then te_answer ex = ''A'' else content_words (te_answer ex) = [''a'']) (tk_examples task)"
    using assms(2) by (auto simp: fewshot_evaluate_def result_simps)
  then show ?thesis
    using fewshot_evaluate_figures(8) [OF assms(2)] by (simp add: filter_map comp_def)
qed

lemma trivia_never_a: "filter (\<lambda>ex. content_words (te_answer ex) = [''a'']) (tk_examples triviaqa_lite) = []"
  by code_simp

text \<open>The service answers 404 for an unknown task, 400 for an unknown model, and otherwise evaluates: on a
  multiple-choice task its model is right on the examples whose answer is A, on the open questions never.\<close>

theorem run_eval_outcomes:
  assumes "percentile_ok percentile" and "draws_ok draws 10 1000"
  shows "case dget all_tasks name of
      None \<Rightarrow> \<exists>m. run_eval percentile draws name n model = Inl (HttpError 404 m)
    | Some task \<Rightarrow>
        if model \<noteq> ''mock-always-A'' then \<exists>m. run_eval percentile draws name n model = Inl (HttpError 400 m)
        else \<exists>r. run_eval percentile draws name n model = Inr r \<and> vr_task r = tk_name task \<and> vr_num_total r = 10 \<and>
          vr_num_correct r = (if tk_metric task = ''multiple_choice'' then length (filter (\<lambda>ex. te_answer ex = ''A'') (tk_examples task)) else 0) \<and>
          vr_accuracy r = real (vr_num_correct r) / 10 \<and> 0 \<le> vr_ci_95_lower r \<and> vr_ci_95_lower r \<le> vr_ci_95_upper r \<and> vr_ci_95_upper r \<le> 1"
proof (cases "dget all_tasks name")
  case None
  then show ?thesis by (simp add: run_eval_def)
next
  case (Some task)
  show ?thesis
  proof (cases "model = ''mock-always-A''")
    case True
    have task: "task \<in> {hellaswag_lite, triviaqa_lite, mmlu_lite_math}"
      using Some by (auto simp: all_tasks_def split: if_splits)
    then have ok: "task_ok task" using hellaswag_ok triviaqa_ok mmlu_ok by auto
    have "tk_metric task \<noteq> ''multiple_choice'' \<Longrightarrow> filter (\<lambda>ex. content_words (te_answer ex) = [''a'']) (tk_examples task) = []"
      using task trivia_never_a by (auto simp: hellaswag_lite_def mmlu_lite_math_def)
    moreover have "tk_metric task = ''exact_match'' \<or> (tk_metric task = ''multiple_choice'' \<and> (\<forall>e\<in>set (tk_examples task). te_choices e \<noteq> None))"
      using ok by (fastforce simp: task_ok_def list_all_iff example_ok_def split: option.splits)
    then obtain result where e: "fewshot_evaluate mock_always_a task n = Inr result"
      using fewshot_evaluate_total [of task mock_always_a n] by (auto simp: mock_always_a_def)
    note f = fewshot_evaluate_figures [OF e]
    have ten: "fr_num_total result = 10" using f(1) ok by (simp add: task_ok_def)
    have "draws_ok draws (length (map xr_correct (fr_examples result))) 1000" using assms(2) f(9) ten by simp
    note ci = bootstrap_ci_bounds [OF assms(1) this, of "95 / 100"]
    have "fr_accuracy result = real (fr_num_correct result) / 10" using f(5) ten by simp
    with Some True e ten f(6) ci always_a_correct [OF ok e] calculation show ?thesis
      by (simp add: run_eval_def mock_models_def Let_def)
  qed (use Some in \<open>simp add: run_eval_def mock_models_def\<close>)
qed

theorem run_eval_outcomes_witness:
  "\<exists>r. run_eval two_sided (each_once 10) ''hellaswag-lite'' 5 ''mock-always-A'' = Inr r \<and> vr_accuracy r = 4 / 10"
proof -
  have "tk_metric hellaswag_lite = ''multiple_choice''" "length (filter (\<lambda>ex. te_answer ex = ''A'') (tk_examples hellaswag_lite)) = 4"
    by code_simp+
  then show ?thesis
    using run_eval_outcomes [OF two_sided_ok each_once_ok, of "''hellaswag-lite''" 5 "''mock-always-A''"] by (auto simp: all_tasks_def)
qed

end
