(* ===== verification/VoiceAudio.thy ===== *)
theory VoiceAudio
  imports Complex_Main Utf8
begin

text \<open>
  Audio of the voice assistant (\<open>labs/voice-assistant/src/v0_stt.py\<close>): the energy of a chunk of 16-bit samples, the
  buffer that cuts a stream of chunks into utterances, and WAV files as the standard library writes and reads them.
  Energies are reals.
\<close>

section \<open>Energy\<close>

text \<open>A signed 16-bit little-endian sample.\<close>

definition sample16 :: "nat \<Rightarrow> nat \<Rightarrow> int" where
  "sample16 lo hi = (let v = int lo + 256 * int hi in if v < 32768 then v else v - 65536)"

fun samples_of :: "bytes \<Rightarrow> int list" where
  "samples_of (lo # hi # bs) = sample16 lo hi # samples_of bs"
| "samples_of _ = []"

definition rms :: "bytes \<Rightarrow> real" where
  "rms chunk =
     (if length chunk < 2 then 0
      else let n_samples = length chunk div 2; samples = samples_of (take (n_samples * 2) chunk)
           in sqrt (of_int (sum_list (map (\<lambda>s. s * s) samples)) / real n_samples) / 32767)"

definition is_speech :: "bytes \<Rightarrow> real \<Rightarrow> bool" where
  "is_speech chunk threshold \<longleftrightarrow> threshold < rms chunk"

section \<open>The buffer\<close>

record audio_buffer =
  ab_threshold :: real
  ab_limit :: int
  ab_buffer :: bytes
  ab_started :: bool
  ab_silence :: int

definition new_audio_buffer :: "real \<Rightarrow> int \<Rightarrow> audio_buffer" where
  "new_audio_buffer silence_threshold silence_chunks =
     \<lparr>ab_threshold = silence_threshold, ab_limit = silence_chunks, ab_buffer = [], ab_started = False, ab_silence = 0\<rparr>"

definition reset_buffer :: "audio_buffer \<Rightarrow> audio_buffer" where
  "reset_buffer b = b\<lparr>ab_buffer := [], ab_started := False, ab_silence := 0\<rparr>"

definition feed :: "bytes \<Rightarrow> audio_buffer \<Rightarrow> bytes option \<times> audio_buffer" where
  "feed chunk b =
     (let speech = is_speech chunk (ab_threshold b)
      in if \<not> ab_started b
         then (None, if speech then b\<lparr>ab_started := True, ab_buffer := ab_buffer b @ chunk, ab_silence := 0\<rparr> else b)
         else let b1 = b\<lparr>ab_buffer := ab_buffer b @ chunk\<rparr>;
                  b2 = b1\<lparr>ab_silence := (if speech then 0 else ab_silence b1 + 1)\<rparr>
              in if ab_limit b2 \<le> ab_silence b2 then (Some (ab_buffer b2), reset_buffer b2) else (None, b2))"

definition is_recording :: "audio_buffer \<Rightarrow> bool" where
  "is_recording b = ab_started b"

definition buffered_bytes :: "audio_buffer \<Rightarrow> nat" where
  "buffered_bytes b = length (ab_buffer b)"

fun feed_all :: "bytes list \<Rightarrow> audio_buffer \<Rightarrow> bytes list \<times> audio_buffer" where
  "feed_all [] b = ([], b)"
| "feed_all (c # cs) b =
     (let (r, b') = feed c b; (us, b'') = feed_all cs b'
      in ((case r of None \<Rightarrow> us | Some u \<Rightarrow> u # us), b''))"

section \<open>WAV files\<close>

definition ascii_bytes :: "string \<Rightarrow> bytes" where
  "ascii_bytes s = map of_char s"

text \<open>What \<open>wave\<close> writes for one channel of 16-bit samples at 16000 Hz.\<close>

definition wav_of_pcm :: "bytes \<Rightarrow> bytes result" where
  "wav_of_pcm pcm_bytes =
     (if 36 + length pcm_bytes < 2 ^ 32
      then Inr (ascii_bytes ''RIFF'' @ le_bytes 4 (36 + length pcm_bytes) @ ascii_bytes ''WAVEfmt '' @ le_bytes 4 16
             @ le_bytes 2 1 @ le_bytes 2 1 @ le_bytes 4 16000 @ le_bytes 4 32000 @ le_bytes 2 2 @ le_bytes 2 16
             @ ascii_bytes ''data'' @ le_bytes 4 (length pcm_bytes) @ pcm_bytes)
      else Inl (OtherError ''struct.error: argument out of range''))"

text \<open>How \<open>wave\<close> reads: the chunks of the RIFF content up to the data chunk; a frame has the bytes of one sample of
  each channel.\<close>

definition read_fmt :: "bytes \<Rightarrow> nat result" where
  "read_fmt c =
     (if length c < 16 then Inl (OtherError ''EOFError'')
      else let channels = le_value (take 2 (drop 2 c)); width = (le_value (take 2 (drop 14 c)) + 7) div 8
           in if le_value (take 2 c) \<noteq> 1 then Inl (OtherError ''wave.Error: unknown format'')
              else if width = 0 then Inl (OtherError ''wave.Error: bad sample width'')
              else if channels = 0 then Inl (OtherError ''wave.Error: bad # of channels'')
              else Inr (channels * width))"

function wav_chunks :: "nat option \<Rightarrow> bytes \<Rightarrow> bytes result" where
  "wav_chunks frame_size bs =
     (if length bs < 8 then Inl (OtherError ''wave.Error: fmt chunk and/or data chunk missing'')
      else let name = take 4 bs; size = le_value (take 4 (drop 4 bs)); rest = drop 8 bs; next = drop (size + size mod 2) rest
           in if name = ascii_bytes ''fmt '' then (case read_fmt (take size rest) of Inl e \<Rightarrow> Inl e | Inr f \<Rightarrow> wav_chunks (Some f) next)
              else if name = ascii_bytes ''data''
              then (case frame_size of
                      None \<Rightarrow> Inl (OtherError ''wave.Error: data chunk before fmt chunk'')
                    | Some f \<Rightarrow> Inr (take (size div f * f) rest))
              else wav_chunks frame_size next)"
  by pat_completeness auto
termination
  by (relation "measure (\<lambda>(_, bs). length bs)") auto

declare wav_chunks.simps [simp del]

definition pcm_of_wav :: "bytes \<Rightarrow> bytes result" where
  "pcm_of_wav wav_bytes =
     (if length wav_bytes < 8 then Inl (OtherError ''EOFError'')
      else let content = take (le_value (take 4 (drop 4 wav_bytes))) (drop 8 wav_bytes)
           in if take 4 wav_bytes \<noteq> ascii_bytes ''RIFF'' then Inl (OtherError ''wave.Error: file does not start with RIFF id'')
              else if take 4 content \<noteq> ascii_bytes ''WAVE'' then Inl (OtherError ''wave.Error: not a WAVE file'')
              else wav_chunks None (drop 4 content))"

definition generate_silence :: "nat \<Rightarrow> bytes" where
  "generate_silence duration_ms = concat (replicate (16000 * duration_ms div 1000) [0, 0])"

text \<open>\<open>int(x)\<close> truncates towards 0; \<open>struct.pack("<h")\<close> takes 16-bit integers only.\<close>

definition truncate_real :: "real \<Rightarrow> int" where
  "truncate_real x = (if 0 \<le> x then \<lfloor>x\<rfloor> else \<lceil>x\<rceil>)"

definition pack16 :: "int \<Rightarrow> bytes result" where
  "pack16 v = (if - 32768 \<le> v \<and> v \<le> 32767 then Inr (le_bytes 2 (nat (v mod 65536))) else Inl (OtherError ''struct.error: short format requires (-32768) <= number <= 32767''))"

definition generate_sine_wave :: "real \<Rightarrow> nat \<Rightarrow> real \<Rightarrow> bytes result" where
  "generate_sine_wave frequency duration_ms amplitude =
     rmap concat (rmap_list (\<lambda>i. pack16 (truncate_real (amplitude * 32767 * sin (2 * pi * frequency * (real i / 16000)))))
       [0..<16000 * duration_ms div 1000])"

definition minimal_wav :: "bytes result" where
  "minimal_wav = wav_of_pcm (concat (replicate 1600 [0, 0]))"

definition concat_wav_chunks :: "bytes list \<Rightarrow> bytes result" where
  "concat_wav_chunks chunks =
     (if chunks = [] then minimal_wav
      else rbind (rmap_list pcm_of_wav chunks) (\<lambda>frames. wav_of_pcm (concat frames)))"

section \<open>Transcription\<close>

text \<open>White space of Unicode, as \<open>str.strip\<close> sees it.\<close>

definition uni_space :: "nat \<Rightarrow> bool" where
  "uni_space c \<longleftrightarrow> c \<in> {9, 10, 11, 12, 13, 28, 29, 30, 31, 32, 133, 160, 5760, 8192, 8193, 8194, 8195, 8196, 8197, 8198, 8199, 8200,
     8201, 8202, 8232, 8233, 8239, 8287, 12288}"

definition uni_strip :: "utext \<Rightarrow> utext" where
  "uni_strip s = rev (dropWhile uni_space (rev (dropWhile uni_space s)))"

text \<open>The Whisper model maps a WAV file to a text; it may raise.\<close>

definition transcribe :: "(bytes \<Rightarrow> utext result) \<Rightarrow> bytes \<Rightarrow> utext result" where
  "transcribe whisper audio_bytes =
     (if audio_bytes = [] then Inr [] else rbind (wav_of_pcm audio_bytes) (\<lambda>wav. rmap uni_strip (whisper wav)))"

end
