(* ===== verification/Voice.thy ===== *)
theory Voice
  imports VoiceAudio PyValue
begin

text \<open>
  Dialogue, speech synthesis and the service of the voice assistant (\<open>labs/voice-assistant/src\<close>: \<open>v1_llm.py\<close>,
  \<open>v2_tts.py\<close>, \<open>server.py\<close>). Texts are lists of code points. Parameters: the Whisper model, the most likely next byte
  of the stub model, and the speech engine with the file it leaves. Clocks and log messages are left out.
\<close>

definition utext_of :: "string \<Rightarrow> utext" where
  "utext_of s = map of_char s"

section \<open>History\<close>

record chat_message =
  cm_role :: string
  cm_text :: utext

record history =
  vh_messages :: "chat_message list"
  vh_max_turns :: int

definition new_history :: "int \<Rightarrow> history" where
  "new_history max_turns = \<lparr>vh_messages = [], vh_max_turns = max_turns\<rparr>"

definition history_add :: "string \<Rightarrow> utext \<Rightarrow> history \<Rightarrow> history" where
  "history_add role text h =
     (let msgs = vh_messages h @ [\<lparr>cm_role = str_lower role, cm_text = text\<rparr>];
          max_messages = vh_max_turns h * 2
      in if max_messages < int (length msgs)
         then h\<lparr>vh_messages := drop (nat (int (length msgs) - max_messages)) msgs\<rparr>
         else h\<lparr>vh_messages := msgs\<rparr>)"

definition prompt_line :: "chat_message \<Rightarrow> utext" where
  "prompt_line msg = utext_of (if cm_role msg = ''human'' then ''Human'' else ''Assistant'') @ utext_of '': '' @ cm_text msg"

fun join_lines :: "utext list \<Rightarrow> utext" where
  "join_lines [] = []"
| "join_lines [x] = x"
| "join_lines (x # xs) = x @ [10] @ join_lines xs"

definition to_prompt :: "history \<Rightarrow> utext" where
  "to_prompt h = join_lines (map prompt_line (vh_messages h) @ [utext_of ''Assistant: ''])"

section \<open>Generation\<close>

definition max_seq :: nat where
  "max_seq = 256"

fun generate_tokens :: "(nat list \<Rightarrow> nat) \<Rightarrow> nat list \<Rightarrow> nat \<Rightarrow> nat list" where
  "generate_tokens next_byte token_ids 0 = []"
| "generate_tokens next_byte token_ids (Suc k) =
     (let next_token = next_byte (drop (length token_ids - max_seq) token_ids)
      in next_token # (if next_token = 10 then [] else generate_tokens next_byte (token_ids @ [next_token]) k))"

definition fallback_response :: utext where
  "fallback_response = utext_of ''I understand. Could you tell me more?''"

definition generate_response :: "(nat list \<Rightarrow> nat) \<Rightarrow> utext \<Rightarrow> nat \<Rightarrow> history \<Rightarrow> utext result \<times> history" where
  "generate_response next_byte user_text max_tokens h =
     (let h1 = history_add ''human'' user_text h
      in case utf8_encode (to_prompt h1) of
           Inl e \<Rightarrow> (Inl e, h1)
         | Inr prompt_bytes \<Rightarrow>
             (let generated = generate_tokens next_byte (take max_seq prompt_bytes) max_tokens;
                  decoded = uni_strip (utf8_decode generated);
                  response_text = (if decoded = [] \<or> list_all (\<lambda>c. c = replacement) decoded then fallback_response else decoded)
              in (Inr response_text, history_add ''assistant'' response_text h1)))"

definition stream_chars :: "utext \<Rightarrow> utext list" where
  "stream_chars text = map (\<lambda>c. [c]) text"

section \<open>Speech\<close>

definition synthesize :: "(utext \<Rightarrow> bytes result) \<Rightarrow> utext \<Rightarrow> bytes result" where
  "synthesize engine text =
     (if uni_strip text = [] then minimal_wav
      else rbind (engine text) (\<lambda>file. if file \<noteq> [] then Inr file else minimal_wav))"

definition end_mark :: "nat \<Rightarrow> bool" where
  "end_mark c \<longleftrightarrow> c \<in> {46, 33, 63}"

text \<open>\<open>re.split(r"(?<=[.!?])\s+", text)\<close>; the first argument tells whether a mark stands right before.\<close>

function split_parts :: "bool \<Rightarrow> utext \<Rightarrow> utext \<Rightarrow> utext list" where
  "split_parts after_mark current [] = [current]"
| "split_parts after_mark current (c # s) =
     (if after_mark \<and> uni_space c then current # split_parts False [] (dropWhile uni_space s)
      else split_parts (end_mark c) (current @ [c]) s)"
  by pat_completeness auto
termination
  by (relation "measure (\<lambda>(_, _, s). length s)") (simp_all add: le_imp_less_Suc length_dropWhile_le)

definition split_sentences :: "utext \<Rightarrow> utext list" where
  "split_sentences text =
     (let sentences = filter (\<lambda>s. s \<noteq> []) (map uni_strip (split_parts False [] text))
      in if sentences \<noteq> [] then sentences else [uni_strip text])"

definition synthesize_stream :: "(utext \<Rightarrow> bytes result) \<Rightarrow> utext \<Rightarrow> bytes list result" where
  "synthesize_stream engine text = rmap_list (synthesize engine) (filter (\<lambda>s. s \<noteq> []) (split_sentences text))"

section \<open>The pipeline\<close>

record voice_env =
  ve_whisper :: "bytes \<Rightarrow> utext result"
  ve_next_byte :: "nat list \<Rightarrow> nat"
  ve_engine :: "utext \<Rightarrow> bytes result"

text \<open>\<open>history or ConversationHistory()\<close>: an empty history is false, since it has a length.\<close>

definition orchestrator_history :: "history option \<Rightarrow> history" where
  "orchestrator_history h =
     (case h of
        Some h \<Rightarrow> if vh_messages h \<noteq> [] then h else new_history 10
      | None \<Rightarrow> new_history 10)"

definition process_utterance :: "voice_env \<Rightarrow> bytes \<Rightarrow> history \<Rightarrow> (utext \<times> utext \<times> bytes list) result \<times> history" where
  "process_utterance env audio_bytes h =
     (case transcribe (ve_whisper env) audio_bytes of
        Inl e \<Rightarrow> (Inl e, h)
      | Inr transcript \<Rightarrow>
          (let (r, h') = generate_response (ve_next_byte env) transcript 50 h
           in (rbind r (\<lambda>response_text. rmap (\<lambda>audio_chunks. (transcript, response_text, audio_chunks))
                 (synthesize_stream (ve_engine env) response_text)), h')))"

section \<open>The service\<close>

definition transcribe_endpoint :: "voice_env \<Rightarrow> bytes \<Rightarrow> utext http" where
  "transcribe_endpoint env audio_bytes =
     uncaught (rbind (if take 4 audio_bytes = ascii_bytes ''RIFF'' then pcm_of_wav audio_bytes else Inr audio_bytes)
       (\<lambda>pcm_bytes. transcribe (ve_whisper env) pcm_bytes))"

text \<open>A received message, and what is sent; a summary is the JSON object of the transcript and the response.\<close>

record ws_data =
  wd_bytes :: "bytes option"
  wd_text :: "utext option"

datatype ws_event = SendBytes bytes | SendSummary utext utext | CloseError

fun voice_loop :: "voice_env \<Rightarrow> history \<Rightarrow> audio_buffer \<Rightarrow> ws_data list \<Rightarrow> ws_event list" where
  "voice_loop env h b [] = []"
| "voice_loop env h b (data # rest) =
     (case wd_bytes data of
        Some (x # xs) \<Rightarrow>
          (let (utterance, b') = feed (x # xs) b
           in case utterance of
                None \<Rightarrow> voice_loop env h b' rest
              | Some u \<Rightarrow>
                  (case process_utterance env u h of
                     (Inl e, h') \<Rightarrow> [CloseError]
                   | (Inr (transcript, response_text, audio_chunks), h') \<Rightarrow>
                       map SendBytes audio_chunks @ [SendSummary transcript response_text] @ voice_loop env h' b' rest))
      | _ \<Rightarrow> voice_loop env h b rest)"

definition voice_websocket :: "voice_env \<Rightarrow> ws_data list \<Rightarrow> ws_event list" where
  "voice_websocket env msgs = voice_loop env (orchestrator_history (Some (new_history 10))) (new_audio_buffer (2 / 100) 50) msgs"

end
