(* ===== verification/VoiceProperties.thy ===== *)
theory VoiceProperties
  imports VoiceAudio "HOL-Library.Sublist" Voice
begin

text \<open>
  The buffer refines the segmentation of a stream into silence, utterances and an open rest; reading a written WAV
  file gives back its samples; the range of the energy.
\<close>

section \<open>Utterances\<close>

definition silent :: "real \<Rightarrow> bytes \<Rightarrow> bool" where
  "silent thr c \<longleftrightarrow> \<not> is_speech c thr"

definition tail_silence :: "real \<Rightarrow> bytes list \<Rightarrow> nat" where
  "tail_silence thr cs = length (takeWhile (silent thr) (rev cs))"

text \<open>A recording starts with speech; it is open while no part of it ends with \<open>limit\<close> silent chunks, and complete
  when it is the first to do so.\<close>

definition open_rec :: "real \<Rightarrow> int \<Rightarrow> bytes list \<Rightarrow> bool" where
  "open_rec thr limit r \<longleftrightarrow> r \<noteq> [] \<and> \<not> silent thr (hd r) \<and> (\<forall>p. prefix p r \<longrightarrow> int (tail_silence thr p) < limit)"

definition complete_rec :: "real \<Rightarrow> int \<Rightarrow> bytes list \<Rightarrow> bool" where
  "complete_rec thr limit u \<longleftrightarrow> u \<noteq> [] \<and> \<not> silent thr (hd u) \<and> limit \<le> int (tail_silence thr u) \<and>
     (\<forall>p. strict_prefix p u \<longrightarrow> int (tail_silence thr p) < limit)"

inductive segments :: "real \<Rightarrow> int \<Rightarrow> bytes list \<Rightarrow> bytes list \<Rightarrow> bytes list \<Rightarrow> bool" for thr limit where
  quiet: "list_all (silent thr) lead \<Longrightarrow> segments thr limit lead [] []"
| recording: "list_all (silent thr) lead \<Longrightarrow> open_rec thr limit r \<Longrightarrow> segments thr limit (lead @ r) [] r"
| utterance: "list_all (silent thr) lead \<Longrightarrow> complete_rec thr limit u \<Longrightarrow> segments thr limit cs us r \<Longrightarrow>
    segments thr limit (lead @ u @ cs) (concat u # us) r"

lemma tail_silence_snoc: "tail_silence thr (cs @ [c]) = (if silent thr c then tail_silence thr cs + 1 else 0)"
  by (simp add: tail_silence_def)

lemma tail_silence_Nil [simp]: "tail_silence thr [] = 0"
  by (simp add: tail_silence_def)

lemma open_snoc:
  assumes "open_rec thr limit r"
  shows "if limit \<le> int (tail_silence thr (r @ [c])) then complete_rec thr limit (r @ [c]) else open_rec thr limit (r @ [c])"
  using assms by (auto simp: open_rec_def complete_rec_def prefix_snoc strict_prefix_def)

lemma open_single: "0 < limit \<Longrightarrow> \<not> silent thr c \<Longrightarrow> open_rec thr limit [c]"
  by (auto simp: open_rec_def prefix_Cons tail_silence_def)

lemma segments_quiet_snoc:
  "segments thr limit cs us r \<Longrightarrow> r = [] \<Longrightarrow> 0 < limit \<Longrightarrow>
     segments thr limit (cs @ [c]) us (if silent thr c then [] else [c])"
proof (induction rule: segments.induct)
  case (quiet lead)
  then show ?case
    using segments.quiet [of thr "lead @ [c]" limit] segments.recording [of thr lead limit "[c]"] open_single [of limit thr c] by auto
next
  case (recording lead r)
  then show ?case by (simp add: open_rec_def)
next
  case (utterance lead u cs us r)
  from segments.utterance [OF utterance.hyps(1,2) utterance.IH [OF utterance.prems]] show ?case by simp
qed

lemma segments_open_snoc:
  "segments thr limit cs us r \<Longrightarrow> r \<noteq> [] \<Longrightarrow> 0 < limit \<Longrightarrow>
     open_rec thr limit r \<and>
     (if limit \<le> int (tail_silence thr (r @ [c])) then segments thr limit (cs @ [c]) (us @ [concat (r @ [c])]) []
      else segments thr limit (cs @ [c]) us (r @ [c]))"
proof (induction rule: segments.induct)
  case (quiet lead)
  then show ?case by simp
next
  case (recording lead r)
  note o = open_snoc [OF recording.hyps(2), of c]
  show ?case
    using segments.recording [OF recording.hyps(1), of limit "r @ [c]"] recording.hyps(2) o
      segments.utterance [OF recording.hyps(1), of limit "r @ [c]" "[]" "[]" "[]"] segments.quiet [of thr "[]" limit]
    by (auto split: if_splits)
next
  case (utterance lead u cs us r)
  note IH = utterance.IH [OF utterance.prems]
  show ?case
    using IH segments.utterance [OF utterance.hyps(1,2), of "cs @ [c]" "us @ [concat (r @ [c])]" "[]"]
      segments.utterance [OF utterance.hyps(1,2), of "cs @ [c]" us "r @ [c]"]
    by (auto split: if_splits)
qed

lemma feed_all_snoc:
  "feed_all (cs @ [c]) b =
     (let (us, b') = feed_all cs b; (r, b'') = feed c b' in (us @ (case r of None \<Rightarrow> [] | Some u \<Rightarrow> [u]), b''))"
  by (induction cs arbitrary: b) (auto simp: Let_def split: prod.splits option.splits)

text \<open>The state of the buffer is the open rest.\<close>

definition buffer_ok :: "real \<Rightarrow> int \<Rightarrow> bytes list \<Rightarrow> audio_buffer \<Rightarrow> bool" where
  "buffer_ok thr limit r b \<longleftrightarrow> ab_threshold b = thr \<and> ab_limit b = limit \<and> ab_buffer b = concat r \<and> (ab_started b \<longleftrightarrow> r \<noteq> []) \<and>
     ab_silence b = int (tail_silence thr r)"

lemma feed_all_segments:
  assumes "0 < limit"
  shows "\<exists>r. segments thr limit cs (fst (feed_all cs (new_audio_buffer thr limit))) r \<and>
    buffer_ok thr limit r (snd (feed_all cs (new_audio_buffer thr limit)))"
proof (induction cs rule: rev_induct)
  case Nil
  show ?case by (rule exI [of _ "[]"]) (simp add: segments.quiet buffer_ok_def new_audio_buffer_def)
next
  case (snoc c cs)
  obtain us b where f: "feed_all cs (new_audio_buffer thr limit) = (us, b)" by force
  with snoc obtain r where s: "segments thr limit cs us r" and b: "buffer_ok thr limit r b" by auto
  have sil: "is_speech c thr \<longleftrightarrow> \<not> silent thr c" by (simp add: silent_def)
  show ?case
  proof (cases "r = []")
    case True
    have "feed c b = (None, if silent thr c then b else b\<lparr>ab_started := True, ab_buffer := ab_buffer b @ c, ab_silence := 0\<rparr>)"
      using b True by (simp add: feed_def buffer_ok_def sil)
    then show ?thesis
      using segments_quiet_snoc [OF s True assms, of c] b True
      by (intro exI [of _ "if silent thr c then [] else [c]"])
        (auto simp: feed_all_snoc f buffer_ok_def tail_silence_def)
  next
    case ne: False
    let ?n = "tail_silence thr (r @ [c])"
    have n: "int ?n = (if is_speech c thr then 0 else ab_silence b + 1)" using b by (auto simp: tail_silence_snoc sil buffer_ok_def)
    have fd: "feed c b = (if limit \<le> int ?n then (Some (concat (r @ [c])), reset_buffer (b\<lparr>ab_buffer := concat (r @ [c]), ab_silence := int ?n\<rparr>))
        else (None, b\<lparr>ab_buffer := concat (r @ [c]), ab_silence := int ?n\<rparr>))"
      using b ne by (simp add: feed_def Let_def n buffer_ok_def)
    note seg = segments_open_snoc [OF s ne assms, of c]
    show ?thesis
    proof (cases "limit \<le> int ?n")
      case True
      then show ?thesis using seg fd b
        by (intro exI [of _ "[]"]) (simp add: feed_all_snoc f buffer_ok_def reset_buffer_def)
    next
      case False
      then show ?thesis using seg fd b ne
        by (intro exI [of _ "r @ [c]"]) (simp add: feed_all_snoc f buffer_ok_def)
    qed
  qed
qed

section \<open>WAV files\<close>

lemma le_bytes_2: "le_bytes 2 n = [n mod 256, n div 256 mod 256]"
  by (simp add: numeral_2_eq_2)

lemma le_bytes_4: "le_bytes 4 n = [n mod 256, n div 256 mod 256, n div 256 div 256 mod 256, n div 256 div 256 div 256 mod 256]"
proof -
  have four: "(4 :: nat) = Suc (Suc (Suc (Suc 0)))" by simp
  show ?thesis unfolding four by (simp only: le_bytes.simps)
qed

lemma wav_round_trip:
  assumes "wav_of_pcm pcm = Inr w"
  shows "pcm_of_wav w = Inr (take (length pcm div 2 * 2) pcm)"
proof -
  let ?n = "length pcm"
  have n: "36 + ?n < 2 ^ 32" using assms by (simp add: wav_of_pcm_def split: if_splits)
  let ?data = "ascii_bytes ''data'' @ le_bytes 4 ?n @ pcm"
  let ?fmt = "le_bytes 2 1 @ le_bytes 2 1 @ le_bytes 4 16000 @ le_bytes 4 32000 @ le_bytes 2 2 @ le_bytes 2 16"
  have v: "le_value (le_bytes 4 ?n) = ?n" "le_value (le_bytes 4 (36 + ?n)) = 36 + ?n"
    using n by (auto intro!: le_value_le_bytes)
  have data: "wav_chunks (Some 2) ?data = Inr (take (?n div 2 * 2) pcm)"
    by (subst wav_chunks.simps) (simp add: ascii_bytes_def v)
  have fmt: "read_fmt ?fmt = Inr 2" by (simp add: read_fmt_def le_bytes_2 le_bytes_4)
  have "wav_chunks None (ascii_bytes ''fmt '' @ le_bytes 4 16 @ ?fmt @ ?data) = wav_chunks (Some 2) ?data"
  proof -
    have "length ?fmt = 16" by simp
    moreover have "le_value (le_bytes 4 16) = 16" by (simp add: le_bytes_4)
    ultimately show ?thesis using fmt by (subst wav_chunks.simps) (simp add: ascii_bytes_def Let_def del: append_assoc)
  qed
  moreover have "w = ascii_bytes ''RIFF'' @ le_bytes 4 (36 + ?n) @ ascii_bytes ''WAVE'' @ ascii_bytes ''fmt '' @ le_bytes 4 16 @ ?fmt @ ?data"
    using assms by (simp add: wav_of_pcm_def ascii_bytes_def split: if_splits)
  moreover have "length (ascii_bytes ''WAVE'' @ ascii_bytes ''fmt '' @ le_bytes 4 16 @ ?fmt @ ?data) = 36 + ?n" by (simp add: ascii_bytes_def)
  ultimately show ?thesis using v data by (simp add: pcm_of_wav_def Let_def ascii_bytes_def)
qed

text \<open>
  The history as a window on all messages, what a response depends on, sentences, and a session of the service as
  turns: the replies to the utterances of its stream, each on the history of the turns before.
\<close>

section \<open>History\<close>

definition window :: "int \<Rightarrow> 'a list \<Rightarrow> 'a list" where
  "window max_turns xs = drop (length xs - nat (2 * max_turns)) xs"

definition message :: "string \<Rightarrow> utext \<Rightarrow> chat_message" where
  "message role text = \<lparr>cm_role = str_lower role, cm_text = text\<rparr>"

lemma window_window: "window m (window m xs @ ys) = window m (xs @ ys)"
  by (cases "length xs \<le> nat (2 * m)") (auto simp: window_def add.commute)

lemma history_add_messages: "0 \<le> vh_max_turns h \<Longrightarrow> history_add role text h = h\<lparr>vh_messages := window (vh_max_turns h) (vh_messages h @ [message role text])\<rparr>"
proof -
  assume m: "0 \<le> vh_max_turns h"
  let ?xs = "vh_messages h @ [message role text]"
  have e: "nat (int (length ?xs) - vh_max_turns h * 2) = length ?xs - nat (2 * vh_max_turns h)" using m by linarith
  have z: "\<not> vh_max_turns h * 2 < int (length ?xs) \<Longrightarrow> length ?xs - nat (2 * vh_max_turns h) = 0" using m by linarith
  show ?thesis
    using e z by (auto simp: history_add_def Let_def window_def message_def [symmetric])
qed

lemma history_window:
  assumes "0 \<le> m"
  shows "vh_messages (foldl (\<lambda>h (role, text). history_add role text h) (new_history m) adds) = window m (map (\<lambda>(role, text). message role text) adds) \<and>
    vh_max_turns (foldl (\<lambda>h (role, text). history_add role text h) (new_history m) adds) = m"
proof (induction adds rule: rev_induct)
  case Nil
  then show ?case by (simp add: new_history_def window_def)
next
  case (snoc a adds)
  obtain role tx where a: "a = (role, tx)" by force
  from snoc assms show ?case by (simp add: a history_add_messages window_window)
qed

section \<open>Responses\<close>

definition history_text :: "chat_message list \<Rightarrow> utext" where
  "history_text ms = concat (map (\<lambda>m. prompt_line m @ [10]) ms)"

lemma to_prompt_text: "to_prompt h = history_text (vh_messages h) @ utext_of ''Assistant: ''"
proof -
  have "join_lines (xs @ [x]) = concat (map (\<lambda>l. l @ [10]) xs) @ x" for xs and x :: utext
  proof (induction xs)
    case (Cons y ys)
    then show ?case by (cases ys) auto
  qed simp
  then show ?thesis by (simp add: to_prompt_def history_text_def comp_def)
qed

lemma history_add_last:
  assumes "0 < vh_max_turns h"
  shows "vh_messages (history_add role text h) = window (vh_max_turns h) (vh_messages h @ [message role text])"
    "\<exists>ms. \<forall>text. vh_messages (history_add role text h) = ms @ [message role text]"
proof -
  have w: "vh_messages (history_add role tx h) = window (vh_max_turns h) (vh_messages h @ [message role tx])" for tx
    using assms by (simp add: history_add_messages)
  show "vh_messages (history_add role text h) = window (vh_max_turns h) (vh_messages h @ [message role text])" by (rule w)
  have "length (vh_messages h) + 1 - nat (2 * vh_max_turns h) \<le> length (vh_messages h)" using assms by linarith
  then show "\<exists>ms. \<forall>text. vh_messages (history_add role text h) = ms @ [message role text]"
    unfolding w by (intro exI [of _ "drop (length (vh_messages h) + 1 - nat (2 * vh_max_turns h)) (vh_messages h)"]) (simp add: window_def)
qed

text \<open>The prompt keeps its first 256 bytes: when the earlier messages fill them, the new one is not seen.\<close>

lemma response_blind:
  assumes "vh_messages (history_add ''human'' t1 h) = ms @ [message ''human'' t1]" "vh_messages (history_add ''human'' t2 h) = ms @ [message ''human'' t2]"
    and "utf8_encode (history_text ms) = Inr pre" "max_seq \<le> length pre" "list_all scalar t1" "list_all scalar t2"
  shows "fst (generate_response next_byte t1 n h) = fst (generate_response next_byte t2 n h)"
proof -
  have enc: "\<exists>rest. utf8_encode (to_prompt (history_add ''human'' t h)) = Inr (pre @ rest)"
    if "vh_messages (history_add ''human'' t h) = ms @ [message ''human'' t]" "list_all scalar t" for t
  proof -
    have p: "to_prompt (history_add ''human'' t h) = history_text ms @ prompt_line (message ''human'' t) @ [10] @ utext_of ''Assistant: ''"
      unfolding to_prompt_text that(1) by (simp add: history_text_def)
    have "list_all scalar (prompt_line (message ''human'' t) @ [10] @ utext_of ''Assistant: '')"
      using that(2) by (simp add: prompt_line_def message_def utext_of_def scalar_def list_all_iff)
    then show ?thesis using assms(3) unfolding p utf8_encode_def by (auto split: if_splits)
  qed
  obtain r1 r2 where "utf8_encode (to_prompt (history_add ''human'' t1 h)) = Inr (pre @ r1)"
    "utf8_encode (to_prompt (history_add ''human'' t2 h)) = Inr (pre @ r2)"
    using enc [OF assms(1,5)] enc [OF assms(2,6)] by blast
  then show ?thesis using assms(4) by (simp add: generate_response_def Let_def)
qed

lemma generate_tokens_shape:
  "length (generate_tokens f ids n) \<le> n \<and> 10 \<notin> set (butlast (generate_tokens f ids n))"
proof (induction n arbitrary: ids)
  case (Suc n)
  show ?case using Suc [of "ids @ [f (drop (length ids - max_seq) ids)]"] by (auto simp: Let_def)
qed simp

lemma generate_response_outcome:
  assumes "fst (generate_response f t n h) = Inr r"
  shows "r \<noteq> []" "\<not> list_all (\<lambda>c. c = replacement) r"
    "snd (generate_response f t n h) = history_add ''assistant'' r (history_add ''human'' t h)"
proof -
  have fb: "fallback_response \<noteq> []" "\<not> list_all (\<lambda>c. c = replacement) fallback_response"
    by (simp_all add: fallback_response_def utext_of_def replacement_def)
  show "r \<noteq> []" "\<not> list_all (\<lambda>c. c = replacement) r"
    "snd (generate_response f t n h) = history_add ''assistant'' r (history_add ''human'' t h)"
    using assms fb by (auto simp: generate_response_def Let_def split: sum.splits if_splits)
qed

section \<open>Sentences\<close>

definition visible :: "utext \<Rightarrow> utext" where
  "visible s = filter (\<lambda>c. \<not> uni_space c) s"

lemma visible_simps [simp]: "visible [] = []" "visible (a @ b) = visible a @ visible b"
  by (simp_all add: visible_def)

lemma visible_dropWhile: "visible (dropWhile uni_space s) = visible s"
  by (induction s) (auto simp: visible_def)

lemma visible_rev: "visible (rev s) = rev (visible s)"
  by (simp add: visible_def rev_filter)

lemma visible_strip: "visible (uni_strip s) = visible s"
  by (simp add: uni_strip_def visible_rev visible_dropWhile)

lemma split_parts_visible: "concat (map visible (split_parts after current s)) = visible (current @ s)"
proof (induction after current s rule: split_parts.induct)
  case (2 after current c s)
  then show ?case by (auto simp: visible_dropWhile) (simp_all add: visible_def)
qed simp

text \<open>Cutting into sentences loses only white space.\<close>

lemma split_sentences_visible: "concat (map visible (split_sentences text)) = visible text"
proof -
  have f: "concat (map visible (filter (\<lambda>s. s \<noteq> []) ss)) = concat (map visible ss)" for ss
    by (induction ss) auto
  have "concat (map visible (filter (\<lambda>s. s \<noteq> []) (map uni_strip (split_parts False [] text)))) = visible text"
    unfolding f by (simp add: comp_def visible_strip split_parts_visible)
  then show ?thesis by (simp add: split_sentences_def Let_def visible_strip)
qed

lemma split_sentences_nonempty: "uni_strip text \<noteq> [] \<Longrightarrow> [] \<notin> set (split_sentences text)"
  by (auto simp: split_sentences_def Let_def)

lemma uni_strip_blank: "uni_strip s = [] \<longleftrightarrow> visible s = []"
proof -
  have "uni_strip s = [] \<longleftrightarrow> dropWhile uni_space s = []"
  proof (cases "dropWhile uni_space s")
    case (Cons x xs)
    then have "\<not> uni_space x" using hd_dropWhile [of uni_space s] by simp
    then show ?thesis by (simp add: uni_strip_def Cons del: rev.simps dropWhile_eq_Nil_conv) (simp add: dropWhile_eq_Nil_conv)
  qed (simp add: uni_strip_def del: dropWhile_eq_Nil_conv)
  then show ?thesis by (simp add: visible_def filter_empty_conv dropWhile_eq_Nil_conv)
qed

lemma split_sentences_blank: "uni_strip text = [] \<Longrightarrow> [] \<in> set (split_sentences text)"
proof -
  assume b: "uni_strip text = []"
  have "concat (map visible (split_parts False [] text)) = []" using b by (simp add: split_parts_visible uni_strip_blank)
  then have "filter (\<lambda>s. s \<noteq> []) (map uni_strip (split_parts False [] text)) = []"
    by (auto simp: filter_empty_conv uni_strip_blank)
  then show ?thesis by (simp add: split_sentences_def Let_def b)
qed

section \<open>Sessions\<close>

text \<open>The replies to a list of utterances, until one of them fails.\<close>

fun replies :: "voice_env \<Rightarrow> history \<Rightarrow> bytes list \<Rightarrow> ws_event list" where
  "replies env h [] = []"
| "replies env h (u # us) =
     (case process_utterance env u h of
        (Inl e, h') \<Rightarrow> [CloseError]
      | (Inr (transcript, response_text, audio_chunks), h') \<Rightarrow>
          map SendBytes audio_chunks @ [SendSummary transcript response_text] @ replies env h' us)"

fun chunks_of_session :: "ws_data list \<Rightarrow> bytes list" where
  "chunks_of_session [] = []"
| "chunks_of_session (d # ds) = (case wd_bytes d of Some (x # xs) \<Rightarrow> [x # xs] | _ \<Rightarrow> []) @ chunks_of_session ds"

lemma voice_loop_replies: "voice_loop env h b msgs = replies env h (fst (feed_all (chunks_of_session msgs) b))"
proof (induction msgs arbitrary: h b)
  case (Cons data rest)
  show ?case
  proof (cases "\<exists>x xs. wd_bytes data = Some (x # xs)")
    case True
    then obtain x xs where d: "wd_bytes data = Some (x # xs)" by blast
    obtain ut b' where f: "feed (x # xs) b = (ut, b')" by force
    show ?thesis
      by (auto simp: d f Cons.IH split: prod.splits option.splits sum.splits)
  next
    case False
    then have "chunks_of_session (data # rest) = chunks_of_session rest" "voice_loop env h b (data # rest) = voice_loop env h b rest"
      by (auto split: option.splits list.splits)
    then show ?thesis using Cons.IH by simp
  qed
qed simp

text \<open>
  A session told turn by turn: a turn is a transcript, its response and the audio of the response; the history the
  pipeline works with is the last 20 messages of the turns before.
\<close>

definition turn_messages :: "(utext \<times> utext \<times> bytes list) list \<Rightarrow> chat_message list" where
  "turn_messages turns = concat (map (\<lambda>(t, r, _). [message ''human'' t, message ''assistant'' r]) turns)"

definition session_history :: "(utext \<times> utext \<times> bytes list) list \<Rightarrow> history" where
  "session_history turns =
     \<lparr>vh_messages = drop (length (turn_messages turns) - 20) (turn_messages turns), vh_max_turns = 10\<rparr>"

definition turn_events :: "(utext \<times> utext \<times> bytes list) list \<Rightarrow> ws_event list" where
  "turn_events turns = concat (map (\<lambda>(t, r, audio). map SendBytes audio @ [SendSummary t r]) turns)"

definition response_to :: "voice_env \<Rightarrow> (utext \<times> utext \<times> bytes list) list \<Rightarrow> utext \<Rightarrow> utext result" where
  "response_to env turns t = fst (generate_response (ve_next_byte env) t 50 (session_history turns))"

definition answered :: "voice_env \<Rightarrow> (utext \<times> utext \<times> bytes list) list \<Rightarrow> bytes \<Rightarrow> utext \<times> utext \<times> bytes list \<Rightarrow> bool" where
  "answered env turns u = (\<lambda>(t, r, audio). transcribe (ve_whisper env) u = Inr t
     \<and> response_to env turns t = Inr r \<and> synthesize_stream (ve_engine env) r = Inr audio)"

definition unanswered :: "voice_env \<Rightarrow> (utext \<times> utext \<times> bytes list) list \<Rightarrow> bytes \<Rightarrow> bool" where
  "unanswered env turns u \<longleftrightarrow>
     isl (rbind (transcribe (ve_whisper env) u) (\<lambda>t. rbind (response_to env turns t) (synthesize_stream (ve_engine env))))"

lemma session_history_add:
  "history_add ''assistant'' r (history_add ''human'' t (session_history turns)) = session_history (turns @ [(t, r, a)])"
proof -
  have w: "vh_messages (session_history ts) = window 10 (turn_messages ts)" for ts
    by (simp add: session_history_def window_def)
  have "turn_messages (turns @ [(t, r, a)]) = turn_messages turns @ [message ''human'' t, message ''assistant'' r]"
    by (simp add: turn_messages_def)
  moreover have "window 10 (window 10 (window 10 (turn_messages turns) @ [x]) @ [y]) = window 10 (turn_messages turns @ [x, y])" for x y
    by (simp add: window_window)
  ultimately show ?thesis
    by (simp add: history_add_messages session_history_def window_def)
qed

lemma generate_response_history:
  "fst (generate_response next_byte t n h) = Inr r \<Longrightarrow>
     generate_response next_byte t n h = (Inr r, history_add ''assistant'' r (history_add ''human'' t h))"
  by (auto simp: generate_response_def Let_def split: sum.splits)

lemma process_utterance_turn:
  shows "answered env turns u (t, r, a) \<Longrightarrow>
      process_utterance env u (session_history turns) = (Inr (t, r, a), session_history (turns @ [(t, r, a)]))"
    and "(\<nexists>turn. answered env turns u turn) \<Longrightarrow>
      unanswered env turns u \<and> isl (fst (process_utterance env u (session_history turns)))"
proof -
  assume "answered env turns u (t, r, a)"
  then have t: "transcribe (ve_whisper env) u = Inr t" and a: "synthesize_stream (ve_engine env) r = Inr a"
    and r: "fst (generate_response (ve_next_byte env) t 50 (session_history turns)) = Inr r"
    by (auto simp: answered_def response_to_def)
  from generate_response_history [OF r] session_history_add [of r t turns a]
  have "generate_response (ve_next_byte env) t 50 (session_history turns) = (Inr r, session_history (turns @ [(t, r, a)]))"
    by simp
  with t a show "process_utterance env u (session_history turns) = (Inr (t, r, a), session_history (turns @ [(t, r, a)]))"
    by (simp add: process_utterance_def)
next
  assume no: "\<nexists>turn. answered env turns u turn"
  show "unanswered env turns u \<and> isl (fst (process_utterance env u (session_history turns)))"
  proof (cases "transcribe (ve_whisper env) u")
    case (Inl e)
    then show ?thesis by (simp add: unanswered_def process_utterance_def)
  next
    case t: (Inr t)
    show ?thesis
    proof (cases "response_to env turns t")
      case (Inl e)
      with t show ?thesis
        by (cases "generate_response (ve_next_byte env) t 50 (session_history turns)")
           (simp add: unanswered_def process_utterance_def response_to_def)
    next
      case r: (Inr r)
      from no t r have "isl (synthesize_stream (ve_engine env) r)"
        by (cases "synthesize_stream (ve_engine env) r") (auto simp: answered_def)
      with t r show ?thesis
        by (cases "generate_response (ve_next_byte env) t 50 (session_history turns)";
            cases "synthesize_stream (ve_engine env) r")
           (simp_all add: unanswered_def process_utterance_def response_to_def)
    qed
  qed
qed

lemma replies_turns:
  "\<exists>new. length new \<le> length us \<and> replies env (session_history turns) us
       = turn_events new @ (if length new < length us then [CloseError] else [])
     \<and> (\<forall>i < length new. answered env (turns @ take i new) (us ! i) (new ! i))
     \<and> (length new < length us \<longrightarrow> unanswered env (turns @ new) (us ! length new))"
proof (induction us arbitrary: turns)
  case Nil
  show ?case by (intro exI [of _ "[]"]) (simp add: turn_events_def)
next
  case (Cons u us)
  show ?case
  proof (cases "\<exists>turn. answered env turns u turn")
    case True
    then obtain t r a where turn: "answered env turns u (t, r, a)" by auto
    from Cons.IH [of "turns @ [(t, r, a)]"] obtain new where
      new: "length new \<le> length us"
        "replies env (session_history (turns @ [(t, r, a)])) us = turn_events new @ (if length new < length us then [CloseError] else [])"
        "\<forall>i < length new. answered env ((turns @ [(t, r, a)]) @ take i new) (us ! i) (new ! i)"
        "length new < length us \<longrightarrow> unanswered env ((turns @ [(t, r, a)]) @ new) (us ! length new)" by blast
    have all: "answered env (turns @ take i ((t, r, a) # new)) ((u # us) ! i) (((t, r, a) # new) ! i)"
      if "i < length ((t, r, a) # new)" for i
      using that turn new(3) by (cases i) auto
    show ?thesis
      by (intro exI [of _ "(t, r, a) # new"])
         (use new all process_utterance_turn(1) [OF turn] in \<open>simp add: turn_events_def\<close>)
  next
    case False
    from process_utterance_turn(2) [OF False] show ?thesis
      by (intro exI [of _ "[]"]) (auto simp: turn_events_def isl_def split: prod.splits)
  qed
qed

text \<open>The properties of the voice assistant (\<open>labs/voice-assistant\<close>), with the inputs that witness their hypotheses.\<close>

text \<open>C34: Feeding a stream of chunks cuts it as the state machine promises: every chunk belongs to leading silence, to
  one utterance or to the recording still open; an utterance starts with speech, ends at the first point where
  \<open>limit\<close> silent chunks stand in a row, and is returned whole and in order; the buffer holds the open recording.\<close>

theorem utterances_of_stream:
  assumes "0 < limit"
  shows "\<exists>r. segments thr limit cs (fst (feed_all cs (new_audio_buffer thr limit))) r \<and>
    ab_buffer (snd (feed_all cs (new_audio_buffer thr limit))) = concat r \<and>
    (is_recording (snd (feed_all cs (new_audio_buffer thr limit))) \<longleftrightarrow> r \<noteq> [])"
  using feed_all_segments [OF assms, of thr cs] by (auto simp: buffer_ok_def is_recording_def)

theorem utterances_of_stream_witness:
  "\<exists>r. segments (1 / 50) 2 [[0, 0], [0, 64], [0, 0], [0, 0]] (fst (feed_all [[0, 0], [0, 64], [0, 0], [0, 0]] (new_audio_buffer (1 / 50) 2))) r \<and>
    ab_buffer (snd (feed_all [[0, 0], [0, 64], [0, 0], [0, 0]] (new_audio_buffer (1 / 50) 2))) = concat r"
  using utterances_of_stream [of 2 "1 / 50" "[[0, 0], [0, 64], [0, 0], [0, 0]]"] by auto

text \<open>C36: A session of the service answers the utterances of the stream of its nonempty binary frames in order,
  until one of them fails, which closes the connection: for each, the audio of the response's sentences and then the
  summary. The transcript is that of the utterance; the response is the one to the transcript with the last 20
  messages of all the turns of the session before it; the audio is that of the response.\<close>

theorem session_answers_utterances:
  assumes "us = fst (feed_all (chunks_of_session msgs) (new_audio_buffer (2 / 100) 50))"
  shows "\<exists>turns. length turns \<le> length us
     \<and> voice_websocket env msgs = turn_events turns @ (if length turns < length us then [CloseError] else [])
     \<and> (\<forall>i < length turns. answered env (take i turns) (us ! i) (turns ! i))
     \<and> (length turns < length us \<longrightarrow> unanswered env turns (us ! length turns))"
proof -
  have "session_history [] = new_history 10" by (simp add: session_history_def turn_messages_def new_history_def)
  then have "voice_websocket env msgs = replies env (session_history []) us"
    by (simp add: voice_websocket_def voice_loop_replies orchestrator_history_def new_history_def [of 10] assms)
  with replies_turns [of us env "[]"] show ?thesis by simp
qed

theorem session_answers_utterances_witness:
  "\<exists>turns. turns = [] \<and> voice_websocket \<lparr>ve_whisper = \<lambda>_. Inl (OtherError ''no model''), ve_next_byte = \<lambda>_. 10, ve_engine = Inr\<rparr>
     (map (\<lambda>c. \<lparr>wd_bytes = Some c, wd_text = None\<rparr>) ([0, 64] # replicate 50 [0, 0])) = turn_events turns @ [CloseError]"
proof -
  let ?env = "\<lparr>ve_whisper = \<lambda>_. Inl (OtherError ''no model''), ve_next_byte = \<lambda>_. 10, ve_engine = Inr\<rparr>"
  let ?msgs = "map (\<lambda>c. \<lparr>wd_bytes = Some c, wd_text = None\<rparr>) ([0, 64] # replicate 50 [0, 0])"
  have sp: "is_speech [0, 64] (2 / 100)" "\<not> is_speech [0, 0] (2 / 100)"
    by (simp_all add: is_speech_def rms_def sample16_def Let_def real_sqrt_mult)
  have "chunks_of_session ?msgs = [0, 64] # replicate 50 [0, 0]" by (simp add: eval_nat_numeral)
  moreover have "fst (feed_all ([0, 64] # replicate 50 [0, 0]) (new_audio_buffer (2 / 100) 50)) = [[0, 64] @ replicate 100 0]"
    using sp by (simp add: eval_nat_numeral feed_def new_audio_buffer_def reset_buffer_def Let_def)
  ultimately have us: "[[0, 64] @ replicate 100 0] = fst (feed_all (chunks_of_session ?msgs) (new_audio_buffer (2 / 100) 50))" by simp
  have no: "\<not> answered ?env ts (x # u) turn" for ts x u turn
    by (auto simp: answered_def transcribe_def rbind_def split: prod.splits sum.splits)
  from session_answers_utterances [OF us, of ?env] obtain turns where
    turns: "voice_websocket ?env ?msgs = turn_events turns @ (if length turns < 1 then [CloseError] else [])"
    and each: "\<forall>i < length turns. answered ?env (take i turns) ([[0, 64] @ replicate 100 0] ! i) (turns ! i)" by auto
  have "turns = []" using each no [of "[]" 0 "64 # replicate 100 0"] by (cases turns) auto
  with turns show ?thesis by simp
qed

text \<open>C35: The prompt is cut to its first 256 bytes, the oldest: once the messages before the last fill them, the
  response does not depend on what the user says.\<close>

theorem long_history_hides_message:
  assumes "vh_messages (history_add ''human'' t1 h) = ms @ [message ''human'' t1]"
    and "vh_messages (history_add ''human'' t2 h) = ms @ [message ''human'' t2]"
    and "utf8_encode (history_text ms) = Inr pre" and "max_seq \<le> length pre" and "list_all scalar t1" and "list_all scalar t2"
  shows "fst (generate_response next_byte t1 n h) = fst (generate_response next_byte t2 n h)"
  by (rule response_blind [OF assms])

theorem long_history_hides_message_witness:
  "fst (generate_response (\<lambda>ids. length ids mod 256) (utext_of ''stop'') 50 \<lparr>vh_messages = [message ''human'' (replicate 300 97)], vh_max_turns = 10\<rparr>) =
   fst (generate_response (\<lambda>ids. length ids mod 256) (utext_of ''go'') 50 \<lparr>vh_messages = [message ''human'' (replicate 300 97)], vh_max_turns = 10\<rparr>)"
proof -
  let ?ms = "[message ''human'' (replicate 300 97)]"
  have "list_all scalar (history_text ?ms)"
    by (simp add: history_text_def prompt_line_def message_def utext_of_def scalar_def list_all_iff str_lower_def)
  then have e: "utf8_encode (history_text ?ms) = Inr (concat (map utf8_encode_cp (history_text ?ms)))" by (simp add: utf8_encode_def)
  have l: "length bs \<le> length (concat (map utf8_encode_cp bs))" for bs
    by (induction bs) (auto simp: utf8_encode_cp_def)
  have "max_seq \<le> length (history_text ?ms)" by (simp add: max_seq_def history_text_def prompt_line_def message_def)
  then have big: "max_seq \<le> length (concat (map utf8_encode_cp (history_text ?ms)))" using l order_trans by blast
  show ?thesis
    by (rule long_history_hides_message [OF _ _ e big])
      (simp_all add: history_add_def message_def utext_of_def scalar_def str_lower_def lower_char_def)
qed

text \<open>Cutting a response into sentences loses only white space and gives no empty sentence unless the response
  is blank.\<close>

theorem sentences_keep_text:
  "concat (map visible (split_sentences text)) = visible text \<and> ([] \<in> set (split_sentences text) \<longleftrightarrow> uni_strip text = [])"
  using split_sentences_visible split_sentences_nonempty split_sentences_blank by blast

section \<open>Smaller facts\<close>

text \<open>The samples of a WAV file of whole samples come back.\<close>

lemma wav_samples_come_back: "even (length pcm) \<Longrightarrow> wav_of_pcm pcm = Inr w \<Longrightarrow> pcm_of_wav w = Inr pcm"
  by (simp add: wav_round_trip)

text \<open>The most negative sample has more energy than the documented maximum.\<close>

lemma rms_above_one: "1 < rms [0, 128]"
proof -
  have "sqrt (1073741824 :: real) = 32768" by (rule real_sqrt_unique) simp_all
  then show ?thesis by (simp add: rms_def sample16_def Let_def)
qed

text \<open>A configured history that is still empty is replaced by a new one.\<close>

lemma empty_history_replaced: "orchestrator_history (Some (new_history 2)) = new_history 10"
  by (simp add: orchestrator_history_def new_history_def)

end
