(* ===== verification/PromptOpt.thy ===== *)
theory PromptOpt
  imports Complex_Main PyText PyJson
begin

text \<open>
  Signatures, modules and few-shot compilation: \<open>labs/prompt-optimization/src/v0_signature.py\<close>,
  \<open>v1_bootstrap.py\<close> and \<open>evaluate.py\<close>. The injected LLM is a function of the prompt on a state of its own, so it may
  answer anything, or raise, at each call. A metric is a total predicate, as its documentation says.
\<close>

section \<open>Signatures\<close>

record prompt_signature =
  sg_inputs :: "string list"
  sg_outputs :: "string list"
  sg_instructions :: string

definition new_signature :: "string list \<Rightarrow> string list \<Rightarrow> string \<Rightarrow> prompt_signature result" where
  "new_signature inputs outputs instructions =
     (if inputs = [] then Inl (ValueError ''Signature must have at least one input field'')
      else if outputs = [] then Inl (ValueError ''Signature must have at least one output field'')
      else Inr \<lparr>sg_inputs = inputs, sg_outputs = outputs, sg_instructions = instructions\<rparr>)"

text \<open>The field values of a call or an answer, by field name.\<close>

type_synonym fields = "(string, string) pydict"

record labeled_example =
  le_inputs :: fields
  le_outputs :: fields
  le_label :: "bool option"

type_synonym metric = "labeled_example \<Rightarrow> fields \<Rightarrow> bool"

section \<open>Modules\<close>

text \<open>The state of a \<open>FewShotModule\<close> beside its signature.\<close>

record few_shot =
  fs_n_demos :: int
  fs_demos :: "labeled_example list"
  fs_compiled :: bool

datatype prompt_module =
    ZeroShot prompt_signature
  | ChainOfThought prompt_signature
  | FewShotModule prompt_signature few_shot

fun module_signature :: "prompt_module \<Rightarrow> prompt_signature" where
  "module_signature (ZeroShot sg) = sg"
| "module_signature (ChainOfThought sg) = sg"
| "module_signature (FewShotModule sg _) = sg"

definition new_few_shot :: "prompt_signature \<Rightarrow> int \<Rightarrow> prompt_module" where
  "new_few_shot sg n_demos = FewShotModule sg \<lparr>fs_n_demos = n_demos, fs_demos = [], fs_compiled = False\<rparr>"

text \<open>The parts of a prompt that the modules share.\<close>

definition instruction_lines :: "prompt_signature \<Rightarrow> string list" where
  "instruction_lines sg = (if sg_instructions sg \<noteq> [] then [sg_instructions sg, []] else [])"

definition field_line :: "fields \<Rightarrow> string \<Rightarrow> string" where
  "field_line d field_name = field_name @ '': '' @ dget_or d field_name []"

definition output_label :: "string \<Rightarrow> string" where
  "output_label field_name = field_name @ '':''"

definition module_build_prompt :: "prompt_signature \<Rightarrow> fields \<Rightarrow> string" where
  "module_build_prompt sg inputs =
     str_join nl (instruction_lines sg @ map (field_line inputs) (sg_inputs sg) @ map output_label (sg_outputs sg))"

definition reasoning_field :: string where
  "reasoning_field = ''reasoning''"

definition cot_build_prompt :: "prompt_signature \<Rightarrow> fields \<Rightarrow> string" where
  "cot_build_prompt sg inputs =
     str_join nl (instruction_lines sg @ map (field_line inputs) (sg_inputs sg)
       @ [reasoning_field @ '': Let'' @ [CHR 0x27] @ ''s think step by step.''] @ map output_label (sg_outputs sg))"

definition demo_lines :: "prompt_signature \<Rightarrow> nat \<times> labeled_example \<Rightarrow> string list" where
  "demo_lines sg = (\<lambda>(i, demo).
     [''--- Example '' @ nat_str i @ '' ---''] @ map (field_line (le_inputs demo)) (sg_inputs sg)
     @ map (field_line (le_outputs demo)) (sg_outputs sg) @ [[]])"

definition fewshot_build_prompt :: "prompt_signature \<Rightarrow> labeled_example list \<Rightarrow> fields \<Rightarrow> string" where
  "fewshot_build_prompt sg demos inputs =
     str_join nl (instruction_lines sg @ concat (map (demo_lines sg) (enumerate 1 demos))
       @ (if demos \<noteq> [] then [''--- Your turn ---''] else [])
       @ map (field_line inputs) (sg_inputs sg) @ map output_label (sg_outputs sg))"

fun prompt_of_module :: "prompt_module \<Rightarrow> fields \<Rightarrow> string" where
  "prompt_of_module (ZeroShot sg) inputs = module_build_prompt sg inputs"
| "prompt_of_module (ChainOfThought sg) inputs = cot_build_prompt sg inputs"
| "prompt_of_module (FewShotModule sg fs) inputs = fewshot_build_prompt sg (fs_demos fs) inputs"

section \<open>Parsing an answer\<close>

text \<open>The text after the label of a field, on the first line that begins with it, ignoring case.\<close>

definition labelled_value :: "string \<Rightarrow> string \<Rightarrow> string option" where
  "labelled_value field_name response =
     (let prefix = str_lower (field_name @ '':'')
      in map_option (\<lambda>line. str_strip (drop (length prefix) line))
           (List.find (\<lambda>line. is_prefix_of prefix (str_lower line)) (splitlines response)))"

definition parse_fields :: "prompt_signature \<Rightarrow> string \<Rightarrow> fields" where
  "parse_fields sg response =
     foldl (\<lambda>result field_name. dset result field_name
       (case labelled_value field_name response of Some v \<Rightarrow> v | None \<Rightarrow> str_strip response)) [] (sg_outputs sg)"

definition cot_parse_fields :: "prompt_signature \<Rightarrow> string \<Rightarrow> fields" where
  "cot_parse_fields sg response =
     (let result = parse_fields sg response
      in case labelled_value reasoning_field response of Some v \<Rightarrow> dset result reasoning_field v | None \<Rightarrow> result)"

fun parse_of_module :: "prompt_module \<Rightarrow> string \<Rightarrow> fields" where
  "parse_of_module (ChainOfThought sg) response = cot_parse_fields sg response"
| "parse_of_module (ZeroShot sg) response = parse_fields sg response"
| "parse_of_module (FewShotModule sg _) response = parse_fields sg response"

section \<open>Calls\<close>

type_synonym 's llm_fn = "string \<Rightarrow> 's \<Rightarrow> string result \<times> 's"

definition default_llm :: "'s llm_fn" where
  "default_llm prompt s = (Inr (nat_str (length prompt)), s)"

text \<open>\<open>f(**inputs)\<close> on a method: an input of the name of its first parameter is a second value for it.\<close>

definition second_self :: "string \<Rightarrow> py_exn" where
  "second_self method = TypeError (method @ ''() got multiple values for argument '' @ [CHR 0x27] @ ''self'' @ [CHR 0x27])"

definition module_forward :: "'s llm_fn \<Rightarrow> prompt_module \<Rightarrow> fields \<Rightarrow> 's \<Rightarrow> fields result \<times> 's" where
  "module_forward llm m inputs s =
     (if dhas inputs ''self'' then (Inl (second_self ''Module.forward''), s)
      else case llm (prompt_of_module m inputs) s of
             (Inl e, s') \<Rightarrow> (Inl e, s')
           | (Inr response, s') \<Rightarrow> (Inr (parse_of_module m response), s'))"

definition dict_update :: "fields \<Rightarrow> fields \<Rightarrow> fields" where
  "dict_update d e = foldl (\<lambda>d (k, v). dset d k v) d e"

text \<open>A pipeline: its modules, each with its own LLM.\<close>

fun pipeline_loop :: "('s llm_fn \<times> prompt_module) list \<Rightarrow> fields \<Rightarrow> 's \<Rightarrow> fields result \<times> 's" where
  "pipeline_loop [] context s = (Inr context, s)"
| "pipeline_loop ((llm, m) # ms) context s =
     (case module_forward llm m context s of
        (Inl e, s') \<Rightarrow> (Inl e, s')
      | (Inr outputs, s') \<Rightarrow> pipeline_loop ms (dict_update context outputs) s')"

definition pipeline_forward :: "('s llm_fn \<times> prompt_module) list \<Rightarrow> fields \<Rightarrow> 's \<Rightarrow> fields result \<times> 's" where
  "pipeline_forward ms inputs s =
     (if dhas inputs ''self'' then (Inl (second_self ''Pipeline.forward''), s) else pipeline_loop ms inputs s)"

section \<open>Metrics and evaluation\<close>

definition exact_match_metric :: metric where
  "exact_match_metric ex prediction \<longleftrightarrow>
     list_all (\<lambda>(key, expected). str_lower (str_strip expected) = str_lower (str_strip (dget_or prediction key []))) (le_outputs ex)"

definition contains_metric :: metric where
  "contains_metric ex prediction \<longleftrightarrow>
     list_all (\<lambda>(key, expected). is_substring (str_lower (str_strip expected)) (str_lower (str_strip (dget_or prediction key []))))
       (le_outputs ex)"

record evaluation_result =
  ev_accuracy :: real
  ev_total :: nat
  ev_correct :: nat
  ev_examples :: "(labeled_example \<times> fields \<times> bool) list"

definition error_prediction :: "prompt_module \<Rightarrow> py_exn \<Rightarrow> fields" where
  "error_prediction m e = foldl (\<lambda>d k. dset d k (''ERROR: '' @ exn_text e)) [] (sg_outputs (module_signature m))"

fun evaluate_loop :: "'s llm_fn \<Rightarrow> metric \<Rightarrow> prompt_module \<Rightarrow> labeled_example list \<Rightarrow>
    (labeled_example \<times> fields \<times> bool) list \<Rightarrow> nat \<Rightarrow> 's \<Rightarrow> ((labeled_example \<times> fields \<times> bool) list \<times> nat) \<times> 's" where
  "evaluate_loop llm metric m [] results correct s = ((results, correct), s)"
| "evaluate_loop llm metric m (ex # exs) results correct s =
     (let (r, s') = module_forward llm m (le_inputs ex) s;
          prediction = (case r of Inr p \<Rightarrow> p | Inl e \<Rightarrow> error_prediction m e);
          passed = metric ex prediction
      in evaluate_loop llm metric m exs (results @ [(ex, prediction, passed)]) (if passed then correct + 1 else correct) s')"

definition evaluate_module :: "'s llm_fn \<Rightarrow> prompt_module \<Rightarrow> labeled_example list \<Rightarrow> metric \<Rightarrow> 's \<Rightarrow> evaluation_result \<times> 's" where
  "evaluate_module llm m evalset metric s =
     (let ((results, correct), s') = evaluate_loop llm metric m evalset [] 0 s; total_count = length evalset
      in (\<lparr>ev_accuracy = (if total_count > 0 then real correct / real total_count else 0),
           ev_total = total_count, ev_correct = correct, ev_examples = results\<rparr>, s'))"

section \<open>Bootstrapping demonstrations\<close>

fun bootstrap_loop :: "'s llm_fn \<Rightarrow> metric \<Rightarrow> prompt_module \<Rightarrow> int \<Rightarrow> labeled_example list \<Rightarrow> labeled_example list \<Rightarrow> 's
    \<Rightarrow> labeled_example list \<times> 's" where
  "bootstrap_loop llm metric m n_demos [] successful s = (successful, s)"
| "bootstrap_loop llm metric m n_demos (ex # exs) successful s =
     (case module_forward llm m (le_inputs ex) s of
        (Inl _, s') \<Rightarrow> bootstrap_loop llm metric m n_demos exs successful s'
      | (Inr prediction, s') \<Rightarrow>
          let successful' = (if metric ex prediction
                             then successful @ [\<lparr>le_inputs = le_inputs ex, le_outputs = prediction, le_label = Some True\<rparr>]
                             else successful)
          in if n_demos \<le> int (length successful') then (successful', s')
             else bootstrap_loop llm metric m n_demos exs successful' s')"

definition bootstrap :: "'s llm_fn \<Rightarrow> int \<Rightarrow> prompt_module \<Rightarrow> labeled_example list \<Rightarrow> metric \<Rightarrow> 's \<Rightarrow> labeled_example list \<times> 's" where
  "bootstrap llm n_demos m trainset metric s =
     (let (successful, s') = bootstrap_loop llm metric m n_demos trainset [] s in (take_int n_demos successful, s'))"

text \<open>\<open>FewShotModule.compile\<close>: the demonstrations come from \<open>base_module\<close>, with its own LLM, or from a zero-shot module
  with the signature and the LLM of the few-shot module.\<close>

definition fewshot_compile :: "'s llm_fn \<Rightarrow> prompt_signature \<Rightarrow> few_shot \<Rightarrow> labeled_example list \<Rightarrow> metric \<Rightarrow>
    ('s llm_fn \<times> prompt_module) option \<Rightarrow> 's \<Rightarrow> prompt_module \<times> 's" where
  "fewshot_compile llm sg fs trainset metric base_module s =
     (let (source_llm, source) = (case base_module of Some b \<Rightarrow> b | None \<Rightarrow> (llm, ZeroShot sg));
          (demos, s') = bootstrap source_llm (fs_n_demos fs) source trainset metric s
      in (FewShotModule sg (fs\<lparr>fs_demos := demos, fs_compiled := True\<rparr>), s'))"

definition set_demos :: "labeled_example list \<Rightarrow> few_shot \<Rightarrow> few_shot" where
  "set_demos demos fs = fs\<lparr>fs_demos := demos, fs_compiled := True\<rparr>"

end
