(* ===== verification/PromptTele.thy ===== *)
theory PromptTele
  imports PromptOpt
begin

text \<open>
  The optimizers and the service: \<open>labs/prompt-optimization/src/v2_teleprompter.py\<close> and \<open>server.py\<close>. The
  parameter \<open>draw\<close> stands for the random choice of \<open>random.sample\<close>: the positions, of \<open>n\<close> elements, of a sample of \<open>k\<close>.
\<close>

section \<open>The budget\<close>

definition calls_exceeded :: "nat \<Rightarrow> int \<Rightarrow> py_exn" where
  "calls_exceeded used limit =
     RuntimeError (''Budget exceeded: used '' @ nat_str used @ '' LLM calls, limit is '' @ int_str limit)"

text \<open>\<open>_CallCounter\<close>: the state of the LLM with the number of calls before it.\<close>

definition counted :: "'s llm_fn \<Rightarrow> int \<Rightarrow> (nat \<times> 's) llm_fn" where
  "counted llm max_calls prompt = (\<lambda>(count, s).
     if max_calls < int (count + 1) then (Inl (calls_exceeded (count + 1) max_calls), (count + 1, s))
     else let (r, s') = llm prompt s in (r, (count + 1, s')))"

section \<open>Sampling\<close>

type_synonym 'r draws = "nat \<Rightarrow> nat \<Rightarrow> 'r \<Rightarrow> nat list \<times> 'r"

definition rng_sample :: "'r draws \<Rightarrow> 'a list \<Rightarrow> int \<Rightarrow> 'r \<Rightarrow> 'a list result \<times> 'r" where
  "rng_sample draw xs k r =
     (if k < 0 \<or> int (length xs) < k then (Inl (ValueError ''Sample larger than population or is negative''), r)
      else let (ix, r') = draw (length xs) (nat k) r in (Inr (map ((!) xs) ix), r'))"

section \<open>Trials\<close>

record prompt_history =
  ph_iteration :: nat
  ph_instruction :: string
  ph_demos :: "labeled_example list"
  ph_val_accuracy :: real
  ph_llm_calls :: nat

text \<open>A trial: the module is evaluated and its entry recorded.\<close>

definition run_trial :: "(nat \<times> 's) llm_fn \<Rightarrow> prompt_module \<Rightarrow> labeled_example list \<Rightarrow> metric \<Rightarrow> nat \<Rightarrow> string
    \<Rightarrow> labeled_example list \<Rightarrow> nat \<times> 's \<Rightarrow> prompt_history \<times> nat \<times> 's" where
  "run_trial llm m vals metric i instruction demos s =
     (let (result, s') = evaluate_module llm m vals metric s
      in (\<lparr>ph_iteration = i, ph_instruction = instruction, ph_demos = demos, ph_val_accuracy = ev_accuracy result,
           ph_llm_calls = fst s' - fst s\<rparr>, s'))"

section \<open>Optimizing the instruction\<close>

fun instruction_loop :: "(nat \<times> 's) llm_fn \<Rightarrow> metric \<Rightarrow> prompt_signature \<Rightarrow> labeled_example list \<Rightarrow> (nat \<times> string) list
    \<Rightarrow> prompt_history list \<Rightarrow> real \<Rightarrow> string \<Rightarrow> nat \<times> 's \<Rightarrow> (prompt_history list \<times> string) result \<times> nat \<times> 's" where
  "instruction_loop llm metric base vals [] history best_accuracy best s = (Inr (history, best), s)"
| "instruction_loop llm metric base vals ((i, instruction) # rest) history best_accuracy best s =
     (case new_signature (sg_inputs base) (sg_outputs base) instruction of
        Inl e \<Rightarrow> (Inl e, s)
      | Inr sg \<Rightarrow>
          let (entry, s') = run_trial llm (new_few_shot sg 5) vals metric i instruction [] s;
              better = (best_accuracy < ph_val_accuracy entry)
          in instruction_loop llm metric base vals rest (history @ [entry])
               (if better then ph_val_accuracy entry else best_accuracy) (if better then instruction else best) s')"

record instruction_optimizer =
  oi_metric :: metric
  oi_candidates :: "string list"
  oi_val_subset_size :: int
  oi_max_llm_calls :: int

definition optimize_instructions :: "'r draws \<Rightarrow> 'r \<Rightarrow> instruction_optimizer \<Rightarrow> prompt_signature \<Rightarrow> 's llm_fn
    \<Rightarrow> labeled_example list \<Rightarrow> 's \<Rightarrow> (prompt_module \<times> prompt_history list) result \<times> 's" where
  "optimize_instructions draw rng oi base llm valset s =
     (case fst (rng_sample draw valset (min (oi_val_subset_size oi) (int (length valset))) rng) of
        Inl e \<Rightarrow> (Inl e, s)
      | Inr vals \<Rightarrow>
          let (r, (count, s')) = instruction_loop (counted llm (oi_max_llm_calls oi)) (oi_metric oi) base vals
                (enumerate 0 (oi_candidates oi)) [] (- 1) (sg_instructions base) (0, s)
          in (rbind r (\<lambda>(history, best).
                rmap (\<lambda>sg. (new_few_shot sg 5, history)) (new_signature (sg_inputs base) (sg_outputs base) best)), s'))"

section \<open>Random search over demonstrations\<close>

definition sample_demos :: "'r draws \<Rightarrow> labeled_example list \<Rightarrow> int \<Rightarrow> 'r \<Rightarrow> labeled_example list result \<times> 'r" where
  "sample_demos draw pool max_demos r =
     (let n = min max_demos (int (length pool))
      in if n \<le> int (length pool) then rng_sample draw pool n r else (Inr pool, r))"

definition demo_module :: "prompt_signature \<Rightarrow> labeled_example list \<Rightarrow> prompt_module" where
  "demo_module sg demos = FewShotModule sg (set_demos demos \<lparr>fs_n_demos = 5, fs_demos = [], fs_compiled = False\<rparr>)"

fun trial_loop :: "(nat \<times> 's) llm_fn \<Rightarrow> 'r draws \<Rightarrow> metric \<Rightarrow> prompt_signature \<Rightarrow> int \<Rightarrow> labeled_example list \<Rightarrow> labeled_example list
    \<Rightarrow> nat list \<Rightarrow> prompt_history list \<Rightarrow> real \<Rightarrow> labeled_example list \<Rightarrow> 'r \<Rightarrow> nat \<times> 's
    \<Rightarrow> (prompt_history list \<times> labeled_example list) result \<times> nat \<times> 's" where
  "trial_loop llm draw metric sg max_demos pool valset [] history best_accuracy best r s = (Inr (history, best), s)"
| "trial_loop llm draw metric sg max_demos pool valset (t # ts) history best_accuracy best r s =
     (case sample_demos draw pool max_demos r of
        (Inl e, r') \<Rightarrow> (Inl e, s)
      | (Inr demos, r') \<Rightarrow>
          let (entry, s') = run_trial llm (demo_module sg demos) valset metric t (sg_instructions sg) demos s;
              better = (best_accuracy < ph_val_accuracy entry)
          in trial_loop llm draw metric sg max_demos pool valset ts (history @ [entry])
               (if better then ph_val_accuracy entry else best_accuracy) (if better then demos else best) r' s')"

record random_search =
  rs_max_bootstrapped_demos :: int
  rs_num_trials :: int
  rs_max_llm_calls :: int

text \<open>The module to optimize gives its signature and its LLM; demonstrations come from a zero-shot module.\<close>

definition random_search_compile :: "'r draws \<Rightarrow> 'r \<Rightarrow> random_search \<Rightarrow> 's llm_fn \<Rightarrow> prompt_signature \<Rightarrow> labeled_example list
    \<Rightarrow> labeled_example list \<Rightarrow> metric \<Rightarrow> 's \<Rightarrow> (prompt_module \<times> prompt_history list) result \<times> 's" where
  "random_search_compile draw rng opt llm sg trainset valset metric s =
     (let counter = counted llm (rs_max_llm_calls opt);
          (pool, s1) = bootstrap counter (int (length trainset)) (ZeroShot sg) trainset metric (0, s);
          (r, (count, s')) = trial_loop counter draw metric sg (rs_max_bootstrapped_demos opt) pool valset
            [0..<nat (rs_num_trials opt)] [] (- 1) [] rng s1
      in (rmap (\<lambda>(history, best). (demo_module sg best, history)) r, s'))"

section \<open>The service\<close>

record prompt_server =
  pv_compiled :: "prompt_module option"
  pv_history :: "prompt_history list"

definition new_prompt_server :: prompt_server where
  "new_prompt_server = \<lparr>pv_compiled = None, pv_history = []\<rparr>"

record signature_model =
  sm_inputs :: "string list"
  sm_outputs :: "string list"
  sm_instructions :: string

definition signature_of_model :: "signature_model \<Rightarrow> prompt_signature result" where
  "signature_of_model q = new_signature (sm_inputs q) (sm_outputs q) (sm_instructions q)"

record compile_request =
  cq_signature :: signature_model
  cq_trainset :: "(fields \<times> fields) list"
  cq_valset :: "(fields \<times> fields) list"
  cq_num_trials :: int
  cq_max_bootstrapped_demos :: int
  cq_max_llm_calls :: int

record compile_response =
  cr_status :: string
  cr_demos_selected :: nat
  cr_trials_run :: nat
  cr_best_val_accuracy :: real

record po_forward_request =
  fq_signature :: signature_model
  fq_inputs :: fields
  fq_use_compiled :: bool

record forward_response =
  fw_outputs :: fields
  fw_prompt_length :: nat

definition mock_llm :: "unit llm_fn" where
  "mock_llm prompt s = (Inr (nat_str (length prompt)), s)"

definition example_of_model :: "fields \<times> fields \<Rightarrow> labeled_example" where
  "example_of_model = (\<lambda>(inputs, outputs). \<lparr>le_inputs = inputs, le_outputs = outputs, le_label = None\<rparr>)"

fun module_demos :: "prompt_module \<Rightarrow> labeled_example list" where
  "module_demos (FewShotModule _ fs) = fs_demos fs"
| "module_demos _ = []"

definition max_or_zero :: "real list \<Rightarrow> real" where
  "max_or_zero xs = (case xs of [] \<Rightarrow> 0 | x # rest \<Rightarrow> foldl max x rest)"

definition po_health :: "prompt_server \<Rightarrow> (string, string) pydict" where
  "po_health p = [(''status'', ''ok''), (''compiled'', if pv_compiled p \<noteq> None then ''True'' else ''False'')]"

definition po_compile :: "'r draws \<Rightarrow> 'r \<Rightarrow> compile_request \<Rightarrow> prompt_server \<Rightarrow> compile_response http \<times> prompt_server" where
  "po_compile draw rng req p =
     (case rbind (signature_of_model (cq_signature req)) (\<lambda>sg.
             fst (random_search_compile draw rng
               \<lparr>rs_max_bootstrapped_demos = cq_max_bootstrapped_demos req, rs_num_trials = cq_num_trials req,
                rs_max_llm_calls = cq_max_llm_calls req\<rparr>
               mock_llm sg (map example_of_model (cq_trainset req)) (map example_of_model (cq_valset req)) exact_match_metric ())) of
        Inl e \<Rightarrow> (Inl (Uncaught e), p)
      | Inr (compiled, history) \<Rightarrow>
          (Inr \<lparr>cr_status = ''compiled'', cr_demos_selected = length (module_demos compiled), cr_trials_run = length history,
                cr_best_val_accuracy = max_or_zero (map ph_val_accuracy history)\<rparr>,
           \<lparr>pv_compiled = Some compiled, pv_history = history\<rparr>))"

definition po_forward :: "po_forward_request \<Rightarrow> prompt_server \<Rightarrow> forward_response http" where
  "po_forward req p =
     uncaught (rbind (signature_of_model (fq_signature req)) (\<lambda>sg.
       let m = (case pv_compiled p of Some c \<Rightarrow> if fq_use_compiled req then c else ZeroShot sg | None \<Rightarrow> ZeroShot sg);
           prompt = prompt_of_module m (fq_inputs req)
       in rmap (\<lambda>outputs. \<lparr>fw_outputs = outputs, fw_prompt_length = length prompt\<rparr>)
            (fst (module_forward mock_llm m (fq_inputs req) ()))))"

record history_entry =
  he_iteration :: nat
  he_instruction :: string
  he_val_accuracy :: real
  he_llm_calls :: nat
  he_demo_count :: nat

definition po_history :: "prompt_server \<Rightarrow> history_entry list" where
  "po_history p = map (\<lambda>h. \<lparr>he_iteration = ph_iteration h, he_instruction = ph_instruction h,
     he_val_accuracy = ph_val_accuracy h, he_llm_calls = ph_llm_calls h, he_demo_count = length (ph_demos h)\<rparr>) (pv_history p)"

end
