(* ===== verification/PromptProperties.thy ===== *)
theory PromptProperties
  imports PromptTele
begin

text \<open>
  Results on the prompt optimizers. \<open>answering\<close> is the contract of an LLM that answers as a function of the prompt while a
  budget lasts; under it evaluation and bootstrapping have closed forms. \<open>keeping\<close> is the contract of an invariant of the
  LLM's state. \<open>search_run\<close> is the abstract run of the trials.
\<close>

section \<open>Modules over a function\<close>

definition answers :: "(string \<Rightarrow> string) \<Rightarrow> prompt_module \<Rightarrow> fields \<Rightarrow> fields result" where
  "answers f m inputs =
     (if dhas inputs ''self'' then Inl (second_self ''Module.forward'')
      else Inr (parse_of_module m (f (prompt_of_module m inputs))))"

definition prediction_of :: "(string \<Rightarrow> string) \<Rightarrow> prompt_module \<Rightarrow> labeled_example \<Rightarrow> fields" where
  "prediction_of f m ex = (case answers f m (le_inputs ex) of Inr p \<Rightarrow> p | Inl e \<Rightarrow> error_prediction m e)"

definition accuracy_on :: "(string \<Rightarrow> string) \<Rightarrow> metric \<Rightarrow> prompt_module \<Rightarrow> labeled_example list \<Rightarrow> real" where
  "accuracy_on f metric m vals =
     (if vals = [] then 0 else real (length (filter (\<lambda>ex. metric ex (prediction_of f m ex)) vals)) / real (length vals))"

text \<open>The examples a module gets right, with what it answered.\<close>

fun right_demos :: "(string \<Rightarrow> string) \<Rightarrow> metric \<Rightarrow> prompt_module \<Rightarrow> labeled_example list \<Rightarrow> labeled_example list" where
  "right_demos f metric m [] = []"
| "right_demos f metric m (ex # exs) =
     (case answers f m (le_inputs ex) of
        Inl _ \<Rightarrow> []
      | Inr p \<Rightarrow> if metric ex p then [\<lparr>le_inputs = le_inputs ex, le_outputs = p, le_label = Some True\<rparr>] else [])
     @ right_demos f metric m exs"

lemma right_demos_sound:
  "d \<in> set (right_demos f metric m exs) \<Longrightarrow> \<exists>ex\<in>set exs. le_inputs d = le_inputs ex \<and>
     answers f m (le_inputs ex) = Inr (le_outputs d) \<and> metric ex (le_outputs d)"
  by (induction exs) (auto split: sum.splits if_splits)

locale answering =
  fixes llm :: "'s llm_fn"
    and f :: "string \<Rightarrow> string"
    and budget :: "nat \<Rightarrow> 's \<Rightarrow> bool"
  assumes answer: "budget (Suc n) s \<Longrightarrow> \<exists>s'. llm p s = (Inr (f p), s') \<and> budget n s'"
    and spare: "budget (Suc n) s \<Longrightarrow> budget n s"
begin

lemma spare_all: "budget (k + n) s \<Longrightarrow> budget n s"
  by (induction k) (auto intro: spare)

lemma forward:
  assumes "budget (Suc n) s"
  obtains s' where "module_forward llm m i s = (answers f m i, s')" "budget n s'"
proof (cases "dhas i ''self''")
  case True
  then show ?thesis using spare [OF assms] by (intro that [of s]) (simp_all add: module_forward_def answers_def)
next
  case False
  obtain s' where "llm (prompt_of_module m i) s = (Inr (f (prompt_of_module m i)), s')" "budget n s'"
    using answer [OF assms] by blast
  then show ?thesis using False by (intro that [of s']) (simp_all add: module_forward_def answers_def)
qed

lemma evaluate_loop_answers:
  "budget (length exs + n) s \<Longrightarrow>
   \<exists>s'. evaluate_loop llm metric m exs res c s =
     ((res @ map (\<lambda>ex. (ex, prediction_of f m ex, metric ex (prediction_of f m ex))) exs,
       c + length (filter (\<lambda>ex. metric ex (prediction_of f m ex)) exs)), s') \<and> budget n s'"
proof (induction exs arbitrary: res c s)
  case (Cons ex exs)
  let ?p = "prediction_of f m ex"
  obtain s1 where s1: "module_forward llm m (le_inputs ex) s = (answers f m (le_inputs ex), s1)" "budget (length exs + n) s1"
    using forward [of "length exs + n" s] Cons.prems by auto
  have "evaluate_loop llm metric m (ex # exs) res c s =
      evaluate_loop llm metric m exs (res @ [(ex, ?p, metric ex ?p)]) (if metric ex ?p then c + 1 else c) s1"
    by (simp add: s1(1) prediction_of_def [symmetric] Let_def)
  then show ?case using Cons.IH [OF s1(2), of "res @ [(ex, ?p, metric ex ?p)]" "if metric ex ?p then c + 1 else c"] by auto
qed simp

lemma evaluate_answers:
  assumes "budget (length vals + n) s"
  shows "\<exists>result s'. evaluate_module llm m vals metric s = (result, s') \<and> budget n s' \<and>
    ev_accuracy result = accuracy_on f metric m vals"
proof -
  obtain s' where "evaluate_loop llm metric m vals [] 0 s =
      (([] @ map (\<lambda>ex. (ex, prediction_of f m ex, metric ex (prediction_of f m ex))) vals,
        0 + length (filter (\<lambda>ex. metric ex (prediction_of f m ex)) vals)), s')" and "budget n s'"
    using evaluate_loop_answers [OF assms, of metric m "[]" 0] by blast
  then show ?thesis by (simp add: evaluate_module_def accuracy_on_def Let_def)
qed

lemma bootstrap_loop_answers:
  "budget (length exs + n) s \<Longrightarrow>
   \<exists>found s'. bootstrap_loop llm metric m nd exs acc s = (found, s') \<and> budget n s' \<and>
     take_int nd found = take_int nd (acc @ right_demos f metric m exs)" if "0 \<le> nd" for nd
proof (induction exs arbitrary: acc s)
  case (Cons ex exs)
  obtain s1 where s1: "module_forward llm m (le_inputs ex) s = (answers f m (le_inputs ex), s1)" "budget (length exs + n) s1"
    using forward [of "length exs + n" s] Cons.prems by auto
  have n: "budget n s1" by (rule spare_all [OF s1(2)])
  show ?case
  proof (cases "answers f m (le_inputs ex)")
    case (Inl e)
    with s1 Cons.IH [OF s1(2), of acc] show ?thesis by simp
  next
    case (Inr p)
    define acc' where "acc' = (if metric ex p then acc @ [\<lparr>le_inputs = le_inputs ex, le_outputs = p, le_label = Some True\<rparr>] else acc)"
    have all: "acc @ right_demos f metric m (ex # exs) = acc' @ right_demos f metric m exs" using Inr by (simp add: acc'_def)
    have step: "bootstrap_loop llm metric m nd (ex # exs) acc s =
        (if nd \<le> int (length acc') then (acc', s1) else bootstrap_loop llm metric m nd exs acc' s1)"
      by (simp add: s1(1) Inr acc'_def Let_def)
    show ?thesis
    proof (cases "nd \<le> int (length acc')")
      case True
      then have "take_int nd acc' = take_int nd (acc' @ xs)" for xs using that by (simp add: take_int_def)
      with True n show ?thesis by (simp only: step all) simp
    next
      case False
      with Cons.IH [OF s1(2), of acc'] show ?thesis by (simp only: step all) simp
    qed
  qed
qed simp

lemma bootstrap_answers:
  assumes "budget (length exs + n) s" and "0 \<le> nd"
  shows "\<exists>s'. bootstrap llm nd m exs metric s = (take_int nd (right_demos f metric m exs), s') \<and> budget n s'"
  using bootstrap_loop_answers [OF assms(2,1), of metric m "[]"] by (auto simp: bootstrap_def)

end

definition answering_llm :: "(string \<Rightarrow> string) \<Rightarrow> 's llm_fn" where
  "answering_llm f p s = (Inr (f p), s)"

interpretation pure: answering "answering_llm f" f "\<lambda>_ _. True" for f
  by unfold_locales (simp_all add: answering_llm_def)

interpretation cnt: answering "counted (answering_llm f) mx" f "\<lambda>n st. int (fst st + n) \<le> mx" for f mx
  by unfold_locales (auto simp: counted_def answering_llm_def)

section \<open>Invariants of the state of the LLM\<close>

locale keeping =
  fixes llm :: "'s llm_fn" and P :: "'s \<Rightarrow> bool"
  assumes keeps: "P s \<Longrightarrow> P (snd (llm p s))"
begin

lemma keeps_forward: "P s \<Longrightarrow> P (snd (module_forward llm m i s))"
  using keeps [of s "prompt_of_module m i"] by (auto simp: module_forward_def split: prod.splits sum.splits)

lemma keeps_evaluate_loop: "P s \<Longrightarrow> P (snd (evaluate_loop llm metric m exs res c s))"
proof (induction exs arbitrary: res c s)
  case (Cons ex exs)
  obtain r s1 where "module_forward llm m (le_inputs ex) s = (r, s1)" by (cases "module_forward llm m (le_inputs ex) s")
  with keeps_forward [OF Cons.prems, of m "le_inputs ex"] show ?case by (simp add: Let_def Cons.IH)
qed simp

lemma keeps_evaluate: "P s \<Longrightarrow> P (snd (evaluate_module llm m vals metric s))"
  using keeps_evaluate_loop [of s metric m vals "[]" 0]
  by (auto simp: evaluate_module_def Let_def split: prod.splits)

lemma keeps_bootstrap_loop: "P s \<Longrightarrow> P (snd (bootstrap_loop llm metric m nd exs acc s))"
proof (induction exs arbitrary: acc s)
  case (Cons ex exs)
  obtain r s1 where r: "module_forward llm m (le_inputs ex) s = (r, s1)" by (cases "module_forward llm m (le_inputs ex) s")
  have "P s1" using keeps_forward [OF Cons.prems, of m "le_inputs ex"] r by simp
  then show ?case using r by (cases r) (simp_all add: Let_def Cons.IH)
qed simp

lemma keeps_bootstrap: "P s \<Longrightarrow> P (snd (bootstrap llm nd m exs metric s))"
  using keeps_bootstrap_loop [of s metric m nd exs "[]"]
  by (cases "bootstrap_loop llm metric m nd exs [] s") (simp add: bootstrap_def)

end

text \<open>An LLM that records the prompts it is called with.\<close>

definition logged :: "'s llm_fn \<Rightarrow> (string list \<times> 's) llm_fn" where
  "logged llm prompt = (\<lambda>(log, s). let (r, s') = llm prompt s in (r, (log @ [prompt], s')))"

definition within_budget :: "int \<Rightarrow> string list \<Rightarrow> nat \<times> string list \<times> 's \<Rightarrow> bool" where
  "within_budget mx log0 st \<longleftrightarrow>
     (\<exists>made. fst (snd st) = log0 @ made \<and> length made \<le> nat mx \<and> length made \<le> fst st)"

interpretation bud: keeping "counted (logged llm) mx" "within_budget mx log0" for llm :: "'s llm_fn" and mx log0
proof
  fix st :: "nat \<times> string list \<times> 's" and p
  obtain c lg s where st: "st = (c, lg, s)" by (cases st)
  assume "within_budget mx log0 st"
  then obtain made where made: "lg = log0 @ made" "length made \<le> nat mx" "length made \<le> c"
    by (auto simp: within_budget_def st)
  show "within_budget mx log0 (snd (counted (logged llm) mx p st))"
  proof (cases "mx < int (c + 1)")
    case True
    then show ?thesis using made by (auto simp: counted_def within_budget_def st)
  next
    case False
    obtain r s' where "llm p s = (r, s')" by (cases "llm p s")
    moreover have "length (made @ [p]) \<le> nat mx" "length (made @ [p]) \<le> c + 1" using False made by auto
    ultimately show ?thesis using False made(1)
      by (auto simp: counted_def logged_def within_budget_def st intro!: exI [of _ "made @ [p]"])
  qed
qed

section \<open>The run of a search\<close>

text \<open>\<open>random.sample\<close> gives \<open>k\<close> different positions.\<close>

definition draws_ok :: "'r draws \<Rightarrow> bool" where
  "draws_ok draw \<longleftrightarrow>
     (\<forall>n k r. k \<le> n \<longrightarrow> distinct (fst (draw n k r)) \<and> length (fst (draw n k r)) = k \<and> (\<forall>i\<in>set (fst (draw n k r)). i < n))"

definition sample_of :: "'a list \<Rightarrow> nat \<Rightarrow> 'a list \<Rightarrow> bool" where
  "sample_of pool k xs \<longleftrightarrow> (\<exists>ix. xs = map ((!) pool) ix \<and> distinct ix \<and> length ix = k \<and> (\<forall>i\<in>set ix. i < length pool))"

lemma sample_of_subset: "sample_of pool k xs \<Longrightarrow> set xs \<subseteq> set pool \<and> length xs = k"
  by (auto simp: sample_of_def)

lemma sample_demos_ok:
  assumes "draws_ok draw" and "0 \<le> mx"
  shows "\<exists>demos r'. sample_demos draw pool mx r = (Inr demos, r') \<and> sample_of pool (min (nat mx) (length pool)) demos"
proof -
  let ?k = "min mx (int (length pool))"
  obtain ix r' where d: "draw (length pool) (nat ?k) r = (ix, r')" by (cases "draw (length pool) (nat ?k) r")
  have "nat ?k \<le> length pool" by simp
  with assms(1) d have ix: "distinct ix" "length ix = nat ?k" "\<forall>i\<in>set ix. i < length pool"
    unfolding draws_ok_def by (metis fst_conv)+
  moreover have "nat ?k = min (nat mx) (length pool)" using assms(2) by simp
  ultimately have "sample_of pool (min (nat mx) (length pool)) (map ((!) pool) ix)" by (auto simp: sample_of_def)
  then show ?thesis using d assms(2) by (simp add: sample_demos_def rng_sample_def Let_def)
qed

inductive search_run :: "(nat \<times> 's) llm_fn \<Rightarrow> metric \<Rightarrow> prompt_signature \<Rightarrow> nat \<Rightarrow> labeled_example list \<Rightarrow> labeled_example list
    \<Rightarrow> nat list \<Rightarrow> prompt_history list \<Rightarrow> nat \<times> 's \<Rightarrow> nat \<times> 's \<Rightarrow> bool"
  for llm metric sg k pool vals where
  done_all: "search_run llm metric sg k pool vals [] [] s s"
| trial: "sample_of pool k demos \<Longrightarrow>
    run_trial llm (demo_module sg demos) vals metric t (sg_instructions sg) demos s = (entry, s1) \<Longrightarrow>
    search_run llm metric sg k pool vals ts hs s1 s2 \<Longrightarrow> search_run llm metric sg k pool vals (t # ts) (entry # hs) s s2"

text \<open>The best so far, with the key of its entry.\<close>

definition leader :: "(prompt_history \<Rightarrow> 'k) \<Rightarrow> prompt_history list \<Rightarrow> real \<times> 'k \<Rightarrow> real \<times> 'k" where
  "leader key hs b = foldl (\<lambda>(acc, v) h. if acc < ph_val_accuracy h then (ph_val_accuracy h, key h) else (acc, v)) b hs"

lemma leader_simps [simp]:
  "leader key [] b = b"
  "leader key (h # hs) b = leader key hs (if fst b < ph_val_accuracy h then (ph_val_accuracy h, key h) else b)"
  by (auto simp: leader_def split: prod.splits)

lemma leader_snoc: "leader key (hs @ [h]) b =
    (if fst (leader key hs b) < ph_val_accuracy h then (ph_val_accuracy h, key h) else leader key hs b)"
  by (auto simp: leader_def split: prod.splits)

lemma leader_first:
  assumes "\<forall>h\<in>set hs. 0 \<le> ph_val_accuracy h" and "hs \<noteq> []"
  shows "\<exists>i<length hs. leader key hs (- 1, v) = (ph_val_accuracy (hs ! i), key (hs ! i)) \<and>
    (\<forall>j<length hs. ph_val_accuracy (hs ! j) \<le> ph_val_accuracy (hs ! i)) \<and>
    (\<forall>j<i. ph_val_accuracy (hs ! j) < ph_val_accuracy (hs ! i))"
  using assms
proof (induction hs rule: rev_induct)
  case (snoc h hs)
  show ?case
  proof (cases "hs = []")
    case True
    then show ?thesis using snoc.prems by (auto simp: intro!: exI [of _ 0])
  next
    case False
    let ?a = "\<lambda>j. ph_val_accuracy ((hs @ [h]) ! j)"
    obtain i where i: "i < length hs" "leader key hs (- 1, v) = (?a i, key (hs ! i))"
      "\<forall>j<length hs. ?a j \<le> ?a i" "\<forall>j<i. ?a j < ?a i"
      using snoc.IH [OF _ False] snoc.prems by (auto simp: nth_append)
    have split: "(\<forall>j<length (hs @ [h]). Q j) \<longleftrightarrow> (\<forall>j<length hs. Q j) \<and> Q (length hs)" for Q
      by (auto simp: less_Suc_eq)
    show ?thesis
    proof (cases "?a i < ph_val_accuracy h")
      case True
      with i show ?thesis by (intro exI [of _ "length hs"]) (fastforce simp: leader_snoc split nth_append)
    next
      case False
      with i show ?thesis by (intro exI [of _ i]) (simp add: leader_snoc split nth_append)
    qed
  qed
qed simp

lemma trial_loop_run:
  assumes "draws_ok draw" and "0 \<le> mx"
  shows "\<exists>hs s'. trial_loop llm draw metric sg mx pool vals ts history b v r s =
      (Inr (history @ hs, snd (leader ph_demos hs (b, v))), s') \<and>
    search_run llm metric sg (min (nat mx) (length pool)) pool vals ts hs s s'"
proof (induction ts arbitrary: history b v r s)
  case Nil
  then show ?case using search_run.done_all by fastforce
next
  case (Cons t ts)
  obtain demos r' where d: "sample_demos draw pool mx r = (Inr demos, r')" "sample_of pool (min (nat mx) (length pool)) demos"
    using sample_demos_ok [OF assms, of pool r] by blast
  obtain e s1 where e: "run_trial llm (demo_module sg demos) vals metric t (sg_instructions sg) demos s = (e, s1)"
    by (cases "run_trial llm (demo_module sg demos) vals metric t (sg_instructions sg) demos s")
  have k: "ph_demos e = demos" using e by (auto simp: run_trial_def Let_def split: prod.splits)
  let ?b = "if b < ph_val_accuracy e then ph_val_accuracy e else b" and ?v = "if b < ph_val_accuracy e then demos else v"
  obtain hs s' where hs: "trial_loop llm draw metric sg mx pool vals ts (history @ [e]) ?b ?v r' s1 =
      (Inr ((history @ [e]) @ hs, snd (leader ph_demos hs (?b, ?v))), s')"
    "search_run llm metric sg (min (nat mx) (length pool)) pool vals ts hs s1 s'" using Cons.IH by metis
  have "trial_loop llm draw metric sg mx pool vals (t # ts) history b v r s =
      (Inr (history @ e # hs, snd (leader ph_demos (e # hs) (b, v))), s')"
    using hs(1) by (simp add: d(1) e k Let_def split: if_splits)
  with search_run.trial [OF d(2) e hs(2)] show ?case by blast
qed

section \<open>What a run gives\<close>

lemma evaluate_loop_count:
  "evaluate_loop llm metric m exs res c s = ((res', c'), s') \<Longrightarrow> c \<le> c' \<and> c' \<le> c + length exs"
proof (induction exs arbitrary: res c s)
  case (Cons ex exs)
  obtain r s1 where "module_forward llm m (le_inputs ex) s = (r, s1)" by (cases "module_forward llm m (le_inputs ex) s")
  with Cons.prems Cons.IH show ?case by (fastforce simp: Let_def split: if_splits)
qed simp

lemma evaluate_bounds:
  "evaluate_module llm m vals metric s = (r, s') \<Longrightarrow> 0 \<le> ev_accuracy r \<and> ev_accuracy r \<le> 1"
  using evaluate_loop_count [of llm metric m vals "[]" 0 s] by (auto simp: evaluate_module_def Let_def split: prod.splits)

lemma run_trial_entry:
  assumes "run_trial llm m vals metric t ins demos s = (entry, s1)"
  shows "ph_iteration entry = t" and "ph_instruction entry = ins" and "ph_demos entry = demos"
    and "0 \<le> ph_val_accuracy entry" and "ph_val_accuracy entry \<le> 1" and "s1 = snd (evaluate_module llm m vals metric s)"
  using assms evaluate_bounds [of llm m vals metric s] by (auto simp: run_trial_def Let_def split: prod.splits)

lemma search_run_entries:
  "search_run llm metric sg k pool vals ts hs s s' \<Longrightarrow>
   map ph_iteration hs = ts \<and> (\<forall>h\<in>set hs. 0 \<le> ph_val_accuracy h \<and> ph_val_accuracy h \<le> 1 \<and> sample_of pool k (ph_demos h))"
  by (induction rule: search_run.induct) (auto dest: run_trial_entry)

lemma search_run_budget:
  "search_run (counted (logged llm) mx) metric sg k pool vals ts hs s s' \<Longrightarrow> within_budget mx lg s \<Longrightarrow> within_budget mx lg s'"
proof (induction rule: search_run.induct)
  case (trial demos t s entry s1 ts hs s2)
  then show ?case using bud.keeps_evaluate [OF trial.prems, where m = "demo_module sg demos"] run_trial_entry(6) [OF trial(2)] by simp
qed simp

lemma search_run_accuracy:
  "search_run (counted (answering_llm f) mx) metric sg k pool vals ts hs s s' \<Longrightarrow>
   int (fst s + length ts * length vals) \<le> mx \<Longrightarrow>
   \<forall>h\<in>set hs. ph_val_accuracy h = accuracy_on f metric (demo_module sg (ph_demos h)) vals"
proof (induction rule: search_run.induct)
  case (trial demos t s entry s1 ts hs s2)
  have "int (fst s + (length vals + length ts * length vals)) \<le> mx" using trial.prems by simp
  then obtain result s' where r: "evaluate_module (counted (answering_llm f) mx) (demo_module sg demos) vals metric s = (result, s')"
    "int (fst s' + length ts * length vals) \<le> mx" "ev_accuracy result = accuracy_on f metric (demo_module sg demos) vals"
    using cnt.evaluate_answers by blast
  moreover have "ph_val_accuracy entry = ev_accuracy result" "s1 = s'"
    using trial(2) r(1) by (auto simp: run_trial_def)
  ultimately show ?case using trial.IH run_trial_entry(3) [OF trial(2)] by simp
qed simp

text \<open>The whole search: its pool, its run and its choice.\<close>

lemma random_search_run:
  assumes "draws_ok draw" and "0 \<le> rs_max_bootstrapped_demos opt"
    and "bootstrap (counted llm (rs_max_llm_calls opt)) (int (length trainset)) (ZeroShot sg) trainset metric (0, s) = (pool, s1)"
  shows "\<exists>hs s'. random_search_compile draw rng opt llm sg trainset valset metric s =
      (Inr (demo_module sg (snd (leader ph_demos hs (- 1, []))), hs), snd s') \<and>
    search_run (counted llm (rs_max_llm_calls opt)) metric sg (min (nat (rs_max_bootstrapped_demos opt)) (length pool)) pool valset
      [0..<nat (rs_num_trials opt)] hs s1 s'"
proof -
  obtain hs s' where "trial_loop (counted llm (rs_max_llm_calls opt)) draw metric sg (rs_max_bootstrapped_demos opt) pool valset
      [0..<nat (rs_num_trials opt)] [] (- 1) [] rng s1 = (Inr ([] @ hs, snd (leader ph_demos hs (- 1, []))), s')"
    and run: "search_run (counted llm (rs_max_llm_calls opt)) metric sg (min (nat (rs_max_bootstrapped_demos opt)) (length pool)) pool
      valset [0..<nat (rs_num_trials opt)] hs s1 s'"
    using trial_loop_run [OF assms(1,2)] by blast
  with assms(3) show ?thesis by (cases s') (auto simp: random_search_compile_def)
qed

text \<open>Small inputs: sampling takes the first elements.\<close>

definition first_draws :: "unit draws" where
  "first_draws n k r = ([0..<k], r)"

definition small_search :: "int \<Rightarrow> random_search" where
  "small_search calls = \<lparr>rs_max_bootstrapped_demos = 1, rs_num_trials = 2, rs_max_llm_calls = calls\<rparr>"

definition qa_signature :: prompt_signature where
  "qa_signature = \<lparr>sg_inputs = [''q''], sg_outputs = [''answer''], sg_instructions = []\<rparr>"

definition qa_example :: "string \<Rightarrow> string \<Rightarrow> labeled_example" where
  "qa_example q a = \<lparr>le_inputs = [(''q'', q)], le_outputs = [(''answer'', a)], le_label = None\<rparr>"

lemma first_draws_ok: "draws_ok first_draws"
  by (simp add: draws_ok_def first_draws_def)

text \<open>C37: When the budget suffices for a deterministic LLM, the random search returns a few-shot module whose demonstrations
  are a sample of the training examples that the zero-shot module gets right, with its answers; the history has one entry
  per trial with the accuracy of its module on the validation set, and no trial is better than the module returned.\<close>

theorem search_returns_best:
  assumes "draws_ok draw" and "0 \<le> rs_max_bootstrapped_demos opt" and "0 < rs_num_trials opt"
    and "int (length trainset + nat (rs_num_trials opt) * length valset) \<le> rs_max_llm_calls opt"
  shows "\<exists>demos history s'.
    random_search_compile draw rng opt (answering_llm f) sg trainset valset metric s = (Inr (demo_module sg demos, history), s') \<and>
    map ph_iteration history = [0..<nat (rs_num_trials opt)] \<and> demos \<in> set (map ph_demos history) \<and>
    (let right = right_demos f metric (ZeroShot sg) trainset
     in \<forall>h\<in>set history. sample_of right (min (nat (rs_max_bootstrapped_demos opt)) (length right)) (ph_demos h) \<and>
          ph_val_accuracy h = accuracy_on f metric (demo_module sg (ph_demos h)) valset \<and>
          ph_val_accuracy h \<le> accuracy_on f metric (demo_module sg demos) valset)"
proof -
  let ?mx = "rs_max_llm_calls opt" and ?right = "right_demos f metric (ZeroShot sg) trainset"
  have "length (right_demos f metric m exs) \<le> length exs" for m exs by (induction exs) (auto split: sum.splits)
  then have all: "take_int (int (length trainset)) ?right = ?right" by (simp add: take_int_def)
  obtain s1 where s1: "bootstrap (counted (answering_llm f) ?mx) (int (length trainset)) (ZeroShot sg) trainset metric (0, s) = (?right, s1)"
    "int (fst s1 + nat (rs_num_trials opt) * length valset) \<le> ?mx"
    using cnt.bootstrap_answers [of "(0, s)" trainset "nat (rs_num_trials opt) * length valset" ?mx "int (length trainset)" f "ZeroShot sg" metric]
      assms(4) unfolding all by auto
  obtain hs s' where hs: "random_search_compile draw rng opt (answering_llm f) sg trainset valset metric s =
      (Inr (demo_module sg (snd (leader ph_demos hs (- 1, []))), hs), snd s')"
    and run: "search_run (counted (answering_llm f) ?mx) metric sg (min (nat (rs_max_bootstrapped_demos opt)) (length ?right)) ?right
      valset [0..<nat (rs_num_trials opt)] hs s1 s'" using random_search_run [OF assms(1,2) s1(1)] by blast
  have acc: "\<forall>h\<in>set hs. ph_val_accuracy h = accuracy_on f metric (demo_module sg (ph_demos h)) valset"
    using search_run_accuracy [OF run] s1(2) by simp
  note entries = search_run_entries [OF run]
  then have "length hs = nat (rs_num_trials opt)" by (metis length_map length_upt minus_nat.diff_0)
  then have "hs \<noteq> []" using assms(3) by auto
  then obtain i where "i < length hs" "snd (leader ph_demos hs (- 1, [])) = ph_demos (hs ! i)"
    "\<forall>j<length hs. ph_val_accuracy (hs ! j) \<le> ph_val_accuracy (hs ! i)"
    using leader_first [of hs ph_demos "[]"] entries by fastforce
  then have "hs ! i \<in> set hs" "\<forall>h\<in>set hs. ph_val_accuracy h \<le> ph_val_accuracy (hs ! i)"
    "snd (leader ph_demos hs (- 1, [])) = ph_demos (hs ! i)" by (auto simp: in_set_conv_nth)
  then show ?thesis using hs acc entries
    by (intro exI [of _ "ph_demos (hs ! i)"] exI [of _ hs] exI [of _ "snd s'"]) (simp add: Let_def)
qed

theorem search_returns_best_witness:
  "\<exists>demos history s'. random_search_compile first_draws () (small_search 10) (answering_llm (\<lambda>p. ''answer: yes'')) qa_signature
     [qa_example ''a'' ''yes''] [qa_example ''b'' ''no''] exact_match_metric () = (Inr (demo_module qa_signature demos, history), s') \<and>
   map ph_iteration history = [0..<nat 2]"
proof -
  have "int (length [qa_example ''a'' ''yes''] + nat (rs_num_trials (small_search 10)) * length [qa_example ''b'' ''no''])
      \<le> rs_max_llm_calls (small_search 10)" by (simp add: small_search_def)
  then show ?thesis
    using search_returns_best [OF first_draws_ok, of "small_search 10" "[qa_example ''a'' ''yes'']" "[qa_example ''b'' ''no'']" "()"
        "\<lambda>p. ''answer: yes''" qa_signature exact_match_metric "()"]
    by (auto simp: small_search_def)
qed

text \<open>C38: Whatever the LLM does, an optimization never raises the documented \<open>BudgetExceededError\<close>, nor anything else, and makes at
  most \<open>max_llm_calls\<close> calls: once they are made the examples count as failed, and the accuracies of the trials, from 0 to
  1, decide all the same.\<close>

theorem search_within_budget:
  assumes "draws_ok draw" and "0 \<le> rs_max_bootstrapped_demos opt"
  shows "\<exists>demos history made s'.
    random_search_compile draw rng opt (logged llm) sg trainset valset metric (before, s) =
      (Inr (demo_module sg demos, history), (before @ made, s')) \<and>
    length made \<le> nat (rs_max_llm_calls opt) \<and> length history = nat (rs_num_trials opt) \<and>
    (\<forall>h\<in>set history. 0 \<le> ph_val_accuracy h \<and> ph_val_accuracy h \<le> 1)"
proof -
  let ?mx = "rs_max_llm_calls opt"
  obtain pool s1 where s1: "bootstrap (counted (logged llm) ?mx) (int (length trainset)) (ZeroShot sg) trainset metric (0, before, s) = (pool, s1)"
    by (cases "bootstrap (counted (logged llm) ?mx) (int (length trainset)) (ZeroShot sg) trainset metric (0, before, s)")
  have "within_budget ?mx before (0, before, s)" by (simp add: within_budget_def)
  from bud.keeps_bootstrap [OF this] s1 have w: "within_budget ?mx before s1" by (metis snd_conv)
  obtain hs s' where hs: "random_search_compile draw rng opt (logged llm) sg trainset valset metric (before, s) =
      (Inr (demo_module sg (snd (leader ph_demos hs (- 1, []))), hs), snd s')"
    and run: "search_run (counted (logged llm) ?mx) metric sg (min (nat (rs_max_bootstrapped_demos opt)) (length pool)) pool
      valset [0..<nat (rs_num_trials opt)] hs s1 s'" using random_search_run [OF assms s1] by blast
  note entries = search_run_entries [OF run]
  then have "length hs = nat (rs_num_trials opt)" by (metis length_map length_upt minus_nat.diff_0)
  moreover from search_run_budget [OF run w] obtain made where "fst (snd s') = before @ made" "length made \<le> nat ?mx"
    by (auto simp: within_budget_def)
  ultimately show ?thesis using hs entries
    by (intro exI [of _ "snd (leader ph_demos hs (- 1, []))"] exI [of _ hs] exI [of _ made] exI [of _ "snd (snd s')"])
       (simp add: prod_eq_iff)
qed

theorem search_within_budget_witness:
  "\<exists>demos history made s'.
    random_search_compile first_draws () (small_search 1) (logged mock_llm) qa_signature [qa_example ''a'' ''yes'']
      [qa_example ''b'' ''no''] exact_match_metric ([], ()) = (Inr (demo_module qa_signature demos, history), (made, s')) \<and>
    length made \<le> 1 \<and> length history = 2"
proof -
  have "0 \<le> rs_max_bootstrapped_demos (small_search 1)" by (simp add: small_search_def)
  from search_within_budget [OF first_draws_ok this, of "()" mock_llm qa_signature "[qa_example ''a'' ''yes'']"
      "[qa_example ''b'' ''no'']" exact_match_metric "[]" "()"]
  show ?thesis by (auto simp: small_search_def)
qed

section \<open>Optimizing the instruction\<close>

lemma instruction_loop_run:
  assumes "sg_inputs base \<noteq> []" and "sg_outputs base \<noteq> []"
  shows "within_budget mx lg s \<Longrightarrow>
    \<exists>hs s'. instruction_loop (counted (logged llm) mx) metric base vals (enumerate n is) history b v s =
      (Inr (history @ hs, snd (leader ph_instruction hs (b, v))), s') \<and> within_budget mx lg s' \<and>
    map ph_instruction hs = is \<and> (\<forall>h\<in>set hs. 0 \<le> ph_val_accuracy h)"
proof (induction "is" arbitrary: n history b v s)
  case Nil
  then show ?case by (intro exI [of _ "[]"]) simp
next
  case (Cons i "is")
  obtain sg where sg: "new_signature (sg_inputs base) (sg_outputs base) i = Inr sg" using assms by (simp add: new_signature_def)
  obtain e s1 where e: "run_trial (counted (logged llm) mx) (new_few_shot sg 5) vals metric n i [] s = (e, s1)"
    by (cases "run_trial (counted (logged llm) mx) (new_few_shot sg 5) vals metric n i [] s")
  note entry = run_trial_entry [OF e]
  have w: "within_budget mx lg s1" using bud.keeps_evaluate [OF Cons.prems, where m = "new_few_shot sg 5"] entry(6) by simp
  let ?b = "if b < ph_val_accuracy e then ph_val_accuracy e else b" and ?v = "if b < ph_val_accuracy e then i else v"
  obtain hs s' where hs: "instruction_loop (counted (logged llm) mx) metric base vals (enumerate (Suc n) is) (history @ [e]) ?b ?v s1 =
      (Inr ((history @ [e]) @ hs, snd (leader ph_instruction hs (?b, ?v))), s')"
    "within_budget mx lg s'" "map ph_instruction hs = is" "\<forall>h\<in>set hs. 0 \<le> ph_val_accuracy h"
    using Cons.IH [OF w, of "Suc n" "history @ [e]" ?b ?v] by blast
  have "instruction_loop (counted (logged llm) mx) metric base vals (enumerate n (i # is)) history b v s =
      (Inr (history @ e # hs, snd (leader ph_instruction (e # hs) (b, v))), s')"
    using hs(1) by (simp add: sg e entry(2) Let_def split: if_splits)
  then show ?case using hs entry(2,4) by (intro exI [of _ "e # hs"] exI [of _ s']) simp
qed

text \<open>Optimizing the instruction returns, whatever the LLM does and within the budget, a module without demonstrations that has
  the signature given and, of the candidates, the first one of the best accuracy, or the old instruction if there is none.\<close>

theorem instruction_search:
  assumes "draws_ok draw" and "0 \<le> oi_val_subset_size oi" and "sg_inputs base \<noteq> []" and "sg_outputs base \<noteq> []"
  shows "\<exists>best history made s'. optimize_instructions draw rng oi base (logged llm) valset (before, s) =
      (Inr (new_few_shot (base\<lparr>sg_instructions := best\<rparr>) 5, history), (before @ made, s')) \<and>
    length made \<le> nat (oi_max_llm_calls oi) \<and> map ph_instruction history = oi_candidates oi \<and>
    (if oi_candidates oi = [] then best = sg_instructions base
     else \<exists>i<length history. best = oi_candidates oi ! i \<and>
       (\<forall>j<length history. ph_val_accuracy (history ! j) \<le> ph_val_accuracy (history ! i)) \<and>
       (\<forall>j<i. ph_val_accuracy (history ! j) < ph_val_accuracy (history ! i)))"
proof -
  let ?k = "min (oi_val_subset_size oi) (int (length valset))"
  have "\<exists>vals. fst (rng_sample draw valset ?k rng) = Inr vals"
    using assms(2) by (cases "draw (length valset) (nat ?k) rng") (simp add: rng_sample_def)
  then obtain vals where vals: "fst (rng_sample draw valset ?k rng) = Inr vals" by blast
  have "within_budget (oi_max_llm_calls oi) before (0, before, s)" by (simp add: within_budget_def)
  from instruction_loop_run [OF assms(3,4) this]
  obtain hs st where hs: "instruction_loop (counted (logged llm) (oi_max_llm_calls oi)) (oi_metric oi) base vals
      (enumerate 0 (oi_candidates oi)) [] (- 1) (sg_instructions base) (0, before, s) =
      (Inr ([] @ hs, snd (leader ph_instruction hs (- 1, sg_instructions base))), st)"
    and w: "within_budget (oi_max_llm_calls oi) before st" and ins: "map ph_instruction hs = oi_candidates oi"
    and pos: "\<forall>h\<in>set hs. 0 \<le> ph_val_accuracy h" by blast
  obtain c lg s' where st: "st = (c, lg, s')" by (cases st)
  obtain made where made: "lg = before @ made" "length made \<le> nat (oi_max_llm_calls oi)" using w by (auto simp: within_budget_def st)
  define best where "best = snd (leader ph_instruction hs (- 1, sg_instructions base))"
  have "new_signature (sg_inputs base) (sg_outputs base) best = Inr (base\<lparr>sg_instructions := best\<rparr>)"
    using assms(3,4) by (cases base) (simp add: new_signature_def)
  then have run: "optimize_instructions draw rng oi base (logged llm) valset (before, s) =
      (Inr (new_few_shot (base\<lparr>sg_instructions := best\<rparr>) 5, hs), (before @ made, s'))"
    using hs by (simp add: optimize_instructions_def vals st made(1) best_def)
  have "if oi_candidates oi = [] then best = sg_instructions base
     else \<exists>i<length hs. best = oi_candidates oi ! i \<and>
       (\<forall>j<length hs. ph_val_accuracy (hs ! j) \<le> ph_val_accuracy (hs ! i)) \<and> (\<forall>j<i. ph_val_accuracy (hs ! j) < ph_val_accuracy (hs ! i))"
  proof (cases "hs = []")
    case True
    then show ?thesis using ins by (simp add: best_def)
  next
    case False
    from leader_first [OF pos False, of ph_instruction "sg_instructions base"] False show ?thesis
      by (auto simp: best_def ins [symmetric])
  qed
  with run made(2) ins show ?thesis by blast
qed

theorem instruction_search_witness:
  "\<exists>best history made s'. optimize_instructions first_draws ()
      \<lparr>oi_metric = exact_match_metric, oi_candidates = [''Be brief.''], oi_val_subset_size = 5, oi_max_llm_calls = 3\<rparr> qa_signature
      (logged mock_llm) [qa_example ''b'' ''no''] ([], ()) =
      (Inr (new_few_shot (qa_signature\<lparr>sg_instructions := best\<rparr>) 5, history), (made, s')) \<and> length made \<le> 3 \<and> best = ''Be brief.''"
proof -
  let ?oi = "\<lparr>oi_metric = exact_match_metric, oi_candidates = [''Be brief.''], oi_val_subset_size = 5, oi_max_llm_calls = 3\<rparr>"
  have "0 \<le> oi_val_subset_size ?oi" "sg_inputs qa_signature \<noteq> []" "sg_outputs qa_signature \<noteq> []" by (simp_all add: qa_signature_def)
  from instruction_search [OF first_draws_ok this, of "()" mock_llm "[qa_example ''b'' ''no'']" "[]" "()"]
  obtain best history made s' where r: "optimize_instructions first_draws () ?oi qa_signature (logged mock_llm) [qa_example ''b'' ''no''] ([], ()) =
      (Inr (new_few_shot (qa_signature\<lparr>sg_instructions := best\<rparr>) 5, history), ([] @ made, s'))" "length made \<le> 3"
      "length history = 1" "\<exists>i<length history. best = [''Be brief.''] ! i"
    by (auto dest: arg_cong [of _ _ length])
  then show ?thesis by auto
qed

section \<open>Answers read back\<close>

definition label_ok :: "string \<Rightarrow> bool" where
  "label_ok k \<longleftrightarrow> list_all (\<lambda>c. \<not> is_line_break c \<and> c \<noteq> CHR '':'') k"

definition value_ok :: "string \<Rightarrow> bool" where
  "value_ok v \<longleftrightarrow> str_strip v = v \<and> list_all (\<lambda>c. \<not> is_line_break c) v"

lemma prefix_to_mark: "c \<notin> set xs \<Longrightarrow> c \<notin> set ys \<Longrightarrow> is_prefix_of (xs @ [c]) (ys @ c # zs) \<longleftrightarrow> xs = ys"
proof (induction xs arbitrary: ys)
  case Nil
  then show ?case by (cases ys) auto
next
  case (Cons x xs)
  then show ?case by (cases ys) auto
qed

lemma lower_colon: "lower_char c = CHR '':'' \<longleftrightarrow> c = CHR '':''"
proof
  assume l: "lower_char c = CHR '':''"
  show "c = CHR '':''"
  proof (cases "65 \<le> (of_char c :: nat) \<and> (of_char c :: nat) \<le> 90")
    case True
    then have "(of_char (lower_char c) :: nat) = of_char c + 32" by (simp add: lower_char_def Let_def)
    then show ?thesis using l True by simp
  qed (use l in \<open>simp add: lower_char_def Let_def split: if_splits\<close>)
qed (simp add: lower_char_def)

lemma label_line:
  assumes "label_ok k" and "label_ok k'"
  shows "is_prefix_of (str_lower (k @ '':'')) (str_lower (field_line d k')) \<longleftrightarrow> str_lower k = str_lower k'"
proof -
  have "CHR '':'' \<notin> set (str_lower x)" if "label_ok x" for x
    using that lower_colon by (force simp: label_ok_def list_all_iff str_lower_def)
  moreover have "str_lower (k @ '':'') = str_lower k @ [CHR '':'']" by (simp add: str_lower_def lower_char_def)
  moreover have "str_lower (field_line d k') = str_lower k' @ CHR '':'' # str_lower (CHR '' '' # dget_or d k' [])"
    by (simp add: str_lower_def field_line_def lower_char_def)
  ultimately show ?thesis using assms prefix_to_mark by metis
qed

lemma field_line_plain: "label_ok k \<Longrightarrow> value_ok (dget_or d k []) \<Longrightarrow> plain_line (field_line d k)"
  by (auto simp: plain_line_def field_line_def label_ok_def value_ok_def list_all_iff is_line_break_def)

lemma find_mapped:
  "distinct (map h ks) \<Longrightarrow> k \<in> set ks \<Longrightarrow> (\<And>k'. k' \<in> set ks \<Longrightarrow> P (g k') \<longleftrightarrow> h k = h k') \<Longrightarrow> List.find P (map g ks) = Some (g k)"
proof (induction ks)
  case (Cons x ks)
  show ?case
  proof (cases "k = x")
    case False
    then have "k \<in> set ks" using Cons.prems(2) by simp
    then have "h k \<noteq> h x" using Cons.prems(1) by (auto simp: image_iff)
    then show ?thesis using Cons.IH [OF _ \<open>k \<in> set ks\<close>] Cons.prems by simp
  qed (use Cons.prems in simp)
qed simp

lemma labelled_value_read:
  assumes "list_all label_ok ks" and "distinct (map str_lower ks)" and "\<And>k. k \<in> set ks \<Longrightarrow> value_ok (dget_or d k [])" and "k \<in> set ks"
  shows "labelled_value k (str_join nl (map (field_line d) ks)) = Some (dget_or d k [])"
proof -
  have ok: "label_ok k'" if "k' \<in> set ks" for k' using assms(1) that by (simp add: list_all_iff)
  have "list_all plain_line (map (field_line d) ks)" using ok assms(3) by (auto simp: list_all_iff intro: field_line_plain)
  then have lines: "splitlines (str_join nl (map (field_line d) ks)) = map (field_line d) ks" by (rule splitlines_join)
  have find: "List.find (\<lambda>line. is_prefix_of (str_lower (k @ '':'')) (str_lower line)) (map (field_line d) ks) = Some (field_line d k)"
    by (rule find_mapped [OF assms(2,4)]) (use label_line ok assms(4) in blast)
  have "drop (length (str_lower (k @ '':''))) (field_line d k) = CHR '' '' # dget_or d k []" by (simp add: field_line_def)
  moreover have "str_strip (CHR '' '' # v) = str_strip v" for v by (simp add: str_strip_def str_lstrip_def)
  ultimately show ?thesis using find lines assms(3) [OF assms(4)] by (simp add: labelled_value_def Let_def value_ok_def)
qed

lemma foldl_dset_fresh:
  "distinct (dkeys acc @ ks) \<Longrightarrow> foldl (\<lambda>r k. dset r k (g k)) acc ks = acc @ map (\<lambda>k. (k, g k)) ks"
proof (induction ks arbitrary: acc)
  case (Cons k ks)
  then have "dset acc k (g k) = acc @ [(k, g k)]" by (intro dset_new) auto
  moreover have "distinct (dkeys (acc @ [(k, g k)]) @ ks)" using Cons.prems by auto
  ultimately show ?case using Cons.IH by simp
qed simp

text \<open>C39: A module reads back an answer written the way the demonstrations of its prompt are, one \<open>field: value\<close> line per output
  field, when the field names differ in more than case and have no colon, and the values are single lines without white space
  at their ends.\<close>

theorem answer_read_back:
  assumes "list_all label_ok (sg_outputs sg)" and "distinct (map str_lower (sg_outputs sg))"
    and "list_all (\<lambda>k. value_ok (dget_or d k [])) (sg_outputs sg)"
  shows "parse_fields sg (str_join nl (map (field_line d) (sg_outputs sg))) = map (\<lambda>k. (k, dget_or d k [])) (sg_outputs sg)"
proof -
  let ?response = "str_join nl (map (field_line d) (sg_outputs sg))"
  have "parse_fields sg ?response = foldl (\<lambda>r k. dset r k (dget_or d k [])) [] (sg_outputs sg)"
    unfolding parse_fields_def
    by (rule foldl_cong) (use assms(3) in \<open>simp_all add: labelled_value_read [OF assms(1,2)] list_all_iff\<close>)
  also have "\<dots> = map (\<lambda>k. (k, dget_or d k [])) (sg_outputs sg)"
    using assms(2) by (simp add: foldl_dset_fresh distinct_map)
  finally show ?thesis .
qed

theorem answer_read_back_witness:
  "parse_fields \<lparr>sg_inputs = [''q''], sg_outputs = [''Reason'', ''answer''], sg_instructions = []\<rparr>
     (str_join nl [''Reason: two: words'', ''answer: 42'']) = [(''Reason'', ''two: words''), (''answer'', ''42'')]"
  using answer_read_back [of "\<lparr>sg_inputs = [''q''], sg_outputs = [''Reason'', ''answer''], sg_instructions = []\<rparr>"
      "[(''answer'', ''42''), (''Reason'', ''two: words'')]"]
  by (simp add: label_ok_def value_ok_def is_line_break_def str_lower_def lower_char_def dget_or_def field_line_def
      str_strip_def str_lstrip_def str_rstrip_def is_space_def)

section \<open>The service\<close>

definition prompt_length_of :: "string \<Rightarrow> string" where
  "prompt_length_of prompt = nat_str (length prompt)"

text \<open>Whatever the budget, demonstrations are answers the metric accepts.\<close>

lemma bootstrap_loop_right:
  assumes "\<And>p s r. fst (llm p s) = Inr r \<Longrightarrow> r = f p"
  shows "set (fst (bootstrap_loop llm metric m nd exs acc s)) \<subseteq> set acc \<union> set (right_demos f metric m exs)"
proof (induction exs arbitrary: acc s)
  case (Cons ex exs)
  obtain r s1 where r: "module_forward llm m (le_inputs ex) s = (r, s1)" by (cases "module_forward llm m (le_inputs ex) s")
  show ?case
  proof (cases r)
    case (Inl e)
    then show ?thesis using r Cons.IH [of acc s1] by auto
  next
    case (Inr p)
    then have a: "answers f m (le_inputs ex) = Inr p"
      using r assms [of "prompt_of_module m (le_inputs ex)" s]
      by (auto simp: module_forward_def answers_def split: if_splits prod.splits sum.splits)
    define acc' where "acc' = (if metric ex p then acc @ [\<lparr>le_inputs = le_inputs ex, le_outputs = p, le_label = Some True\<rparr>] else acc)"
    have step: "bootstrap_loop llm metric m nd (ex # exs) acc s =
        (if nd \<le> int (length acc') then (acc', s1) else bootstrap_loop llm metric m nd exs acc' s1)"
      by (simp add: r Inr acc'_def Let_def)
    have "set acc' \<union> set (right_demos f metric m exs) \<subseteq> set acc \<union> set (right_demos f metric m (ex # exs))"
      by (auto simp: acc'_def a)
    moreover have "set (fst (bootstrap_loop llm metric m nd (ex # exs) acc s)) \<subseteq> set acc' \<union> set (right_demos f metric m exs)"
      unfolding step using Cons.IH [of acc' s1] by simp
    ultimately show ?thesis by (rule subset_trans [rotated])
  qed
qed simp

lemma bootstrap_right:
  assumes "\<And>p s r. fst (llm p s) = Inr r \<Longrightarrow> r = f p" and "bootstrap llm nd m exs metric s = (found, s')"
  shows "set found \<subseteq> set (right_demos f metric m exs)"
proof -
  obtain all s1 where l: "bootstrap_loop llm metric m nd exs [] s = (all, s1)" by (cases "bootstrap_loop llm metric m nd exs [] s")
  then have "set found \<subseteq> set all" using assms(2) by (auto simp: bootstrap_def take_int_def dest: in_set_takeD)
  moreover have "set all \<subseteq> set (right_demos f metric m exs)" using bootstrap_loop_right [where llm = llm and f = f, OF assms(1), where acc = "[]" and s = s and metric = metric and m = m and nd = nd and exs = exs] l by simp
  ultimately show ?thesis by blast
qed

lemma leader_key: "snd (leader key hs b) = snd b \<or> snd (leader key hs b) \<in> key ` set hs"
  by (induction hs arbitrary: b) (auto split: if_splits, metis snd_conv)

lemma random_search_demos:
  assumes "draws_ok draw" and "\<And>p s r. fst (llm p s) = Inr r \<Longrightarrow> r = f p"
    and "random_search_compile draw rng opt llm sg trainset valset metric s = (Inr (m, history), s')"
  shows "\<exists>demos. m = demo_module sg demos \<and> set demos \<subseteq> set (right_demos f metric (ZeroShot sg) trainset)"
proof (cases "0 \<le> rs_max_bootstrapped_demos opt")
  case True
  let ?c = "counted llm (rs_max_llm_calls opt)"
  obtain pool s1 where pool: "bootstrap ?c (int (length trainset)) (ZeroShot sg) trainset metric (0, s) = (pool, s1)"
    by (cases "bootstrap ?c (int (length trainset)) (ZeroShot sg) trainset metric (0, s)")
  have "r = f p" if "fst (?c p st) = Inr r" for p st r
    using that assms(2) [of p "snd st"] by (auto simp: counted_def split: if_splits prod.splits)
  from bootstrap_right [OF this pool] have right: "set pool \<subseteq> set (right_demos f metric (ZeroShot sg) trainset)" .
  obtain hs s2 where "random_search_compile draw rng opt llm sg trainset valset metric s =
      (Inr (demo_module sg (snd (leader ph_demos hs (- 1, []))), hs), snd s2)"
    and run: "search_run ?c metric sg (min (nat (rs_max_bootstrapped_demos opt)) (length pool)) pool valset
      [0..<nat (rs_num_trials opt)] hs s1 s2" using random_search_run [OF assms(1) True pool] by blast
  with assms(3) have m: "m = demo_module sg (snd (leader ph_demos hs (- 1, [])))" by auto
  have "set (snd (leader ph_demos hs (- 1, []))) \<subseteq> set pool"
    using leader_key [of ph_demos hs "(- 1, [])"] search_run_entries [OF run] by (fastforce dest: sample_of_subset)
  with m right show ?thesis by blast
next
  case False
  then have no: "sample_demos draw pool (rs_max_bootstrapped_demos opt) r =
      (Inl (ValueError ''Sample larger than population or is negative''), r)" for pool r
    by (simp add: sample_demos_def rng_sample_def)
  have "m = demo_module sg []"
    using assms(3) no by (cases "[0..<nat (rs_num_trials opt)]") (auto simp: random_search_compile_def split: prod.splits)
  then show ?thesis by auto
qed

inductive po_reach :: "'r draws \<Rightarrow> prompt_server \<Rightarrow> bool" for draw where
  start: "po_reach draw new_prompt_server"
| compile: "po_reach draw p \<Longrightarrow> po_reach draw (snd (po_compile draw rng req p))"

text \<open>What is compiled in comes from the last successful \<open>POST /compile\<close>.\<close>

lemma po_reach_demos:
  assumes "po_reach draw p" and "draws_ok draw" and "pv_compiled p = Some c"
  shows "\<exists>p0 rng creq sg demos. po_reach draw p0 \<and> p = snd (po_compile draw rng creq p0) \<and>
    signature_of_model (cq_signature creq) = Inr sg \<and> c = demo_module sg demos \<and>
    set demos \<subseteq> set (right_demos prompt_length_of exact_match_metric (ZeroShot sg) (map example_of_model (cq_trainset creq)))"
  using assms(1,3)
proof (induction arbitrary: c)
  case start
  then show ?case by (simp add: new_prompt_server_def)
next
  case (compile p rng req)
  have mock: "r = prompt_length_of q" if "fst (mock_llm q s) = Inr r" for q s r
    using that by (simp add: mock_llm_def prompt_length_of_def)
  let ?run = "\<lambda>sg. random_search_compile draw rng \<lparr>rs_max_bootstrapped_demos = cq_max_bootstrapped_demos req,
    rs_num_trials = cq_num_trials req, rs_max_llm_calls = cq_max_llm_calls req\<rparr> mock_llm sg (map example_of_model (cq_trainset req))
    (map example_of_model (cq_valset req)) exact_match_metric ()"
  show ?case
  proof (cases "rbind (signature_of_model (cq_signature req)) (\<lambda>sg. fst (?run sg))")
    case (Inl e)
    then have same: "snd (po_compile draw rng req p) = p" by (simp add: po_compile_def)
    with compile.IH [of c] compile.prems show ?thesis unfolding same by simp
  next
    case (Inr ch)
    obtain m history where ch: "ch = (m, history)" by (cases ch)
    with Inr obtain sg where sg: "signature_of_model (cq_signature req) = Inr sg" "fst (?run sg) = Inr (m, history)"
      by (auto simp: result_simps)
    then have "?run sg = (Inr (m, history), snd (?run sg))" by (metis prod.collapse)
    from random_search_demos [where f = prompt_length_of, OF assms(2) _ this] mock obtain demos where "m = demo_module sg demos"
      "set demos \<subseteq> set (right_demos prompt_length_of exact_match_metric (ZeroShot sg) (map example_of_model (cq_trainset req)))" by blast
    moreover have "c = m" using compile.prems Inr ch by (simp add: po_compile_def)
    ultimately show ?thesis using compile.hyps sg(1) by blast
  qed
qed

text \<open>A right demonstration: an example of the request, answered as it expects up to case and white space at the ends.\<close>

definition right_demo :: "(fields \<times> fields) list \<Rightarrow> labeled_example \<Rightarrow> bool" where
  "right_demo trainset d \<longleftrightarrow> (\<exists>(inputs, outputs) \<in> set trainset. le_inputs d = inputs \<and>
     (\<forall>(k, v) \<in> set outputs. str_lower (str_strip (dget_or (le_outputs d) k [])) = str_lower (str_strip v)))"

lemma right_demos_right:
  assumes "d \<in> set (right_demos f exact_match_metric m (map example_of_model trainset))"
  shows "right_demo trainset d"
proof -
  from right_demos_sound [OF assms] obtain i out where
    io: "(i, out) \<in> set trainset" "le_inputs d = i" "exact_match_metric (example_of_model (i, out)) (le_outputs d)"
    by (auto simp: example_of_model_def)
  then have "\<forall>(k, v) \<in> set out. str_lower (str_strip (dget_or (le_outputs d) k [])) = str_lower (str_strip v)"
    by (fastforce simp: exact_match_metric_def example_of_model_def list_all_iff)
  with io show ?thesis unfolding right_demo_def by blast
qed

lemma foldl_dset_keys: "set (dkeys (foldl (\<lambda>r k. dset r k (g k)) acc ks)) = set (dkeys acc) \<union> set ks"
  by (induction ks arbitrary: acc) auto

lemma parse_fields_keys: "set (dkeys (parse_fields sg response)) = set (sg_outputs sg)"
  by (simp add: parse_fields_def foldl_dset_keys)

definition small_request :: compile_request where
  "small_request = \<lparr>cq_signature = \<lparr>sm_inputs = [''q''], sm_outputs = [''answer''], sm_instructions = []\<rparr>,
     cq_trainset = [([(''q'', ''a'')], [(''answer'', ''12'')])], cq_valset = [], cq_num_trials = 1,
     cq_max_bootstrapped_demos = 1, cq_max_llm_calls = 5\<rparr>"

definition small_server :: prompt_server where
  "small_server = snd (po_compile first_draws () small_request new_prompt_server)"

definition small_forward :: po_forward_request where
  "small_forward = \<lparr>fq_signature = \<lparr>sm_inputs = [''x''], sm_outputs = [''y''], sm_instructions = []\<rparr>,
     fq_inputs = [(''q'', ''b'')], fq_use_compiled = True\<rparr>"

lemma small_server_compiled: "map_option (\<lambda>c. map le_outputs (module_demos c)) (pv_compiled small_server) = Some [[(''answer'', ''12'')]]"
  by code_simp

lemma small_forward_answer: "map_sum (\<lambda>_. ()) fw_outputs (po_forward small_forward small_server) = Inr [(''answer'', ''65'')]"
  by code_simp

text \<open>C40: In every state the service reaches with a compiled module, the module comes from a \<open>POST /compile\<close> whose signature it
  has. A request that uses it is answered with the output fields of that signature, whatever valid signature the
  request states; and each demonstration it shows has the inputs of an example of that compile request's training set and
  the outputs the mock LLM gave for them, which are those the example expects up to case and white space at the ends.\<close>

theorem compiled_module_answers:
  assumes "po_reach draw p" and "draws_ok draw" and "pv_compiled p = Some c"
    and "fq_use_compiled req" and "po_forward req p = Inr r"
  shows "set (dkeys (fw_outputs r)) = set (sg_outputs (module_signature c)) \<and>
    (\<forall>d\<in>set (module_demos c). answers prompt_length_of (ZeroShot (module_signature c)) (le_inputs d) = Inr (le_outputs d)) \<and>
    (\<exists>p0 rng creq. po_reach draw p0 \<and> p = snd (po_compile draw rng creq p0) \<and>
       signature_of_model (cq_signature creq) = Inr (module_signature c) \<and>
       (\<forall>d\<in>set (module_demos c). right_demo (cq_trainset creq) d)) \<and>
    (\<forall>stated sg. signature_of_model stated = Inr sg \<longrightarrow> po_forward (req\<lparr>fq_signature := stated\<rparr>) p = Inr r)"
proof -
  obtain p0 rng creq sg demos where p0: "po_reach draw p0" "p = snd (po_compile draw rng creq p0)"
    and sg: "signature_of_model (cq_signature creq) = Inr sg" and c: "c = demo_module sg demos"
    and right: "set demos \<subseteq> set (right_demos prompt_length_of exact_match_metric (ZeroShot sg) (map example_of_model (cq_trainset creq)))"
    using po_reach_demos [OF assms(1-3)] by blast
  have mc: "module_signature c = sg" "module_demos c = demos" by (simp_all add: c demo_module_def set_demos_def)
  obtain outputs where out: "fst (module_forward mock_llm c (fq_inputs req) ()) = Inr outputs"
    and r: "r = \<lparr>fw_outputs = outputs, fw_prompt_length = length (prompt_of_module c (fq_inputs req))\<rparr>"
    using assms(3-5) by (auto simp: po_forward_def uncaught_def result_simps Let_def split: sum.splits)
  have "set (dkeys outputs) = set (sg_outputs sg)"
    using out by (auto simp: module_forward_def c demo_module_def parse_fields_keys split: if_splits sum.splits prod.splits)
  moreover have "answers prompt_length_of (ZeroShot sg) (le_inputs d) = Inr (le_outputs d)" if "d \<in> set demos" for d
    using right that right_demos_sound by fastforce
  moreover have "\<forall>d \<in> set demos. right_demo (cq_trainset creq) d" using right right_demos_right by blast
  moreover have "po_forward (req\<lparr>fq_signature := stated\<rparr>) p = Inr r" if "signature_of_model stated = Inr sg'" for stated sg'
    using that out r assms(3,4) by (simp add: po_forward_def)
  ultimately show ?thesis unfolding mc using p0 sg r by (intro conjI exI [of _ p0] exI [of _ rng] exI [of _ creq]) auto
qed

theorem compiled_module_answers_witness:
  "\<exists>c r p0 rng creq. pv_compiled small_server = Some c \<and> po_forward small_forward small_server = Inr r \<and>
    set (dkeys (fw_outputs r)) = set (sg_outputs (module_signature c)) \<and> length (module_demos c) = 1 \<and>
    small_server = snd (po_compile first_draws rng creq p0) \<and> (\<forall>d\<in>set (module_demos c). right_demo (cq_trainset creq) d)"
proof -
  obtain c where c: "pv_compiled small_server = Some c" "map le_outputs (module_demos c) = [[(''answer'', ''12'')]]"
    using small_server_compiled by auto
  then have len: "length (module_demos c) = 1" by (auto dest: arg_cong [of _ _ length])
  obtain r where r: "po_forward small_forward small_server = Inr r"
    using small_forward_answer by (cases "po_forward small_forward small_server") auto
  have reach: "po_reach first_draws small_server"
    unfolding small_server_def by (rule po_reach.compile [OF po_reach.start])
  have use: "fq_use_compiled small_forward" by (simp add: small_forward_def)
  note all = compiled_module_answers [OF reach first_draws_ok c(1) use r]
  from all obtain p0 rng creq where "small_server = snd (po_compile first_draws rng creq p0)"
    "\<forall>d\<in>set (module_demos c). right_demo (cq_trainset creq) d" by blast
  with all c(1) r len show ?thesis by blast
qed

end
