(* ===== verification/InferenceServer.thy ===== *)
theory InferenceServer
  imports InferenceProperties PyValue
begin

text \<open>
  The inference service, \<open>labs/llm-inference/src/server.py\<close>. Handlers do not interleave here: while one drives the engine the
  others wait. \<open>ticks\<close> bounds the scheduler steps that fit in the timeout of 120 seconds, the request id of \<open>uuid4\<close> is
  a parameter, the generator of random numbers is the one of the engine, and rates over the clock are left out.
\<close>

section \<open>The endpoints\<close>

record generate_request =
  ir_prompt :: string
  ir_max_tokens :: int
  ir_temperature :: rat
  ir_strategy :: string

record inference_response =
  ip_text :: string
  ip_prompt_tokens :: nat
  ip_generated_tokens :: nat
  ip_strategy :: string
  ip_kv_cache_bytes :: "nat option"

text \<open>Steps of the engine until the callback of the request has come, with the requests they complete.\<close>

fun drive_engine :: "('l, 'k, 's, 'a) lm \<Rightarrow> (nat set \<Rightarrow> nat) \<Rightarrow> string \<Rightarrow> nat \<Rightarrow> 'k request list \<Rightarrow> ('k, 's) engine
    \<Rightarrow> unit result \<times> 'k request list \<times> ('k, 's) engine" where
  "drive_engine m pick rid 0 completed e =
     (if rid \<in> fst ` set (callbacks e) then (Inr (), completed, e) else (Inl (OtherError ''TimeoutError''), completed, e))"
| "drive_engine m pick rid (Suc n) completed e =
     (if rid \<in> fst ` set (callbacks e) then (Inr (), completed, e)
      else case scheduler_step m pick e of
             Inl x \<Rightarrow> (Inl x, completed, e)
           | Inr (finished, e') \<Rightarrow> drive_engine m pick rid n (completed @ finished) e')"

definition batched_request :: "string \<Rightarrow> generate_request \<Rightarrow> 'k request" where
  "batched_request rid req = new_request rid (ir_prompt req) (ir_max_tokens req) (ir_temperature req) 0 True"

definition generate_batched :: "('l, 'k, 's, 'a) lm \<Rightarrow> (nat set \<Rightarrow> nat) \<Rightarrow> nat \<Rightarrow> string \<Rightarrow> generate_request \<Rightarrow> ('k, 's) engine
    \<Rightarrow> inference_response result \<times> ('k, 's) engine" where
  "generate_batched m pick ticks rid req e =
     (let (r, completed, e') = drive_engine m pick rid ticks [] (submit m (batched_request rid req) e);
          output = (case List.find (\<lambda>c. fst c = rid) (callbacks e') of Some c \<Rightarrow> snd c | None \<Rightarrow> []);
          tokens = (case List.find (\<lambda>q. request_id q = rid) completed of Some q \<Rightarrow> length (generated q) | None \<Rightarrow> 0)
      in (rmap (\<lambda>_. \<lparr>ip_text = ir_prompt req @ '' '' @ output, ip_prompt_tokens = length (tok_encode m (ir_prompt req)),
             ip_generated_tokens = tokens, ip_strategy = ''batched'', ip_kv_cache_bytes = None\<rparr>) r, e'))"

text \<open>The engine is missing before the model is loaded.\<close>

definition generate_endpoint :: "('l, 'k, 's, 'a) lm \<Rightarrow> (nat set \<Rightarrow> nat) \<Rightarrow> nat \<Rightarrow> string \<Rightarrow> generate_request \<Rightarrow> ('k, 's) engine option
    \<Rightarrow> inference_response http \<times> ('k, 's) engine option" where
  "generate_endpoint m pick ticks rid req loaded =
     (case loaded of
        None \<Rightarrow> (Inl (HttpError 503 ''Model not loaded''), None)
      | Some e \<Rightarrow>
          if ir_strategy req = ''naive''
          then (let (g, s') = generate_naive m (ir_prompt req) (ir_max_tokens req) (ir_temperature req) (rng e)
                in (Inr \<lparr>ip_text = gen_text g, ip_prompt_tokens = prompt_tokens g, ip_generated_tokens = generated_tokens g,
                         ip_strategy = ''naive'', ip_kv_cache_bytes = None\<rparr>, Some (e\<lparr>rng := s'\<rparr>)))
          else if ir_strategy req = ''kv_cache''
          then (let (g, kv_bytes, s') = generate_with_kv_cache m (ir_prompt req) (ir_max_tokens req) (ir_temperature req) (rng e)
                in (Inr \<lparr>ip_text = gen_text g, ip_prompt_tokens = prompt_tokens g, ip_generated_tokens = generated_tokens g,
                         ip_strategy = ''kv_cache'', ip_kv_cache_bytes = Some kv_bytes\<rparr>, Some (e\<lparr>rng := s'\<rparr>)))
          else if ir_strategy req = ''batched''
          then (let (r, e') = generate_batched m pick ticks rid req e in (uncaught r, Some e'))
          else (Inl (HttpError 400 (''Unknown strategy: '' @ ir_strategy req)), loaded))"

record inference_stats =
  is_active_requests :: nat
  is_pending_requests :: nat
  is_batch_total :: nat
  is_batch_count :: nat
  is_pages_used :: int
  is_pages_free :: nat
  is_kv_formula :: int

text \<open>As in \<open>engine_stats\<close>, the average batch size is kept as its two parts, and the fragmentation rate is left out.\<close>

definition stats_endpoint :: "('k, 's) engine option \<Rightarrow> inference_stats http" where
  "stats_endpoint loaded =
     (case loaded of
        None \<Rightarrow> Inl (HttpError 503 ''Engine not initialized'')
      | Some e \<Rightarrow> (let s = engine_stats_of e in Inr
          \<lparr>is_active_requests = es_active_requests s, is_pending_requests = es_pending_requests s,
           is_batch_total = es_batch_total s, is_batch_count = es_batch_count s,
           is_pages_used = st_used_pages (es_paged_cache s), is_pages_free = st_free_pages (es_paged_cache s),
           is_kv_formula = kv_cache_size_formula 12 12 64 1024 4 None\<rparr>))"

section \<open>The batched answer\<close>

definition queued :: "('l, 'k, 's, 'a) lm \<Rightarrow> string \<Rightarrow> generate_request \<Rightarrow> 'k request" where
  "queued m rid req = (batched_request rid req)\<lparr>prompt_ids := tok_encode m (ir_prompt req)\<rparr>"

lemma outcomes_Nil [simp]: "outcomes m [] = {#}"
  by (simp add: outcomes_def)

lemma queued_ready:
  assumes "tok_encode m (ir_prompt req) \<noteq> []" and "ir_temperature req \<le> 0"
  shows "running m (queued m rid req)" and "on_track m (queued m rid req)"
    and "remaining (queued m rid req) = nat (max 1 (ir_max_tokens req))"
    and "outcome m (queued m rid req) = (rid, tok_decode m (greedy m (nat (max 1 (ir_max_tokens req))) (tok_encode m (ir_prompt req))))"
  using assms by (auto simp: running_def on_track_def queued_def batched_request_def new_request_def budget_def remaining_def outcome_def)

text \<open>Only the request itself is followed: whatever the others are, greedy or sampling.\<close>

lemma drive_engine_ok:
  assumes kv: "kv_consistent m" and pick: "chooser_ok pick"
  shows "engine_ok m e \<Longrightarrow> 0 < max_batch_size e \<Longrightarrow> \<forall>r\<in>set (all_requests e). request_id r \<in> {rid} \<longrightarrow> on_track m r \<Longrightarrow>
    total_remaining (all_requests e) \<le> n \<Longrightarrow>
    said {rid} e + due m {rid} (all_requests e) = {#(rid, out)#} \<Longrightarrow>
    \<exists>completed' e'. drive_engine m pick rid n completed e = (Inr (), completed', e') \<and>
      List.find (\<lambda>c. fst c = rid) (callbacks e') = Some (rid, out) \<and> engine_ok m e'"
proof (induction n arbitrary: e completed)
  have found: "List.find (\<lambda>c. fst c = rid) (callbacks e) = Some (rid, out)"
    if has: "rid \<in> fst ` set (callbacks e)"
      and split: "said {rid} e + due m {rid} (all_requests e) = {#(rid, out)#}" for e :: "('b, 'c) engine"
  proof -
    have "c = (rid, out)" if "c \<in> set (callbacks e)" "fst c = rid" for c
    proof -
      have "c \<in># said {rid} e" using that by (simp add: said_def)
      then have "c \<in># {#(rid, out)#}" unfolding split [symmetric] by simp
      then show ?thesis by simp
    qed
    moreover from has obtain c where c: "List.find (\<lambda>c. fst c = rid) (callbacks e) = Some c"
      by (cases "List.find (\<lambda>c. fst c = rid) (callbacks e)") (auto simp: find_None_iff)
    moreover from c have "c \<in> set (callbacks e)" "fst c = rid" by (auto simp: find_Some_iff)
    ultimately show ?thesis by simp
  qed
  have told: "rid \<in> fst ` set (callbacks e)"
    if "all_requests e = []" "said {rid} e + due m {rid} (all_requests e) = {#(rid, out)#}" for e :: "('b, 'c) engine"
  proof -
    have "(rid, out) \<in># said {rid} e" using that by simp
    then show ?thesis by (force simp: said_def)
  qed
  { case 0
    have "all_requests e = []"
    proof (rule ccontr)
      assume "all_requests e \<noteq> []"
      then obtain r rs where "all_requests e = r # rs" by (cases "all_requests e") auto
      with 0(1,4) remaining_pos show False by (force simp: engine_ok_def total_remaining_def)
    qed
    from told [OF this 0(5)] found 0 show ?case by simp }
  { case (Suc n)
    show ?case
    proof (cases "rid \<in> fst ` set (callbacks e)")
      case True
      with found Suc.prems show ?thesis by simp
    next
      case False
      have "all_requests e \<noteq> []" using told [OF _ Suc.prems(5)] False by blast
      with scheduler_step_ok [OF kv pick Suc.prems(1), of "{rid}"] Suc.prems(2,3) obtain finished e1 where
        st: "scheduler_step m pick e = Inr (finished, e1)" "engine_ok m e1" "max_batch_size e1 = max_batch_size e"
          "total_remaining (all_requests e1) < total_remaining (all_requests e)"
          "\<forall>r\<in>set (all_requests e1). request_id r \<in> {rid} \<longrightarrow> on_track m r"
          "said {rid} e1 + due m {rid} (all_requests e1) = said {rid} e + due m {rid} (all_requests e)" by blast
      have "drive_engine m pick rid (Suc n) completed e = drive_engine m pick rid n (completed @ finished) e1"
        using False st(1) by simp
      moreover have "0 < max_batch_size e1" "total_remaining (all_requests e1) \<le> n"
        "said {rid} e1 + due m {rid} (all_requests e1) = {#(rid, out)#}"
        using st(3,4,6) Suc.prems(2,4,5) by simp_all
      ultimately show ?thesis using Suc.IH [OF st(2) _ st(5)] by metis
    qed }
qed

lemma submit_requests:
  "mset (all_requests (submit m (batched_request rid req) e)) = add_mset (queued m rid req) (mset (all_requests e))"
proof -
  have "image_mset (\<lambda>x. snd (snd x)) (mset (insort_key entry_key (p, n, r) h)) = add_mset r (image_mset (\<lambda>x. snd (snd x)) (mset h))"
    for p n and r :: "'k request" and h by simp
  then show ?thesis
    by (simp add: all_requests_def requests_of_def submit_def queue_push_def queued_def batched_request_def new_request_def)
qed

lemma submit_frame:
  "active (submit m r e) = active e" "paged_cache (submit m r e) = paged_cache e" "callbacks (submit m r e) = callbacks e"
  "max_batch_size (submit m r e) = max_batch_size e" "rng (submit m r e) = rng e"
  by (simp_all add: submit_def)

lemma same_mset_sums:
  assumes "mset rs = add_mset q (mset qs)"
  shows "set rs = insert q (set qs)" and "total_remaining rs = remaining q + total_remaining qs"
    and "request_id q \<in> Q \<Longrightarrow> has_callback q \<Longrightarrow> due m Q rs = add_mset (outcome m q) (due m Q qs)"
proof -
  have same: "mset rs = mset (q # qs)" using assms by simp
  show "set rs = insert q (set qs)" using arg_cong [OF same, of set_mset] by simp
  from arg_cong [OF same, of "\<lambda>M. sum_mset (image_mset remaining M)"]
  have "sum_list (map remaining rs) = sum_list (map remaining (q # qs))" by (simp only: sum_mset_sum_list mset_map [symmetric])
  then show "total_remaining rs = remaining q + total_remaining qs" by (simp add: total_remaining_def)
  show "due m Q rs = add_mset (outcome m q) (due m Q qs)" if "request_id q \<in> Q" "has_callback q"
    using arg_cong [OF same, of "\<lambda>M. image_mset (outcome m) (filter_mset has_callback (filter_mset (\<lambda>r. request_id r \<in> Q) M))"] that
    by (simp add: outcomes_def due_def filter_filter_mset)
qed

text \<open>C14: A greedy batched request (nonempty prompt, at least one token, an id of its own) is answered, whatever else is
  queued or running, greedy or sampling, within as many scheduler steps as tokens are left to generate, by the prompt, a space
  and the text of the tokens that the naive strategy appends; the naive answer itself is the text of all tokens, so the two
  strategies spell one continuation differently.\<close>

theorem batched_answer_is_naive:
  assumes "kv_consistent m" and "chooser_ok pick" and "engine_ok m e" and "0 < max_batch_size e"
    and fresh: "rid \<notin> fst ` set (callbacks e)" "rid \<notin> request_id ` set (all_requests e)"
    and req: "tok_encode m (ir_prompt req) \<noteq> []" "ir_temperature req \<le> 0" "1 \<le> ir_max_tokens req"
    and ticks: "total_remaining (all_requests e) + nat (ir_max_tokens req) \<le> ticks"
  shows "\<exists>ids batched naive e1 e2.
    fst (naive_loop m (ir_temperature req) (nat (ir_max_tokens req)) (tok_encode m (ir_prompt req)) (rng e)) = tok_encode m (ir_prompt req) @ ids \<and>
    generate_endpoint m pick ticks rid (req\<lparr>ir_strategy := ''batched''\<rparr>) (Some e) = (Inr batched, Some e1) \<and>
    ip_text batched = ir_prompt req @ '' '' @ tok_decode m ids \<and> engine_ok m e1 \<and>
    generate_endpoint m pick ticks rid (req\<lparr>ir_strategy := ''naive''\<rparr>) (Some e) = (Inr naive, Some e2) \<and>
    ip_text naive = tok_decode m (tok_encode m (ir_prompt req) @ ids) \<and> ip_generated_tokens naive = length ids"
proof -
  let ?ids0 = "tok_encode m (ir_prompt req)" and ?e = "submit m (batched_request rid req) e" and ?q = "queued m rid req"
  define ids where "ids = greedy m (nat (ir_max_tokens req)) ?ids0"
  note ready = queued_ready [OF req(1,2), of rid]
  have max1: "max 1 (ir_max_tokens req) = ir_max_tokens req" using req(3) by simp
  note sums = same_mset_sums [OF submit_requests [of m rid req e]]
  have cb: "has_callback ?q" "request_id ?q = rid" by (simp_all add: queued_def batched_request_def new_request_def)
  have ok: "engine_ok m ?e"
    using assms(3) ready(1) sums(1) by (simp add: engine_ok_def page_keys_def submit_frame)
  have track: "\<forall>r\<in>set (all_requests ?e). request_id r \<in> {rid} \<longrightarrow> on_track m r"
    using fresh(2) ready(2) sums(1) by (auto simp: image_iff)
  have left: "total_remaining (all_requests ?e) \<le> ticks" using ticks ready(3) sums(2) by (simp add: max1)
  have "said {rid} ?e = {#}" using fresh(1) by (force simp: said_def submit_frame filter_empty_conv)
  moreover have "due m {rid} (all_requests e) = {#}"
  proof -
    have "filter (\<lambda>r. request_id r \<in> {rid}) (all_requests e) = []" using fresh(2) by (force simp: filter_empty_conv)
    then show ?thesis by (simp add: due_def)
  qed
  ultimately have total: "said {rid} ?e + due m {rid} (all_requests ?e) = {#(rid, tok_decode m ids)#}"
    using sums(3) [of "{rid}" m] cb ready(4) by (simp add: max1 ids_def)
  have "0 < max_batch_size ?e" using assms(4) by (simp add: submit_frame)
  from drive_engine_ok [OF assms(1,2) ok this track left total, of "[]"] obtain completed e1 where
    d: "drive_engine m pick rid ticks [] ?e = (Inr (), completed, e1)"
      "List.find (\<lambda>c. fst c = rid) (callbacks e1) = Some (rid, tok_decode m ids)" "engine_ok m e1"
    by blast
  have loop: "naive_loop m (ir_temperature req) (nat (ir_max_tokens req)) ?ids0 (rng e) = (?ids0 @ ids, rng e)"
    using naive_loop_greedy [OF req(2)] by (simp add: ids_def)
  have same: "batched_request rid (req\<lparr>ir_strategy := x\<rparr>) = batched_request rid req" for x by (simp add: batched_request_def)
  show ?thesis
    by (intro exI [of _ ids]) (simp add: loop generate_endpoint_def generate_batched_def same d generate_naive_def result_of_def uncaught_def Let_def)
qed

text \<open>The witness answers next to a sampling request that waits in the queue.\<close>

theorem batched_answer_is_naive_witness:
  "\<exists>ids batched e1. generate_endpoint toy_lm Min 5 ''r'' \<lparr>ir_prompt = ''a'', ir_max_tokens = 3, ir_temperature = 0, ir_strategy = ''batched''\<rparr>
      (Some (submit toy_lm (new_request ''s'' ''b'' 2 1 0 True) (new_engine 1 2 ()))) = (Inr batched, Some e1) \<and>
      ip_text batched = ''a '' @ tok_decode toy_lm ids"
proof -
  let ?e = "submit toy_lm (new_request ''s'' ''b'' 2 1 0 True) (new_engine 1 2 ()) :: (int list, unit) engine"
    and ?req = "\<lparr>ir_prompt = ''a'', ir_max_tokens = 3, ir_temperature = 0, ir_strategy = []\<rparr> :: generate_request"
  let ?s = "(new_request ''s'' ''b'' 2 1 0 True)\<lparr>prompt_ids := tok_encode toy_lm ''b''\<rparr> :: int list request"
  have one: "all_requests ?e = [?s]"
    by (simp add: all_requests_def requests_of_def submit_def queue_push_def new_engine_def new_rqueue_def new_request_def)
  have run: "running toy_lm ?s" by (simp add: running_def new_request_def toy_lm_def budget_def)
  have ok: "engine_ok toy_lm ?e"
    using new_paged_ok one run by (simp add: engine_ok_def page_keys_def submit_frame new_engine_def new_paged_def)
  have "0 < max_batch_size ?e" "''r'' \<notin> fst ` set (callbacks ?e)"
    "''r'' \<notin> request_id ` set (all_requests ?e)" "tok_encode toy_lm (ir_prompt ?req) \<noteq> []" "ir_temperature ?req \<le> 0"
    "1 \<le> ir_max_tokens ?req" "total_remaining (all_requests ?e) + nat (ir_max_tokens ?req) \<le> 5"
    unfolding one
    by (simp_all add: submit_frame new_engine_def new_request_def toy_lm_def total_remaining_def remaining_def budget_def)
  from batched_answer_is_naive [OF toy_kv chooser_Min ok this] show ?thesis by auto
qed

end
