(* ===== verification/AgentServer.thy ===== *)
theory AgentServer
  imports AgentAsync
begin

text \<open>
  The agent service, \<open>labs/agent-framework/src/server.py\<close>: \<open>/run\<close> and \<open>/tools\<close> with the demonstration LLM. As in
  \<open>AgentReact\<close>, the evaluator of the calculator, the clock and \<open>json.loads\<close> are parameters.
\<close>

section \<open>The demonstration LLM\<close>

definition dquoted :: "string \<Rightarrow> string" where
  "dquoted s = [CHR 0x22] @ s @ [CHR 0x22]"

definition escaped :: "string \<Rightarrow> string" where
  "escaped s = [CHR 0x5C, CHR 0x22] @ s @ [CHR 0x5C, CHR 0x22]"

definition demo_call :: "string \<Rightarrow> string \<Rightarrow> string \<Rightarrow> string \<Rightarrow> string" where
  "demo_call thought name key value =
     ''Thought: '' @ thought @ [line_feed] @
     ''{'' @ dquoted ''type'' @ '':'' @ dquoted ''function'' @ '','' @ dquoted ''function'' @ '':{'' @ dquoted ''name'' @ '':'' @ dquoted name
       @ '','' @ dquoted ''arguments'' @ '':'' @ dquoted (''{'' @ escaped key @ '':'' @ escaped value @ ''}'') @ ''}}'' @ [line_feed]"

definition demo_answer :: string where
  "demo_answer = ''I processed your request. (Mock LLM '' @ em_dash @ '' no API key configured.)''"

definition demo_final :: string where
  "demo_final = ''Final Answer: '' @ demo_answer"

definition demo_llm :: "'s llm" where
  "demo_llm prompt s =
     (let free = \<not> is_substring ''Action:'' prompt \<and> \<not> is_substring ''Final Answer:'' prompt
      in (Inr (if is_substring ''calculator'' (str_lower prompt) \<and> free
               then demo_call ''I should use the calculator.'' ''calculator'' ''expression'' ''2+2''
               else if is_substring ''search'' (str_lower prompt) \<and> free
               then demo_call ''I should search for this.'' ''search'' ''query'' ''agent framework''
               else demo_final), s))"

section \<open>The endpoints\<close>

record run_request =
  rr_query :: string
  rr_mode :: string
  rr_max_steps :: int
  rr_max_tokens :: "int option"

record run_response =
  rp_answer :: string
  rp_mode :: string
  rp_steps_taken :: "int option"

text \<open>\<open>range(max_steps)\<close> is empty for a negative bound, which only the message shows.\<close>

definition steps_exceeded :: "string \<Rightarrow> int \<Rightarrow> py_exn" where
  "steps_exceeded who n = RuntimeError (who @ '' did not produce a Final Answer within '' @ int_str n @ '' steps.'')"

text \<open>A \<open>max_tokens\<close> of 0 is false, so it gives no guard.\<close>

definition guard_of :: "int option \<Rightarrow> cost_guard option" where
  "guard_of max_tokens =
     (case max_tokens of None \<Rightarrow> None | Some n \<Rightarrow> if n \<noteq> 0 then Some \<lparr>max_budget = n, token_count = 0\<rparr> else None)"

definition service_answer :: "(string \<Rightarrow> string result) \<Rightarrow> string \<Rightarrow> (string \<Rightarrow> pyval result) \<Rightarrow> run_request \<Rightarrow> string result" where
  "service_answer eval_str now loads req =
     (if rr_mode req = ''react''
      then (if rr_max_steps req < 0 then Inl (steps_exceeded ''Agent'' (rr_max_steps req))
            else fst (react_run (react_default_registry eval_str now) demo_llm (nat (rr_max_steps req)) (rr_query req) ()))
      else (if rr_max_steps req < 0 then Inl (steps_exceeded ''FunctionCallAgent'' (rr_max_steps req))
            else fst (fc_run (fc_default_registry eval_str now) loads demo_llm (nat (rr_max_steps req)) (rr_query req)
              \<lparr>fc_guard = guard_of (rr_max_tokens req), fc_events = [], fc_llm = ()\<rparr>)))"

definition run_agent :: "(string \<Rightarrow> string result) \<Rightarrow> string \<Rightarrow> (string \<Rightarrow> pyval result) \<Rightarrow> run_request \<Rightarrow> run_response http" where
  "run_agent eval_str now loads req =
     (if rr_mode req \<notin> {''react'', ''function''}
      then Inl (HttpError 400 (''mode must be '' @ quoted ''react'' @ '' or '' @ quoted ''function''))
      else case service_answer eval_str now loads req of
             Inl e \<Rightarrow> Inl (HttpError 500 (exn_text e))
           | Inr answer \<Rightarrow> Inr \<lparr>rp_answer = answer, rp_mode = rr_mode req, rp_steps_taken = None\<rparr>)"

record tool_entry =
  tn_name :: string
  tn_description :: string

definition tools_endpoint :: "(string \<Rightarrow> string result) \<Rightarrow> string \<Rightarrow> tool_entry list" where
  "tools_endpoint eval_str now =
     map (\<lambda>t. \<lparr>tn_name = ts_name t, tn_description = ts_description t\<rparr>) (dvals (fc_default_registry eval_str now))"

section \<open>The demonstration LLM never calls a tool\<close>

text \<open>Both system prompts contain the words that make it answer.\<close>

lemma is_substring_middle: "is_substring s (xs @ s @ ys)"
  by (auto simp: is_substring_iff)

lemma demo_llm_answers: "is_substring ''Final Answer:'' prompt \<Longrightarrow> demo_llm prompt s = (Inr demo_final, s)"
  by (simp add: demo_llm_def Let_def)

lemma react_prompt_says: "is_substring ''Final Answer:'' (build_prompt d query h)"
proof -
  have "\<exists>us vs. build_prompt d query h = us @ ''Final Answer:'' @ vs"
    unfolding build_prompt_def react_system_prompt_def
    by (intro exI [of _ "concat (map (\<lambda>l. l @ [line_feed])
      [''You are a helpful assistant with access to tools.'', [], ''Available tools:'', d, [],
       ''Use the following format exactly:'', [],
       ''Thought: your reasoning about what to do next'', ''Action: tool_name'',
       ''Action Input: the input to the tool'', ''Observation: (will be filled by the framework)'', [],
       ''Repeat Thought/Action/Action Input/Observation as needed.'',
       ''When you have the final answer, write:'', []])"] exI) simp
  then show ?thesis by (simp only: is_substring_iff)
qed

lemma function_prompt_says: "is_substring ''Final Answer:'' (str_join [line_feed] [''System: '' @ fc_system_prompt reg, ''User: '' @ query])"
proof -
  have "\<exists>us vs. str_join [line_feed] [''System: '' @ fc_system_prompt reg, ''User: '' @ query] = us @ ''Final Answer:'' @ vs"
    unfolding fc_system_prompt_def
    by (intro exI [of _ "''System: '' @ concat (map (\<lambda>l. l @ [line_feed])
       [''You are a helpful assistant with access to tools.'', [], system_prompt_section reg, [],
        ''Always reason step by step. When you have enough information, write:''])"] exI) simp
  then show ?thesis by (simp only: is_substring_iff)
qed

lemma demo_answer_parsed: "parse_final_answer demo_final = Some demo_answer"
  by code_simp

text \<open>With at least one step and no token budget, \<open>/run\<close> gives one and the same answer to every query in both modes: no tool
  runs, although the documentation of the demonstration LLM says that it calls the calculator and the search.\<close>

theorem run_agent_answers:
  assumes "rr_mode req = ''react'' \<or> rr_mode req = ''function'' \<and> (rr_max_tokens req = None \<or> rr_max_tokens req = Some 0)"
    and "1 \<le> rr_max_steps req"
  shows "run_agent eval_str now loads req = Inr \<lparr>rp_answer = demo_answer, rp_mode = rr_mode req, rp_steps_taken = None\<rparr>"
proof -
  have "nat (rr_max_steps req) \<noteq> 0" using assms(2) by simp
  then obtain n where n: "nat (rr_max_steps req) = Suc n" using not0_implies_Suc by blast
  have react: "fst (react_run reg demo_llm (Suc n) query s) = Inr demo_answer" for reg query and s :: unit
    by (simp add: react_run_def demo_llm_answers [OF react_prompt_says] demo_answer_parsed)
  have ask: "fc_ask demo_llm prompt \<lparr>fc_guard = None, fc_events = [], fc_llm = ()\<rparr> =
      (Inr demo_final, \<lparr>fc_guard = None, fc_events = [], fc_llm = ()\<rparr>)" if "is_substring ''Final Answer:'' prompt" for prompt
    using that by (simp add: fc_ask_def check_opt_def demo_llm_answers)
  have fcall: "fst (fc_run reg loads demo_llm (Suc n) query \<lparr>fc_guard = None, fc_events = [], fc_llm = ()\<rparr>) = Inr demo_answer"
    for reg query
    by (simp only: fc_run_def fc_loop.simps ask [OF function_prompt_says] prod.case sum.case demo_answer_parsed option.case fst_conv)
  have "service_answer eval_str now loads req = Inr demo_answer"
    using assms by (auto simp: service_answer_def n react fcall guard_of_def)
  with assms(1) show ?thesis by (auto simp: run_agent_def)
qed

end
