(* ===== verification/SpecServer.thy ===== *)
theory SpecServer
  imports SpecFormulas SpecTree PyValue
begin

text \<open>
  The speculative decoding service, \<open>labs/speculative-decoding/src/server.py\<close>. The two models of the decoder are
  parameters, an answer is a distribution as in \<open>Dist\<close>, and times are left out. What any batch returns, whatever the
  models, is proved here for the service.
\<close>

section \<open>The endpoints\<close>

definition vocab_size :: int where
  "vocab_size = 256"

text \<open>The global state: the \<open>K\<close> of the decoder, the statistics and the metrics.\<close>

record spec_server =
  sv_K :: nat
  sv_stats :: speedup_stats
  sv_metrics :: acceptance_metrics

definition new_spec_server :: spec_server where
  "new_spec_server = \<lparr>sv_K = 5, sv_stats = new_stats, sv_metrics = new_metrics\<rparr>"

record spec_request =
  gq_prompt_tokens :: "int list"
  gq_max_tokens :: int
  gq_K :: int

text \<open>What the field constraints of the request let through.\<close>

definition spec_request_valid :: "spec_request \<Rightarrow> bool" where
  "spec_request_valid q \<longleftrightarrow> 1 \<le> gq_max_tokens q \<and> gq_max_tokens q \<le> 200 \<and> 1 \<le> gq_K q \<and> gq_K q \<le> 20"

record spec_response =
  gp_generated_tokens :: "nat list"
  gp_tokens_generated :: nat
  gp_target_calls :: nat
  gp_acceptance_rate :: real
  gp_speedup :: real

definition accumulate :: "speedup_stats \<Rightarrow> speedup_stats \<Rightarrow> speedup_stats" where
  "accumulate a b = \<lparr>tokens_generated = tokens_generated a + tokens_generated b,
     draft_tokens_proposed = draft_tokens_proposed a + draft_tokens_proposed b,
     draft_tokens_accepted = draft_tokens_accepted a + draft_tokens_accepted b,
     target_calls = target_calls a + target_calls b, sequence_steps = sequence_steps a + sequence_steps b\<rparr>"

definition out_of_range :: "int \<Rightarrow> http_error" where
  "out_of_range t = HttpError 422 (''Token '' @ int_str t @ '' out of range [0, '' @ int_str vocab_size @ '')'')"

definition spec_endpoint :: "language_model \<Rightarrow> language_model \<Rightarrow> spec_request \<Rightarrow> spec_server \<Rightarrow> (spec_response http \<times> spec_server) dist" where
  "spec_endpoint draft target q sv =
     (case List.find (\<lambda>t. t < 0 \<or> vocab_size \<le> t) (gq_prompt_tokens q) of
        Some t \<Rightarrow> return_d (Inl (out_of_range t), sv)
      | None \<Rightarrow>
          bind_d (decode_single draft target (nat (gq_K q)) (map nat (gq_prompt_tokens q)) (gq_max_tokens q)) (\<lambda>(generated, st).
            return_d
              (Inr \<lparr>gp_generated_tokens = generated, gp_tokens_generated = length generated, gp_target_calls = target_calls st,
                    gp_acceptance_rate = stats_acceptance_rate st, gp_speedup = speedup_vs_standard st\<rparr>,
               \<lparr>sv_K = nat (gq_K q), sv_stats = accumulate (sv_stats sv) st,
                sv_metrics = (if 0 < target_calls st
                              then record_step (sv_metrics sv) (nat \<lfloor>real (draft_tokens_accepted st) / real (target_calls st)\<rfloor>)
                              else sv_metrics sv)\<rparr>)))"

record spec_stats_response =
  ss_total_tokens_generated :: nat
  ss_total_draft_tokens_proposed :: nat
  ss_total_target_calls :: nat
  ss_acceptance_rate :: real
  ss_speedup :: real
  ss_mean_accepted :: real
  ss_p95_accepted :: real
  ss_calls_per_1k :: real

definition spec_stats_endpoint :: "spec_server \<Rightarrow> spec_stats_response" where
  "spec_stats_endpoint sv =
     \<lparr>ss_total_tokens_generated = tokens_generated (sv_stats sv), ss_total_draft_tokens_proposed = draft_tokens_proposed (sv_stats sv),
      ss_total_target_calls = target_calls (sv_stats sv), ss_acceptance_rate = stats_acceptance_rate (sv_stats sv),
      ss_speedup = speedup_vs_standard (sv_stats sv), ss_mean_accepted = mean_accepted (sv_metrics sv),
      ss_p95_accepted = p95_accepted (sv_metrics sv), ss_calls_per_1k = target_calls_per_1k_tokens (sv_metrics sv)\<rparr>"

section \<open>What a batch returns\<close>

text \<open>The counts of a run: every step emits one token more than it accepts.\<close>

definition counts_ok :: "speedup_stats \<Rightarrow> bool" where
  "counts_ok st \<longleftrightarrow> tokens_generated st = draft_tokens_accepted st + sequence_steps st \<and>
     draft_tokens_accepted st \<le> draft_tokens_proposed st"

definition sequence_ok :: "int \<Rightarrow> sequence_state \<Rightarrow> bool" where
  "sequence_ok mx s \<longleftrightarrow> eos_token \<notin> set (sq_generated s) \<and> length (sq_generated s) \<le> cap mx \<and>
     (\<not> sq_finished s \<longrightarrow> length (sq_generated s) < cap mx)"

lemma append_tokens_ok:
  "sequence_ok mx s \<Longrightarrow> \<not> sq_finished s \<Longrightarrow>
   sequence_ok mx (append_tokens ts mx s) \<and>
   (\<not> sq_finished (append_tokens ts mx s) \<longrightarrow> length (sq_generated (append_tokens ts mx s)) = length (sq_generated s) + length ts)"
proof (induction ts arbitrary: s)
  case (Cons t ts)
  define s' where "s' = s\<lparr>sq_generated := sq_generated s @ [t], sq_context := sq_context s @ [t]\<rparr>"
  have step: "append_tokens (t # ts) mx s =
      (if t = eos_token then s\<lparr>sq_finished := True\<rparr>
       else if mx \<le> int (length (sq_generated s')) then s'\<lparr>sq_finished := True\<rparr> else append_tokens ts mx s')"
    using Cons.prems(2) by (simp add: s'_def Let_def)
  have len: "length (sq_generated s') = length (sq_generated s) + 1" by (simp add: s'_def)
  consider "t = eos_token" | "t \<noteq> eos_token" "mx \<le> int (length (sq_generated s'))" | "t \<noteq> eos_token" "\<not> mx \<le> int (length (sq_generated s'))"
    by blast
  then show ?case
  proof cases
    case 1
    with Cons.prems show ?thesis unfolding step by (simp add: sequence_ok_def)
  next
    case 2
    with Cons.prems len show ?thesis unfolding step by (simp add: sequence_ok_def) (simp add: s'_def)
  next
    case 3
    then have "length (sq_generated s') < cap mx" by (simp add: cap_def)
    then have ok: "sequence_ok mx s'" "\<not> sq_finished s'" using Cons.prems 3(1) len by (auto simp: sequence_ok_def s'_def)
    from Cons.IH [OF ok] 3 len show ?thesis unfolding step by simp
  qed
qed simp

lemma batch_round_ok:
  assumes q: "proper_lm n draft"
  shows "(ss', st') \<in> outcomes (batch_round draft target k mx ss st) \<Longrightarrow> \<forall>s\<in>set ss. sequence_ok mx s \<and> left_at_most mx (Suc m) s \<Longrightarrow>
    counts_ok st \<Longrightarrow>
    (\<forall>s\<in>set ss'. sequence_ok mx s \<and> left_at_most mx m s) \<and> counts_ok st' \<and> target_calls st' = target_calls st \<and> length ss' = length ss \<and>
    sequence_steps st' = sequence_steps st + length (filter (\<lambda>s. \<not> sq_finished s) ss)"
proof (induction ss arbitrary: st ss' st')
  case (Cons s ss)
  show ?case
  proof (cases "sq_finished s")
    case True
    with Cons.prems(1) obtain ss1 where "(ss1, st') \<in> outcomes (batch_round draft target k mx ss st)" "ss' = s # ss1" by auto
    with Cons.IH [of ss1 st' st] Cons.prems(2,3) True show ?thesis by (simp add: left_at_most_def)
  next
    case False
    with Cons.prems(1) obtain r ss1 where r: "r \<in> outcomes (speculative_step (sq_context s) draft target k)"
      and o: "(ss1, st') \<in> outcomes (batch_round draft target k mx ss (stats_update st r))"
      and ss: "ss' = append_tokens (accepted_tokens r) mx s # ss1" by auto
    note out = step_outcome [OF q r]
    then have acc: "n_accepted r \<le> n_draft_proposed r" by simp
    have "counts_ok (stats_update st r)"
      using Cons.prems(3) out acc by (simp add: counts_ok_def stats_update_def total_tokens_def)
    from Cons.IH [OF o _ this] Cons.prems(2) have rest: "\<forall>s\<in>set ss1. sequence_ok mx s \<and> left_at_most mx m s" "counts_ok st'"
      "target_calls st' = target_calls st" "length ss1 = length ss"
      "sequence_steps st' = sequence_steps st + 1 + length (filter (\<lambda>s. \<not> sq_finished s) ss)" by (simp_all add: stats_update_def)
    have "sequence_ok mx s" "left_at_most mx (Suc m) s" using Cons.prems(2) by simp_all
    with append_tokens_ok [OF this(1) False, of "accepted_tokens r"] out False
    have "sequence_ok mx (append_tokens (accepted_tokens r) mx s)" "left_at_most mx m (append_tokens (accepted_tokens r) mx s)"
      by (auto simp: left_at_most_def)
    with rest False ss show ?thesis by simp
  qed
qed simp

lemma batch_loop_ok:
  assumes q: "proper_lm n draft" and p: "proper_lm n target"
  shows "\<forall>s\<in>set states. sequence_ok mx s \<and> left_at_most mx m s \<Longrightarrow> counts_ok st \<Longrightarrow>
    proper_d (batch_loop draft target k mx m states st) \<and>
    (\<forall>(gen, st')\<in>outcomes (batch_loop draft target k mx m states st).
      length gen = length states \<and> (\<forall>g\<in>set gen. eos_token \<notin> set g \<and> length g \<le> cap mx) \<and> counts_ok st' \<and>
      (\<exists>c d. target_calls st' = target_calls st + c \<and> sequence_steps st' = sequence_steps st + d \<and> c \<le> d \<and> d \<le> length states * c \<and>
        c \<le> m \<and> ((\<exists>s\<in>set states. \<not> sq_finished s) \<longrightarrow> 0 < c)))"
proof (induction m arbitrary: states st)
  case 0
  then have "\<forall>s\<in>set states. sq_finished s" by (auto simp: left_at_most_def sequence_ok_def)
  with 0 show ?case by (subst (1 2) batch_loop.simps) (auto simp: sequence_ok_def)
next
  case (Suc m)
  let ?st = "st\<lparr>target_calls := target_calls st + 1\<rparr>"
  show ?case
  proof (cases "\<forall>s\<in>set states. sq_finished s")
    case True
    with Suc.prems show ?thesis by (subst (1 2) batch_loop.simps) (auto simp: sequence_ok_def)
  next
    case False
    then have unfin: "0 < length (filter (\<lambda>s. \<not> sq_finished s) states)" by (auto simp: filter_empty_conv)
    have count: "counts_ok ?st" using Suc.prems(2) by (simp add: counts_ok_def)
    have turn: "batch_loop draft target k mx (Suc m) states st
        = bind_d (batch_round draft target k mx states ?st) (\<lambda>(ss', st'). batch_loop draft target k mx m ss' st')"
      using False by (subst batch_loop.simps) auto
    note round = batch_round_ok [OF q _ Suc.prems(1) count]
    have "proper_d (batch_loop draft target k mx (Suc m) states st)"
      unfolding turn by (rule proper_bind [OF batch_round_turns(1) [OF q p]]) (use round Suc.IH in fastforce)
    moreover have "length gen = length states \<and> (\<forall>g\<in>set gen. eos_token \<notin> set g \<and> length g \<le> cap mx) \<and> counts_ok st2 \<and>
      (\<exists>c d. target_calls st2 = target_calls st + c \<and> sequence_steps st2 = sequence_steps st + d \<and> c \<le> d \<and> d \<le> length states * c \<and>
        c \<le> Suc m \<and> 0 < c)" if o: "(gen, st2) \<in> outcomes (batch_loop draft target k mx (Suc m) states st)" for gen st2
    proof -
      from o obtain ss' st' where o1: "(ss', st') \<in> outcomes (batch_round draft target k mx states ?st)"
        and o2: "(gen, st2) \<in> outcomes (batch_loop draft target k mx m ss' st')"
        unfolding turn outcomes_bind by (auto simp only: UN_iff split: prod.splits)
      note r = round [OF o1]
      with Suc.IH [of ss' st'] o2 obtain c d where ih: "length gen = length ss'" "\<forall>g\<in>set gen. eos_token \<notin> set g \<and> length g \<le> cap mx"
        "counts_ok st2" "target_calls st2 = target_calls st' + c" "sequence_steps st2 = sequence_steps st' + d" "c \<le> d"
        "d \<le> length ss' * c" "c \<le> m" by blast
      let ?u = "length (filter (\<lambda>s. \<not> sq_finished s) states)"
      have "d \<le> length states * c" using ih(7) r by simp
      then have "?u + d \<le> length states * Suc c"
        using length_filter_le [of "\<lambda>s. \<not> sq_finished s" states] by (metis add_mono mult_Suc_right)
      moreover have "Suc c \<le> ?u + d" using unfin ih(6) by linarith
      moreover have "target_calls st2 = target_calls st + Suc c" "sequence_steps st2 = sequence_steps st + (?u + d)"
        "length gen = length states" "Suc c \<le> Suc m" using ih r by simp_all
      ultimately show ?thesis using ih(2,3) by blast
    qed
    ultimately show ?thesis by blast
  qed
qed

lemma decode_single_ok:
  assumes "proper_lm n draft" and "proper_lm n target" and "1 \<le> mx"
  shows "proper_d (decode_single draft target k prompt mx)"
    and "(g, st) \<in> outcomes (decode_single draft target k prompt mx) \<Longrightarrow>
      eos_token \<notin> set g \<and> int (length g) \<le> mx \<and> counts_ok st \<and> sequence_steps st = target_calls st \<and>
      0 < target_calls st \<and> int (target_calls st) \<le> mx"
proof -
  have start: "\<forall>s\<in>set [new_sequence prompt]. sequence_ok mx s \<and> left_at_most mx (nat (max 1 mx)) s" "counts_ok new_stats"
    using assms(3) by (auto simp: sequence_ok_def new_sequence_def left_at_most_def cap_def counts_ok_def new_stats_def)
  note loop = batch_loop_ok [OF assms(1,2) start, of k]
  then show "proper_d (decode_single draft target k prompt mx)"
    unfolding decode_single_def decode_batch_def by (auto intro!: proper_bind)
  assume "(g, st) \<in> outcomes (decode_single draft target k prompt mx)"
  then obtain gen where o: "(gen, st) \<in> outcomes (batch_loop draft target k mx (nat (max 1 mx)) [new_sequence prompt] new_stats)"
    and g: "g = gen ! 0" unfolding decode_single_def decode_batch_def by auto
  from loop o obtain c d where "length gen = 1" "\<forall>g\<in>set gen. eos_token \<notin> set g \<and> length g \<le> cap mx" "counts_ok st"
    "target_calls st = c" "sequence_steps st = d" "c \<le> d" "d \<le> c" "c \<le> nat (max 1 mx)" "0 < c"
    by (fastforce simp: new_stats_def new_sequence_def)
  with g assms(3) show "eos_token \<notin> set g \<and> int (length g) \<le> mx \<and> counts_ok st \<and> sequence_steps st = target_calls st \<and>
      0 < target_calls st \<and> int (target_calls st) \<le> mx"
    by (cases gen) (auto simp: cap_def)
qed

section \<open>The service\<close>

inductive spec_reach :: "language_model \<Rightarrow> language_model \<Rightarrow> spec_server \<Rightarrow> bool" for draft target where
  start: "spec_reach draft target new_spec_server"
| request: "spec_reach draft target sv \<Longrightarrow> spec_request_valid q \<Longrightarrow> (r, sv') \<in> outcomes (spec_endpoint draft target q sv) \<Longrightarrow>
    spec_reach draft target sv'"

text \<open>The totals of the service: one sequence per request, so steps and target calls agree.\<close>

definition totals_ok :: "speedup_stats \<Rightarrow> bool" where
  "totals_ok st \<longleftrightarrow> counts_ok st \<and> sequence_steps st = target_calls st"

lemma totals_rates:
  assumes "totals_ok st"
  shows "0 \<le> stats_acceptance_rate st \<and> stats_acceptance_rate st \<le> 1 \<and> (0 < target_calls st \<longrightarrow> 1 \<le> speedup_vs_standard st)"
  using assms by (simp add: totals_ok_def counts_ok_def stats_acceptance_rate_def speedup_vs_standard_def)

lemma endpoint_cases:
  assumes "(r, sv') \<in> outcomes (spec_endpoint draft target q sv)"
  obtains (rejected) t where "t \<in> set (gq_prompt_tokens q)" "r = Inl (out_of_range t)" "sv' = sv"
  | (answered) g st where "(g, st) \<in> outcomes (decode_single draft target (nat (gq_K q)) (map nat (gq_prompt_tokens q)) (gq_max_tokens q))"
    "r = Inr \<lparr>gp_generated_tokens = g, gp_tokens_generated = length g, gp_target_calls = target_calls st,
       gp_acceptance_rate = stats_acceptance_rate st, gp_speedup = speedup_vs_standard st\<rparr>"
    "sv_stats sv' = accumulate (sv_stats sv) st"
proof (cases "List.find (\<lambda>t. t < 0 \<or> vocab_size \<le> t) (gq_prompt_tokens q)")
  case None
  then show ?thesis using assms answered by (auto simp: spec_endpoint_def)
next
  case (Some t)
  then have "t \<in> set (gq_prompt_tokens q)" by (auto simp: find_Some_iff)
  then show ?thesis using assms rejected Some by (simp add: spec_endpoint_def)
qed

lemma accumulate_ok: "totals_ok a \<Longrightarrow> totals_ok b \<Longrightarrow> totals_ok (accumulate a b)"
  by (simp add: totals_ok_def counts_ok_def accumulate_def)

lemma spec_reach_totals:
  assumes "proper_lm n draft" and "proper_lm n target"
  shows "spec_reach draft target sv \<Longrightarrow> totals_ok (sv_stats sv)"
proof (induction rule: spec_reach.induct)
  case (request sv q r sv')
  from request.hyps(3) show ?case
  proof (cases rule: endpoint_cases)
    case (answered g st)
    have "1 \<le> gq_max_tokens q" using request.hyps(2) by (simp add: spec_request_valid_def)
    from decode_single_ok(2) [OF assms this answered(1)] have "totals_ok st" by (simp add: totals_ok_def)
    with request.IH answered(3) show ?thesis by (simp add: accumulate_ok)
  qed (use request.IH in simp)
qed (simp add: totals_ok_def counts_ok_def new_spec_server_def new_stats_def)

text \<open>In every state the service reaches with proper models, a request with a prompt in range is answered with probability 1:
  at most \<open>max_tokens\<close> tokens, no EOS among them, in at most as many target calls, and the rates of the answer and of
  \<open>/stats\<close> are sane: acceptance within 0 and 1, at least one token per target call.\<close>

theorem spec_service_answers:
  assumes "proper_lm n draft" and "proper_lm n target" and "spec_reach draft target sv" and "spec_request_valid q"
    and "\<forall>t\<in>set (gq_prompt_tokens q). 0 \<le> t \<and> t < vocab_size"
  shows "proper_d (spec_endpoint draft target q sv)"
    and "\<forall>(r, sv')\<in>outcomes (spec_endpoint draft target q sv). \<exists>p. r = Inr p \<and>
      eos_token \<notin> set (gp_generated_tokens p) \<and> int (gp_tokens_generated p) \<le> gq_max_tokens q \<and>
      int (gp_target_calls p) \<le> gq_max_tokens q \<and> 0 \<le> gp_acceptance_rate p \<and> gp_acceptance_rate p \<le> 1 \<and> 1 \<le> gp_speedup p \<and>
      ss_total_target_calls (spec_stats_endpoint sv') = ss_total_target_calls (spec_stats_endpoint sv) + gp_target_calls p \<and>
      ss_acceptance_rate (spec_stats_endpoint sv') \<le> 1 \<and> 1 \<le> ss_speedup (spec_stats_endpoint sv')"
proof -
  have mx: "1 \<le> gq_max_tokens q" using assms(4) by (simp add: spec_request_valid_def)
  have find: "List.find (\<lambda>t. t < 0 \<or> vocab_size \<le> t) (gq_prompt_tokens q) = None"
    using assms(5) by (auto simp: find_None_iff)
  show "proper_d (spec_endpoint draft target q sv)"
    using decode_single_ok(1) [OF assms(1,2) mx] by (auto simp: spec_endpoint_def find intro!: proper_bind)
  show "\<forall>(r, sv')\<in>outcomes (spec_endpoint draft target q sv). \<exists>p. r = Inr p \<and>
      eos_token \<notin> set (gp_generated_tokens p) \<and> int (gp_tokens_generated p) \<le> gq_max_tokens q \<and>
      int (gp_target_calls p) \<le> gq_max_tokens q \<and> 0 \<le> gp_acceptance_rate p \<and> gp_acceptance_rate p \<le> 1 \<and> 1 \<le> gp_speedup p \<and>
      ss_total_target_calls (spec_stats_endpoint sv') = ss_total_target_calls (spec_stats_endpoint sv) + gp_target_calls p \<and>
      ss_acceptance_rate (spec_stats_endpoint sv') \<le> 1 \<and> 1 \<le> ss_speedup (spec_stats_endpoint sv')"
  proof (clarify, goal_cases)
    case (1 r sv')
    then show ?case
    proof (cases rule: endpoint_cases)
      case (rejected t)
      with 1 find show ?thesis by (auto simp: spec_endpoint_def)
    next
      case (answered g st)
      from decode_single_ok(2) [OF assms(1,2) mx answered(1)] have st: "eos_token \<notin> set g" "int (length g) \<le> gq_max_tokens q"
        "totals_ok st" "0 < target_calls st" "int (target_calls st) \<le> gq_max_tokens q" by (simp_all add: totals_ok_def)
      have "totals_ok (sv_stats sv')" using answered(3) st(3) spec_reach_totals [OF assms(1-3)] by (simp add: accumulate_ok)
      moreover have "target_calls (sv_stats sv') = target_calls (sv_stats sv) + target_calls st"
        using answered(3) by (simp add: accumulate_def)
      ultimately show ?thesis
        using answered(2) st totals_rates [OF st(3)] totals_rates [of "sv_stats sv'"] by (simp add: spec_stats_endpoint_def)
    qed
  qed
qed

end
