(* ===== verification/Spec2Isabelle.thy ===== *)
theory Spec2Isabelle
  imports ComfyProperties TokenizerProperties InferenceProperties McpProperties AgentProperties EmbeddingProperties SpecProperties QuantProperties QuantModels RagProperties EvalProperties VoiceProperties PromptProperties
    InferenceServer AgentServer SpecServer
begin

text \<open>
  A verification library for the Python labs of \<open>system-design-labs\<close>. Each lab under \<open>src/labs\<close> is a
  small system built in stages (\<open>v0\<close>, \<open>v1\<close>, \<open>v2\<close>) with a service on top; the theories follow the
  files of the labs. The library models the labs whose core is program logic rather than tensor
  arithmetic.

  \<^bold>\<open>Foundations.\<close> \<open>Prelude\<close>: exceptions as values (\<open>py_exn\<close>, \<open>'a result\<close>), sequencing (\<open>rbind\<close>,
  \<open>rmap\<close>, \<open>rfold\<close>). \<open>PyDict\<close>: insertion-ordered dictionaries, with the locale \<open>mapping\<close>. \<open>PyValue\<close>: JSON
  values, \<open>str\<close>, string methods. \<open>PyJson\<close>: dynamic attribute access with the exceptions of CPython,
  \<open>json.dumps\<close>, \<open>string.Template\<close>. \<open>JsonParse\<close>, \<open>JsonLaws\<close>, \<open>JsonRound\<close>: \<open>json.loads\<close> with its fuel, which is
  always enough, and its round trip with \<open>json.dumps\<close>. \<open>Utf8\<close>: UTF-8 with \<open>errors="replace"\<close> and base 64, with round trips.

  \<^bold>\<open>comfyui-executor.\<close> \<open>Dag\<close>, \<open>DagTopo\<close> and \<open>DagExec\<close> (\<open>v0_dag.py\<close>): the workflow graph, Kahn's algorithm with
  its queue, the executor and the node types; \<open>dataflow\<close> is the abstract specification, the equations
  a result must satisfy, and the executor computes their unique solution. \<open>CacheExec\<close> (\<open>v1_cached.py\<close>):
  the content-addressed cache; \<open>store_ok\<close> says every entry is the output of its key, from which the
  cached run equals the plain one. \<open>Lru\<close> and \<open>Offload\<close> (\<open>v2_offload.py\<close>): model pools; the locale of \<open>Lru\<close>
  is a pool of a fixed number of slots, refined by \<open>ensure_loaded\<close>. \<open>ComfyWorkflow\<close> (\<open>workflow.py\<close>) parses
  documents; \<open>node_shows\<close> and \<open>edge_shows\<close> say what the graph has of them. \<open>ComfyServer\<close> (\<open>server.py\<close>) is a step
  relation over submissions and worker threads, one access to the shared state per step (\<open>thread_step\<close>,
  \<open>load_step\<close>): the unlocked registry may raise, the status is visible before the outputs, and a prompt may
  be pending and out of the queue; \<open>registry_race\<close> reaches the first. A thread takes at most 15 steps per
  node and 9 around them (\<open>steps_left\<close>). \<open>ComfyProperties\<close> states the results. SHA-256 and \<open>json.dumps(sort_keys)\<close> are the
  fields of \<open>hasher\<close>; \<open>collision_free\<close> is the assumption that these do not collide on the payloads and input values at hand.

  \<^bold>\<open>tokenizer.\<close> \<open>CharTokenizer\<close>, \<open>Bpe\<close> and \<open>Gpt2Bpe\<close> (\<open>v0_char.py\<close>, \<open>v1_bpe.py\<close>, \<open>v2_gpt2bpe.py\<close>, \<open>server.py\<close>). The
  locale \<open>byte_tokenizer\<close> is the contract of a byte-level tokenizer (round trip, injectivity, joining,
  length), interpreted on both byte-pair tokenizers. The Unicode classes of the split pattern are the
  parameter \<open>charclass\<close>. Results in \<open>TokenizerProperties\<close>.

  \<^bold>\<open>llm-inference.\<close> \<open>KvCache\<close> and \<open>Generation\<close> (\<open>v0_naive.py\<close>, \<open>v1_kv_cache.py\<close>), \<open>PagedCache\<close> and
  \<open>BatchedEngine\<close> (\<open>v2_batched.py\<close>). The transformer, its sampler and its tokenizer are the record \<open>lm\<close>;
  \<open>kv_consistent\<close> is the documented meaning of \<open>past_key_values\<close>. \<open>paged_ok\<close> is the invariant of the page
  table and the locale \<open>page_allocator\<close> its contract; \<open>engine_ok\<close> the invariant of the scheduler. The
  fuel of \<open>run_until_empty\<close> is the number of tokens still to generate, proved to be enough. Which free
  page \<open>set.pop\<close> takes is the parameter \<open>pick\<close>. Clocks are left out. \<open>InferenceServer\<close> (\<open>server.py\<close>) is the
  service, whose handlers do not interleave in the model. Results in \<open>InferenceProperties\<close> and \<open>InferenceServer\<close>.

  \<^bold>\<open>mcp-server.\<close> \<open>McpProtocol\<close> (\<open>protocol.py\<close>), \<open>McpV0\<close> (\<open>v0_stdio.py\<close>), \<open>McpV1\<close> (\<open>v1_http.py\<close>),
  \<open>McpV2\<close> and \<open>McpServer\<close> (\<open>v2_advanced.py\<close>, \<open>server.py\<close>). The locale \<open>rpc_server\<close> is the JSON-RPC contract
  of a dispatcher, interpreted on the three servers. The file system, path resolution, the JSON
  parser and the registered tool functions are parameters. Results in \<open>McpProperties\<close>.

  \<^bold>\<open>agent-framework.\<close> \<open>AgentReact\<close> (\<open>v0_react.py\<close>, \<open>tools.py\<close>), \<open>AgentFunction\<close> (\<open>v1_function_call.py\<close>) and
  \<open>AgentAsync\<close> (\<open>v2_async.py\<close>, \<open>agent.py\<close>): tool registries, the regular expressions written out as
  searches, schema validation, the token budget, the memory and the three loops, each bounded by
  \<open>max_steps\<close>. The LLM is a function on a state of its own, so it may answer anything at each call; the
  subprocess of the sandbox and the calculator's evaluator are parameters; \<open>json.loads\<close> is one in the
  definitions and \<open>json_loads\<close> in the results. \<open>react_steps\<close>
  is the abstract run the loop refines. \<open>AgentServer\<close> (\<open>server.py\<close>) is the service. Results in \<open>AgentProperties\<close>.

  \<^bold>\<open>embedding-pipeline.\<close> \<open>EmbCache\<close> (\<open>v0_single.py\<close>, \<open>v1_batched.py\<close>): encoding with its normalization over the
  reals, the LRU cache (a second instance of the pool of \<open>Lru\<close>), the queue and the worker, whose
  batches are the list \<open>ks\<close> of how many requests came in time. \<open>EmbSession\<close> proves that cache and batches do
  not show. \<open>EmbVersions\<close> (\<open>v2_versioned.py\<close>): registry, drift, pins. \<open>EmbServer\<close> (\<open>pipeline.py\<close>,
  \<open>server.py\<close>): the endpoints, the states the service reaches and their invariant. The models,
  SHA-256, \<open>argsort\<close> and the clock are parameters; requests do not overlap in the model. Results in
  \<open>EmbeddingProperties\<close>.

  \<^bold>\<open>speculative-decoding.\<close> \<open>Dist\<close>: finite distributions, the model of random choice; a run that raises or
  runs out of fuel has no outcome, so total probability 1 means that no run fails. \<open>SpecDecode\<close>
  (\<open>models.py\<close>, \<open>v0_basic.py\<close>), \<open>SpecBatch\<close> (\<open>v1_batched.py\<close>) and \<open>SpecTree\<close> (\<open>v2_tree.py\<close>) follow the files.
  \<open>SpecLaws\<close> proves the law of the first token of a step and that \<open>max_tokens\<close> is enough fuel, \<open>SpecGreedy\<close> and
  \<open>SpecFormulas\<close> the equivalence with greedy decoding (the abstract specification \<open>greedy_decode\<close>),
  the expected number of tokens and the inversion of the speedup formula, \<open>SpecTreeLaws\<close> the
  shape of draft trees, \<open>SpecServer\<close> (\<open>server.py\<close>) the service and what any batch
  returns. Probabilities are reals, \<open>topk\<close> and the forward pass are parameters. Results in \<open>SpecProperties\<close>.

  \<^bold>\<open>model-quantizer.\<close> \<open>Quant\<close> (\<open>v0_int8.py\<close>, \<open>v1_int4.py\<close>): the INT8 and the grouped INT4 quantizer over
  reals, with the stored integers as 8-bit words. \<open>QuantQuality\<close> (\<open>v2_quality.py\<close>): perplexity, the scheme
  table, mixed precision. \<open>Gguf\<close> (\<open>gguf_lite.py\<close>): the container, byte by byte. \<open>QuantLaws\<close>: rounding,
  nibbles, groups; \<open>GgufLaws\<close>: each reader inverts its writer and sees the end of a cut file; \<open>QuantModels\<close>:
  whole models, and the locale \<open>tensor_codec\<close>, the contract of a quantizer, interpreted on both. Rounding to
  \<open>float32\<close> is not modelled; a stored \<open>float32\<close> is its bit pattern and its conversion a parameter.
  \<open>QuantModels\<close> ends with the service (\<open>server.py\<close>). Results in \<open>QuantProperties\<close>.

  \<^bold>\<open>rag.\<close> \<open>RagChunk\<close> and \<open>Rag\<close> (\<open>v0_naive.py\<close>, \<open>v1_hybrid.py\<close>, \<open>v2_rerank.py\<close>): the chunker, whose
  abstract specification are the overlapping \<open>windows\<close> of the text, and the three retrieval pipelines.
  \<open>Rag\<close> ends with the service and the evaluation (\<open>server.py\<close>). \<open>RagLaws\<close>: what numpy's sorts (\<open>sorts_ok\<close>) give the top-k search
  (\<open>best_k\<close>), and rank fusion; \<open>RagPipeline\<close>: the invariants of the indexes, the states the service reaches, and
  the locale \<open>retriever\<close>, interpreted on the three pipelines and on the service. The encoder, BM25Okapi, the
  cross-encoder and the LLM are parameters. Results in \<open>RagProperties\<close>.

  \<^bold>\<open>llm-eval.\<close> \<open>PyText\<close>: splitting into words. \<open>EvalFewshot\<close> (\<open>tasks.py\<close>, \<open>v0_fewshot.py\<close>), \<open>EvalLogprob\<close>
  (\<open>v1_logprob.py\<close>), \<open>EvalContam\<close> (\<open>v2_contamination.py\<close>, \<open>harness.py\<close>) and \<open>EvalServer\<close> (\<open>tasks.py\<close>, \<open>server.py\<close>).
  \<open>EvalFewshotLaws\<close>: normalization is a function of the words of a text, prompts do not show the answer;
  \<open>EvalLogprobLaws\<close>: the locale \<open>scorer\<close>, a scoring function whose state does not show, interpreted on the three
  modes; \<open>EvalServer\<close> also has the laws: contamination as a relation between word sequences, and the bounds of the bootstrap
  figures. Resamples and \<open>numpy.percentile\<close> are parameters. Results in \<open>EvalProperties\<close>.

  \<^bold>\<open>voice-assistant.\<close> \<open>VoiceAudio\<close> (\<open>v0_stt.py\<close>) and \<open>Voice\<close> (\<open>v1_llm.py\<close>, \<open>v2_tts.py\<close>, \<open>server.py\<close>).
  \<open>VoiceProperties\<close>: \<open>segments\<close> is the abstract segmentation of a stream that the buffer refines; WAV files read back.
  Then the history as a \<open>window\<close>, what a response depends on, a session turn by turn (\<open>answered\<close>), each
  turn on the history of all before it, and the results. The Whisper model, the stub transformer and the speech engine are
  parameters.

  \<^bold>\<open>prompt-optimization.\<close> \<open>PromptOpt\<close> (\<open>v0_signature.py\<close>, \<open>v1_bootstrap.py\<close>, \<open>evaluate.py\<close>): modules, the parser of
  answers, evaluation, bootstrapped demonstrations; \<open>PromptTele\<close> (\<open>v2_teleprompter.py\<close>, \<open>server.py\<close>): the call budget,
  the optimizers, the service. \<open>PromptProperties\<close> has the locale \<open>answering\<close>, an LLM that answers while a budget lasts,
  interpreted on the counting wrapper, the locale \<open>keeping\<close>, an invariant of the LLM's state, interpreted on it with a
  log, the abstract run \<open>search_run\<close>, and the results. The LLM and the choices of \<open>random.sample\<close> are parameters.

  \<^bold>\<open>Not modelled.\<close> The labs written in Go, Rust and Java; tensor and training code (\<open>transformer\<close>,
  \<open>lora-finetune\<close>, \<open>sd-finetuner\<close>, \<open>controlnet\<close>, \<open>multimodal-server\<close>), whose content is floating-point
  arithmetic of torch; benchmark scripts and command lines; FastAPI routing; \<open>execute_python\<close>, which runs
  the interpreter. Text outside ASCII is modelled where it matters (the tokenizers, whose texts are
  lists of code points); elsewhere strings are 8-bit.
\<close>

end
